(* ===== verification/Emwin_Prelude.thy ===== *)
theory Emwin_Prelude
  imports Main "HOL-Library.Word" "HOL-Library.Sublist"
begin

text \<open>
  What the components share: the integer types of the source and their saturating
  arithmetic, and the part of the Rust standard library the sources use on slices and
  strings.

  A \<^verbatim>\<open>u8\<close>, \<^verbatim>\<open>u16\<close>, \<^verbatim>\<open>u32\<close> or \<^verbatim>\<open>u64\<close> is a word of that width; a \<^verbatim>\<open>usize\<close>
  (a length or an index of something in memory) is a \<^typ>\<open>nat\<close>.  A byte buffer is a list
  of \<open>u8\<close>.  A Rust \<^verbatim>\<open>str\<close> is the list of its UTF-8 bytes as HOL characters (a HOL
  character is eight bits), so \<^const>\<open>length\<close> is Rust's \<^verbatim>\<open>len\<close> and byte offsets are
  list positions; \<open>str_of\<close> and \<open>bytes_of\<close> convert.  A \<^verbatim>\<open>Duration\<close> or
  \<^verbatim>\<open>Instant\<close> is a number of nanoseconds (\<^typ>\<open>nat\<close>), a \<^verbatim>\<open>SystemTime\<close> a signed number
  of nanoseconds from the Unix epoch (\<^typ>\<open>int\<close>).  A \<^verbatim>\<open>Result\<close> is a sum with the error on
  the left.
\<close>

unbundle bit_operations_syntax

named_theorems emwin_defs \<open>definitions of small operations, for unfolding\<close>

section \<open>Types\<close>

type_synonym u8 = "8 word"
type_synonym u16 = "16 word"
type_synonym u32 = "32 word"
type_synonym u64 = "64 word"
type_synonym bytes = "u8 list"
type_synonym str = string
type_synonym duration = nat
type_synonym instant = nat
type_synonym system_time = int

abbreviation nanos_per_sec :: nat where
  "nanos_per_sec \<equiv> 1000000000"

abbreviation secs :: "nat \<Rightarrow> duration" where
  "secs n \<equiv> n * nanos_per_sec"

section \<open>Saturating arithmetic\<close>

definition sat_add :: "'a::len word \<Rightarrow> 'a word \<Rightarrow> 'a word" where
  "sat_add a b = (if unat a + unat b < 2 ^ LENGTH('a) then a + b else - 1)"

lemma unat_bound: "unat (a :: 'a::len word) < 2 ^ LENGTH('a)"
  by (rule unsigned_less)

lemma unat_max_word: "unat (- 1 :: 'a::len word) = 2 ^ LENGTH('a) - 1"
  by (simp add: unsigned_minus_1_eq_mask mask_eq_exp_minus_1)

lemma unat_sat_add: "unat (sat_add a b :: 'a::len word) = min (unat a + unat b) (2 ^ LENGTH('a) - 1)"
proof (cases "unat a + unat b < 2 ^ LENGTH('a)")
  case True
  then have "unat (a + b) = unat a + unat b" by (simp add: unat_word_ariths)
  with True show ?thesis by (simp add: sat_add_def)
next
  case False
  then show ?thesis by (simp add: sat_add_def unat_max_word)
qed

lemma sat_add_mono: "a \<le> sat_add a (b :: 'a::len word)"
proof -
  have "unat a \<le> 2 ^ LENGTH('a) - 1"
    using unat_bound [of a] by linarith
  then show ?thesis by (simp add: word_le_nat_alt unat_sat_add)
qed

lemma sat_add_0 [simp]: "sat_add a 0 = a" "sat_add 0 a = (a :: 'a::len word)"
  using unat_bound [of a] by (simp_all add: sat_add_def)

lemma sat_add_assoc: "sat_add (sat_add a b) c = sat_add a (sat_add b (c :: 'a::len word))"
  by (simp add: word_unat_eq_iff unat_sat_add)

lemma sat_add_commute: "sat_add a b = sat_add b (a :: 'a::len word)"
  by (simp add: sat_add_def add.commute)

lemma unat_sat_add_1: "unat (sat_add a 1 :: 'a::len word) = min (Suc (unat a)) (2 ^ LENGTH('a) - 1)"
proof (cases "LENGTH('a) = 1")
  case True
  then have "(1 :: 'a word) = 1 \<and> unat (1 :: 'a word) = 1" by simp
  then show ?thesis by (simp add: unat_sat_add)
qed (simp add: unat_sat_add)

section \<open>Bytes and strings\<close>

definition byte_of :: "char \<Rightarrow> u8" where
  "byte_of c = of_char c"

definition char_of_byte :: "u8 \<Rightarrow> char" where
  "char_of_byte b = char_of (unat b)"

definition bytes_of :: "str \<Rightarrow> bytes" where
  "bytes_of s = map byte_of s"

definition str_of :: "bytes \<Rightarrow> str" where
  "str_of bs = map char_of_byte bs"

lemma unat_byte_of [simp]: "unat (byte_of c) = of_char c"
proof -
  have "(of_char c :: nat) < 256" by (cases c) (simp add: of_char_def)
  moreover have "byte_of c = of_nat (of_char c)"
    by (cases c) (simp add: byte_of_def of_char_def)
  ultimately show ?thesis by (simp add: unat_of_nat)
qed

lemma char_of_byte_of [simp]: "char_of_byte (byte_of c) = c"
  by (simp add: char_of_byte_def)

lemma byte_of_char_of [simp]: "byte_of (char_of_byte b) = b"
proof -
  have "unat b < 256" using unat_bound [of b] by simp
  then have "unat (byte_of (char_of_byte b)) = unat b"
    by (simp add: char_of_byte_def)
  then show ?thesis by (rule unsigned_word_eqI)
qed

lemma byte_of_eq_iff [simp]: "byte_of c = byte_of d \<longleftrightarrow> c = d"
  by (metis char_of_byte_of)

lemma byte_of_nul: "byte_of CHR 0x00 = 0"
  by (simp add: byte_of_def)

lemma byte_of_eq_0 [simp]: "byte_of c = 0 \<longleftrightarrow> c = CHR 0x00" "0 = byte_of c \<longleftrightarrow> c = CHR 0x00"
  by (auto simp flip: byte_of_nul)

lemma str_of_bytes_of [simp]: "str_of (bytes_of s) = s"
  by (simp add: str_of_def bytes_of_def o_def)

lemma bytes_of_str_of [simp]: "bytes_of (str_of bs) = bs"
  by (simp add: str_of_def bytes_of_def o_def)

lemma length_str_of [simp]: "length (str_of bs) = length bs"
  by (simp add: str_of_def)

lemma length_bytes_of [simp]: "length (bytes_of s) = length s"
  by (simp add: bytes_of_def)

lemma bytes_of_append [simp]: "bytes_of (s @ t) = bytes_of s @ bytes_of t"
  by (simp add: bytes_of_def)

lemma str_of_append [simp]: "str_of (s @ t) = str_of s @ str_of t"
  by (simp add: str_of_def)

section \<open>Searching and splitting\<close>

text \<open>\<^verbatim>\<open>str::find\<close> and \<^verbatim>\<open>windows(n).position(..)\<close>: the first position of a sublist.\<close>

fun find_sub :: "'a list \<Rightarrow> 'a list \<Rightarrow> nat option" where
  "find_sub p [] = (if p = [] then Some 0 else None)"
| "find_sub p (x # xs) = (if prefix p (x # xs) then Some 0 else map_option Suc (find_sub p xs))"

text \<open>\<^verbatim>\<open>iter().position(..)\<close>.\<close>

fun position :: "('a \<Rightarrow> bool) \<Rightarrow> 'a list \<Rightarrow> nat option" where
  "position P [] = None"
| "position P (x # xs) = (if P x then Some 0 else map_option Suc (position P xs))"

definition strip_prefix :: "'a list \<Rightarrow> 'a list \<Rightarrow> 'a list option" where
  "strip_prefix p s = (if prefix p s then Some (drop (length p) s) else None)"

definition strip_suffix :: "'a list \<Rightarrow> 'a list \<Rightarrow> 'a list option" where
  "strip_suffix p s = (if suffix p s then Some (take (length s - length p) s) else None)"

text \<open>\<^verbatim>\<open>str::split(char)\<close> and \<^verbatim>\<open>[..].join(sep)\<close>.\<close>

fun split_char :: "'a \<Rightarrow> 'a list \<Rightarrow> 'a list list" where
  "split_char c [] = [[]]"
| "split_char c (x # xs) =
     (if x = c then [] # split_char c xs
      else case split_char c xs of [] \<Rightarrow> [[x]] | y # ys \<Rightarrow> (x # y) # ys)"

fun join :: "'a list \<Rightarrow> 'a list list \<Rightarrow> 'a list" where
  "join sep [] = []"
| "join sep [x] = x"
| "join sep (x # y # ys) = x @ sep @ join sep (y # ys)"

text \<open>\<^verbatim>\<open>split_once(char)\<close> splits at the first, \<^verbatim>\<open>rsplit_once(char)\<close> at the last occurrence.\<close>

fun split_once :: "'a \<Rightarrow> 'a list \<Rightarrow> ('a list \<times> 'a list) option" where
  "split_once c [] = None"
| "split_once c (x # xs) =
     (if x = c then Some ([], xs) else map_option (\<lambda>(a, b). (x # a, b)) (split_once c xs))"

definition rsplit_once :: "'a \<Rightarrow> 'a list \<Rightarrow> ('a list \<times> 'a list) option" where
  "rsplit_once c s = map_option (\<lambda>(a, b). (rev b, rev a)) (split_once c (rev s))"

lemma find_sub_Some:
  "find_sub p s = Some i \<Longrightarrow> prefix p (drop i s) \<and> i + length p \<le> length s"
proof (induction s arbitrary: i)
  case Nil
  then show ?case by (simp split: if_splits)
next
  case (Cons x xs)
  show ?case
  proof (cases "prefix p (x # xs)")
    case True
    with Cons.prems show ?thesis by (auto dest: prefix_length_le)
  next
    case False
    with Cons.prems obtain j where "find_sub p xs = Some j" "i = Suc j" by auto
    with Cons.IH show ?thesis by fastforce
  qed
qed

lemma find_sub_first:
  "find_sub p s = Some i \<Longrightarrow> j < i \<Longrightarrow> \<not> prefix p (drop j s)"
proof (induction s arbitrary: i j)
  case Nil
  then show ?case by (simp split: if_splits)
next
  case (Cons x xs)
  then show ?case by (cases j) (auto split: if_splits)
qed

lemma find_sub_None: "find_sub p s = None \<Longrightarrow> \<not> prefix p (drop j s)"
proof (induction s arbitrary: j)
  case Nil
  then show ?case by (simp split: if_splits)
next
  case (Cons x xs)
  then show ?case by (cases j) (auto split: if_splits)
qed

lemma find_sub_NoneI: "(\<And>j. j \<le> length s \<Longrightarrow> \<not> prefix p (drop j s)) \<Longrightarrow> find_sub p s = None"
proof (rule ccontr)
  assume a: "\<And>j. j \<le> length s \<Longrightarrow> \<not> prefix p (drop j s)" and "find_sub p s \<noteq> None"
  then obtain i where "find_sub p s = Some i" by auto
  from find_sub_Some [OF this] a [of i] show False by auto
qed

lemma find_sub_SomeI:
  assumes "prefix p (drop i s)" and "\<And>j. j < i \<Longrightarrow> \<not> prefix p (drop j s)" and "i \<le> length s"
  shows "find_sub p s = Some i"
proof -
  have "find_sub p s \<noteq> None" using assms(1) find_sub_None by blast
  then obtain k where k: "find_sub p s = Some k" by auto
  have "k \<le> i" using find_sub_first [OF k] assms(1) by (meson not_less)
  moreover have "i \<le> k" using find_sub_Some [OF k] assms(2) by (meson not_less)
  ultimately show ?thesis using k by simp
qed

lemma find_sub_skip:
  assumes "\<And>j. j < k \<Longrightarrow> \<not> prefix p (drop j s)" and "k \<le> length s"
  shows "find_sub p s = map_option ((+) k) (find_sub p (drop k s))"
proof (cases "find_sub p (drop k s)")
  case None
  have "\<not> prefix p (drop j s)" for j
  proof (cases "j < k")
    case False
    then have "drop j s = drop (j - k) (drop k s)" by simp
    with find_sub_None [OF None] show ?thesis by metis
  qed (rule assms(1))
  then have "find_sub p s = None" by (rule find_sub_NoneI)
  with None show ?thesis by simp
next
  case (Some i)
  have "find_sub p s = Some (k + i)"
  proof (rule find_sub_SomeI)
    show "prefix p (drop (k + i) s)"
      using find_sub_Some [OF Some] by (simp add: add.commute)
    show "k + i \<le> length s"
      using find_sub_Some [OF Some] assms(2) by auto
    fix j assume "j < k + i"
    show "\<not> prefix p (drop j s)"
    proof (cases "j < k")
      case False
      then have "drop j s = drop (j - k) (drop k s)" "j - k < i" using \<open>j < k + i\<close> by auto
      with find_sub_first [OF Some] show ?thesis by metis
    qed (rule assms(1))
  qed
  with Some show ?thesis by simp
qed

text \<open>
  Where a sublist does not occur in \<open>x\<close>, only the last \<open>length p - 1\<close> elements of \<open>x\<close>
  matter for finding it in \<open>x @ y\<close>.
\<close>

lemma find_sub_append_None:
  assumes "find_sub p x = None" and "p \<noteq> []"
  shows "find_sub p (x @ y) =
    map_option ((+) (length x - (length p - 1))) (find_sub p (drop (length x - (length p - 1)) x @ y))"
proof -
  let ?k = "length x - (length p - 1)"
  have "\<not> prefix p (drop j (x @ y))" if "j < ?k" for j
  proof
    assume a: "prefix p (drop j (x @ y))"
    from that have "length p \<le> length (drop j x)" "j \<le> length x" by auto
    with a have "prefix p (drop j x)" by (auto intro: prefix_length_prefix)
    with find_sub_None [OF assms(1)] show False by blast
  qed
  from find_sub_skip [of ?k p "x @ y", OF this] show ?thesis by simp
qed

lemma find_sub_append_Some: "find_sub p x = Some i \<Longrightarrow> find_sub p (x @ y) = Some i"
proof (rule find_sub_SomeI)
  assume a: "find_sub p x = Some i"
  from find_sub_Some [OF a] show "prefix p (drop i (x @ y))" "i \<le> length (x @ y)" by auto
  fix j assume j: "j < i"
  show "\<not> prefix p (drop j (x @ y))"
  proof
    assume "prefix p (drop j (x @ y))"
    moreover have "length p \<le> length (drop j x)" "j \<le> length x"
      using find_sub_Some [OF a] j by auto
    ultimately have "prefix p (drop j x)" by (auto intro: prefix_length_prefix)
    with find_sub_first [OF a j] show False by blast
  qed
qed

lemma find_sub_missing:
  assumes "c \<in> set p" "c \<notin> set s"
  shows "find_sub p s = None"
proof (rule find_sub_NoneI)
  fix j
  show "\<not> prefix p (drop j s)"
    using assms by (meson in_mono set_drop_subset set_mono_prefix)
qed

lemma find_sub_self_prefix [simp]: "find_sub p (p @ s) = Some 0"
  by (rule find_sub_SomeI) auto

lemma position_Some:
  "position P xs = Some i \<Longrightarrow> i < length xs \<and> P (xs ! i) \<and> (\<forall>j < i. \<not> P (xs ! j))"
proof (induction xs arbitrary: i)
  case (Cons x xs)
  show ?case
  proof (cases "P x")
    case True
    with Cons.prems show ?thesis by auto
  next
    case False
    with Cons.prems obtain k where k: "position P xs = Some k" "i = Suc k" by auto
    with Cons.IH [OF k(1)] False show ?thesis by (auto simp: less_Suc_eq_0_disj)
  qed
qed simp

lemma position_None: "position P xs = None \<longleftrightarrow> (\<forall>x \<in> set xs. \<not> P x)"
  by (induction xs) auto

lemma position_append:
  "position P (xs @ ys) =
     (case position P xs of Some i \<Rightarrow> Some i | None \<Rightarrow> map_option ((+) (length xs)) (position P ys))"
proof (induction xs)
  case Nil
  then show ?case by (cases "position P ys") auto
next
  case (Cons x xs)
  then show ?case by (cases "position P xs"; cases "position P ys") auto
qed

lemma split_char_nonempty [simp]: "split_char c s \<noteq> []"
  by (induction s) (auto split: list.splits)

lemma join_Cons: "ys \<noteq> [] \<Longrightarrow> join sep (x # ys) = x @ sep @ join sep ys"
  by (cases ys) auto

lemma join_split_char: "join [c] (split_char c s) = s"
proof (induction s)
  case (Cons x xs)
  obtain y ys where y: "split_char c xs = y # ys" by (cases "split_char c xs") auto
  then have "join [c] ((x # y) # ys) = x # join [c] (split_char c xs)"
    by (cases ys) auto
  with Cons y show ?case by (simp add: join_Cons)
qed simp

lemma split_char_no: "c \<notin> set s \<Longrightarrow> split_char c s = [s]"
  by (induction s) auto

lemma split_char_append:
  "c \<notin> set x \<Longrightarrow> split_char c (x @ c # s) = x # split_char c s"
  by (induction x) auto

lemma split_char_join:
  "xs \<noteq> [] \<Longrightarrow> (\<And>x. x \<in> set xs \<Longrightarrow> c \<notin> set x) \<Longrightarrow> split_char c (join [c] xs) = xs"
proof (induction xs)
  case (Cons x xs)
  show ?case
  proof (cases "xs = []")
    case True
    with Cons.prems show ?thesis by (simp add: split_char_no)
  next
    case False
    with Cons show ?thesis by (simp add: join_Cons split_char_append)
  qed
qed simp

lemma split_once_Some: "split_once c s = Some (a, b) \<Longrightarrow> s = a @ c # b \<and> c \<notin> set a"
  by (induction s arbitrary: a) (auto split: if_splits)

lemma split_once_append: "c \<notin> set a \<Longrightarrow> split_once c (a @ c # b) = Some (a, b)"
  by (induction a) auto

lemma rsplit_once_Some: "rsplit_once c s = Some (a, b) \<Longrightarrow> s = a @ c # b \<and> c \<notin> set b"
  unfolding rsplit_once_def
  by (auto dest!: split_once_Some simp: rev_swap)

lemma rsplit_once_append: "c \<notin> set b \<Longrightarrow> rsplit_once c (a @ c # b) = Some (a, b)"
  by (simp add: rsplit_once_def split_once_append)

end
