(* ===== verification/Rust_Str.thy ===== *)
theory Rust_Str
  imports Emwin_Prelude
begin

text \<open>
  The \<^verbatim>\<open>str\<close> operations of the Rust standard library that the sources call: ASCII case
  mapping, trimming of Unicode white space, decimal printing and parsing, and UTF-8
  validation with its lossy variant.
\<close>

section \<open>ASCII\<close>

definition is_digit :: "char \<Rightarrow> bool" where
  "is_digit c \<longleftrightarrow> (let n = (of_char c :: nat) in 48 \<le> n \<and> n \<le> 57)"

definition is_upper :: "char \<Rightarrow> bool" where
  "is_upper c \<longleftrightarrow> (let n = (of_char c :: nat) in 65 \<le> n \<and> n \<le> 90)"

definition is_lower :: "char \<Rightarrow> bool" where
  "is_lower c \<longleftrightarrow> (let n = (of_char c :: nat) in 97 \<le> n \<and> n \<le> 122)"

definition is_alphanumeric :: "char \<Rightarrow> bool" where
  "is_alphanumeric c \<longleftrightarrow> is_digit c \<or> is_upper c \<or> is_lower c"

definition to_upper :: "char \<Rightarrow> char" where
  "to_upper c = (if is_lower c then char_of (of_char c - 32 :: nat) else c)"

definition to_lower :: "char \<Rightarrow> char" where
  "to_lower c = (if is_upper c then char_of (of_char c + 32 :: nat) else c)"

definition to_ascii_uppercase :: "str \<Rightarrow> str" where
  "to_ascii_uppercase s = map to_upper s"

definition to_ascii_lowercase :: "str \<Rightarrow> str" where
  "to_ascii_lowercase s = map to_lower s"

definition eq_ignore_ascii_case :: "str \<Rightarrow> str \<Rightarrow> bool" where
  "eq_ignore_ascii_case s t \<longleftrightarrow> to_ascii_lowercase s = to_ascii_lowercase t"

lemma of_char_to_lower:
  "is_upper c \<Longrightarrow> (of_char (to_lower c) :: nat) = of_char c + 32"
  by (auto simp: to_lower_def is_upper_def Let_def)

lemma to_lower_idem [simp]: "to_lower (to_lower c) = to_lower c"
proof (cases "is_upper c")
  case True
  then have "\<not> is_upper (to_lower c)"
    using of_char_to_lower [OF True] by (auto simp: is_upper_def Let_def)
  then show ?thesis by (simp add: to_lower_def)
qed (simp add: to_lower_def)

lemma to_ascii_lowercase_idem [simp]:
  "to_ascii_lowercase (to_ascii_lowercase s) = to_ascii_lowercase s"
  by (simp add: to_ascii_lowercase_def)

section \<open>White space\<close>

text \<open>
  \<^verbatim>\<open>char::is_whitespace\<close> holds of the code points with the Unicode property White\_Space:
  the ASCII controls 9 to 13 and the space, U+0085 and U+00A0 (two bytes in UTF-8), U+1680,
  U+2000 to U+200A, U+2028, U+2029, U+202F, U+205F and U+3000 (three bytes).
\<close>

definition ws1 :: "char \<Rightarrow> bool" where
  "ws1 a \<longleftrightarrow> (let n = (of_char a :: nat) in n = 32 \<or> (9 \<le> n \<and> n \<le> 13))"

definition ws2 :: "char \<Rightarrow> char \<Rightarrow> bool" where
  "ws2 a b \<longleftrightarrow> (of_char a :: nat) = 0xC2 \<and> ((of_char b :: nat) = 0x85 \<or> (of_char b :: nat) = 0xA0)"

definition ws3 :: "char \<Rightarrow> char \<Rightarrow> char \<Rightarrow> bool" where
  "ws3 a b c \<longleftrightarrow>
     (let x = (of_char a :: nat); y = (of_char b :: nat); z = (of_char c :: nat) in
       (x = 0xE1 \<and> y = 0x9A \<and> z = 0x80) \<or>
       (x = 0xE2 \<and> y = 0x80 \<and> (0x80 \<le> z \<and> z \<le> 0x8A \<or> z = 0xA8 \<or> z = 0xA9 \<or> z = 0xAF)) \<or>
       (x = 0xE2 \<and> y = 0x81 \<and> z = 0x9F) \<or>
       (x = 0xE3 \<and> y = 0x80 \<and> z = 0x80))"

fun trim_start :: "str \<Rightarrow> str" where
  "trim_start [] = []"
| "trim_start [a] = (if ws1 a then [] else [a])"
| "trim_start [a, b] =
     (if ws1 a then trim_start [b] else if ws2 a b then [] else [a, b])"
| "trim_start (a # b # c # xs) =
     (if ws1 a then trim_start (b # c # xs)
      else if ws2 a b then trim_start (c # xs)
      else if ws3 a b c then trim_start xs
      else a # b # c # xs)"

text \<open>From the back, on the reversed list: the bytes of a character come last byte first.\<close>

fun trim_rev :: "str \<Rightarrow> str" where
  "trim_rev [] = []"
| "trim_rev [a] = (if ws1 a then [] else [a])"
| "trim_rev [a, b] =
     (if ws1 a then trim_rev [b] else if ws2 b a then [] else [a, b])"
| "trim_rev (a # b # c # xs) =
     (if ws1 a then trim_rev (b # c # xs)
      else if ws2 b a then trim_rev (c # xs)
      else if ws3 c b a then trim_rev xs
      else a # b # c # xs)"

definition trim_end :: "str \<Rightarrow> str" where
  "trim_end s = rev (trim_rev (rev s))"

definition trim :: "str \<Rightarrow> str" where
  "trim s = trim_end (trim_start s)"

text \<open>\<^verbatim>\<open>trim_end_matches\<close> with a set of ASCII characters.\<close>

definition trim_end_matches :: "(char \<Rightarrow> bool) \<Rightarrow> str \<Rightarrow> str" where
  "trim_end_matches P s = rev (dropWhile P (rev s))"

definition trim_start_matches :: "(char \<Rightarrow> bool) \<Rightarrow> str \<Rightarrow> str" where
  "trim_start_matches P s = dropWhile P s"

lemma trim_start_ws1: "ws1 a \<Longrightarrow> trim_start (a # s) = trim_start s"
  by (cases s rule: trim_start.cases) simp_all

lemma trim_rev_ws1: "ws1 a \<Longrightarrow> trim_rev (a # s) = trim_rev s"
  by (cases s rule: trim_rev.cases) simp_all

lemma suffix_trim_start: "suffix (trim_start s) s"
  by (induction s rule: trim_start.induct) (auto intro: suffix_ConsI suffix_order.trans)

lemma suffix_trim_rev: "suffix (trim_rev s) s"
  by (induction s rule: trim_rev.induct) (auto intro: suffix_ConsI suffix_order.trans)

lemma prefix_trim_end: "prefix (trim_end s) s"
  using suffix_trim_rev [of "rev s"] by (simp add: trim_end_def suffix_to_prefix)

lemma length_trim_le: "length (trim s) \<le> length s"
  using prefix_length_le [OF prefix_trim_end [of "trim_start s"]]
    suffix_length_le [OF suffix_trim_start [of s]]
  by (simp add: trim_def)

text \<open>
  A string whose first byte starts no white-space character and whose last byte ends none
  is its own trim: the bytes below are the lead bytes and the last bytes of white space.
\<close>

definition ws_lead :: "char \<Rightarrow> bool" where
  "ws_lead a \<longleftrightarrow> ws1 a \<or> (of_char a :: nat) \<in> {0xC2, 0xE1, 0xE2, 0xE3}"

definition ws_last :: "char \<Rightarrow> bool" where
  "ws_last a \<longleftrightarrow> ws1 a \<or> (of_char a :: nat) \<ge> 0x80"

lemma trim_start_keep: "s = [] \<or> \<not> ws_lead (hd s) \<Longrightarrow> trim_start s = s"
  by (cases s rule: trim_start.cases) (auto simp: ws_lead_def ws2_def ws3_def Let_def)

lemma trim_rev_keep: "s = [] \<or> \<not> ws_last (hd s) \<Longrightarrow> trim_rev s = s"
  by (cases s rule: trim_rev.cases) (auto simp: ws_last_def ws2_def ws3_def Let_def)

lemma trim_end_keep: "s = [] \<or> \<not> ws_last (last s) \<Longrightarrow> trim_end s = s"
  using trim_rev_keep [of "rev s"] by (auto simp: trim_end_def hd_rev)

lemma trim_keep:
  "s = [] \<or> (\<not> ws_lead (hd s) \<and> \<not> ws_last (last s)) \<Longrightarrow> trim s = s"
  by (auto simp: trim_def trim_start_keep trim_end_keep)

section \<open>Decimal numbers\<close>

definition digit_char :: "nat \<Rightarrow> char" where
  "digit_char d = char_of (48 + d)"

definition digit_val :: "char \<Rightarrow> nat" where
  "digit_val c = of_char c - 48"

text \<open>\<^verbatim>\<open>{}\<close> of an unsigned integer, and \<^verbatim>\<open>{:0w}\<close>.\<close>

fun show_nat :: "nat \<Rightarrow> str" where
  "show_nat n = (if n < 10 then [digit_char n] else show_nat (n div 10) @ [digit_char (n mod 10)])"

declare show_nat.simps [simp del]

definition pad0 :: "nat \<Rightarrow> str \<Rightarrow> str" where
  "pad0 w s = replicate (w - length s) CHR ''0'' @ s"

fun digits_acc :: "nat \<Rightarrow> str \<Rightarrow> nat option" where
  "digits_acc n [] = Some n"
| "digits_acc n (c # cs) = (if is_digit c then digits_acc (10 * n + digit_val c) cs else None)"

text \<open>
  \<^verbatim>\<open>str::parse\<close> of an unsigned type with \<open>lim\<close> values: an optional plus sign, then at
  least one digit, the value below \<open>lim\<close>.
\<close>

definition parse_uint :: "nat \<Rightarrow> str \<Rightarrow> nat option" where
  "parse_uint lim s =
     (let t = (case s of c # r \<Rightarrow> if c = CHR ''+'' \<and> r \<noteq> [] then r else s | [] \<Rightarrow> []) in
      if t = [] then None
      else case digits_acc 0 t of
        None \<Rightarrow> None
      | Some n \<Rightarrow> if n < lim then Some n else None)"

definition parse_u16 :: "str \<Rightarrow> u16 option" where
  "parse_u16 s = map_option of_nat (parse_uint (2 ^ 16) s)"

definition parse_u32 :: "str \<Rightarrow> u32 option" where
  "parse_u32 s = map_option of_nat (parse_uint (2 ^ 32) s)"

lemma of_char_digit_char: "d < 10 \<Longrightarrow> (of_char (digit_char d) :: nat) = 48 + d"
  by (simp add: digit_char_def)

lemma is_digit_digit_char: "d < 10 \<Longrightarrow> is_digit (digit_char d)"
  by (simp add: is_digit_def of_char_digit_char)

lemma digit_val_digit_char: "d < 10 \<Longrightarrow> digit_val (digit_char d) = d"
  by (simp add: digit_val_def of_char_digit_char)

lemma digits_acc_append:
  "digits_acc n (s @ t) = (case digits_acc n s of None \<Rightarrow> None | Some m \<Rightarrow> digits_acc m t)"
  by (induction s arbitrary: n) auto

lemma digits_acc_show_nat: "digits_acc 0 (show_nat n) = Some n"
proof (induction n rule: show_nat.induct)
  case (1 n)
  show ?case
  proof (cases "n < 10")
    case True
    then show ?thesis
      by (simp add: show_nat.simps [of n] is_digit_digit_char digit_val_digit_char)
  next
    case False
    with 1 show ?thesis
      by (simp add: show_nat.simps [of n] digits_acc_append is_digit_digit_char
          digit_val_digit_char)
  qed
qed

lemma show_nat_digits: "c \<in> set (show_nat n) \<Longrightarrow> is_digit c"
proof (induction n rule: show_nat.induct)
  case (1 n)
  then show ?case
    by (cases "n < 10") (auto simp: show_nat.simps [of n] is_digit_digit_char)
qed

lemma show_nat_nonempty [simp]: "show_nat n \<noteq> []"
  by (simp add: show_nat.simps [of n])

lemma is_digit_zero [simp]: "is_digit CHR ''0''"
  by (simp add: is_digit_def)

lemma digits_acc_zeros: "digits_acc 0 (replicate k CHR ''0'' @ s) = digits_acc 0 s"
  by (induction k) (simp_all add: digit_val_def)

lemma not_digit_plus [simp]: "\<not> is_digit CHR ''+''"
  by (simp add: is_digit_def)

lemma parse_uint_digits:
  assumes "s \<noteq> []" and "\<And>c. c \<in> set s \<Longrightarrow> is_digit c"
  shows "parse_uint lim s =
    (case digits_acc 0 s of None \<Rightarrow> None | Some n \<Rightarrow> if n < lim then Some n else None)"
proof (cases s)
  case (Cons c r)
  with assms(2) have "is_digit c" by simp
  then have "c \<noteq> CHR ''+''" by auto
  with Cons show ?thesis by (simp add: parse_uint_def)
qed (use assms in simp)

lemma parse_uint_show_nat: "n < lim \<Longrightarrow> parse_uint lim (show_nat n) = Some n"
  by (simp add: parse_uint_digits show_nat_digits digits_acc_show_nat)

lemma pad0_digits: "c \<in> set (pad0 w (show_nat n)) \<Longrightarrow> is_digit c"
  by (auto simp: pad0_def show_nat_digits)

lemma parse_uint_pad0: "n < lim \<Longrightarrow> parse_uint lim (pad0 w (show_nat n)) = Some n"
proof -
  assume "n < lim"
  moreover have "pad0 w (show_nat n) \<noteq> []" by (simp add: pad0_def)
  ultimately show ?thesis
    using parse_uint_digits [of "pad0 w (show_nat n)" lim] pad0_digits
    by (auto simp: pad0_def digits_acc_zeros digits_acc_show_nat)
qed

lemma parse_uint_less: "parse_uint lim s = Some n \<Longrightarrow> n < lim"
  by (auto simp: parse_uint_def Let_def split: option.splits if_splits list.splits)

lemma parse_u16_show [simp]: "parse_u16 (show_nat (unat p)) = Some p"
  using unat_bound [of p] by (simp add: parse_u16_def parse_uint_show_nat)

lemma parse_u32_show [simp]: "parse_u32 (show_nat (unat p)) = Some p"
  using unat_bound [of p] by (simp add: parse_u32_def parse_uint_show_nat)

lemma digit_not_ws: "is_digit c \<Longrightarrow> \<not> ws_lead c \<and> \<not> ws_last c"
  by (auto simp: is_digit_def ws_lead_def ws_last_def ws1_def Let_def)

lemma trim_show_nat [simp]: "trim (show_nat n) = show_nat n"
  by (rule trim_keep) (use digit_not_ws show_nat_digits [of _ n] in auto)

section \<open>UTF-8\<close>

text \<open>
  One step of \<^verbatim>\<open>core::str::from_utf8\<close> at the front of the input: the width of the character
  there, or the length of the ill-formed sequence (\<^const>\<open>None\<close> when the input ends inside a
  character that is well-formed so far).
\<close>

datatype utf8_item = Utf8_Char nat | Utf8_Bad "nat option"

definition is_cont :: "u8 \<Rightarrow> bool" where
  "is_cont b \<longleftrightarrow> 0x80 \<le> b \<and> b \<le> 0xBF"

definition utf8_second3 :: "u8 \<Rightarrow> u8 \<Rightarrow> bool" where
  "utf8_second3 a b \<longleftrightarrow>
     (if a = 0xE0 then 0xA0 \<le> b \<and> b \<le> 0xBF else if a = 0xED then 0x80 \<le> b \<and> b \<le> 0x9F else is_cont b)"

definition utf8_second4 :: "u8 \<Rightarrow> u8 \<Rightarrow> bool" where
  "utf8_second4 a b \<longleftrightarrow>
     (if a = 0xF0 then 0x90 \<le> b \<and> b \<le> 0xBF else if a = 0xF4 then 0x80 \<le> b \<and> b \<le> 0x8F else is_cont b)"

fun utf8_item_at :: "bytes \<Rightarrow> utf8_item" where
  "utf8_item_at [] = Utf8_Bad None"
| "utf8_item_at (a # xs) =
     (if a < 0x80 then Utf8_Char 1
      else if 0xC2 \<le> a \<and> a \<le> 0xDF then
        (case xs of [] \<Rightarrow> Utf8_Bad None
         | b # _ \<Rightarrow> if is_cont b then Utf8_Char 2 else Utf8_Bad (Some 1))
      else if 0xE0 \<le> a \<and> a \<le> 0xEF then
        (case xs of [] \<Rightarrow> Utf8_Bad None
         | b # ys \<Rightarrow> if \<not> utf8_second3 a b then Utf8_Bad (Some 1)
           else (case ys of [] \<Rightarrow> Utf8_Bad None
                 | c # _ \<Rightarrow> if is_cont c then Utf8_Char 3 else Utf8_Bad (Some 2)))
      else if 0xF0 \<le> a \<and> a \<le> 0xF4 then
        (case xs of [] \<Rightarrow> Utf8_Bad None
         | b # ys \<Rightarrow> if \<not> utf8_second4 a b then Utf8_Bad (Some 1)
           else (case ys of [] \<Rightarrow> Utf8_Bad None
                 | c # zs \<Rightarrow> if \<not> is_cont c then Utf8_Bad (Some 2)
                   else (case zs of [] \<Rightarrow> Utf8_Bad None
                         | d # _ \<Rightarrow> if is_cont d then Utf8_Char 4 else Utf8_Bad (Some 3))))
      else Utf8_Bad (Some 1))"

lemma utf8_item_at_width: "utf8_item_at bs = Utf8_Char n \<Longrightarrow> 0 < n \<and> n \<le> length bs"
  by (cases bs) (auto split: if_splits list.splits)

lemma utf8_item_at_bad: "utf8_item_at bs = Utf8_Bad (Some n) \<Longrightarrow> 0 < n \<and> n \<le> length bs"
  by (cases bs) (auto split: if_splits list.splits)

text \<open>
  \<^verbatim>\<open>from_utf8\<close>: the string, or the offset and length of the first ill-formed sequence, as
  \<^verbatim>\<open>Utf8Error\<close> prints them.
\<close>

function utf8_error_from :: "nat \<Rightarrow> bytes \<Rightarrow> (nat \<times> nat option) option" where
  "utf8_error_from i bs =
     (if bs = [] then None
      else case utf8_item_at bs of
        Utf8_Char n \<Rightarrow> utf8_error_from (i + n) (drop n bs)
      | Utf8_Bad e \<Rightarrow> Some (i, e))"
  by pat_completeness auto
termination
  by (relation "measure (\<lambda>(i, bs). length bs)") (auto dest: utf8_item_at_width)

declare utf8_error_from.simps [simp del]

definition show_utf8_error :: "nat \<times> nat option \<Rightarrow> str" where
  "show_utf8_error e =
     (case e of
        (i, Some n) \<Rightarrow> ''invalid utf-8 sequence of '' @ show_nat n @ '' bytes from index '' @ show_nat i
      | (i, None) \<Rightarrow> ''incomplete utf-8 byte sequence from index '' @ show_nat i)"

definition from_utf8 :: "bytes \<Rightarrow> str + str" where
  "from_utf8 bs =
     (case utf8_error_from 0 bs of Some e \<Rightarrow> Inl (show_utf8_error e) | None \<Rightarrow> Inr (str_of bs))"

text \<open>\<^verbatim>\<open>String::from_utf8_lossy\<close>: every ill-formed sequence becomes one U+FFFD.\<close>

definition replacement :: bytes where
  "replacement = [0xEF, 0xBF, 0xBD]"

function utf8_lossy :: "bytes \<Rightarrow> bytes" where
  "utf8_lossy bs =
     (if bs = [] then []
      else case utf8_item_at bs of
        Utf8_Char n \<Rightarrow> take n bs @ utf8_lossy (drop n bs)
      | Utf8_Bad (Some n) \<Rightarrow> replacement @ utf8_lossy (drop n bs)
      | Utf8_Bad None \<Rightarrow> replacement)"
  by pat_completeness auto
termination
  by (relation "measure length") (auto dest: utf8_item_at_width utf8_item_at_bad)

declare utf8_lossy.simps [simp del]

lemma utf8_error_ascii:
  "(\<And>b. b \<in> set bs \<Longrightarrow> b < 0x80) \<Longrightarrow> utf8_error_from i bs = None"
proof (induction bs arbitrary: i)
  case Nil
  show ?case by (simp add: utf8_error_from.simps)
next
  case (Cons b bs)
  then show ?case by (subst utf8_error_from.simps) simp
qed

lemma from_utf8_ascii: "(\<And>b. b \<in> set bs \<Longrightarrow> b < 0x80) \<Longrightarrow> from_utf8 bs = Inr (str_of bs)"
  by (simp add: from_utf8_def utf8_error_ascii)

lemma utf8_lossy_ascii: "(\<And>b. b \<in> set bs \<Longrightarrow> b < 0x80) \<Longrightarrow> utf8_lossy bs = bs"
proof (induction bs)
  case Nil
  show ?case by (simp add: utf8_lossy.simps)
next
  case (Cons b bs)
  then show ?case by (subst utf8_lossy.simps) simp
qed

text \<open>Lossy decoding leaves well-formed input alone.\<close>

lemma utf8_lossy_valid: "utf8_error_from i bs = None \<Longrightarrow> utf8_lossy bs = bs"
proof (induction i bs rule: utf8_error_from.induct)
  case (1 i bs)
  show ?case
  proof (cases "bs = []")
    case True
    then show ?thesis by (simp add: utf8_lossy.simps)
  next
    case False
    with 1(2) obtain n where n: "utf8_item_at bs = Utf8_Char n"
      by (auto simp: utf8_error_from.simps [of i bs] split: utf8_item.splits)
    with 1 False have "utf8_lossy (drop n bs) = drop n bs"
      by (simp add: utf8_error_from.simps [of i bs])
    with False n show ?thesis by (simp add: utf8_lossy.simps [of bs])
  qed
qed

section \<open>Slices and panics\<close>

text \<open>\<^verbatim>\<open>is_char_boundary\<close>, and a slice by byte positions, which panics unless both positions are
  character boundaries in order.  \<open>Panic\<close> is the outcome of code that panics.\<close>

definition is_char_boundary :: "str \<Rightarrow> nat \<Rightarrow> bool" where
  "is_char_boundary s i \<longleftrightarrow>
     i = 0 \<or> i = length s \<or> (i < length s \<and> \<not> is_cont (byte_of (s ! i)))"

datatype 'a rust = Panic | Ret 'a

definition rbind :: "'a rust \<Rightarrow> ('a \<Rightarrow> 'b rust) \<Rightarrow> 'b rust" where
  "rbind r f = (case r of Panic \<Rightarrow> Panic | Ret x \<Rightarrow> f x)"

lemma rbind_simps [simp]: "rbind Panic f = Panic" "rbind (Ret x) f = f x"
  by (simp_all add: rbind_def)

lemma rbind_Ret [simp]: "rbind r f = Ret y \<longleftrightarrow> (\<exists>x. r = Ret x \<and> f x = Ret y)"
  by (cases r) simp_all

definition slice :: "str \<Rightarrow> nat \<Rightarrow> nat \<Rightarrow> str rust" where
  "slice s i j =
     (if i \<le> j \<and> j \<le> length s \<and> is_char_boundary s i \<and> is_char_boundary s j
      then Ret (take (j - i) (drop i s)) else Panic)"

definition is_ascii :: "str \<Rightarrow> bool" where
  "is_ascii s \<longleftrightarrow> (\<forall>c \<in> set s. (of_char c :: nat) < 128)"

lemma is_ascii_simps [simp]:
  "is_ascii []" "is_ascii (c # s) \<longleftrightarrow> (of_char c :: nat) < 128 \<and> is_ascii s" "is_ascii (s @ t) \<longleftrightarrow> is_ascii s \<and> is_ascii t"
  by (auto simp: is_ascii_def)

lemma is_ascii_take [simp]: "is_ascii s \<Longrightarrow> is_ascii (take n s)" "is_ascii s \<Longrightarrow> is_ascii (drop n s)"
  by (auto simp: is_ascii_def dest: in_set_takeD in_set_dropD)

lemma ascii_boundary: "is_ascii s \<Longrightarrow> i \<le> length s \<Longrightarrow> is_char_boundary s i"
proof -
  assume a: "is_ascii s" "i \<le> length s"
  have "\<not> is_cont (byte_of (s ! i))" if "i < length s"
  proof -
    have "unat (byte_of (s ! i)) < 128" using a(1) that by (simp add: is_ascii_def)
    then show ?thesis by (simp add: is_cont_def word_le_nat_alt)
  qed
  with a(2) show ?thesis by (auto simp: is_char_boundary_def)
qed

lemma slice_ascii: "is_ascii s \<Longrightarrow> i \<le> j \<Longrightarrow> j \<le> length s \<Longrightarrow> slice s i j = Ret (take (j - i) (drop i s))"
  by (simp add: slice_def ascii_boundary)

end
