(* ===== verification/Qbt_Protocol.thy ===== *)
theory Qbt_Protocol
  imports Rust_Str
begin

text \<open>
  The protocol data model of the QBT receiver and its stateless codecs: the types of
  \<^verbatim>\<open>qbt_receiver/protocol/model.rs\<close>, \<^verbatim>\<open>error.rs\<close> and \<^verbatim>\<open>config.rs\<close>, the checksum, the
  logon message and the XOR transform, the zlib header test, and the server-list frame in
  both directions with the wire scanner of the relay.
\<close>

section \<open>Model, errors and configuration\<close>

datatype qbt_version = V1 | V2

record qbt_segment =
  seg_filename :: str
  seg_block_number :: u32
  seg_total_blocks :: u32
  seg_content :: bytes
  seg_checksum :: u32
  seg_length :: nat
  seg_version :: qbt_version
  seg_timestamp_utc :: system_time
  seg_source :: "str option"

record qbt_server_list =
  servers :: "(str \<times> u16) list"

datatype qbt_protocol_warning =
    ChecksumMismatch str u32
  | DecompressionFailed str u32 str
  | DecoderRecovered str
  | MalformedServerEntry str
  | TimestampParseFallback str
  | HandlerError str
  | BackpressureDrop u64 u64 u64

datatype qbt_frame_event =
    DataBlock qbt_segment
  | ServerListUpdate qbt_server_list
  | Warning qbt_protocol_warning

datatype qbt_protocol_error =
    InvalidHeader
  | InvalidBodyLength nat
  | UnsupportedFrame
  | MissingField str
  | Decompression str
  | ErrChecksumMismatch
  | InvalidFrameType
  | InvalidUtf8 str
  | Utf8 str

text \<open>The \<^verbatim>\<open>Display\<close> text of an error, which recovery warnings carry.\<close>

fun show_protocol_error :: "qbt_protocol_error \<Rightarrow> str" where
  "show_protocol_error InvalidHeader = ''invalid frame header''"
| "show_protocol_error (InvalidBodyLength n) = ''invalid body length: '' @ show_nat n"
| "show_protocol_error UnsupportedFrame = ''unsupported frame''"
| "show_protocol_error (MissingField f) = ''missing field: '' @ f"
| "show_protocol_error (Decompression e) = ''decompression failed: '' @ e"
| "show_protocol_error ErrChecksumMismatch = ''checksum mismatch''"
| "show_protocol_error InvalidFrameType = ''invalid frame type''"
| "show_protocol_error (InvalidUtf8 e) = ''invalid utf8 in frame: '' @ e"
| "show_protocol_error (Utf8 e) = ''utf8 decode failed: '' @ e"

datatype qbt_checksum_policy = StrictDrop

datatype qbt_v2_compression_policy = RequireZlibHeader | TryAlways

record qbt_decode_config =
  checksum_policy :: qbt_checksum_policy
  compression_policy :: qbt_v2_compression_policy
  max_v2_body_size :: nat
  max_server_list_frame_bytes :: nat

definition default_decode_config :: qbt_decode_config where
  "default_decode_config =
     \<lparr>checksum_policy = StrictDrop, compression_policy = RequireZlibHeader,
      max_v2_body_size = 1024, max_server_list_frame_bytes = 65536\<rparr>"

section \<open>Checksum\<close>

definition calculate_qbt_checksum :: "bytes \<Rightarrow> u16" where
  "calculate_qbt_checksum data = ucast (sum_list (map ucast data) AND (0xFFFF :: u32))"

definition verify_checksum :: "bytes \<Rightarrow> int \<Rightarrow> bool" where
  "verify_checksum data expected \<longleftrightarrow>
     (if expected < 0 then False
      else int (unat (calculate_qbt_checksum data)) = expected AND 0xFFFF)"

lemma unat_sum_list_u32:
  "unat (sum_list (map ucast data) :: u32) = sum_list (map unat (data :: bytes)) mod 2 ^ 32"
proof (induction data)
  case (Cons b data)
  have "unat (ucast b :: u32) = unat b" using unat_bound [of b] by (simp add: unsigned_ucast_eq take_bit_eq_mod)
  then show ?case using Cons.IH by (simp add: unat_word_ariths mod_simps)
qed simp

lemma unat_calculate_qbt_checksum:
  "unat (calculate_qbt_checksum data) = sum_list (map unat data) mod 2 ^ 16"
proof -
  let ?s = "sum_list (map ucast data) :: u32"
  have "unat (ucast (?s AND 0xFFFF) :: u16) = unat (?s AND mask 16) mod 2 ^ 16"
    by (simp add: unsigned_ucast_eq take_bit_eq_mod mask_eq_exp_minus_1)
  also have "\<dots> = unat ?s mod 2 ^ 16"
    by (simp only: take_bit_eq_mask [symmetric] unsigned_take_bit_eq) (simp add: take_bit_eq_mod)
  also have "\<dots> = sum_list (map unat data) mod 2 ^ 16"
    by (simp add: unat_sum_list_u32 mod_mod_cancel)
  finally show ?thesis by (simp add: calculate_qbt_checksum_def)
qed

lemma verify_checksum_iff:
  "verify_checksum data expected \<longleftrightarrow>
     0 \<le> expected \<and> int (sum_list (map unat data)) mod 2 ^ 16 = expected mod 2 ^ 16"
proof -
  have "expected AND 0xFFFF = expected mod 2 ^ 16"
    using take_bit_eq_mask [of 16 expected] by (simp add: take_bit_eq_mod mask_eq_exp_minus_1)
  then show ?thesis
    by (auto simp: verify_checksum_def unat_calculate_qbt_checksum zmod_int)
qed

section \<open>Logon message and XOR transform\<close>

definition REAUTH_INTERVAL_SECS :: nat where
  "REAUTH_INTERVAL_SECS = 115"

definition LOGON_PREFIX :: str where
  "LOGON_PREFIX = ''ByteBlast Client|NM-''"

definition LOGON_SUFFIX :: str where
  "LOGON_SUFFIX = ''|V2''"

record qbt_auth_message =
  auth_email :: str

definition build_logon_message :: "str \<Rightarrow> str" where
  "build_logon_message email = LOGON_PREFIX @ email @ LOGON_SUFFIX"

definition parse_logon_message :: "str \<Rightarrow> qbt_auth_message option" where
  "parse_logon_message message =
     (case strip_prefix LOGON_PREFIX message of
        None \<Rightarrow> None
      | Some payload \<Rightarrow>
          (case strip_suffix LOGON_SUFFIX payload of
             None \<Rightarrow> None
           | Some e \<Rightarrow>
               (let email = trim e in if email = [] then None else Some \<lparr>auth_email = email\<rparr>)))"

definition xor_ff :: "bytes \<Rightarrow> bytes" where
  "xor_ff data = map (\<lambda>b. b XOR 0xFF) data"

lemma xor_ff_xor_ff [simp]: "xor_ff (xor_ff data) = data"
  by (simp add: xor_ff_def o_def xor.assoc)

lemma length_xor_ff [simp]: "length (xor_ff data) = length data"
  by (simp add: xor_ff_def)

lemma xor_ff_append [simp]: "xor_ff (a @ b) = xor_ff a @ xor_ff b"
  by (simp add: xor_ff_def)

lemma xor_ff_eq_iff [simp]: "xor_ff a = xor_ff b \<longleftrightarrow> a = b"
  by (metis xor_ff_xor_ff)

lemma strip_prefix_append [simp]: "strip_prefix p (p @ s) = Some s"
  by (simp add: strip_prefix_def)

lemma strip_suffix_append [simp]: "strip_suffix p (s @ p) = Some s"
  by (simp add: strip_suffix_def suffixI)

lemma parse_build_logon_message:
  "parse_logon_message (build_logon_message email) =
     (if trim email = [] then None else Some \<lparr>auth_email = trim email\<rparr>)"
  by (simp add: parse_logon_message_def build_logon_message_def Let_def)

section \<open>Compression header\<close>

definition has_zlib_header :: "bytes \<Rightarrow> bool" where
  "has_zlib_header input \<longleftrightarrow>
     2 \<le> length input \<and> take 2 input \<in> {[0x78, 0x9C], [0x78, 0xDA], [0x78, 0x01]}"

section \<open>Server-list frames\<close>

definition server_list_marker :: str where
  "server_list_marker = ''/ServerList/''"

definition satellite_markers :: "str list" where
  "satellite_markers =
     [CHR 0x5C # ''ServerList'' @ CHR 0x5C # ''/SatServers/'',
      CHR 0x5C # ''QbtServerList'' @ CHR 0x5C # ''/SatServers/'']"

definition parse_qbt_server :: "str \<Rightarrow> (str \<times> u16) option" where
  "parse_qbt_server input =
     (case rsplit_once CHR '':'' input of
        None \<Rightarrow> None
      | Some (host, port) \<Rightarrow>
          (case parse_u16 port of None \<Rightarrow> None | Some parsed_port \<Rightarrow> Some (host, parsed_port)))"

text \<open>The smallest of a list of positions (\<^verbatim>\<open>Iterator::min\<close>).\<close>

fun min_list_opt :: "nat list \<Rightarrow> nat option" where
  "min_list_opt [] = None"
| "min_list_opt (x # xs) = (case min_list_opt xs of None \<Rightarrow> Some x | Some y \<Rightarrow> Some (min x y))"

definition split_regular_servers :: "str \<Rightarrow> str" where
  "split_regular_servers payload =
     (let regular = drop (length server_list_marker) payload in
      case min_list_opt (List.map_filter (\<lambda>marker. find_sub marker regular) satellite_markers) of
        Some idx \<Rightarrow> take idx regular
      | None \<Rightarrow> regular)"

fun parse_entries :: "str list \<Rightarrow> (str \<times> u16) list \<times> qbt_protocol_warning list" where
  "parse_entries [] = ([], [])"
| "parse_entries (e # es) =
     (let entry = trim e; (srv, ws) = parse_entries es in
      if entry = [] then (srv, ws)
      else case parse_qbt_server entry of
        Some parsed \<Rightarrow> (parsed # srv, ws)
      | None \<Rightarrow> (srv, MalformedServerEntry entry # ws))"

definition parse_list_entries ::
    "str \<Rightarrow> char \<Rightarrow> (str \<times> u16) list \<times> qbt_protocol_warning list" where
  "parse_list_entries input delimiter = parse_entries (split_char delimiter input)"

definition parse_server_list_frame ::
    "str \<Rightarrow> qbt_protocol_error + qbt_server_list \<times> qbt_protocol_warning list" where
  "parse_server_list_frame content =
     (if \<not> prefix server_list_marker content then Inl UnsupportedFrame
      else
        let payload = trim_end_matches (\<lambda>c. c = CHR 0x00) content;
            servers_part = split_regular_servers payload;
            (srv, warnings) = parse_list_entries servers_part CHR ''|''
        in Inr (\<lparr>servers = srv\<rparr>, warnings))"

definition parse_simple_server_list :: "str \<Rightarrow> qbt_server_list" where
  "parse_simple_server_list content =
     (case parse_server_list_frame content of
        Inr (l, warnings) \<Rightarrow> l
      | Inl e \<Rightarrow> \<lparr>servers = []\<rparr>)"

definition show_endpoint :: "str \<times> u16 \<Rightarrow> str" where
  "show_endpoint ep = fst ep @ '':'' @ show_nat (unat (snd ep))"

definition build_server_list_wire :: "(str \<times> u16) list \<Rightarrow> bytes" where
  "build_server_list_wire srv =
     (let entries = join ''|'' (map show_endpoint srv);
          payload = server_list_marker @ entries @ [CHR 0x00]
      in xor_ff (bytes_of payload))"

lemma parse_qbt_server_show [simp]: "parse_qbt_server (show_endpoint ep) = Some ep"
proof -
  have "CHR '':'' \<notin> set (show_nat (unat (snd ep)))"
    using show_nat_digits [of "CHR '':''"] by (auto simp: is_digit_def)
  then show ?thesis
    by (simp add: parse_qbt_server_def show_endpoint_def rsplit_once_append)
qed

text \<open>
  A host the wire format can carry: it does not contain the entry separator, the frame
  terminator or the backslash that opens the satellite section, and no white space leads it.
\<close>

definition plain_host :: "str \<Rightarrow> bool" where
  "plain_host h \<longleftrightarrow> CHR ''|'' \<notin> set h \<and> CHR 0x00 \<notin> set h \<and> CHR 0x5C \<notin> set h \<and> (h = [] \<or> \<not> ws_lead (hd h))"

lemma show_endpoint_chars:
  assumes "plain_host (fst ep)" "c \<in> set (show_endpoint ep)"
  shows "c \<noteq> CHR ''|'' \<and> c \<noteq> CHR 0x00 \<and> c \<noteq> CHR 0x5C"
  using assms show_nat_digits [of c "unat (snd ep)"]
  by (auto simp: plain_host_def show_endpoint_def is_digit_def)

lemma trim_show_endpoint: "plain_host (fst ep) \<Longrightarrow> trim (show_endpoint ep) = show_endpoint ep"
proof (rule trim_keep, rule disjI2, rule conjI)
  assume h: "plain_host (fst ep)"
  show "\<not> ws_lead (hd (show_endpoint ep))"
    using h by (cases "fst ep") (auto simp: plain_host_def show_endpoint_def ws_lead_def ws1_def)
  have "is_digit (last (show_nat (unat (snd ep))))"
    using show_nat_digits [of _ "unat (snd ep)"] by simp
  then show "\<not> ws_last (last (show_endpoint ep))"
    by (simp add: show_endpoint_def digit_not_ws)
qed

lemma parse_entries_show:
  "(\<And>ep. ep \<in> set srv \<Longrightarrow> plain_host (fst ep)) \<Longrightarrow> parse_entries (map show_endpoint srv) = (srv, [])"
proof (induction srv)
  case (Cons ep srv)
  then show ?case by (simp add: trim_show_endpoint Let_def) (simp add: show_endpoint_def)
qed simp

lemma set_join: "set (join sep xs) \<subseteq> set sep \<union> (\<Union>x \<in> set xs. set x)"
  by (induction sep xs rule: join.induct) auto

lemma split_regular_servers_plain:
  "CHR 0x5C \<notin> set s \<Longrightarrow> split_regular_servers (server_list_marker @ s) = s"
  by (simp add: split_regular_servers_def satellite_markers_def find_sub_missing [of "CHR 0x5C"])

lemma trim_end_matches_keep: "s \<noteq> [] \<Longrightarrow> \<not> P (last s) \<Longrightarrow> trim_end_matches P s = s"
  by (cases s rule: rev_cases) (auto simp: trim_end_matches_def)

lemma parse_server_list_built:
  assumes "\<And>ep. ep \<in> set srv \<Longrightarrow> plain_host (fst ep)"
  shows "parse_server_list_frame (server_list_marker @ join ''|'' (map show_endpoint srv)) =
    Inr (\<lparr>servers = srv\<rparr>, [])"
proof -
  let ?e = "join ''|'' (map show_endpoint srv)"
  have chars: "c \<noteq> CHR 0x00 \<and> c \<noteq> CHR 0x5C" if "c \<in> set ?e" for c
    using that set_join [of "''|''" "map show_endpoint srv"] show_endpoint_chars assms by fastforce
  have "last (server_list_marker @ ?e) \<noteq> CHR 0x00"
    using chars [of "last ?e"] by (cases "?e = []") (auto simp: server_list_marker_def)
  then have trimmed: "trim_end_matches (\<lambda>c. c = CHR 0x00) (server_list_marker @ ?e) = server_list_marker @ ?e"
    by (intro trim_end_matches_keep) (auto simp: server_list_marker_def)
  have "parse_list_entries ?e CHR ''|'' = (srv, [])"
  proof (cases "srv = []")
    case True
    then show ?thesis by (simp add: parse_list_entries_def trim_def trim_end_def)
  next
    case False
    have "split_char CHR ''|'' ?e = map show_endpoint srv"
      using False by (intro split_char_join) (use show_endpoint_chars [OF assms] in fastforce)+
    then show ?thesis
      using assms parse_entries_show by (simp add: parse_list_entries_def)
  qed
  moreover have "split_regular_servers (server_list_marker @ ?e) = ?e"
    using chars by (intro split_regular_servers_plain) blast
  ultimately show ?thesis
    by (simp add: parse_server_list_frame_def trimmed)
qed

section \<open>Server-list scanner of the relay\<close>

definition find_subsequence :: "bytes \<Rightarrow> bytes \<Rightarrow> nat option" where
  "find_subsequence haystack needle =
     (if needle = [] \<or> length haystack < length needle then None else find_sub needle haystack)"

lemma find_subsequence_eq: "needle \<noteq> [] \<Longrightarrow> find_subsequence haystack needle = find_sub needle haystack"
  using find_sub_Some [of needle haystack]
  by (cases "find_sub needle haystack") (auto simp: find_subsequence_def)

record wire_scanner =
  decoded_buffer :: bytes
  max_buffer_bytes :: nat

definition DEFAULT_SCAN_BUFFER_BYTES :: nat where
  "DEFAULT_SCAN_BUFFER_BYTES = 65536"

definition scanner_new :: "nat \<Rightarrow> wire_scanner" where
  "scanner_new n = \<lparr>decoded_buffer = [], max_buffer_bytes = max n 1024\<rparr>"

definition marker_bytes :: bytes where
  "marker_bytes = bytes_of server_list_marker"

text \<open>The \<^verbatim>\<open>while let\<close> loop: take complete frames off the buffer, keep the last one seen.\<close>

function scan_frames :: "bytes \<Rightarrow> bytes option \<Rightarrow> bytes option \<times> bytes" where
  "scan_frames buf latest =
     (case find_subsequence buf marker_bytes of
        None \<Rightarrow> (latest, buf)
      | Some start \<Rightarrow>
          (case position (\<lambda>b. b = 0) (drop start buf) of
             None \<Rightarrow> (latest, buf)
           | Some end_rel \<Rightarrow>
               (let end = start + end_rel + 1;
                    frame = take (end - start) (drop start buf)
                in scan_frames (drop end buf) (Some (xor_ff frame)))))"
  by pat_completeness auto
termination
proof (relation "measure (\<lambda>(buf, latest). length buf)", simp, clarsimp)
  fix buf :: bytes and start end_rel
  assume "position (\<lambda>b. b = 0) (drop start buf) = Some end_rel"
  from position_Some [OF this] have "end_rel < length (drop start buf)" by simp
  then show "length buf - Suc (start + end_rel) < length buf" by simp
qed

declare scan_frames.simps [simp del]

definition observe_wire_chunk :: "wire_scanner \<Rightarrow> bytes \<Rightarrow> wire_scanner \<times> bytes option" where
  "observe_wire_chunk sc wire =
     (let buf = decoded_buffer sc @ map (\<lambda>b. b XOR 0xFF) wire;
          kept = (if length buf > max_buffer_bytes sc then drop (length buf - max_buffer_bytes sc) buf else buf);
          (latest, rest) = scan_frames kept None
      in (sc\<lparr>decoded_buffer := rest\<rparr>, latest))"

lemma scan_frames_length: "length (snd (scan_frames buf latest)) \<le> length buf"
proof (induction buf latest rule: scan_frames.induct)
  case (1 buf latest)
  show ?case
    by (subst scan_frames.simps)
      (use 1 in \<open>fastforce split: option.splits simp: Let_def intro: le_trans\<close>)
qed

text \<open>A complete server-list frame as it stands in the decoded stream.\<close>

definition server_list_frame :: "bytes \<Rightarrow> bool" where
  "server_list_frame f \<longleftrightarrow> prefix marker_bytes f \<and> f \<noteq> [] \<and> last f = 0 \<and> 0 \<notin> set (butlast f)"

lemma taken_frame:
  assumes "find_subsequence buf marker_bytes = Some start"
    and "position (\<lambda>b. b = 0) (drop start buf) = Some n"
  shows "server_list_frame (take (Suc n) (drop start buf))"
proof -
  let ?s = "drop start buf"
  note p = position_Some [OF assms(2)]
  have mb: "marker_bytes \<noteq> []" "0 \<notin> set marker_bytes"
    by (auto simp: marker_bytes_def server_list_marker_def bytes_of_def byte_of_def)
  have pre: "prefix marker_bytes ?s"
    using assms(1) mb find_sub_Some by (auto simp: find_subsequence_eq)
  have "length marker_bytes \<le> n"
  proof (rule ccontr)
    assume "\<not> length marker_bytes \<le> n"
    then have "?s ! n = marker_bytes ! n" "marker_bytes ! n \<in> set marker_bytes"
      using pre by (auto simp: prefix_def nth_append)
    with p mb show False by auto
  qed
  then have "prefix marker_bytes (take (Suc n) ?s)"
    using pre by (auto simp: prefix_def)
  moreover have "take (Suc n) ?s = take n ?s @ [0]"
    using p by (simp add: take_Suc_conv_app_nth)
  moreover have "0 \<notin> set (take n ?s)"
    using p by (auto simp: in_set_conv_nth)
  ultimately show ?thesis by (simp add: server_list_frame_def)
qed

lemma scan_frames_latest:
  "fst (scan_frames buf latest) = Some w \<Longrightarrow>
     latest = Some w \<or> server_list_frame (xor_ff w)"
proof (induction buf latest rule: scan_frames.induct)
  case (1 buf latest)
  then show ?case
    using taken_frame
    by (subst (asm) (2) scan_frames.simps) (fastforce split: option.splits simp: Let_def)
qed

lemma scan_frames_complete:
  assumes "server_list_frame f"
  shows "scan_frames (f @ rest) latest = scan_frames rest (Some (xor_ff f))"
proof -
  from assms obtain g where f: "f = g @ [0]" "0 \<notin> set g"
    by (cases f rule: rev_cases) (auto simp: server_list_frame_def)
  have "find_subsequence (f @ rest) marker_bytes = Some 0"
    using assms by (auto simp: find_subsequence_eq marker_bytes_def server_list_marker_def
        bytes_of_def server_list_frame_def prefix_def)
  moreover have "position (\<lambda>b. b = 0) (f @ rest) = Some (length g)"
  proof -
    have "position (\<lambda>b. b = 0) g = None" using f(2) by (auto simp: position_None)
    then show ?thesis using f(1) by (simp add: position_append)
  qed
  ultimately show ?thesis
    using f by (subst scan_frames.simps) simp
qed

lemma observe_bounded:
  "length (decoded_buffer (fst (observe_wire_chunk sc wire))) \<le> max_buffer_bytes sc"
proof -
  let ?m = "max_buffer_bytes sc"
  define buf where "buf = decoded_buffer sc @ map (\<lambda>b. b XOR 0xFF) wire"
  define kept where "kept = (if length buf > ?m then drop (length buf - ?m) buf else buf)"
  have "length kept \<le> ?m" by (simp add: kept_def)
  then have "length (snd (scan_frames kept None)) \<le> ?m"
    using scan_frames_length [of kept None] by linarith
  then show ?thesis
    by (simp add: observe_wire_chunk_def Let_def split_beta flip: buf_def kept_def)
qed

lemma built_frame:
  assumes "\<And>ep. ep \<in> set srv \<Longrightarrow> plain_host (fst ep)"
  shows "server_list_frame (xor_ff (build_server_list_wire srv))"
proof -
  let ?e = "join ''|'' (map show_endpoint srv)"
  have "c \<noteq> CHR 0x00" if "c \<in> set ?e" for c
    using that set_join [of "''|''" "map show_endpoint srv"] show_endpoint_chars assms by fastforce
  then have nz: "0 \<notin> set (bytes_of ?e)"
    by (auto simp: bytes_of_def)
  have mz: "0 \<notin> set marker_bytes"
    by (simp add: marker_bytes_def server_list_marker_def bytes_of_def)
  have "xor_ff (build_server_list_wire srv) = (marker_bytes @ bytes_of ?e) @ [0]"
    by (simp add: build_server_list_wire_def Let_def marker_bytes_def bytes_of_def byte_of_nul)
  then show ?thesis
    using nz mz by (auto simp: server_list_frame_def butlast_append)
qed

end
