(* ===== verification/Qbt_Codec.thy ===== *)
theory Qbt_Codec
  imports Qbt_Protocol
begin

text \<open>
  The streaming decoder of \<^verbatim>\<open>qbt_receiver/protocol/codec.rs\<close>.  The state is the record
  \<open>decoder\<close>; every handler of the state machine is one definition that returns the new
  decoder, the events it pushed and its \<^verbatim>\<open>Result<bool>\<close>; \<open>decode_step\<close> is one round of the
  loop in \<^verbatim>\<open>feed\<close>, recovery included, and \<open>feed_loop\<close> is that loop.

  Two third-party calls are parameters, fields of \<open>decode_env\<close>: zlib inflation
  (\<^verbatim>\<open>flate2\<close>, the error text or the output) and the date parser (\<^verbatim>\<open>time\<close>, seconds since the
  epoch and nanoseconds).  \<open>env_now\<close> is the value of \<^verbatim>\<open>SystemTime::now()\<close>.
\<close>

section \<open>State\<close>

record decode_env =
  env_inflate :: "bytes \<Rightarrow> str + bytes"
  env_parse_datetime :: "str \<Rightarrow> (int \<times> nat) option"
  env_now :: system_time

datatype decoder_state =
    Resync
  | StartFrame
  | FrameType
  | InServerList
  | BlockHeader
  | BlockBody
  | Validate

record pending_segment =
  p_filename :: str
  p_block_number :: u32
  p_total_blocks :: u32
  p_checksum :: u32
  p_length :: nat
  p_version :: qbt_version
  p_content :: bytes
  p_timestamp_utc :: system_time
  p_warnings :: "qbt_protocol_warning list"
  p_decompression_failed :: bool

record decoder =
  config :: qbt_decode_config
  buffer :: bytes
  dstate :: decoder_state
  pending :: "pending_segment option"

definition SYNC_BYTES :: bytes where
  "SYNC_BYTES = [0, 0, 0, 0, 0, 0]"

definition HEADER_SIZE :: nat where
  "HEADER_SIZE = 80"

definition V1_BODY_SIZE :: nat where
  "V1_BODY_SIZE = 1024"

definition MIN_SERVER_LIST_FRAME_BYTES :: nat where
  "MIN_SERVER_LIST_FRAME_BYTES = 1024"

definition decoder_new :: "qbt_decode_config \<Rightarrow> decoder" where
  "decoder_new cfg =
     \<lparr>config = cfg\<lparr>max_server_list_frame_bytes :=
        max (max_server_list_frame_bytes cfg) MIN_SERVER_LIST_FRAME_BYTES\<rparr>,
      buffer = [], dstate = Resync, pending = None\<rparr>"

definition decoder_reset :: "decoder \<Rightarrow> decoder" where
  "decoder_reset d = d\<lparr>buffer := [], pending := None, dstate := Resync\<rparr>"

text \<open>What a handler yields: the decoder, the events pushed, and \<^verbatim>\<open>Result<bool, _>\<close>.\<close>

type_synonym handled = "decoder \<times> qbt_frame_event list \<times> (qbt_protocol_error + bool)"

section \<open>Header fields\<close>

definition parse_tag_value :: "str \<Rightarrow> str \<Rightarrow> qbt_protocol_error + str \<times> str" where
  "parse_tag_value input tag =
     (case strip_prefix tag input of
        None \<Rightarrow> Inl (MissingField tag)
      | Some rest0 \<Rightarrow>
          (let rest = trim_start rest0;
               next_tag = (case find_sub '' /'' rest of Some idx \<Rightarrow> idx + 1 | None \<Rightarrow> length rest);
               value = trim_end (take next_tag rest);
               remainder = drop next_tag rest
           in if value = [] then Inl InvalidHeader else Inr (value, remainder)))"

definition parse_numeric_tag :: "str \<Rightarrow> str \<Rightarrow> qbt_protocol_error + u32 \<times> str" where
  "parse_numeric_tag input tag =
     (case parse_tag_value input tag of
        Inl e \<Rightarrow> Inl e
      | Inr (value, rest) \<Rightarrow>
          (case parse_u32 value of None \<Rightarrow> Inl InvalidHeader | Some parsed \<Rightarrow> Inr (parsed, rest)))"

definition parse_fd_timestamp :: "decode_env \<Rightarrow> str \<Rightarrow> system_time option" where
  "parse_fd_timestamp env fd =
     (case env_parse_datetime env fd of
        None \<Rightarrow> None
      | Some (seconds, nanos) \<Rightarrow>
          (if seconds \<ge> 0 then Some (seconds * 1000000000 + int nanos)
           else Some (- (\<bar>seconds\<bar> * 1000000000 + int nanos))))"

definition parse_dl :: "str \<Rightarrow> qbt_protocol_error + u32 option" where
  "parse_dl rest0 =
     (let rest = trim rest0 in
      if rest = [] then Inr None
      else case parse_numeric_tag rest ''/DL'' of
        Inl e \<Rightarrow> Inl e
      | Inr (dl, trailing) \<Rightarrow> if trim trailing \<noteq> [] then Inl InvalidHeader else Inr (Some dl))"

definition body_length :: "nat \<Rightarrow> u32 option \<Rightarrow> qbt_protocol_error + qbt_version \<times> nat" where
  "body_length max_v2 dl =
     (case dl of
        Some n \<Rightarrow>
          (let len = unat n in
           if len = 0 \<or> len > max_v2 then Inl (InvalidBodyLength len) else Inr (V2, len))
      | None \<Rightarrow> Inr (V1, V1_BODY_SIZE))"

definition parse_header :: "decode_env \<Rightarrow> bytes \<Rightarrow> nat \<Rightarrow> qbt_protocol_error + pending_segment" where
  "parse_header env input max_v2 =
     (case from_utf8 input of
        Inl e \<Rightarrow> Inl (InvalidUtf8 e)
      | Inr header0 \<Rightarrow>
     (let header = trim_end_matches (\<lambda>c. c = CHR '' '' \<or> c = CHR 0x0D \<or> c = CHR 0x0A) header0 in
      case parse_tag_value header ''/PF'' of Inl e \<Rightarrow> Inl e | Inr (filename, r1) \<Rightarrow>
     (case parse_numeric_tag r1 ''/PN'' of Inl e \<Rightarrow> Inl e | Inr (block_number, r2) \<Rightarrow>
     (case parse_numeric_tag r2 ''/PT'' of Inl e \<Rightarrow> Inl e | Inr (total_blocks, r3) \<Rightarrow>
     (case parse_numeric_tag r3 ''/CS'' of Inl e \<Rightarrow> Inl e | Inr (checksum, r4) \<Rightarrow>
     (case parse_tag_value r4 ''/FD'' of Inl e \<Rightarrow> Inl e | Inr (fd, r5) \<Rightarrow>
     (let (timestamp, warnings) =
            (case parse_fd_timestamp env fd of
               Some ts \<Rightarrow> (ts, [])
             | None \<Rightarrow> (env_now env, [TimestampParseFallback fd]))
      in
      case parse_dl r5 of Inl e \<Rightarrow> Inl e | Inr dl \<Rightarrow>
     (case body_length max_v2 dl of Inl e \<Rightarrow> Inl e | Inr (version, len) \<Rightarrow>
        Inr \<lparr>p_filename = filename, p_block_number = block_number, p_total_blocks = total_blocks,
             p_checksum = checksum, p_length = len, p_version = version, p_content = [],
             p_timestamp_utc = timestamp, p_warnings = warnings,
             p_decompression_failed = False\<rparr>))))))))"

definition is_text_or_wmo :: "str \<Rightarrow> bool" where
  "is_text_or_wmo filename \<longleftrightarrow>
     (let upper = to_ascii_uppercase filename in suffix ''.TXT'' upper \<or> suffix ''.WMO'' upper)"

definition is_padding :: "u8 \<Rightarrow> bool" where
  "is_padding b \<longleftrightarrow> b = 0 \<or> b = 0x20 \<or> b = 0x09 \<or> b = 0x0D \<or> b = 0x0A"

text \<open>The loop that moves \<^verbatim>\<open>end\<close> down while the byte before it is padding.\<close>

fun text_end :: "bytes \<Rightarrow> nat \<Rightarrow> nat" where
  "text_end content 0 = 0"
| "text_end content (Suc e) = (if is_padding (content ! e) then text_end content e else Suc e)"

definition trim_text_padding :: "bytes \<Rightarrow> bytes" where
  "trim_text_padding content = take (text_end content (length content)) content"

section \<open>State-machine handlers\<close>

text \<open>The \<^verbatim>\<open>memchr\<close> loop of \<^verbatim>\<open>find_sync\<close>: from zero byte to zero byte.\<close>

function sync_search :: "bytes \<Rightarrow> nat \<Rightarrow> nat option" where
  "sync_search buf search_from =
     (case position (\<lambda>b. b = 0) (drop search_from buf) of
        None \<Rightarrow> None
      | Some off \<Rightarrow>
          (let idx = search_from + off in
           if prefix SYNC_BYTES (drop idx buf) then Some idx else sync_search buf (idx + 1)))"
  by pat_completeness auto
termination
proof (relation "measure (\<lambda>(buf, i). length buf - i)", simp, clarsimp)
  fix buf :: bytes and i off
  assume "position (\<lambda>b. b = 0) (drop i buf) = Some off"
  from position_Some [OF this] show "length buf - Suc (i + off) < length buf - i" by auto
qed

declare sync_search.simps [simp del]

definition find_sync :: "decoder \<Rightarrow> decoder \<times> bool" where
  "find_sync d =
     (if length (buffer d) < length SYNC_BYTES then (d, False)
      else case sync_search (buffer d) 0 of
        Some idx \<Rightarrow>
          (d\<lparr>buffer := drop (idx + length SYNC_BYTES) (buffer d), dstate := StartFrame\<rparr>, True)
      | None \<Rightarrow>
          (let keep = length SYNC_BYTES - 1 in
           (if length (buffer d) > keep
            then d\<lparr>buffer := drop (length (buffer d) - keep) (buffer d)\<rparr> else d, False)))"

definition skip_padding :: "decoder \<Rightarrow> decoder \<times> bool" where
  "skip_padding d =
     (let rest = dropWhile (\<lambda>b. b = 0) (buffer d);
          skipped = length (buffer d) - length rest;
          d' = d\<lparr>buffer := rest\<rparr>
      in if rest \<noteq> [] then (d'\<lparr>dstate := FrameType\<rparr>, True) else (d', skipped > 0))"

definition detect_frame_type :: "decoder \<Rightarrow> decoder \<times> bool" where
  "detect_frame_type d =
     (let buf = buffer d in
      if buf = [] then (d, False)
      else if hd buf \<noteq> byte_of CHR ''/'' then (d\<lparr>buffer := drop 1 buf, dstate := Resync\<rparr>, True)
      else if length buf < 3 then (d, False)
      else if prefix (bytes_of ''/PF'') buf then (d\<lparr>dstate := BlockHeader\<rparr>, True)
      else if prefix (bytes_of ''/Se'') buf \<or> prefix (bytes_of ''/ServerList/'') buf
        then (d\<lparr>dstate := InServerList\<rparr>, True)
      else (d\<lparr>buffer := drop 1 buf, dstate := Resync\<rparr>, True))"

definition discard_malformed_server_list :: "decoder \<Rightarrow> decoder" where
  "discard_malformed_server_list d =
     (let buf = buffer d;
          buf' =
            (case map_option Suc (find_subsequence (drop 1 buf) SYNC_BYTES) of
               Some sync_pos \<Rightarrow> drop sync_pos buf
             | None \<Rightarrow>
                 (let keep = length SYNC_BYTES - 1 in
                  if length buf > keep then drop (length buf - keep) buf else buf))
      in d\<lparr>buffer := buf', dstate := Resync\<rparr>)"

definition oversize_warning :: "decoder \<Rightarrow> qbt_frame_event" where
  "oversize_warning d =
     Warning (DecoderRecovered
       (''server list frame exceeded '' @ show_nat (max_server_list_frame_bytes (config d)) @ '' bytes''))"

definition process_server_list :: "decoder \<Rightarrow> handled" where
  "process_server_list d =
     (let limit = max_server_list_frame_bytes (config d) in
      case position (\<lambda>b. b = 0) (buffer d) of
        None \<Rightarrow>
          (if length (buffer d) > limit
           then (discard_malformed_server_list d, [oversize_warning d], Inr True)
           else (d, [], Inr False))
      | Some end_idx \<Rightarrow>
          (if end_idx > limit
           then (discard_malformed_server_list d, [oversize_warning d], Inr True)
           else
             let d' = d\<lparr>buffer := drop (end_idx + 1) (buffer d)\<rparr> in
             case from_utf8 (take end_idx (buffer d)) of
               Inl e \<Rightarrow> (d', [], Inl (InvalidUtf8 e))
             | Inr content \<Rightarrow>
                 (case parse_server_list_frame content of
                    Inl e \<Rightarrow> (d', [], Inl e)
                  | Inr (server_list, warnings) \<Rightarrow>
                      (d'\<lparr>dstate := StartFrame\<rparr>,
                       ServerListUpdate server_list # map Warning warnings, Inr True))))"

definition process_block_header :: "decode_env \<Rightarrow> decoder \<Rightarrow> handled" where
  "process_block_header env d =
     (if length (buffer d) < HEADER_SIZE then (d, [], Inr False)
      else
        let d' = d\<lparr>buffer := drop HEADER_SIZE (buffer d)\<rparr> in
        case parse_header env (take HEADER_SIZE (buffer d)) (max_v2_body_size (config d)) of
          Inl e \<Rightarrow> (d', [], Inl e)
        | Inr p \<Rightarrow> (d'\<lparr>pending := Some p, dstate := BlockBody\<rparr>, [], Inr True))"

definition decompress_zlib :: "decode_env \<Rightarrow> bytes \<Rightarrow> qbt_protocol_error + bytes" where
  "decompress_zlib env input =
     (case env_inflate env input of Inl e \<Rightarrow> Inl (Decompression e) | Inr out \<Rightarrow> Inr out)"

text \<open>What happens to the pending block once its body bytes are there.\<close>

definition body_arrived :: "decode_env \<Rightarrow> qbt_decode_config \<Rightarrow> pending_segment \<Rightarrow> bytes \<Rightarrow> pending_segment" where
  "body_arrived env cfg p body =
     (let should_attempt =
            p_version p = V2 \<and>
            (case compression_policy cfg of RequireZlibHeader \<Rightarrow> has_zlib_header body | TryAlways \<Rightarrow> True)
      in if should_attempt
         then case decompress_zlib env body of
             Inr decompressed \<Rightarrow> p\<lparr>p_content := decompressed\<rparr>
           | Inl err \<Rightarrow>
               p\<lparr>p_decompression_failed := True,
                 p_warnings := p_warnings p @
                   [DecompressionFailed (p_filename p) (p_block_number p) (show_protocol_error err)],
                 p_content := body\<rparr>
         else p\<lparr>p_content := body\<rparr>)"

definition process_block_body :: "decode_env \<Rightarrow> decoder \<Rightarrow> handled" where
  "process_block_body env d =
     (case pending d of
        None \<Rightarrow> (d, [], Inl InvalidFrameType)
      | Some p \<Rightarrow>
          (if length (buffer d) < p_length p then (d, [], Inr False)
           else
             let body = take (p_length p) (buffer d) in
             (d\<lparr>buffer := drop (p_length p) (buffer d),
                pending := Some (body_arrived env (config d) p body), dstate := Validate\<rparr>,
              [], Inr True)))"

definition expected_checksum :: "pending_segment \<Rightarrow> int" where
  "expected_checksum p =
     (if p_version p = V1 then uint (p_checksum p AND 0xFFFF) else uint (p_checksum p))"

definition segment_of :: "pending_segment \<Rightarrow> qbt_segment" where
  "segment_of p =
     \<lparr>seg_filename = p_filename p, seg_block_number = p_block_number p,
      seg_total_blocks = p_total_blocks p,
      seg_content = (if is_text_or_wmo (p_filename p) then trim_text_padding (p_content p) else p_content p),
      seg_checksum = p_checksum p, seg_length = p_length p, seg_version = p_version p,
      seg_timestamp_utc = p_timestamp_utc p, seg_source = None\<rparr>"

definition is_fillfile :: "str \<Rightarrow> bool" where
  "is_fillfile name \<longleftrightarrow> eq_ignore_ascii_case name ''FILLFILE.TXT''"

definition valid_numbering :: "u32 \<Rightarrow> u32 \<Rightarrow> bool" where
  "valid_numbering block_number total_blocks \<longleftrightarrow>
     \<not> (total_blocks = 0 \<or> block_number = 0 \<or> block_number > total_blocks)"

text \<open>The events for a block after its pending warnings.\<close>

definition emit_block :: "pending_segment \<Rightarrow> qbt_frame_event list" where
  "emit_block p =
     (if p_decompression_failed p then []
      else if \<not> valid_numbering (p_block_number p) (p_total_blocks p) then []
      else if is_fillfile (p_filename p) then []
      else if \<not> verify_checksum (p_content p) (expected_checksum p)
        then [Warning (ChecksumMismatch (p_filename p) (p_block_number p))]
      else [DataBlock (segment_of p)])"

definition validate_and_emit :: "decoder \<Rightarrow> handled" where
  "validate_and_emit d =
     (case pending d of
        None \<Rightarrow> (d, [], Inl InvalidFrameType)
      | Some p \<Rightarrow>
          (d\<lparr>pending := None, dstate := StartFrame\<rparr>, map Warning (p_warnings p) @ emit_block p, Inr True))"

definition process_buffer :: "decode_env \<Rightarrow> decoder \<Rightarrow> handled" where
  "process_buffer env d =
     (case dstate d of
        Resync \<Rightarrow> (let (d', b) = find_sync d in (d', [], Inr b))
      | StartFrame \<Rightarrow> (let (d', b) = skip_padding d in (d', [], Inr b))
      | FrameType \<Rightarrow> (let (d', b) = detect_frame_type d in (d', [], Inr b))
      | InServerList \<Rightarrow> process_server_list d
      | BlockHeader \<Rightarrow> process_block_header env d
      | BlockBody \<Rightarrow> process_block_body env d
      | Validate \<Rightarrow> validate_and_emit d)"

section \<open>The feed loop\<close>

definition recover :: "decoder \<Rightarrow> qbt_protocol_error \<Rightarrow> decoder \<times> bool" where
  "recover d err =
     (let d' = d\<lparr>pending := None, dstate := Resync\<rparr> in
      if err = InvalidFrameType \<and> buffer d' \<noteq> [] then (d'\<lparr>buffer := drop 1 (buffer d')\<rparr>, True)
      else (d', buffer d' \<noteq> []))"

definition decode_step :: "decode_env \<Rightarrow> decoder \<Rightarrow> decoder \<times> qbt_frame_event list \<times> bool" where
  "decode_step env d =
     (case process_buffer env d of
        (d', out, Inr progressed) \<Rightarrow> (d', out, progressed)
      | (d', out, Inl err) \<Rightarrow>
          (let (d'', progressed) = recover d' err in
           (d'', out @ [Warning (DecoderRecovered (show_protocol_error err))], progressed)))"

text \<open>
  The loop stops because a round that makes progress consumes buffered bytes or, with the
  same buffer, moves to a state of lower rank.
\<close>

fun rank :: "decoder_state \<Rightarrow> nat" where
  "rank BlockBody = 5"
| "rank Validate = 4"
| "rank StartFrame = 3"
| "rank FrameType = 2"
| "rank InServerList = 1"
| "rank BlockHeader = 0"
| "rank Resync = 0"

lemma sync_search_eq:
  "i \<le> length buf \<Longrightarrow> sync_search buf i = map_option ((+) i) (find_sub SYNC_BYTES (drop i buf))"
proof (induction buf i rule: sync_search.induct)
  case (1 buf i)
  show ?case
  proof (cases "position (\<lambda>b. b = 0) (drop i buf)")
    case None
    then have "0 \<notin> set (drop i buf)" by (auto simp: position_None)
    then have "find_sub SYNC_BYTES (drop i buf) = None"
      by (intro find_sub_missing [of 0]) (simp_all add: SYNC_BYTES_def)
    with None show ?thesis by (simp add: sync_search.simps [of buf i])
  next
    case (Some off)
    note p = position_Some [OF Some]
    have early: "\<not> prefix SYNC_BYTES (drop j (drop i buf))" if "j < off" for j
    proof
      assume "prefix SYNC_BYTES (drop j (drop i buf))"
      then have "hd (drop j (drop i buf)) = 0" "drop j (drop i buf) \<noteq> []"
        by (auto simp: SYNC_BYTES_def prefix_def)
      then have "drop i buf ! j = 0" by (metis drop_eq_Nil hd_drop_conv_nth not_le)
      with p that show False by blast
    qed
    show ?thesis
    proof (cases "prefix SYNC_BYTES (drop (i + off) buf)")
      case True
      then have "find_sub SYNC_BYTES (drop i buf) = Some off"
        using early p by (intro find_sub_SomeI) (auto simp: add.commute)
      with True Some show ?thesis by (simp add: sync_search.simps [of buf i])
    next
      case False
      have "find_sub SYNC_BYTES (drop i buf) =
          map_option ((+) (Suc off)) (find_sub SYNC_BYTES (drop (Suc off) (drop i buf)))"
      proof (rule find_sub_skip)
        fix j assume "j < Suc off"
        then show "\<not> prefix SYNC_BYTES (drop j (drop i buf))"
          using early [of j] False by (cases "j = off") (auto simp: add.commute)
      qed (use p in simp)
      moreover have "sync_search buf (Suc (i + off)) =
          map_option (\<lambda>a. Suc (i + off + a)) (find_sub SYNC_BYTES (drop (Suc (i + off)) buf))"
      proof -
        have "Suc (i + off) \<le> length buf" using p by auto
        with "1.IH" [OF Some refl] False show ?thesis by simp
      qed
      ultimately show ?thesis
        using False Some
        by (cases "find_sub SYNC_BYTES (drop (Suc (i + off)) buf)")
          (simp_all add: sync_search.simps [of buf i] add.commute)
    qed
  qed
qed

lemma sync_search_0: "sync_search buf 0 = find_sub SYNC_BYTES buf"
  by (cases "find_sub SYNC_BYTES buf") (simp_all add: sync_search_eq)

lemma length_SYNC_BYTES [simp]: "length SYNC_BYTES = 6"
  by (simp add: SYNC_BYTES_def)

lemma SYNC_BYTES_nonempty [simp]: "SYNC_BYTES \<noteq> []"
  by (simp add: SYNC_BYTES_def)

lemma find_sync_decreases: "find_sync d = (d', True) \<Longrightarrow> length (buffer d') < length (buffer d)"
  using find_sub_Some [of SYNC_BYTES "buffer d"]
  by (auto simp: find_sync_def sync_search_0 Let_def split: if_splits option.splits)

lemma skip_padding_decreases:
  "skip_padding d = (d', True) \<Longrightarrow> length (buffer d') < length (buffer d) \<or>
     (length (buffer d') = length (buffer d) \<and> dstate d' = FrameType)"
  using length_dropWhile_le [of "\<lambda>b. b = 0" "buffer d"]
  by (auto simp: skip_padding_def Let_def split: if_splits)

lemma detect_frame_type_decreases:
  "detect_frame_type d = (d', True) \<Longrightarrow> length (buffer d') < length (buffer d) \<or>
     (length (buffer d') = length (buffer d) \<and> dstate d' \<in> {BlockHeader, InServerList})"
  by (auto simp: detect_frame_type_def Let_def split: if_splits)

lemma discard_decreases:
  "length (buffer (discard_malformed_server_list d)) \<le> length (buffer d)"
  "dstate (discard_malformed_server_list d) = Resync"
  by (auto simp: discard_malformed_server_list_def Let_def split: option.splits)

lemma process_server_list_decreases:
  assumes "process_server_list d = (d', out, r)" "r \<noteq> Inr False"
  shows "length (buffer d') < length (buffer d) \<or>
         (length (buffer d') = length (buffer d) \<and> dstate d' = Resync)"
  using assms discard_decreases [of d] position_Some [of "\<lambda>b. b = 0" "buffer d"]
  by (fastforce simp: process_server_list_def Let_def
      split: option.splits if_splits sum.splits prod.splits)

lemma process_block_header_decreases:
  assumes "process_block_header env d = (d', out, r)" "r \<noteq> Inr False"
  shows "length (buffer d') < length (buffer d)"
  using assms
  by (auto simp: process_block_header_def Let_def HEADER_SIZE_def split: if_splits sum.splits)

lemma process_block_body_decreases:
  assumes "process_block_body env d = (d', out, r)" "r \<noteq> Inr False"
  shows "length (buffer d') \<le> length (buffer d) \<and> (r = Inr True \<longrightarrow> dstate d' = Validate)"
  using assms
  by (auto simp: process_block_body_def Let_def split: if_splits option.splits)

lemma validate_and_emit_decreases:
  assumes "validate_and_emit d = (d', out, r)"
  shows "length (buffer d') = length (buffer d) \<and> (r = Inr True \<longrightarrow> dstate d' = StartFrame)"
  using assms by (auto simp: validate_and_emit_def split: option.splits)

lemma recover_decreases:
  assumes "recover d err = (d', b)"
  shows "length (buffer d') \<le> length (buffer d) \<and> dstate d' = Resync"
  using assms by (auto simp: recover_def Let_def split: if_splits)

lemma decode_step_decreases:
  assumes "decode_step env d = (d', out, True)"
  shows "length (buffer d') < length (buffer d) \<or>
         (length (buffer d') = length (buffer d) \<and> rank (dstate d') < rank (dstate d))"
proof -
  obtain d1 o1 r where pb: "process_buffer env d = (d1, o1, r)"
    by (cases "process_buffer env d") auto
  show ?thesis
  proof (cases r)
    case (Inr b)
    with assms pb have [simp]: "d1 = d'" "b = True" by (auto simp: decode_step_def)
    show ?thesis
      using pb Inr
      by (cases "dstate d")
        (auto simp: process_buffer_def split: prod.splits
          dest: find_sync_decreases skip_padding_decreases detect_frame_type_decreases
            process_server_list_decreases process_block_header_decreases
            process_block_body_decreases validate_and_emit_decreases)
  next
    case (Inl err)
    with assms pb have rec: "recover d1 err = (d', True)"
      by (auto simp: decode_step_def split: prod.splits)
    have "length (buffer d1) < length (buffer d) \<or>
        (length (buffer d1) \<le> length (buffer d) \<and> 0 < rank (dstate d))"
      using pb Inl
      by (cases "dstate d")
        (auto simp: process_buffer_def split: prod.splits
          dest: process_server_list_decreases process_block_header_decreases
            process_block_body_decreases validate_and_emit_decreases)
    with recover_decreases [OF rec] show ?thesis by auto
  qed
qed

function feed_loop :: "decode_env \<Rightarrow> decoder \<Rightarrow> qbt_frame_event list \<Rightarrow> decoder \<times> qbt_frame_event list" where
  "feed_loop env d out =
     (case decode_step env d of
        (d', o1, progressed) \<Rightarrow>
          if progressed then feed_loop env d' (out @ o1) else (d', out @ o1))"
  by pat_completeness auto
termination
proof (relation "measures [\<lambda>(env, d, out). length (buffer d), \<lambda>(env, d, out). rank (dstate d)]", simp)
  fix env :: decode_env and d d' :: decoder and out o1 :: "qbt_frame_event list" and y progressed
  assume "(d', y) = decode_step env d" "(o1, progressed) = y" progressed
  then have "decode_step env d = (d', o1, True)" by auto
  from decode_step_decreases [OF this]
  show "((env, d', out @ o1), env, d, out) \<in>
      measures [\<lambda>(env, d, out). length (buffer d), \<lambda>(env, d, out). rank (dstate d)]"
    by auto
qed

declare feed_loop.simps [simp del]

definition feed :: "decode_env \<Rightarrow> decoder \<Rightarrow> bytes \<Rightarrow> decoder \<times> (qbt_protocol_error + qbt_frame_event list)" where
  "feed env d chunk =
     (let decoded = map (\<lambda>b. b XOR 0xFF) chunk;
          (d', out) = feed_loop env (d\<lparr>buffer := buffer d @ decoded\<rparr>) []
      in (d', Inr out))"

section \<open>Invariant\<close>

definition decoder_inv :: "decoder \<Rightarrow> bool" where
  "decoder_inv d \<longleftrightarrow>
     MIN_SERVER_LIST_FRAME_BYTES \<le> max_server_list_frame_bytes (config d) \<and>
     (dstate d \<in> {BlockBody, Validate} \<longrightarrow> pending d \<noteq> None) \<and>
     (\<forall>p. pending d = Some p \<longrightarrow>
        1 \<le> p_length p \<and> p_length p \<le> max V1_BODY_SIZE (max_v2_body_size (config d)))"

lemma decoder_new_inv: "decoder_inv (decoder_new cfg)"
  by (simp add: decoder_inv_def decoder_new_def)

lemma decoder_reset_inv: "decoder_inv d \<Longrightarrow> decoder_inv (decoder_reset d)"
  by (simp add: decoder_inv_def decoder_reset_def)

lemma parse_tag_value_error: "parse_tag_value i t = Inl e \<Longrightarrow> e \<noteq> InvalidFrameType"
  by (auto simp: parse_tag_value_def Let_def split: option.splits if_splits)

lemma parse_numeric_tag_error: "parse_numeric_tag i t = Inl e \<Longrightarrow> e \<noteq> InvalidFrameType"
  by (auto simp: parse_numeric_tag_def dest: parse_tag_value_error split: option.splits sum.splits)

lemma parse_dl_error: "parse_dl r = Inl e \<Longrightarrow> e \<noteq> InvalidFrameType"
  by (auto simp: parse_dl_def Let_def dest: parse_numeric_tag_error split: if_splits sum.splits)

lemma body_length_error: "body_length m dl = Inl e \<Longrightarrow> e \<noteq> InvalidFrameType"
  by (auto simp: body_length_def Let_def split: option.splits if_splits)

lemma body_length_bound:
  "body_length m dl = Inr (v, len) \<Longrightarrow> 1 \<le> len \<and> len \<le> max V1_BODY_SIZE m"
  by (auto simp: body_length_def V1_BODY_SIZE_def Let_def split: option.splits if_splits)

lemma parse_header_error: "parse_header env i m = Inl e \<Longrightarrow> e \<noteq> InvalidFrameType"
  by (auto simp: parse_header_def Let_def split: sum.splits prod.splits
      dest: parse_tag_value_error parse_numeric_tag_error parse_dl_error body_length_error)

lemma parse_header_length:
  "parse_header env i m = Inr p \<Longrightarrow> 1 \<le> p_length p \<and> p_length p \<le> max V1_BODY_SIZE m"
  by (auto simp: parse_header_def Let_def split: sum.splits prod.splits dest!: body_length_bound)

lemma parse_server_list_frame_error:
  "parse_server_list_frame c = Inl e \<Longrightarrow> e \<noteq> InvalidFrameType"
  by (auto simp: parse_server_list_frame_def Let_def split: if_splits prod.splits)

lemma process_server_list_error:
  "process_server_list d = (d', out, Inl e) \<Longrightarrow> e \<noteq> InvalidFrameType"
  by (auto simp: process_server_list_def Let_def dest: parse_server_list_frame_error
      split: option.splits if_splits sum.splits prod.splits)

lemma body_arrived_length [simp]: "p_length (body_arrived env cfg p body) = p_length p"
  by (simp add: body_arrived_def Let_def split: sum.splits)

definition pending_bound :: "decoder \<Rightarrow> bool" where
  "pending_bound d \<longleftrightarrow>
     (\<forall>p. pending d = Some p \<longrightarrow>
        1 \<le> p_length p \<and> p_length p \<le> max V1_BODY_SIZE (max_v2_body_size (config d)))"

lemma find_sync_frame:
  "pending (fst (find_sync d)) = pending d" "config (fst (find_sync d)) = config d"
  "dstate d = Resync \<Longrightarrow> dstate (fst (find_sync d)) \<in> {Resync, StartFrame}"
  by (auto simp: find_sync_def Let_def split: option.split)

lemma skip_padding_frame:
  "pending (fst (skip_padding d)) = pending d" "config (fst (skip_padding d)) = config d"
  "dstate d = StartFrame \<Longrightarrow> dstate (fst (skip_padding d)) \<in> {StartFrame, FrameType}"
  by (auto simp: skip_padding_def Let_def)

lemma detect_frame_type_frame:
  "pending (fst (detect_frame_type d)) = pending d" "config (fst (detect_frame_type d)) = config d"
  "dstate d = FrameType \<Longrightarrow>
     dstate (fst (detect_frame_type d)) \<in> {FrameType, Resync, BlockHeader, InServerList}"
  by (auto simp: detect_frame_type_def Let_def)

lemma process_server_list_frame:
  "pending (fst (process_server_list d)) = pending d" "config (fst (process_server_list d)) = config d"
  "dstate d = InServerList \<Longrightarrow> dstate (fst (process_server_list d)) \<in> {InServerList, Resync, StartFrame}"
  by (auto simp: process_server_list_def discard_malformed_server_list_def Let_def
      split: option.split sum.split prod.split)

lemma process_block_header_frame:
  assumes "dstate d = BlockHeader" "pending_bound d"
  shows "config (fst (process_block_header env d)) = config d"
    and "pending_bound (fst (process_block_header env d))"
    and "dstate (fst (process_block_header env d)) = BlockHeader \<or>
      dstate (fst (process_block_header env d)) = BlockBody \<and> pending (fst (process_block_header env d)) \<noteq> None"
  using assms parse_header_length [of env "take HEADER_SIZE (buffer d)" "max_v2_body_size (config d)"]
  by (auto simp: process_block_header_def pending_bound_def Let_def split: sum.split)

lemma process_block_body_frame:
  assumes "dstate d = BlockBody" "pending d = Some p" "pending_bound d"
  shows "config (fst (process_block_body env d)) = config d"
    and "pending_bound (fst (process_block_body env d))"
    and "pending (fst (process_block_body env d)) \<noteq> None"
  using assms by (simp_all add: process_block_body_def pending_bound_def Let_def)

lemma decoder_inv_alt:
  "decoder_inv d \<longleftrightarrow>
     MIN_SERVER_LIST_FRAME_BYTES \<le> max_server_list_frame_bytes (config d) \<and> pending_bound d \<and>
     (dstate d \<in> {BlockBody, Validate} \<longrightarrow> pending d \<noteq> None)"
  unfolding decoder_inv_def pending_bound_def by blast

lemma process_buffer_inv:
  assumes "decoder_inv d"
  shows "decoder_inv (fst (process_buffer env d)) \<and> config (fst (process_buffer env d)) = config d"
proof (cases "dstate d")
  case Resync
  then have "fst (process_buffer env d) = fst (find_sync d)" by (simp add: process_buffer_def split_beta)
  with Resync assms find_sync_frame [of d] show ?thesis by (auto simp: decoder_inv_alt pending_bound_def)
next
  case StartFrame
  then have "fst (process_buffer env d) = fst (skip_padding d)" by (simp add: process_buffer_def split_beta)
  with StartFrame assms skip_padding_frame [of d] show ?thesis by (auto simp: decoder_inv_alt pending_bound_def)
next
  case FrameType
  then have "fst (process_buffer env d) = fst (detect_frame_type d)" by (simp add: process_buffer_def split_beta)
  with FrameType assms detect_frame_type_frame [of d] show ?thesis by (auto simp: decoder_inv_alt pending_bound_def)
next
  case InServerList
  then have "fst (process_buffer env d) = fst (process_server_list d)" by (simp add: process_buffer_def)
  with InServerList assms process_server_list_frame [of d] show ?thesis
    by (auto simp: decoder_inv_alt pending_bound_def)
next
  case BlockHeader
  then have "fst (process_buffer env d) = fst (process_block_header env d)" by (simp add: process_buffer_def)
  with BlockHeader assms process_block_header_frame [of d env] show ?thesis by (auto simp: decoder_inv_alt)
next
  case BlockBody
  then have "fst (process_buffer env d) = fst (process_block_body env d)" by (simp add: process_buffer_def)
  moreover obtain p where "pending d = Some p" using BlockBody assms by (auto simp: decoder_inv_alt)
  ultimately show ?thesis
    using BlockBody assms process_block_body_frame [of d p env] by (simp add: decoder_inv_alt)
next
  case Validate
  then obtain p where "pending d = Some p" using assms by (auto simp: decoder_inv_alt)
  with Validate assms show ?thesis
    by (simp add: process_buffer_def validate_and_emit_def decoder_inv_alt pending_bound_def)
qed

lemma recover_inv:
  "decoder_inv d \<Longrightarrow> decoder_inv (fst (recover d e)) \<and> config (fst (recover d e)) = config d"
  by (simp add: recover_def Let_def decoder_inv_alt pending_bound_def)

lemma decode_step_inv:
  assumes "decoder_inv d" "decode_step env d = (d', out, b)"
  shows "decoder_inv d' \<and> config d' = config d"
proof -
  obtain d1 o1 r where pb: "process_buffer env d = (d1, o1, r)"
    by (cases "process_buffer env d") auto
  have d1: "decoder_inv d1" "config d1 = config d"
    using process_buffer_inv [OF assms(1), of env] pb by simp_all
  show ?thesis
  proof (cases r)
    case (Inr c)
    with assms(2) pb d1 show ?thesis by (simp add: decode_step_def)
  next
    case (Inl err)
    then have "d' = fst (recover d1 err)"
      using assms(2) pb by (simp add: decode_step_def split_beta)
    with recover_inv [OF d1(1), of err] d1(2) show ?thesis by simp
  qed
qed

end
