(* ===== verification/Qbt_Stream.thy ===== *)
theory Qbt_Stream
  imports Qbt_Codec
begin

text \<open>
  The decoder as a whole: a run of the feed loop does not depend on how the bytes were cut
  into chunks; what it leaves buffered is bounded; the blocks it emits are numbered, checksummed
  and filtered; frames written in the documented format come back as the events they
  describe; and a run of padding brings any decoder back to a frame boundary.
\<close>

section \<open>Independence of chunking\<close>

definition run :: "decode_env \<Rightarrow> decoder \<Rightarrow> decoder \<times> qbt_frame_event list" where
  "run env d = feed_loop env d []"

definition prepend :: "'b list \<Rightarrow> 'a \<times> 'b list \<Rightarrow> 'a \<times> 'b list" where
  "prepend o1 r = (fst r, o1 @ snd r)"

definition ext :: "decoder \<Rightarrow> bytes \<Rightarrow> decoder" where
  "ext d y = d\<lparr>buffer := buffer d @ y\<rparr>"

lemma prepend_simps [simp]:
  "prepend [] r = r" "prepend a (prepend b r) = prepend (a @ b) r" "prepend a (d, b) = (d, a @ b)"
  by (simp_all add: prepend_def)

lemma ext_sel [simp]:
  "buffer (ext d y) = buffer d @ y" "dstate (ext d y) = dstate d" "pending (ext d y) = pending d"
  "config (ext d y) = config d"
  by (simp_all add: ext_def)

lemma ext_ext [simp]: "ext (ext d x) y = ext d (x @ y)"
  by (simp add: ext_def)

lemma ext_Nil [simp]: "ext d [] = d"
  by (simp add: ext_def)

lemma ext_update [simp]:
  "ext (d\<lparr>dstate := s\<rparr>) y = (ext d y)\<lparr>dstate := s\<rparr>"
  "ext (d\<lparr>pending := q\<rparr>) y = (ext d y)\<lparr>pending := q\<rparr>"
  "ext (d\<lparr>buffer := x\<rparr>) y = d\<lparr>buffer := x @ y\<rparr>"
  "(ext d y)\<lparr>buffer := z\<rparr> = d\<lparr>buffer := z\<rparr>"
  by (simp_all add: ext_def)

lemma feed_loop_prepend: "feed_loop env d (a @ out) = prepend a (feed_loop env d out)"
proof (induction env d out rule: feed_loop.induct)
  case (1 env d out)
  obtain d' o1 b where s: "decode_step env d = (d', o1, b)" by (cases "decode_step env d") auto
  then have "b \<Longrightarrow> feed_loop env d' (a @ out @ o1) = prepend a (feed_loop env d' (out @ o1))"
    using 1 [of d' "(o1, b)" o1 b] by simp
  with s show ?case
    by (simp add: feed_loop.simps [of env d "a @ out"] feed_loop.simps [of env d out])
qed

lemma run_step:
  "run env d =
     (case decode_step env d of (d', o1, b) \<Rightarrow> if b then prepend o1 (run env d') else (d', o1))"
proof -
  obtain d' o1 b where s: "decode_step env d = (d', o1, b)" by (cases "decode_step env d") auto
  have "feed_loop env d' o1 = prepend o1 (feed_loop env d' [])"
    using feed_loop_prepend [of env d' o1 "[]"] by simp
  with s show ?thesis by (simp add: run_def feed_loop.simps [of env d "[]"])
qed

lemma feed_eq_run: "feed env d chunk = map_prod id Inr (run env (ext d (xor_ff chunk)))"
  by (simp add: feed_def run_def ext_def xor_ff_def Let_def map_prod_def split_beta)

lemma decode_step_resync:
  "dstate d = Resync \<Longrightarrow> decode_step env d = (fst (find_sync d), [], snd (find_sync d))"
  by (simp add: decode_step_def process_buffer_def split_beta)

lemma run_resync_Some:
  assumes "dstate d = Resync" "find_sub SYNC_BYTES (buffer d) = Some i"
  shows "run env d = run env (d\<lparr>buffer := drop (i + 6) (buffer d), dstate := StartFrame\<rparr>)"
proof -
  have "\<not> length (buffer d) < 6" using find_sub_Some [OF assms(2)] by simp
  then have "find_sync d = (d\<lparr>buffer := drop (i + 6) (buffer d), dstate := StartFrame\<rparr>, True)"
    by (simp add: find_sync_def sync_search_0 assms(2))
  then show ?thesis
    by (subst run_step) (simp add: decode_step_resync assms(1))
qed

lemma run_resync_None:
  assumes "dstate d = Resync" "find_sub SYNC_BYTES (buffer d) = None"
  shows "run env d = (d\<lparr>buffer := drop (length (buffer d) - 5) (buffer d)\<rparr>, [])"
  by (subst run_step) (simp add: decode_step_resync assms find_sync_def sync_search_0 Let_def)

text \<open>In \<^const>\<open>Resync\<close>, a stretch without a sync marker matters only through its last five bytes.\<close>

lemma run_resync_tail:
  assumes "dstate d = Resync" "find_sub SYNC_BYTES x = None"
  shows "run env (d\<lparr>buffer := x @ y\<rparr>) = run env (d\<lparr>buffer := drop (length x - 5) x @ y\<rparr>)"
proof -
  let ?k = "length x - 5"
  let ?t = "drop ?k x @ y"
  have t: "?t = drop ?k (x @ y)" by simp
  have fs: "find_sub SYNC_BYTES (x @ y) = map_option ((+) ?k) (find_sub SYNC_BYTES ?t)"
    using find_sub_append_None [OF assms(2), of y] by simp
  show ?thesis
  proof (cases "find_sub SYNC_BYTES ?t")
    case None
    then have "run env (d\<lparr>buffer := x @ y\<rparr>) = (d\<lparr>buffer := drop (length (x @ y) - 5) (x @ y)\<rparr>, [])"
      using fs assms(1) by (subst run_resync_None) simp_all
    moreover have "run env (d\<lparr>buffer := ?t\<rparr>) = (d\<lparr>buffer := drop (length ?t - 5) ?t\<rparr>, [])"
      using None assms(1) by (subst run_resync_None) simp_all
    moreover have "drop (length ?t - 5) ?t = drop (length (x @ y) - 5) (x @ y)"
      by (simp only: t drop_drop length_drop) (rule arg_cong [where f = "\<lambda>n. drop n (x @ y)"], simp)
    ultimately show ?thesis by simp
  next
    case (Some i)
    have "run env (d\<lparr>buffer := x @ y\<rparr>) =
        run env (d\<lparr>buffer := drop (?k + i + 6) (x @ y), dstate := StartFrame\<rparr>)"
      using fs Some assms(1) by (subst run_resync_Some [of _ "?k + i"]) simp_all
    moreover have "run env (d\<lparr>buffer := ?t\<rparr>) =
        run env (d\<lparr>buffer := drop (i + 6) ?t, dstate := StartFrame\<rparr>)"
      using Some assms(1) by (subst run_resync_Some [of _ i]) simp_all
    moreover have "drop (i + 6) ?t = drop (?k + i + 6) (x @ y)"
      by (simp only: t drop_drop) (rule arg_cong [where f = "\<lambda>n. drop n (x @ y)"], simp)
    ultimately show ?thesis by simp
  qed
qed

lemma run_start_frame:
  assumes "dstate d = StartFrame"
  shows "run env d =
    (let rest = dropWhile (\<lambda>b. b = 0) (buffer d) in
     if rest \<noteq> [] then run env (d\<lparr>buffer := rest, dstate := FrameType\<rparr>) else (d\<lparr>buffer := []\<rparr>, []))"
proof -
  let ?rest = "dropWhile (\<lambda>b. b = 0) (buffer d)"
  have step: "decode_step env d' = (fst (skip_padding d'), [], snd (skip_padding d'))"
    if "dstate d' = StartFrame" for d'
    using that by (simp add: decode_step_def process_buffer_def split_beta)
  have stuck: "run env (d\<lparr>buffer := []\<rparr>) = (d\<lparr>buffer := []\<rparr>, [])"
    by (subst run_step) (simp add: step assms skip_padding_def)
  show ?thesis
  proof (cases "?rest = []")
    case False
    then show ?thesis
      by (subst run_step) (simp add: step assms skip_padding_def Let_def)
  next
    case True
    then have "skip_padding d = (d\<lparr>buffer := []\<rparr>, buffer d \<noteq> [])"
      by (simp add: skip_padding_def Let_def del: dropWhile_eq_Nil_conv)
    with True stuck show ?thesis
      by (subst run_step) (simp add: step assms del: dropWhile_eq_Nil_conv)
  qed
qed

text \<open>
  A round that does not look beyond the bytes it has behaves the same with more bytes
  behind them; an empty buffer after a recovery makes no difference either.
\<close>

lemma stable_round:
  assumes "process_buffer env d = (d1, o1, r)"
    and "process_buffer env (ext d y) = (ext d1 y, o1, r)"
    and "r = Inr True \<or> (\<exists>e. r = Inl e \<and> e \<noteq> InvalidFrameType)"
    and "decode_step env d = (d', o2, b)"
  shows "run env (ext d y) = prepend o2 (run env (ext d' y))"
proof (cases r)
  case (Inr c)
  with assms have "decode_step env (ext d y) = (ext d' y, o2, True)"
    by (auto simp: decode_step_def)
  then show ?thesis by (subst run_step) simp
next
  case (Inl e)
  let ?d' = "d1\<lparr>pending := None, dstate := Resync\<rparr>"
  have d': "d' = ?d'" "o2 = o1 @ [Warning (DecoderRecovered (show_protocol_error e))]"
    using assms(1,3,4) Inl by (auto simp: decode_step_def recover_def Let_def)
  have "decode_step env (ext d y) = (ext ?d' y, o2, buffer (ext ?d' y) \<noteq> [])"
    using assms(2,3) Inl d'(2) by (auto simp: decode_step_def recover_def Let_def ext_def)
  moreover have "run env (ext ?d' y) = (ext ?d' y, [])" if "buffer (ext ?d' y) = []"
    using that by (subst run_resync_None) (simp_all add: SYNC_BYTES_def)
  ultimately show ?thesis
    unfolding d'(1) by (subst run_step) (auto simp: prepend_def)
qed

lemma waiting_round:
  assumes "process_buffer env d = (d, [], Inr False)" "decode_step env d = (d', o1, b)"
  shows "run env (ext d y) = prepend o1 (run env (ext d' y))"
  using assms by (auto simp: decode_step_def)

lemma step_ext_resync:
  assumes "dstate d = Resync" "decode_step env d = (d', o1, b)"
  shows "run env (ext d y) = prepend o1 (run env (ext d' y))"
proof (cases "find_sub SYNC_BYTES (buffer d)")
  case None
  then have "find_sync d = (d\<lparr>buffer := drop (length (buffer d) - 5) (buffer d)\<rparr>, False)"
    by (simp add: find_sync_def sync_search_0 Let_def)
  with assms have "d' = d\<lparr>buffer := drop (length (buffer d) - 5) (buffer d)\<rparr>" "o1 = []"
    by (auto simp: decode_step_resync)
  then show ?thesis
    using run_resync_tail [OF assms(1) None] by (simp add: ext_def)
next
  case (Some i)
  then have len: "i + 6 \<le> length (buffer d)" using find_sub_Some by fastforce
  with Some have "find_sync d = (d\<lparr>buffer := drop (i + 6) (buffer d), dstate := StartFrame\<rparr>, True)"
    by (simp add: find_sync_def sync_search_0)
  with assms have d': "d' = d\<lparr>buffer := drop (i + 6) (buffer d), dstate := StartFrame\<rparr>" "o1 = []"
    by (auto simp: decode_step_resync)
  have "run env (ext d y) = run env ((ext d y)\<lparr>buffer := drop (i + 6) (buffer d @ y), dstate := StartFrame\<rparr>)"
    using assms(1) find_sub_append_Some [OF Some] by (subst run_resync_Some [of _ i]) simp_all
  with d' len show ?thesis by simp
qed

lemma step_ext_start_frame:
  assumes "dstate d = StartFrame" "decode_step env d = (d', o1, b)"
  shows "run env (ext d y) = prepend o1 (run env (ext d' y))"
proof -
  let ?z = "\<lambda>b :: u8. b = 0"
  let ?rest = "dropWhile ?z (buffer d)"
  have o1: "o1 = []" and d': "d' = fst (skip_padding d)"
    using assms by (auto simp: decode_step_def process_buffer_def split_beta)
  show ?thesis
  proof (cases "?rest = []")
    case True
    then have "dropWhile ?z (buffer d @ y) = dropWhile ?z y"
      by (simp add: dropWhile_append2)
    moreover have "d' = d\<lparr>buffer := []\<rparr>"
      using d' True by (simp add: skip_padding_def Let_def del: dropWhile_eq_Nil_conv)
    ultimately show ?thesis
      using o1 assms(1) by (simp add: run_start_frame)
  next
    case False
    then have "dropWhile ?z (buffer d @ y) = ?rest @ y"
      by (metis dropWhile_append1 dropWhile_eq_Nil_conv)
    moreover have "d' = d\<lparr>buffer := ?rest, dstate := FrameType\<rparr>"
      using d' False by (simp add: skip_padding_def Let_def del: dropWhile_eq_Nil_conv)
    ultimately show ?thesis
      using o1 assms(1) False
      by (simp add: run_start_frame Let_def del: dropWhile_eq_Nil_conv)
  qed
qed

lemma prefix_append_long: "length p \<le> length x \<Longrightarrow> prefix p (x @ y) \<longleftrightarrow> prefix p x"
  by (meson prefix_append prefix_length_prefix prefix_prefix prefixI)

lemma server_list_prefix_Se: "prefix (bytes_of ''/ServerList/'') b \<Longrightarrow> prefix (bytes_of ''/Se'') b"
  by (auto simp: bytes_of_def prefix_def)

lemma step_ext_frame_type:
  assumes "dstate d = FrameType" "decode_step env d = (d', o1, b)"
  shows "run env (ext d y) = prepend o1 (run env (ext d' y))"
proof (cases "snd (detect_frame_type d)")
  case False
  then have "process_buffer env d = (d, [], Inr False)"
    using assms(1) by (auto simp: process_buffer_def detect_frame_type_def Let_def split: if_splits)
  then show ?thesis using assms(2) by (rule waiting_round)
next
  case True
  have ne: "buffer d \<noteq> []" using True by (auto simp: detect_frame_type_def)
  have hd: "hd (buffer d @ y) = hd (buffer d)" using ne by simp
  have pre: "prefix p (buffer d @ y) \<longleftrightarrow> prefix p (buffer d)" if "length p = 3" "\<not> length (buffer d) < 3" for p
    using that by (simp add: prefix_append_long)
  have se: "prefix (bytes_of ''/Se'') x \<or> prefix (bytes_of ''/ServerList/'') x \<longleftrightarrow> prefix (bytes_of ''/Se'') x" for x
    using server_list_prefix_Se by blast
  have "process_buffer env d = (fst (detect_frame_type d), [], Inr True)"
    using assms(1) True by (simp add: process_buffer_def split_beta)
  moreover have "detect_frame_type (ext d y) = (ext (fst (detect_frame_type d)) y, True)"
    using True ne hd pre [of "bytes_of ''/PF''"] pre [of "bytes_of ''/Se''"]
    by (cases "buffer d") (auto simp: detect_frame_type_def Let_def se split: if_splits)
  then have "process_buffer env (ext d y) = (ext (fst (detect_frame_type d)) y, [], Inr True)"
    using assms(1) by (simp add: process_buffer_def)
  ultimately show ?thesis
    using stable_round assms(2) by blast
qed

lemma step_ext_block_header:
  assumes "dstate d = BlockHeader" "decode_step env d = (d', o1, b)"
  shows "run env (ext d y) = prepend o1 (run env (ext d' y))"
proof (cases "length (buffer d) < HEADER_SIZE")
  case True
  then have "process_buffer env d = (d, [], Inr False)"
    using assms(1) by (simp add: process_buffer_def process_block_header_def)
  then show ?thesis using assms(2) by (rule waiting_round)
next
  case False
  let ?p = "parse_header env (take HEADER_SIZE (buffer d)) (max_v2_body_size (config d))"
  show ?thesis
  proof (rule stable_round [OF _ _ _ assms(2)])
    show "process_buffer env d = (fst (process_block_header env d), [], map_sum id (\<lambda>_. True) ?p)"
      using assms(1) False
      by (simp add: process_buffer_def process_block_header_def Let_def split: sum.splits)
    show "process_buffer env (ext d y) = (ext (fst (process_block_header env d)) y, [], map_sum id (\<lambda>_. True) ?p)"
      using assms(1) False
      by (simp add: process_buffer_def process_block_header_def Let_def split: sum.splits)
    show "map_sum id (\<lambda>_. True) ?p = Inr True \<or>
        (\<exists>e. map_sum id (\<lambda>_. True) ?p = Inl e \<and> e \<noteq> InvalidFrameType)"
      using parse_header_error by (cases ?p) auto
  qed
qed

lemma step_ext_block_body:
  assumes "dstate d = BlockBody" "pending d = Some p" "decode_step env d = (d', o1, b)"
  shows "run env (ext d y) = prepend o1 (run env (ext d' y))"
proof (cases "length (buffer d) < p_length p")
  case True
  then have "process_buffer env d = (d, [], Inr False)"
    using assms(1,2) by (simp add: process_buffer_def process_block_body_def)
  then show ?thesis using assms(3) by (rule waiting_round)
next
  case False
  show ?thesis
    by (rule stable_round [OF _ _ _ assms(3), where r = "Inr True"])
      (use assms(1,2) False in \<open>auto simp: process_buffer_def process_block_body_def Let_def\<close>)
qed

lemma step_ext_validate:
  assumes "dstate d = Validate" "pending d = Some p" "decode_step env d = (d', o1, b)"
  shows "run env (ext d y) = prepend o1 (run env (ext d' y))"
  by (rule stable_round [OF _ _ _ assms(3), where r = "Inr True"])
    (use assms(1,2) in \<open>auto simp: process_buffer_def validate_and_emit_def\<close>)

lemma find_sub_at_start: "find_sub p x = Some i \<Longrightarrow> find_sub p (drop i x) = Some 0"
  using find_sub_Some [of p x i] by (intro find_sub_SomeI) auto

text \<open>Discarding an oversized server list is a resynchronisation one byte further on.\<close>

lemma run_discard_ext:
  assumes "5 < length (buffer d)"
  shows "run env (ext (discard_malformed_server_list d) y) =
         run env (d\<lparr>buffer := drop 1 (buffer d) @ y, dstate := Resync\<rparr>)" (is "_ = run env ?r")
proof (cases "find_sub SYNC_BYTES (drop 1 (buffer d))")
  case None
  then have "ext (discard_malformed_server_list d) y =
      d\<lparr>buffer := drop (length (buffer d) - 5) (buffer d) @ y, dstate := Resync\<rparr>"
    using assms by (simp add: discard_malformed_server_list_def find_subsequence_eq Let_def)
  moreover have "run env (d\<lparr>dstate := Resync, buffer := drop 1 (buffer d) @ y\<rparr>) =
      run env (d\<lparr>dstate := Resync, buffer := drop (length (buffer d) - 5) (buffer d) @ y\<rparr>)"
    using run_resync_tail [OF _ None, of "d\<lparr>dstate := Resync\<rparr>" env y] assms
    by (simp add: Suc_diff_Suc numeral_eq_Suc)
  moreover have "d\<lparr>dstate := Resync, buffer := z\<rparr> = d\<lparr>buffer := z, dstate := Resync\<rparr>" for z
    by simp
  ultimately show ?thesis by simp
next
  case (Some i)
  let ?l = "ext (discard_malformed_server_list d) y"
  have l: "?l = d\<lparr>buffer := drop (Suc i) (buffer d) @ y, dstate := Resync\<rparr>"
    using Some by (simp add: discard_malformed_server_list_def find_subsequence_eq Let_def)
  have len: "i + 6 \<le> length (drop 1 (buffer d))" using find_sub_Some [OF Some] by auto
  have "find_sub SYNC_BYTES (drop (Suc i) (buffer d) @ y) = Some 0"
    using find_sub_append_Some [OF find_sub_at_start [OF Some]] by simp
  then have "run env ?l = run env (d\<lparr>buffer := drop (0 + 6) (drop (Suc i) (buffer d) @ y), dstate := StartFrame\<rparr>)"
    unfolding l by (subst run_resync_Some [of _ 0]) simp_all
  moreover have "run env ?r = run env (d\<lparr>buffer := drop (i + 6) (drop 1 (buffer d) @ y), dstate := StartFrame\<rparr>)"
    using find_sub_append_Some [OF Some] by (subst run_resync_Some [of _ i]) simp_all
  ultimately show ?thesis using len by (simp add: add.commute)
qed

lemma step_ext_discard:
  assumes "process_buffer env d = (discard_malformed_server_list d, o1, Inr True)"
    and "process_buffer env (ext d y) = (discard_malformed_server_list (ext d y), o1, Inr True)"
    and "5 < length (buffer d)" "decode_step env d = (d', o2, b)"
  shows "run env (ext d y) = prepend o2 (run env (ext d' y))"
proof -
  have "d' = discard_malformed_server_list d" "o2 = o1"
    using assms(1,4) by (auto simp: decode_step_def)
  moreover have "run env (discard_malformed_server_list (ext d y)) =
      run env (ext (discard_malformed_server_list d) y)"
    using run_discard_ext [of "ext d y" env "[]"] run_discard_ext [of d env y] assms(3) by simp
  ultimately show ?thesis
    using assms(2) by (subst run_step) (simp add: decode_step_def)
qed

lemma step_ext_server_list:
  assumes "dstate d = InServerList" "decoder_inv d" "decode_step env d = (d', o1, b)"
  shows "run env (ext d y) = prepend o1 (run env (ext d' y))"
proof -
  let ?limit = "max_server_list_frame_bytes (config d)"
  have lim: "1024 \<le> ?limit"
    using assms(2) by (simp add: decoder_inv_def MIN_SERVER_LIST_FRAME_BYTES_def)
  have pb: "process_buffer env d = process_server_list d"
    "process_buffer env (ext d y) = process_server_list (ext d y)"
    using assms(1) by (simp_all add: process_buffer_def)
  have warn: "oversize_warning (ext d y) = oversize_warning d" by (simp add: oversize_warning_def)
  show ?thesis
  proof (cases "position (\<lambda>b. b = 0) (buffer d)")
    case None
    show ?thesis
    proof (cases "length (buffer d) > ?limit")
      case True
      with None lim show ?thesis
        by (intro step_ext_discard [OF _ _ _ assms(3)])
          (auto simp: pb process_server_list_def warn position_append Let_def split: option.splits)
    next
      case False
      with None have "process_buffer env d = (d, [], Inr False)"
        by (simp add: pb process_server_list_def)
      then show ?thesis using assms(3) by (rule waiting_round)
    qed
  next
    case (Some e)
    note e = position_Some [OF Some]
    show ?thesis
    proof (cases "e > ?limit")
      case True
      with Some lim e show ?thesis
        by (intro step_ext_discard [OF _ _ _ assms(3)])
          (auto simp: pb process_server_list_def warn position_append Let_def)
    next
      case False
      obtain d1 o2 r where psl: "process_server_list d = (d1, o2, r)"
        by (cases "process_server_list d") auto
      have "process_server_list (ext d y) = (ext d1 y, o2, r)"
        using False Some e psl
        by (auto simp: process_server_list_def position_append Let_def split: sum.splits)
      moreover have "r = Inr True \<or> (\<exists>e. r = Inl e \<and> e \<noteq> InvalidFrameType)"
        using False Some psl process_server_list_error [of d d1 o2]
        by (auto simp: process_server_list_def Let_def split: sum.splits)
      ultimately show ?thesis
        using stable_round [OF _ _ _ assms(3)] psl pb by metis
    qed
  qed
qed

lemma step_ext:
  assumes "decoder_inv d" "decode_step env d = (d', o1, b)"
  shows "run env (ext d y) = prepend o1 (run env (ext d' y))"
proof (cases "dstate d")
  case BlockBody
  then obtain p where "pending d = Some p" using assms(1) by (auto simp: decoder_inv_def)
  with BlockBody assms(2) show ?thesis by (intro step_ext_block_body)
next
  case Validate
  then obtain p where "pending d = Some p" using assms(1) by (auto simp: decoder_inv_def)
  with Validate assms(2) show ?thesis by (intro step_ext_validate)
next
  case Resync
  then show ?thesis using assms(2) by (rule step_ext_resync)
next
  case StartFrame
  then show ?thesis using assms(2) by (rule step_ext_start_frame)
next
  case FrameType
  then show ?thesis using assms(2) by (rule step_ext_frame_type)
next
  case InServerList
  then show ?thesis using assms by (rule step_ext_server_list)
next
  case BlockHeader
  then show ?thesis using assms(2) by (rule step_ext_block_header)
qed

lemma run_induct [case_names step]:
  assumes "\<And>d. (\<And>d' o1. decode_step env d = (d', o1, True) \<Longrightarrow> P d') \<Longrightarrow> P d"
  shows "P d"
proof (induction d rule: wf_induct [OF wf_measures [of "[\<lambda>d. length (buffer d), \<lambda>d. rank (dstate d)]"]])
  case (1 d)
  show ?case
  proof (rule assms)
    fix d' o1 assume "decode_step env d = (d', o1, True)"
    from decode_step_decreases [OF this] 1 show "P d'" by auto
  qed
qed

lemma run_inv:
  assumes "decoder_inv d"
  shows "decoder_inv (fst (run env d)) \<and> config (fst (run env d)) = config d"
  using assms
proof (induction d rule: run_induct [of env])
  case (step d)
  obtain d' o1 b where s: "decode_step env d = (d', o1, b)" by (cases "decode_step env d") auto
  then show ?case
    using step decode_step_inv [OF step.prems s]
    by (simp add: run_step [of env d] prepend_def)
qed

lemma run_split:
  assumes "decoder_inv d" "run env d = (d1, o1)"
  shows "run env (ext d y) = prepend o1 (run env (ext d1 y))"
  using assms
proof (induction d arbitrary: o1 rule: run_induct [of env])
  case (step d)
  obtain d' o' b where s: "decode_step env d = (d', o', b)" by (cases "decode_step env d") auto
  note inv = decode_step_inv [OF step.prems(1) s]
  show ?case
  proof (cases b)
    case True
    obtain o2 where o2: "run env d' = (d1, o2)" "o1 = o' @ o2"
      using step.prems(2) s True by (cases "run env d'") (auto simp: run_step [of env d])
    with step.IH [of d' o' o2] s True inv step_ext [OF step.prems(1) s] show ?thesis by simp
  next
    case False
    with step.prems(2) s step_ext [OF step.prems(1) s] show ?thesis
      by (auto simp: run_step [of env d])
  qed
qed

lemma ext_inv [simp]: "decoder_inv (ext d y) \<longleftrightarrow> decoder_inv d"
  by (simp add: decoder_inv_def)

lemma feed_Pair: "feed env d chunk = (d', Inr out) \<longleftrightarrow> run env (ext d (xor_ff chunk)) = (d', out)"
  by (cases "run env (ext d (xor_ff chunk))") (simp add: feed_eq_run)

lemma feed_inv:
  assumes "decoder_inv d"
  shows "decoder_inv (fst (feed env d chunk)) \<and> config (fst (feed env d chunk)) = config d"
  using run_inv [of "ext d (xor_ff chunk)" env] assms
  by (simp add: feed_eq_run)

lemma feed_append:
  assumes "decoder_inv d" "feed env d a = (d1, Inr e1)" "feed env d1 b = (d2, Inr e2)"
  shows "feed env d (a @ b) = (d2, Inr (e1 @ e2))"
proof -
  have r: "run env (ext d (xor_ff a)) = (d1, e1)" "run env (ext d1 (xor_ff b)) = (d2, e2)"
    using assms(2,3) by (simp_all add: feed_Pair)
  show ?thesis
    using run_split [of "ext d (xor_ff a)" env d1 e1 "xor_ff b"] assms(1) r
    by (simp add: feed_Pair xor_ff_def)
qed

section \<open>The feed contract\<close>

text \<open>
  What a session relies on: feeding keeps the decoder well formed, and the bytes matter,
  not how the reads cut them.
\<close>

locale stream_decoder =
  fixes good :: "'d \<Rightarrow> bool"
    and feed_one :: "'d \<Rightarrow> 'b list \<Rightarrow> 'd \<times> 'e list"
  assumes good_feed: "good d \<Longrightarrow> good (fst (feed_one d c))"
    and feed_one_append: "good d \<Longrightarrow>
      feed_one d (a @ b) = prepend (snd (feed_one d a)) (feed_one (fst (feed_one d a)) b)"
begin

primrec feed_all :: "'d \<Rightarrow> 'b list list \<Rightarrow> 'd \<times> 'e list" where
  "feed_all d [] = (d, [])"
| "feed_all d (c # cs) = prepend (snd (feed_one d c)) (feed_all (fst (feed_one d c)) cs)"

lemma good_feed_all: "good d \<Longrightarrow> good (fst (feed_all d cs))"
  by (induction cs arbitrary: d) (auto simp: prepend_def good_feed)

lemma feed_all_concat: "good d \<Longrightarrow> feed_one d (c @ concat cs) = feed_all d (c # cs)"
proof (induction cs arbitrary: d c)
  case Nil
  then show ?case by (simp add: prepend_def)
next
  case (Cons c' cs)
  have "feed_one d (c @ concat (c' # cs)) =
      prepend (snd (feed_one d c)) (feed_one (fst (feed_one d c)) (c' @ concat cs))"
    using feed_one_append [OF Cons.prems, of c "c' @ concat cs"] by simp
  also have "\<dots> = feed_all d (c # c' # cs)"
    using Cons.IH [OF good_feed [OF Cons.prems, of c], of c'] by simp
  finally show ?case .
qed

lemma feed_all_eq:
  "good d \<Longrightarrow> feed_one d [] = (d, []) \<Longrightarrow> feed_all d cs = feed_one d (concat cs)"
  using feed_all_concat by (cases cs) simp_all

end

text \<open>A feed that returned the events of its chunk, as the sessions consume it.\<close>

definition feed_events :: "decode_env \<Rightarrow> decoder \<Rightarrow> bytes \<Rightarrow> decoder \<times> qbt_frame_event list" where
  "feed_events env d chunk =
     (case feed env d chunk of (d', Inr out) \<Rightarrow> (d', out) | (d', Inl e) \<Rightarrow> (d', []))"

lemma feed_events_run: "feed_events env d chunk = run env (ext d (xor_ff chunk))"
  by (simp add: feed_events_def feed_eq_run map_prod_def split_beta)

interpretation qbt_feed: stream_decoder decoder_inv "feed_events env"
proof
  fix d c assume "decoder_inv d"
  then show "decoder_inv (fst (feed_events env d c))"
    using run_inv [of "ext d (xor_ff c)" env] by (simp add: feed_events_run)
next
  fix d a b assume "decoder_inv d"
  then show "feed_events env d (a @ b) =
      prepend (snd (feed_events env d a)) (feed_events env (fst (feed_events env d a)) b)"
    using run_split [of "ext d (xor_ff a)" env _ _ "xor_ff b"]
    by (simp add: feed_events_run)
qed

lemma feed_events_new [simp]: "feed_events env (decoder_new cfg) [] = (decoder_new cfg, [])"
  by (simp add: feed_events_run decoder_new_def run_resync_None xor_ff_def SYNC_BYTES_def)

section \<open>Emitted blocks\<close>

text \<open>The payload of a body: inflated where the format and the policy ask for it, otherwise as it is.\<close>

definition payload :: "decode_env \<Rightarrow> qbt_decode_config \<Rightarrow> qbt_version \<Rightarrow> bytes \<Rightarrow> bytes option" where
  "payload env cfg version body =
     (if version = V2 \<and> (compression_policy cfg = TryAlways \<or> has_zlib_header body)
      then case env_inflate env body of Inl e \<Rightarrow> None | Inr out \<Rightarrow> Some out
      else Some body)"

text \<open>
  A block comes from a frame of the decoded stream: a header that parses, directly followed by the body of
  the length it announces, whose payload has the header's checksum.
\<close>

definition block_from :: "decode_env \<Rightarrow> qbt_decode_config \<Rightarrow> bytes \<Rightarrow> qbt_segment \<Rightarrow> bool" where
  "block_from env cfg stream s \<longleftrightarrow>
     (\<exists>pre hdr body post p content.
        stream = pre @ hdr @ body @ post \<and> length hdr = HEADER_SIZE \<and>
        parse_header env hdr (max_v2_body_size cfg) = Inr p \<and> length body = p_length p \<and>
        payload env cfg (p_version p) body = Some content \<and> verify_checksum content (uint (p_checksum p)) \<and>
        s = \<lparr>seg_filename = p_filename p, seg_block_number = p_block_number p, seg_total_blocks = p_total_blocks p,
             seg_content = (if is_text_or_wmo (p_filename p) then trim_text_padding content else content),
             seg_checksum = p_checksum p, seg_length = p_length p, seg_version = p_version p,
             seg_timestamp_utc = p_timestamp_utc p, seg_source = None\<rparr>)"

definition block_ok :: "decode_env \<Rightarrow> qbt_decode_config \<Rightarrow> bytes \<Rightarrow> qbt_frame_event \<Rightarrow> bool" where
  "block_ok env cfg stream ev =
     (case ev of
        DataBlock s \<Rightarrow>
          1 \<le> seg_block_number s \<and> seg_block_number s \<le> seg_total_blocks s \<and>
          \<not> is_fillfile (seg_filename s) \<and>
          1 \<le> seg_length s \<and> seg_length s \<le> max V1_BODY_SIZE (max_v2_body_size cfg) \<and>
          block_from env cfg stream s
      | _ \<Rightarrow> True)"

text \<open>Where the decoder stands in the stream: the buffer is its rest, a pending block is from the bytes before.\<close>

definition header_read :: "decode_env \<Rightarrow> bytes \<Rightarrow> decoder \<Rightarrow> bool" where
  "header_read env stream d \<longleftrightarrow>
     (\<exists>p pre hdr. pending d = Some p \<and> stream = pre @ hdr @ buffer d \<and> length hdr = HEADER_SIZE \<and>
        parse_header env hdr (max_v2_body_size (config d)) = Inr p)"

definition body_read :: "decode_env \<Rightarrow> bytes \<Rightarrow> decoder \<Rightarrow> bool" where
  "body_read env stream d \<longleftrightarrow>
     (\<exists>p pre hdr body. pending d = Some (body_arrived env (config d) p body) \<and> stream = pre @ hdr @ body @ buffer d \<and>
        length hdr = HEADER_SIZE \<and> parse_header env hdr (max_v2_body_size (config d)) = Inr p \<and> length body = p_length p)"

definition framed :: "decode_env \<Rightarrow> bytes \<Rightarrow> decoder \<Rightarrow> bool" where
  "framed env stream d \<longleftrightarrow>
     suffix (buffer d) stream \<and> (dstate d = BlockBody \<longrightarrow> header_read env stream d) \<and>
     (dstate d = Validate \<longrightarrow> body_read env stream d)"

lemma verify_expected: "verify_checksum c (expected_checksum p) \<longleftrightarrow> verify_checksum c (uint (p_checksum p))"
proof -
  have "uint (p_checksum p AND 0xFFFF) = uint (p_checksum p) mod 2 ^ 16"
    using take_bit_eq_mask [of 16 "uint (p_checksum p)"]
    by (simp add: uint_and take_bit_eq_mod mask_eq_exp_minus_1)
  then show ?thesis by (simp add: expected_checksum_def verify_checksum_iff)
qed

lemma valid_numbering_iff: "valid_numbering b t \<longleftrightarrow> 1 \<le> b \<and> b \<le> t"
  by (auto simp: valid_numbering_def word_le_nat_alt word_less_nat_alt Suc_le_eq unat_gt_0 unat_eq_zero)

lemma body_arrived_payload:
  "payload env cfg (p_version p) body = (if p_decompression_failed q then None else Some (p_content q))"
  if "q = body_arrived env cfg p body" "\<not> p_decompression_failed p"
  using that
  by (cases "compression_policy cfg")
    (auto simp: payload_def body_arrived_def decompress_zlib_def Let_def split: sum.splits)

lemma body_arrived_fields:
  "p_filename (body_arrived env cfg p body) = p_filename p" "p_block_number (body_arrived env cfg p body) = p_block_number p"
  "p_total_blocks (body_arrived env cfg p body) = p_total_blocks p" "p_checksum (body_arrived env cfg p body) = p_checksum p"
  "p_length (body_arrived env cfg p body) = p_length p" "p_version (body_arrived env cfg p body) = p_version p"
  "p_timestamp_utc (body_arrived env cfg p body) = p_timestamp_utc p"
  by (simp_all add: body_arrived_def Let_def split: sum.split)

lemma parse_header_fresh: "parse_header env hdr n = Inr p \<Longrightarrow> \<not> p_decompression_failed p"
  by (auto simp: parse_header_def Let_def split: sum.splits prod.splits option.splits)

lemma emit_block_ok:
  assumes "body_read env stream d" "pending d = Some q"
    "1 \<le> p_length q" "p_length q \<le> max V1_BODY_SIZE (max_v2_body_size (config d))" "ev \<in> set (emit_block q)"
  shows "block_ok env (config d) stream ev"
proof -
  obtain p pre hdr body where p: "q = body_arrived env (config d) p body" "stream = pre @ hdr @ body @ buffer d"
      "length hdr = HEADER_SIZE" "parse_header env hdr (max_v2_body_size (config d)) = Inr p" "length body = p_length p"
    using assms(1,2) by (auto simp: body_read_def)
  note q = body_arrived_payload [OF p(1) parse_header_fresh [OF p(4)]]
  consider w where "ev = Warning w" | "\<not> p_decompression_failed q" "valid_numbering (p_block_number q) (p_total_blocks q)"
      "\<not> is_fillfile (p_filename q)" "verify_checksum (p_content q) (uint (p_checksum q))" "ev = DataBlock (segment_of q)"
    using assms(5) by (auto simp: emit_block_def verify_expected split: if_splits)
  then show ?thesis
  proof cases
    case 2
    have "block_from env (config d) stream (segment_of q)"
      unfolding block_from_def
      using p(2-5) q 2 by (intro exI [of _ pre] exI [of _ hdr] exI [of _ body] exI [of _ "buffer d"] exI [of _ p] exI [of _ "p_content q"])
        (simp add: segment_of_def p(1) body_arrived_fields)
    with 2 assms(3,4) show ?thesis by (simp add: block_ok_def segment_of_def valid_numbering_iff)
  qed (simp add: block_ok_def)
qed

lemma process_buffer_ok:
  assumes "decoder_inv d" "framed env stream d" "process_buffer env d = (d', out, r)" "ev \<in> set out"
  shows "block_ok env (config d) stream ev"
proof (cases "dstate d")
  case Validate
  then obtain p where p: "pending d = Some p" using assms(1) by (auto simp: decoder_inv_def)
  with Validate assms(3,4) have "ev \<in> Warning ` set (p_warnings p) \<or> ev \<in> set (emit_block p)"
    by (auto simp: process_buffer_def validate_and_emit_def)
  moreover have "1 \<le> p_length p" "p_length p \<le> max V1_BODY_SIZE (max_v2_body_size (config d))"
    using p assms(1) by (auto simp: decoder_inv_def)
  ultimately show ?thesis
    using emit_block_ok [of env stream d p] assms(2) p Validate by (auto simp: framed_def block_ok_def [of _ _ _ "Warning _"])
next
  case InServerList
  with assms show ?thesis
    by (auto simp: process_buffer_def process_server_list_def Let_def block_ok_def oversize_warning_def
        split: option.splits if_splits sum.splits prod.splits)
next
  case BlockHeader
  with assms show ?thesis
    by (auto simp: process_buffer_def process_block_header_def Let_def split: if_splits sum.splits)
next
  case BlockBody
  with assms show ?thesis
    by (auto simp: process_buffer_def process_block_body_def Let_def split: if_splits option.splits)
qed (use assms in \<open>auto simp: process_buffer_def split: prod.splits\<close>)

lemma suffix_drop_buffer: "suffix b stream \<Longrightarrow> suffix (drop n b) stream"
  by (rule suffix_order.trans [OF suffix_drop])

lemma find_sync_framed: "suffix (buffer d) stream \<Longrightarrow> dstate d = Resync \<Longrightarrow> framed env stream (fst (find_sync d))"
  by (auto simp: find_sync_def framed_def suffix_drop_buffer Let_def split: option.split)

lemma skip_padding_framed: "suffix (buffer d) stream \<Longrightarrow> dstate d = StartFrame \<Longrightarrow> framed env stream (fst (skip_padding d))"
  using suffix_order.trans [OF suffix_dropWhile [of "\<lambda>b. b = 0" "buffer d"]]
  by (auto simp: skip_padding_def framed_def Let_def)

lemma detect_frame_type_framed:
  "suffix (buffer d) stream \<Longrightarrow> dstate d = FrameType \<Longrightarrow> framed env stream (fst (detect_frame_type d))"
  by (auto simp: detect_frame_type_def framed_def suffix_drop_buffer Let_def simp del: drop_Suc)

lemma server_list_framed:
  "suffix (buffer d) stream \<Longrightarrow> dstate d = InServerList \<Longrightarrow> framed env stream (fst (process_server_list d))"
  by (auto simp: process_server_list_def discard_malformed_server_list_def framed_def suffix_drop_buffer Let_def
      split: option.split sum.split)

lemma block_header_framed:
  assumes "suffix (buffer d) stream" "dstate d = BlockHeader"
  shows "framed env stream (fst (process_block_header env d))"
proof -
  obtain pre where "stream = pre @ buffer d" using assms(1) by (auto simp: suffix_def)
  then have split: "stream = pre @ take HEADER_SIZE (buffer d) @ drop HEADER_SIZE (buffer d)" by simp
  have "header_read env stream (fst (process_block_header env d))"
    if st: "dstate (fst (process_block_header env d)) = BlockBody"
  proof -
    obtain p where p: "HEADER_SIZE \<le> length (buffer d)"
        "parse_header env (take HEADER_SIZE (buffer d)) (max_v2_body_size (config d)) = Inr p"
      using st assms(2)
      by (cases "length (buffer d) < HEADER_SIZE";
          cases "parse_header env (take HEADER_SIZE (buffer d)) (max_v2_body_size (config d))")
        (simp_all add: process_block_header_def Let_def)
    then show ?thesis
      unfolding header_read_def using split
      by (intro exI [of _ p] exI [of _ pre] exI [of _ "take HEADER_SIZE (buffer d)"])
        (simp add: process_block_header_def Let_def)
  qed
  then show ?thesis
    using assms by (auto simp: process_block_header_def framed_def suffix_drop_buffer Let_def split: sum.splits)
qed

lemma block_body_framed:
  assumes "suffix (buffer d) stream" "dstate d = BlockBody" "header_read env stream d"
  shows "framed env stream (fst (process_block_body env d))"
proof -
  obtain p pre hdr where p: "pending d = Some p" "stream = pre @ hdr @ buffer d" "length hdr = HEADER_SIZE"
      "parse_header env hdr (max_v2_body_size (config d)) = Inr p"
    using assms(3) by (auto simp: header_read_def)
  show ?thesis
  proof (cases "length (buffer d) < p_length p")
    case True
    then show ?thesis using assms p by (simp add: process_block_body_def framed_def)
  next
    case False
    have "stream = pre @ hdr @ take (p_length p) (buffer d) @ drop (p_length p) (buffer d)" using p(2) by simp
    then have "body_read env stream (fst (process_block_body env d))"
      unfolding body_read_def using p False
      by (intro exI [of _ p] exI [of _ pre] exI [of _ hdr] exI [of _ "take (p_length p) (buffer d)"])
        (simp add: process_block_body_def Let_def)
    then show ?thesis using assms(1) p False by (simp add: process_block_body_def framed_def suffix_drop_buffer Let_def)
  qed
qed

lemma process_buffer_framed:
  assumes "framed env stream d"
  shows "framed env stream (fst (process_buffer env d))"
proof -
  have b: "suffix (buffer d) stream" using assms by (simp add: framed_def)
  show ?thesis
    using assms
    by (cases "dstate d")
      (simp_all add: process_buffer_def split_beta find_sync_framed [OF b] skip_padding_framed [OF b]
        detect_frame_type_framed [OF b] server_list_framed [OF b] block_header_framed [OF b] block_body_framed [OF b]
        framed_def [of _ _ d], auto simp: framed_def validate_and_emit_def split: option.split)
qed

lemma decode_step_framed:
  assumes "framed env stream d" "decode_step env d = (d', out, b)"
  shows "framed env stream d'"
proof -
  obtain d1 o1 r where pb: "process_buffer env d = (d1, o1, r)" by (cases "process_buffer env d") auto
  have d1: "framed env stream d1" using process_buffer_framed [OF assms(1)] pb by simp
  show ?thesis
  proof (cases r)
    case (Inr c)
    then show ?thesis using assms(2) pb d1 by (simp add: decode_step_def)
  next
    case (Inl err)
    then have "d' = fst (recover d1 err)" using assms(2) pb by (simp add: decode_step_def split_beta)
    then show ?thesis using d1 by (auto simp: recover_def framed_def suffix_drop_buffer Let_def simp del: drop_Suc)
  qed
qed

lemma decode_step_ok:
  assumes "decoder_inv d" "framed env stream d" "decode_step env d = (d', out, b)" "ev \<in> set out"
  shows "block_ok env (config d) stream ev"
proof -
  obtain d1 o1 r where pb: "process_buffer env d = (d1, o1, r)" by (cases "process_buffer env d") auto
  have "ev \<in> set o1 \<or> (\<exists>w. ev = Warning w)"
    using assms(3,4) pb by (auto simp: decode_step_def split: sum.splits prod.splits)
  then show ?thesis
    using process_buffer_ok [OF assms(1,2) pb] by (auto simp: block_ok_def [of _ _ _ "Warning _"])
qed

lemma run_ok:
  assumes "decoder_inv d" "framed env stream d" "ev \<in> set (snd (run env d))"
  shows "block_ok env (config d) stream ev"
  using assms
proof (induction d rule: run_induct [of env])
  case (step d)
  obtain d' o1 b where s: "decode_step env d = (d', o1, b)" by (cases "decode_step env d") auto
  then have "ev \<in> set o1 \<or> b \<and> ev \<in> set (snd (run env d'))"
    using step.prems(3) by (auto simp: run_step [of env d] prepend_def split: if_splits)
  then show ?case
    using decode_step_ok [OF step.prems(1,2) s] step.IH [of d' o1] s decode_step_inv [OF step.prems(1) s]
      decode_step_framed [OF step.prems(2) s]
    by auto
qed

section \<open>What stays buffered\<close>

definition idle :: "decoder \<Rightarrow> bool" where
  "idle d =
     (case dstate d of
        Resync \<Rightarrow> length (buffer d) < 6
      | StartFrame \<Rightarrow> buffer d = []
      | FrameType \<Rightarrow> length (buffer d) < 3
      | InServerList \<Rightarrow> length (buffer d) \<le> max_server_list_frame_bytes (config d) \<and> 0 \<notin> set (buffer d)
      | BlockHeader \<Rightarrow> length (buffer d) < HEADER_SIZE
      | BlockBody \<Rightarrow> (case pending d of Some p \<Rightarrow> length (buffer d) < p_length p | None \<Rightarrow> False)
      | Validate \<Rightarrow> False)"

lemma idle_process_buffer:
  assumes "decoder_inv d" "process_buffer env d = (d', out, Inr False)"
  shows "idle d'"
proof (cases "dstate d")
  case Resync
  with assms(2) show ?thesis
    by (auto simp: process_buffer_def find_sync_def Let_def idle_def split: if_splits option.splits)
next
  case InServerList
  with assms(2) show ?thesis
    by (auto simp: process_buffer_def process_server_list_def Let_def idle_def position_None
        split: if_splits option.splits sum.splits prod.splits)
next
  case StartFrame
  with assms(2) show ?thesis
    by (auto simp: process_buffer_def skip_padding_def Let_def idle_def
        simp del: dropWhile_eq_Nil_conv split: if_splits)
qed (use assms in \<open>auto simp: process_buffer_def detect_frame_type_def process_block_header_def
        process_block_body_def validate_and_emit_def Let_def idle_def decoder_inv_def
        split: if_splits option.splits sum.splits\<close>)

lemma idle_step:
  assumes "decoder_inv d" "decode_step env d = (d', out, False)"
  shows "idle d'"
proof -
  obtain d1 o1 r where pb: "process_buffer env d = (d1, o1, r)" by (cases "process_buffer env d") auto
  show ?thesis
  proof (cases r)
    case (Inr c)
    with assms pb idle_process_buffer show ?thesis by (auto simp: decode_step_def)
  next
    case (Inl e)
    with assms(2) pb show ?thesis
      by (auto simp: decode_step_def recover_def Let_def idle_def split: if_splits prod.splits)
  qed
qed

lemma run_idle:
  assumes "decoder_inv d"
  shows "idle (fst (run env d))"
  using assms
proof (induction d rule: run_induct [of env])
  case (step d)
  obtain d' o1 b where s: "decode_step env d = (d', o1, b)" by (cases "decode_step env d") auto
  then show ?case
    using step decode_step_inv [OF step.prems s] idle_step [OF step.prems, of env d' o1]
    by (cases b) (simp_all add: run_step [of env d] prepend_def)
qed

lemma idle_bound:
  assumes "decoder_inv d" "idle d"
  shows "length (buffer d) \<le> max (max_server_list_frame_bytes (config d)) (max_v2_body_size (config d))"
proof -
  have "1024 \<le> max_server_list_frame_bytes (config d)"
    using assms(1) by (simp add: decoder_inv_def MIN_SERVER_LIST_FRAME_BYTES_def)
  then show ?thesis
    using assms
    by (cases "dstate d") (auto simp: idle_def HEADER_SIZE_def decoder_inv_def V1_BODY_SIZE_def split: option.splits)
qed

section \<open>The data-block frame\<close>

text \<open>
  The wire format that the parser reads: tags separated by a blank, the optional body length,
  an end of line, and blanks up to eighty bytes.
\<close>

definition header_core :: "str \<Rightarrow> u32 \<Rightarrow> u32 \<Rightarrow> u32 \<Rightarrow> str \<Rightarrow> u32 option \<Rightarrow> str" where
  "header_core filename block blocks checksum fd dl =
     ''/PF'' @ filename @ '' /PN '' @ show_nat (unat block) @ '' /PT '' @ show_nat (unat blocks) @
     '' /CS '' @ show_nat (unat checksum) @ '' /FD'' @ fd @
     (case dl of None \<Rightarrow> [] | Some n \<Rightarrow> '' /DL'' @ show_nat (unat n))"

definition header_bytes :: "str \<Rightarrow> bytes" where
  "header_bytes core =
     bytes_of (core @ [CHR 0x0D, CHR 0x0A] @ replicate (HEADER_SIZE - (length core + 2)) CHR '' '')"

text \<open>A tag value that the header can carry.\<close>

definition tag_value :: "str \<Rightarrow> bool" where
  "tag_value v \<longleftrightarrow>
     v \<noteq> [] \<and> \<not> ws_lead (hd v) \<and> \<not> ws_last (last v) \<and> find_sub '' /'' v = None \<and>
     (\<forall>c \<in> set v. (of_char c :: nat) < 128)"

lemma tag_value_show_nat: "tag_value (show_nat n)"
proof -
  have d: "is_digit c" if "c \<in> set (show_nat n)" for c using that show_nat_digits by blast
  have ascii: "(of_char c :: nat) < 128" if "c \<in> set (show_nat n)" for c
    using d [OF that] by (simp add: is_digit_def Let_def)
  have "find_sub '' /'' (show_nat n) = None"
    using d [of "CHR '' ''"] by (intro find_sub_missing [of "CHR '' ''"]) (auto simp: is_digit_def)
  then show ?thesis
    using d digit_not_ws [of "hd (show_nat n)"] digit_not_ws [of "last (show_nat n)"] ascii
    by (auto simp: tag_value_def)
qed

lemma ws_blank: "ws1 CHR '' ''"
  by (simp add: ws1_def)

lemma last_not_blank: "\<not> ws_last c \<Longrightarrow> c \<noteq> CHR '' '' \<and> c \<noteq> CHR 0x0D \<and> c \<noteq> CHR 0x0A"
  by (auto simp: ws_last_def ws1_def)

lemma find_next_tag:
  assumes "tag_value v"
  shows "find_sub '' /'' (v @ '' /'' @ r) = Some (length v)"
proof -
  have ne: "v \<noteq> []" and none: "find_sub '' /'' v = None" and l: "last v \<noteq> CHR '' ''"
    using assms last_not_blank by (auto simp: tag_value_def)
  have "drop (length v - 1) v = [last v]"
    using ne by (metis append_butlast_last_id append_eq_conv_conj length_butlast)
  then have "find_sub '' /'' (v @ '' /'' @ r) =
      map_option ((+) (length v - 1)) (find_sub '' /'' ([last v] @ '' /'' @ r))"
    using find_sub_append_None [OF none, of "'' /'' @ r"] by simp
  with l ne show ?thesis by simp
qed

lemma trim_end_blank: "tag_value v \<Longrightarrow> trim_end (v @ '' '') = v"
proof -
  assume v: "tag_value v"
  have "trim_end (v @ '' '') = trim_end v"
    using v by (simp add: trim_end_def trim_rev_ws1 ws_blank)
  also have "\<dots> = v" using v by (simp add: trim_end_keep tag_value_def)
  finally show ?thesis .
qed

lemma parse_tag_value_next:
  assumes "tag_value v" "sp \<in> {[], '' ''}"
  shows "parse_tag_value (tag @ sp @ v @ '' /'' @ r) tag = Inr (v, CHR ''/'' # r)"
proof -
  have "trim_start (v @ '' /'' @ r) = v @ '' /'' @ r"
    using assms(1) by (intro trim_start_keep) (auto simp: tag_value_def)
  then have "trim_start (sp @ v @ '' /'' @ r) = v @ '' /'' @ r"
    using assms(2) by (auto simp: trim_start_ws1 ws_blank)
  then show ?thesis
    using find_next_tag [OF assms(1), of r] trim_end_blank [OF assms(1)] assms(1)
    by (simp add: parse_tag_value_def tag_value_def)
qed

lemma parse_tag_value_last:
  assumes "tag_value v" "sp \<in> {[], '' ''}"
  shows "parse_tag_value (tag @ sp @ v) tag = Inr (v, [])"
proof -
  have "trim_start v = v" using assms(1) by (intro trim_start_keep) (auto simp: tag_value_def)
  then have "trim_start (sp @ v) = v" using assms(2) by (auto simp: trim_start_ws1 ws_blank)
  then show ?thesis
    using assms(1) by (simp add: parse_tag_value_def tag_value_def trim_end_keep)
qed

lemma parse_numeric_tag_next:
  "parse_numeric_tag (tag @ '' '' @ show_nat (unat n) @ '' /'' @ r) tag = Inr (n, CHR ''/'' # r)"
  using parse_tag_value_next [OF tag_value_show_nat, of "'' ''" tag "unat n" r]
  by (simp add: parse_numeric_tag_def)

lemma parse_numeric_tag_last:
  "parse_numeric_tag (tag @ show_nat (unat n)) tag = Inr (n, [])"
  using parse_tag_value_last [OF tag_value_show_nat, of "[]" tag "unat n"]
  by (simp add: parse_numeric_tag_def)

definition header_pending :: "decode_env \<Rightarrow> str \<Rightarrow> u32 \<Rightarrow> u32 \<Rightarrow> u32 \<Rightarrow> str \<Rightarrow> u32 option \<Rightarrow> pending_segment" where
  "header_pending env filename block blocks checksum fd dl =
     \<lparr>p_filename = filename, p_block_number = block, p_total_blocks = blocks, p_checksum = checksum,
      p_length = (case dl of None \<Rightarrow> V1_BODY_SIZE | Some n \<Rightarrow> unat n),
      p_version = (case dl of None \<Rightarrow> V1 | Some _ \<Rightarrow> V2), p_content = [],
      p_timestamp_utc = (case parse_fd_timestamp env fd of Some ts \<Rightarrow> ts | None \<Rightarrow> env_now env),
      p_warnings = (case parse_fd_timestamp env fd of Some ts \<Rightarrow> [] | None \<Rightarrow> [TimestampParseFallback fd]),
      p_decompression_failed = False\<rparr>"

lemma header_core_ascii:
  assumes "tag_value filename" "tag_value fd" "c \<in> set (header_core filename block blocks checksum fd dl)"
  shows "(of_char c :: nat) < 128"
proof -
  have n: "(of_char c :: nat) < 128" if "c \<in> set (show_nat k)" for k
    using that tag_value_show_nat by (auto simp: tag_value_def)
  show ?thesis
    using assms n by (auto simp: header_core_def tag_value_def split: option.splits)
qed

lemma header_core_last:
  assumes "tag_value fd"
  shows "header_core filename block blocks checksum fd dl \<noteq> [] \<and>
    \<not> ws_last (last (header_core filename block blocks checksum fd dl))"
  using assms tag_value_show_nat by (auto simp: header_core_def tag_value_def split: option.splits)

lemma dropWhile_replicate_append: "P a \<Longrightarrow> dropWhile P (replicate n a @ xs) = dropWhile P xs"
  by (induction n) simp_all

lemma from_utf8_header:
  assumes "\<And>c. c \<in> set core \<Longrightarrow> (of_char c :: nat) < 128" "core \<noteq> []" "\<not> ws_last (last core)"
  shows "\<exists>s. from_utf8 (header_bytes core) = Inr s \<and>
     trim_end_matches (\<lambda>c. c = CHR '' '' \<or> c = CHR 0x0D \<or> c = CHR 0x0A) s = core"
proof -
  let ?s = "core @ [CHR 0x0D, CHR 0x0A] @ replicate (HEADER_SIZE - (length core + 2)) CHR '' ''"
  let ?P = "\<lambda>c. c = CHR '' '' \<or> c = CHR 0x0D \<or> c = CHR 0x0A"
  have "b < 0x80" if "b \<in> set (header_bytes core)" for b
    using that assms(1) by (auto simp: header_bytes_def bytes_of_def word_less_nat_alt)
  then have "from_utf8 (header_bytes core) = Inr (str_of (header_bytes core))"
    by (rule from_utf8_ascii)
  then have "from_utf8 (header_bytes core) = Inr ?s"
    by (simp only: header_bytes_def str_of_bytes_of)
  moreover have "trim_end_matches ?P ?s = core"
    using assms(2) last_not_blank [OF assms(3)] 
    by (cases core rule: rev_cases) (auto simp: trim_end_matches_def dropWhile_replicate_append)
  ultimately show ?thesis by blast
qed

lemma parse_dl_core:
  "parse_dl (case dl of None \<Rightarrow> [] | Some n \<Rightarrow> ''/DL'' @ show_nat (unat n)) = Inr dl"
proof (cases dl)
  case (Some n)
  have "trim (''/DL'' @ show_nat (unat n)) = ''/DL'' @ show_nat (unat n)"
    using tag_value_show_nat [of "unat n"]
    by (intro trim_keep) (auto simp: tag_value_def ws_lead_def ws1_def)
  with Some parse_numeric_tag_last [of "''/DL''" n] show ?thesis
    by (simp add: parse_dl_def trim_def trim_end_def)
qed (simp add: parse_dl_def trim_def trim_end_def)

lemma parse_header_built:
  assumes "tag_value filename" "tag_value fd" "\<And>n. dl = Some n \<Longrightarrow> 0 < unat n \<and> unat n \<le> max_v2"
  shows "parse_header env (header_bytes (header_core filename block blocks checksum fd dl)) max_v2 =
     Inr (header_pending env filename block blocks checksum fd dl)"
proof -
  let ?core = "header_core filename block blocks checksum fd dl"
  let ?dl = "case dl of None \<Rightarrow> [] | Some n \<Rightarrow> ''/DL'' @ show_nat (unat n)"
  let ?fd = "''/FD'' @ fd @ (case dl of None \<Rightarrow> [] | Some n \<Rightarrow> '' /DL'' @ show_nat (unat n))"
  obtain s where s: "from_utf8 (header_bytes ?core) = Inr s"
      "trim_end_matches (\<lambda>c. c = CHR '' '' \<or> c = CHR 0x0D \<or> c = CHR 0x0A) s = ?core"
    using from_utf8_header [of ?core] header_core_ascii [OF assms(1,2), of _ block blocks checksum dl]
      header_core_last [OF assms(2), of filename block blocks checksum dl] by blast
  have pf: "parse_tag_value ?core ''/PF'' = Inr (filename, ''/PN '' @ show_nat (unat block) @ '' /PT '' @
      show_nat (unat blocks) @ '' /CS '' @ show_nat (unat checksum) @ '' '' @ ?fd)"
    using parse_tag_value_next [OF assms(1), of "[]" "''/PF''"] by (simp add: header_core_def)
  have fd: "parse_tag_value ?fd ''/FD'' = Inr (fd, ?dl)"
    using parse_tag_value_next [OF assms(2), of "[]" "''/FD''"] parse_tag_value_last [OF assms(2), of "[]" "''/FD''"]
    by (cases dl) simp_all
  have bl: "body_length max_v2 dl = Inr (p_version (header_pending env filename block blocks checksum fd dl),
      p_length (header_pending env filename block blocks checksum fd dl))"
    using assms(3) by (cases dl) (auto simp: body_length_def header_pending_def)
  have num: "parse_numeric_tag (''/PN '' @ show_nat (unat n) @ CHR '' '' # CHR ''/'' # r) ''/PN'' = Inr (n, CHR ''/'' # r)"
      "parse_numeric_tag (''/PT '' @ show_nat (unat n) @ CHR '' '' # CHR ''/'' # r) ''/PT'' = Inr (n, CHR ''/'' # r)"
      "parse_numeric_tag (''/CS '' @ show_nat (unat n) @ CHR '' '' # CHR ''/'' # r) ''/CS'' = Inr (n, CHR ''/'' # r)"
    for n r
    using parse_numeric_tag_next [of "''/PN''" n r] parse_numeric_tag_next [of "''/PT''" n r]
      parse_numeric_tag_next [of "''/CS''" n r] by simp_all
  show ?thesis
    unfolding parse_header_def s sum.case Let_def pf prod.case
    using num fd bl parse_dl_core [of dl]
    by (cases "parse_fd_timestamp env fd") (simp_all add: header_pending_def)
qed

record data_frame =
  f_filename :: str
  f_block :: u32
  f_blocks :: u32
  f_checksum :: u32
  f_fd :: str
  f_dl :: "u32 option"
  f_body :: bytes

definition frame_core :: "data_frame \<Rightarrow> str" where
  "frame_core f = header_core (f_filename f) (f_block f) (f_blocks f) (f_checksum f) (f_fd f) (f_dl f)"

definition frame_ok :: "qbt_decode_config \<Rightarrow> data_frame \<Rightarrow> bool" where
  "frame_ok cfg f \<longleftrightarrow>
     tag_value (f_filename f) \<and> tag_value (f_fd f) \<and> length (frame_core f) + 2 \<le> HEADER_SIZE \<and>
     (case f_dl f of
        None \<Rightarrow> length (f_body f) = V1_BODY_SIZE
      | Some n \<Rightarrow> 0 < n \<and> unat n \<le> max_v2_body_size cfg \<and> length (f_body f) = unat n)"

definition frame_bytes :: "data_frame \<Rightarrow> bytes" where
  "frame_bytes f = SYNC_BYTES @ header_bytes (frame_core f) @ f_body f"

definition frame_wire :: "data_frame \<Rightarrow> bytes" where
  "frame_wire f = xor_ff (frame_bytes f)"

definition frame_pending :: "decode_env \<Rightarrow> qbt_decode_config \<Rightarrow> data_frame \<Rightarrow> pending_segment" where
  "frame_pending env cfg f =
     body_arrived env cfg
       (header_pending env (f_filename f) (f_block f) (f_blocks f) (f_checksum f) (f_fd f) (f_dl f)) (f_body f)"

definition frame_events :: "decode_env \<Rightarrow> qbt_decode_config \<Rightarrow> data_frame \<Rightarrow> qbt_frame_event list" where
  "frame_events env cfg f =
     (let p = frame_pending env cfg f in map Warning (p_warnings p) @ emit_block p)"

lemma header_bytes_shape:
  assumes "frame_ok cfg f"
  shows "length (header_bytes (frame_core f)) = HEADER_SIZE"
    and "prefix (bytes_of ''/PF'') (header_bytes (frame_core f))"
  using assms by (auto simp: frame_ok_def header_bytes_def frame_core_def header_core_def bytes_of_def)

lemma run_continue:
  "decode_step env d = (d', o1, True) \<Longrightarrow> run env d = prepend o1 (run env d')"
  by (simp add: run_step [of env d])

lemma run_body:
  assumes "dstate d = BlockBody" "pending d = Some p" "buffer d = body @ rest" "length body = p_length p"
  shows "run env d = prepend (map Warning (p_warnings (body_arrived env (config d) p body)) @
      emit_block (body_arrived env (config d) p body))
    (run env (d\<lparr>buffer := rest, pending := None, dstate := StartFrame\<rparr>))"
proof -
  let ?d = "d\<lparr>buffer := rest, pending := Some (body_arrived env (config d) p body), dstate := Validate\<rparr>"
  have "decode_step env d = (?d, [], True)"
    using assms by (simp add: decode_step_def process_buffer_def process_block_body_def Let_def)
  moreover have "decode_step env ?d = (d\<lparr>buffer := rest, pending := None, dstate := StartFrame\<rparr>,
      map Warning (p_warnings (body_arrived env (config d) p body)) @
      emit_block (body_arrived env (config d) p body), True)"
    by (simp add: decode_step_def process_buffer_def validate_and_emit_def)
  ultimately show ?thesis by (simp add: run_continue)
qed

lemma run_header:
  assumes "dstate d = BlockHeader" "buffer d = h @ rest" "length h = HEADER_SIZE"
    and "parse_header env h (max_v2_body_size (config d)) = Inr p"
  shows "run env d = run env (d\<lparr>buffer := rest, pending := Some p, dstate := BlockBody\<rparr>)"
  using assms
  by (intro run_continue [where ?o1.0 = "[]", simplified])
    (simp add: decode_step_def process_buffer_def process_block_header_def Let_def)

lemma run_frame_type_pf:
  assumes "dstate d = FrameType" "prefix (bytes_of ''/PF'') (buffer d)"
  shows "run env d = run env (d\<lparr>dstate := BlockHeader\<rparr>)"
proof (rule run_continue [where ?o1.0 = "[]", simplified])
  obtain r where "buffer d = bytes_of ''/PF'' @ r" using assms(2) by (auto simp: prefix_def)
  then have "hd (buffer d) = byte_of CHR ''/''" "buffer d \<noteq> []" "\<not> length (buffer d) < 3"
    by (simp_all add: bytes_of_def)
  with assms show "decode_step env d = (d\<lparr>dstate := BlockHeader\<rparr>, [], True)"
    by (simp add: decode_step_def process_buffer_def detect_frame_type_def Let_def)
qed

lemma run_frame:
  assumes "dstate d = StartFrame" "buffer d = frame_bytes f @ rest" "frame_ok (config d) f"
  shows "run env d =
    prepend (frame_events env (config d) f) (run env (d\<lparr>buffer := rest, pending := None, dstate := StartFrame\<rparr>))"
proof -
  let ?h = "header_bytes (frame_core f)"
  let ?p = "header_pending env (f_filename f) (f_block f) (f_blocks f) (f_checksum f) (f_fd f) (f_dl f)"
  note h = header_bytes_shape [OF assms(3)]
  obtain r where r: "?h = byte_of CHR ''/'' # r" using h(2) by (auto simp: bytes_of_def prefix_def)
  have "dropWhile (\<lambda>b. b = 0) (buffer d) = ?h @ f_body f @ rest"
    using r by (simp add: assms(2) frame_bytes_def SYNC_BYTES_def)
  then have "run env d = run env (d\<lparr>buffer := ?h @ f_body f @ rest, dstate := FrameType\<rparr>)"
    using run_start_frame [OF assms(1), of env] r by (simp add: Let_def del: dropWhile_eq_Nil_conv)
  also have "\<dots> = run env (d\<lparr>buffer := ?h @ f_body f @ rest, dstate := BlockHeader\<rparr>)"
    using h(2) by (subst run_frame_type_pf) (auto simp: prefix_def)
  also have "\<dots> = run env (d\<lparr>buffer := f_body f @ rest, pending := Some ?p, dstate := BlockBody\<rparr>)"
  proof -
    have "parse_header env ?h (max_v2_body_size (config d)) = Inr ?p"
      using assms(3) unfolding frame_core_def
      by (intro parse_header_built) (auto simp: frame_ok_def unat_gt_0)
    with h(1) show ?thesis by (subst run_header [of _ ?h "f_body f @ rest" _ ?p]) simp_all
  qed
  also have "\<dots> = prepend (frame_events env (config d) f)
      (run env (d\<lparr>buffer := rest, pending := None, dstate := StartFrame\<rparr>))"
  proof -
    have "length (f_body f) = p_length ?p"
      using assms(3) by (auto simp: frame_ok_def header_pending_def split: option.splits)
    then show ?thesis
      by (subst run_body [of _ ?p "f_body f" rest]) (simp_all add: frame_events_def frame_pending_def Let_def)
  qed
  finally show ?thesis .
qed

lemma run_frames:
  assumes "dstate d = StartFrame" "buffer d = concat (map frame_bytes fs)" "\<forall>f \<in> set fs. frame_ok (config d) f"
  shows "snd (run env d) = concat (map (frame_events env (config d)) fs) \<and>
    dstate (fst (run env d)) = StartFrame \<and> buffer (fst (run env d)) = []"
  using assms
proof (induction fs arbitrary: d)
  case Nil
  then show ?case by (simp add: run_start_frame)
next
  case (Cons f fs)
  then show ?case by (subst (1 2 3) run_frame [of _ f "concat (map frame_bytes fs)"]) (simp_all add: prepend_def)
qed

text \<open>The sync marker of the first frame takes a fresh decoder out of \<^const>\<open>Resync\<close>.\<close>

lemma run_resync_frames:
  assumes "dstate d = Resync" "buffer d = concat (map frame_bytes fs)" "\<forall>f \<in> set fs. frame_ok (config d) f"
  shows "snd (run env d) = concat (map (frame_events env (config d)) fs)"
proof (cases fs)
  case Nil
  with assms show ?thesis by (simp add: run_resync_None SYNC_BYTES_def)
next
  case (Cons f fs')
  let ?rest = "header_bytes (frame_core f) @ f_body f @ concat (map frame_bytes fs')"
  have b: "buffer d = SYNC_BYTES @ ?rest" using assms(2) Cons by (simp add: frame_bytes_def)
  have "run env d = run env (d\<lparr>buffer := ?rest, dstate := StartFrame\<rparr>)"
    using assms(1) b by (subst run_resync_Some [of _ 0]) simp_all
  also have "\<dots> = run env (d\<lparr>dstate := StartFrame\<rparr>)"
    by (simp add: run_start_frame b SYNC_BYTES_def)
  finally show ?thesis
    using run_frames [of "d\<lparr>dstate := StartFrame\<rparr>" fs env] assms by simp
qed

section \<open>Padding resynchronises\<close>

text \<open>
  Zero bytes, as the wire carries them between frames, bring a decoder in any state back
  to a frame boundary: at most a header and a body are still swallowed, then a sync marker.
\<close>

definition padding_need :: "decoder \<Rightarrow> nat" where
  "padding_need d = HEADER_SIZE + max V1_BODY_SIZE (max_v2_body_size (config d)) + 6"

definition aligned :: "decoder \<Rightarrow> bool" where
  "aligned d \<longleftrightarrow> dstate d = StartFrame \<and> buffer d = []"

lemma zeros_start_frame:
  assumes "dstate d = StartFrame"
  shows "aligned (fst (run env (d\<lparr>buffer := replicate n 0\<rparr>)))"
  using assms by (simp add: run_start_frame aligned_def)

lemma zeros_resync:
  assumes "dstate d = Resync" "length x < 6" "6 \<le> n"
  shows "aligned (fst (run env (d\<lparr>buffer := x @ replicate n 0\<rparr>)))"
proof -
  let ?b = "x @ replicate n (0 :: u8)"
  have "prefix SYNC_BYTES (replicate n (0 :: u8))"
    using assms(3) by (auto simp: SYNC_BYTES_def numeral_eq_Suc prefix_def le_iff_add)
  then have "prefix SYNC_BYTES (drop (length x) ?b)" by simp
  then obtain i where i: "find_sub SYNC_BYTES ?b = Some i"
    using find_sub_None [of SYNC_BYTES ?b "length x"] by (cases "find_sub SYNC_BYTES ?b") auto
  have "drop (i + 6) ?b = replicate (n - (i + 6 - length x)) 0" using assms(2) by simp
  with i assms(1) show ?thesis
    by (subst run_resync_Some [of _ i])
      (simp_all add: zeros_start_frame [of "d\<lparr>dstate := StartFrame\<rparr>", simplified] aligned_def run_start_frame)
qed

lemma aligned_step:
  "decode_step env d = (d', o1, True) \<Longrightarrow> aligned (fst (run env d')) \<Longrightarrow> aligned (fst (run env d))"
  by (simp add: run_continue prepend_def)

lemma zeros_recover:
  assumes "process_buffer env d = (d1, o1, Inl e)" "e \<noteq> InvalidFrameType" "buffer d1 = replicate n 0" "6 \<le> n"
  shows "aligned (fst (run env d))"
proof (rule aligned_step)
  show "decode_step env d = (d1\<lparr>pending := None, dstate := Resync\<rparr>,
      o1 @ [Warning (DecoderRecovered (show_protocol_error e))], True)"
    using assms by (auto simp: decode_step_def recover_def Let_def)
  show "aligned (fst (run env (d1\<lparr>pending := None, dstate := Resync\<rparr>)))"
    using zeros_resync [of "d1\<lparr>pending := None, dstate := Resync\<rparr>" "[]" n env] assms(3,4)
    by (cases d1) simp
qed

lemma zeros_frame_type:
  assumes "dstate d = FrameType" "length x < 3" "7 \<le> n"
  shows "aligned (fst (run env (d\<lparr>buffer := x @ replicate n 0\<rparr>)))"
proof (rule aligned_step)
  let ?b = "x @ replicate n (0 :: u8)"
  have nz: "byte_of CHR ''F'' \<noteq> 0" "byte_of CHR ''e'' \<noteq> 0" by simp_all
  have "?b ! 2 = 0" "3 \<le> length ?b" using assms(2,3) by (simp_all add: nth_append)
  then have "\<not> prefix (bytes_of ''/PF'') ?b" "\<not> prefix (bytes_of ''/Se'') ?b"
    by (auto simp: bytes_of_def prefix_def)
  then show "decode_step env (d\<lparr>buffer := ?b\<rparr>) = (d\<lparr>buffer := drop 1 ?b, dstate := Resync\<rparr>, [], True)"
    using assms server_list_prefix_Se [of ?b]
    by (auto simp: decode_step_def process_buffer_def detect_frame_type_def Let_def)
  obtain y m where "drop 1 ?b = y @ replicate m 0" "length y < 6" "6 \<le> m"
  proof (cases x)
    case Nil
    then show thesis using that [of "[]" "n - 1"] assms(3) by simp
  next
    case (Cons a y)
    then show thesis using that [of y n] assms(2,3) by simp
  qed
  then show "aligned (fst (run env (d\<lparr>buffer := drop 1 ?b, dstate := Resync\<rparr>)))"
    using zeros_resync [of "d\<lparr>dstate := Resync\<rparr>" y m env] by (cases d) simp
qed

lemma zeros_server_list:
  assumes "dstate d = InServerList" "length x \<le> max_server_list_frame_bytes (config d)" "0 \<notin> set x" "7 \<le> n"
  shows "aligned (fst (run env (d\<lparr>buffer := x @ replicate n 0\<rparr>)))"
proof -
  let ?d = "d\<lparr>buffer := x @ replicate n 0\<rparr>"
  obtain m where m: "n = Suc m" "6 \<le> m" using assms(4) by (cases n) auto
  have b: "x @ replicate n 0 = x @ [0] @ replicate m (0 :: u8)" by (simp add: m(1))
  have pos: "position (\<lambda>b. b = 0) (x @ [0] @ replicate m 0) = Some (length x)"
    using assms(3) position_None [of "\<lambda>b. b = 0" x] by (auto simp: position_append)
  have psl: "process_server_list ?d =
      (case from_utf8 x of
         Inl e \<Rightarrow> (d\<lparr>buffer := replicate m 0\<rparr>, [], Inl (InvalidUtf8 e))
       | Inr content \<Rightarrow>
           (case parse_server_list_frame content of
              Inl e \<Rightarrow> (d\<lparr>buffer := replicate m 0\<rparr>, [], Inl e)
            | Inr (server_list, warnings) \<Rightarrow>
                (d\<lparr>buffer := replicate m 0, dstate := StartFrame\<rparr>,
                 ServerListUpdate server_list # map Warning warnings, Inr True)))"
    unfolding b process_server_list_def using assms(2) pos by (simp add: Let_def)
  have pb: "process_buffer env ?d = process_server_list ?d"
    using assms(1) by (simp add: process_buffer_def)
  have err: ?thesis if "process_server_list ?d = (d\<lparr>buffer := replicate m 0\<rparr>, [], Inl e)" for e
  proof (rule zeros_recover)
    show "process_buffer env ?d = (d\<lparr>buffer := replicate m 0\<rparr>, [], Inl e)" using that pb by simp
    show "e \<noteq> InvalidFrameType" using that by (rule process_server_list_error)
  qed (use m(2) in simp_all)
  have al: "aligned (fst (run env (d\<lparr>buffer := replicate m 0, dstate := StartFrame\<rparr>)))"
    using zeros_start_frame [of "d\<lparr>dstate := StartFrame\<rparr>" env m] by (cases d) simp
  have ok: ?thesis if "process_server_list ?d = (d\<lparr>buffer := replicate m 0, dstate := StartFrame\<rparr>, o1, Inr True)" for o1
    by (rule aligned_step [OF _ al, where ?o1.0 = o1]) (simp only: decode_step_def pb that prod.case sum.case)
  show ?thesis
  proof (cases "from_utf8 x")
    case (Inl e)
    then show ?thesis using err psl by simp
  next
    case (Inr c)
    show ?thesis
    proof (cases "parse_server_list_frame c")
      case (Inl e)
      with Inr show ?thesis using err psl by simp
    next
      case (Inr r)
      with \<open>from_utf8 x = Inr c\<close> show ?thesis using ok psl by (cases r) simp
    qed
  qed
qed

lemma zeros_body:
  assumes "dstate d = BlockBody" "pending d = Some p" "length x \<le> p_length p" "p_length p \<le> n"
  shows "aligned (fst (run env (d\<lparr>buffer := x @ replicate n 0\<rparr>)))"
proof -
  let ?k = "p_length p - length x"
  have "replicate n (0 :: u8) = replicate ?k 0 @ replicate (n - ?k) 0"
    using assms(4) by (simp add: replicate_add [symmetric])
  then have "buffer (d\<lparr>buffer := x @ replicate n 0\<rparr>) = (x @ replicate ?k 0) @ replicate (n - ?k) 0" by simp
  moreover have "aligned (fst (run env (d\<lparr>buffer := replicate m 0, pending := None, dstate := StartFrame\<rparr>)))" for m
    using zeros_start_frame [of "d\<lparr>pending := None, dstate := StartFrame\<rparr>" env m] by (cases d) simp
  ultimately show ?thesis
    using assms by (subst run_body [where rest = "replicate (n - ?k) 0"]) (auto simp: prepend_def)
qed

lemma zeros_header:
  assumes "dstate d = BlockHeader" "length x < HEADER_SIZE" "padding_need d \<le> n"
  shows "aligned (fst (run env (d\<lparr>buffer := x @ replicate n 0\<rparr>)))"
proof -
  let ?k = "HEADER_SIZE - length x" and ?d = "d\<lparr>buffer := x @ replicate n 0\<rparr>"
  let ?h = "x @ replicate ?k 0" and ?m = "n - (HEADER_SIZE - length x)"
  have split: "x @ replicate n (0 :: u8) = ?h @ replicate ?m 0"
    using assms(2,3) by (simp add: replicate_add [symmetric] padding_need_def)
  have len: "length ?h = HEADER_SIZE" using assms(2) by simp
  have m: "max V1_BODY_SIZE (max_v2_body_size (config d)) + 6 \<le> ?m"
    using assms(2,3) by (simp add: padding_need_def)
  show ?thesis
  proof (cases "parse_header env ?h (max_v2_body_size (config d))")
    case (Inl e)
    then have "process_buffer env ?d = (d\<lparr>buffer := replicate ?m 0\<rparr>, [], Inl e)"
      using assms(1,2) len by (simp add: process_buffer_def process_block_header_def Let_def split)
    with parse_header_error [OF Inl] m show ?thesis by (intro zeros_recover) auto
  next
    case (Inr p)
    have "aligned (fst (run env (d\<lparr>pending := Some p, dstate := BlockBody, buffer := [] @ replicate ?m 0\<rparr>)))"
      using parse_header_length [OF Inr] m by (intro zeros_body) auto
    moreover have "run env ?d = run env (d\<lparr>buffer := replicate ?m 0, pending := Some p, dstate := BlockBody\<rparr>)"
      using assms(1) len Inr by (subst run_header [of _ ?h "replicate ?m 0" _ p]) (simp_all add: split)
    ultimately show ?thesis by (cases d) simp
  qed
qed

lemma zeros_align:
  assumes "decoder_inv d" "idle d" "padding_need d \<le> n"
  shows "aligned (fst (run env (ext d (replicate n 0))))"
proof -
  have n: "1110 \<le> n" using assms(3) by (simp add: padding_need_def HEADER_SIZE_def V1_BODY_SIZE_def)
  have d: "ext d (replicate n 0) = d\<lparr>buffer := buffer d @ replicate n 0\<rparr>" by (simp add: ext_def)
  show ?thesis
  proof (cases "dstate d")
    case BlockBody
    then obtain p where "pending d = Some p" "length (buffer d) < p_length p" "p_length p \<le> n"
      using assms by (auto simp: idle_def padding_need_def decoder_inv_def split: option.splits)
    with BlockBody show ?thesis unfolding d by (intro zeros_body) auto
  next
    case StartFrame
    with assms(2) zeros_start_frame [of d env n] show ?thesis by (simp add: d idle_def)
  next
    case Validate
    with assms(2) show ?thesis by (simp add: idle_def)
  next
    case Resync
    with assms(2) n zeros_resync [of d "buffer d" n env] show ?thesis by (simp add: d idle_def)
  next
    case FrameType
    with assms(2) n zeros_frame_type [of d "buffer d" n env] show ?thesis by (simp add: d idle_def)
  next
    case InServerList
    with assms(2) n zeros_server_list [of d "buffer d" n env] show ?thesis by (simp add: d idle_def)
  next
    case BlockHeader
    with assms zeros_header [of d "buffer d" n env] show ?thesis by (simp add: d idle_def)
  qed
qed

section \<open>Properties of the decoder\<close>

text \<open>The decoder over a sequence of socket reads.\<close>

primrec feed_chunks :: "decode_env \<Rightarrow> decoder \<Rightarrow> bytes list \<Rightarrow> decoder \<times> qbt_frame_event list" where
  "feed_chunks env d [] = (d, [])"
| "feed_chunks env d (c # cs) =
     (let (d1, out) = feed_events env d c; (d2, rest) = feed_chunks env d1 cs in (d2, out @ rest))"

lemma feed_chunks_eq: "feed_chunks env d cs = qbt_feed.feed_all env d cs"
  by (induction cs arbitrary: d) (simp_all add: Let_def split_beta prepend_def)

lemma feed_chunks_new:
  "feed_chunks env (decoder_new cfg) cs = feed_events env (decoder_new cfg) (concat cs)"
  unfolding feed_chunks_eq by (rule qbt_feed.feed_all_eq) (simp_all add: decoder_new_inv)

lemma feed_chunks_state:
  "decoder_inv (fst (feed_chunks env (decoder_new cfg) cs))"
  "idle (fst (feed_chunks env (decoder_new cfg) cs))"
  "config (fst (feed_chunks env (decoder_new cfg) cs)) = config (decoder_new cfg)"
  unfolding feed_chunks_new feed_events_run
  using run_inv [of "ext (decoder_new cfg) (xor_ff (concat cs))" env]
    run_idle [of "ext (decoder_new cfg) (xor_ff (concat cs))" env]
  by (simp_all add: decoder_new_inv)

definition sample_env :: decode_env where
  "sample_env = \<lparr>env_inflate = (\<lambda>input. Inl ''corrupt deflate stream''),
     env_parse_datetime = (\<lambda>fd. if fd = ''01/01/2024 01:00:00 AM'' then Some (1704070800, 0) else None),
     env_now = 0\<rparr>"

definition sample_frame :: data_frame where
  "sample_frame = \<lparr>f_filename = ''A.TXT'', f_block = 1, f_blocks = 1, f_checksum = 177,
     f_fd = ''01/01/2024 01:00:00 AM'', f_dl = Some 3, f_body = [72, 73, 32]\<rparr>"

lemma sample_frame_ok: "frame_ok default_decode_config sample_frame"
  by (simp add: frame_ok_def sample_frame_def frame_core_def header_core_def default_decode_config_def
      tag_value_def ws_lead_def ws_last_def ws1_def HEADER_SIZE_def Let_def show_nat.simps)

lemma config_new_default [simp]: "config (decoder_new default_decode_config) = default_decode_config"
  by (simp add: decoder_new_def default_decode_config_def MIN_SERVER_LIST_FRAME_BYTES_def)

lemma frame_ok_config_new [simp]: "frame_ok (config (decoder_new cfg)) f = frame_ok cfg f"
  by (simp add: frame_ok_def decoder_new_def split: option.split)

lemma frame_events_config_new [simp]: "frame_events env (config (decoder_new cfg)) = frame_events env cfg"
  by (rule HOL.ext) (simp add: frame_events_def frame_pending_def body_arrived_def decoder_new_def)

lemma decoder_new_sel [simp]: "dstate (decoder_new cfg) = Resync" "buffer (decoder_new cfg) = []"
  by (simp_all add: decoder_new_def)

lemma feed_frame_stream:
  assumes "list_all (frame_ok cfg) fs"
  shows "snd (feed env (decoder_new cfg) (concat (map frame_wire fs))) =
     Inr (concat (map (frame_events env cfg) fs))"
proof -
  let ?d = "ext (decoder_new cfg) (concat (map frame_bytes fs))"
  have "xor_ff (concat (map frame_wire fs)) = concat (map frame_bytes fs)"
    by (induction fs) (simp_all add: frame_wire_def xor_ff_def [of "[]"])
  moreover have "snd (run env ?d) = concat (map (frame_events env (config ?d)) fs)"
    using assms by (intro run_resync_frames) (simp_all add: list_all_iff)
  ultimately show ?thesis by (simp add: feed_eq_run map_prod_def split_beta)
qed

lemma sample_frame_events:
  "frame_events sample_env default_decode_config sample_frame =
     [DataBlock \<lparr>seg_filename = ''A.TXT'', seg_block_number = 1, seg_total_blocks = 1,
       seg_content = [72, 73], seg_checksum = 177, seg_length = 3, seg_version = V2,
       seg_timestamp_utc = 1704070800000000000, seg_source = None\<rparr>]"
  by (simp add: frame_events_def frame_pending_def sample_frame_def header_pending_def sample_env_def
        default_decode_config_def body_arrived_def has_zlib_header_def parse_fd_timestamp_def
        emit_block_def valid_numbering_def is_fillfile_def eq_ignore_ascii_case_def segment_of_def
        to_ascii_lowercase_def to_lower_def is_upper_def is_text_or_wmo_def to_ascii_uppercase_def to_upper_def
        is_lower_def suffix_def trim_text_padding_def is_padding_def expected_checksum_def verify_checksum_iff Let_def)

text \<open>C1: however the byte stream is cut into reads, the decoder ends in the same state and
  delivers the same events in the same order as for one read of the whole stream.\<close>

theorem feed_chunking:
  "feed env (decoder_new cfg) (concat chunks) =
     (case feed_chunks env (decoder_new cfg) chunks of (d, out) \<Rightarrow> (d, Inr out))"
  unfolding feed_chunks_new by (simp add: feed_events_run feed_eq_run map_prod_def split_beta)

text \<open>C2: after any sequence of reads the decoder satisfies its invariant, is in a state that
  waits for more bytes, and holds no more than one server-list frame or one block body.\<close>

theorem feed_bounded:
  "let d = fst (feed_chunks env (decoder_new cfg) chunks) in
     decoder_inv d \<and> idle d \<and>
     length (buffer d) \<le> max (max (max_server_list_frame_bytes cfg) 1024) (max_v2_body_size cfg)"
  using feed_chunks_state [of env cfg chunks]
    idle_bound [OF feed_chunks_state(1,2) [of env cfg chunks]]
  by (simp add: Let_def decoder_new_def MIN_SERVER_LIST_FRAME_BYTES_def)

text \<open>C3: every data block that any byte stream makes the decoder emit is numbered within its
  file and is not the fill file, and it is a frame of the decoded stream: somewhere in it stands a header that
  parses to the block's name, numbers, checksum, length, version and time, directly followed by a body of that
  length whose payload (inflated where the policy says so) has the checksum of the header and is, up to the
  trailing padding of text products, the content of the block.\<close>

theorem feed_blocks_valid:
  "list_all (block_ok env cfg (xor_ff (concat chunks))) (snd (feed_chunks env (decoder_new cfg) chunks))"
proof -
  let ?w = "xor_ff (concat chunks)" and ?d = "ext (decoder_new cfg) (xor_ff (concat chunks))"
  have "block_ok env (config ?d) ?w ev = block_ok env cfg ?w ev" for ev
    by (simp add: block_ok_def block_from_def payload_def decoder_new_def split: qbt_frame_event.split)
  moreover have "framed env ?w ?d" by (simp add: framed_def decoder_new_def)
  moreover have "decoder_inv ?d" using decoder_new_inv [of cfg] by (simp add: decoder_inv_def)
  ultimately show ?thesis
    using run_ok [of ?d env ?w]
    by (auto simp: feed_chunks_new feed_events_run list_all_iff)
qed

text \<open>C4: a stream of data-block frames in the wire format, however it is cut into reads, decodes to the
  events of these frames, one after the other: each intact block comes out, with the warnings of its header
  and body and nothing else.\<close>

theorem feed_frames:
  assumes "list_all (frame_ok cfg) fs" "concat chunks = concat (map frame_wire fs)"
  shows "snd (feed_chunks env (decoder_new cfg) chunks) = concat (map (frame_events env cfg) fs)"
  using feed_frame_stream [OF assms(1), of env] assms(2)
  by (cases "feed env (decoder_new cfg) (concat (map frame_wire fs))") (simp add: feed_chunks_new feed_events_def)

theorem feed_frames_witness:
  "snd (feed_chunks sample_env (decoder_new default_decode_config)
       [take 50 (frame_wire sample_frame), [], drop 50 (frame_wire sample_frame)]) =
     [DataBlock \<lparr>seg_filename = ''A.TXT'', seg_block_number = 1, seg_total_blocks = 1,
       seg_content = [72, 73], seg_checksum = 177, seg_length = 3, seg_version = V2,
       seg_timestamp_utc = 1704070800000000000, seg_source = None\<rparr>]"
  using feed_frames [of default_decode_config "[sample_frame]"
      "[take 50 (frame_wire sample_frame), [], drop 50 (frame_wire sample_frame)]" sample_env] sample_frame_ok
  by (simp add: sample_frame_events)

text \<open>C5: the decoder is self-stabilising: whatever it was fed before, a run of padding as long
  as one header, one body and one sync marker brings it to a frame boundary, and the
  frames after the padding are decoded as if they came first.\<close>

theorem feed_padding_resync:
  assumes "HEADER_SIZE + max V1_BODY_SIZE (max_v2_body_size cfg) + 6 \<le> n" "list_all (frame_ok cfg) fs"
  shows "\<exists>d out. feed env (fst (feed_chunks env (decoder_new cfg) garbage)) (replicate n 0xFF) = (d, Inr out) \<and>
     dstate d = StartFrame \<and> buffer d = [] \<and>
     snd (feed env d (concat (map frame_wire fs))) = Inr (concat (map (frame_events env cfg) fs))"
proof -
  let ?g = "fst (feed_chunks env (decoder_new cfg) garbage)"
  obtain d out where r: "run env (ext ?g (replicate n 0)) = (d, out)"
    by (cases "run env (ext ?g (replicate n 0))") auto
  note st = feed_chunks_state [of env cfg garbage]
  have "aligned d"
    using zeros_align [OF st(1,2), of n env] assms(1) r st(3) by (simp add: padding_need_def decoder_new_def)
  moreover have "config d = config (decoder_new cfg)"
    using run_inv [of "ext ?g (replicate n 0)" env] st r by simp
  moreover have "feed env ?g (replicate n 0xFF) = (d, Inr out)"
    using r by (simp add: feed_Pair xor_ff_def)
  moreover have "xor_ff (concat (map frame_wire fs)) = concat (map frame_bytes fs)"
    by (induction fs) (simp_all add: frame_wire_def xor_ff_def [of "[]"])
  ultimately show ?thesis
    using assms(2) run_frames [of "ext d (concat (map frame_bytes fs))" fs env]
    by (auto simp: aligned_def feed_eq_run map_prod_def split_beta list_all_iff)
qed

theorem feed_padding_resync_witness:
  "\<exists>d out. feed sample_env (fst (feed_chunks sample_env (decoder_new default_decode_config) [[1, 2], [3]]))
       (replicate 1110 0xFF) = (d, Inr out) \<and> dstate d = StartFrame \<and> buffer d = [] \<and>
     snd (feed sample_env d (concat (map frame_wire [sample_frame]))) =
       Inr (concat (map (frame_events sample_env default_decode_config) [sample_frame]))"
proof (rule feed_padding_resync)
  show "HEADER_SIZE + max V1_BODY_SIZE (max_v2_body_size default_decode_config) + 6 \<le> 1110"
    by (simp add: HEADER_SIZE_def V1_BODY_SIZE_def default_decode_config_def)
qed (simp add: sample_frame_ok)

end
