(* ===== verification/Qbt_Assembler.thy ===== *)
theory Qbt_Assembler
  imports Qbt_Stream "HOL-Library.AList"
begin

text \<open>
  The file assembler of \<^verbatim>\<open>qbt_receiver/file/assembler.rs\<close>.  The inflight table is an association
  list with distinct keys, the parts of a file a list ordered by block number (the
  \<^verbatim>\<open>BTreeMap\<close>), the duplicate cache a queue with its index set.  Three inputs of \<open>push\<close> are
  arguments: \<open>now\<close> is \<^verbatim>\<open>Instant::now()\<close> in nanoseconds, \<open>lower\<close> the Unicode lower-case mapping
  \<^verbatim>\<open>str::to_lowercase\<close>, and \<open>pos\<close> the position of a key in the iteration order of the hash
  map, which decides between entries last seen at the same instant.  \<^verbatim>\<open>push\<close> never
  returns an error, so its result is the option inside the \<^verbatim>\<open>Ok\<close>.
\<close>

section \<open>State and operations\<close>

record qbt_completed_file =
  cf_filename :: str
  cf_data :: bytes
  cf_timestamp_utc :: system_time

record inflight_file =
  if_total_blocks :: u32
  if_parts :: "(u32 \<times> qbt_segment) list"
  if_last_seen :: instant

record assembler =
  by_key :: "(str \<times> inflight_file) list"
  completed_recent :: "str list"
  completed_index :: "str set"
  duplicate_cache_size :: nat
  max_inflight_files :: nat
  inflight_ttl :: duration

definition DEFAULT_MAX_INFLIGHT_FILES :: nat where
  "DEFAULT_MAX_INFLIGHT_FILES = 256"

definition DEFAULT_INFLIGHT_TTL_SECS :: nat where
  "DEFAULT_INFLIGHT_TTL_SECS = 90"

definition assembler_with_limits :: "nat \<Rightarrow> nat \<Rightarrow> duration \<Rightarrow> assembler" where
  "assembler_with_limits dups inflight ttl =
     \<lparr>by_key = [], completed_recent = [], completed_index = {}, duplicate_cache_size = max dups 1,
      max_inflight_files = max inflight 1, inflight_ttl = max ttl 1000000\<rparr>"

definition assembler_new :: "nat \<Rightarrow> assembler" where
  "assembler_new dups =
     assembler_with_limits dups DEFAULT_MAX_INFLIGHT_FILES (DEFAULT_INFLIGHT_TTL_SECS * 1000000000)"

definition file_key :: "(str \<Rightarrow> str) \<Rightarrow> qbt_segment \<Rightarrow> str" where
  "file_key lower s =
     (let t = seg_timestamp_utc s;
          ts = (if t \<ge> 0
                then show_nat (nat (t div 1000000000)) @ ''.'' @ pad0 9 (show_nat (nat (t mod 1000000000)))
                else ''0.000000000'')
      in lower (seg_filename s) @ ''_'' @ ts)"

text \<open>The loop that pops the oldest completed keys until the queue fits.\<close>

fun trim_recent :: "nat \<Rightarrow> str list \<Rightarrow> str set \<Rightarrow> str list \<times> str set" where
  "trim_recent cap [] idx = ([], idx)"
| "trim_recent cap (old # recent) idx =
     (if length (old # recent) > cap then trim_recent cap recent (idx - {old}) else (old # recent, idx))"

definition remember_completed :: "assembler \<Rightarrow> str \<Rightarrow> assembler" where
  "remember_completed a key =
     (if key \<in> completed_index a then a
      else
        let (recent, idx) =
              trim_recent (duplicate_cache_size a) (completed_recent a @ [key]) (insert key (completed_index a))
        in a\<lparr>completed_recent := recent, completed_index := idx\<rparr>)"

definition evict_stale_inflight :: "assembler \<Rightarrow> instant \<Rightarrow> assembler" where
  "evict_stale_inflight a now =
     a\<lparr>by_key := filter (\<lambda>(k, f). now - if_last_seen f \<le> inflight_ttl a) (by_key a)\<rparr>"

text \<open>\<^verbatim>\<open>min_by_key\<close>: the first of the entries with the least \<^verbatim>\<open>last_seen\<close> in iteration order.\<close>

fun oldest :: "(str \<Rightarrow> nat) \<Rightarrow> (str \<times> inflight_file) list \<Rightarrow> (str \<times> inflight_file) option" where
  "oldest pos [] = None"
| "oldest pos (e # es) =
     (case oldest pos es of
        None \<Rightarrow> Some e
      | Some m \<Rightarrow>
          if if_last_seen (snd e) < if_last_seen (snd m) \<or>
             (if_last_seen (snd e) = if_last_seen (snd m) \<and> pos (fst e) \<le> pos (fst m))
          then Some e else Some m)"

lemma oldest_in: "oldest pos es = Some m \<Longrightarrow> m \<in> set es"
  by (induction es arbitrary: m) (auto split: option.splits if_splits)

lemma oldest_None [simp]: "oldest pos es = None \<longleftrightarrow> es = []"
  by (cases es) (auto split: option.splits)

lemma length_delete_less: "k \<in> fst ` set al \<Longrightarrow> length (AList.delete k al) < length al"
  by (induction al) (auto simp: AList.delete_eq intro: le_imp_less_Suc length_filter_le)

function evict_overflow :: "(str \<Rightarrow> nat) \<Rightarrow> nat \<Rightarrow> (str \<times> inflight_file) list \<Rightarrow> (str \<times> inflight_file) list" where
  "evict_overflow pos min_capacity entries =
     (if length entries \<ge> min_capacity
      then case oldest pos entries of
          None \<Rightarrow> entries
        | Some (oldest_key, f) \<Rightarrow> evict_overflow pos min_capacity (AList.delete oldest_key entries)
      else entries)"
  by pat_completeness auto
termination
proof (relation "measure (\<lambda>(pos, c, es). length es)", simp)
  fix pos c es p k f
  assume "oldest pos es = Some p" "(k, f) = p"
  then have "k \<in> fst ` set es" using oldest_in by force
  then show "((pos, c, AList.delete k es), pos, c, es) \<in> measure (\<lambda>(pos, c, es). length es)"
    by (simp add: length_delete_less)
qed

declare evict_overflow.simps [simp del]

definition evict_overflow_inflight :: "(str \<Rightarrow> nat) \<Rightarrow> assembler \<Rightarrow> nat \<Rightarrow> assembler" where
  "evict_overflow_inflight pos a min_capacity = a\<lparr>by_key := evict_overflow pos min_capacity (by_key a)\<rparr>"

text \<open>\<^verbatim>\<open>BTreeMap::insert\<close> on the ordered parts.\<close>

fun parts_insert :: "u32 \<Rightarrow> qbt_segment \<Rightarrow> (u32 \<times> qbt_segment) list \<Rightarrow> (u32 \<times> qbt_segment) list" where
  "parts_insert n s [] = [(n, s)]"
| "parts_insert n s ((m, t) # ps) =
     (if n < m then (n, s) # (m, t) # ps
      else if n = m then (n, s) # ps
      else (m, t) # parts_insert n s ps)"

definition completed_of :: "(u32 \<times> qbt_segment) list \<Rightarrow> qbt_completed_file option" where
  "completed_of parts =
     (case parts of
        [] \<Rightarrow> None
      | (n, first) # _ \<Rightarrow>
          Some \<lparr>cf_filename = seg_filename first, cf_data = concat (map (seg_content \<circ> snd) parts),
                cf_timestamp_utc = seg_timestamp_utc first\<rparr>)"

definition push :: "(str \<Rightarrow> str) \<Rightarrow> (str \<Rightarrow> nat) \<Rightarrow> instant \<Rightarrow> assembler \<Rightarrow> qbt_segment \<Rightarrow>
    assembler \<times> qbt_completed_file option" where
  "push lower pos now a segment =
     (if is_fillfile (seg_filename segment) then (a, None)
      else if \<not> valid_numbering (seg_block_number segment) (seg_total_blocks segment) then (a, None)
      else
        let key = file_key lower segment in
        if key \<in> completed_index a then (a, None)
        else
          let a1 = evict_stale_inflight a now;
              a2 = (if map_of (by_key a1) key = None
                    then evict_overflow_inflight pos a1 (max_inflight_files a1) else a1);
              total_blocks = seg_total_blocks segment;
              old_parts = (case map_of (by_key a2) key of Some f \<Rightarrow> if_parts f | None \<Rightarrow> []);
              entry = \<lparr>if_total_blocks = total_blocks,
                       if_parts = parts_insert (seg_block_number segment) segment old_parts,
                       if_last_seen = now\<rparr>;
              a3 = a2\<lparr>by_key := AList.update key entry (by_key a2)\<rparr>
          in if word_of_nat (length (if_parts entry)) \<noteq> total_blocks then (a3, None)
             else case completed_of (if_parts entry) of
                 None \<Rightarrow> (a3, None)
               | Some file \<Rightarrow>
                   (remember_completed (a3\<lparr>by_key := AList.delete key (by_key a3)\<rparr>) key, Some file))"

definition assembler_clear :: "assembler \<Rightarrow> assembler" where
  "assembler_clear a = a\<lparr>by_key := [], completed_recent := [], completed_index := {}\<rparr>"

section \<open>Parts and queue\<close>

definition parts_ok :: "(u32 \<times> qbt_segment) list \<Rightarrow> bool" where
  "parts_ok ps \<longleftrightarrow> sorted_wrt (<) (map fst ps)"

lemma parts_insert_keys: "fst ` set (parts_insert n s ps) = insert n (fst ` set ps)"
  by (induction n s ps rule: parts_insert.induct) auto

lemma parts_insert_set: "set (parts_insert n s ps) \<subseteq> insert (n, s) (set ps)"
  by (induction n s ps rule: parts_insert.induct) auto

lemma parts_insert_ok: "parts_ok ps \<Longrightarrow> parts_ok (parts_insert n s ps)"
proof (induction n s ps rule: parts_insert.induct)
  case (2 n s m t ps)
  then show ?case
    using parts_insert_keys [of n s ps] by (auto simp: parts_ok_def not_less)
qed (simp add: parts_ok_def)

lemma parts_insert_nonempty [simp]: "parts_insert n s ps \<noteq> []"
  by (cases "(n, s, ps)" rule: parts_insert.cases) auto

lemma parts_ok_unique:
  assumes "parts_ok ps" "parts_ok qs" "set ps = set qs"
  shows "ps = qs"
proof -
  have d: "distinct (map fst ps)" "distinct (map fst qs)" and s: "sorted (map fst ps)" "sorted (map fst qs)"
    using assms(1,2) by (simp_all add: parts_ok_def strict_sorted_iff)
  have "inj_on fst (set ps \<union> set qs)" using d(1) assms(3) by (simp add: distinct_map)
  then show ?thesis using s(1) d(1) s(2) d(2) assms(3) by (rule map_sorted_distinct_set_unique)
qed

lemma trim_recent_eq:
  "trim_recent cap recent idx =
     (drop (length recent - cap) recent, idx - set (take (length recent - cap) recent))"
proof (induction cap recent idx rule: trim_recent.induct)
  case (2 cap old recent idx)
  show ?case
  proof (cases "length (old # recent) > cap")
    case True
    then have "length (old # recent) - cap = Suc (length recent - cap)" by simp
    with True 2 show ?thesis by (auto simp: Diff_insert2 [symmetric] insert_commute)
  qed simp
qed simp

lemma evict_overflow_subset:
  "set (evict_overflow pos c es) \<subseteq> set es \<and>
   (distinct (map fst es) \<longrightarrow> distinct (map fst (evict_overflow pos c es)))"
proof (induction pos c es rule: evict_overflow.induct)
  case (1 pos c es)
  show ?case
  proof (cases "length es \<ge> c \<and> es \<noteq> []")
    case True
    then obtain k f where o: "oldest pos es = Some (k, f)" by (cases "oldest pos es") auto
    have "set (AList.delete k es) \<subseteq> set es" by (auto simp: AList.delete_eq)
    moreover have "distinct (map fst es) \<Longrightarrow> distinct (map fst (AList.delete k es))"
      by (rule distinct_delete)
    ultimately show ?thesis
      using 1 [of "(k, f)" k f] True o by (simp add: evict_overflow.simps [of pos c es]) blast
  next
    case False
    then show ?thesis by (auto simp: evict_overflow.simps [of pos c es])
  qed
qed

lemma evict_overflow_length: "1 \<le> c \<Longrightarrow> length (evict_overflow pos c es) < c"
proof (induction pos c es rule: evict_overflow.induct)
  case (1 pos c es)
  show ?case
  proof (cases "length es \<ge> c")
    case True
    then have "es \<noteq> []" using 1(2) by auto
    then obtain k f where o: "oldest pos es = Some (k, f)" by (cases "oldest pos es") auto
    with 1(1) [of "(k, f)" k f] True 1(2) show ?thesis by (simp add: evict_overflow.simps [of pos c es])
  qed (simp add: evict_overflow.simps [of pos c es])
qed

lemma evict_overflow_room: "length es < c \<Longrightarrow> evict_overflow pos c es = es"
  by (simp add: evict_overflow.simps)

section \<open>Invariant\<close>

definition inflight_ok :: "(str \<Rightarrow> str) \<Rightarrow> str \<times> inflight_file \<Rightarrow> bool" where
  "inflight_ok lower e \<longleftrightarrow>
     parts_ok (if_parts (snd e)) \<and> if_parts (snd e) \<noteq> [] \<and>
     (\<forall>(n, s) \<in> set (if_parts (snd e)).
        seg_block_number s = n \<and> file_key lower s = fst e \<and>
        valid_numbering n (seg_total_blocks s) \<and> \<not> is_fillfile (seg_filename s))"

definition asm_inv :: "(str \<Rightarrow> str) \<Rightarrow> assembler \<Rightarrow> bool" where
  "asm_inv lower a \<longleftrightarrow>
     1 \<le> max_inflight_files a \<and> 1 \<le> duplicate_cache_size a \<and>
     distinct (map fst (by_key a)) \<and> length (by_key a) \<le> max_inflight_files a \<and>
     distinct (completed_recent a) \<and> set (completed_recent a) = completed_index a \<and>
     length (completed_recent a) \<le> duplicate_cache_size a \<and>
     fst ` set (by_key a) \<inter> completed_index a = {} \<and>
     (\<forall>e \<in> set (by_key a). inflight_ok lower e)"

lemma asm_inv_new: "asm_inv lower (assembler_with_limits dups inflight ttl)"
  by (simp add: asm_inv_def assembler_with_limits_def)

lemma asm_inv_clear: "asm_inv lower a \<Longrightarrow> asm_inv lower (assembler_clear a)"
  by (simp add: asm_inv_def assembler_clear_def)

lemma asm_inv_shrink:
  assumes "asm_inv lower a" "set es \<subseteq> set (by_key a)" "distinct (map fst es)"
  shows "asm_inv lower (a\<lparr>by_key := es\<rparr>)"
proof -
  have "length es = card (set (map fst es))" using assms(3) by (metis distinct_card length_map)
  also have "\<dots> \<le> card (set (map fst (by_key a)))" using assms(2) by (intro card_mono) auto
  also have "\<dots> \<le> max_inflight_files a"
    using assms(1) card_length [of "map fst (by_key a)"] by (auto simp: asm_inv_def)
  finally have "length es \<le> max_inflight_files a" .
  moreover have "fst ` set es \<subseteq> fst ` set (by_key a)" using assms(2) by auto
  moreover have "\<forall>e \<in> set es. inflight_ok lower e"
    using assms(1,2) by (auto simp: asm_inv_def)
  ultimately show ?thesis using assms(1,3) unfolding asm_inv_def by (simp add: disjoint_iff subset_iff)
qed

lemma asm_inv_remember:
  assumes "asm_inv lower a" "key \<notin> fst ` set (by_key a)"
  shows "asm_inv lower (remember_completed a key)"
proof (cases "key \<in> completed_index a")
  case True
  then show ?thesis using assms(1) by (simp add: remember_completed_def)
next
  case False
  define r where "r = completed_recent a @ [key]"
  define n where "n = length r - duplicate_cache_size a"
  have r: "distinct r" "insert key (completed_index a) = set r"
    using False assms(1) by (auto simp: asm_inv_def r_def)
  have sp: "set r = set (take n r) \<union> set (drop n r)" by (metis append_take_drop_id set_append)
  have "set (take n r) \<inter> set (drop n r) = {}" using r(1) by (rule set_take_disj_set_drop_if_distinct) simp
  with sp have idx: "set r - set (take n r) = set (drop n r)" by blast
  have "remember_completed a key = a\<lparr>completed_recent := drop n r, completed_index := set (drop n r)\<rparr>"
    using False r(2) unfolding remember_completed_def trim_recent_eq r_def [symmetric] n_def [symmetric]
    by (simp add: idx)
  moreover have "length (drop n r) \<le> duplicate_cache_size a" by (simp add: n_def)
  moreover have "fst ` set (by_key a) \<inter> set (drop n r) = {}"
  proof -
    have "fst ` set (by_key a) \<inter> completed_index a = {}" using assms(1) by (simp add: asm_inv_def)
    moreover have "set (drop n r) \<subseteq> insert key (completed_index a)" using sp r(2) by blast
    ultimately show ?thesis using assms(2) by blast
  qed
  ultimately show ?thesis using assms(1) r(1) by (simp add: asm_inv_def)
qed

lemma set_update_subset: "set (AList.update k v es) \<subseteq> insert (k, v) (set es)"
  by (induction es) auto

lemma length_update: "length (AList.update k v es) = length es + (if map_of es k = None then 1 else 0)"
  by (induction es) auto

lemma asm_inv_update:
  assumes "asm_inv lower a" "key \<notin> completed_index a" "inflight_ok lower (key, f)"
    and "map_of (by_key a) key = None \<Longrightarrow> length (by_key a) < max_inflight_files a"
  shows "asm_inv lower (a\<lparr>by_key := AList.update key f (by_key a)\<rparr>)"
proof -
  have "length (AList.update key f (by_key a)) \<le> max_inflight_files a"
    using assms(1,4) by (cases "map_of (by_key a) key") (auto simp: length_update asm_inv_def)
  moreover have "fst ` set (AList.update key f (by_key a)) \<inter> completed_index a = {}"
    using assms(1,2) by (simp add: dom_update asm_inv_def)
  moreover have "\<forall>e \<in> set (AList.update key f (by_key a)). inflight_ok lower e"
    using assms(1,3) set_update_subset [of key f "by_key a"] by (auto simp: asm_inv_def)
  ultimately show ?thesis
    using assms(1) by (simp add: asm_inv_def distinct_update)
qed

text \<open>The table after the two evictions, and the entry that \<open>push\<close> stores.\<close>

definition make_room :: "(str \<Rightarrow> nat) \<Rightarrow> instant \<Rightarrow> assembler \<Rightarrow> str \<Rightarrow> assembler" where
  "make_room pos now a key =
     (let a1 = evict_stale_inflight a now in
      if map_of (by_key a1) key = None then evict_overflow_inflight pos a1 (max_inflight_files a1) else a1)"

definition stored_entry :: "assembler \<Rightarrow> str \<Rightarrow> instant \<Rightarrow> qbt_segment \<Rightarrow> inflight_file" where
  "stored_entry a key now s =
     \<lparr>if_total_blocks = seg_total_blocks s,
      if_parts = parts_insert (seg_block_number s) s
        (case map_of (by_key a) key of Some f \<Rightarrow> if_parts f | None \<Rightarrow> []),
      if_last_seen = now\<rparr>"

lemma stored_entry_sel [simp]:
  "if_total_blocks (stored_entry a key now s) = seg_total_blocks s"
  "if_last_seen (stored_entry a key now s) = now"
  "if_parts (stored_entry a key now s) =
     parts_insert (seg_block_number s) s (case map_of (by_key a) key of Some f \<Rightarrow> if_parts f | None \<Rightarrow> [])"
  by (simp_all add: stored_entry_def)

text \<open>The segments that reach the table.\<close>

definition wanted :: "(str \<Rightarrow> str) \<Rightarrow> assembler \<Rightarrow> qbt_segment \<Rightarrow> bool" where
  "wanted lower a s \<longleftrightarrow>
     \<not> is_fillfile (seg_filename s) \<and> valid_numbering (seg_block_number s) (seg_total_blocks s) \<and>
     file_key lower s \<notin> completed_index a"

lemma push_unwanted: "\<not> wanted lower a s \<Longrightarrow> push lower pos now a s = (a, None)"
  by (auto simp: push_def wanted_def Let_def)

lemma completed_of_Some: "ps \<noteq> [] \<Longrightarrow> completed_of ps =
    Some \<lparr>cf_filename = seg_filename (snd (hd ps)), cf_data = concat (map (seg_content \<circ> snd) ps),
      cf_timestamp_utc = seg_timestamp_utc (snd (hd ps))\<rparr>"
  by (cases ps) (auto simp: completed_of_def)

lemma push_wanted:
  assumes "wanted lower a s" "key = file_key lower s" "a2 = make_room pos now a key" "e = stored_entry a2 key now s"
  shows "push lower pos now a s =
    (if word_of_nat (length (if_parts e)) \<noteq> seg_total_blocks s
     then (a2\<lparr>by_key := AList.update key e (by_key a2)\<rparr>, None)
     else (remember_completed (a2\<lparr>by_key := AList.delete key (AList.update key e (by_key a2))\<rparr>) key,
           completed_of (if_parts e)))"
  using assms(1) unfolding assms(2,3,4)
  by (simp add: push_def wanted_def Let_def make_room_def stored_entry_def completed_of_Some)

lemma make_room_inv:
  assumes "asm_inv lower a"
  shows "asm_inv lower (make_room pos now a key) \<and>
    (map_of (by_key (make_room pos now a key)) key = None \<longrightarrow>
     length (by_key (make_room pos now a key)) < max_inflight_files a)"
proof -
  let ?es = "filter (\<lambda>(k, f). now - if_last_seen f \<le> inflight_ttl a) (by_key a)"
  have d: "distinct (map fst ?es)" using assms by (auto simp: asm_inv_def distinct_map_filter)
  let ?ov = "evict_overflow pos (max_inflight_files a) ?es"
  have "set ?ov \<subseteq> set (by_key a)" "distinct (map fst ?ov)" "length ?ov < max_inflight_files a"
    using evict_overflow_subset [of pos "max_inflight_files a" ?es] d assms
      evict_overflow_length [of "max_inflight_files a" pos ?es]
    by (auto simp: asm_inv_def)
  then show ?thesis
    using asm_inv_shrink [OF assms, of ?es] asm_inv_shrink [OF assms, of ?ov] d
    by (auto simp: make_room_def evict_stale_inflight_def evict_overflow_inflight_def Let_def)
qed

lemma make_room_config [simp]:
  "completed_index (make_room pos now a key) = completed_index a"
  "completed_recent (make_room pos now a key) = completed_recent a"
  "max_inflight_files (make_room pos now a key) = max_inflight_files a"
  "duplicate_cache_size (make_room pos now a key) = duplicate_cache_size a"
  "inflight_ttl (make_room pos now a key) = inflight_ttl a"
  by (simp_all add: make_room_def evict_stale_inflight_def evict_overflow_inflight_def Let_def)

lemma stored_entry_ok:
  assumes "asm_inv lower a" "wanted lower a s"
  shows "inflight_ok lower (file_key lower s, stored_entry a (file_key lower s) now s)"
proof -
  let ?old = "case map_of (by_key a) (file_key lower s) of Some f \<Rightarrow> if_parts f | None \<Rightarrow> []"
  have "parts_ok ?old \<and> (\<forall>(n, t) \<in> set ?old. seg_block_number t = n \<and> file_key lower t = file_key lower s \<and>
      valid_numbering n (seg_total_blocks t) \<and> \<not> is_fillfile (seg_filename t))"
  proof (cases "map_of (by_key a) (file_key lower s)")
    case (Some f)
    then have "(file_key lower s, f) \<in> set (by_key a)" by (rule map_of_SomeD)
    with assms(1) have "inflight_ok lower (file_key lower s, f)" by (simp add: asm_inv_def)
    with Some show ?thesis by (simp add: inflight_ok_def)
  qed (simp add: parts_ok_def)
  then show ?thesis
    using assms(2) parts_insert_set [of "seg_block_number s" s ?old]
    by (auto simp: inflight_ok_def wanted_def parts_insert_ok)
qed

lemma push_inv:
  assumes "asm_inv lower a"
  shows "asm_inv lower (fst (push lower pos now a s))"
proof (cases "wanted lower a s")
  case False
  with assms show ?thesis by (simp add: push_unwanted)
next
  case True
  define key where "key = file_key lower s"
  define a2 where "a2 = make_room pos now a key"
  define e where "e = stored_entry a2 key now s"
  have a2: "asm_inv lower a2" "map_of (by_key a2) key = None \<Longrightarrow> length (by_key a2) < max_inflight_files a2"
    using make_room_inv [OF assms, of pos now key] by (simp_all add: a2_def)
  have w: "wanted lower a2 s" using True by (simp add: wanted_def a2_def)
  have upd: "asm_inv lower (a2\<lparr>by_key := AList.update key e (by_key a2)\<rparr>)"
    using a2 w stored_entry_ok [OF a2(1) w, of now]
    by (intro asm_inv_update) (simp_all add: e_def key_def wanted_def)
  let ?del = "AList.delete key (AList.update key e (by_key a2))"
  have "asm_inv lower (a2\<lparr>by_key := ?del\<rparr>)"
    using asm_inv_shrink [OF upd, of ?del] upd
    by (auto simp: AList.delete_eq asm_inv_def distinct_map_filter)
  then have "asm_inv lower (remember_completed (a2\<lparr>by_key := ?del\<rparr>) key)"
    by (intro asm_inv_remember) (auto simp: AList.delete_eq)
  with upd push_wanted [OF True key_def a2_def e_def] show ?thesis by simp
qed

section \<open>Reassembly of interleaved products\<close>

text \<open>
  A product is the list of its segments, block \<open>i + 1\<close> at position \<open>i\<close>.  The reference
  assembler keeps the arrivals and delivers a product at the arrival that makes it complete.
\<close>

type_synonym product = "qbt_segment list"

definition product_ok :: "product \<Rightarrow> bool" where
  "product_ok ss \<longleftrightarrow>
     ss \<noteq> [] \<and> length ss < 2 ^ 32 \<and> \<not> is_fillfile (seg_filename (hd ss)) \<and>
     (\<forall>i < length ss. seg_block_number (ss ! i) = word_of_nat (i + 1) \<and>
        seg_total_blocks (ss ! i) = word_of_nat (length ss) \<and>
        seg_filename (ss ! i) = seg_filename (hd ss) \<and> seg_timestamp_utc (ss ! i) = seg_timestamp_utc (hd ss))"

definition product_file :: "product \<Rightarrow> qbt_completed_file" where
  "product_file ss =
     \<lparr>cf_filename = seg_filename (hd ss), cf_data = concat (map seg_content ss),
      cf_timestamp_utc = seg_timestamp_utc (hd ss)\<rparr>"

definition product_key :: "(str \<Rightarrow> str) \<Rightarrow> product \<Rightarrow> str" where
  "product_key lower ss = file_key lower (hd ss)"

type_synonym arrival = "instant \<times> product \<times> nat"

definition seen_blocks :: "(product \<times> nat) set \<Rightarrow> product \<Rightarrow> nat set" where
  "seen_blocks h ss = {i. (ss, i) \<in> h}"

definition arrival_result :: "(product \<times> nat) set \<Rightarrow> product \<Rightarrow> nat \<Rightarrow> qbt_completed_file option" where
  "arrival_result h ss i =
     (if insert i (seen_blocks h ss) = {..<length ss} \<and> seen_blocks h ss \<noteq> {..<length ss}
      then Some (product_file ss) else None)"

primrec reference_run :: "(product \<times> nat) set \<Rightarrow> arrival list \<Rightarrow> qbt_completed_file option list" where
  "reference_run h [] = []"
| "reference_run h (x # xs) =
     (case x of (now, ss, i) \<Rightarrow> arrival_result h ss i # reference_run (insert (ss, i) h) xs)"

primrec push_run :: "(str \<Rightarrow> str) \<Rightarrow> (str \<Rightarrow> nat) \<Rightarrow> assembler \<Rightarrow> arrival list \<Rightarrow>
    assembler \<times> qbt_completed_file option list" where
  "push_run lower pos a [] = (a, [])"
| "push_run lower pos a (x # xs) =
     (case x of (now, ss, i) \<Rightarrow>
        let (a1, r) = push lower pos now a (ss ! i); (a2, rs) = push_run lower pos a1 xs in (a2, r # rs))"

text \<open>The parts of a product whose blocks at the positions \<open>S\<close> are there.\<close>

definition parts_of :: "product \<Rightarrow> nat set \<Rightarrow> (u32 \<times> qbt_segment) list" where
  "parts_of ss S = map (\<lambda>i. (word_of_nat (i + 1), ss ! i)) (sorted_list_of_set S)"

lemma word_of_nat_less_iff:
  "i < 2 ^ 32 \<Longrightarrow> j < 2 ^ 32 \<Longrightarrow> (word_of_nat i :: u32) < word_of_nat j \<longleftrightarrow> i < j"
  by (simp add: word_less_nat_alt unat_of_nat)

lemma parts_of_ok:
  assumes "S \<subseteq> {..<length ss}" "length ss < 2 ^ 32"
  shows "parts_ok (parts_of ss S)"
proof -
  have "finite S" using assms(1) finite_subset by blast
  then have "sorted_wrt (<) (sorted_list_of_set S)" "set (sorted_list_of_set S) = S" by simp_all
  moreover have "(word_of_nat (i + 1) :: u32) < word_of_nat (j + 1)" if "i \<in> S" "j \<in> S" "i < j" for i j
    using that assms by (subst word_of_nat_less_iff) auto
  ultimately have "sorted_wrt (\<lambda>i j. (word_of_nat (i + 1) :: u32) < word_of_nat (j + 1)) (sorted_list_of_set S)"
    by (metis (mono_tags, lifting) sorted_wrt_mono_rel)
  then show ?thesis by (simp add: parts_ok_def parts_of_def sorted_wrt_map)
qed

lemma set_parts_of: "finite S \<Longrightarrow> set (parts_of ss S) = (\<lambda>i. (word_of_nat (i + 1), ss ! i)) ` S"
  by (simp add: parts_of_def)

lemma parts_insert_in: "parts_ok ps \<Longrightarrow> (n, s) \<in> set ps \<Longrightarrow> parts_insert n s ps = ps"
proof (induction n s ps rule: parts_insert.induct)
  case (2 n s m t ps)
  then have "n = m \<and> s = t \<or> n \<noteq> m \<and> (n, s) \<in> set ps \<and> m < n"
    by (auto simp: parts_ok_def dest: bspec)
  with 2 show ?case by (auto simp: parts_ok_def)
qed simp

lemma set_parts_insert_new: "n \<notin> fst ` set ps \<Longrightarrow> set (parts_insert n s ps) = insert (n, s) (set ps)"
  by (induction n s ps rule: parts_insert.induct) auto

lemma parts_insert_parts_of:
  assumes "S \<subseteq> {..<length ss}" "length ss < 2 ^ 32" "i < length ss"
  shows "parts_insert (word_of_nat (i + 1)) (ss ! i) (parts_of ss S) = parts_of ss (insert i S)"
proof (rule parts_ok_unique)
  have fin: "finite S" using assms(1) finite_subset by blast
  show "parts_ok (parts_insert (word_of_nat (i + 1)) (ss ! i) (parts_of ss S))"
    using parts_of_ok [OF assms(1,2)] by (rule parts_insert_ok)
  show "parts_ok (parts_of ss (insert i S))" using assms by (intro parts_of_ok) auto
  show "set (parts_insert (word_of_nat (i + 1)) (ss ! i) (parts_of ss S)) = set (parts_of ss (insert i S))"
  proof (cases "i \<in> S")
    case True
    then have "(word_of_nat (i + 1), ss ! i) \<in> set (parts_of ss S)" by (auto simp: set_parts_of fin)
    with parts_of_ok [OF assms(1,2)] True show ?thesis by (simp add: parts_insert_in insert_absorb)
  next
    case False
    have "(word_of_nat (i + 1) :: u32) \<noteq> word_of_nat (j + 1)" if "j \<in> S" for j
    proof -
      have "j < 2 ^ 32 - 1" "i < 2 ^ 32 - 1" "i \<noteq> j" using that False assms by auto
      then show ?thesis by (simp add: word_unat_eq_iff unat_of_nat del: of_nat_add of_nat_Suc)
    qed
    then have "word_of_nat (i + 1) \<notin> fst ` set (parts_of ss S)" by (auto simp: set_parts_of fin)
    then show ?thesis by (simp add: set_parts_insert_new set_parts_of fin)
  qed
qed

lemma parts_of_full: "map snd (parts_of ss {..<length ss}) = ss"
  by (simp add: parts_of_def comp_def lessThan_atLeast0 map_nth)

lemma length_parts_of: "finite S \<Longrightarrow> length (parts_of ss S) = card S"
  by (simp add: parts_of_def)

lemma completed_parts_of: 
  assumes "product_ok ss"
  shows "completed_of (parts_of ss {..<length ss}) = Some (product_file ss)"
proof -
  let ?p = "parts_of ss {..<length ss}"
  have m: "map snd ?p = ss" by (rule parts_of_full)
  have ne: "?p \<noteq> []" using assms m by (auto simp: product_ok_def)
  then have "snd (hd ?p) = hd ss" using m by (metis hd_map)
  moreover have "map (seg_content \<circ> snd) ?p = map seg_content ss" using m by (metis map_map)
  ultimately show ?thesis using ne by (simp add: completed_of_Some product_file_def)
qed

text \<open>
  The simulation relation: \<open>P\<close> is the set of products on the air, \<open>h\<close> the arrivals so far, and
  the whole run fits between \<open>t0\<close> and \<open>t0\<close> plus the time to live.
\<close>

definition tracks :: "(str \<Rightarrow> str) \<Rightarrow> product set \<Rightarrow> instant \<Rightarrow> assembler \<Rightarrow> (product \<times> nat) set \<Rightarrow> bool" where
  "tracks lower P t0 a h \<longleftrightarrow>
     asm_inv lower a \<and>
     fst ` set (by_key a) \<subseteq> product_key lower ` P \<and> completed_index a \<subseteq> product_key lower ` P \<and>
     (\<forall>k f. map_of (by_key a) k = Some f \<longrightarrow> t0 \<le> if_last_seen f) \<and>
     (\<forall>ss \<in> P. seen_blocks h ss \<subseteq> {..<length ss} \<and>
        (product_key lower ss \<in> completed_index a \<longleftrightarrow> seen_blocks h ss = {..<length ss}) \<and>
        (seen_blocks h ss \<noteq> {..<length ss} \<longrightarrow>
           map_option if_parts (map_of (by_key a) (product_key lower ss)) =
             (if seen_blocks h ss = {} then None else Some (parts_of ss (seen_blocks h ss)))))"

lemma tracksD:
  assumes "tracks lower P t0 a h" "ss \<in> P"
  shows "seen_blocks h ss \<subseteq> {..<length ss}"
    and "product_key lower ss \<in> completed_index a \<longleftrightarrow> seen_blocks h ss = {..<length ss}"
    and "seen_blocks h ss \<noteq> {..<length ss} \<Longrightarrow>
      map_option if_parts (map_of (by_key a) (product_key lower ss)) =
        (if seen_blocks h ss = {} then None else Some (parts_of ss (seen_blocks h ss)))"
  using assms unfolding tracks_def by simp_all

definition on_air :: "(str \<Rightarrow> str) \<Rightarrow> product set \<Rightarrow> assembler \<Rightarrow> bool" where
  "on_air lower P a \<longleftrightarrow>
     finite P \<and> (\<forall>ss \<in> P. product_ok ss) \<and> inj_on (product_key lower) P \<and>
     card P \<le> max_inflight_files a \<and> card P \<le> duplicate_cache_size a"

lemma map_of_filter_all: "(\<And>e. e \<in> set es \<Longrightarrow> Q e) \<Longrightarrow> filter Q es = es"
  by (simp add: filter_id_conv)

lemma make_room_keeps:
  assumes "on_air lower P a" "tracks lower P t0 a h" "ss \<in> P" "t0 \<le> now" "now \<le> t0 + inflight_ttl a"
    "key = product_key lower ss"
  shows "make_room pos now a key = a"
proof -
  have inv: "asm_inv lower a" and keys: "fst ` set (by_key a) \<subseteq> product_key lower ` P"
    using assms(2) by (simp_all add: tracks_def)
  have d: "distinct (map fst (by_key a))" using inv by (simp add: asm_inv_def)
  have "t0 \<le> if_last_seen (snd e)" if "e \<in> set (by_key a)" for e
  proof -
    have "map_of (by_key a) (fst e) = Some (snd e)" using that d by simp
    then show ?thesis using assms(2) unfolding tracks_def by blast
  qed
  then have ev: "evict_stale_inflight a now = a"
    using assms(4,5) unfolding evict_stale_inflight_def
    by (subst map_of_filter_all) fastforce+
  show ?thesis
  proof (cases "map_of (by_key a) key")
    case None
    have fin: "finite P" and cP: "card P \<le> max_inflight_files a" using assms(1) by (simp_all add: on_air_def)
    have "fst ` set (by_key a) \<subset> product_key lower ` P"
      using keys None assms(3,6) by (auto simp: map_of_eq_None_iff)
    then have "card (fst ` set (by_key a)) < card (product_key lower ` P)"
      using fin by (intro psubset_card_mono) auto
    also have "\<dots> \<le> card P" using fin by (rule card_image_le)
    also have "card (fst ` set (by_key a)) = length (by_key a)"
      using d by (metis distinct_card length_map set_map)
    finally have "length (by_key a) < max_inflight_files a" using cP by simp
    then show ?thesis
      using None by (simp add: make_room_def ev evict_overflow_inflight_def evict_overflow_room Let_def)
  qed (simp add: make_room_def ev Let_def)
qed

lemma product_segment:
  assumes "product_ok ss" "i < length ss"
  shows "file_key lower (ss ! i) = product_key lower ss" "\<not> is_fillfile (seg_filename (ss ! i))"
    "seg_block_number (ss ! i) = word_of_nat (i + 1)" "seg_total_blocks (ss ! i) = word_of_nat (length ss)"
    "valid_numbering (seg_block_number (ss ! i)) (seg_total_blocks (ss ! i))"
proof -
  show "seg_block_number (ss ! i) = word_of_nat (i + 1)" "seg_total_blocks (ss ! i) = word_of_nat (length ss)"
    "\<not> is_fillfile (seg_filename (ss ! i))" "file_key lower (ss ! i) = product_key lower ss"
    using assms by (auto simp: product_ok_def file_key_def product_key_def)
  moreover have "(1 :: u32) \<le> word_of_nat (i + 1)" "(word_of_nat (i + 1) :: u32) \<le> word_of_nat (length ss)"
    using assms by (auto simp: product_ok_def word_le_nat_alt unat_of_nat simp del: of_nat_add of_nat_Suc)
  ultimately show "valid_numbering (seg_block_number (ss ! i)) (seg_total_blocks (ss ! i))"
    by (simp add: valid_numbering_iff)
qed

lemma remember_room:
  assumes "key \<notin> completed_index a" "length (completed_recent a) < duplicate_cache_size a"
  shows "remember_completed a key =
    a\<lparr>completed_recent := completed_recent a @ [key], completed_index := insert key (completed_index a)\<rparr>"
  using assms by (simp add: remember_completed_def trim_recent_eq)

lemma recent_room:
  assumes "on_air lower P a" "tracks lower P t0 a h" "ss \<in> P" "product_key lower ss \<notin> completed_index a"
  shows "length (completed_recent a) < duplicate_cache_size a"
proof -
  have "completed_index a \<subset> product_key lower ` P" using assms(2,3,4) by (auto simp: tracks_def)
  moreover have fin: "finite P" using assms(1) by (simp add: on_air_def)
  ultimately have "card (completed_index a) < card (product_key lower ` P)" by (intro psubset_card_mono) auto
  also have "\<dots> \<le> card P" using fin by (rule card_image_le)
  also have "card (completed_index a) = length (completed_recent a)"
    using assms(2) by (auto simp: tracks_def asm_inv_def distinct_card dest: sym)
  finally show ?thesis using assms(1) by (simp add: on_air_def)
qed

lemma seen_blocks_insert:
  "seen_blocks (insert (ss, i) h) ss' = (if ss' = ss then insert i (seen_blocks h ss) else seen_blocks h ss')"
  by (auto simp: seen_blocks_def)

lemma full_iff:
  assumes "product_ok ss" "S \<subseteq> {..<length ss}"
  shows "(word_of_nat (card S) :: u32) = word_of_nat (length ss) \<longleftrightarrow> S = {..<length ss}"
proof -
  have "card S \<le> length ss" using assms(2) card_mono [of "{..<length ss}" S] by simp
  then have "(word_of_nat (card S) :: u32) = word_of_nat (length ss) \<longleftrightarrow> card S = length ss"
    using assms(1) by (auto simp: product_ok_def word_unat_eq_iff unat_of_nat)
  also have "\<dots> \<longleftrightarrow> S = {..<length ss}"
    using card_subset_eq [OF _ assms(2)] by auto
  finally show ?thesis .
qed

lemma push_product:
  assumes "on_air lower P a" "tracks lower P t0 a h" "ss \<in> P" "i < length ss"
    "t0 \<le> now" "now \<le> t0 + inflight_ttl a"
    and "S = seen_blocks h ss" "key = product_key lower ss"
  obtains (known) "S = {..<length ss}" "push lower pos now a (ss ! i) = (a, None)"
  | (partial) f where "S \<noteq> {..<length ss}" "insert i S \<noteq> {..<length ss}"
      "if_parts f = parts_of ss (insert i S)" "if_last_seen f = now"
      "push lower pos now a (ss ! i) = (a\<lparr>by_key := AList.update key f (by_key a)\<rparr>, None)"
  | (complete) f where "S \<noteq> {..<length ss}" "insert i S = {..<length ss}"
      "push lower pos now a (ss ! i) =
        (a\<lparr>by_key := AList.delete key (AList.update key f (by_key a)),
           completed_recent := completed_recent a @ [key], completed_index := insert key (completed_index a)\<rparr>,
         Some (product_file ss))"
proof -
  have pok: "product_ok ss" using assms(1,3) by (simp add: on_air_def)
  note seg = product_segment [OF pok assms(4)]
  note tr = tracksD [OF assms(2,3), folded assms(7,8)]
  show thesis
  proof (cases "S = {..<length ss}")
    case True
    then have "\<not> wanted lower a (ss ! i)" using tr(2) seg assms(8) by (simp add: wanted_def)
    then have "push lower pos now a (ss ! i) = (a, None)" by (rule push_unwanted)
    with True show thesis by (rule known)
  next
    case False
    define f where "f = stored_entry a key now (ss ! i)"
    have w: "wanted lower a (ss ! i)" using False tr(2) seg assms(8) by (simp add: wanted_def)
    have "(case map_of (by_key a) key of Some f \<Rightarrow> if_parts f | None \<Rightarrow> []) = parts_of ss S"
      using tr(3) [OF False] by (cases "map_of (by_key a) key") (auto simp: parts_of_def split: if_splits)
    then have parts: "if_parts f = parts_of ss (insert i S)"
      using parts_insert_parts_of [OF tr(1) _ assms(4)] pok seg(3) by (simp add: f_def product_ok_def)
    have sub: "insert i S \<subseteq> {..<length ss}" using tr(1) assms(4) by simp
    then have fin: "finite (insert i S)" by (rule finite_subset) simp
    have len: "(word_of_nat (length (if_parts f)) :: u32) = seg_total_blocks (ss ! i) \<longleftrightarrow> insert i S = {..<length ss}"
      using full_iff [OF pok sub] unfolding parts seg(4) length_parts_of [OF fin] .
    have room: "make_room pos now a key = a"
      using assms(1-3) assms(5,6,8) by (rule make_room_keeps)
    have kk: "key = file_key lower (ss ! i)" using seg(1) assms(8) by simp
    note pw = push_wanted [OF w kk room [symmetric] f_def]
    show thesis
    proof (cases "insert i S = {..<length ss}")
      case True
      have "key \<notin> completed_index a" using False tr(2) by simp
      moreover from this have "length (completed_recent a) < duplicate_cache_size a"
        using recent_room [OF assms(1-3)] assms(8) by simp
      ultimately show thesis
        using complete [OF False True, of f] pw len True parts completed_parts_of [OF pok]
        by (simp add: remember_room)
    next
      case False
      then show thesis using partial [OF \<open>S \<noteq> {..<length ss}\<close> False parts] pw len by (simp add: f_def)
    qed
  qed
qed

lemma product_key_other:
  "on_air lower P a \<Longrightarrow> ss \<in> P \<Longrightarrow> ss' \<in> P \<Longrightarrow> ss' \<noteq> ss \<Longrightarrow> product_key lower ss' \<noteq> product_key lower ss"
  by (auto simp: on_air_def inj_on_def)

lemma tracks_step:
  assumes "on_air lower P a" "tracks lower P t0 a h" "ss \<in> P" "i < length ss"
    "t0 \<le> now" "now \<le> t0 + inflight_ttl a" "push lower pos now a (ss ! i) = (a', r)"
  shows "r = arrival_result h ss i \<and> tracks lower P t0 a' (insert (ss, i) h) \<and>
    on_air lower P a' \<and> inflight_ttl a' = inflight_ttl a"
proof -
  let ?S = "seen_blocks h ss" and ?k = "product_key lower ss"
  note tr = tracksD [OF assms(2,3)]
  have inv': "asm_inv lower a'" using push_inv [of lower a pos now "ss ! i"] assms(2,7) by (simp add: tracks_def)
  have inv: "asm_inv lower a" and keys: "fst ` set (by_key a) \<subseteq> product_key lower ` P"
    and idx: "completed_index a \<subseteq> product_key lower ` P"
    and seen: "\<And>k f. map_of (by_key a) k = Some f \<Longrightarrow> t0 \<le> if_last_seen f"
    using assms(2) unfolding tracks_def by blast+
  have other: "product_key lower ss' \<noteq> ?k" if "ss' \<in> P" "ss' \<noteq> ss" for ss'
    using product_key_other [OF assms(1,3) that] .
  show ?thesis
  proof (cases rule: push_product [OF assms(1-6) refl refl, of pos, case_names known partial complete])
    case known
    then have "seen_blocks (insert (ss, i) h) = seen_blocks h"
      using assms(4) by (auto simp: seen_blocks_insert fun_eq_iff)
    with known assms show ?thesis by (auto simp: tracks_def arrival_result_def)
  next
    case (partial f)
    then have a': "a' = a\<lparr>by_key := AList.update ?k f (by_key a)\<rparr>" "r = None" using assms(7) by simp_all
    have mp: "map_of (by_key a') = (map_of (by_key a))(?k \<mapsto> f)" by (simp add: a' update_conv')
    have "tracks lower P t0 a' (insert (ss, i) h)"
      unfolding tracks_def
    proof (intro conjI ballI allI impI)
      fix k g assume "map_of (by_key a') k = Some g"
      then show "t0 \<le> if_last_seen g" using mp seen partial(4) assms(5) by (auto split: if_splits)
    next
      fix ss' assume ss': "ss' \<in> P"
      note tr' = tracksD [OF assms(2) ss']
      show "seen_blocks (insert (ss, i) h) ss' \<subseteq> {..<length ss'}"
        using tr'(1) assms(4) by (auto simp: seen_blocks_insert)
      show "(product_key lower ss' \<in> completed_index a') = (seen_blocks (insert (ss, i) h) ss' = {..<length ss'})"
        using tr' partial(1,2) by (auto simp: seen_blocks_insert a')
      show "map_option if_parts (map_of (by_key a') (product_key lower ss')) =
          (if seen_blocks (insert (ss, i) h) ss' = {} then None
           else Some (parts_of ss' (seen_blocks (insert (ss, i) h) ss')))"
        if "seen_blocks (insert (ss, i) h) ss' \<noteq> {..<length ss'}"
        using that tr' partial(3) mp other [OF ss'] by (cases "ss' = ss") (simp_all add: seen_blocks_insert)
    qed (use inv' keys idx assms(3) in \<open>auto simp: a' dom_update\<close>)
    with partial a' assms(1) show ?thesis by (simp add: arrival_result_def on_air_def)
  next
    case (complete f)
    then have a': "a' = a\<lparr>by_key := AList.delete ?k (AList.update ?k f (by_key a)),
        completed_recent := completed_recent a @ [?k], completed_index := insert ?k (completed_index a)\<rparr>"
      "r = Some (product_file ss)" using assms(7) by simp_all
    have mp: "map_of (by_key a') = (map_of (by_key a))(?k := None)" by (simp add: a' update_conv' delete_conv')
    have keys': "fst ` set (by_key a') \<subseteq> product_key lower ` P"
    proof -
      have "fst ` set (by_key a') \<subseteq> fst ` set (AList.update ?k f (by_key a))" by (auto simp: a' AList.delete_eq)
      then show ?thesis using keys assms(3) by (auto simp only: dom_update)
    qed
    have "tracks lower P t0 a' (insert (ss, i) h)"
      unfolding tracks_def
    proof (intro conjI ballI allI impI)
      fix k g assume "map_of (by_key a') k = Some g"
      then show "t0 \<le> if_last_seen g" using mp seen by (auto split: if_splits)
    next
      fix ss' assume ss': "ss' \<in> P"
      note tr' = tracksD [OF assms(2) ss']
      show "seen_blocks (insert (ss, i) h) ss' \<subseteq> {..<length ss'}"
        using tr'(1) assms(4) by (auto simp: seen_blocks_insert)
      show "(product_key lower ss' \<in> completed_index a') = (seen_blocks (insert (ss, i) h) ss' = {..<length ss'})"
        using tr' complete(2) other [OF ss'] by (cases "ss' = ss") (auto simp: seen_blocks_insert a')
      show "map_option if_parts (map_of (by_key a') (product_key lower ss')) =
          (if seen_blocks (insert (ss, i) h) ss' = {} then None
           else Some (parts_of ss' (seen_blocks (insert (ss, i) h) ss')))"
        if "seen_blocks (insert (ss, i) h) ss' \<noteq> {..<length ss'}"
        using that tr' complete(2) mp other [OF ss'] by (cases "ss' = ss") (simp_all add: seen_blocks_insert)
    qed (use inv' keys' idx assms(3) in \<open>simp_all add: a'\<close>)
    with complete a' assms(1) show ?thesis by (simp add: arrival_result_def on_air_def)
  qed
qed

lemma tracks_run:
  assumes "on_air lower P a" "tracks lower P t0 a h"
    and "\<forall>(now, ss, i) \<in> set xs. ss \<in> P \<and> i < length ss \<and> t0 \<le> now \<and> now \<le> t0 + inflight_ttl a"
  shows "snd (push_run lower pos a xs) = reference_run h xs"
  using assms
proof (induction xs arbitrary: a h)
  case (Cons x xs)
  obtain now ss i where x: "x = (now, ss, i)" by (cases x) auto
  obtain a' r where p: "push lower pos now a (ss ! i) = (a', r)" by (cases "push lower pos now a (ss ! i)") auto
  have "ss \<in> P" "i < length ss" "t0 \<le> now" "now \<le> t0 + inflight_ttl a" using Cons.prems(3) x by auto
  from tracks_step [OF Cons.prems(1,2) this p] Cons.IH [of a' "insert (ss, i) h"] Cons.prems(3) p
  show ?case by (simp add: x split_beta Let_def)
qed simp

lemma tracks_start:
  "tracks lower P t0 (assembler_with_limits dups inflight ttl) {} \<longleftrightarrow> (\<forall>ss \<in> P. ss \<noteq> [])"
  by (auto simp: tracks_def seen_blocks_def assembler_with_limits_def asm_inv_def)

section \<open>The assembler contract\<close>

text \<open>The trait \<^verbatim>\<open>QbtSegmentAssembler\<close>: what the ingest adapter uses of an assembler.\<close>

locale segment_assembler =
  fixes good :: "'a \<Rightarrow> bool"
    and push_at :: "'t \<Rightarrow> 'a \<Rightarrow> 's \<Rightarrow> 'a \<times> 'f option"
    and clear_all :: "'a \<Rightarrow> 'a"
  assumes good_push: "good a \<Longrightarrow> good (fst (push_at t a s))"
    and good_clear: "good a \<Longrightarrow> good (clear_all a)"
begin

inductive reach :: "'a \<Rightarrow> 'a \<Rightarrow> bool" for a0 where
  reach_start: "reach a0 a0"
| reach_push: "reach a0 a \<Longrightarrow> reach a0 (fst (push_at t a s))"
| reach_clear: "reach a0 a \<Longrightarrow> reach a0 (clear_all a)"

lemma reach_good: "reach a0 a \<Longrightarrow> good a0 \<Longrightarrow> good a"
  by (induction rule: reach.induct) (simp_all add: good_push good_clear)

primrec push_all :: "'a \<Rightarrow> ('t \<times> 's) list \<Rightarrow> 'a \<times> 'f list" where
  "push_all a [] = (a, [])"
| "push_all a (x # xs) =
     (let (a1, r) = push_at (fst x) a (snd x); (a2, fs) = push_all a1 xs
      in (a2, (case r of Some f \<Rightarrow> f # fs | None \<Rightarrow> fs)))"

lemma push_all_append:
  "push_all a (xs @ ys) =
     (let (a1, fs) = push_all a xs; (a2, gs) = push_all a1 ys in (a2, fs @ gs))"
  by (induction xs arbitrary: a) (auto simp: Let_def split_beta split: option.split)

lemma push_all_reach: "reach a0 a \<Longrightarrow> reach a0 (fst (push_all a xs))"
  by (induction xs arbitrary: a) (auto simp: Let_def split_beta intro: reach_push)

end

interpretation qbt_asm: segment_assembler "asm_inv lower" "\<lambda>(pos, now) a s. push lower pos now a s" assembler_clear
  by unfold_locales (auto simp: push_inv asm_inv_clear)

text \<open>The assemblers that a sequence of \<^verbatim>\<open>push\<close> and \<^verbatim>\<open>clear\<close> calls can lead to.\<close>

inductive asm_reach :: "(str \<Rightarrow> str) \<Rightarrow> assembler \<Rightarrow> bool" for lower where
  new: "asm_reach lower (assembler_with_limits dups inflight ttl)"
| push: "asm_reach lower a \<Longrightarrow> push lower pos now a s = (a', r) \<Longrightarrow> asm_reach lower a'"
| clear: "asm_reach lower a \<Longrightarrow> asm_reach lower (assembler_clear a)"

inductive_cases asm_reach_cases: "asm_reach lower a"

lemma asm_reach_inv: "asm_reach lower a \<Longrightarrow> asm_inv lower a"
proof (induction rule: asm_reach.induct)
  case (push a pos now s a' r)
  then show ?case using push_inv [of lower a pos now s] by simp
qed (simp_all add: asm_inv_new asm_inv_clear)

section \<open>Properties of the assembler\<close>

definition sample_segment :: "str \<Rightarrow> nat \<Rightarrow> nat \<Rightarrow> bytes \<Rightarrow> qbt_segment" where
  "sample_segment name block blocks content =
     \<lparr>seg_filename = name, seg_block_number = word_of_nat block, seg_total_blocks = word_of_nat blocks,
      seg_content = content, seg_checksum = 0, seg_length = length content, seg_version = V2,
      seg_timestamp_utc = 5, seg_source = None\<rparr>"

text \<open>C6: every assembler that pushes and clears lead to keeps its bounds (inflight files, recently
  completed keys), its duplicate index equal to the queue it indexes, no completed file in
  the inflight table, and in every inflight file parts in block order that belong to it.\<close>

theorem assembler_invariant:
  "asm_reach lower a \<Longrightarrow>
     length (by_key a) \<le> max_inflight_files a \<and> distinct (map fst (by_key a)) \<and>
     length (completed_recent a) \<le> duplicate_cache_size a \<and> distinct (completed_recent a) \<and>
     set (completed_recent a) = completed_index a \<and> fst ` set (by_key a) \<inter> completed_index a = {} \<and>
     list_all (inflight_ok lower) (by_key a)"
  by (drule asm_reach_inv) (simp add: asm_inv_def list_all_iff)

theorem assembler_invariant_witness:
  "let a = fst (push to_ascii_lowercase (\<lambda>k. 0) 7 (assembler_new 4) (sample_segment ''A.TXT'' 1 2 [1])) in
     length (by_key a) \<le> max_inflight_files a \<and> list_all (inflight_ok to_ascii_lowercase) (by_key a)"
proof -
  have "asm_reach to_ascii_lowercase
      (fst (push to_ascii_lowercase (\<lambda>k. 0) 7 (assembler_new 4) (sample_segment ''A.TXT'' 1 2 [1])))"
    by (rule asm_reach.push [OF asm_reach.new, of to_ascii_lowercase "\<lambda>k. 0" 7])
      (simp add: assembler_new_def prod_eq_iff)
  from assembler_invariant [OF this] show ?thesis unfolding Let_def by blast
qed

text \<open>C7: for products on the air that fit the limits, in whatever order and interleaving their
  blocks arrive and however often blocks are repeated, the assembler delivers what the reference
  delivers: each product once, at the arrival of its last missing block, with its blocks
  concatenated in block order.\<close>

theorem assembler_refines_reference:
  assumes "finite P" "\<forall>ss \<in> P. product_ok ss" "inj_on (product_key lower) P"
    and "card P \<le> max inflight 1" "card P \<le> max dups 1"
    and "\<forall>(now, ss, i) \<in> set arrivals. ss \<in> P \<and> i < length ss \<and> t0 \<le> now \<and> now \<le> t0 + max ttl 1000000"
  shows "snd (push_run lower pos (assembler_with_limits dups inflight ttl) arrivals) =
     reference_run {} arrivals"
proof (rule tracks_run)
  show "on_air lower P (assembler_with_limits dups inflight ttl)"
    using assms by (simp add: on_air_def assembler_with_limits_def)
  show "tracks lower P t0 (assembler_with_limits dups inflight ttl) {}"
    using assms(2) by (auto simp: tracks_start product_ok_def)
qed (use assms(6) in \<open>simp add: assembler_with_limits_def\<close>)

theorem assembler_refines_reference_witness:
  "snd (push_run to_ascii_lowercase (\<lambda>k. 0) (assembler_with_limits 4 4 90000000000)
     [(1, [sample_segment ''A.TXT'' 1 2 [1], sample_segment ''A.TXT'' 2 2 [2]], 1),
      (2, [sample_segment ''B.TXT'' 1 1 [9]], 0),
      (3, [sample_segment ''A.TXT'' 1 2 [1], sample_segment ''A.TXT'' 2 2 [2]], 0),
      (4, [sample_segment ''A.TXT'' 1 2 [1], sample_segment ''A.TXT'' 2 2 [2]], 0)]) =
   [None,
    Some \<lparr>cf_filename = ''B.TXT'', cf_data = [9], cf_timestamp_utc = 5\<rparr>,
    Some \<lparr>cf_filename = ''A.TXT'', cf_data = [1, 2], cf_timestamp_utc = 5\<rparr>,
    None]" (is "snd (push_run ?lower ?pos ?a ?arr) = ?out")
proof -
  let ?A = "[sample_segment ''A.TXT'' 1 2 [1], sample_segment ''A.TXT'' 2 2 [2]]"
  let ?B = "[sample_segment ''B.TXT'' 1 1 [9]]"
  have ok: "product_ok ?A" "product_ok ?B"
    by (auto simp: product_ok_def sample_segment_def is_fillfile_def eq_ignore_ascii_case_def
        to_ascii_lowercase_def to_lower_def is_upper_def Let_def less_Suc_eq)
  have key: "product_key ?lower ?A \<noteq> product_key ?lower ?B"
    by (simp add: product_key_def file_key_def sample_segment_def to_ascii_lowercase_def to_lower_def is_upper_def Let_def)
  have ne: "?A \<noteq> ?B" by simp
  have "snd (push_run ?lower ?pos ?a ?arr) = reference_run {} ?arr"
    by (rule assembler_refines_reference [where P = "{?A, ?B}" and ?t0.0 = 0]) (use ok key in \<open>auto simp: inj_on_def\<close>)
  also have "\<dots> = ?out"
    by (auto simp: arrival_result_def seen_blocks_def product_file_def sample_segment_def lessThan_Suc numeral_2_eq_2)
  finally show ?thesis .
qed

text \<open>
  The key of a file does not cover the number of blocks, and completion only compares
  the number of stored parts with the total of the last segment: after blocks 1 and 3 of a
  three-block announcement, a segment of a two-block announcement of the same name and time
  delivers blocks 1 and 3 as a complete file.
\<close>

lemma assembler_total_change:
  "let s1 = sample_segment ''A.TXT'' 1 3 [1]; s3 = sample_segment ''A.TXT'' 3 3 [3];
       s1' = sample_segment ''A.TXT'' 1 2 [7];
       a1 = fst (push to_ascii_lowercase (\<lambda>k. 0) 1 (assembler_new 4) s1);
       a2 = fst (push to_ascii_lowercase (\<lambda>k. 0) 2 a1 s3)
   in snd (push to_ascii_lowercase (\<lambda>k. 0) 3 a2 s1') =
      Some \<lparr>cf_filename = ''A.TXT'', cf_data = [7, 3], cf_timestamp_utc = 5\<rparr>"
  by (simp add: push_def sample_segment_def assembler_new_def assembler_with_limits_def is_fillfile_def
      eq_ignore_ascii_case_def to_ascii_lowercase_def to_lower_def is_upper_def valid_numbering_def
      evict_stale_inflight_def evict_overflow_inflight_def evict_overflow.simps file_key_def
      DEFAULT_MAX_INFLIGHT_FILES_def DEFAULT_INFLIGHT_TTL_SECS_def completed_of_def Let_def)

end
