(* ===== verification/Runtime_Support.thy ===== *)
theory Runtime_Support
  imports Emwin_Prelude
begin

text \<open>
  The runtime helpers that the QBT and Weather Wire receivers share
  (\<^verbatim>\<open>runtime_support.rs\<close>): the bounded event channel as the receivers use it, the backpressure
  tracker, the send that reports drops, and the start/stop life cycle of a receiver.
\<close>

section \<open>Bounded channel\<close>

text \<open>
  A \<^verbatim>\<open>tokio::sync::mpsc\<close> channel as seen by its sender: its capacity, the items in it, and
  whether the receiver is still there.
\<close>

record 'e channel =
  ch_capacity :: nat
  ch_queue :: "'e list"
  ch_open :: bool

datatype try_send_error = Full | Closed

definition channel_new :: "nat \<Rightarrow> 'e channel" where
  "channel_new cap = \<lparr>ch_capacity = cap, ch_queue = [], ch_open = True\<rparr>"

definition try_send :: "'e channel \<Rightarrow> 'e \<Rightarrow> 'e channel \<times> try_send_error option" where
  "try_send ch e =
     (if \<not> ch_open ch then (ch, Some Closed)
      else if length (ch_queue ch) \<ge> ch_capacity ch then (ch, Some Full)
      else (ch\<lparr>ch_queue := ch_queue ch @ [e]\<rparr>, None))"

definition recv :: "'e channel \<Rightarrow> 'e channel \<times> 'e option" where
  "recv ch = (case ch_queue ch of [] \<Rightarrow> (ch, None) | e # es \<Rightarrow> (ch\<lparr>ch_queue := es\<rparr>, Some e))"

definition close_receiver :: "'e channel \<Rightarrow> 'e channel" where
  "close_receiver ch = ch\<lparr>ch_queue := [], ch_open := False\<rparr>"

section \<open>Backpressure\<close>

record backpressure_tracker =
  event_queue_drop_total :: u64
  dropped_since_last_report :: u64

definition tracker_new :: backpressure_tracker where
  "tracker_new = \<lparr>event_queue_drop_total = 0, dropped_since_last_report = 0\<rparr>"

definition has_pending_report :: "backpressure_tracker \<Rightarrow> bool" where
  "has_pending_report t \<longleftrightarrow> dropped_since_last_report t > 0"

definition clear_pending_report :: "backpressure_tracker \<Rightarrow> backpressure_tracker" where
  "clear_pending_report t = t\<lparr>dropped_since_last_report := 0\<rparr>"

definition record_send_failure :: "backpressure_tracker \<Rightarrow> try_send_error \<Rightarrow> backpressure_tracker" where
  "record_send_failure t err =
     (case err of
        Full \<Rightarrow> t\<lparr>event_queue_drop_total := sat_add (event_queue_drop_total t) 1,
                 dropped_since_last_report := sat_add (dropped_since_last_report t) 1\<rparr>
      | Closed \<Rightarrow> t)"

text \<open>
  The callbacks of the caller act on a state \<open>s\<close> of its own: \<open>on_warning_sent\<close> and \<open>on_drop\<close>
  return it updated.
\<close>

definition send_pending_warning ::
  "'e channel \<Rightarrow> backpressure_tracker \<Rightarrow> (backpressure_tracker \<Rightarrow> 'e) \<Rightarrow> ('s \<Rightarrow> 's) \<Rightarrow>
     (backpressure_tracker \<Rightarrow> 's \<Rightarrow> 's) \<Rightarrow> 's \<Rightarrow> 'e channel \<times> backpressure_tracker \<times> 's" where
  "send_pending_warning ch t build_warning on_warning_sent on_drop s =
     (if has_pending_report t
      then case try_send ch (build_warning t) of
          (ch', None) \<Rightarrow> (ch', clear_pending_report t, on_warning_sent s)
        | (ch', Some err) \<Rightarrow> (let t' = record_send_failure t err in (ch', t', on_drop t' s))
      else (ch, t, s))"

definition try_send_with_backpressure_warning ::
  "'e channel \<Rightarrow> 'e \<Rightarrow> backpressure_tracker \<Rightarrow> (backpressure_tracker \<Rightarrow> 'e) \<Rightarrow> ('s \<Rightarrow> 's) \<Rightarrow>
     (backpressure_tracker \<Rightarrow> 's \<Rightarrow> 's) \<Rightarrow> 's \<Rightarrow> 'e channel \<times> backpressure_tracker \<times> 's" where
  "try_send_with_backpressure_warning ch event t build_warning on_warning_sent on_drop s =
     (let (ch1, t1, s1) = send_pending_warning ch t build_warning on_warning_sent on_drop s in
      case try_send ch1 event of
        (ch2, None) \<Rightarrow> (ch2, t1, s1)
      | (ch2, Some err) \<Rightarrow> (let t2 = record_send_failure t1 err in (ch2, t2, on_drop t2 s1)))"

section \<open>Receiver life cycle\<close>

text \<open>
  \<^verbatim>\<open>ReceiverRuntime\<close>: \<open>'r\<close> stands for the receiving end of the event channel and \<open>'h\<close> for the handle
  of the background task; \<open>rt_shutdown_tx\<close> is the shutdown sender with the value it last sent.
\<close>

record ('r, 'h) receiver_runtime =
  rt_running :: bool
  rt_event_rx :: "'r option"
  rt_shutdown_tx :: "bool option"
  rt_join_handle :: "'h option"

definition runtime_default :: "('r, 'h) receiver_runtime" where
  "runtime_default =
     \<lparr>rt_running = False, rt_event_rx = None, rt_shutdown_tx = None, rt_join_handle = None\<rparr>"

definition runtime_install :: "('r, 'h) receiver_runtime \<Rightarrow> 'r \<Rightarrow> 'h \<Rightarrow> ('r, 'h) receiver_runtime" where
  "runtime_install rt rx handle =
     rt\<lparr>rt_event_rx := Some rx, rt_shutdown_tx := Some False, rt_join_handle := Some handle, rt_running := True\<rparr>"

text \<open>
  What \<^verbatim>\<open>stop\<close> does to the task: it sends \<^verbatim>\<open>true\<close> on the shutdown channel, waits, and aborts a task
  that does not end in time.  \<open>in_time\<close> tells whether the task ended before the timeout.
\<close>

datatype 'h stop_effect = Signalled | Joined 'h | Aborted 'h

definition runtime_stop :: "('r, 'h) receiver_runtime \<Rightarrow> ('h \<Rightarrow> bool) \<Rightarrow>
    ('r, 'h) receiver_runtime \<times> 'h stop_effect list \<times> bool" where
  "runtime_stop rt in_time =
     (if \<not> rt_running rt then (rt, [], False)
      else
        let sent = (case rt_shutdown_tx rt of Some _ \<Rightarrow> [Signalled] | None \<Rightarrow> []);
            (joined, timed_out) =
              (case rt_join_handle rt of
                 None \<Rightarrow> ([], False)
               | Some h \<Rightarrow> if in_time h then ([Joined h], False) else ([Aborted h], True))
        in (rt\<lparr>rt_join_handle := None, rt_running := False, rt_shutdown_tx := None\<rparr>,
            sent @ joined, timed_out))"

definition runtime_take_events :: "('r, 'h) receiver_runtime \<Rightarrow> 'x \<Rightarrow> ('r, 'h) receiver_runtime \<times> ('x + 'r)" where
  "runtime_take_events rt already_taken_error =
     (case rt_event_rx rt of
        None \<Rightarrow> (rt, Inl already_taken_error)
      | Some rx \<Rightarrow> (rt\<lparr>rt_event_rx := None\<rparr>, Inr rx))"

section \<open>Queue and life-cycle lemmas\<close>

definition channel_ok :: "'e channel \<Rightarrow> bool" where
  "channel_ok ch \<longleftrightarrow> length (ch_queue ch) \<le> ch_capacity ch"

lemma try_send_ok: "channel_ok ch \<Longrightarrow> channel_ok (fst (try_send ch e))"
  by (auto simp: try_send_def channel_ok_def)

lemma try_send_queue:
  "ch_queue (fst (try_send ch e)) = ch_queue ch @ (if snd (try_send ch e) = None then [e] else [])"
  by (simp add: try_send_def)

lemma try_send_frame [simp]:
  "ch_capacity (fst (try_send ch e)) = ch_capacity ch" "ch_open (fst (try_send ch e)) = ch_open ch"
  by (simp_all add: try_send_def)

lemma try_send_room:
  "ch_open ch \<Longrightarrow> length (ch_queue ch) < ch_capacity ch \<Longrightarrow>
     try_send ch e = (ch\<lparr>ch_queue := ch_queue ch @ [e]\<rparr>, None)"
  by (simp add: try_send_def)

text \<open>A receiver that runs has its task and its shutdown channel.\<close>

definition runtime_ok :: "('r, 'h) receiver_runtime \<Rightarrow> bool" where
  "runtime_ok rt \<longleftrightarrow>
     (rt_running rt \<longleftrightarrow> rt_join_handle rt \<noteq> None) \<and> (rt_running rt \<longleftrightarrow> rt_shutdown_tx rt \<noteq> None)"

lemma runtime_ok_default: "runtime_ok runtime_default"
  by (simp add: runtime_ok_def runtime_default_def)

lemma runtime_ok_install: "runtime_ok (runtime_install rt rx h)"
  by (simp add: runtime_ok_def runtime_install_def)

lemma runtime_ok_stop: "runtime_ok rt \<Longrightarrow> runtime_ok (fst (runtime_stop rt in_time))"
  by (auto simp: runtime_ok_def runtime_stop_def Let_def split: option.split)

lemma runtime_ok_take: "runtime_ok rt \<Longrightarrow> runtime_ok (fst (runtime_take_events rt e))"
  by (auto simp: runtime_ok_def runtime_take_events_def split: option.split)

section \<open>Accounting of drops\<close>

text \<open>
  A sender that reports its drops: \<open>build\<close> makes the warning from the tracker, \<open>amount\<close> reads the
  reported number of drops off an event (zero for other events).
\<close>

record 'e flow =
  fl_channel :: "'e channel"
  fl_tracker :: backpressure_tracker
  fl_received :: "'e list"
  fl_attempts :: nat

definition send_event :: "(backpressure_tracker \<Rightarrow> 'e) \<Rightarrow> 'e flow \<Rightarrow> 'e \<Rightarrow> 'e flow" where
  "send_event build f e =
     (case try_send_with_backpressure_warning (fl_channel f) e (fl_tracker f) build id (\<lambda>t s. s) () of
        (ch, t, _) \<Rightarrow>
          f\<lparr>fl_channel := ch, fl_tracker := t,
            fl_attempts := fl_attempts f + (if has_pending_report (fl_tracker f) then 2 else 1)\<rparr>)"

definition receive_event :: "'e flow \<Rightarrow> 'e flow" where
  "receive_event f =
     (case recv (fl_channel f) of
        (ch, None) \<Rightarrow> f
      | (ch, Some e) \<Rightarrow> f\<lparr>fl_channel := ch, fl_received := fl_received f @ [e]\<rparr>)"

definition flow_new :: "nat \<Rightarrow> 'e flow" where
  "flow_new cap = \<lparr>fl_channel = channel_new cap, fl_tracker = tracker_new, fl_received = [], fl_attempts = 0\<rparr>"

text \<open>Sends and receives in any interleaving, while the receiver is there; each send reports
  with one of the \<open>builders\<close>, and the runtime itself never sends a report.\<close>

inductive flow_step :: "(backpressure_tracker \<Rightarrow> 'e) set \<Rightarrow> ('e \<Rightarrow> nat) \<Rightarrow> 'e flow \<Rightarrow> 'e flow \<Rightarrow> bool"
  for builders amount where
  step_send: "build \<in> builders \<Longrightarrow> amount e = 0 \<Longrightarrow> flow_step builders amount f (send_event build f e)"
| step_receive: "flow_step builders amount f (receive_event f)"

inductive_cases flow_step_cases: "flow_step builders amount f f'"

inductive flow_reach :: "(backpressure_tracker \<Rightarrow> 'e) set \<Rightarrow> ('e \<Rightarrow> nat) \<Rightarrow> nat \<Rightarrow> 'e flow \<Rightarrow> bool"
  for builders amount cap where
  reach_new: "flow_reach builders amount cap (flow_new cap)"
| reach_step: "flow_reach builders amount cap f \<Longrightarrow> flow_step builders amount f f' \<Longrightarrow> flow_reach builders amount cap f'"

definition balanced :: "('e \<Rightarrow> nat) \<Rightarrow> 'e channel \<Rightarrow> backpressure_tracker \<Rightarrow> 'e list \<Rightarrow> nat \<Rightarrow> bool" where
  "balanced amount ch t received attempts \<longleftrightarrow>
     ch_open ch \<and> channel_ok ch \<and> dropped_since_last_report t \<le> event_queue_drop_total t \<and>
     (unat (event_queue_drop_total t) < 2 ^ 64 - 1 \<longrightarrow>
        sum_list (map amount (received @ ch_queue ch)) + unat (dropped_since_last_report t) =
          unat (event_queue_drop_total t) \<and>
        length (received @ ch_queue ch) + unat (event_queue_drop_total t) = attempts)"

definition accounted :: "('e \<Rightarrow> nat) \<Rightarrow> 'e flow \<Rightarrow> bool" where
  "accounted amount f \<longleftrightarrow> balanced amount (fl_channel f) (fl_tracker f) (fl_received f) (fl_attempts f)"

locale drop_reporter =
  fixes builders :: "(backpressure_tracker \<Rightarrow> 'e) set"
    and amount :: "'e \<Rightarrow> nat"
  assumes amount_build: "build \<in> builders \<Longrightarrow> amount (build t) = unat (dropped_since_last_report t)"
begin

lemma balanced_full:
  assumes "balanced amount ch t rec n"
  shows "balanced amount ch (record_send_failure t Full) rec (Suc n)"
proof -
  let ?T = "event_queue_drop_total t" and ?D = "dropped_since_last_report t"
  have le: "unat ?D \<le> unat ?T" using assms by (simp add: balanced_def word_le_nat_alt)
  have T: "unat (sat_add ?T 1) = min (Suc (unat ?T)) (2 ^ 64 - 1)"
    and D: "unat (sat_add ?D 1) = min (Suc (unat ?D)) (2 ^ 64 - 1)"
    by (simp_all add: unat_sat_add_1)
  then have "sat_add ?D 1 \<le> sat_add ?T 1" using le by (simp add: word_le_nat_alt)
  moreover have "unat ?T < 2 ^ 64 - 1 \<and> unat (sat_add ?T 1) = Suc (unat ?T) \<and> unat (sat_add ?D 1) = Suc (unat ?D)"
    if "unat (sat_add ?T 1) < 2 ^ 64 - 1" using that T D le by simp
  ultimately show ?thesis using assms by (auto simp: balanced_def record_send_failure_def)
qed

lemma balanced_attempt:
  assumes "balanced amount ch t rec n" "try_send ch e = (ch', r)"
    and "r = None \<Longrightarrow> t' = t \<and> amount e = 0 \<or> t' = clear_pending_report t \<and> build \<in> builders \<and> e = build t"
    and "\<And>err. r = Some err \<Longrightarrow> t' = record_send_failure t err"
  shows "balanced amount ch' t' rec (Suc n)"
proof (cases r)
  case None
  have "ch' = ch\<lparr>ch_queue := ch_queue ch @ [e]\<rparr>" "length (ch_queue ch) < ch_capacity ch"
    using assms(2) None by (auto simp: try_send_def split: if_splits)
  moreover have "build \<in> builders \<Longrightarrow> amount (build t) = unat (dropped_since_last_report t)"
    by (rule amount_build)
  ultimately show ?thesis
    using assms(1,3) None by (auto simp: balanced_def channel_ok_def clear_pending_report_def)
next
  case (Some err)
  have "ch' = ch" "err = Full" using assms(1,2) Some by (auto simp: try_send_def balanced_def split: if_splits)
  with Some assms(1,4) balanced_full show ?thesis by auto
qed

lemma accounted_send:
  assumes "accounted amount f" "build \<in> builders" "amount e = 0"
  shows "accounted amount (send_event build f e)"
proof -
  define ch t rec n where "ch = fl_channel f" "t = fl_tracker f" "rec = fl_received f" "n = fl_attempts f"
  note d = this
  have b: "balanced amount ch t rec n" using assms(1) by (simp add: accounted_def d)
  obtain ch1 t1 s1 where p: "send_pending_warning ch t build id (\<lambda>t s. s) () = (ch1, t1, s1)"
    by (cases "send_pending_warning ch t build id (\<lambda>t s. s) ()") auto
  have b1: "balanced amount ch1 t1 rec (if has_pending_report t then Suc n else n)"
  proof (cases "has_pending_report t")
    case True
    then show ?thesis
      using p assms(2) balanced_attempt [OF b, of "build t" _ _ _ build]
      by (auto simp: send_pending_warning_def Let_def split: prod.splits option.splits)
  next
    case False
    then show ?thesis using p b by (simp add: send_pending_warning_def)
  qed
  obtain ch2 r where s: "try_send ch1 e = (ch2, r)" by (cases "try_send ch1 e") auto
  let ?t2 = "case r of None \<Rightarrow> t1 | Some err \<Rightarrow> record_send_failure t1 err"
  have "balanced amount ch2 ?t2 rec (Suc (if has_pending_report t then Suc n else n))"
    using balanced_attempt [OF b1 s, of ?t2 build] assms(3) by (auto split: option.splits)
  moreover have "send_event build f e = f\<lparr>fl_channel := ch2, fl_tracker := ?t2,
      fl_attempts := fl_attempts f + (if has_pending_report (fl_tracker f) then 2 else 1)\<rparr>"
    using p s by (auto simp: send_event_def try_send_with_backpressure_warning_def d Let_def split: option.splits)
  ultimately show ?thesis by (auto simp: accounted_def d split: if_splits)
qed

lemma accounted_receive: "accounted amount f \<Longrightarrow> accounted amount (receive_event f)"
  by (auto simp: receive_event_def recv_def accounted_def balanced_def channel_ok_def split: list.splits)

lemma flow_reach_accounted: "flow_reach builders amount cap f \<Longrightarrow> accounted amount f"
proof (induction rule: flow_reach.induct)
  case reach_new
  then show ?case
    by (simp add: accounted_def balanced_def channel_ok_def channel_new_def tracker_new_def flow_new_def)
next
  case (reach_step f f')
  from reach_step(2,3) show ?case
    by (auto elim!: flow_step_cases intro: accounted_send accounted_receive)
qed

end

end
