(* ===== verification/Qbt_Client.thy ===== *)
theory Qbt_Client
  imports Qbt_Stream Runtime_Support
    "HOL-Library.Char_ord" "HOL-Library.List_Lexorder" "HOL-Library.Product_Lexorder"
begin

text \<open>
  The QBT receiver client (\<^verbatim>\<open>qbt_receiver/config.rs\<close>, \<^verbatim>\<open>error.rs\<close> and \<^verbatim>\<open>client/\<close>): configuration
  checks, the health watchdog, the server-list manager with its round robin, the telemetry
  counters, the dispatch of decoded events, the session with one server, and the connection
  loop around it.  The two asynchronous loops are step functions: a \<^verbatim>\<open>select!\<close> branch or an
  awaited result is one input.  The file system with the JSON codec, the registered
  handlers and the clock are parameters or parts of the inputs.
\<close>

section \<open>Errors and configuration\<close>

datatype qbt_receiver_config_error = EmptyEmail | NoServers | ZeroWriteTimeout

datatype qbt_receiver_error =
    Config qbt_receiver_config_error
  | Protocol qbt_protocol_error
  | Io str
  | WriteTimeout
  | ShutdownTimeout
  | Lifecycle str

fun show_config_error :: "qbt_receiver_config_error \<Rightarrow> str" where
  "show_config_error EmptyEmail = ''email must not be empty''"
| "show_config_error NoServers = ''at least one server is required''"
| "show_config_error ZeroWriteTimeout = ''write_timeout_secs must be >= 1''"

fun show_receiver_error :: "qbt_receiver_error \<Rightarrow> str" where
  "show_receiver_error (Config e) = ''invalid config: '' @ show_config_error e"
| "show_receiver_error (Protocol e) = ''protocol error: '' @ show_protocol_error e"
| "show_receiver_error (Io e) = ''io error: '' @ e"
| "show_receiver_error WriteTimeout = ''socket write timeout''"
| "show_receiver_error ShutdownTimeout = ''client shutdown timeout''"
| "show_receiver_error (Lifecycle m) = ''client lifecycle error: '' @ m"

record qbt_receiver_config =
  rc_email :: str
  rc_servers :: "(str \<times> u16) list"
  rc_server_list_path :: "str option"
  rc_follow_server_list_updates :: bool
  rc_reconnect_delay_secs :: u64
  rc_connection_timeout_secs :: u64
  rc_write_timeout_secs :: u64
  rc_watchdog_timeout_secs :: u64
  rc_max_exceptions :: u32
  rc_decode :: qbt_decode_config

definition default_qbt_upstream_servers :: "(str \<times> u16) list" where
  "default_qbt_upstream_servers =
     [(''emwin.weathermessage.com'', 2211), (''master.weathermessage.com'', 2211),
      (''emwin.interweather.net'', 1000), (''wxmesg.upstateweather.com'', 2211)]"

definition validate_receiver_config :: "qbt_receiver_config \<Rightarrow> qbt_receiver_config_error + unit" where
  "validate_receiver_config cfg =
     (if trim (rc_email cfg) = [] then Inl EmptyEmail
      else if rc_servers cfg = [] then Inl NoServers
      else if rc_write_timeout_secs cfg = 0 then Inl ZeroWriteTimeout
      else Inr ())"

section \<open>Watchdog\<close>

record watchdog =
  wd_timeout :: duration
  wd_max_exceptions :: u32
  wd_exception_count :: u32
  wd_last_data :: instant

definition watchdog_new :: "u64 \<Rightarrow> u32 \<Rightarrow> instant \<Rightarrow> watchdog" where
  "watchdog_new timeout_secs max_exc now =
     \<lparr>wd_timeout = unat (max timeout_secs 1) * 1000000000, wd_max_exceptions = max_exc,
      wd_exception_count = 0, wd_last_data = now\<rparr>"

definition should_close_at :: "watchdog \<Rightarrow> instant \<Rightarrow> bool" where
  "should_close_at w now \<longleftrightarrow>
     (if wd_exception_count w > wd_max_exceptions w then True else now - wd_last_data w > wd_timeout w)"

definition on_data_received :: "watchdog \<Rightarrow> instant \<Rightarrow> watchdog" where
  "on_data_received w now = w\<lparr>wd_exception_count := 0, wd_last_data := now\<rparr>"

definition on_exception :: "watchdog \<Rightarrow> watchdog" where
  "on_exception w = w\<lparr>wd_exception_count := wd_exception_count w + 1\<rparr>"

section \<open>Server list\<close>

text \<open>
  \<open>read_persisted\<close> is the stored list (\<open>None\<close> when the file does not exist, \<open>Inl\<close> when it cannot be read
  or parsed), \<open>persist\<close> the outcome of the atomic save.
\<close>

record client_env =
  ce_decode :: decode_env
  ce_read_persisted :: "str \<Rightarrow> (qbt_receiver_error + (str \<times> u16) list) option"
  ce_persist :: "str \<Rightarrow> (str \<times> u16) list \<Rightarrow> qbt_receiver_error option"

record server_list_manager =
  sm_path :: "str option"
  sm_current :: "(str \<times> u16) list"
  sm_available :: "(str \<times> u16) list"

definition sort_dedup_endpoints :: "(str \<times> u16) list \<Rightarrow> (str \<times> u16) list" where
  "sort_dedup_endpoints endpoints = remdups_adj (sort endpoints)"

definition rebuild_available :: "server_list_manager \<Rightarrow> server_list_manager" where
  "rebuild_available m =
     (let eps = sort_dedup_endpoints (sm_current m)
      in m\<lparr>sm_current := eps, sm_available := eps\<rparr>)"

definition manager_new :: "str option \<Rightarrow> (str \<times> u16) list \<Rightarrow> server_list_manager" where
  "manager_new path default_servers =
     rebuild_available \<lparr>sm_path = path, sm_current = default_servers, sm_available = []\<rparr>"

definition manager_load :: "client_env \<Rightarrow> server_list_manager \<Rightarrow> server_list_manager \<times> (qbt_receiver_error + unit)" where
  "manager_load env m =
     (case sm_path m of
        None \<Rightarrow> (m, Inr ())
      | Some path \<Rightarrow>
          (case ce_read_persisted env path of
             None \<Rightarrow> (m, Inr ())
           | Some (Inl err) \<Rightarrow> (m, Inl err)
           | Some (Inr eps) \<Rightarrow>
               (if eps \<noteq> [] then (rebuild_available (m\<lparr>sm_current := eps\<rparr>), Inr ()) else (m, Inr ()))))"

definition manager_save :: "client_env \<Rightarrow> server_list_manager \<Rightarrow> qbt_receiver_error + unit" where
  "manager_save env m =
     (case sm_path m of
        None \<Rightarrow> Inr ()
      | Some path \<Rightarrow> (case ce_persist env path (sm_current m) of None \<Rightarrow> Inr () | Some err \<Rightarrow> Inl err))"

definition apply_server_list :: "client_env \<Rightarrow> server_list_manager \<Rightarrow> qbt_server_list \<Rightarrow>
    server_list_manager \<times> (qbt_receiver_error + unit)" where
  "apply_server_list env m list =
     (if servers list = []
      then (m, Inl (Lifecycle ''server list update contained no valid endpoints''))
      else let m' = rebuild_available (m\<lparr>sm_current := servers list\<rparr>) in (m', manager_save env m'))"

definition next_endpoint :: "server_list_manager \<Rightarrow> server_list_manager \<times> (str \<times> u16) option" where
  "next_endpoint m =
     (case sm_available m of
        [] \<Rightarrow> (m, None)
      | ep # rest \<Rightarrow> (m\<lparr>sm_available := rest @ [ep]\<rparr>, Some ep))"

definition endpoint_count :: "server_list_manager \<Rightarrow> nat" where
  "endpoint_count m = length (sm_available m)"

section \<open>Telemetry and events\<close>

record qbt_telemetry =
  connection_attempts_total :: u64
  connection_success_total :: u64
  connection_fail_total :: u64
  disconnect_total :: u64
  watchdog_timeouts_total :: u64
  watchdog_exception_events_total :: u64
  auth_logon_sent_total :: u64
  bytes_in_total :: u64
  frame_events_total :: u64
  data_blocks_emitted_total :: u64
  active_servers :: nat
  server_list_updates_total :: u64
  checksum_mismatch_total :: u64
  decompression_failed_total :: u64
  decoder_recovery_events_total :: u64
  handler_failures_total :: u64
  backpressure_warning_emitted_total :: u64
  tel_event_queue_drop_total :: u64
  telemetry_events_emitted_total :: u64

definition telemetry_default :: qbt_telemetry where
  "telemetry_default =
     \<lparr>connection_attempts_total = 0, connection_success_total = 0, connection_fail_total = 0,
      disconnect_total = 0, watchdog_timeouts_total = 0, watchdog_exception_events_total = 0,
      auth_logon_sent_total = 0, bytes_in_total = 0, frame_events_total = 0,
      data_blocks_emitted_total = 0, active_servers = 0, server_list_updates_total = 0,
      checksum_mismatch_total = 0, decompression_failed_total = 0, decoder_recovery_events_total = 0,
      handler_failures_total = 0, backpressure_warning_emitted_total = 0,
      tel_event_queue_drop_total = 0, telemetry_events_emitted_total = 0\<rparr>"

datatype qbt_receiver_event =
    Frame qbt_frame_event
  | Connected str
  | Disconnected
  | Telemetry qbt_telemetry

type_synonym event_item = "qbt_receiver_error + qbt_receiver_event"

type_synonym event_handler = "qbt_frame_event \<Rightarrow> qbt_receiver_error option"

text \<open>What the runtime of one receiver shares: the event channel, the endpoints, the counters with
  the backpressure tracker, and the published snapshot.\<close>

record client_ctx =
  cx_channel :: "event_item channel"
  cx_servers :: server_list_manager
  cx_telemetry :: qbt_telemetry
  cx_backpressure :: backpressure_tracker
  cx_sink :: qbt_telemetry

definition EVENT_CHANNEL_CAPACITY :: nat where
  "EVENT_CHANNEL_CAPACITY = 1024"

definition MAX_CONNECT_TIMEOUT_SECS :: u64 where
  "MAX_CONNECT_TIMEOUT_SECS = 5"

definition backpressure_warning :: "u64 \<Rightarrow> backpressure_tracker \<Rightarrow> event_item" where
  "backpressure_warning recoveries t =
     Inr (Frame (Warning (BackpressureDrop (dropped_since_last_report t) (event_queue_drop_total t) recoveries)))"

definition try_send_event :: "client_ctx \<Rightarrow> event_item \<Rightarrow> client_ctx" where
  "try_send_event cx event =
     (case try_send_with_backpressure_warning (cx_channel cx) event (cx_backpressure cx)
             (backpressure_warning (decoder_recovery_events_total (cx_telemetry cx)))
             (\<lambda>s. s\<lparr>backpressure_warning_emitted_total := sat_add (backpressure_warning_emitted_total s) 1\<rparr>)
             (\<lambda>t s. s\<lparr>tel_event_queue_drop_total := event_queue_drop_total t\<rparr>)
             (cx_telemetry cx) of
        (ch, t, tel) \<Rightarrow> cx\<lparr>cx_channel := ch, cx_backpressure := t, cx_telemetry := tel\<rparr>)"

definition update_telemetry_sink :: "client_ctx \<Rightarrow> client_ctx" where
  "update_telemetry_sink cx = cx\<lparr>cx_sink := cx_telemetry cx\<rparr>"

definition sync_active_servers :: "client_ctx \<Rightarrow> client_ctx" where
  "sync_active_servers cx =
     cx\<lparr>cx_telemetry := (cx_telemetry cx)\<lparr>active_servers := endpoint_count (cx_servers cx)\<rparr>\<rparr>"

text \<open>The counter update that the session inlines and \<^verbatim>\<open>emit_telemetry\<close> shares.\<close>

definition emit_telemetry :: "client_ctx \<Rightarrow> client_ctx" where
  "emit_telemetry cx =
     (let tel = (cx_telemetry cx)\<lparr>telemetry_events_emitted_total :=
                   sat_add (telemetry_events_emitted_total (cx_telemetry cx)) 1\<rparr>
      in update_telemetry_sink (try_send_event (cx\<lparr>cx_telemetry := tel\<rparr>) (Inr (Telemetry tel))))"

definition apply_server_list_update :: "client_env \<Rightarrow> client_ctx \<Rightarrow> qbt_server_list \<Rightarrow>
    client_ctx \<times> (qbt_receiver_error + unit)" where
  "apply_server_list_update env cx list =
     (case apply_server_list env (cx_servers cx) list of
        (m, Inl err) \<Rightarrow> (cx\<lparr>cx_servers := m\<rparr>, Inl err)
      | (m, Inr _) \<Rightarrow> (sync_active_servers (cx\<lparr>cx_servers := m\<rparr>), Inr ()))"

section \<open>Counting and dispatch\<close>

definition is_data_block :: "qbt_frame_event \<Rightarrow> bool" where
  "is_data_block ev \<longleftrightarrow> (case ev of DataBlock _ \<Rightarrow> True | _ \<Rightarrow> False)"

definition is_server_list_update :: "qbt_frame_event \<Rightarrow> bool" where
  "is_server_list_update ev \<longleftrightarrow> (case ev of ServerListUpdate _ \<Rightarrow> True | _ \<Rightarrow> False)"

definition is_decoder_recovery :: "qbt_frame_event \<Rightarrow> bool" where
  "is_decoder_recovery ev \<longleftrightarrow> (case ev of Warning (DecoderRecovered _) \<Rightarrow> True | _ \<Rightarrow> False)"

definition is_checksum_mismatch :: "qbt_frame_event \<Rightarrow> bool" where
  "is_checksum_mismatch ev \<longleftrightarrow> (case ev of Warning (ChecksumMismatch _ _) \<Rightarrow> True | _ \<Rightarrow> False)"

definition is_decompression_failure :: "qbt_frame_event \<Rightarrow> bool" where
  "is_decompression_failure ev \<longleftrightarrow> (case ev of Warning (DecompressionFailed _ _ _) \<Rightarrow> True | _ \<Rightarrow> False)"

definition count_data_blocks :: "qbt_frame_event list \<Rightarrow> nat" where
  "count_data_blocks events = length (filter is_data_block events)"

definition count_server_list_updates :: "qbt_frame_event list \<Rightarrow> nat" where
  "count_server_list_updates events = length (filter is_server_list_update events)"

definition count_decoder_recoveries :: "qbt_frame_event list \<Rightarrow> nat" where
  "count_decoder_recoveries events = length (filter is_decoder_recovery events)"

definition count_checksum_mismatches :: "qbt_frame_event list \<Rightarrow> nat" where
  "count_checksum_mismatches events = length (filter is_checksum_mismatch events)"

definition count_decompression_failures :: "qbt_frame_event list \<Rightarrow> nat" where
  "count_decompression_failures events = length (filter is_decompression_failure events)"

definition add_count :: "u64 \<Rightarrow> nat \<Rightarrow> u64" where
  "add_count c n = sat_add c (word_of_nat n)"

fun run_handlers :: "event_handler list \<Rightarrow> client_ctx \<Rightarrow> qbt_frame_event \<Rightarrow> client_ctx" where
  "run_handlers [] cx event = cx"
| "run_handlers (h # hs) cx event =
     (case h event of
        None \<Rightarrow> run_handlers hs cx event
      | Some err \<Rightarrow>
          (let tel = (cx_telemetry cx)\<lparr>handler_failures_total :=
                        sat_add (handler_failures_total (cx_telemetry cx)) 1\<rparr>
           in run_handlers hs
                (try_send_event (cx\<lparr>cx_telemetry := tel\<rparr>)
                   (Inr (Frame (Warning (HandlerError (show_receiver_error err)))))) event))"

fun dispatch_events :: "event_handler list \<Rightarrow> client_ctx \<Rightarrow> qbt_frame_event list \<Rightarrow> client_ctx" where
  "dispatch_events hs cx [] = cx"
| "dispatch_events hs cx (event # events) =
     dispatch_events hs (try_send_event (run_handlers hs cx event) (Inr (Frame event))) events"

section \<open>Session with one server\<close>

definition count_events :: "qbt_telemetry \<Rightarrow> qbt_frame_event list \<Rightarrow> qbt_telemetry" where
  "count_events t events =
     t\<lparr>decoder_recovery_events_total := add_count (decoder_recovery_events_total t) (count_decoder_recoveries events),
       frame_events_total := add_count (frame_events_total t) (length events),
       data_blocks_emitted_total := add_count (data_blocks_emitted_total t) (count_data_blocks events),
       server_list_updates_total := add_count (server_list_updates_total t) (count_server_list_updates events),
       checksum_mismatch_total := add_count (checksum_mismatch_total t) (count_checksum_mismatches events),
       decompression_failed_total := add_count (decompression_failed_total t) (count_decompression_failures events)\<rparr>"

fun follow_updates :: "client_env \<Rightarrow> bool \<Rightarrow> client_ctx \<Rightarrow> qbt_frame_event list \<Rightarrow> client_ctx" where
  "follow_updates env follow cx [] = cx"
| "follow_updates env follow cx (event # events) =
     follow_updates env follow
       (case event of
          ServerListUpdate list \<Rightarrow>
            (if follow
             then case apply_server_list_update env cx list of
                 (cx', Inl err) \<Rightarrow> try_send_event cx' (Inl err)
               | (cx', Inr _) \<Rightarrow> emit_telemetry cx'
             else cx)
        | _ \<Rightarrow> cx) events"

record session =
  ss_decoder :: decoder
  ss_watchdog :: watchdog
  ss_ctx :: client_ctx
  ss_written :: "bytes list"

text \<open>The branches of \<^verbatim>\<open>select!\<close> with their awaited results; \<open>Read_Elapsed\<close> is the one-second read
  timeout, and the instants are the values of \<^verbatim>\<open>Instant::now()\<close> in the watchdog.\<close>

datatype session_input =
    Shutdown_Changed
  | Auth_Tick "qbt_receiver_error option"
  | Telemetry_Tick
  | Read_Eof
  | Read_Data bytes instant
  | Read_Error str
  | Read_Elapsed instant

definition logon_bytes :: "str \<Rightarrow> bytes" where
  "logon_bytes email = xor_ff (bytes_of (build_logon_message email))"

text \<open>A logon write: on success the counter goes up and the snapshot is published.\<close>

definition send_logon :: "qbt_receiver_config \<Rightarrow> session \<Rightarrow> qbt_receiver_error option \<Rightarrow>
    session \<times> (qbt_receiver_error + unit) option" where
  "send_logon cfg s result =
     (case result of
        Some err \<Rightarrow> (s, Some (Inl err))
      | None \<Rightarrow>
          (let cx = ss_ctx s;
               tel = (cx_telemetry cx)\<lparr>auth_logon_sent_total := sat_add (auth_logon_sent_total (cx_telemetry cx)) 1\<rparr>
           in (s\<lparr>ss_written := ss_written s @ [logon_bytes (rc_email cfg)],
                 ss_ctx := update_telemetry_sink (cx\<lparr>cx_telemetry := tel\<rparr>)\<rparr>, None)))"

definition count_exception :: "client_ctx \<Rightarrow> client_ctx" where
  "count_exception cx =
     cx\<lparr>cx_telemetry := (cx_telemetry cx)\<lparr>watchdog_exception_events_total :=
          sat_add (watchdog_exception_events_total (cx_telemetry cx)) 1\<rparr>\<rparr>"

definition session_read :: "client_env \<Rightarrow> qbt_receiver_config \<Rightarrow> event_handler list \<Rightarrow> session \<Rightarrow>
    bytes \<Rightarrow> instant \<Rightarrow> session" where
  "session_read env cfg hs s chunk now =
     (let w = on_data_received (ss_watchdog s) now;
          tel0 = cx_telemetry (ss_ctx s);
          cx0 = (ss_ctx s)\<lparr>cx_telemetry := tel0\<lparr>bytes_in_total := add_count (bytes_in_total tel0) (length chunk)\<rparr>\<rparr>
      in case feed (ce_decode env) (ss_decoder s) chunk of
          (d, Inr events) \<Rightarrow>
            (let cx1 = cx0\<lparr>cx_telemetry := count_events (cx_telemetry cx0) events\<rparr>;
                 cx2 = follow_updates env (rc_follow_server_list_updates cfg) cx1 events;
                 cx3 = update_telemetry_sink (dispatch_events hs cx2 events)
             in s\<lparr>ss_decoder := d, ss_watchdog := w, ss_ctx := cx3\<rparr>)
        | (d, Inl err) \<Rightarrow>
            s\<lparr>ss_decoder := decoder_reset d, ss_watchdog := on_exception w,
              ss_ctx := update_telemetry_sink (try_send_event (count_exception cx0) (Inl (Protocol err)))\<rparr>)"

definition session_step :: "client_env \<Rightarrow> qbt_receiver_config \<Rightarrow> event_handler list \<Rightarrow> session \<Rightarrow> session_input \<Rightarrow>
    session \<times> (qbt_receiver_error + unit) option" where
  "session_step env cfg hs s i =
     (case i of
        Shutdown_Changed \<Rightarrow> (s, Some (Inr ()))
      | Auth_Tick result \<Rightarrow> send_logon cfg s result
      | Telemetry_Tick \<Rightarrow> (s\<lparr>ss_ctx := emit_telemetry (ss_ctx s)\<rparr>, None)
      | Read_Eof \<Rightarrow> (s, Some (Inr ()))
      | Read_Data chunk now \<Rightarrow> (session_read env cfg hs s chunk now, None)
      | Read_Error err \<Rightarrow>
          (s\<lparr>ss_watchdog := on_exception (ss_watchdog s),
             ss_ctx := update_telemetry_sink (count_exception (ss_ctx s))\<rparr>, Some (Inl (Io err)))
      | Read_Elapsed now \<Rightarrow>
          (if should_close_at (ss_watchdog s) now
           then (let cx = ss_ctx s;
                     tel = (cx_telemetry cx)\<lparr>watchdog_timeouts_total := sat_add (watchdog_timeouts_total (cx_telemetry cx)) 1\<rparr>
                 in (s\<lparr>ss_ctx := update_telemetry_sink (cx\<lparr>cx_telemetry := tel\<rparr>)\<rparr>,
                     Some (Inl (Lifecycle ''watchdog timeout''))))
           else (s, None)))"

text \<open>One round of the session loop: the shutdown flag is read before the \<^verbatim>\<open>select!\<close>.\<close>

definition session_round :: "client_env \<Rightarrow> qbt_receiver_config \<Rightarrow> event_handler list \<Rightarrow> session \<Rightarrow> bool \<Rightarrow> session_input \<Rightarrow>
    session \<times> (qbt_receiver_error + unit) option" where
  "session_round env cfg hs s shutdown i =
     (if shutdown then (s, Some (Inr ())) else session_step env cfg hs s i)"

definition session_start :: "qbt_receiver_config \<Rightarrow> client_ctx \<Rightarrow> instant \<Rightarrow> session" where
  "session_start cfg cx now =
     \<lparr>ss_decoder = decoder_new (rc_decode cfg),
      ss_watchdog = watchdog_new (rc_watchdog_timeout_secs cfg) (rc_max_exceptions cfg) now,
      ss_ctx = cx, ss_written = []\<rparr>"

section \<open>Connection loop\<close>

datatype conn_phase =
    Loop_Head
  | Connecting str u16 nat
  | Logging_In session nat
  | In_Session session nat
  | Pass_End nat
  | Sleeping
  | Stopped

record conn =
  cn_phase :: conn_phase
  cn_ctx :: client_ctx
  cn_attempts_in_pass :: nat

text \<open>Inputs of the loop: the value of the shutdown flag where it is read, the awaited results.\<close>

datatype conn_input =
    Flag bool
  | Connect_Result "str + instant"
  | Logon_Result "qbt_receiver_error option"
  | Session_Input bool session_input
  | Wake

definition completed_failed_pass :: "nat \<Rightarrow> nat \<Rightarrow> bool" where
  "completed_failed_pass attempts_in_pass count \<longleftrightarrow> count > 0 \<and> attempts_in_pass \<ge> count"

definition connect_timeout_secs :: "qbt_receiver_config \<Rightarrow> u64" where
  "connect_timeout_secs cfg = max 1 (min (rc_connection_timeout_secs cfg) MAX_CONNECT_TIMEOUT_SECS)"

definition reconnect_delay_secs :: "qbt_receiver_config \<Rightarrow> u64" where
  "reconnect_delay_secs cfg = max (rc_reconnect_delay_secs cfg) 1"

definition tel_update :: "(qbt_telemetry \<Rightarrow> qbt_telemetry) \<Rightarrow> client_ctx \<Rightarrow> client_ctx" where
  "tel_update f cx = cx\<lparr>cx_telemetry := f (cx_telemetry cx)\<rparr>"

definition conn_start :: "client_env \<Rightarrow> qbt_receiver_config \<Rightarrow> event_item channel \<Rightarrow> qbt_telemetry \<Rightarrow> conn" where
  "conn_start env cfg ch sink =
     (let m = manager_new (rc_server_list_path cfg) (rc_servers cfg);
          cx0 = \<lparr>cx_channel = ch, cx_servers = m, cx_telemetry = telemetry_default,
                 cx_backpressure = tracker_new, cx_sink = sink\<rparr>;
          cx1 = (if rc_follow_server_list_updates cfg
                 then case manager_load env m of
                     (m', Inl err) \<Rightarrow> try_send_event (cx0\<lparr>cx_servers := m'\<rparr>) (Inl err)
                   | (m', Inr _) \<Rightarrow> cx0\<lparr>cx_servers := m'\<rparr>
                 else cx0)
      in \<lparr>cn_phase = Loop_Head, cn_ctx = emit_telemetry (sync_active_servers cx1), cn_attempts_in_pass = 0\<rparr>)"

text \<open>After the session returned.\<close>

definition session_finished :: "conn \<Rightarrow> client_ctx \<Rightarrow> nat \<Rightarrow> (qbt_receiver_error + unit) \<Rightarrow> conn" where
  "session_finished c cx n outcome =
     (let cx1 = (case outcome of Inl err \<Rightarrow> try_send_event cx (Inl err) | Inr _ \<Rightarrow> cx);
          cx2 = tel_update (\<lambda>t. t\<lparr>disconnect_total := sat_add (disconnect_total t) 1\<rparr>) cx1;
          cx3 = update_telemetry_sink (try_send_event cx2 (Inr Disconnected))
      in c\<lparr>cn_ctx := cx3, cn_phase := Pass_End n\<rparr>)"

definition loop_head :: "conn \<Rightarrow> conn" where
  "loop_head c =
     (let cx = cn_ctx c; n = endpoint_count (cx_servers cx) in
      if n = 0
      then c\<lparr>cn_ctx := update_telemetry_sink (try_send_event cx (Inl (Lifecycle ''no servers configured''))),
             cn_phase := Sleeping\<rparr>
      else
        let cx1 = update_telemetry_sink
                    (tel_update (\<lambda>t. t\<lparr>connection_attempts_total := sat_add (connection_attempts_total t) 1\<rparr>) cx)
        in case next_endpoint (cx_servers cx1) of
            (m, Some (host, port)) \<Rightarrow>
              c\<lparr>cn_ctx := cx1\<lparr>cx_servers := m\<rparr>, cn_attempts_in_pass := cn_attempts_in_pass c + 1,
                cn_phase := Connecting host port n\<rparr>
          | (m, None) \<Rightarrow> c)"

definition connected :: "qbt_receiver_config \<Rightarrow> conn \<Rightarrow> str \<Rightarrow> u16 \<Rightarrow> nat \<Rightarrow> str + instant \<Rightarrow> conn" where
  "connected cfg c host port n result =
     (case result of
        Inr now \<Rightarrow>
          (let cx1 = tel_update (\<lambda>t. t\<lparr>connection_success_total := sat_add (connection_success_total t) 1\<rparr>) (cn_ctx c);
               cx2 = update_telemetry_sink (try_send_event cx1 (Inr (Connected (show_endpoint (host, port)))))
           in c\<lparr>cn_attempts_in_pass := 0, cn_ctx := cx2, cn_phase := Logging_In (session_start cfg cx2 now) n\<rparr>)
      | Inl err \<Rightarrow>
          (let cx1 = tel_update (\<lambda>t. t\<lparr>connection_fail_total := sat_add (connection_fail_total t) 1\<rparr>) (cn_ctx c)
           in c\<lparr>cn_ctx := update_telemetry_sink (try_send_event cx1 (Inl (Io err))), cn_phase := Pass_End n\<rparr>))"

definition conn_step :: "client_env \<Rightarrow> qbt_receiver_config \<Rightarrow> event_handler list \<Rightarrow> conn \<Rightarrow> conn_input \<Rightarrow> conn" where
  "conn_step env cfg hs c i =
     (case (cn_phase c, i) of
        (Loop_Head, Flag True) \<Rightarrow> c\<lparr>cn_ctx := update_telemetry_sink (cn_ctx c), cn_phase := Stopped\<rparr>
      | (Loop_Head, Flag False) \<Rightarrow> loop_head c
      | (Connecting host port n, Connect_Result r) \<Rightarrow> connected cfg c host port n r
      | (Logging_In s n, Logon_Result r) \<Rightarrow>
          (case send_logon cfg s r of
             (s', None) \<Rightarrow> c\<lparr>cn_phase := In_Session s' n\<rparr>
           | (s', Some outcome) \<Rightarrow> session_finished c (ss_ctx s') n outcome)
      | (In_Session s n, Session_Input shutdown si) \<Rightarrow>
          (case session_round env cfg hs s shutdown si of
             (s', None) \<Rightarrow> c\<lparr>cn_phase := In_Session s' n\<rparr>
           | (s', Some outcome) \<Rightarrow> session_finished c (ss_ctx s') n outcome)
      | (Pass_End n, Flag shutdown) \<Rightarrow>
          (if \<not> shutdown \<and> completed_failed_pass (cn_attempts_in_pass c) n
           then c\<lparr>cn_attempts_in_pass := 0, cn_phase := Sleeping\<rparr>
           else c\<lparr>cn_phase := Loop_Head\<rparr>)
      | (Sleeping, Wake) \<Rightarrow> c\<lparr>cn_phase := Loop_Head\<rparr>
      | _ \<Rightarrow> c)"

section \<open>The receiver object\<close>

record qbt_receiver =
  qr_config :: qbt_receiver_config
  qr_runtime :: "(event_item channel, conn) receiver_runtime"
  qr_handlers :: "event_handler list"
  qr_telemetry :: qbt_telemetry

definition receiver_build :: "qbt_receiver_config \<Rightarrow> qbt_receiver_error + qbt_receiver" where
  "receiver_build cfg =
     (case validate_receiver_config cfg of
        Inl e \<Rightarrow> Inl (Config e)
      | Inr _ \<Rightarrow> Inr \<lparr>qr_config = cfg, qr_runtime = runtime_default, qr_handlers = [],
                      qr_telemetry = telemetry_default\<rparr>)"

definition receiver_subscribe :: "qbt_receiver \<Rightarrow> event_handler \<Rightarrow> qbt_receiver" where
  "receiver_subscribe r h = r\<lparr>qr_handlers := qr_handlers r @ [h]\<rparr>"

definition receiver_start :: "client_env \<Rightarrow> qbt_receiver \<Rightarrow> qbt_receiver \<times> (qbt_receiver_error + unit)" where
  "receiver_start env r =
     (if rt_running (qr_runtime r) then (r, Inl (Lifecycle ''client already running''))
      else
        let ch = channel_new EVENT_CHANNEL_CAPACITY;
            task = conn_start env (qr_config r) ch (qr_telemetry r)
        in (r\<lparr>qr_runtime := runtime_install (qr_runtime r) ch task\<rparr>, Inr ()))"

definition receiver_stop :: "qbt_receiver \<Rightarrow> (conn \<Rightarrow> bool) \<Rightarrow> qbt_receiver \<times> (qbt_receiver_error + unit)" where
  "receiver_stop r in_time =
     (case runtime_stop (qr_runtime r) in_time of
        (rt, _, timed_out) \<Rightarrow>
          (r\<lparr>qr_runtime := rt\<rparr>, if timed_out then Inl ShutdownTimeout else Inr ()))"

definition receiver_events :: "qbt_receiver \<Rightarrow> qbt_receiver \<times> (qbt_receiver_error + event_item channel)" where
  "receiver_events r =
     (case runtime_take_events (qr_runtime r) (Lifecycle ''event stream already taken'') of
        (rt, res) \<Rightarrow> (r\<lparr>qr_runtime := rt\<rparr>, res))"

section \<open>Endpoints\<close>

lemma sort_dedup_set [simp]: "set (sort_dedup_endpoints eps) = set eps"
  by (simp add: sort_dedup_endpoints_def)

lemma distinct_remdups_adj: "sorted (xs :: 'a::linorder list) \<Longrightarrow> distinct (remdups_adj xs)"
  by (induction xs rule: remdups_adj.induct) (auto simp: antisym)

lemma sort_dedup_sorted: "sorted (sort_dedup_endpoints eps)" "distinct (sort_dedup_endpoints eps)"
  by (simp_all add: sort_dedup_endpoints_def sorted_remdups_adj distinct_remdups_adj)

lemma sort_dedup_nonempty [simp]: "sort_dedup_endpoints eps = [] \<longleftrightarrow> eps = []"
  by (metis set_empty sort_dedup_set)

definition manager_ok :: "server_list_manager \<Rightarrow> bool" where
  "manager_ok m \<longleftrightarrow>
     sorted (sm_current m) \<and> distinct (sm_current m) \<and> sm_current m \<noteq> [] \<and>
     (\<exists>k. sm_available m = rotate k (sm_current m))"

lemma manager_ok_rebuild: "sm_current m \<noteq> [] \<Longrightarrow> manager_ok (rebuild_available m)"
  by (auto simp: manager_ok_def rebuild_available_def Let_def sort_dedup_sorted intro: exI [of _ 0])

lemma manager_ok_new: "eps \<noteq> [] \<Longrightarrow> manager_ok (manager_new path eps)"
  by (simp add: manager_new_def manager_ok_rebuild)

lemma manager_ok_load: "manager_ok m \<Longrightarrow> manager_ok (fst (manager_load env m))"
  by (auto simp: manager_load_def manager_ok_rebuild split: option.split sum.split)

lemma manager_ok_apply: "manager_ok m \<Longrightarrow> manager_ok (fst (apply_server_list env m l))"
  by (simp add: apply_server_list_def Let_def manager_ok_rebuild)

lemma next_endpoint_rotate:
  "sm_available m \<noteq> [] \<Longrightarrow>
     next_endpoint m = (m\<lparr>sm_available := rotate1 (sm_available m)\<rparr>, Some (hd (sm_available m)))"
  by (cases "sm_available m") (simp_all add: next_endpoint_def)

lemma manager_ok_next: "manager_ok m \<Longrightarrow> manager_ok (fst (next_endpoint m))"
proof -
  assume m: "manager_ok m"
  then obtain k where k: "sm_available m = rotate k (sm_current m)" by (auto simp: manager_ok_def)
  moreover have "sm_available m \<noteq> []" using m k by (auto simp: manager_ok_def)
  ultimately have "next_endpoint m = (m\<lparr>sm_available := rotate (Suc k) (sm_current m)\<rparr>, Some (hd (sm_available m)))"
    by (simp add: next_endpoint_rotate rotate_Suc)
  with m show ?thesis unfolding manager_ok_def by (auto intro: exI [of _ "Suc k"])
qed

lemma manager_ok_count: "manager_ok m \<Longrightarrow> endpoint_count m = length (sm_current m) \<and> 0 < endpoint_count m"
  by (metis endpoint_count_def length_greater_0_conv length_rotate manager_ok_def)

section \<open>Frame lemmas of the event sender\<close>

lemma try_send_event_frame [simp]:
  "cx_servers (try_send_event cx e) = cx_servers cx" "cx_sink (try_send_event cx e) = cx_sink cx"
  by (simp_all add: try_send_event_def split: prod.split)

lemma send_pending_warning_tel:
  assumes "\<And>s. f (sent s) = f s" "\<And>t s. f (dropped t s) = f s"
  shows "f (snd (snd (send_pending_warning ch t build sent dropped s))) = f s"
  using assms by (simp add: send_pending_warning_def Let_def split: prod.split option.split)

lemma backpressure_send_tel:
  assumes "\<And>s. f (sent s) = f s" "\<And>t s. f (dropped t s) = f s"
  shows "f (snd (snd (try_send_with_backpressure_warning ch e t build sent dropped s))) = f s"
  using assms send_pending_warning_tel [of f sent dropped ch t build s]
  by (auto simp: try_send_with_backpressure_warning_def Let_def split_beta split: option.split)

lemma try_send_event_tel:
  assumes "\<And>s v. f (s\<lparr>backpressure_warning_emitted_total := v\<rparr>) = f s"
    and "\<And>s v. f (s\<lparr>tel_event_queue_drop_total := v\<rparr>) = f s"
  shows "f (cx_telemetry (try_send_event cx e)) = f (cx_telemetry cx)"
proof -
  let ?r = "try_send_with_backpressure_warning (cx_channel cx) e (cx_backpressure cx)
             (backpressure_warning (decoder_recovery_events_total (cx_telemetry cx)))
             (\<lambda>s. s\<lparr>backpressure_warning_emitted_total := sat_add (backpressure_warning_emitted_total s) 1\<rparr>)
             (\<lambda>t s. s\<lparr>tel_event_queue_drop_total := event_queue_drop_total t\<rparr>) (cx_telemetry cx)"
  have "f (snd (snd ?r)) = f (cx_telemetry cx)" using assms by (intro backpressure_send_tel)
  then show ?thesis by (simp add: try_send_event_def split_beta)
qed

lemma try_send_event_counters [simp]:
  "connection_attempts_total (cx_telemetry (try_send_event cx e)) = connection_attempts_total (cx_telemetry cx)"
  "connection_success_total (cx_telemetry (try_send_event cx e)) = connection_success_total (cx_telemetry cx)"
  "connection_fail_total (cx_telemetry (try_send_event cx e)) = connection_fail_total (cx_telemetry cx)"
  "disconnect_total (cx_telemetry (try_send_event cx e)) = disconnect_total (cx_telemetry cx)"
  "bytes_in_total (cx_telemetry (try_send_event cx e)) = bytes_in_total (cx_telemetry cx)"
  "frame_events_total (cx_telemetry (try_send_event cx e)) = frame_events_total (cx_telemetry cx)"
  "active_servers (cx_telemetry (try_send_event cx e)) = active_servers (cx_telemetry cx)"
  by (rule try_send_event_tel; simp)+

section \<open>Invariant of the shared context\<close>

definition ctx_ok :: "client_ctx \<Rightarrow> bool" where
  "ctx_ok cx \<longleftrightarrow>
     manager_ok (cx_servers cx) \<and> channel_ok (cx_channel cx) \<and>
     tel_event_queue_drop_total (cx_telemetry cx) = event_queue_drop_total (cx_backpressure cx)"

definition conn_counts :: "client_ctx \<Rightarrow> u64 \<times> u64 \<times> u64 \<times> u64" where
  "conn_counts cx =
     (connection_attempts_total (cx_telemetry cx), connection_success_total (cx_telemetry cx),
      connection_fail_total (cx_telemetry cx), disconnect_total (cx_telemetry cx))"

lemma conn_counts_send [simp]: "conn_counts (try_send_event cx e) = conn_counts cx"
  by (simp add: conn_counts_def)

lemma conn_counts_sink [simp]: "conn_counts (update_telemetry_sink cx) = conn_counts cx"
  by (simp add: conn_counts_def update_telemetry_sink_def)

lemma conn_counts_other [simp]:
  "conn_counts (cx\<lparr>cx_telemetry := (cx_telemetry cx)\<lparr>auth_logon_sent_total := v\<rparr>\<rparr>) = conn_counts cx"
  "conn_counts (cx\<lparr>cx_telemetry := (cx_telemetry cx)\<lparr>watchdog_timeouts_total := v\<rparr>\<rparr>) = conn_counts cx"
  "conn_counts (cx\<lparr>cx_telemetry := (cx_telemetry cx)\<lparr>watchdog_exception_events_total := v\<rparr>\<rparr>) = conn_counts cx"
  by (simp_all add: conn_counts_def)

lemma conn_counts_emit [simp]: "conn_counts (emit_telemetry cx) = conn_counts cx"
  by (simp add: emit_telemetry_def Let_def) (simp add: conn_counts_def)

lemma conn_counts_handlers [simp]: "conn_counts (run_handlers hs cx e) = conn_counts cx"
  by (induction hs cx e rule: run_handlers.induct)
    (auto simp: Let_def conn_counts_def split: option.split)

lemma conn_counts_dispatch [simp]: "conn_counts (dispatch_events hs cx es) = conn_counts cx"
  by (induction hs cx es rule: dispatch_events.induct) simp_all

lemma conn_counts_apply [simp]: "conn_counts (fst (apply_server_list_update env cx l)) = conn_counts cx"
  by (simp add: apply_server_list_update_def sync_active_servers_def conn_counts_def split: prod.split sum.split)

lemma conn_counts_follow [simp]: "conn_counts (follow_updates env follow cx es) = conn_counts cx"
proof (induction env follow cx es rule: follow_updates.induct)
  case (2 env follow cx e es)
  then show ?case
    using conn_counts_apply [of env cx]
    by (auto simp del: conn_counts_apply split: qbt_frame_event.split prod.split sum.split)
      (metis fst_conv conn_counts_apply)+
qed simp

lemma backpressure_send_ok:
  assumes "channel_ok ch" "g s = event_queue_drop_total t"
    and "\<And>s. g (sent s) = g s" "\<And>t s. g (dropped t s) = event_queue_drop_total t"
    and "try_send_with_backpressure_warning ch e t build sent dropped s = (ch', t', s')"
  shows "channel_ok ch' \<and> g s' = event_queue_drop_total t'"
proof -
  obtain ch1 t1 s1 where p: "send_pending_warning ch t build sent dropped s = (ch1, t1, s1)"
    by (cases "send_pending_warning ch t build sent dropped s") auto
  have 1: "channel_ok ch1 \<and> g s1 = event_queue_drop_total t1"
    using p assms(1-4) try_send_ok [OF assms(1), of "build t"]
    by (auto simp: send_pending_warning_def clear_pending_report_def Let_def
        split: if_splits prod.splits option.splits)
  then show ?thesis
    using p assms(3-5) try_send_ok [of ch1 e]
    by (auto simp: try_send_with_backpressure_warning_def Let_def split: prod.splits option.splits)
qed

lemma ctx_ok_send: "ctx_ok cx \<Longrightarrow> ctx_ok (try_send_event cx e)"
proof -
  assume ok: "ctx_ok cx"
  let ?r = "try_send_with_backpressure_warning (cx_channel cx) e (cx_backpressure cx)
             (backpressure_warning (decoder_recovery_events_total (cx_telemetry cx)))
             (\<lambda>s. s\<lparr>backpressure_warning_emitted_total := sat_add (backpressure_warning_emitted_total s) 1\<rparr>)
             (\<lambda>t s. s\<lparr>tel_event_queue_drop_total := event_queue_drop_total t\<rparr>) (cx_telemetry cx)"
  obtain ch t tel where r: "?r = (ch, t, tel)" by (cases ?r) auto
  have "channel_ok ch \<and> tel_event_queue_drop_total tel = event_queue_drop_total t"
    using ok by (intro backpressure_send_ok [OF _ _ _ _ r]) (simp_all add: ctx_ok_def)
  with ok r show ?thesis by (simp add: ctx_ok_def try_send_event_def)
qed

lemma ctx_ok_tel:
  "ctx_ok cx \<Longrightarrow> tel_event_queue_drop_total t = tel_event_queue_drop_total (cx_telemetry cx) \<Longrightarrow>
     ctx_ok (cx\<lparr>cx_telemetry := t\<rparr>)"
  by (simp add: ctx_ok_def)

lemma ctx_ok_sink: "ctx_ok cx \<Longrightarrow> ctx_ok (update_telemetry_sink cx)"
  by (simp add: ctx_ok_def update_telemetry_sink_def)

lemma ctx_ok_emit: "ctx_ok cx \<Longrightarrow> ctx_ok (emit_telemetry cx)"
  by (simp add: emit_telemetry_def Let_def ctx_ok_sink ctx_ok_send ctx_ok_tel)

lemma ctx_ok_handlers: "ctx_ok cx \<Longrightarrow> ctx_ok (run_handlers hs cx e)"
  by (induction hs cx e rule: run_handlers.induct)
    (simp_all add: Let_def ctx_ok_send ctx_ok_tel split: option.split)

lemma ctx_ok_dispatch: "ctx_ok cx \<Longrightarrow> ctx_ok (dispatch_events hs cx es)"
  by (induction hs cx es rule: dispatch_events.induct) (simp_all add: ctx_ok_send ctx_ok_handlers)

lemma ctx_ok_apply: "ctx_ok cx \<Longrightarrow> ctx_ok (fst (apply_server_list_update env cx l))"
  using manager_ok_apply [of "cx_servers cx" env l]
  by (auto simp: apply_server_list_update_def sync_active_servers_def ctx_ok_def split: prod.split sum.split)

lemma ctx_ok_follow: "ctx_ok cx \<Longrightarrow> ctx_ok (follow_updates env follow cx es)"
proof (induction env follow cx es rule: follow_updates.induct)
  case (2 env follow cx e es)
  have "ctx_ok (case e of
          ServerListUpdate list \<Rightarrow>
            (if follow
             then case apply_server_list_update env cx list of
                 (cx', Inl err) \<Rightarrow> try_send_event cx' (Inl err)
               | (cx', Inr _) \<Rightarrow> emit_telemetry cx'
             else cx)
        | _ \<Rightarrow> cx)"
    using 2(2) ctx_ok_apply [OF 2(2), of env]
    by (auto intro: ctx_ok_send ctx_ok_emit split: qbt_frame_event.split prod.split sum.split) (metis fst_conv ctx_ok_send ctx_ok_emit)+
  with 2(1) show ?case by simp
qed simp

lemma session_read_ok:
  assumes "ctx_ok (ss_ctx s)"
  shows "ctx_ok (ss_ctx (session_read env cfg hs s chunk now)) \<and>
    conn_counts (ss_ctx (session_read env cfg hs s chunk now)) = conn_counts (ss_ctx s)"
proof -
  obtain d events where f: "feed (ce_decode env) (ss_decoder s) chunk = (d, Inr events)"
    by (simp add: feed_eq_run map_prod_def split_beta)
  have "conn_counts (cx\<lparr>cx_telemetry := count_events (cx_telemetry cx\<lparr>bytes_in_total := b\<rparr>) events\<rparr>) = conn_counts cx" for cx b
    by (simp add: conn_counts_def count_events_def)
  moreover have "ctx_ok (cx\<lparr>cx_telemetry := count_events (cx_telemetry cx\<lparr>bytes_in_total := b\<rparr>) events\<rparr>)" if "ctx_ok cx" for cx b
    using that by (simp add: ctx_ok_def count_events_def)
  ultimately show ?thesis
    using assms by (simp add: session_read_def f Let_def ctx_ok_sink ctx_ok_dispatch ctx_ok_follow)
qed

section \<open>Invariant of the connection loop\<close>

definition live_ctx :: "conn \<Rightarrow> client_ctx" where
  "live_ctx c = (case cn_phase c of Logging_In s n \<Rightarrow> ss_ctx s | In_Session s n \<Rightarrow> ss_ctx s | _ \<Rightarrow> cn_ctx c)"

definition busy :: "conn_phase \<Rightarrow> nat" where
  "busy p = (case p of Connecting h pt n \<Rightarrow> 1 | _ \<Rightarrow> 0)"

definition in_session :: "conn_phase \<Rightarrow> nat" where
  "in_session p = (case p of Logging_In s n \<Rightarrow> 1 | In_Session s n \<Rightarrow> 1 | _ \<Rightarrow> 0)"

text \<open>As long as the attempt counter has not saturated, attempts split into successes,
  failures and the attempt under way, and successes into disconnects and the open session.\<close>

definition counts_ok :: "nat \<Rightarrow> nat \<Rightarrow> u64 \<times> u64 \<times> u64 \<times> u64 \<Rightarrow> bool" where
  "counts_ok b i counts =
     (case counts of (a, s, f, d) \<Rightarrow>
        unat a < 2 ^ 64 - 1 \<longrightarrow> unat a = unat s + unat f + b \<and> unat s = unat d + i)"

definition synced :: "client_ctx \<Rightarrow> bool" where
  "synced cx \<longleftrightarrow> cx_sink cx = cx_telemetry cx"

definition conn_inv :: "conn \<Rightarrow> bool" where
  "conn_inv c \<longleftrightarrow>
     ctx_ok (live_ctx c) \<and> synced (live_ctx c) \<and>
     counts_ok (busy (cn_phase c)) (in_session (cn_phase c)) (conn_counts (live_ctx c))"

lemma counts_attempt: "counts_ok 0 0 (a, s, f, d) \<Longrightarrow> counts_ok 1 0 (sat_add a 1, s, f, d)"
  using unat_sat_add_1 [of a] by (auto simp: counts_ok_def)

lemma counts_success: "counts_ok 1 0 (a, s, f, d) \<Longrightarrow> counts_ok 0 1 (a, sat_add s 1, f, d)"
  using unat_sat_add_1 [of s] by (auto simp: counts_ok_def)

lemma counts_failure: "counts_ok 1 0 (a, s, f, d) \<Longrightarrow> counts_ok 0 0 (a, s, sat_add f 1, d)"
  using unat_sat_add_1 [of f] by (auto simp: counts_ok_def)

lemma counts_disconnect: "counts_ok 0 1 (a, s, f, d) \<Longrightarrow> counts_ok 0 0 (a, s, f, sat_add d 1)"
  using unat_sat_add_1 [of d] by (auto simp: counts_ok_def)

lemma synced_sink [simp]: "synced (update_telemetry_sink cx)"
  by (simp add: synced_def update_telemetry_sink_def)

lemma synced_emit [simp]: "synced (emit_telemetry cx)"
  by (simp add: emit_telemetry_def Let_def)

definition session_good :: "session \<Rightarrow> bool" where
  "session_good s \<longleftrightarrow> ctx_ok (ss_ctx s) \<and> synced (ss_ctx s)"

lemma send_logon_good:
  assumes "session_good s" "send_logon cfg s r = (s', res)"
  shows "session_good s' \<and> conn_counts (ss_ctx s') = conn_counts (ss_ctx s)"
  using assms
  by (auto simp: send_logon_def session_good_def Let_def intro!: ctx_ok_sink ctx_ok_tel split: option.splits)

lemma session_step_good:
  assumes "session_good s" "session_step env cfg hs s i = (s', res)"
  shows "session_good s' \<and> conn_counts (ss_ctx s') = conn_counts (ss_ctx s)"
proof (cases i)
  case (Auth_Tick r)
  with assms send_logon_good show ?thesis by (simp add: session_step_def)
next
  case Telemetry_Tick
  with assms show ?thesis by (auto simp: session_step_def session_good_def intro: ctx_ok_emit)
next
  case (Read_Data chunk now)
  have "synced (ss_ctx (session_read env cfg hs s chunk now))"
    by (simp add: session_read_def Let_def feed_eq_run map_prod_def split_beta)
  with Read_Data assms session_read_ok [of s env cfg hs chunk now] show ?thesis
    by (auto simp: session_step_def session_good_def)
next
  case (Read_Error e)
  with assms show ?thesis
    by (auto simp: session_step_def session_good_def count_exception_def intro!: ctx_ok_sink ctx_ok_tel)
next
  case (Read_Elapsed now)
  with assms show ?thesis
    by (auto simp: session_step_def session_good_def Let_def intro!: ctx_ok_sink ctx_ok_tel split: if_splits)
qed (use assms in \<open>auto simp: session_step_def\<close>)

lemma session_round_good:
  assumes "session_good s" "session_round env cfg hs s sd i = (s', res)"
  shows "session_good s' \<and> conn_counts (ss_ctx s') = conn_counts (ss_ctx s)"
  using assms session_step_good by (auto simp: session_round_def split: if_splits)

lemma session_finished_inv:
  assumes "session_good s" "counts_ok 0 1 (conn_counts (ss_ctx s))"
  shows "conn_inv (session_finished c (ss_ctx s) n outcome)"
proof -
  let ?cx1 = "case outcome of Inl err \<Rightarrow> try_send_event (ss_ctx s) (Inl err) | Inr _ \<Rightarrow> ss_ctx s"
  have c1: "conn_counts ?cx1 = conn_counts (ss_ctx s)" and ok1: "ctx_ok ?cx1"
    using assms(1) by (auto simp: session_good_def ctx_ok_send split: sum.split)
  let ?cx2 = "tel_update (\<lambda>t. t\<lparr>disconnect_total := sat_add (disconnect_total t) 1\<rparr>) ?cx1"
  have "ctx_ok ?cx2" using ok1 unfolding tel_update_def by (rule ctx_ok_tel) simp
  moreover have "counts_ok 0 0 (conn_counts ?cx2)"
    using assms(2) c1 counts_disconnect by (auto simp: conn_counts_def tel_update_def)
  ultimately show ?thesis
    by (simp add: session_finished_def Let_def conn_inv_def live_ctx_def busy_def in_session_def
        ctx_ok_sink ctx_ok_send)
qed

lemma loop_head_inv:
  assumes "conn_inv c" "cn_phase c = Loop_Head"
  shows "conn_inv (loop_head c)"
proof -
  let ?cx = "cn_ctx c"
  have ok: "ctx_ok ?cx" and cnt: "counts_ok 0 0 (conn_counts ?cx)"
    using assms by (simp_all add: conn_inv_def live_ctx_def busy_def in_session_def)
  have n: "endpoint_count (cx_servers ?cx) \<noteq> 0"
    using ok manager_ok_count by (fastforce simp: ctx_ok_def)
  let ?cx1 = "update_telemetry_sink
     (tel_update (\<lambda>t. t\<lparr>connection_attempts_total := sat_add (connection_attempts_total t) 1\<rparr>) ?cx)"
  have sv: "cx_servers ?cx1 = cx_servers ?cx" by (simp add: update_telemetry_sink_def tel_update_def)
  obtain m host port where nx: "next_endpoint (cx_servers ?cx) = (m, Some (host, port))"
    using n next_endpoint_rotate [of "cx_servers ?cx"]
    by (cases "hd (sm_available (cx_servers ?cx))") (auto simp: endpoint_count_def)
  have "manager_ok m" using manager_ok_next [of "cx_servers ?cx"] ok nx by (simp add: ctx_ok_def)
  then have "ctx_ok (?cx1\<lparr>cx_servers := m\<rparr>)"
    using ok by (simp add: ctx_ok_def update_telemetry_sink_def tel_update_def)
  moreover have "counts_ok 1 0 (conn_counts (?cx1\<lparr>cx_servers := m\<rparr>))"
    using cnt counts_attempt by (simp add: conn_counts_def update_telemetry_sink_def tel_update_def)
  moreover have "synced (?cx1\<lparr>cx_servers := m\<rparr>)" by (simp add: synced_def update_telemetry_sink_def)
  ultimately show ?thesis
    using n nx sv by (simp add: loop_head_def Let_def conn_inv_def live_ctx_def busy_def in_session_def)
qed

lemma connected_inv:
  assumes "conn_inv c" "cn_phase c = Connecting host port n"
  shows "conn_inv (connected cfg c host port n r)"
proof -
  let ?cx = "cn_ctx c"
  have ok: "ctx_ok ?cx" and cnt: "counts_ok 1 0 (conn_counts ?cx)"
    using assms by (simp_all add: conn_inv_def live_ctx_def busy_def in_session_def)
  let ?s = "tel_update (\<lambda>t. t\<lparr>connection_success_total := sat_add (connection_success_total t) 1\<rparr>) ?cx"
  let ?f = "tel_update (\<lambda>t. t\<lparr>connection_fail_total := sat_add (connection_fail_total t) 1\<rparr>) ?cx"
  have "ctx_ok ?s" "ctx_ok ?f" using ok unfolding tel_update_def by (auto intro!: ctx_ok_tel)
  moreover have "counts_ok 0 1 (conn_counts ?s)" "counts_ok 0 0 (conn_counts ?f)"
    using cnt counts_success counts_failure by (auto simp: conn_counts_def tel_update_def)
  ultimately show ?thesis
    by (cases r) (simp_all add: connected_def Let_def conn_inv_def live_ctx_def busy_def in_session_def
        session_start_def ctx_ok_sink ctx_ok_send)
qed

lemma conn_step_inv:
  assumes "conn_inv c"
  shows "conn_inv (conn_step env cfg hs c i)"
proof (cases "cn_phase c")
  case Loop_Head
  then show ?thesis
    using assms loop_head_inv [OF assms Loop_Head]
    by (cases i) (auto simp: conn_step_def conn_inv_def live_ctx_def busy_def in_session_def
        intro: ctx_ok_sink split: bool.split)
next
  case (Connecting host port n)
  then show ?thesis using assms connected_inv [OF assms Connecting] by (cases i) (simp_all add: conn_step_def)
next
  case (Logging_In s n)
  then have g: "session_good s" "counts_ok 0 1 (conn_counts (ss_ctx s))"
    using assms by (simp_all add: conn_inv_def live_ctx_def session_good_def busy_def in_session_def)
  show ?thesis
  proof (cases i)
    case (Logon_Result r)
    obtain s' res where sl: "send_logon cfg s r = (s', res)" by (cases "send_logon cfg s r") auto
    note g' = send_logon_good [OF g(1) sl]
    show ?thesis
      using Logon_Result Logging_In sl g g' session_finished_inv [of s' c n]
      by (cases res) (auto simp: conn_step_def conn_inv_def live_ctx_def busy_def in_session_def session_good_def)
  qed (use Logging_In assms in \<open>simp_all add: conn_step_def\<close>)
next
  case (In_Session s n)
  then have g: "session_good s" "counts_ok 0 1 (conn_counts (ss_ctx s))"
    using assms by (simp_all add: conn_inv_def live_ctx_def session_good_def busy_def in_session_def)
  show ?thesis
  proof (cases i)
    case (Session_Input sd si)
    obtain s' res where sl: "session_round env cfg hs s sd si = (s', res)"
      by (cases "session_round env cfg hs s sd si") auto
    note g' = session_round_good [OF g(1) sl]
    show ?thesis
      using Session_Input In_Session sl g g' session_finished_inv [of s' c n]
      by (cases res) (auto simp: conn_step_def conn_inv_def live_ctx_def busy_def in_session_def session_good_def)
  qed (use In_Session assms in \<open>simp_all add: conn_step_def\<close>)
next
  case (Pass_End n)
  with assms show ?thesis
    by (cases i) (simp_all add: conn_step_def conn_inv_def live_ctx_def busy_def in_session_def)
next
  case Sleeping
  with assms show ?thesis
    by (cases i) (simp_all add: conn_step_def conn_inv_def live_ctx_def busy_def in_session_def)
next
  case Stopped
  with assms show ?thesis by (cases i) (simp_all add: conn_step_def)
qed

section \<open>Reachable states of the connection loop\<close>

definition map_live :: "(client_ctx \<Rightarrow> client_ctx) \<Rightarrow> conn \<Rightarrow> conn" where
  "map_live f c =
     (case cn_phase c of
        Logging_In s n \<Rightarrow> c\<lparr>cn_phase := Logging_In (s\<lparr>ss_ctx := f (ss_ctx s)\<rparr>) n\<rparr>
      | In_Session s n \<Rightarrow> c\<lparr>cn_phase := In_Session (s\<lparr>ss_ctx := f (ss_ctx s)\<rparr>) n\<rparr>
      | _ \<Rightarrow> c\<lparr>cn_ctx := f (cn_ctx c)\<rparr>)"

text \<open>The loop runs beside the consumer of its event channel, which takes events or goes away.\<close>

inductive conn_reach :: "client_env \<Rightarrow> qbt_receiver_config \<Rightarrow> event_handler list \<Rightarrow> conn \<Rightarrow> bool"
  for env cfg hs where
  start: "conn_reach env cfg hs (conn_start env cfg (channel_new EVENT_CHANNEL_CAPACITY) sink)"
| step: "conn_reach env cfg hs c \<Longrightarrow> conn_reach env cfg hs (conn_step env cfg hs c i)"
| consume: "conn_reach env cfg hs c \<Longrightarrow>
    conn_reach env cfg hs (map_live (\<lambda>cx. cx\<lparr>cx_channel := fst (recv (cx_channel cx))\<rparr>) c)"
| hang_up: "conn_reach env cfg hs c \<Longrightarrow>
    conn_reach env cfg hs (map_live (\<lambda>cx. cx\<lparr>cx_channel := close_receiver (cx_channel cx)\<rparr>) c)"

lemma conn_inv_map_live:
  assumes "conn_inv c" "\<And>ch. channel_ok ch \<Longrightarrow> channel_ok (g ch)"
  shows "conn_inv (map_live (\<lambda>cx. cx\<lparr>cx_channel := g (cx_channel cx)\<rparr>) c)"
  using assms
  by (cases "cn_phase c")
    (simp_all add: map_live_def conn_inv_def live_ctx_def busy_def in_session_def ctx_ok_def synced_def conn_counts_def)

lemma conn_start_inv:
  assumes "validate_receiver_config cfg = Inr ()" "channel_ok ch"
  shows "conn_inv (conn_start env cfg ch sink)"
proof -
  let ?m = "manager_new (rc_server_list_path cfg) (rc_servers cfg)"
  let ?cx0 = "\<lparr>cx_channel = ch, cx_servers = ?m, cx_telemetry = telemetry_default,
                 cx_backpressure = tracker_new, cx_sink = sink\<rparr>"
  have m: "manager_ok ?m"
    using assms(1) by (intro manager_ok_new) (auto simp: validate_receiver_config_def split: if_splits)
  have c0: "conn_counts (?cx0\<lparr>cx_servers := m'\<rparr>) = (0, 0, 0, 0)" for m'
    by (simp add: conn_counts_def telemetry_default_def)
  have ok: "ctx_ok (?cx0\<lparr>cx_servers := m'\<rparr>)" if "manager_ok m'" for m'
    using assms(2) that by (simp add: ctx_ok_def telemetry_default_def tracker_new_def)
  let ?cx1 = "if rc_follow_server_list_updates cfg
                 then case manager_load env ?m of
                     (m', Inl err) \<Rightarrow> try_send_event (?cx0\<lparr>cx_servers := m'\<rparr>) (Inl err)
                   | (m', Inr _) \<Rightarrow> ?cx0\<lparr>cx_servers := m'\<rparr>
                 else ?cx0"
  have "ctx_ok ?cx1 \<and> conn_counts ?cx1 = (0, 0, 0, 0)"
  proof -
    obtain m' r where l: "manager_load env ?m = (m', r)" by (cases "manager_load env ?m") auto
    then have "manager_ok m'" using manager_ok_load [OF m, of env] by simp
    with ok [OF m] c0 [of m'] c0 [of ?m] ok [of m'] l show ?thesis
      by (cases r) (simp_all add: ctx_ok_send)
  qed
  then have "ctx_ok (sync_active_servers ?cx1) \<and> conn_counts (sync_active_servers ?cx1) = (0, 0, 0, 0)"
    by (simp add: sync_active_servers_def ctx_ok_def conn_counts_def)
  then show ?thesis
    by (simp add: conn_start_def Let_def conn_inv_def live_ctx_def busy_def in_session_def counts_ok_def ctx_ok_emit)
qed

lemma conn_reach_inv:
  assumes "conn_reach env cfg hs c" "validate_receiver_config cfg = Inr ()"
  shows "conn_inv c"
  using assms
proof (induction rule: conn_reach.induct)
  case (start sink)
  then show ?case by (intro conn_start_inv) (simp_all add: channel_ok_def channel_new_def)
next
  case (step c i)
  then show ?case by (simp add: conn_step_inv)
next
  case (consume c)
  then show ?case
    by (intro conn_inv_map_live) (auto simp: channel_ok_def recv_def split: list.splits)
next
  case (hang_up c)
  then show ?case by (intro conn_inv_map_live) (auto simp: channel_ok_def close_receiver_def)
qed

section \<open>A pass over the endpoints\<close>

primrec conn_run :: "client_env \<Rightarrow> qbt_receiver_config \<Rightarrow> event_handler list \<Rightarrow> conn \<Rightarrow> conn_input list \<Rightarrow>
    conn \<times> (str \<times> u16) list" where
  "conn_run env cfg hs c [] = (c, [])"
| "conn_run env cfg hs c (i # is) =
     (let c1 = conn_step env cfg hs c i;
          tried = (case (cn_phase c, cn_phase c1) of (Loop_Head, Connecting h p n) \<Rightarrow> [(h, p)] | _ \<Rightarrow> []);
          (c2, rest) = conn_run env cfg hs c1 is
      in (c2, tried @ rest))"

definition failed_attempt :: "str \<Rightarrow> conn_input list" where
  "failed_attempt err = [Flag False, Connect_Result (Inl err), Flag False]"

lemma conn_run_append:
  "conn_run env cfg hs c (is @ js) =
     (let (c1, t1) = conn_run env cfg hs c is; (c2, t2) = conn_run env cfg hs c1 js in (c2, t1 @ t2))"
  by (induction "is" arbitrary: c) (simp_all add: Let_def split_beta)

lemma failed_attempt_run:
  assumes "cn_phase c = Loop_Head" "sm_available (cx_servers (cn_ctx c)) = ep # eps"
  shows "\<exists>c'. conn_run env cfg hs c (failed_attempt err) = (c', [ep]) \<and>
     sm_available (cx_servers (cn_ctx c')) = eps @ [ep] \<and>
     (if cn_attempts_in_pass c + 1 \<ge> length (ep # eps)
      then cn_phase c' = Sleeping \<and> cn_attempts_in_pass c' = 0
      else cn_phase c' = Loop_Head \<and> cn_attempts_in_pass c' = cn_attempts_in_pass c + 1)"
  using assms
  by (cases ep) (simp add: failed_attempt_def conn_step_def loop_head_def endpoint_count_def next_endpoint_def
      update_telemetry_sink_def tel_update_def connected_def completed_failed_pass_def Let_def)

lemma failed_pass_run:
  assumes "cn_phase c = Loop_Head" "sm_available (cx_servers (cn_ctx c)) = xs @ ys"
    "cn_attempts_in_pass c = length ys" "xs \<noteq> []" "length errs = length xs"
  shows "\<exists>c'. conn_run env cfg hs c (concat (map failed_attempt errs)) = (c', xs) \<and>
     sm_available (cx_servers (cn_ctx c')) = ys @ xs \<and> cn_phase c' = Sleeping \<and> cn_attempts_in_pass c' = 0"
  using assms
proof (induction xs arbitrary: c ys errs)
  case (Cons ep xs)
  obtain err errs' where errs: "errs = err # errs'" "length errs' = length xs"
    using Cons.prems(5) by (cases errs) auto
  obtain c1 where c1: "conn_run env cfg hs c (failed_attempt err) = (c1, [ep])"
    "sm_available (cx_servers (cn_ctx c1)) = (xs @ ys) @ [ep]"
    "if cn_attempts_in_pass c + 1 \<ge> length (ep # xs @ ys)
      then cn_phase c1 = Sleeping \<and> cn_attempts_in_pass c1 = 0
      else cn_phase c1 = Loop_Head \<and> cn_attempts_in_pass c1 = cn_attempts_in_pass c + 1"
    using failed_attempt_run [OF Cons.prems(1), of ep "xs @ ys" env cfg hs err] Cons.prems(2) by auto
  show ?case
  proof (cases "xs = []")
    case True
    with c1 errs Cons.prems(3) show ?thesis by auto
  next
    case False
    then have "cn_phase c1 = Loop_Head" "cn_attempts_in_pass c1 = length (ys @ [ep])"
      using c1(3) Cons.prems(3) by (simp_all add: Suc_le_eq split: if_splits)
    from Cons.IH [OF this(1) _ this(2) False errs(2)] c1(1,2) show ?thesis
      by (auto simp: errs conn_run_append Let_def split_beta)
  qed
qed simp

section \<open>What a session delivers\<close>

definition quiet :: "client_ctx \<Rightarrow> bool" where
  "quiet cx \<longleftrightarrow> ch_open (cx_channel cx) \<and> dropped_since_last_report (cx_backpressure cx) = 0"

lemma try_send_event_room:
  assumes "quiet cx" "length (ch_queue (cx_channel cx)) < ch_capacity (cx_channel cx)"
  shows "try_send_event cx e = cx\<lparr>cx_channel := (cx_channel cx)\<lparr>ch_queue := ch_queue (cx_channel cx) @ [e]\<rparr>\<rparr>"
  using assms
  by (simp add: try_send_event_def try_send_with_backpressure_warning_def send_pending_warning_def
      has_pending_report_def quiet_def try_send_room)

lemma run_handlers_quiet: "\<forall>h \<in> set hs. h e = None \<Longrightarrow> run_handlers hs cx e = cx"
  by (induction hs) simp_all

lemma dispatch_events_room:
  assumes "quiet cx" "\<forall>h \<in> set hs. \<forall>e. h e = None"
    and "length (ch_queue (cx_channel cx)) + length events \<le> ch_capacity (cx_channel cx)"
  shows "dispatch_events hs cx events =
    cx\<lparr>cx_channel := (cx_channel cx)\<lparr>ch_queue := ch_queue (cx_channel cx) @ map (\<lambda>e. Inr (Frame e)) events\<rparr>\<rparr>"
  using assms
proof (induction events arbitrary: cx)
  case (Cons e es)
  let ?cx = "cx\<lparr>cx_channel := (cx_channel cx)\<lparr>ch_queue := ch_queue (cx_channel cx) @ [Inr (Frame e)]\<rparr>\<rparr>"
  have "try_send_event (run_handlers hs cx e) (Inr (Frame e)) = ?cx"
    using Cons.prems by (simp add: run_handlers_quiet try_send_event_room)
  moreover have "quiet ?cx" using Cons.prems(1) by (simp add: quiet_def)
  ultimately show ?case using Cons.IH [of ?cx] Cons.prems by simp
qed simp

lemma follow_updates_off: "follow_updates env False cx es = cx"
  by (induction es) (simp_all split: qbt_frame_event.split)

lemma session_read_room:
  assumes "quiet (ss_ctx s)" "\<forall>h \<in> set hs. \<forall>e. h e = None" "\<not> rc_follow_server_list_updates cfg"
    and "feed_events (ce_decode env) (ss_decoder s) chunk = (d, events)"
    and "length (ch_queue (cx_channel (ss_ctx s))) + length events \<le> ch_capacity (cx_channel (ss_ctx s))"
    and "s' = session_read env cfg hs s chunk now"
  shows "ss_decoder s' = d \<and> quiet (ss_ctx s') \<and>
    ch_capacity (cx_channel (ss_ctx s')) = ch_capacity (cx_channel (ss_ctx s)) \<and>
    cx_backpressure (ss_ctx s') = cx_backpressure (ss_ctx s) \<and>
    ch_queue (cx_channel (ss_ctx s')) = ch_queue (cx_channel (ss_ctx s)) @ map (\<lambda>e. Inr (Frame e)) events"
proof -
  have f: "feed (ce_decode env) (ss_decoder s) chunk = (d, Inr events)"
    using assms(4) by (simp add: feed_events_run feed_Pair)
  have q: "quiet (cx\<lparr>cx_telemetry := t\<rparr>) = quiet cx" for cx t by (simp add: quiet_def)
  show ?thesis
    using assms(1,2,3,5) unfolding assms(6)
    by (simp add: session_read_def f Let_def follow_updates_off dispatch_events_room q update_telemetry_sink_def)
      (simp add: quiet_def)
qed

primrec read_all :: "client_env \<Rightarrow> qbt_receiver_config \<Rightarrow> event_handler list \<Rightarrow> session \<Rightarrow> (bytes \<times> instant) list \<Rightarrow> session" where
  "read_all env cfg hs s [] = s"
| "read_all env cfg hs s (r # rs) =
     read_all env cfg hs (fst (session_step env cfg hs s (Read_Data (fst r) (snd r)))) rs"

lemma read_all_room:
  assumes "quiet (ss_ctx s)" "\<forall>h \<in> set hs. \<forall>e. h e = None" "\<not> rc_follow_server_list_updates cfg"
    and "feed_chunks (ce_decode env) (ss_decoder s) (map fst reads) = (d, events)"
    and "length (ch_queue (cx_channel (ss_ctx s))) + length events \<le> ch_capacity (cx_channel (ss_ctx s))"
  shows "ss_decoder (read_all env cfg hs s reads) = d \<and>
    cx_backpressure (ss_ctx (read_all env cfg hs s reads)) = cx_backpressure (ss_ctx s) \<and>
    ch_queue (cx_channel (ss_ctx (read_all env cfg hs s reads))) =
      ch_queue (cx_channel (ss_ctx s)) @ map (\<lambda>e. Inr (Frame e)) events"
  using assms
proof (induction reads arbitrary: s events)
  case (Cons r reads)
  obtain d1 e1 where f1: "feed_events (ce_decode env) (ss_decoder s) (fst r) = (d1, e1)"
    by (cases "feed_events (ce_decode env) (ss_decoder s) (fst r)") auto
  obtain e2 where f2: "feed_chunks (ce_decode env) d1 (map fst reads) = (d, e2)" "events = e1 @ e2"
    using Cons.prems(4) f1 by (auto simp: Let_def split: prod.splits)
  define s1 where "s1 = session_read env cfg hs s (fst r) (snd r)"
  have len: "length (ch_queue (cx_channel (ss_ctx s))) + length e1 \<le> ch_capacity (cx_channel (ss_ctx s))"
    using Cons.prems(5) f2(2) by simp
  note s1 = session_read_room [OF Cons.prems(1-3) f1 len s1_def]
  have "read_all env cfg hs s (r # reads) = read_all env cfg hs s1 reads"
    by (simp add: s1_def session_step_def)
  then show ?case
    using Cons.IH [of s1 e2] s1 Cons.prems(2,3,5) f2 by simp
qed simp

section \<open>What a session delivers\<close>

text \<open>The items that the client puts into the stream on its own.\<close>

definition client_made :: "event_item \<Rightarrow> bool" where
  "client_made e =
     (case e of
        Inl _ \<Rightarrow> True
      | Inr (Frame (Warning (HandlerError _))) \<Rightarrow> True
      | Inr (Frame (Warning (BackpressureDrop _ _ _))) \<Rightarrow> True
      | Inr (Frame _) \<Rightarrow> False
      | Inr _ \<Rightarrow> True)"

definition drops :: "client_ctx \<Rightarrow> nat" where
  "drops cx = unat (event_queue_drop_total (cx_backpressure cx))"

text \<open>
  Between two contexts the queue grows by items of the client, interleaved with a part of the events in
  their order; and with all of them when the channel is open and no drop was counted.
\<close>

definition delivered :: "client_ctx \<Rightarrow> qbt_frame_event list \<Rightarrow> client_ctx \<Rightarrow> bool" where
  "delivered cx events cx' \<longleftrightarrow>
     ch_open (cx_channel cx') = ch_open (cx_channel cx) \<and> drops cx \<le> drops cx' \<and>
     (\<exists>added own sent. ch_queue (cx_channel cx') = ch_queue (cx_channel cx) @ added \<and>
        added \<in> shuffles own (map (\<lambda>e. Inr (Frame e)) sent) \<and> list_all client_made own \<and> subseq sent events \<and>
        (ch_open (cx_channel cx) \<and> drops cx' = drops cx \<and> drops cx < 2 ^ 64 - 1 \<longrightarrow> sent = events))"

lemma shuffles_append:
  "xs \<in> shuffles ys zs \<Longrightarrow> xs' \<in> shuffles ys' zs' \<Longrightarrow> xs @ xs' \<in> shuffles (ys @ ys') (zs @ zs')"
proof (induction xs arbitrary: ys zs)
  case (Cons x xs)
  then show ?case by (auto simp: Cons_in_shuffles_iff neq_Nil_conv)
qed simp

lemma delivered_refl: "delivered cx [] cx"
  by (simp add: delivered_def)

lemma delivered_cong:
  "cx_channel cx' = cx_channel cx \<Longrightarrow> cx_backpressure cx' = cx_backpressure cx \<Longrightarrow>
   delivered cx' events cx1 = delivered cx events cx1"
  "cx_channel cx' = cx_channel cx \<Longrightarrow> cx_backpressure cx' = cx_backpressure cx \<Longrightarrow>
   delivered cx1 events cx' = delivered cx1 events cx"
  by (simp_all add: delivered_def drops_def)

lemma delivered_trans:
  assumes "delivered cx es cx1" "delivered cx1 fs cx2"
  shows "delivered cx (es @ fs) cx2"
proof -
  obtain a o1 s where a: "ch_queue (cx_channel cx1) = ch_queue (cx_channel cx) @ a"
      "a \<in> shuffles o1 (map (\<lambda>e. Inr (Frame e)) s)" "list_all client_made o1" "subseq s es"
      "ch_open (cx_channel cx) \<and> drops cx1 = drops cx \<and> drops cx < 2 ^ 64 - 1 \<longrightarrow> s = es"
    using assms(1) unfolding delivered_def by blast
  obtain b o2 t where b: "ch_queue (cx_channel cx2) = ch_queue (cx_channel cx1) @ b"
      "b \<in> shuffles o2 (map (\<lambda>e. Inr (Frame e)) t)" "list_all client_made o2" "subseq t fs"
      "ch_open (cx_channel cx1) \<and> drops cx2 = drops cx1 \<and> drops cx1 < 2 ^ 64 - 1 \<longrightarrow> t = fs"
    using assms(2) unfolding delivered_def by blast
  have ends: "ch_open (cx_channel cx1) = ch_open (cx_channel cx)" "drops cx \<le> drops cx1"
      "ch_open (cx_channel cx2) = ch_open (cx_channel cx1)" "drops cx1 \<le> drops cx2"
    using assms by (simp_all add: delivered_def)
  have "a @ b \<in> shuffles (o1 @ o2) (map (\<lambda>e. Inr (Frame e)) (s @ t))"
    using shuffles_append [OF a(2) b(2)] by simp
  moreover have "s @ t = es @ fs" if "ch_open (cx_channel cx) \<and> drops cx2 = drops cx \<and> drops cx < 2 ^ 64 - 1"
    using that ends a(5) b(5) by simp
  ultimately show ?thesis
    unfolding delivered_def using ends a b
    by (intro conjI exI [of _ "a @ b"] exI [of _ "o1 @ o2"] exI [of _ "s @ t"]) (auto simp: list_emb_append_mono)
qed

lemma warning_made: "client_made (backpressure_warning r t)"
  by (simp add: client_made_def backpressure_warning_def)

lemma sat_add_one: "unat (sat_add t 1 :: u64) = (if unat t < 2 ^ 64 - 1 then Suc (unat t) else unat t)"
  using unat_bound [of t] by (simp add: unat_sat_add_1)

lemma send_effect:
  fixes ch :: "event_item channel"
  assumes "try_send_with_backpressure_warning ch e t (backpressure_warning r) f g s = (ch', t', s')"
  shows "\<exists>own got. ch_queue ch' = ch_queue ch @ own @ (if got then [e] else []) \<and> list_all client_made own \<and>
     ch_open ch' = ch_open ch \<and> unat (event_queue_drop_total t) \<le> unat (event_queue_drop_total t') \<and>
     (ch_open ch \<and> unat (event_queue_drop_total t') = unat (event_queue_drop_total t) \<and> unat (event_queue_drop_total t) < 2 ^ 64 - 1 \<longrightarrow> got)"
proof -
  define w where "w = backpressure_warning r t"
  consider "\<not> ch_open ch" | "ch_open ch" "length (ch_queue ch) \<ge> ch_capacity ch"
    | "ch_open ch" "length (ch_queue ch) < ch_capacity ch" by fastforce
  then show ?thesis
  proof cases
    case 1
    then show ?thesis
      using assms
      by (intro exI [of _ "[]"] exI [of _ False])
        (auto simp: try_send_with_backpressure_warning_def send_pending_warning_def try_send_def Let_def record_send_failure_def
          split: if_splits)
  next
    case 2
    then show ?thesis
      using assms sat_add_one [of "event_queue_drop_total t"] sat_add_one [of "sat_add (event_queue_drop_total t) 1"]
      by (intro exI [of _ "[]"] exI [of _ False])
        (auto simp: try_send_with_backpressure_warning_def send_pending_warning_def try_send_def Let_def record_send_failure_def
          word_unat_eq_iff split: if_splits)
  next
    case 3
    show ?thesis
    proof (cases "has_pending_report t")
      case True
      then show ?thesis
        using assms 3 sat_add_one [of "event_queue_drop_total t"] warning_made [of r t]
        by (intro exI [of _ "[backpressure_warning r t]"] exI [of _ "Suc (length (ch_queue ch)) < ch_capacity ch"])
          (auto simp: try_send_with_backpressure_warning_def send_pending_warning_def try_send_def Let_def record_send_failure_def
            clear_pending_report_def split: if_splits)
    next
      case False
      then show ?thesis
        using assms 3
        by (intro exI [of _ "[]"] exI [of _ True])
          (auto simp: try_send_with_backpressure_warning_def send_pending_warning_def try_send_def Let_def)
    qed
  qed
qed


lemma delivered_send:
  "client_made e \<Longrightarrow> delivered cx [] (try_send_event cx e)"
  "delivered cx [ev] (try_send_event cx (Inr (Frame ev)))"
proof -
  have eff: "\<exists>own got. ch_queue (cx_channel (try_send_event cx e)) = ch_queue (cx_channel cx) @ own @ (if got then [e] else []) \<and>
      list_all client_made own \<and> ch_open (cx_channel (try_send_event cx e)) = ch_open (cx_channel cx) \<and>
      drops cx \<le> drops (try_send_event cx e) \<and>
      (ch_open (cx_channel cx) \<and> drops (try_send_event cx e) = drops cx \<and> drops cx < 2 ^ 64 - 1 \<longrightarrow> got)" for e
  proof -
    obtain ch t tel where p: "try_send_with_backpressure_warning (cx_channel cx) e (cx_backpressure cx)
         (backpressure_warning (decoder_recovery_events_total (cx_telemetry cx)))
         (\<lambda>s. s\<lparr>backpressure_warning_emitted_total := sat_add (backpressure_warning_emitted_total s) 1\<rparr>)
         (\<lambda>t s. s\<lparr>tel_event_queue_drop_total := event_queue_drop_total t\<rparr>) (cx_telemetry cx) = (ch, t, tel)"
      using prod_cases3 by blast
    show ?thesis
      using send_effect [OF p] p by (simp add: try_send_event_def drops_def)
  qed
  show "delivered cx [] (try_send_event cx e)" if made: "client_made e"
  proof -
    obtain own got where "ch_queue (cx_channel (try_send_event cx e)) = ch_queue (cx_channel cx) @ own @ (if got then [e] else [])"
        "list_all client_made own" "ch_open (cx_channel (try_send_event cx e)) = ch_open (cx_channel cx)"
        "drops cx \<le> drops (try_send_event cx e)"
      using eff by blast
    with made show ?thesis
      unfolding delivered_def
      by (intro conjI exI [of _ "own @ (if got then [e] else [])"] exI [of _ "[]"]) auto
  qed
  obtain own got where o: "ch_queue (cx_channel (try_send_event cx (Inr (Frame ev)))) =
        ch_queue (cx_channel cx) @ own @ (if got then [Inr (Frame ev)] else [])"
      "list_all client_made own" "ch_open (cx_channel (try_send_event cx (Inr (Frame ev)))) = ch_open (cx_channel cx)"
      "drops cx \<le> drops (try_send_event cx (Inr (Frame ev)))"
      "ch_open (cx_channel cx) \<and> drops (try_send_event cx (Inr (Frame ev))) = drops cx \<and> drops cx < 2 ^ 64 - 1 \<longrightarrow> got"
    using eff by blast
  have "own @ (if got then [Inr (Frame ev)] else []) \<in>
      shuffles (own @ []) ([] @ map (\<lambda>e. Inr (Frame e)) (if got then [ev] else []))"
    by (intro shuffles_append) (simp_all add: if_distrib)
  with o show "delivered cx [ev] (try_send_event cx (Inr (Frame ev)))"
    unfolding delivered_def
    by (intro conjI exI [of _ "own @ (if got then [Inr (Frame ev)] else [])"] exI [of _ own]
        exI [of _ "if got then [ev] else []"]) auto
qed

lemma delivered_own: "delivered cx es cx1 \<Longrightarrow> delivered cx1 [] cx2 \<Longrightarrow> delivered cx es cx2"
  using delivered_trans [of cx es cx1 "[]" cx2] by simp

lemma delivered_after: "delivered cx [] cx1 \<Longrightarrow> delivered cx1 es cx2 \<Longrightarrow> delivered cx es cx2"
  using delivered_trans [of cx "[]" cx1 es cx2] by simp

lemma delivered_tel [simp]:
  "delivered (cx\<lparr>cx_telemetry := v\<rparr>) es cx1 = delivered cx es cx1"
  "delivered cx1 es (cx\<lparr>cx_telemetry := v\<rparr>) = delivered cx1 es cx"
  "delivered (cx\<lparr>cx_servers := m\<rparr>) es cx1 = delivered cx es cx1"
  "delivered cx1 es (cx\<lparr>cx_servers := m\<rparr>) = delivered cx1 es cx"
  "delivered cx1 es (update_telemetry_sink cx) = delivered cx1 es cx"
  "delivered cx1 es (sync_active_servers cx) = delivered cx1 es cx"
  by (rule delivered_cong; simp add: update_telemetry_sink_def sync_active_servers_def)+

lemma delivered_emit: "delivered cx [] (emit_telemetry cx)"
proof -
  have "delivered (cx\<lparr>cx_telemetry := v\<rparr>) [] (try_send_event (cx\<lparr>cx_telemetry := v\<rparr>) (Inr (Telemetry v)))" for v
    by (rule delivered_send) (simp add: client_made_def)
  then show ?thesis by (simp add: emit_telemetry_def Let_def)
qed

lemma delivered_handlers: "delivered cx [] (run_handlers hs cx e)"
proof (induction hs arbitrary: cx)
  case (Cons h hs)
  have "delivered (cx\<lparr>cx_telemetry := v\<rparr>) []
      (try_send_event (cx\<lparr>cx_telemetry := v\<rparr>) (Inr (Frame (Warning (HandlerError m)))))" for v m
    by (rule delivered_send) (simp add: client_made_def)
  then have "delivered cx [] (try_send_event (cx\<lparr>cx_telemetry := v\<rparr>) (Inr (Frame (Warning (HandlerError m)))))" for v m
    by simp
  then show ?case
    using Cons.IH by (auto simp: Let_def intro: delivered_own split: option.split)
qed (simp add: delivered_refl)

lemma delivered_dispatch: "delivered cx events (dispatch_events hs cx events)"
proof (induction events arbitrary: cx)
  case (Cons e events)
  have "delivered cx [e] (try_send_event (run_handlers hs cx e) (Inr (Frame e)))"
    by (rule delivered_after [OF delivered_handlers delivered_send(2)])
  then have "delivered cx ([e] @ events) (dispatch_events hs (try_send_event (run_handlers hs cx e) (Inr (Frame e))) events)"
    by (rule delivered_trans [OF _ Cons.IH])
  then show ?case by simp
qed (simp add: delivered_refl)

lemma delivered_follow: "delivered cx [] (follow_updates env follow cx events)"
proof (induction events arbitrary: cx)
  case (Cons e events)
  have upd: "delivered cx [] cx'" if "apply_server_list_update env cx l = (cx', r)" for l cx' r
    using that by (auto simp: apply_server_list_update_def delivered_refl split: prod.splits sum.splits)
  have "delivered cx [] (try_send_event cx' (Inl err))" if "apply_server_list_update env cx l = (cx', r)" for l cx' r err
    using delivered_own [OF upd [OF that] delivered_send(1)] by (simp add: client_made_def)
  moreover have "delivered cx [] (emit_telemetry cx')" if "apply_server_list_update env cx l = (cx', r)" for l cx' r
    using delivered_own [OF upd [OF that] delivered_emit] .
  ultimately have "delivered cx []
      (case e of ServerListUpdate list \<Rightarrow>
          (if follow
           then case apply_server_list_update env cx list of
               (cx', Inl err) \<Rightarrow> try_send_event cx' (Inl err)
             | (cx', Inr _) \<Rightarrow> emit_telemetry cx'
           else cx)
        | _ \<Rightarrow> cx)"
    by (auto simp: delivered_refl split: qbt_frame_event.split prod.split sum.split)
  then show ?case using delivered_own [OF _ Cons.IH] by simp
qed (simp add: delivered_refl)

lemma delivered_read:
  assumes "feed (ce_decode env) (ss_decoder s) chunk = (d, Inr events)"
  shows "delivered (ss_ctx s) events (ss_ctx (session_read env cfg hs s chunk now))"
    "ss_decoder (session_read env cfg hs s chunk now) = d"
proof -
  let ?tel = "cx_telemetry (ss_ctx s)"
  let ?cx = "(ss_ctx s)\<lparr>cx_telemetry := count_events
     (?tel\<lparr>bytes_in_total := add_count (bytes_in_total ?tel) (length chunk)\<rparr>) events\<rparr>"
  have "delivered ?cx events (dispatch_events hs (follow_updates env (rc_follow_server_list_updates cfg) ?cx events) events)"
    by (rule delivered_after [OF delivered_follow delivered_dispatch])
  then show "delivered (ss_ctx s) events (ss_ctx (session_read env cfg hs s chunk now))"
    using assms by (simp add: session_read_def Let_def)
qed (use assms in \<open>simp add: session_read_def Let_def\<close>)

lemma delivered_all:
  "delivered (ss_ctx s) (snd (feed_chunks (ce_decode env) (ss_decoder s) (map fst reads)))
     (ss_ctx (read_all env cfg hs s reads))"
proof (induction reads arbitrary: s)
  case (Cons r reads)
  obtain d events where f: "feed (ce_decode env) (ss_decoder s) (fst r) = (d, Inr events)"
    by (simp add: feed_eq_run map_prod_def split_beta)
  let ?s = "session_read env cfg hs s (fst r) (snd r)"
  have "delivered (ss_ctx s) (events @ snd (feed_chunks (ce_decode env) d (map fst reads))) (ss_ctx (read_all env cfg hs ?s reads))"
    using delivered_trans [OF delivered_read(1) [OF f] Cons.IH [of ?s]] delivered_read(2) [OF f] by metis
  with f show ?case by (simp add: session_step_def feed_events_def split_beta)
qed (simp add: delivered_refl)


section \<open>Reports of dropped events\<close>

definition reported_drops :: "event_item \<Rightarrow> nat" where
  "reported_drops it =
     (case it of Inr (Frame (Warning (BackpressureDrop since overall recoveries))) \<Rightarrow> unat since | _ \<Rightarrow> 0)"

interpretation qbt_drops: drop_reporter "range backpressure_warning" reported_drops
  by unfold_locales (auto simp: backpressure_warning_def reported_drops_def)

text \<open>A failed save of an update leaves the published number of active servers behind the
  endpoints in use.\<close>

lemma persist_failure_stale_count:
  assumes "servers l \<noteq> []" "sm_path (cx_servers cx) = Some path"
    "ce_persist env path (sort_dedup_endpoints (servers l)) = Some err"
    "apply_server_list_update env cx l = (cx', res)"
  shows "res = Inl err \<and> cx_telemetry cx' = cx_telemetry cx \<and>
    sm_available (cx_servers cx') = sort_dedup_endpoints (servers l)"
  using assms
  by (auto simp: apply_server_list_update_def apply_server_list_def rebuild_available_def manager_save_def Let_def)

section \<open>Properties of the client\<close>

definition sample_config :: qbt_receiver_config where
  "sample_config =
     \<lparr>rc_email = ''user@example.com'', rc_servers = [(''b.example'', 2), (''a.example'', 1), (''b.example'', 2)],
      rc_server_list_path = None, rc_follow_server_list_updates = False, rc_reconnect_delay_secs = 1,
      rc_connection_timeout_secs = 1, rc_write_timeout_secs = 1, rc_watchdog_timeout_secs = 20,
      rc_max_exceptions = 10, rc_decode = default_decode_config\<rparr>"

definition sample_client_env :: client_env where
  "sample_client_env = \<lparr>ce_decode = sample_env, ce_read_persisted = (\<lambda>p. None), ce_persist = (\<lambda>p eps. None)\<rparr>"

lemma sample_config_valid: "validate_receiver_config sample_config = Inr ()"
proof -
  have "trim ''user@example.com'' = ''user@example.com''"
    by (intro trim_keep) (simp_all add: ws_lead_def ws_last_def ws1_def)
  then show ?thesis by (simp add: validate_receiver_config_def sample_config_def)
qed

lemma sample_available:
  "sm_available (cx_servers (cn_ctx (conn_start sample_client_env sample_config ch sink))) =
     [(''a.example'', 1), (''b.example'', 2)]"
  by (simp add: conn_start_def sample_config_def emit_telemetry_def update_telemetry_sink_def
      sync_active_servers_def manager_new_def rebuild_available_def sort_dedup_endpoints_def Let_def)

text \<open>C8: whatever servers, sockets, handlers and the consumer of the events do, a receiver with a
  valid configuration always has an endpoint to try, its published telemetry is the current one, its
  drop counter is the tracker's, its event channel within capacity, and (until the counter saturates)
  attempts are successes plus failures plus the attempt under way and successes are
  disconnects plus the open session.\<close>

theorem client_loop_invariant:
  assumes "validate_receiver_config cfg = Inr ()" "conn_reach env cfg hs c"
  shows "let cx = live_ctx c; t = cx_telemetry cx in
     0 < endpoint_count (cx_servers cx) \<and> cx_sink cx = t \<and>
     tel_event_queue_drop_total t = event_queue_drop_total (cx_backpressure cx) \<and>
     length (ch_queue (cx_channel cx)) \<le> ch_capacity (cx_channel cx) \<and>
     (unat (connection_attempts_total t) < 2 ^ 64 - 1 \<longrightarrow>
        unat (connection_attempts_total t) =
          unat (connection_success_total t) + unat (connection_fail_total t) + busy (cn_phase c) \<and>
        unat (connection_success_total t) = unat (disconnect_total t) + in_session (cn_phase c))"
proof -
  have "conn_inv c" using assms(2,1) by (rule conn_reach_inv)
  then show ?thesis
    using manager_ok_count [of "cx_servers (live_ctx c)"]
    by (auto simp: conn_inv_def ctx_ok_def synced_def counts_ok_def conn_counts_def channel_ok_def Let_def)
qed

theorem client_loop_invariant_witness:
  "let c = conn_step sample_client_env sample_config [] 
             (conn_start sample_client_env sample_config (channel_new EVENT_CHANNEL_CAPACITY) telemetry_default) (Flag False) in
   0 < endpoint_count (cx_servers (live_ctx c)) \<and> cx_sink (live_ctx c) = cx_telemetry (live_ctx c)"
  using client_loop_invariant [OF sample_config_valid conn_reach.step [OF conn_reach.start],
      of sample_client_env "[]" telemetry_default "Flag False"]
  by (simp add: Let_def)

text \<open>C9: a pass of failures is fair and bounded: from the head of the loop, one failed connection per
  endpoint tries every endpoint exactly once, in the order of the list, and then the loop
  sleeps before it starts the next pass with the endpoints in the same order.\<close>

theorem client_failed_pass:
  assumes "cn_phase c = Loop_Head" "cn_attempts_in_pass c = 0"
    and "sm_available (cx_servers (cn_ctx c)) \<noteq> []"
    and "length errs = length (sm_available (cx_servers (cn_ctx c)))"
  shows "\<exists>c'. conn_run env cfg hs c (concat (map failed_attempt errs)) = (c', sm_available (cx_servers (cn_ctx c))) \<and>
     sm_available (cx_servers (cn_ctx c')) = sm_available (cx_servers (cn_ctx c)) \<and>
     cn_phase c' = Sleeping \<and> cn_attempts_in_pass c' = 0"
  using failed_pass_run [of c "sm_available (cx_servers (cn_ctx c))" "[]" errs env cfg hs] assms by simp

theorem client_failed_pass_witness:
  "\<exists>c'. conn_run sample_client_env sample_config [] (conn_start sample_client_env sample_config (channel_new 8) telemetry_default)
        (concat (map failed_attempt [''refused'', ''refused''])) = (c', [(''a.example'', 1), (''b.example'', 2)]) \<and>
     cn_phase c' = Sleeping"
  using client_failed_pass [of "conn_start sample_client_env sample_config (channel_new 8) telemetry_default"
      "[''refused'', ''refused'']" sample_client_env sample_config "[]"] sample_available
  by (auto simp: conn_start_def Let_def)

text \<open>With working handlers and room in the channel, the channel receives exactly the decoder's events.\<close>

lemma client_session_room:
  assumes "\<forall>h \<in> set hs. \<forall>e. h e = None" "\<not> rc_follow_server_list_updates cfg" "quiet cx"
    and "feed (ce_decode env) (decoder_new (rc_decode cfg)) (concat (map fst reads)) = (d, Inr events)"
    and "length (ch_queue (cx_channel cx)) + length events \<le> ch_capacity (cx_channel cx)"
  shows "ch_queue (cx_channel (ss_ctx (read_all env cfg hs (session_start cfg cx now) reads))) =
      ch_queue (cx_channel cx) @ map (\<lambda>e. Inr (Frame e)) events"
    "drops (ss_ctx (read_all env cfg hs (session_start cfg cx now) reads)) = drops cx"
proof -
  have "feed_chunks (ce_decode env) (decoder_new (rc_decode cfg)) (map fst reads) = (d, events)"
    using assms(4) by (simp add: feed_chunks_new feed_events_def)
  then show "ch_queue (cx_channel (ss_ctx (read_all env cfg hs (session_start cfg cx now) reads))) =
      ch_queue (cx_channel cx) @ map (\<lambda>e. Inr (Frame e)) events"
    "drops (ss_ctx (read_all env cfg hs (session_start cfg cx now) reads)) = drops cx"
    using read_all_room [of "session_start cfg cx now" hs cfg env reads d events] assms(1-3,5)
    by (simp_all add: session_start_def drops_def)
qed

text \<open>C10: a session hands the events of the byte stream on in stream order, however the reads cut the
  stream and whatever the handlers and the server-list updates do: the channel grows by a part of the
  decoder's events in their order, each at most once, interleaved only with the client's own items
  (errors, handler and backpressure warnings, telemetry), and by all of them exactly when the consumer
  is there and no drop is counted (below the saturation of the counter).\<close>

theorem client_session_delivers:
  "let cx' = ss_ctx (read_all env cfg hs (session_start cfg cx now) reads);
       events = snd (feed_events (ce_decode env) (decoder_new (rc_decode cfg)) (concat (map fst reads))) in
   \<exists>added own sent. ch_queue (cx_channel cx') = ch_queue (cx_channel cx) @ added \<and>
     added \<in> shuffles own (map (\<lambda>e. Inr (Frame e)) sent) \<and> list_all client_made own \<and> subseq sent events \<and>
     (ch_open (cx_channel cx) \<and> drops cx' = drops cx \<and> drops cx < 2 ^ 64 - 1 \<longrightarrow> sent = events)"
proof -
  have "snd (feed_chunks (ce_decode env) (decoder_new (rc_decode cfg)) (map fst reads)) =
      snd (feed_events (ce_decode env) (decoder_new (rc_decode cfg)) (concat (map fst reads)))"
    by (simp only: feed_chunks_new)
  then have "delivered cx (snd (feed_events (ce_decode env) (decoder_new (rc_decode cfg)) (concat (map fst reads))))
      (ss_ctx (read_all env cfg hs (session_start cfg cx now) reads))"
    using delivered_all [of "session_start cfg cx now" env reads cfg hs] by (simp add: session_start_def)
  then show ?thesis unfolding delivered_def Let_def by blast
qed

theorem client_session_delivers_witness:
  "let cx = cn_ctx (conn_start sample_client_env sample_config (channel_new 8) telemetry_default);
       cx' = ss_ctx (read_all sample_client_env sample_config [] (session_start sample_config cx 0)
               [(take 50 (frame_wire sample_frame), 1), (drop 50 (frame_wire sample_frame), 2)]) in
   \<exists>added own. ch_queue (cx_channel cx') = ch_queue (cx_channel cx) @ added \<and> list_all client_made own \<and>
     added \<in> shuffles own
       (map (\<lambda>e. Inr (Frame e)) (frame_events sample_env default_decode_config sample_frame))"
proof -
  let ?reads = "[(take 50 (frame_wire sample_frame), 1), (drop 50 (frame_wire sample_frame), 2)]"
  define cx where "cx = cn_ctx (conn_start sample_client_env sample_config (channel_new 8) telemetry_default)"
  define cx' where "cx' = ss_ctx (read_all sample_client_env sample_config [] (session_start sample_config cx 0) ?reads)"
  have cx: "quiet cx" "length (ch_queue (cx_channel cx)) = 1" "ch_capacity (cx_channel cx) = 8" "drops cx = 0"
    by (simp_all add: cx_def conn_start_def sample_config_def emit_telemetry_def update_telemetry_sink_def drops_def
        sync_active_servers_def channel_new_def tracker_new_def quiet_def try_send_event_room Let_def)
  obtain d where f: "feed sample_env (decoder_new default_decode_config) (frame_wire sample_frame) =
      (d, Inr (frame_events sample_env default_decode_config sample_frame))"
    using feed_frame_stream [of default_decode_config "[sample_frame]" sample_env] sample_frame_ok
    by (cases "feed sample_env (decoder_new default_decode_config) (frame_wire sample_frame)") simp
  have "drops cx' = drops cx"
    unfolding cx'_def
    using cx f client_session_room(2) [of "[]" sample_config cx sample_client_env ?reads d
        "frame_events sample_env default_decode_config sample_frame" 0]
    by (simp add: sample_config_def sample_client_env_def sample_frame_events)
  then show ?thesis
    using client_session_delivers [of sample_client_env sample_config "[]" cx 0 ?reads] cx(1,4) f
    unfolding cx_def [symmetric] cx'_def [symmetric] Let_def
    by (auto simp: sample_config_def sample_client_env_def feed_events_def quiet_def)
qed

text \<open>C11: no drop goes unreported: for every interleaving of sends and receives, the drops that the
  warnings in the stream report, plus those still to report, are all the drops, and every
  attempt to send is in the stream or counted as a drop (until the counter saturates).\<close>

theorem client_drop_accounting:
  assumes "flow_reach (range backpressure_warning) reported_drops cap f"
    and "unat (event_queue_drop_total (fl_tracker f)) < 2 ^ 64 - 1"
  shows "let stream = fl_received f @ ch_queue (fl_channel f); t = fl_tracker f in
     sum_list (map reported_drops stream) + unat (dropped_since_last_report t) = unat (event_queue_drop_total t) \<and>
     length stream + unat (event_queue_drop_total t) = fl_attempts f"
  using qbt_drops.flow_reach_accounted [OF assms(1)] assms(2)
  by (simp add: accounted_def balanced_def Let_def)

theorem client_drop_accounting_witness:
  "let f = send_event (backpressure_warning 0) (receive_event (send_event (backpressure_warning 0)
             (send_event (backpressure_warning 0) (flow_new 1) (Inr Disconnected)) (Inr Disconnected))) (Inr Disconnected);
       t = fl_tracker f in
     sum_list (map reported_drops (fl_received f @ ch_queue (fl_channel f))) + unat (dropped_since_last_report t) =
       unat (event_queue_drop_total t) \<and> event_queue_drop_total t = 2 \<and>
     reported_drops (hd (ch_queue (fl_channel f))) = 1"
proof -
  define f where "f = send_event (backpressure_warning 0) (receive_event (send_event (backpressure_warning 0)
      (send_event (backpressure_warning 0) (flow_new 1) (Inr Disconnected)) (Inr Disconnected))) (Inr Disconnected)"
  have z: "reported_drops (Inr Disconnected) = 0" by (simp add: reported_drops_def)
  have reach: "flow_reach (range backpressure_warning) reported_drops 1 f"
    unfolding f_def
    by (intro flow_reach.reach_step [OF _ flow_step.step_send] flow_reach.reach_step [OF _ flow_step.step_receive]
        flow_reach.reach_new rangeI z)
  have ev: "event_queue_drop_total (fl_tracker f) = 2" "reported_drops (hd (ch_queue (fl_channel f))) = 1"
    by (simp_all add: f_def send_event_def receive_event_def flow_new_def channel_new_def tracker_new_def
        try_send_with_backpressure_warning_def send_pending_warning_def has_pending_report_def try_send_def
        record_send_failure_def recv_def clear_pending_report_def sat_add_def backpressure_warning_def
        reported_drops_def Let_def)
  then show ?thesis
    using client_drop_accounting [OF reach] unfolding f_def [symmetric] by (simp add: Let_def)
qed

text \<open>The watchdog closes a session exactly when the last data is older than the configured
  timeout (at least one second): a read of data at instant \<open>t\<close> followed by an elapsed read at
  \<open>now\<close> ends the session if and only if more than the timeout lies between them.\<close>

lemma client_watchdog:
  "(snd (session_step env cfg hs (session_read env cfg hs s chunk t) (Read_Elapsed now)) =
      Some (Inl (Lifecycle ''watchdog timeout''))) \<longleftrightarrow> now - t > wd_timeout (ss_watchdog s)"
proof -
  obtain d events where f: "feed (ce_decode env) (ss_decoder s) chunk = (d, Inr events)"
    by (simp add: feed_eq_run map_prod_def split_beta)
  then show ?thesis
    by (simp add: session_step_def session_read_def should_close_at_def on_data_received_def Let_def)
qed

text \<open>The life cycle of a receiver: a start succeeds exactly when it does not run, a second start
  is refused, the event stream can be taken once per start, and a stop ends the running task,
  by joining or aborting it, after which a start succeeds again.\<close>

lemma receiver_life_cycle:
  assumes "\<not> rt_running (qr_runtime r)"
  shows "let r1 = fst (receiver_start env r) in
     snd (receiver_start env r) = Inr () \<and>
     receiver_start env r1 = (r1, Inl (Lifecycle ''client already running'')) \<and>
     snd (receiver_events r1) = Inr (channel_new EVENT_CHANNEL_CAPACITY) \<and>
     snd (receiver_events (fst (receiver_events r1))) = Inl (Lifecycle ''event stream already taken'') \<and>
     (snd (receiver_stop r1 in_time) = Inr () \<longleftrightarrow> in_time (conn_start env (qr_config r) (channel_new EVENT_CHANNEL_CAPACITY) (qr_telemetry r))) \<and>
     rt_join_handle (qr_runtime (fst (receiver_stop r1 in_time))) = None \<and>
     snd (receiver_start env (fst (receiver_stop r1 in_time))) = Inr ()"
  using assms
  by (simp add: receiver_start_def receiver_events_def receiver_stop_def runtime_install_def
      runtime_take_events_def runtime_stop_def Let_def)

lemma receiver_life_cycle_sample:
  "let r = projr (receiver_build sample_config); r1 = fst (receiver_start sample_client_env r) in
     snd (receiver_start sample_client_env r) = Inr () \<and>
     receiver_start sample_client_env r1 = (r1, Inl (Lifecycle ''client already running''))"
  using receiver_life_cycle [of "projr (receiver_build sample_config)" sample_client_env]
  by (simp add: receiver_build_def sample_config_valid runtime_default_def Let_def)

end
