(* ===== verification/Rust_Float.thy ===== *)
theory Rust_Float
  imports Complex_Main "HOL-Library.Log_Nat"
begin

text \<open>
  The type \<^verbatim>\<open>f64\<close> and the part of it that the relay uses: conversion from an integer, multiplication,
  division and comparison of non-negative numbers in the normal range.  A finite value is the rational
  it stands for, negative zero apart; \<open>f64_round\<close> is the IEEE rounding to 53 significant bits, ties to even.
\<close>

datatype f64 = Finite rat | Neg_Zero | Pos_Infinity | Neg_Infinity | Not_A_Number

text \<open>The integer next to a quotient, ties to the even one.\<close>

definition round_half_even :: "nat \<Rightarrow> nat \<Rightarrow> nat" where
  "round_half_even p q =
     (let d = p div q; r = p mod q in
      if 2 * r < q then d else if 2 * r > q then d + 1 else if even d then d else d + 1)"

text \<open>Shift \<open>p / q\<close> so that it has 53 bits before the point, round, and shift back.\<close>

definition f64_shift :: "nat \<Rightarrow> nat \<Rightarrow> int" where
  "f64_shift p q =
     (let s = 53 - (int (floorlog 2 p) - int (floorlog 2 q));
          big = (if s \<ge> 0 then p * 2 ^ nat s \<ge> 2 ^ 53 * q else p \<ge> 2 ^ 53 * q * 2 ^ nat (- s))
      in if big then s - 1 else s)"

definition f64_round_frac :: "nat \<Rightarrow> nat \<Rightarrow> rat" where
  "f64_round_frac p q =
     (if p = 0 then 0
      else
        let s = f64_shift p q in
        if s \<ge> 0 then of_nat (round_half_even (p * 2 ^ nat s) q) / 2 ^ nat s
        else of_nat (round_half_even p (q * 2 ^ nat (- s))) * 2 ^ nat (- s))"

definition f64_round :: "rat \<Rightarrow> rat" where
  "f64_round x = (let (p, q) = quotient_of x in f64_round_frac (nat p) (nat q))"

definition f64_of_nat :: "nat \<Rightarrow> rat" where
  "f64_of_nat n = f64_round_frac n 1"

definition f64_div :: "rat \<Rightarrow> rat \<Rightarrow> rat" where
  "f64_div x y = f64_round (x / y)"

definition f64_mul :: "rat \<Rightarrow> rat \<Rightarrow> rat" where
  "f64_mul x y = f64_round (x * y)"

text \<open>\<^verbatim>\<open>round() as u64\<close> of a non-negative value: halves go up.\<close>

definition f64_round_to_nat :: "rat \<Rightarrow> nat" where
  "f64_round_to_nat x = nat \<lfloor>x + 1 / 2\<rfloor>"

definition f64_less :: "rat \<Rightarrow> f64 \<Rightarrow> bool" where
  "f64_less x y = (case y of Finite r \<Rightarrow> x < r | Neg_Zero \<Rightarrow> x < 0 | Pos_Infinity \<Rightarrow> True | _ \<Rightarrow> False)"

text \<open>\<^verbatim>\<open>clamp(0.0, 1.0)\<close>, which keeps NaN.\<close>

definition f64_clamp01 :: "f64 \<Rightarrow> f64" where
  "f64_clamp01 x =
     (case x of
        Finite r \<Rightarrow> Finite (max 0 (min r 1)) | Neg_Zero \<Rightarrow> Neg_Zero
      | Pos_Infinity \<Rightarrow> Finite 1 | Neg_Infinity \<Rightarrow> Finite 0 | Not_A_Number \<Rightarrow> Not_A_Number)"

lemma f64_round_frac_nonneg: "0 \<le> f64_round_frac p q"
  by (simp add: f64_round_frac_def Let_def)

lemma f64_div_nonneg: "0 \<le> f64_div x y"
  by (simp add: f64_div_def f64_round_def f64_round_frac_nonneg split_beta Let_def)

definition F97 :: rat where
  "F97 = f64_round_frac 97 100"

lemma floorlog_97: "floorlog 2 97 = 7" "floorlog 2 100 = 7"
  by (simp_all add: compute_floorlog)

lemma F97_le_1: "F97 \<le> 1"
  by (simp add: F97_def f64_round_frac_def f64_shift_def floorlog_97 round_half_even_def Let_def)

end
