(* ===== verification/Qbt_Relay.thy ===== *)
theory Qbt_Relay
  imports Qbt_Protocol Rust_Float Runtime_Support "HOL-Library.AList"
begin

text \<open>
  The QBT relay (\<^verbatim>\<open>qbt_receiver/relay/\<close>): configuration, quality window, shared state, the parser of
  downstream logons, the session of one downstream client with its writer, the accept loop,
  the quality monitor and the upstream loop.  Tasks are step functions over the shared state;
  \<open>relay_step\<close> interleaves them.  Counters are 64-bit and wrap as \<^verbatim>\<open>fetch_add\<close> does.
\<close>

section \<open>Configuration\<close>

record relay_config =
  rl_email :: str
  rl_upstream_servers :: "(str \<times> u16) list"
  rl_max_clients :: nat
  rl_auth_timeout :: duration
  rl_client_buffer_bytes :: nat
  rl_reconnect_delay :: duration
  rl_connect_timeout :: duration
  rl_quality_window_secs :: nat
  rl_quality_pause_threshold :: f64
  rl_metrics_log_interval :: duration

datatype relay_error = RelayConfig str | RelayIo str | TaskJoin str

definition one_second :: duration where
  "one_second = 1000000000"

definition relay_normalized :: "relay_config \<Rightarrow> relay_config" where
  "relay_normalized c =
     c\<lparr>rl_max_clients := max (rl_max_clients c) 1,
       rl_auth_timeout := max (rl_auth_timeout c) one_second,
       rl_client_buffer_bytes := max (rl_client_buffer_bytes c) 1,
       rl_reconnect_delay := max (rl_reconnect_delay c) one_second,
       rl_connect_timeout := max (rl_connect_timeout c) one_second,
       rl_quality_window_secs := max (rl_quality_window_secs c) 1,
       rl_quality_pause_threshold := f64_clamp01 (rl_quality_pause_threshold c),
       rl_metrics_log_interval := max (rl_metrics_log_interval c) one_second\<rparr>"

definition relay_validate :: "relay_config \<Rightarrow> relay_error + unit" where
  "relay_validate c =
     (if trim (rl_email c) = [] then Inl (RelayConfig ''email must not be empty'')
      else if rl_upstream_servers c = [] then Inl (RelayConfig ''at least one upstream server is required'')
      else Inr ())"

section \<open>Quality window\<close>

record quality_bucket =
  qb_attempted :: u64
  qb_forwarded :: u64

record quality_window =
  qw_buckets :: "quality_bucket list"
  qw_index :: nat

definition bucket_default :: quality_bucket where
  "bucket_default = \<lparr>qb_attempted = 0, qb_forwarded = 0\<rparr>"

definition window_new :: "nat \<Rightarrow> quality_window" where
  "window_new n = \<lparr>qw_buckets = replicate (max n 1) bucket_default, qw_index = 0\<rparr>"

definition window_rotate :: "quality_window \<Rightarrow> quality_window" where
  "window_rotate w =
     (let i = (qw_index w + 1) mod length (qw_buckets w)
      in w\<lparr>qw_index := i, qw_buckets := (qw_buckets w)[i := bucket_default]\<rparr>)"

definition window_add_attempted :: "quality_window \<Rightarrow> u64 \<Rightarrow> quality_window" where
  "window_add_attempted w n =
     (let b = qw_buckets w ! qw_index w
      in w\<lparr>qw_buckets := (qw_buckets w)[qw_index w := b\<lparr>qb_attempted := sat_add (qb_attempted b) n\<rparr>]\<rparr>)"

definition window_add_forwarded :: "quality_window \<Rightarrow> u64 \<Rightarrow> quality_window" where
  "window_add_forwarded w n =
     (let b = qw_buckets w ! qw_index w
      in w\<lparr>qw_buckets := (qw_buckets w)[qw_index w := b\<lparr>qb_forwarded := sat_add (qb_forwarded b) n\<rparr>]\<rparr>)"

definition window_ratio :: "quality_window \<Rightarrow> rat" where
  "window_ratio w =
     (let attempted = foldl (\<lambda>sum b. sat_add sum (qb_attempted b)) 0 (qw_buckets w);
          forwarded = foldl (\<lambda>sum b. sat_add sum (qb_forwarded b)) 0 (qw_buckets w)
      in if attempted = 0 then 1 else f64_div (f64_of_nat (unat forwarded)) (f64_of_nat (unat attempted)))"

section \<open>Shared state\<close>

record relay_metrics =
  upstream_connection_attempts_total :: u64
  upstream_connection_success_total :: u64
  upstream_connection_fail_total :: u64
  upstream_disconnect_total :: u64
  downstream_connections_accepted_total :: u64
  downstream_connections_rejected_over_capacity_total :: u64
  downstream_disconnect_auth_timeout_total :: u64
  downstream_disconnect_slow_client_total :: u64
  downstream_disconnect_lagged_total :: u64
  downstream_active_clients :: u64
  rm_bytes_in_total :: u64
  bytes_attempted_total :: u64
  bytes_forwarded_total :: u64
  bytes_dropped_total :: u64
  forwarding_paused :: bool
  forwarding_pause_events_total :: u64
  rolling_quality_milli :: u64

definition metrics_default :: relay_metrics where
  "metrics_default =
     \<lparr>upstream_connection_attempts_total = 0, upstream_connection_success_total = 0,
      upstream_connection_fail_total = 0, upstream_disconnect_total = 0,
      downstream_connections_accepted_total = 0, downstream_connections_rejected_over_capacity_total = 0,
      downstream_disconnect_auth_timeout_total = 0, downstream_disconnect_slow_client_total = 0,
      downstream_disconnect_lagged_total = 0, downstream_active_clients = 0, rm_bytes_in_total = 0,
      bytes_attempted_total = 0, bytes_forwarded_total = 0, bytes_dropped_total = 0,
      forwarding_paused = False, forwarding_pause_events_total = 0, rolling_quality_milli = 0\<rparr>"

record client_meta =
  cm_email :: str
  cm_peer :: str
  cm_connected_at_unix_secs :: u64
  cm_last_auth_unix_secs :: u64

record relay_state =
  rs_metrics :: relay_metrics
  rs_clients :: "(u64 \<times> client_meta) list"
  rs_next_client_id :: u64
  rs_quality_window :: quality_window
  rs_server_list_wire :: bytes

definition relay_state_new :: "(str \<times> u16) list \<Rightarrow> nat \<Rightarrow> relay_state" where
  "relay_state_new eps window_secs =
     \<lparr>rs_metrics = metrics_default, rs_clients = [], rs_next_client_id = 1,
      rs_quality_window = window_new window_secs, rs_server_list_wire = build_server_list_wire eps\<rparr>"

definition on_metrics :: "(relay_metrics \<Rightarrow> relay_metrics) \<Rightarrow> relay_state \<Rightarrow> relay_state" where
  "on_metrics f st = st\<lparr>rs_metrics := f (rs_metrics st)\<rparr>"

definition add_attempted :: "relay_state \<Rightarrow> u64 \<Rightarrow> relay_state" where
  "add_attempted st n =
     (on_metrics (\<lambda>m. m\<lparr>bytes_attempted_total := bytes_attempted_total m + n\<rparr>) st)
       \<lparr>rs_quality_window := window_add_attempted (rs_quality_window st) n\<rparr>"

definition add_forwarded :: "relay_state \<Rightarrow> u64 \<Rightarrow> relay_state" where
  "add_forwarded st n =
     (on_metrics (\<lambda>m. m\<lparr>bytes_forwarded_total := bytes_forwarded_total m + n\<rparr>) st)
       \<lparr>rs_quality_window := window_add_forwarded (rs_quality_window st) n\<rparr>"

definition add_dropped :: "relay_state \<Rightarrow> u64 \<Rightarrow> relay_state" where
  "add_dropped st n = on_metrics (\<lambda>m. m\<lparr>bytes_dropped_total := bytes_dropped_total m + n\<rparr>) st"

record health_snapshot =
  hs_status :: str
  hs_forwarding_paused :: bool
  hs_downstream_active_clients :: u64

definition relay_health_snapshot :: "relay_state \<Rightarrow> health_snapshot" where
  "relay_health_snapshot st =
     \<lparr>hs_status = ''ok'', hs_forwarding_paused = forwarding_paused (rs_metrics st),
      hs_downstream_active_clients = downstream_active_clients (rs_metrics st)\<rparr>"

section \<open>Logon parser\<close>

text \<open>
  \<^verbatim>\<open>AuthParser::consume\<close>.  The text is kept as its UTF-8 bytes.  \<^verbatim>\<open>split_off\<close> panics when the
  cut is not at a character boundary; \<open>Consume_Panic\<close> is that outcome.
\<close>

datatype consume_result = Consume_Panic | Consumed str "str option"

definition AUTH_TEXT_LIMIT :: nat where
  "AUTH_TEXT_LIMIT = 8192"

definition find_logon :: "str \<Rightarrow> str \<times> str option" where
  "find_logon text =
     (case find_sub LOGON_PREFIX text of
        None \<Rightarrow> (text, None)
      | Some start \<Rightarrow>
          (let after_prefix = start + length LOGON_PREFIX in
           case find_sub LOGON_SUFFIX (drop after_prefix text) of
             None \<Rightarrow> (text, None)
           | Some suffix_rel \<Rightarrow>
               (let end = after_prefix + suffix_rel + length LOGON_SUFFIX;
                    message = take (end - start) (drop start text)
                in (drop end text, map_option auth_email (parse_logon_message message)))))"

definition auth_consume :: "str \<Rightarrow> bytes \<Rightarrow> consume_result" where
  "auth_consume decoded_text wire =
     (let decoded = map (\<lambda>b. b XOR 0xFF) wire;
          text = decoded_text @ str_of (utf8_lossy decoded)
      in if length text > AUTH_TEXT_LIMIT
         then let cut = length text - AUTH_TEXT_LIMIT in
              if is_char_boundary text cut
              then (case find_logon (drop cut text) of (t, r) \<Rightarrow> Consumed t r)
              else Consume_Panic
         else (case find_logon text of (t, r) \<Rightarrow> Consumed t r))"

section \<open>Downstream sessions\<close>

datatype ds_phase = Ds_Running | Ds_Draining str | Ds_Closed | Ds_Panicked

record downstream =
  ds_id :: u64
  ds_peer :: str
  ds_text :: str
  ds_connected_at :: instant
  ds_last_auth :: instant
  ds_email :: str
  ds_authenticated :: bool
  ds_poll_timeouts :: u64
  ds_permits :: nat
  ds_queue :: "bytes list"
  ds_writing :: "bytes option"
  ds_writer_open :: bool
  ds_phase :: ds_phase

definition INITIAL_AUTH_TIMEOUT_SECS :: nat where
  "INITIAL_AUTH_TIMEOUT_SECS = 30"

definition CLIENT_WRITER_QUEUE_CAPACITY :: nat where
  "CLIENT_WRITER_QUEUE_CAPACITY = 1024"

definition downstream_new :: "relay_config \<Rightarrow> u64 \<Rightarrow> str \<Rightarrow> instant \<Rightarrow> downstream" where
  "downstream_new cfg cid peer now =
     \<lparr>ds_id = cid, ds_peer = peer, ds_text = [], ds_connected_at = now, ds_last_auth = now, ds_email = [],
      ds_authenticated = False, ds_poll_timeouts = 0, ds_permits = rl_client_buffer_bytes cfg,
      ds_queue = [], ds_writing = None, ds_writer_open = True, ds_phase = Ds_Running\<rparr>"

text \<open>The branches of the session's \<^verbatim>\<open>select!\<close>.  \<open>Ds_Bytes\<close> carries the two clocks read after a
  logon, the monotonic one and the Unix seconds.\<close>

datatype ds_input =
    Ds_Shutdown
  | Ds_Eof
  | Ds_Bytes bytes instant u64
  | Ds_Read_Error
  | Ds_Poll_Timeout
  | Ds_Chunk bytes
  | Ds_Lagged
  | Ds_Upstream_Closed

definition ds_break :: "downstream \<Rightarrow> str \<Rightarrow> downstream" where
  "ds_break ds reason = ds\<lparr>ds_phase := Ds_Draining reason\<rparr>"

definition count_auth_timeout :: "relay_state \<Rightarrow> relay_state" where
  "count_auth_timeout =
     on_metrics (\<lambda>m. m\<lparr>downstream_disconnect_auth_timeout_total := downstream_disconnect_auth_timeout_total m + 1\<rparr>)"

definition count_slow_client :: "relay_state \<Rightarrow> relay_state" where
  "count_slow_client =
     on_metrics (\<lambda>m. m\<lparr>downstream_disconnect_slow_client_total := downstream_disconnect_slow_client_total m + 1\<rparr>)"

definition ds_read :: "relay_state \<Rightarrow> downstream \<Rightarrow> bytes \<Rightarrow> instant \<Rightarrow> u64 \<Rightarrow> relay_state \<times> downstream" where
  "ds_read st ds wire now now_secs =
     (case auth_consume (ds_text ds) wire of
        Consume_Panic \<Rightarrow> (st, ds\<lparr>ds_phase := Ds_Panicked\<rparr>)
      | Consumed text None \<Rightarrow> (st, ds\<lparr>ds_text := text\<rparr>)
      | Consumed text (Some found) \<Rightarrow>
          (st\<lparr>rs_clients := AList.update (ds_id ds)
                \<lparr>cm_email = found, cm_peer = ds_peer ds, cm_connected_at_unix_secs = now_secs,
                 cm_last_auth_unix_secs = now_secs\<rparr> (rs_clients st)\<rparr>,
           ds\<lparr>ds_text := text, ds_email := found, ds_last_auth := now, ds_authenticated := True\<rparr>))"

definition ds_forward :: "relay_state \<Rightarrow> downstream \<Rightarrow> bytes \<Rightarrow> relay_state \<times> downstream" where
  "ds_forward st ds chunk =
     (if forwarding_paused (rs_metrics st) then (st, ds)
      else
        let len = word_of_nat (length chunk);
            st1 = add_attempted st len
        in if length chunk mod 2 ^ 32 > ds_permits ds
           then (add_dropped (count_slow_client st1) len, ds_break ds ''slow_client_buffer_exceeded'')
           else if \<not> ds_writer_open ds then (st1, ds_break ds ''writer_channel_closed'')
           else if length (ds_queue ds) \<ge> CLIENT_WRITER_QUEUE_CAPACITY
           then (add_dropped (count_slow_client st1) len, ds_break ds ''writer_queue_full'')
           else (st1, ds\<lparr>ds_permits := ds_permits ds - length chunk mod 2 ^ 32, ds_queue := ds_queue ds @ [chunk]\<rparr>))"

definition ds_select :: "relay_state \<Rightarrow> downstream \<Rightarrow> ds_input \<Rightarrow> relay_state \<times> downstream" where
  "ds_select st ds i =
     (case i of
        Ds_Shutdown \<Rightarrow> (st, ds_break ds ''shutdown'')
      | Ds_Eof \<Rightarrow> (st, ds_break ds ''client_closed'')
      | Ds_Bytes wire now now_secs \<Rightarrow> ds_read st ds wire now now_secs
      | Ds_Read_Error \<Rightarrow> (st, ds_break ds ''client_read_error'')
      | Ds_Poll_Timeout \<Rightarrow> (st, ds\<lparr>ds_poll_timeouts := sat_add (ds_poll_timeouts ds) 1\<rparr>)
      | Ds_Chunk chunk \<Rightarrow> if ds_authenticated ds then ds_forward st ds chunk else (st, ds)
      | Ds_Lagged \<Rightarrow>
          if ds_authenticated ds
          then (on_metrics (\<lambda>m. m\<lparr>downstream_disconnect_lagged_total := downstream_disconnect_lagged_total m + 1\<rparr>) st,
                ds_break ds ''broadcast_lagged'')
          else (st, ds)
      | Ds_Upstream_Closed \<Rightarrow> if ds_authenticated ds then (st, ds_break ds ''upstream_channel_closed'') else (st, ds))"

text \<open>One round of the session loop: the checks at its head, then the \<^verbatim>\<open>select!\<close>.\<close>

definition ds_round :: "relay_config \<Rightarrow> relay_state \<Rightarrow> downstream \<Rightarrow> bool \<Rightarrow> instant \<Rightarrow> ds_input \<Rightarrow>
    relay_state \<times> downstream" where
  "ds_round cfg st ds shutdown now i =
     (if shutdown then (st, ds_break ds ''client_closed'')
      else if \<not> ds_authenticated ds \<and> now - ds_connected_at ds \<ge> INITIAL_AUTH_TIMEOUT_SECS * one_second
      then (count_auth_timeout st, ds_break ds ''initial_auth_timeout'')
      else if ds_authenticated ds \<and> now - ds_last_auth ds \<ge> rl_auth_timeout cfg
      then (count_auth_timeout st, ds_break ds ''reauth_timeout'')
      else ds_select st ds i)"

text \<open>The writer task takes a chunk, and its write succeeds or fails; a failure ends the task and
  drops what is still queued.\<close>

definition writer_take :: "downstream \<Rightarrow> downstream" where
  "writer_take ds =
     (case (ds_writing ds, ds_queue ds) of
        (None, c # q) \<Rightarrow> if ds_writer_open ds then ds\<lparr>ds_writing := Some c, ds_queue := q\<rparr> else ds
      | _ \<Rightarrow> ds)"

definition writer_done :: "relay_state \<Rightarrow> downstream \<Rightarrow> bool \<Rightarrow> relay_state \<times> downstream" where
  "writer_done st ds ok =
     (case ds_writing ds of
        None \<Rightarrow> (st, ds)
      | Some c \<Rightarrow>
          if ok
          then (add_forwarded st (word_of_nat (length c)),
                ds\<lparr>ds_writing := None, ds_permits := ds_permits ds + length c mod 2 ^ 32\<rparr>)
          else (add_dropped st (word_of_nat (length c)),
                ds\<lparr>ds_writing := None, ds_queue := [], ds_writer_open := False,
                   ds_permits := ds_permits ds + length c mod 2 ^ 32 +
                     sum_list (map (\<lambda>x. length x mod 2 ^ 32) (ds_queue ds))\<rparr>))"

text \<open>After the loop: wait for the writer, then give the slot back.\<close>

definition ds_finish :: "relay_state \<Rightarrow> downstream \<Rightarrow> relay_state \<times> downstream" where
  "ds_finish st ds =
     (if ds_queue ds = [] \<and> ds_writing ds = None
      then (on_metrics (\<lambda>m. m\<lparr>downstream_active_clients := downstream_active_clients m - 1\<rparr>)
              (st\<lparr>rs_clients := AList.delete (ds_id ds) (rs_clients st)\<rparr>),
            ds\<lparr>ds_phase := Ds_Closed\<rparr>)
      else (st, ds))"

section \<open>Accept loop, quality monitor and upstream loop\<close>

text \<open>An accepted connection becomes a session; a rejected one is sent the cached server list.\<close>

definition relay_accept :: "relay_config \<Rightarrow> relay_state \<Rightarrow> str \<Rightarrow> instant \<Rightarrow>
    relay_state \<times> (bytes + downstream)" where
  "relay_accept cfg st peer now =
     (if downstream_active_clients (rs_metrics st) < word_of_nat (rl_max_clients cfg)
      then
        let st1 = on_metrics (\<lambda>m. m\<lparr>downstream_active_clients := downstream_active_clients m + 1,
                    downstream_connections_accepted_total := downstream_connections_accepted_total m + 1\<rparr>) st
        in (st1\<lparr>rs_next_client_id := rs_next_client_id st + 1\<rparr>,
            Inr (downstream_new cfg (rs_next_client_id st) peer now))
      else (on_metrics (\<lambda>m. m\<lparr>downstream_connections_rejected_over_capacity_total :=
              downstream_connections_rejected_over_capacity_total m + 1\<rparr>) st,
            Inl (rs_server_list_wire st)))"

definition quality_tick :: "relay_config \<Rightarrow> relay_state \<Rightarrow> relay_state" where
  "quality_tick cfg st =
     (let w = window_rotate (rs_quality_window st);
          ratio = window_ratio w;
          milli = word_of_nat (f64_round_to_nat (f64_mul ratio 1000));
          st1 = on_metrics (\<lambda>m. m\<lparr>rolling_quality_milli := milli\<rparr>) (st\<lparr>rs_quality_window := w\<rparr>);
          paused = forwarding_paused (rs_metrics st1)
      in if \<not> paused \<and> f64_less ratio (rl_quality_pause_threshold cfg)
         then on_metrics (\<lambda>m. m\<lparr>forwarding_paused := True,
                forwarding_pause_events_total := forwarding_pause_events_total m + 1\<rparr>) st1
         else if paused \<and> ratio \<ge> F97
         then on_metrics (\<lambda>m. m\<lparr>forwarding_paused := False\<rparr>) st1
         else st1)"

datatype up_phase = Up_Head | Up_Connecting "str \<times> u16" | Up_Logging_In | Up_Connected | Up_Retry | Up_Waiting | Up_Stopped

record upstream =
  up_phase :: up_phase
  up_index :: nat
  up_scanner :: wire_scanner
  up_broadcast :: "bytes list"
  up_written :: "bytes list"

datatype up_input =
    Up_Flag bool
  | Up_Connect_Result bool
  | Up_Write_Result bool
  | Up_Shutdown
  | Up_Auth_Tick bool
  | Up_Read bytes
  | Up_Eof_Or_Error
  | Up_Wake

definition upstream_new :: upstream where
  "upstream_new = \<lparr>up_phase = Up_Head, up_index = 0, up_scanner = scanner_new DEFAULT_SCAN_BUFFER_BYTES,
     up_broadcast = [], up_written = []\<rparr>"

definition count_upstream_disconnect :: "relay_state \<Rightarrow> relay_state" where
  "count_upstream_disconnect =
     on_metrics (\<lambda>m. m\<lparr>upstream_disconnect_total := upstream_disconnect_total m + 1\<rparr>)"

definition upstream_read :: "relay_state \<Rightarrow> upstream \<Rightarrow> bytes \<Rightarrow> relay_state \<times> upstream" where
  "upstream_read st u wire =
     (let st1 = on_metrics (\<lambda>m. m\<lparr>rm_bytes_in_total := rm_bytes_in_total m + word_of_nat (length wire)\<rparr>) st;
          (sc, found) = observe_wire_chunk (up_scanner u) wire;
          st2 = (case found of Some w \<Rightarrow> st1\<lparr>rs_server_list_wire := w\<rparr> | None \<Rightarrow> st1)
      in (st2, u\<lparr>up_scanner := sc, up_broadcast := up_broadcast u @ [wire]\<rparr>))"

definition upstream_step :: "relay_config \<Rightarrow> relay_state \<Rightarrow> upstream \<Rightarrow> up_input \<Rightarrow> relay_state \<times> upstream" where
  "upstream_step cfg st u i =
     (let eps = rl_upstream_servers cfg; logon = xor_ff (bytes_of (build_logon_message (rl_email cfg))) in
      case (up_phase u, i) of
        (Up_Head, Up_Flag True) \<Rightarrow> (st, u\<lparr>up_phase := Up_Stopped\<rparr>)
      | (Up_Head, Up_Flag False) \<Rightarrow>
          (on_metrics (\<lambda>m. m\<lparr>upstream_connection_attempts_total := upstream_connection_attempts_total m + 1\<rparr>) st,
           u\<lparr>up_phase := Up_Connecting (eps ! (up_index u mod length eps)), up_index := (up_index u + 1) mod length eps\<rparr>)
      | (Up_Connecting ep, Up_Connect_Result False) \<Rightarrow>
          (on_metrics (\<lambda>m. m\<lparr>upstream_connection_fail_total := upstream_connection_fail_total m + 1\<rparr>) st,
           u\<lparr>up_phase := Up_Retry\<rparr>)
      | (Up_Retry, Up_Wake) \<Rightarrow> (st, u\<lparr>up_phase := Up_Head\<rparr>)
      | (Up_Retry, Up_Shutdown) \<Rightarrow> (st, u\<lparr>up_phase := Up_Head\<rparr>)
      | (Up_Connecting ep, Up_Connect_Result True) \<Rightarrow>
          (on_metrics (\<lambda>m. m\<lparr>upstream_connection_success_total := upstream_connection_success_total m + 1\<rparr>) st,
           u\<lparr>up_phase := Up_Logging_In\<rparr>)
      | (Up_Logging_In, Up_Write_Result ok) \<Rightarrow>
          if ok then (st, u\<lparr>up_phase := Up_Connected, up_written := up_written u @ [logon]\<rparr>)
          else (count_upstream_disconnect st, u\<lparr>up_phase := Up_Head\<rparr>)
      | (Up_Connected, Up_Shutdown) \<Rightarrow> (st, u\<lparr>up_phase := Up_Stopped\<rparr>)
      | (Up_Connected, Up_Auth_Tick ok) \<Rightarrow>
          if ok then (st, u\<lparr>up_written := up_written u @ [logon]\<rparr>)
          else (count_upstream_disconnect st, u\<lparr>up_phase := Up_Waiting\<rparr>)
      | (Up_Connected, Up_Read wire) \<Rightarrow> upstream_read st u wire
      | (Up_Connected, Up_Eof_Or_Error) \<Rightarrow> (count_upstream_disconnect st, u\<lparr>up_phase := Up_Waiting\<rparr>)
      | (Up_Waiting, Up_Wake) \<Rightarrow> (st, u\<lparr>up_phase := Up_Head\<rparr>)
      | (Up_Waiting, Up_Shutdown) \<Rightarrow> (st, u\<lparr>up_phase := Up_Stopped\<rparr>)
      | _ \<Rightarrow> (st, u))"

end
