(* ===== verification/Qbt_Relay_System.thy ===== *)
theory Qbt_Relay_System
  imports Qbt_Relay
begin

text \<open>
  The tasks of the relay over their shared state, interleaved: accepted connections, rounds of
  the sessions, steps of the writers, the end of sessions, upstream reads and quality ticks.
  The invariants cover admission, the client table, the buffer budget of each client and the
  accounting of forwarded bytes; the quality monitor is shown to resume.
\<close>

section \<open>Interleaving\<close>

record relay_sys =
  sy_state :: relay_state
  sy_sessions :: "downstream list"
  sy_upstream :: upstream

definition sys_new :: "relay_config \<Rightarrow> relay_sys" where
  "sys_new cfg =
     \<lparr>sy_state = relay_state_new (rl_upstream_servers cfg) (rl_quality_window_secs cfg),
      sy_sessions = [], sy_upstream = upstream_new\<rparr>"

definition put_session :: "relay_sys \<Rightarrow> nat \<Rightarrow> relay_state \<times> downstream \<Rightarrow> relay_sys" where
  "put_session sy k r = sy\<lparr>sy_state := fst r, sy_sessions := (sy_sessions sy)[k := snd r]\<rparr>"

inductive relay_step :: "relay_config \<Rightarrow> relay_sys \<Rightarrow> relay_sys \<Rightarrow> bool" for cfg where
  accepted: "relay_accept cfg (sy_state sy) peer now = (st, Inr ds) \<Longrightarrow>
    relay_step cfg sy (sy\<lparr>sy_state := st, sy_sessions := sy_sessions sy @ [ds]\<rparr>)"
| rejected: "relay_accept cfg (sy_state sy) peer now = (st, Inl wire) \<Longrightarrow> relay_step cfg sy (sy\<lparr>sy_state := st\<rparr>)"
| session: "k < length (sy_sessions sy) \<Longrightarrow> ds = sy_sessions sy ! k \<Longrightarrow> ds_phase ds = Ds_Running \<Longrightarrow>
    relay_step cfg sy (put_session sy k (ds_round cfg (sy_state sy) ds shutdown now i))"
| writer_takes: "k < length (sy_sessions sy) \<Longrightarrow> ds = sy_sessions sy ! k \<Longrightarrow>
    relay_step cfg sy (put_session sy k (sy_state sy, writer_take ds))"
| writer_finishes: "k < length (sy_sessions sy) \<Longrightarrow> ds = sy_sessions sy ! k \<Longrightarrow>
    relay_step cfg sy (put_session sy k (writer_done (sy_state sy) ds ok))"
| finished: "k < length (sy_sessions sy) \<Longrightarrow> ds = sy_sessions sy ! k \<Longrightarrow> ds_phase ds = Ds_Draining reason \<Longrightarrow>
    relay_step cfg sy (put_session sy k (ds_finish (sy_state sy) ds))"
| upstream: "upstream_step cfg (sy_state sy) (sy_upstream sy) i = (st, u) \<Longrightarrow>
    relay_step cfg sy (sy\<lparr>sy_state := st, sy_upstream := u\<rparr>)"
| quality: "relay_step cfg sy (sy\<lparr>sy_state := quality_tick cfg (sy_state sy)\<rparr>)"

inductive_cases relay_step_cases: "relay_step cfg sy sy'"

inductive relay_reach :: "relay_config \<Rightarrow> relay_sys \<Rightarrow> bool" for cfg where
  start: "relay_reach cfg (sys_new cfg)"
| step: "relay_reach cfg sy \<Longrightarrow> relay_step cfg sy sy' \<Longrightarrow> relay_reach cfg sy'"

section \<open>Sessions\<close>

definition live :: "downstream \<Rightarrow> bool" where
  "live ds \<longleftrightarrow> ds_phase ds \<noteq> Ds_Closed"

definition in_flight :: "downstream \<Rightarrow> bytes list" where
  "in_flight ds = (case ds_writing ds of Some c \<Rightarrow> [c] | None \<Rightarrow> []) @ ds_queue ds"

definition held :: "downstream \<Rightarrow> nat" where
  "held ds = sum_list (map (\<lambda>c. length c mod 2 ^ 32) (in_flight ds))"

definition session_ok :: "relay_config \<Rightarrow> downstream \<Rightarrow> bool" where
  "session_ok cfg ds \<longleftrightarrow>
     ds_permits ds + held ds = rl_client_buffer_bytes cfg \<and>
     length (ds_queue ds) \<le> CLIENT_WRITER_QUEUE_CAPACITY \<and>
     (\<not> ds_writer_open ds \<longrightarrow> in_flight ds = []) \<and>
     (ds_phase ds = Ds_Closed \<longrightarrow> in_flight ds = []) \<and>
     (ds_authenticated ds \<or> in_flight ds = [])"

lemma session_ok_new: "session_ok cfg (downstream_new cfg cid peer now)"
  by (simp add: session_ok_def downstream_new_def held_def in_flight_def)

lemma session_ok_break: "session_ok cfg ds \<Longrightarrow> session_ok cfg (ds_break ds r)"
  by (simp add: session_ok_def ds_break_def held_def in_flight_def)

lemma session_ok_forward:
  assumes "session_ok cfg ds" "ds_phase ds = Ds_Running" "ds_authenticated ds" "ds_forward st ds chunk = (st', ds')"
  shows "session_ok cfg ds'"
  using assms
  by (auto simp: ds_forward_def Let_def session_ok_def ds_break_def held_def in_flight_def
      CLIENT_WRITER_QUEUE_CAPACITY_def split: if_splits)

lemma session_ok_read:
  assumes "session_ok cfg ds" "ds_phase ds = Ds_Running" "ds_read st ds wire now usecs = (st', ds')"
  shows "session_ok cfg ds'"
  using assms
  by (auto simp: ds_read_def session_ok_def held_def in_flight_def split: consume_result.splits option.splits)

lemma session_ok_round:
  assumes "session_ok cfg ds" "ds_phase ds = Ds_Running" "ds_round cfg st ds sd now i = (st', ds')"
  shows "session_ok cfg ds'"
proof -
  have brk: "session_ok cfg (ds_break ds r)" for r using assms(1) by (rule session_ok_break)
  show ?thesis
  proof (cases "\<exists>r. ds' = ds_break ds r")
    case True
    then show ?thesis using brk by blast
  next
    case False
    then have sel: "ds_select st ds i = (st', ds')" using assms(3) by (auto simp: ds_round_def split: if_splits)
    show ?thesis
    proof (cases i)
      case (Ds_Bytes wire n usecs)
      with sel assms(1,2) session_ok_read show ?thesis by (simp add: ds_select_def)
    next
      case (Ds_Chunk chunk)
      with sel assms(1,2) session_ok_forward show ?thesis by (auto simp: ds_select_def split: if_splits)
    next
      case Ds_Poll_Timeout
      with sel assms(1,2) show ?thesis
        by (auto simp: ds_select_def session_ok_def held_def in_flight_def)
    qed (use sel assms(1,2) brk False in \<open>auto simp: ds_select_def split: if_splits\<close>)
  qed
qed

lemma session_ok_take: "session_ok cfg ds \<Longrightarrow> session_ok cfg (writer_take ds)"
  by (auto simp: writer_take_def session_ok_def held_def in_flight_def split: option.splits list.splits)

lemma session_ok_done: "session_ok cfg ds \<Longrightarrow> session_ok cfg (snd (writer_done st ds ok))"
  by (auto simp: writer_done_def session_ok_def held_def in_flight_def split: option.splits)

lemma session_ok_finish: "session_ok cfg ds \<Longrightarrow> session_ok cfg (snd (ds_finish st ds))"
  by (auto simp: ds_finish_def session_ok_def held_def in_flight_def)

section \<open>Effects of the steps\<close>

definition active :: "relay_state \<Rightarrow> u64" where
  "active st = downstream_active_clients (rs_metrics st)"

definition balance :: "relay_state \<Rightarrow> u64" where
  "balance st =
     bytes_attempted_total (rs_metrics st) - bytes_forwarded_total (rs_metrics st) - bytes_dropped_total (rs_metrics st)"

definition flight :: "downstream \<Rightarrow> u64" where
  "flight ds = sum_list (map (\<lambda>c. word_of_nat (length c)) (in_flight ds))"

lemma metrics_effects [simp]:
  "active (add_attempted st n) = active st" "balance (add_attempted st n) = balance st + n"
  "active (add_forwarded st n) = active st" "balance (add_forwarded st n) = balance st - n"
  "active (add_dropped st n) = active st" "balance (add_dropped st n) = balance st - n"
  "active (count_slow_client st) = active st" "balance (count_slow_client st) = balance st"
  "active (count_auth_timeout st) = active st" "balance (count_auth_timeout st) = balance st"
  by (simp_all add: active_def balance_def add_attempted_def add_forwarded_def add_dropped_def
      count_slow_client_def count_auth_timeout_def on_metrics_def algebra_simps)

lemma clients_effects [simp]:
  "rs_clients (add_attempted st n) = rs_clients st" "rs_clients (add_forwarded st n) = rs_clients st"
  "rs_clients (add_dropped st n) = rs_clients st" "rs_clients (count_slow_client st) = rs_clients st"
  "rs_clients (count_auth_timeout st) = rs_clients st" "rs_clients (on_metrics f st) = rs_clients st"
  by (simp_all add: add_attempted_def add_forwarded_def add_dropped_def count_slow_client_def
      count_auth_timeout_def on_metrics_def)

text \<open>What a round of a session may do to the rest of the relay.\<close>

definition gentle :: "relay_state \<Rightarrow> downstream \<Rightarrow> relay_state \<times> downstream \<Rightarrow> bool" where
  "gentle st ds r \<longleftrightarrow>
     active (fst r) = active st \<and> ds_id (snd r) = ds_id ds \<and>
     (ds_authenticated ds \<longrightarrow> ds_authenticated (snd r)) \<and>
     (ds_writer_open (snd r) \<longrightarrow>
        ds_writer_open ds \<and> balance (fst r) - flight (snd r) = balance st - flight ds) \<and>
     (rs_clients (fst r) = rs_clients st \<or>
      (\<exists>v. rs_clients (fst r) = AList.update (ds_id ds) v (rs_clients st)) \<and> ds_authenticated (snd r))"

lemma gentle_break: "active st' = active st \<Longrightarrow> balance st' = balance st \<Longrightarrow> rs_clients st' = rs_clients st \<Longrightarrow>
    gentle st ds (st', ds_break ds r)"
  by (simp add: gentle_def ds_break_def flight_def in_flight_def)

lemma gentle_forward: "gentle st ds (ds_forward st ds chunk)"
  by (auto simp: gentle_def ds_forward_def Let_def ds_break_def flight_def in_flight_def algebra_simps)

lemma gentle_read: "gentle st ds (ds_read st ds wire now usecs)"
  by (auto simp: gentle_def ds_read_def active_def balance_def flight_def in_flight_def
      split: consume_result.split option.split)

lemma gentle_round: "gentle st ds (ds_round cfg st ds sd now i)"
proof -
  have sel: "gentle st ds (ds_select st ds i)"
  proof (cases i)
    case (Ds_Chunk chunk)
    moreover have "gentle st ds (st, ds)" by (simp add: gentle_def)
    ultimately show ?thesis using gentle_forward by (simp add: ds_select_def)
  next
    case (Ds_Bytes wire n usecs)
    then show ?thesis using gentle_read by (simp add: ds_select_def)
  qed (auto simp: ds_select_def gentle_def ds_break_def flight_def in_flight_def active_def balance_def on_metrics_def)
  show ?thesis
    using sel gentle_break [of st st] gentle_break [of "count_auth_timeout st" st] by (simp add: ds_round_def)
qed

lemma gentle_take: "gentle st ds (st, writer_take ds)"
  by (auto simp: gentle_def writer_take_def flight_def in_flight_def split: option.split list.split)

lemma gentle_done: "gentle st ds (writer_done st ds ok)"
  by (auto simp: gentle_def writer_done_def flight_def in_flight_def algebra_simps split: option.split)

lemma round_live: "ds_phase ds = Ds_Running \<Longrightarrow> ds_phase (snd (ds_round cfg st ds sd now i)) \<noteq> Ds_Closed"
  by (auto simp: ds_round_def ds_select_def ds_read_def ds_forward_def ds_break_def Let_def
      split: ds_input.split consume_result.split option.split)

lemma writer_phase [simp]:
  "ds_phase (writer_take ds) = ds_phase ds" "ds_phase (snd (writer_done st ds ok)) = ds_phase ds"
  by (auto simp: writer_take_def writer_done_def split: option.split list.split)

section \<open>Invariant of the relay\<close>

lemma sum_list_map_update:
  fixes f :: "'b \<Rightarrow> 'a::ab_group_add"
  shows "k < length xs \<Longrightarrow> sum_list (map f (xs[k := y])) = sum_list (map f xs) - f (xs ! k) + f y"
  by (induction xs arbitrary: k) (auto split: nat.split simp: algebra_simps)

lemma filter_update:
  "k < length xs \<Longrightarrow>
     length (filter P (xs[k := y])) + (if P (xs ! k) then 1 else 0) = length (filter P xs) + (if P y then 1 else 0)"
proof (induction xs arbitrary: k)
  case (Cons x xs)
  then show ?case by (cases k) auto
qed simp

definition admission_ok :: "relay_config \<Rightarrow> relay_sys \<Rightarrow> bool" where
  "admission_ok cfg sy \<longleftrightarrow>
     unat (active (sy_state sy)) = length (filter live (sy_sessions sy)) \<and>
     length (filter live (sy_sessions sy)) \<le> rl_max_clients cfg"

definition clients_ok :: "relay_sys \<Rightarrow> bool" where
  "clients_ok sy \<longleftrightarrow>
     distinct (map fst (rs_clients (sy_state sy))) \<and>
     (\<forall>c \<in> fst ` set (rs_clients (sy_state sy)).
        \<exists>ds \<in> set (sy_sessions sy). ds_id ds = c \<and> live ds \<and> ds_authenticated ds)"

definition bytes_ok :: "relay_sys \<Rightarrow> bool" where
  "bytes_ok sy \<longleftrightarrow>
     (\<forall>ds \<in> set (sy_sessions sy). ds_writer_open ds) \<longrightarrow>
     balance (sy_state sy) = sum_list (map flight (sy_sessions sy))"

definition sys_inv :: "relay_config \<Rightarrow> relay_sys \<Rightarrow> bool" where
  "sys_inv cfg sy \<longleftrightarrow>
     admission_ok cfg sy \<and> clients_ok sy \<and> bytes_ok sy \<and> list_all (session_ok cfg) (sy_sessions sy)"

lemma sys_inv_new: "sys_inv cfg (sys_new cfg)"
  by (simp add: sys_inv_def sys_new_def admission_ok_def clients_ok_def bytes_ok_def relay_state_new_def
      metrics_default_def active_def balance_def)

lemma bytes_ok_put:
  assumes "bytes_ok sy" "k < length (sy_sessions sy)" "gentle (sy_state sy) (sy_sessions sy ! k) r"
  shows "bytes_ok (put_session sy k r)"
  unfolding bytes_ok_def put_session_def
proof (simp, intro impI)
  let ?ss = "sy_sessions sy"
  assume all: "\<forall>ds \<in> set (?ss[k := snd r]). ds_writer_open ds"
  then have r: "ds_writer_open (snd r)" using assms(2) by (auto simp: set_update_memI)
  have "ds_writer_open ds" if mem: "ds \<in> set ?ss" for ds
  proof -
    obtain j where j: "j < length ?ss" "?ss ! j = ds" using mem by (metis in_set_conv_nth)
    show ?thesis
    proof (cases "j = k")
      case True
      with r j assms(3) show ?thesis by (simp add: gentle_def)
    next
      case False
      then have "ds \<in> set (?ss[k := snd r])" using j by (metis length_list_update nth_list_update_neq nth_mem)
      with all show ?thesis by blast
    qed
  qed
  then have "balance (sy_state sy) = sum_list (map flight ?ss)" using assms(1) by (simp add: bytes_ok_def)
  moreover have "balance (fst r) - flight (snd r) = balance (sy_state sy) - flight (?ss ! k)"
    using assms(3) r by (simp add: gentle_def)
  then have "balance (fst r) = balance (sy_state sy) - flight (?ss ! k) + flight (snd r)"
    by (simp add: algebra_simps)
  ultimately show "balance (fst r) = sum_list (map flight (?ss[k := snd r]))"
    using assms(2) by (simp add: sum_list_map_update)
qed

lemma admission_ok_put:
  assumes "admission_ok cfg sy" "k < length (sy_sessions sy)" "live (sy_sessions sy ! k)"
    "active (fst r) = active (sy_state sy)" "live (snd r)"
  shows "admission_ok cfg (put_session sy k r)"
  using assms filter_update [OF assms(2), of live "snd r"] by (simp add: admission_ok_def put_session_def)

lemma clients_ok_put:
  assumes "clients_ok sy" "k < length (sy_sessions sy)" "gentle (sy_state sy) (sy_sessions sy ! k) r"
    "live (sy_sessions sy ! k) \<Longrightarrow> live (snd r)"
    "rs_clients (fst r) \<noteq> rs_clients (sy_state sy) \<Longrightarrow> live (snd r)"
  shows "clients_ok (put_session sy k r)"
proof -
  let ?ss = "sy_sessions sy" and ?cl = "rs_clients (sy_state sy)"
  have new: "snd r \<in> set (?ss[k := snd r])" using assms(2) by (rule set_update_memI)
  have keep: "\<exists>ds \<in> set (?ss[k := snd r]). ds_id ds = c \<and> live ds \<and> ds_authenticated ds"
    if ex: "\<exists>ds \<in> set ?ss. ds_id ds = c \<and> live ds \<and> ds_authenticated ds" for c
  proof -
    obtain ds where ds: "ds \<in> set ?ss" "ds_id ds = c" "live ds" "ds_authenticated ds" using ex by blast
    then obtain j where j: "j < length ?ss" "?ss ! j = ds" by (metis in_set_conv_nth)
    then have j: "j < length ?ss" "ds_id (?ss ! j) = c" "live (?ss ! j)" "ds_authenticated (?ss ! j)"
      using ds by simp_all
    show ?thesis
    proof (cases "j = k")
      case True
      with j new assms(3,4) show ?thesis unfolding gentle_def by auto
    next
      case False
      then have "?ss ! j \<in> set (?ss[k := snd r])" using j(1) by (metis length_list_update nth_list_update_neq nth_mem)
      with j show ?thesis by blast
    qed
  qed
  show ?thesis
  proof (cases "rs_clients (fst r) = ?cl")
    case True
    with assms(1) keep show ?thesis by (auto simp: clients_ok_def put_session_def)
  next
    case False
    then obtain v where v: "rs_clients (fst r) = AList.update (ds_id (?ss ! k)) v ?cl" "ds_authenticated (snd r)"
      using assms(3) by (auto simp: gentle_def)
    have "ds_id (snd r) = ds_id (?ss ! k)" using assms(3) by (simp add: gentle_def)
    with v assms(5) [OF False] new keep assms(1) show ?thesis
      by (auto simp: clients_ok_def put_session_def dom_update distinct_update)
  qed
qed

lemma session_list_put:
  assumes "list_all (session_ok cfg) (sy_sessions sy)" "session_ok cfg (snd r)"
  shows "list_all (session_ok cfg) (sy_sessions (put_session sy k r))"
  using assms set_update_subset_insert [of "sy_sessions sy" k "snd r"]
  by (auto simp: put_session_def list_all_iff)

lemma sys_inv_put:
  assumes "sys_inv cfg sy" "k < length (sy_sessions sy)" "gentle (sy_state sy) (sy_sessions sy ! k) r"
    "live (sy_sessions sy ! k)" "live (snd r)" "session_ok cfg (snd r)"
  shows "sys_inv cfg (put_session sy k r)"
  using assms admission_ok_put [of cfg sy k r] clients_ok_put [of sy k r] bytes_ok_put [of sy k r]
    session_list_put [of cfg sy r k]
  by (simp add: sys_inv_def gentle_def)

text \<open>The writer steps of a closed session do nothing.\<close>

lemma writer_idle:
  assumes "session_ok cfg ds" "\<not> live ds"
  shows "writer_take ds = ds" "writer_done st ds ok = (st, ds)"
  using assms
  by (auto simp: session_ok_def live_def in_flight_def writer_take_def writer_done_def split: option.splits list.splits)

lemma put_same: "k < length (sy_sessions sy) \<Longrightarrow> put_session sy k (sy_state sy, sy_sessions sy ! k) = sy"
  by (simp add: put_session_def)

lemma relay_accept_inv:
  assumes "sys_inv cfg sy" "relay_accept cfg (sy_state sy) peer now = (st, Inr ds)"
  shows "sys_inv cfg (sy\<lparr>sy_state := st, sy_sessions := sy_sessions sy @ [ds]\<rparr>)"
proof -
  let ?a = "active (sy_state sy)"
  have r: "?a < word_of_nat (rl_max_clients cfg)" "ds = downstream_new cfg (rs_next_client_id (sy_state sy)) peer now"
    "active st = ?a + 1" "rs_clients st = rs_clients (sy_state sy)" "balance st = balance (sy_state sy)"
    using assms(2) by (auto simp: relay_accept_def active_def balance_def on_metrics_def Let_def split: if_splits)
  have lt: "unat ?a < unat (word_of_nat (rl_max_clients cfg) :: u64)" using r(1) by (simp add: word_less_nat_alt)
  then have "Suc (unat ?a) < 2 ^ 64" using unat_bound [of "word_of_nat (rl_max_clients cfg) :: u64"] by simp
  then have "unat (?a + 1) = Suc (unat ?a)" by (simp add: unat_word_ariths)
  moreover have "unat ?a < rl_max_clients cfg"
    using lt by (metis le_unat_uoi linorder_not_less nle_le order_less_le_trans unat_of_nat mod_less_eq_dividend)
  ultimately have "admission_ok cfg (sy\<lparr>sy_state := st, sy_sessions := sy_sessions sy @ [ds]\<rparr>)"
    using assms(1) r by (simp add: sys_inv_def admission_ok_def live_def downstream_new_def)
  moreover have "flight ds = 0" "ds_writer_open ds" using r(2) by (simp_all add: downstream_new_def flight_def in_flight_def)
  then have "bytes_ok (sy\<lparr>sy_state := st, sy_sessions := sy_sessions sy @ [ds]\<rparr>)"
    using assms(1) r(5) by (simp add: sys_inv_def bytes_ok_def)
  moreover have "clients_ok (sy\<lparr>sy_state := st, sy_sessions := sy_sessions sy @ [ds]\<rparr>)"
    using assms(1) r(4) by (auto simp: sys_inv_def clients_ok_def)
  ultimately show ?thesis
    using assms(1) r(2) session_ok_new by (simp add: sys_inv_def)
qed

lemma sys_inv_state:
  assumes "sys_inv cfg sy" "active st = active (sy_state sy)" "balance st = balance (sy_state sy)"
    "rs_clients st = rs_clients (sy_state sy)"
  shows "sys_inv cfg (sy\<lparr>sy_state := st\<rparr>)" "sys_inv cfg (sy\<lparr>sy_state := st, sy_upstream := u\<rparr>)"
  using assms by (simp_all add: sys_inv_def admission_ok_def clients_ok_def bytes_ok_def)

lemma upstream_step_effect:
  assumes "upstream_step cfg st u i = (st', u')"
  shows "active st' = active st \<and> balance st' = balance st \<and> rs_clients st' = rs_clients st"
  using assms
  by (auto simp: upstream_step_def upstream_read_def count_upstream_disconnect_def on_metrics_def active_def balance_def Let_def
      split: up_phase.splits up_input.splits bool.splits prod.splits if_splits option.splits)

lemma quality_tick_effect:
  "active (quality_tick cfg st) = active st" "balance (quality_tick cfg st) = balance st"
  "rs_clients (quality_tick cfg st) = rs_clients st"
  by (simp_all add: quality_tick_def on_metrics_def active_def balance_def Let_def)

lemma finish_inv:
  assumes "sys_inv cfg sy" "k < length (sy_sessions sy)" "ds_phase (sy_sessions sy ! k) = Ds_Draining reason"
  shows "sys_inv cfg (put_session sy k (ds_finish (sy_state sy) (sy_sessions sy ! k)))"
proof (cases "ds_queue (sy_sessions sy ! k) = [] \<and> ds_writing (sy_sessions sy ! k) = None")
  case False
  then have "ds_finish (sy_state sy) (sy_sessions sy ! k) = (sy_state sy, sy_sessions sy ! k)"
    unfolding ds_finish_def by (rule if_not_P)
  then show ?thesis using assms(1,2) by (simp add: put_same)
next
  case True
  let ?ds = "sy_sessions sy ! k" and ?st = "sy_state sy"
  let ?ds' = "?ds\<lparr>ds_phase := Ds_Closed\<rparr>"
  define st' where "st' = fst (ds_finish ?st ?ds)"
  have r: "ds_finish ?st ?ds = (st', ?ds')" using True by (simp add: st'_def ds_finish_def)
  have st': "active st' = active ?st - 1" "balance st' = balance ?st"
      "rs_clients st' = AList.delete (ds_id ?ds) (rs_clients ?st)"
    using True by (simp_all add: st'_def ds_finish_def on_metrics_def active_def balance_def)
  have lv: "live ?ds" "\<not> live ?ds'" using assms(3) by (simp_all add: live_def)
  have cnt: "length (filter live ((sy_sessions sy)[k := ?ds'])) + 1 = length (filter live (sy_sessions sy))"
    using filter_update [OF assms(2), of live ?ds'] lv by simp
  have adm: "unat (active ?st) = length (filter live (sy_sessions sy))"
      "length (filter live (sy_sessions sy)) \<le> rl_max_clients cfg"
    using assms(1) by (simp_all add: sys_inv_def admission_ok_def)
  then have "active ?st \<noteq> 0" using cnt by auto
  then have "unat (active ?st - 1) = unat (active ?st) - 1" by (simp add: unat_minus_one)
  then have "admission_ok cfg (put_session sy k (st', ?ds'))"
    using adm cnt st'(1) by (simp add: admission_ok_def put_session_def)
  moreover have "gentle ?st ?ds (?st, ?ds')" by (simp add: gentle_def flight_def in_flight_def)
  then have "bytes_ok (put_session sy k (?st, ?ds'))"
    using assms(1,2) by (intro bytes_ok_put) (simp_all add: sys_inv_def)
  then have "bytes_ok (put_session sy k (st', ?ds'))"
    using st'(2) by (simp add: bytes_ok_def put_session_def)
  moreover have "clients_ok (put_session sy k (st', ?ds'))"
  proof -
    have cl: "distinct (map fst (rs_clients ?st))"
        "\<And>c. c \<in> fst ` set (rs_clients ?st) \<Longrightarrow>
           \<exists>ds \<in> set (sy_sessions sy). ds_id ds = c \<and> live ds \<and> ds_authenticated ds"
      using assms(1) unfolding sys_inv_def clients_ok_def by blast+
    have "\<exists>ds \<in> set ((sy_sessions sy)[k := ?ds']). ds_id ds = c \<and> live ds \<and> ds_authenticated ds"
      if c: "c \<in> fst ` set (rs_clients st')" for c
    proof -
      have "c \<in> fst ` set (rs_clients ?st)" "c \<noteq> ds_id ?ds" using c by (auto simp: st'(3) AList.delete_eq)
      then obtain ds where ds: "ds \<in> set (sy_sessions sy)" "ds_id ds = c" "live ds" "ds_authenticated ds"
        using cl(2) by blast
      then obtain j where "j < length (sy_sessions sy)" "sy_sessions sy ! j = ds" by (metis in_set_conv_nth)
      then have "ds \<in> set ((sy_sessions sy)[k := ?ds'])"
        using \<open>c \<noteq> ds_id ?ds\<close> ds(2) by (metis length_list_update nth_list_update_neq nth_mem)
      with ds show ?thesis by blast
    qed
    then show ?thesis
      using cl(1) by (simp add: clients_ok_def put_session_def st'(3) distinct_delete)
  qed
  moreover have "session_ok cfg ?ds'"
    using assms(1,2) True by (auto simp: sys_inv_def list_all_length session_ok_def held_def in_flight_def)
  then have "list_all (session_ok cfg) (sy_sessions (put_session sy k (st', ?ds')))"
    using assms(1) by (intro session_list_put) (simp_all add: sys_inv_def)
  ultimately show ?thesis by (simp add: r sys_inv_def)
qed

lemma relay_step_inv:
  assumes "relay_step cfg sy sy'" "sys_inv cfg sy"
  shows "sys_inv cfg sy'"
  using assms(1)
proof (cases rule: relay_step.cases)
  case (accepted peer now st ds)
  then show ?thesis using relay_accept_inv [OF assms(2)] by blast
next
  case (rejected peer now st wire)
  then show ?thesis
    using sys_inv_state(1) [OF assms(2), of st]
    by (auto simp: relay_accept_def active_def balance_def on_metrics_def Let_def split: if_splits)
next
  case (session k ds sd now i)
  have ok: "session_ok cfg ds" using assms(2) session by (simp add: sys_inv_def list_all_length)
  have ok': "session_ok cfg (snd (ds_round cfg (sy_state sy) ds sd now i))"
    using ok session(4) by (rule session_ok_round) (rule prod.collapse [symmetric])
  show ?thesis
    unfolding session(1) using session(2-4) ok'
    by (intro sys_inv_put [OF assms(2)]) (use gentle_round round_live [of ds] in \<open>auto simp: live_def\<close>)
next
  case (writer_takes k ds)
  have ok: "session_ok cfg ds" using assms(2) writer_takes by (simp add: sys_inv_def list_all_length)
  show ?thesis
  proof (cases "live ds")
    case True
    then show ?thesis
      unfolding writer_takes(1) using writer_takes(2,3)
      by (intro sys_inv_put [OF assms(2)]) (use gentle_take session_ok_take [OF ok] in \<open>auto simp: live_def\<close>)
  next
    case False
    then show ?thesis using writer_takes writer_idle [OF ok] put_same assms(2) by simp
  qed
next
  case (writer_finishes k ds b)
  have ok: "session_ok cfg ds" using assms(2) writer_finishes by (simp add: sys_inv_def list_all_length)
  show ?thesis
  proof (cases "live ds")
    case True
    then show ?thesis
      unfolding writer_finishes(1) using writer_finishes(2,3)
      by (intro sys_inv_put [OF assms(2)]) (use gentle_done session_ok_done [OF ok] in \<open>auto simp: live_def\<close>)
  next
    case False
    then show ?thesis using writer_finishes writer_idle [OF ok] put_same assms(2) by simp
  qed
next
  case (finished k ds reason)
  then show ?thesis using finish_inv [OF assms(2)] by blast
next
  case (upstream i st u)
  then show ?thesis using sys_inv_state(2) [OF assms(2)] upstream_step_effect [OF upstream(2)] by simp
next
  case quality
  then show ?thesis using sys_inv_state(1) [OF assms(2)] by (simp add: quality_tick_effect)
qed

lemma relay_reach_inv: "relay_reach cfg sy \<Longrightarrow> sys_inv cfg sy"
  by (induction rule: relay_reach.induct) (auto intro: sys_inv_new relay_step_inv)

section \<open>The quality monitor resumes\<close>

text \<open>Ticks of the monitor with nothing attempted between them; chunks that were queued before may
  still be written.\<close>

primrec idle_ticks :: "relay_config \<Rightarrow> relay_state \<Rightarrow> u64 list list \<Rightarrow> relay_state" where
  "idle_ticks cfg st [] = st"
| "idle_ticks cfg st (written # rest) = idle_ticks cfg (quality_tick cfg (foldl add_forwarded st written)) rest"

definition window_ok :: "quality_window \<Rightarrow> bool" where
  "window_ok w \<longleftrightarrow> qw_index w < length (qw_buckets w)"

text \<open>The last \<open>k\<close> buckets, counted back from the current one, saw no attempts.\<close>

definition idle_for :: "nat \<Rightarrow> quality_window \<Rightarrow> bool" where
  "idle_for k w \<longleftrightarrow>
     (\<forall>m < k. qb_attempted (qw_buckets w ! ((qw_index w + length (qw_buckets w) - m) mod length (qw_buckets w))) = 0)"

lemma nth_update_if: "xs[i := v] ! j = (if i = j \<and> j < length xs then v else xs ! j)"
  by (cases "i < length xs") (auto simp: nth_list_update list_update_beyond)

lemma window_forwarded [simp]:
  "length (qw_buckets (window_add_forwarded w n)) = length (qw_buckets w)"
  "qw_index (window_add_forwarded w n) = qw_index w"
  "qb_attempted (qw_buckets (window_add_forwarded w n) ! j) = qb_attempted (qw_buckets w ! j)"
  by (simp_all add: window_add_forwarded_def Let_def nth_update_if)

lemma fold_forwarded_window:
  "let w = rs_quality_window (foldl add_forwarded st ns); v = rs_quality_window st in
     length (qw_buckets w) = length (qw_buckets v) \<and> qw_index w = qw_index v \<and>
     (\<forall>j. qb_attempted (qw_buckets w ! j) = qb_attempted (qw_buckets v ! j))"
  by (induction ns arbitrary: st) (simp_all add: Let_def add_forwarded_def)

lemma idle_rotate:
  assumes "window_ok w" "idle_for k w" "k < length (qw_buckets w)"
  shows "idle_for (Suc k) (window_rotate w)"
  unfolding idle_for_def
proof (intro allI impI)
  let ?N = "length (qw_buckets w)" and ?i = "(qw_index w + 1) mod length (qw_buckets w)"
  fix m assume m: "m < Suc k"
  have N: "0 < ?N" using assms(1) by (auto simp: window_ok_def)
  show "qb_attempted (qw_buckets (window_rotate w) !
      ((qw_index (window_rotate w) + length (qw_buckets (window_rotate w)) - m) mod
       length (qw_buckets (window_rotate w)))) = 0"
  proof (cases m)
    case 0
    then show ?thesis using N by (simp add: window_rotate_def Let_def bucket_default_def)
  next
    case (Suc m')
    have "(?i + ?N - Suc m') mod ?N = (qw_index w + ?N - m') mod ?N"
    proof -
      have "(?i + (?N - Suc m')) mod ?N = (qw_index w + 1 + (?N - Suc m')) mod ?N" by (simp add: mod_simps)
      moreover have "Suc m' \<le> ?N" using m Suc assms(3) by simp
      ultimately show ?thesis by (simp add: Suc_diff_Suc)
    qed
    moreover have "qb_attempted (qw_buckets w ! ((qw_index w + ?N - m') mod ?N)) = 0"
      using assms(2) m Suc by (simp add: idle_for_def)
    ultimately show ?thesis
      using Suc by (simp add: window_rotate_def Let_def nth_update_if bucket_default_def)
  qed
qed

lemma mod_back:
  assumes "i < N" "j < (N :: nat)"
  shows "(i + N - (i + N - j) mod N) mod N = j"
proof (cases "j \<le> i")
  case True
  have "(i + N - j) mod N = (i - j + N) mod N" using True by (intro arg_cong [where f = "\<lambda>x. x mod N"]) simp
  also have "\<dots> = i - j" using assms(1) by (simp add: mod_add_self2)
  finally have 1: "(i + N - j) mod N = i - j" .
  have "(i + N - (i - j)) mod N = (j + N) mod N" using True by (intro arg_cong [where f = "\<lambda>x. x mod N"]) simp
  also have "\<dots> = j" using assms(2) by simp
  finally show ?thesis using 1 by simp
next
  case False
  then have "(i + N - j) mod N = i + N - j" using assms(2) by (intro mod_less) simp
  with False assms show ?thesis by simp
qed

lemma idle_all:
  assumes "window_ok w" "idle_for (length (qw_buckets w)) w"
  shows "window_ratio w = 1"
proof -
  let ?N = "length (qw_buckets w)"
  have z: "qb_attempted b = 0" if b: "b \<in> set (qw_buckets w)" for b
  proof -
    obtain j where j: "j < ?N" "qw_buckets w ! j = b" using b by (metis in_set_conv_nth)
    let ?m = "(qw_index w + ?N - j) mod ?N"
    have "(qw_index w + ?N - ?m) mod ?N = j" using assms(1) j(1) by (intro mod_back) (simp_all add: window_ok_def)
    moreover have "?m < ?N" using j(1) by (intro mod_less_divisor) linarith
    ultimately show ?thesis using assms(2) j(2) unfolding idle_for_def by metis
  qed
  have "foldl (\<lambda>sum b. sat_add sum (qb_attempted b)) 0 bs = 0" if "\<forall>b \<in> set bs. qb_attempted b = 0" for bs
    using that by (induction bs) auto
  then have "foldl (\<lambda>sum b. sat_add sum (qb_attempted b)) 0 (qw_buckets w) = 0" using z by blast
  then show ?thesis by (simp add: window_ratio_def Let_def)
qed

lemma quality_tick_window: "rs_quality_window (quality_tick cfg st) = window_rotate (rs_quality_window st)"
  by (simp add: quality_tick_def on_metrics_def Let_def)

lemma window_rotate_ok [simp]:
  "length (qw_buckets (window_rotate w)) = length (qw_buckets w)"
  "window_ok w \<Longrightarrow> window_ok (window_rotate w)"
  by (auto simp: window_rotate_def window_ok_def Let_def intro!: mod_less_divisor)

lemma quality_tick_resumes:
  assumes "window_ratio (window_rotate (rs_quality_window st)) = 1" "\<not> f64_less 1 (rl_quality_pause_threshold cfg)"
  shows "\<not> forwarding_paused (rs_metrics (quality_tick cfg st))"
  using assms F97_le_1 by (simp add: quality_tick_def on_metrics_def Let_def)

lemma idle_ticks_resume:
  assumes "window_ok (rs_quality_window st)" "\<not> f64_less 1 (rl_quality_pause_threshold cfg)"
    "idle_for k (rs_quality_window st)" "k \<le> length (qw_buckets (rs_quality_window st))"
    "length (qw_buckets (rs_quality_window st)) \<le> k + length ws" "ws \<noteq> []"
  shows "\<not> forwarding_paused (rs_metrics (idle_ticks cfg st ws))"
  using assms
proof (induction ws arbitrary: st k)
  case (Cons written rest)
  define st1 where "st1 = foldl add_forwarded st written"
  let ?w = "rs_quality_window st" and ?w1 = "rs_quality_window st1"
  let ?N = "length (qw_buckets ?w)"
  have w1: "length (qw_buckets ?w1) = ?N" "qw_index ?w1 = qw_index ?w"
      "\<And>j. qb_attempted (qw_buckets ?w1 ! j) = qb_attempted (qw_buckets ?w ! j)"
    using fold_forwarded_window [of st written] by (simp_all add: st1_def Let_def)
  have ok1: "window_ok ?w1" using Cons.prems(1) w1 by (simp add: window_ok_def)
  have idle1: "idle_for k ?w1" using Cons.prems(3) w1 by (simp add: idle_for_def)
  let ?w2 = "window_rotate ?w1" and ?k = "min (Suc k) ?N"
  have idle2: "idle_for ?k ?w2"
  proof (cases "k < ?N")
    case True
    then show ?thesis using idle_rotate [OF ok1 idle1] w1(1) by simp
  next
    case False
    then obtain k' where k': "?N = Suc k'" "k = Suc k'"
      using Cons.prems(1,4) by (cases ?N) (auto simp: window_ok_def)
    have "idle_for k' ?w1" using idle1 k' by (simp add: idle_for_def)
    then show ?thesis using idle_rotate [OF ok1, of k'] w1(1) k' by simp
  qed
  have st2: "rs_quality_window (quality_tick cfg st1) = ?w2" by (rule quality_tick_window)
  show ?case
  proof (cases "rest = []")
    case True
    then have "?k = ?N" using Cons.prems(4,5) by simp
    then have "window_ratio ?w2 = 1" using idle_all [of ?w2] idle2 ok1 w1(1) by simp
    then show ?thesis using True Cons.prems(2) quality_tick_resumes by (simp add: st1_def [symmetric])
  next
    case False
    then show ?thesis
      using Cons.IH [of "quality_tick cfg st1" ?k] Cons.prems(2,5) ok1 idle2 w1(1) st2
      by (auto simp: st1_def [symmetric])
  qed
qed simp

section \<open>Logon recognition\<close>

primrec consume_all :: "str \<Rightarrow> bytes list \<Rightarrow> (str \<times> str option list) option" where
  "consume_all text [] = Some (text, [])"
| "consume_all text (c # cs) =
     (case auth_consume text c of
        Consume_Panic \<Rightarrow> None
      | Consumed text' r \<Rightarrow> map_option (\<lambda>(t, rs). (t, r # rs)) (consume_all text' cs))"

lemma find_logon_length: "length (fst (find_logon text)) \<le> length text"
  by (simp add: find_logon_def Let_def split: option.split)

lemma auth_consume_bounded:
  assumes "auth_consume text wire = Consumed text' r"
  shows "length text' \<le> AUTH_TEXT_LIMIT"
proof -
  let ?t = "text @ str_of (utf8_lossy (map (\<lambda>b. b XOR 0xFF) wire))"
  let ?u = "if length ?t > AUTH_TEXT_LIMIT then drop (length ?t - AUTH_TEXT_LIMIT) ?t else ?t"
  have "text' = fst (find_logon ?u)"
    using assms by (auto simp: auth_consume_def Let_def split: if_splits prod.splits)
  then show ?thesis using find_logon_length [of ?u] by (simp split: if_splits)
qed

definition ascii_text :: "str \<Rightarrow> bool" where
  "ascii_text s \<longleftrightarrow> (\<forall>c \<in> set s. (of_char c :: nat) < 128)"

lemma auth_consume_ascii:
  assumes "ascii_text s" "length (text @ s) \<le> AUTH_TEXT_LIMIT"
  shows "auth_consume text (xor_ff (bytes_of s)) = (case find_logon (text @ s) of (t, r) \<Rightarrow> Consumed t r)"
proof -
  have "b < 0x80" if "b \<in> set (bytes_of s)" for b
    using that assms(1) by (auto simp: ascii_text_def bytes_of_def word_less_nat_alt)
  then have "utf8_lossy (bytes_of s) = bytes_of s" by (rule utf8_lossy_ascii)
  moreover have "map (\<lambda>b. b XOR 0xFF) (xor_ff (bytes_of s)) = bytes_of s"
    using xor_ff_xor_ff [of "bytes_of s"] by (simp add: xor_ff_def)
  ultimately show ?thesis using assms(2) by (simp add: auth_consume_def Let_def)
qed

text \<open>An address that the protocol can carry: its text does not complete the suffix early.\<close>

definition plain_email :: "str \<Rightarrow> bool" where
  "plain_email e \<longleftrightarrow>
     e \<noteq> [] \<and> trim e = e \<and> ascii_text e \<and> find_sub LOGON_SUFFIX (e @ LOGON_SUFFIX) = Some (length e)"

lemma find_logon_partial:
  assumes "plain_email e" "t @ u = build_logon_message e" "u \<noteq> []"
  shows "find_logon t = (t, None)"
proof (cases "length t < length LOGON_PREFIX")
  case True
  then have "find_sub LOGON_PREFIX t = None"
    using find_sub_Some [of LOGON_PREFIX t] by (cases "find_sub LOGON_PREFIX t") auto
  then show ?thesis by (simp add: find_logon_def)
next
  case False
  have "prefix t (build_logon_message e)" by (rule prefixI [OF assms(2) [symmetric]])
  moreover have "prefix LOGON_PREFIX (build_logon_message e)" by (simp add: build_logon_message_def)
  ultimately have "prefix LOGON_PREFIX t" using False by (meson prefix_length_prefix not_less)
  then obtain t' where t: "t = LOGON_PREFIX @ t'" "t' @ u = e @ LOGON_SUFFIX"
    using assms(2) by (auto simp: build_logon_message_def prefix_def)
  have "find_sub LOGON_SUFFIX t' = None"
  proof (rule ccontr)
    assume "find_sub LOGON_SUFFIX t' \<noteq> None"
    then obtain i where i: "find_sub LOGON_SUFFIX t' = Some i" by auto
    then have "find_sub LOGON_SUFFIX (e @ LOGON_SUFFIX) = Some i"
      using find_sub_append_Some [OF i, of u] t(2) by simp
    then have "i = length e" using assms(1) by (simp add: plain_email_def)
    moreover have "i + length LOGON_SUFFIX \<le> length t'" using find_sub_Some [OF i] by simp
    moreover have "length t' + length u = length e + length LOGON_SUFFIX" using t(2) by (metis length_append)
    ultimately have "length u = 0" by linarith
    then show False using assms(3) by simp
  qed
  with t(1) show ?thesis by (simp add: find_logon_def Let_def)
qed

lemma find_logon_complete:
  assumes "plain_email e"
  shows "find_logon (build_logon_message e) = ([], Some e)"
proof -
  have "find_sub LOGON_SUFFIX (e @ LOGON_SUFFIX) = Some (length e)" "trim e = e" "e \<noteq> []"
    using assms by (simp_all add: plain_email_def)
  then show ?thesis
    using parse_build_logon_message [of e]
    by (simp add: find_logon_def build_logon_message_def Let_def)
qed

lemma consume_logon:
  assumes "plain_email e" "t @ concat ss = build_logon_message e" "ss \<noteq> []" "\<forall>s \<in> set ss. s \<noteq> []"
    "length (build_logon_message e) \<le> AUTH_TEXT_LIMIT"
  shows "consume_all t (map (xor_ff \<circ> bytes_of) ss) = Some ([], replicate (length ss - 1) None @ [Some e])"
  using assms
proof (induction ss arbitrary: t)
  case (Cons s ss)
  have "ascii_text (build_logon_message e)"
    using Cons.prems(1) by (auto simp: plain_email_def ascii_text_def build_logon_message_def LOGON_PREFIX_def LOGON_SUFFIX_def)
  moreover have "set s \<subseteq> set (build_logon_message e)"
    using Cons.prems(2) by (metis Un_upper1 Un_upper2 concat.simps(2) order_trans set_append)
  ultimately have asc: "ascii_text s" by (auto simp: ascii_text_def)
  have len: "length (t @ s) \<le> AUTH_TEXT_LIMIT"
    using Cons.prems(2,5) by (metis append_assoc concat.simps(2) le_add1 length_append le_trans)
  note step = auth_consume_ascii [OF asc len]
  show ?case
  proof (cases "ss = []")
    case True
    then have "t @ s = build_logon_message e" using Cons.prems(2) by simp
    then show ?thesis using step True find_logon_complete [OF Cons.prems(1)] by simp
  next
    case False
    then have "concat ss \<noteq> []" using Cons.prems(4) by (cases ss) auto
    then have "find_logon (t @ s) = (t @ s, None)"
      using Cons.prems(1,2) by (intro find_logon_partial [of e _ "concat ss"]) simp_all
    moreover have "consume_all (t @ s) (map (xor_ff \<circ> bytes_of) ss) =
        Some ([], replicate (length ss - 1) None @ [Some e])"
      using Cons.IH [of "t @ s"] Cons.prems False by (simp add: comp_def)
    ultimately show ?thesis
      using step False by (cases ss) (simp_all add: comp_def)
  qed
qed simp

text \<open>
  Bytes that are not UTF-8 grow threefold in the text, and the text is cut at a byte position:
  a downstream client that sends 2048 and then 683 zero bytes makes the cut fall inside a
  character, where \<^verbatim>\<open>split_off\<close> panics.
\<close>

lemma utf8_lossy_ff: "utf8_lossy (replicate n 0xFF) = concat (replicate n replacement)"
proof (induction n)
  case 0
  show ?case by (simp add: utf8_lossy.simps)
next
  case (Suc n)
  have "utf8_item_at (0xFF # replicate n 0xFF) = Utf8_Bad (Some 1)" by simp
  then have "utf8_lossy (0xFF # replicate n 0xFF) = replacement @ utf8_lossy (replicate n 0xFF)"
    by (subst utf8_lossy.simps) simp
  with Suc show ?case by simp
qed

definition noise :: "nat \<Rightarrow> str" where
  "noise n = str_of (concat (replicate n replacement))"

lemma noise_append: "noise m @ noise n = noise (m + n)"
  by (simp add: noise_def replicate_add flip: str_of_append)

lemma length_noise [simp]: "length (noise n) = 3 * n"
  by (induction n) (simp_all add: noise_def replacement_def)

lemma noise_no_logon: "find_logon (noise n) = (noise n, None)"
proof -
  have "set (noise n) \<subseteq> char_of_byte ` {0xEF, 0xBF, 0xBD}"
    by (induction n) (auto simp: noise_def replacement_def str_of_def)
  moreover have "CHR ''B'' \<notin> char_of_byte ` {0xEF, 0xBF, 0xBD}" by (simp add: char_of_byte_def) code_simp
  ultimately have "CHR ''B'' \<notin> set (noise n)" by blast
  then have "find_sub LOGON_PREFIX (noise n) = None"
    by (intro find_sub_missing [of "CHR ''B''"]) (simp_all add: LOGON_PREFIX_def)
  then show ?thesis by (simp add: find_logon_def)
qed

lemma consume_noise:
  "auth_consume (noise m) (replicate n 0) =
     (if 3 * (m + n) \<le> AUTH_TEXT_LIMIT then Consumed (noise (m + n)) None
      else if is_char_boundary (noise (m + n)) (3 * (m + n) - AUTH_TEXT_LIMIT)
      then (case find_logon (drop (3 * (m + n) - AUTH_TEXT_LIMIT) (noise (m + n))) of (t, r) \<Rightarrow> Consumed t r)
      else Consume_Panic)"
proof -
  have "str_of (utf8_lossy (map (\<lambda>b. b XOR 0xFF) (replicate n 0))) = noise n"
    by (simp add: utf8_lossy_ff noise_def)
  then have "noise m @ str_of (utf8_lossy (map (\<lambda>b. b XOR 0xFF) (replicate n 0))) = noise (m + n)"
    by (simp only: noise_append)
  then show ?thesis
    unfolding auth_consume_def Let_def by (simp only: length_noise noise_no_logon) auto
qed

lemma auth_consume_panics: "consume_all [] [replicate 2048 0, replicate 683 0] = None"
proof -
  have n0: "[] = noise 0" by (simp add: noise_def str_of_def)
  have "noise 2731 ! 1 = char_of_byte 0xBF"
    using noise_append [of 1 2730, symmetric] by (simp add: noise_def [of "Suc 0"] replacement_def str_of_def)
  then have "\<not> is_char_boundary (noise 2731) 1"
    by (simp add: is_char_boundary_def is_cont_def)
  then show ?thesis
    unfolding consume_all.simps n0 by (simp add: consume_noise AUTH_TEXT_LIMIT_def)
qed

section \<open>The quality window of a running relay\<close>

definition window_shape :: "relay_config \<Rightarrow> relay_state \<Rightarrow> bool" where
  "window_shape cfg st \<longleftrightarrow>
     length (qw_buckets (rs_quality_window st)) = max (rl_quality_window_secs cfg) 1 \<and> window_ok (rs_quality_window st)"

lemma window_shape_new: "window_shape cfg (relay_state_new eps (rl_quality_window_secs cfg))"
  by (simp add: window_shape_def window_ok_def relay_state_new_def window_new_def)

lemma window_shape_add [simp]:
  "window_shape cfg (add_attempted st n) = window_shape cfg st"
  "window_shape cfg (add_forwarded st n) = window_shape cfg st"
  by (simp_all add: window_shape_def window_ok_def add_attempted_def add_forwarded_def
      window_add_attempted_def window_add_forwarded_def Let_def)

lemma window_shape_same [simp]:
  "window_shape cfg (on_metrics f st) = window_shape cfg st"
  "window_shape cfg (st\<lparr>rs_clients := c\<rparr>) = window_shape cfg st"
  "window_shape cfg (st\<lparr>rs_next_client_id := i\<rparr>) = window_shape cfg st"
  "window_shape cfg (st\<lparr>rs_server_list_wire := w\<rparr>) = window_shape cfg st"
  by (simp_all add: window_shape_def on_metrics_def)

lemma window_shape_tick: "window_shape cfg st \<Longrightarrow> window_shape cfg (quality_tick cfg st)"
  by (simp add: window_shape_def quality_tick_window)

lemma window_shape_round: "window_shape cfg (fst (ds_round c st ds sd now i)) = window_shape cfg st"
  by (auto simp: ds_round_def ds_select_def ds_read_def ds_forward_def add_dropped_def count_slow_client_def
      count_auth_timeout_def Let_def split: ds_input.split consume_result.split option.split)

lemma window_shape_done: "window_shape cfg (fst (writer_done st ds ok)) = window_shape cfg st"
  by (auto simp: writer_done_def add_dropped_def split: option.split)

lemma window_shape_finish: "window_shape cfg (fst (ds_finish st ds)) = window_shape cfg st"
  by (simp add: ds_finish_def)

lemma window_shape_accept: "window_shape cfg (fst (relay_accept c st peer now)) = window_shape cfg st"
  by (simp add: relay_accept_def Let_def)

lemma window_shape_upstream: "window_shape cfg (fst (upstream_step c st u i)) = window_shape cfg st"
  by (auto simp: upstream_step_def upstream_read_def count_upstream_disconnect_def Let_def
      split: up_phase.split up_input.split bool.split prod.split option.split)

lemmas window_shape_ops = window_shape_round window_shape_done window_shape_finish window_shape_accept
  window_shape_upstream

lemma window_shape_step:
  assumes "relay_step cfg sy sy'" "window_shape cfg (sy_state sy)"
  shows "window_shape cfg (sy_state sy')"
  using assms(1)
proof (cases rule: relay_step.cases)
  case (accepted peer now st ds)
  then show ?thesis using assms(2) window_shape_accept [of cfg cfg "sy_state sy" peer now] by simp
next
  case (rejected peer now st wire)
  then show ?thesis using assms(2) window_shape_accept [of cfg cfg "sy_state sy" peer now] by simp
next
  case (upstream i st u)
  then show ?thesis using assms(2) window_shape_upstream [of cfg cfg "sy_state sy" "sy_upstream sy" i] by simp
qed (use assms(2) in \<open>simp_all add: put_session_def window_shape_ops window_shape_tick\<close>)

lemma window_shape_reach: "relay_reach cfg sy \<Longrightarrow> window_shape cfg (sy_state sy)"
proof (induction rule: relay_reach.induct)
  case start
  show ?case by (simp add: sys_new_def window_shape_new)
qed (rule window_shape_step)

section \<open>Panicked sessions\<close>

lemma panicked_stays:
  assumes "relay_step cfg sy sy'" "k < length (sy_sessions sy)" "ds_phase (sy_sessions sy ! k) = Ds_Panicked"
  shows "k < length (sy_sessions sy') \<and> ds_phase (sy_sessions sy' ! k) = Ds_Panicked"
  using assms
  by (cases rule: relay_step.cases) (auto simp: put_session_def nth_append nth_update_if)

text \<open>A session that panicked keeps its slot whatever the relay does afterwards.\<close>

lemma panicked_holds_slot:
  assumes "relay_reach cfg sy" "(relay_step cfg)\<^sup>*\<^sup>* sy sy'" "k < length (sy_sessions sy)"
    "ds_phase (sy_sessions sy ! k) = Ds_Panicked"
  shows "0 < active (sy_state sy')"
proof -
  have "relay_reach cfg sy' \<and> k < length (sy_sessions sy') \<and> ds_phase (sy_sessions sy' ! k) = Ds_Panicked"
    using assms(2,1,3,4)
    by (induction rule: rtranclp_induct) (auto intro: relay_reach.step dest: panicked_stays)
  then have "sy_sessions sy' ! k \<in> set (filter live (sy_sessions sy'))" "sys_inv cfg sy'"
    by (auto simp: live_def intro: relay_reach_inv)
  then have "unat (active (sy_state sy')) \<noteq> 0"
    unfolding sys_inv_def admission_ok_def by (metis length_0_conv list.set(1) empty_iff)
  then show ?thesis by (metis unat_eq_zero word_neq_0_conv)
qed

section \<open>Properties of the relay\<close>

definition sample_relay_config :: relay_config where
  "sample_relay_config =
     \<lparr>rl_email = ''a@b.c'', rl_upstream_servers = [(''h'', 2211)], rl_max_clients = 2, rl_auth_timeout = 720000000000,
      rl_client_buffer_bytes = 65536, rl_reconnect_delay = 5000000000, rl_connect_timeout = 5000000000,
      rl_quality_window_secs = 3, rl_quality_pause_threshold = Finite (19 / 20),
      rl_metrics_log_interval = 30000000000\<rparr>"

definition sample_sys :: relay_sys where
  "sample_sys =
     (let r = relay_accept sample_relay_config (sy_state (sys_new sample_relay_config)) ''peer'' 0
      in (sys_new sample_relay_config)\<lparr>sy_state := fst r, sy_sessions := [projr (snd r)]\<rparr>)"

lemma sample_reach: "relay_reach sample_relay_config sample_sys"
proof -
  let ?s = "sys_new sample_relay_config"
  let ?r = "relay_accept sample_relay_config (sy_state ?s) ''peer'' 0"
  have "?r = (fst ?r, Inr (projr (snd ?r)))"
    by (simp add: relay_accept_def sys_new_def relay_state_new_def metrics_default_def sample_relay_config_def Let_def)
  then have "relay_step sample_relay_config ?s
      (?s\<lparr>sy_state := fst ?r, sy_sessions := sy_sessions ?s @ [projr (snd ?r)]\<rparr>)"
    by (rule relay_step.accepted)
  then show ?thesis
    using relay_reach.start relay_reach.step unfolding sample_sys_def Let_def
    by (metis append_Nil relay_sys.select_convs(2) sys_new_def)
qed

text \<open>
  C14.  Invariant of the relay under every interleaving of accepted connections, session rounds,
  writers, upstream reads and monitor ticks: the number of active clients is the number of
  sessions that have not been closed and never exceeds \<^verbatim>\<open>max_clients\<close>; only authenticated, open
  sessions are in the client table, each once; for every session the free and the occupied part of the
  buffer add up to \<^verbatim>\<open>client_buffer_bytes\<close>, so no client holds more; and as long as no writer has
  failed, the bytes attempted are those forwarded, dropped or still in flight.
\<close>

theorem relay_invariant:
  assumes "relay_reach cfg sy"
  shows "unat (active (sy_state sy)) = length (filter live (sy_sessions sy)) \<and>
    length (filter live (sy_sessions sy)) \<le> rl_max_clients cfg \<and>
    distinct (map fst (rs_clients (sy_state sy))) \<and>
    (\<forall>c \<in> fst ` set (rs_clients (sy_state sy)).
       \<exists>ds \<in> set (sy_sessions sy). ds_id ds = c \<and> live ds \<and> ds_authenticated ds) \<and>
    (\<forall>ds \<in> set (sy_sessions sy). ds_permits ds + held ds = rl_client_buffer_bytes cfg) \<and>
    ((\<forall>ds \<in> set (sy_sessions sy). ds_writer_open ds) \<longrightarrow>
       balance (sy_state sy) = sum_list (map flight (sy_sessions sy)))"
  using relay_reach_inv [OF assms]
  unfolding sys_inv_def admission_ok_def clients_ok_def bytes_ok_def session_ok_def list_all_iff by blast

theorem relay_invariant_witness:
  "length (filter live (sy_sessions sample_sys)) \<le> 2 \<and>
   unat (active (sy_state sample_sys)) = length (filter live (sy_sessions sample_sys))"
  using relay_invariant [OF sample_reach] by (simp add: sample_relay_config_def)

text \<open>
  C15.  Liveness of the quality monitor: when nothing is attempted for as many ticks as the window has
  seconds (forwarding being paused, no session attempts anything), forwarding is no longer paused, in
  every reachable state of a relay with a normalised configuration, whatever writers still
  complete in between.
\<close>

theorem relay_quality_resumes:
  assumes "relay_reach (relay_normalized cfg) sy" "rl_quality_window_secs (relay_normalized cfg) \<le> length ws"
  shows "\<not> forwarding_paused (rs_metrics (idle_ticks (relay_normalized cfg) (sy_state sy) ws))"
proof -
  let ?c = "relay_normalized cfg"
  have "1 \<le> rl_quality_window_secs ?c" "\<not> f64_less 1 (rl_quality_pause_threshold ?c)"
    by (simp_all add: relay_normalized_def f64_clamp01_def f64_less_def not_less split: f64.split)
  moreover have "window_shape ?c (sy_state sy)" by (rule window_shape_reach [OF assms(1)])
  ultimately show ?thesis
    using idle_ticks_resume [of "sy_state sy" ?c 0 ws] assms(2)
    by (cases "ws = []") (auto simp: window_shape_def idle_for_def)
qed

theorem relay_quality_resumes_witness:
  "\<not> forwarding_paused (rs_metrics (idle_ticks sample_relay_config (sy_state sample_sys) [[], [5], []]))"
proof -
  have n: "relay_normalized sample_relay_config = sample_relay_config"
    by (simp add: relay_normalized_def sample_relay_config_def one_second_def f64_clamp01_def)
  show ?thesis
    using relay_quality_resumes [of sample_relay_config sample_sys "[[], [5], []]"] sample_reach
    unfolding n by (simp add: sample_relay_config_def)
qed

end
