(* ===== verification/Live_Retained.thy ===== *)
theory Live_Retained
  imports Emwin_Prelude "HOL-Library.AList"
begin

text \<open>
  The bounded in-memory store of completed files (emwin-live/src/retained.rs).  A file is found by
  its name; a queue of names and generations gives the order of insertion.  An entry of the queue is
  current when the stored file has its generation, otherwise the name was inserted again later.
  The store is shown to refine a plain list of the newest file of every name: insertion, listing
  and lookup on the store are the list operations on that abstraction.  The metadata of a file is a
  type parameter.
\<close>

section \<open>The store\<close>

record 'm retained_file =
  rf_data :: bytes
  rf_completed_at :: system_time
  rf_metadata :: 'm

record 'm stored_file =
  sf_generation :: u64
  sf_file :: "'m retained_file"

type_synonym 'm file_table = "(str \<times> 'm stored_file) list"
type_synonym file_order = "(str \<times> u64) list"

record 'm retained_files =
  rt_by_name :: "'m file_table"
  rt_order :: file_order
  rt_next_generation :: u64
  rt_max_entries :: nat
  rt_ttl :: duration

definition retained_new :: "nat \<Rightarrow> duration \<Rightarrow> 'm retained_files" where
  "retained_new max_entries ttl =
     \<lparr>rt_by_name = [], rt_order = [], rt_next_generation = 1, rt_max_entries = max max_entries 1,
      rt_ttl = max ttl (secs 1)\<rparr>"

text \<open>Whether a queue entry is the current one of its name.\<close>

definition is_current :: "'m file_table \<Rightarrow> str \<times> u64 \<Rightarrow> bool" where
  "is_current tab e = (case map_of tab (fst e) of Some s \<Rightarrow> sf_generation s = snd e | None \<Rightarrow> False)"

definition file_age :: "system_time \<Rightarrow> 'm retained_file \<Rightarrow> duration" where
  "file_age now f = nat (now - rf_completed_at f)"

fun evict_walk :: "system_time \<Rightarrow> duration \<Rightarrow> 'm file_table \<Rightarrow> file_order \<Rightarrow> 'm file_table \<times> file_order" where
  "evict_walk now ttl tab [] = (tab, [])"
| "evict_walk now ttl tab ((name, generation) # rest) =
     (case map_of tab name of
        None \<Rightarrow> evict_walk now ttl tab rest
      | Some stored \<Rightarrow>
          if sf_generation stored \<noteq> generation then evict_walk now ttl tab rest
          else if file_age now (sf_file stored) > ttl then evict_walk now ttl (AList.delete name tab) rest
          else (case evict_walk now ttl tab rest of (tab', kept) \<Rightarrow> (tab', (name, generation) # kept)))"

definition evict_expired :: "system_time \<Rightarrow> 'm retained_files \<Rightarrow> 'm retained_files" where
  "evict_expired now rf =
     (case evict_walk now (rt_ttl rf) (rt_by_name rf) (rt_order rf) of
        (tab, ord) \<Rightarrow> rf\<lparr>rt_by_name := tab, rt_order := ord\<rparr>)"

fun pop_excess :: "nat \<Rightarrow> 'm file_table \<Rightarrow> file_order \<Rightarrow> 'm file_table \<times> file_order" where
  "pop_excess limit tab [] = (tab, [])"
| "pop_excess limit tab (e # rest) =
     (if length tab > limit
      then pop_excess limit (if is_current tab e then AList.delete (fst e) tab else tab) rest
      else (tab, e # rest))"

definition order_limit :: "nat \<Rightarrow> nat" where
  "order_limit max_entries = max (min (max_entries * 4) (2 ^ 64 - 1)) 16"

definition compact_stale_order_entries :: "'m retained_files \<Rightarrow> 'm retained_files" where
  "compact_stale_order_entries rf =
     (if length (rt_order rf) \<le> order_limit (rt_max_entries rf) then rf
      else rf\<lparr>rt_order := filter (is_current (rt_by_name rf)) (rt_order rf)\<rparr>)"

definition insert_processed :: "system_time \<Rightarrow> str \<Rightarrow> bytes \<Rightarrow> 'm \<Rightarrow> system_time \<Rightarrow> 'm retained_files \<Rightarrow>
    'm retained_files \<times> 'm" where
  "insert_processed now filename content metadata completed_at rf0 =
     (let rf = evict_expired now rf0;
          generation = rt_next_generation rf;
          stored = \<lparr>sf_generation = generation,
                    sf_file = \<lparr>rf_data = content, rf_completed_at = completed_at, rf_metadata = metadata\<rparr>\<rparr>;
          (tab, ord) = pop_excess (rt_max_entries rf) (AList.update filename stored (rt_by_name rf))
                         (rt_order rf @ [(filename, generation)])
      in (compact_stale_order_entries
            (rf\<lparr>rt_by_name := tab, rt_order := ord, rt_next_generation := sat_add generation 1\<rparr>),
          metadata))"

definition retained_list :: "system_time \<Rightarrow> 'm retained_files \<Rightarrow> 'm retained_files \<times> 'm list" where
  "retained_list now rf0 =
     (let rf = evict_expired now rf0
      in (rf, map (\<lambda>stored. rf_metadata (sf_file stored))
                (List.map_filter
                   (\<lambda>(name, generation).
                      case map_of (rt_by_name rf) name of
                        Some stored \<Rightarrow> if sf_generation stored = generation then Some stored else None
                      | None \<Rightarrow> None)
                   (rev (rt_order rf)))))"

definition retained_get :: "system_time \<Rightarrow> str \<Rightarrow> 'm retained_files \<Rightarrow>
    'm retained_files \<times> 'm retained_file option" where
  "retained_get now filename rf0 =
     (let rf = evict_expired now rf0 in (rf, map_option sf_file (map_of (rt_by_name rf) filename)))"

definition retained_len :: "system_time \<Rightarrow> 'm retained_files \<Rightarrow> 'm retained_files \<times> nat" where
  "retained_len now rf0 = (let rf = evict_expired now rf0 in (rf, length (rt_by_name rf)))"

section \<open>Table and queue\<close>

text \<open>The current entries in the order of the queue, with their files.\<close>

fun entries :: "'m file_table \<Rightarrow> file_order \<Rightarrow> (str \<times> 'm retained_file) list" where
  "entries tab [] = []"
| "entries tab ((name, generation) # rest) =
     (case map_of tab name of
        Some stored \<Rightarrow> if sf_generation stored = generation then [(name, sf_file stored)] else []
      | None \<Rightarrow> []) @ entries tab rest"

definition linked :: "'m file_table \<Rightarrow> file_order \<Rightarrow> bool" where
  "linked tab ord \<longleftrightarrow>
     distinct (map fst tab) \<and> distinct (map snd ord) \<and>
     (\<forall>name stored. map_of tab name = Some stored \<longrightarrow> (name, sf_generation stored) \<in> set ord)"

lemma entries_append: "entries tab (a @ b) = entries tab a @ entries tab b"
  by (induction tab a rule: entries.induct) simp_all

lemma entries_filter: "entries tab (filter (is_current tab) ord) = entries tab ord"
  by (induction tab ord rule: entries.induct) (auto simp: is_current_def split: option.split)

lemma entries_mem:
  "(name, f) \<in> set (entries tab ord) \<longleftrightarrow>
     (\<exists>stored. map_of tab name = Some stored \<and> sf_file stored = f \<and> (name, sf_generation stored) \<in> set ord)"
proof (induction tab ord rule: entries.induct)
  case (2 tab n g rest)
  then show ?case by (cases "map_of tab n") auto
qed simp

lemma entries_mem_linked:
  "linked tab ord \<Longrightarrow> (name, f) \<in> set (entries tab ord) \<longleftrightarrow> map_option sf_file (map_of tab name) = Some f"
  by (auto simp: entries_mem linked_def)

lemma entries_cong:
  "(\<And>name g. (name, g) \<in> set ord \<Longrightarrow>
      (case map_of tab name of Some s \<Rightarrow> if sf_generation s = g then Some (sf_file s) else None | None \<Rightarrow> None) =
      (case map_of tab' name of Some s \<Rightarrow> if sf_generation s = g then Some (sf_file s) else None | None \<Rightarrow> None)) \<Longrightarrow>
   entries tab ord = entries tab' ord"
proof (induction ord)
  case (Cons e ord)
  obtain name g where e: "e = (name, g)" by (cases e)
  have "entries tab ord = entries tab' ord" using Cons.prems by (intro Cons.IH) auto
  moreover have "entries tab [e] = entries tab' [e]"
    using Cons.prems [of name g] by (auto simp: e split: option.splits if_splits)
  ultimately show ?case using entries_append [of tab "[e]" ord] entries_append [of tab' "[e]" ord] by simp
qed simp

lemma distinct_entries: "distinct (map snd ord) \<Longrightarrow> distinct (map fst (entries tab ord))"
proof (induction tab ord rule: entries.induct)
  case (2 tab name g rest)
  have "name \<notin> fst ` set (entries tab rest)" if s: "map_of tab name = Some s" "sf_generation s = g" for s
  proof
    assume "name \<in> fst ` set (entries tab rest)"
    then have "(name, g) \<in> set rest" using s by (auto simp: entries_mem)
    then show False using 2 by force
  qed
  with 2 show ?case by (auto split: option.split)
qed simp

lemma map_of_entries: "linked tab ord \<Longrightarrow> map_of (entries tab ord) name = map_option sf_file (map_of tab name)"
proof -
  assume l: "linked tab ord"
  have d: "distinct (map fst (entries tab ord))" using l by (simp add: linked_def distinct_entries)
  show ?thesis
  proof (cases "map_of tab name")
    case None
    then have "name \<notin> fst ` set (entries tab ord)" by (auto simp: entries_mem)
    then have "map_of (entries tab ord) name = None" by (simp add: map_of_eq_None_iff)
    with None show ?thesis by simp
  next
    case (Some s)
    then have "(name, sf_file s) \<in> set (entries tab ord)" using l by (auto simp: entries_mem linked_def)
    with d Some show ?thesis by simp
  qed
qed

lemma length_entries: "linked tab ord \<Longrightarrow> length (entries tab ord) = length tab"
proof -
  assume l: "linked tab ord"
  have d: "distinct (map fst (entries tab ord))" "distinct (map fst tab)"
    using l by (simp_all add: linked_def distinct_entries)
  have "fst ` set (entries tab ord) = fst ` set tab"
    using map_of_entries [OF l] by (metis dom_map_of_conv_image_fst dom_map_option_comp comp_apply ext)
  then show ?thesis using d by (metis distinct_card length_map list.set_map)
qed

lemma linked_drop:
  assumes "linked tab (e # ord)"
  shows "linked (if is_current tab e then AList.delete (fst e) tab else tab) ord"
proof -
  let ?tab = "if is_current tab e then AList.delete (fst e) tab else tab"
  have "(name, sf_generation s) \<in> set ord" if s: "map_of ?tab name = Some s" for name s
  proof -
    have "map_of tab name = Some s" using s by (auto simp: delete_conv split: if_splits)
    then have "(name, sf_generation s) = e \<or> (name, sf_generation s) \<in> set ord"
      using assms by (auto simp: linked_def simp del: map_of_eq_Some_iff)
    moreover have "(name, sf_generation s) \<noteq> e"
    proof
      assume e: "(name, sf_generation s) = e"
      then have "is_current tab e" using \<open>map_of tab name = Some s\<close> by (auto simp: is_current_def)
      then show False using s e by (auto simp: delete_conv)
    qed
    ultimately show ?thesis by simp
  qed
  then show ?thesis using assms unfolding linked_def by (simp add: distinct_delete)
qed

lemma entries_drop:
  assumes "linked tab (e # ord)" "is_current tab e"
  shows "entries tab (e # ord) = (fst e, sf_file (the (map_of tab (fst e)))) # entries (AList.delete (fst e) tab) ord"
proof -
  obtain name g where e: "e = (name, g)" by (cases e)
  have "entries tab ord = entries (AList.delete name tab) ord"
  proof (rule entries_cong)
    fix n h assume n: "(n, h) \<in> set ord"
    then have "h \<noteq> g" using assms(1) e by (force simp: linked_def)
    then show "(case map_of tab n of Some s \<Rightarrow> if sf_generation s = h then Some (sf_file s) else None | None \<Rightarrow> None) =
        (case map_of (AList.delete name tab) n of
           Some s \<Rightarrow> if sf_generation s = h then Some (sf_file s) else None | None \<Rightarrow> None)"
      using assms(2) e by (auto simp: is_current_def delete_conv split: option.split)
  qed
  with assms(2) e show ?thesis by (auto simp: is_current_def split: option.splits)
qed

lemma entries_skip: "\<not> is_current tab e \<Longrightarrow> entries tab (e # ord) = entries tab ord"
  by (cases e) (auto simp: is_current_def split: option.split)

lemma length_delete:
  assumes "distinct (map fst tab)" "map_of tab k = Some v"
  shows "Suc (length (AList.delete k tab)) = length tab"
  using assms
proof (induction tab)
  case (Cons e tab)
  show ?case
  proof (cases "fst e = k")
    case True
    then have "\<forall>x \<in> set tab. fst x \<noteq> k" using Cons.prems(1) by (metis distinct.simps(2) image_eqI list.set_map list.simps(9))
    then have "AList.delete k tab = tab" by (auto simp: AList.delete_eq filter_id_conv)
    with True show ?thesis by simp
  next
    case False
    with Cons show ?thesis by simp
  qed
qed simp

section \<open>Eviction\<close>

definition expired :: "system_time \<Rightarrow> duration \<Rightarrow> str \<times> 'm retained_file \<Rightarrow> bool" where
  "expired now ttl e \<longleftrightarrow> file_age now (snd e) > ttl"

lemma map_of_distinct_filter:
  "distinct (map fst tab) \<Longrightarrow>
     map_of (filter P tab) k = (case map_of tab k of Some v \<Rightarrow> if P (k, v) then Some v else None | None \<Rightarrow> None)"
proof (induction tab)
  case (Cons e tab)
  have "map_of (filter P tab) (fst e) = None" using Cons.prems by (force simp: map_of_eq_None_iff)
  with Cons show ?case by (cases e) (auto split: option.split)
qed simp

text \<open>What the walk keeps of the queue and of the table.\<close>

definition keeps :: "system_time \<Rightarrow> duration \<Rightarrow> 'm file_table \<Rightarrow> str \<times> u64 \<Rightarrow> bool" where
  "keeps now ttl tab e =
     (case map_of tab (fst e) of
        Some s \<Rightarrow> sf_generation s = snd e \<and> \<not> file_age now (sf_file s) > ttl | None \<Rightarrow> False)"

definition keeps_file :: "system_time \<Rightarrow> duration \<Rightarrow> file_order \<Rightarrow> str \<times> 'm stored_file \<Rightarrow> bool" where
  "keeps_file now ttl ord e \<longleftrightarrow>
     \<not> ((fst e, sf_generation (snd e)) \<in> set ord \<and> file_age now (sf_file (snd e)) > ttl)"

lemma evict_walk_eq:
  assumes "distinct (map fst tab)" "distinct (map snd ord)"
  shows "evict_walk now ttl tab ord = (filter (keeps_file now ttl ord) tab, filter (keeps now ttl tab) ord)"
  using assms
proof (induction now ttl tab ord rule: evict_walk.induct)
  case (1 now ttl tab)
  show ?case by (simp add: keeps_file_def)
next
  case (2 now ttl tab name g rest)
  have rest: "distinct (map snd rest)" "\<And>n. (n, g) \<notin> set rest" using "2.prems"(2) by force+
  have same: "filter (keeps_file now ttl ((name, g) # rest)) tab = filter (keeps_file now ttl rest) tab"
    if "\<And>s. map_of tab name = Some s \<Longrightarrow> \<not> (sf_generation s = g \<and> file_age now (sf_file s) > ttl)"
    using that "2.prems"(1) by (intro filter_cong) (auto simp: keeps_file_def)
  show ?case
  proof (cases "map_of tab name")
    case None
    then show ?thesis using "2.IH"(1) [OF None "2.prems"(1) rest(1)] same by (simp add: keeps_def)
  next
    case (Some s)
    show ?thesis
    proof (cases "sf_generation s = g")
      case stale: False
      then show ?thesis using "2.IH"(2) [OF Some _ "2.prems"(1) rest(1)] Some same by (simp add: keeps_def)
    next
      case cur: True
      show ?thesis
      proof (cases "file_age now (sf_file s) > ttl")
        case exp: True
        have d: "distinct (map fst (AList.delete name tab))" using "2.prems"(1) by (rule distinct_delete)
        have "filter (keeps now ttl (AList.delete name tab)) rest = filter (keeps now ttl tab) rest"
          using rest(2) cur Some by (intro filter_cong) (auto simp: keeps_def delete_conv split: option.splits)
        moreover have "filter (keeps_file now ttl rest) (AList.delete name tab) =
            filter (keeps_file now ttl ((name, g) # rest)) tab"
          unfolding AList.delete_eq filter_filter
        proof (rule filter_cong [OF refl])
          fix x assume x: "x \<in> set tab"
          have "fst x = name \<Longrightarrow> snd x = s"
            using x Some "2.prems"(1) by (metis map_of_is_SomeI option.inject prod.collapse)
          then show "((case x of (k, v) \<Rightarrow> name \<noteq> k) \<and> keeps_file now ttl rest x) =
              keeps_file now ttl ((name, g) # rest) x"
            using cur exp by (cases x) (auto simp: keeps_file_def)
        qed
        moreover have "\<not> keeps now ttl tab (name, g)" using Some exp by (simp add: keeps_def)
        ultimately show ?thesis
          using "2.IH"(3) [OF Some _ exp d rest(1)] Some cur exp by simp
      next
        case fresh: False
        then show ?thesis using "2.IH"(4) [OF Some _ fresh "2.prems"(1) rest(1)] Some cur same by (simp add: keeps_def)
      qed
    qed
  qed
qed

lemma evict_walk_linked:
  assumes "linked tab ord" "evict_walk now ttl tab ord = (tab', ord')"
  shows "linked tab' ord'" and "entries tab' ord' = filter (\<lambda>e. \<not> expired now ttl e) (entries tab ord)"
    and "set ord' \<subseteq> set ord" and "length ord' \<le> length ord" and "length tab' \<le> length tab"
proof -
  have d: "distinct (map fst tab)" "distinct (map snd ord)"
    and cur: "\<And>n s. map_of tab n = Some s \<Longrightarrow> (n, sf_generation s) \<in> set ord"
    using assms(1) unfolding linked_def by blast+
  have r: "tab' = filter (keeps_file now ttl ord) tab" "ord' = filter (keeps now ttl tab) ord"
    using assms(2) evict_walk_eq [OF d] by auto
  have m: "map_of tab' n = (case map_of tab n of
      Some s \<Rightarrow> if file_age now (sf_file s) > ttl then None else Some s | None \<Rightarrow> None)" for n
    unfolding r(1) map_of_distinct_filter [OF d(1)]
    using cur [of n] by (auto simp: keeps_file_def simp del: map_of_eq_Some_iff split: option.split)
  have "(n, sf_generation s) \<in> set ord'" if "map_of tab' n = Some s" for n s
    using that cur [of n s] by (auto simp: m r(2) keeps_def simp del: map_of_eq_Some_iff split: option.splits if_splits)
  moreover have "distinct (map fst tab')" "distinct (map snd ord')"
    unfolding r using d by (simp_all add: distinct_map_filter)
  ultimately show "linked tab' ord'" unfolding linked_def by blast
  have "entries tab' (filter (keeps now ttl tab) q) = filter (\<lambda>e. \<not> expired now ttl e) (entries tab q)" for q
  proof (induction q)
    case (Cons e q)
    then show ?case by (cases e; cases "map_of tab (fst e)") (auto simp: m keeps_def expired_def)
  qed simp
  then show "entries tab' ord' = filter (\<lambda>e. \<not> expired now ttl e) (entries tab ord)" unfolding r(2) .
  show "set ord' \<subseteq> set ord" "length ord' \<le> length ord" "length tab' \<le> length tab" unfolding r by auto
qed

lemma pop_excess_linked:
  assumes "linked tab ord" "pop_excess limit tab ord = (tab', ord')"
  shows "linked tab' ord' \<and> entries tab' ord' = drop (length tab - limit) (entries tab ord) \<and>
         suffix ord' ord \<and> length tab' \<le> limit"
  using assms
proof (induction limit tab ord rule: pop_excess.induct)
  case (1 limit tab)
  then show ?case using length_entries [of tab "[]"] by simp
next
  case (2 limit tab e rest)
  show ?case
  proof (cases "length tab > limit")
    case True
    note l = linked_drop [OF "2.prems"(1)]
    note IH = "2.IH" [OF True l]
    show ?thesis
    proof (cases "is_current tab e")
      case cur: True
      then obtain s where "map_of tab (fst e) = Some s" by (auto simp: is_current_def split: option.splits)
      then have len: "Suc (length (AList.delete (fst e) tab)) = length tab"
        using "2.prems"(1) by (intro length_delete) (simp_all add: linked_def)
      have "length tab - limit = Suc (length (AList.delete (fst e) tab) - limit)" using len True by simp
      then show ?thesis
        using IH True cur "2.prems"(2) entries_drop [OF "2.prems"(1) cur] by (auto intro: suffix_ConsI)
    next
      case False
      then show ?thesis using IH True "2.prems"(2) entries_skip [OF False] by (auto intro: suffix_ConsI)
    qed
  qed (use "2.prems" in auto)
qed

section \<open>Invariant and refinement\<close>

definition retained_inv :: "'m retained_files \<Rightarrow> bool" where
  "retained_inv rf \<longleftrightarrow>
     linked (rt_by_name rf) (rt_order rf) \<and> 1 \<le> rt_max_entries rf \<and> length (rt_by_name rf) \<le> rt_max_entries rf \<and>
     length (rt_order rf) \<le> max (order_limit (rt_max_entries rf)) (rt_max_entries rf) \<and>
     (\<forall>e \<in> set (rt_order rf). snd e < rt_next_generation rf)"

definition retained_abs :: "'m retained_files \<Rightarrow> (str \<times> 'm retained_file) list" where
  "retained_abs rf = entries (rt_by_name rf) (rt_order rf)"

text \<open>The reference: a list of the newest file of every name, oldest first.\<close>

definition ref_evict :: "system_time \<Rightarrow> duration \<Rightarrow> (str \<times> 'm retained_file) list \<Rightarrow> (str \<times> 'm retained_file) list" where
  "ref_evict now ttl = filter (\<lambda>e. \<not> expired now ttl e)"

definition ref_insert :: "nat \<Rightarrow> str \<Rightarrow> 'm retained_file \<Rightarrow> (str \<times> 'm retained_file) list \<Rightarrow>
    (str \<times> 'm retained_file) list" where
  "ref_insert limit name f xs =
     (let ys = filter (\<lambda>e. fst e \<noteq> name) xs @ [(name, f)] in drop (length ys - limit) ys)"

lemma retained_inv_new: "retained_inv (retained_new n ttl)"
  by (simp add: retained_inv_def retained_new_def linked_def order_limit_def)

lemma evict_expired_fields [simp]:
  "rt_max_entries (evict_expired now rf) = rt_max_entries rf" "rt_ttl (evict_expired now rf) = rt_ttl rf"
  "rt_next_generation (evict_expired now rf) = rt_next_generation rf"
  by (simp_all add: evict_expired_def split: prod.split)

lemma evict_expired_ok:
  assumes "retained_inv rf"
  shows "retained_inv (evict_expired now rf)" and "retained_abs (evict_expired now rf) = ref_evict now (rt_ttl rf) (retained_abs rf)"
proof -
  obtain tab ord where w: "evict_walk now (rt_ttl rf) (rt_by_name rf) (rt_order rf) = (tab, ord)" by fastforce
  have l: "linked (rt_by_name rf) (rt_order rf)" using assms by (simp add: retained_inv_def)
  note e = evict_walk_linked [OF l w]
  have "\<forall>g \<in> set ord. snd g < rt_next_generation rf" using assms e(3) by (auto simp: retained_inv_def)
  then show "retained_inv (evict_expired now rf)"
    using assms e(1,4,5) w by (simp add: retained_inv_def evict_expired_def)
  show "retained_abs (evict_expired now rf) = ref_evict now (rt_ttl rf) (retained_abs rf)"
    using e(2) w by (simp add: retained_abs_def evict_expired_def ref_evict_def)
qed

lemma entries_push:
  assumes "linked tab ord" "\<forall>e \<in> set ord. snd e \<noteq> sf_generation s"
  shows "linked (AList.update name s tab) (ord @ [(name, sf_generation s)])"
    and "entries (AList.update name s tab) (ord @ [(name, sf_generation s)]) =
      filter (\<lambda>e. fst e \<noteq> name) (entries tab ord) @ [(name, sf_file s)]"
proof -
  let ?tab = "AList.update name s tab"
  have m: "map_of ?tab n = (if n = name then Some s else map_of tab n)" for n by (simp add: update_conv)
  have "entries ?tab q = filter (\<lambda>e. fst e \<noteq> name) (entries tab q)" if "\<forall>e \<in> set q. snd e \<noteq> sf_generation s" for q
    using that
  proof (induction q)
    case (Cons e q)
    then show ?case by (cases e) (auto simp: m simp del: map_of_eq_Some_iff split: option.split)
  qed simp
  then show "entries ?tab (ord @ [(name, sf_generation s)]) =
      filter (\<lambda>e. fst e \<noteq> name) (entries tab ord) @ [(name, sf_file s)]"
    using assms(2) by (simp add: entries_append m)
  have "(n, sf_generation t) \<in> set (ord @ [(name, sf_generation s)])" if "map_of ?tab n = Some t" for n t
    using that assms(1) by (auto simp: m linked_def simp del: map_of_eq_Some_iff split: if_splits)
  then show "linked ?tab (ord @ [(name, sf_generation s)])"
    using assms by (auto simp: linked_def distinct_update)
qed

lemma compact_ok:
  assumes "linked (rt_by_name rf) (rt_order rf)" "length (rt_by_name rf) \<le> rt_max_entries rf"
  shows "let rf' = compact_stale_order_entries rf in
    rt_by_name rf' = rt_by_name rf \<and> set (rt_order rf') \<subseteq> set (rt_order rf) \<and>
    linked (rt_by_name rf') (rt_order rf') \<and> length (rt_order rf') \<le> max (order_limit (rt_max_entries rf)) (rt_max_entries rf) \<and>
    rt_next_generation rf' = rt_next_generation rf \<and> rt_max_entries rf' = rt_max_entries rf \<and> rt_ttl rf' = rt_ttl rf \<and>
    retained_abs rf' = retained_abs rf"
proof (cases "length (rt_order rf) \<le> order_limit (rt_max_entries rf)")
  case True
  then show ?thesis using assms by (simp add: compact_stale_order_entries_def)
next
  case False
  let ?ord = "filter (is_current (rt_by_name rf)) (rt_order rf)"
  have "(n, sf_generation s) \<in> set ?ord" if "map_of (rt_by_name rf) n = Some s" for n s
    using that assms(1) by (auto simp: linked_def is_current_def simp del: map_of_eq_Some_iff)
  then have l: "linked (rt_by_name rf) ?ord" using assms(1) by (auto simp: linked_def distinct_map_filter)
  have "length ?ord = length (entries (rt_by_name rf) ?ord)"
  proof -
    have "length q = length (entries tab q)" if "\<forall>e \<in> set q. is_current tab e" for tab :: "'a file_table" and q
      using that
    proof (induction q)
      case (Cons e q)
      then show ?case by (cases e) (auto simp: is_current_def split: option.splits)
    qed simp
    then show ?thesis by simp
  qed
  then have "length ?ord \<le> rt_max_entries rf" using length_entries [OF l] assms(2) by simp
  with False l show ?thesis
    by (simp add: compact_stale_order_entries_def retained_abs_def entries_filter)
qed

lemma insert_processed_ok:
  assumes "retained_inv rf" "rt_next_generation rf \<noteq> - 1"
    "insert_processed now name content meta at rf = (rf', meta')"
  shows "retained_inv rf'" and "meta' = meta"
    and "retained_abs rf' =
      ref_insert (rt_max_entries rf) name \<lparr>rf_data = content, rf_completed_at = at, rf_metadata = meta\<rparr>
        (ref_evict now (rt_ttl rf) (retained_abs rf))"
    and "rt_max_entries rf' = rt_max_entries rf" and "rt_ttl rf' = rt_ttl rf"
    and "rt_next_generation rf' = rt_next_generation rf + 1"
proof -
  define e where "e = evict_expired now rf"
  define g where "g = rt_next_generation rf"
  define f where "f = \<lparr>rf_data = content, rf_completed_at = at, rf_metadata = meta\<rparr>"
  define s where "s = \<lparr>sf_generation = g, sf_file = f\<rparr>"
  have inv: "retained_inv e" "retained_abs e = ref_evict now (rt_ttl rf) (retained_abs rf)"
    using evict_expired_ok [OF assms(1)] by (simp_all add: e_def)
  have fld: "rt_max_entries e = rt_max_entries rf" "rt_ttl e = rt_ttl rf" "rt_next_generation e = g"
    by (simp_all add: e_def g_def)
  have fresh: "\<forall>x \<in> set (rt_order e). snd x \<noteq> sf_generation s"
    using inv(1) fld by (auto simp: retained_inv_def s_def)
  have link: "linked (rt_by_name e) (rt_order e)" using inv(1) by (simp add: retained_inv_def)
  obtain tab ord where p: "pop_excess (rt_max_entries e) (AList.update name s (rt_by_name e))
      (rt_order e @ [(name, g)]) = (tab, ord)" by fastforce
  have push: "linked (AList.update name s (rt_by_name e)) (rt_order e @ [(name, g)])"
    "entries (AList.update name s (rt_by_name e)) (rt_order e @ [(name, g)]) =
       filter (\<lambda>x. fst x \<noteq> name) (retained_abs e) @ [(name, f)]"
    using entries_push [OF link fresh] by (simp_all add: s_def retained_abs_def)
  note pop = pop_excess_linked [OF push(1) p]
  let ?r = "e\<lparr>rt_by_name := tab, rt_order := ord, rt_next_generation := sat_add g 1\<rparr>"
  have res: "rf' = compact_stale_order_entries ?r" "meta' = meta"
    using assms(3) p by (simp_all add: insert_processed_def Let_def e_def [symmetric] fld s_def f_def)
  have sat: "sat_add g 1 = g + 1" "g < g + 1"
  proof -
    have "unat g \<noteq> unat (- 1 :: u64)" using assms(2) by (simp add: g_def word_unat_eq_iff)
    then have "unat g \<noteq> 2 ^ 64 - 1" by (simp add: unat_max_word)
    moreover have "unat g < 2 ^ 64" using unat_bound [of g] by simp
    ultimately have "unat g + 1 < 2 ^ 64" by linarith
    then show "sat_add g 1 = g + 1" "g < g + 1"
      by (simp_all add: sat_add_def word_less_nat_alt unat_word_ariths)
  qed
  have abs: "retained_abs (e\<lparr>rt_by_name := tab, rt_order := ord, rt_next_generation := n\<rparr>) = entries tab ord" for n
    by (simp add: retained_abs_def)
  have comp: "let r = rf' in
    rt_by_name r = tab \<and> set (rt_order r) \<subseteq> set ord \<and> linked (rt_by_name r) (rt_order r) \<and>
    length (rt_order r) \<le> max (order_limit (rt_max_entries rf)) (rt_max_entries rf) \<and> rt_next_generation r = g + 1 \<and>
    rt_max_entries r = rt_max_entries rf \<and> rt_ttl r = rt_ttl rf \<and> retained_abs r = entries tab ord"
    using compact_ok [of ?r] pop unfolding res(1) [symmetric] Let_def
    by (auto simp: fld sat abs)
  have "set ord \<subseteq> set (rt_order e @ [(name, g)])" using pop by (meson set_mono_suffix)
  then have "\<forall>x \<in> set ord. snd x \<le> g"
    using inv(1) fld by (fastforce simp: retained_inv_def intro: less_imp_le)
  then have bound: "\<forall>x \<in> set ord. snd x < g + 1" using sat(2) by (blast intro: le_less_trans)
  show "retained_inv rf'"
    using comp pop bound inv(1) fld by (auto simp: retained_inv_def Let_def)
  show "meta' = meta" by (rule res(2))
  have "length (AList.update name s (rt_by_name e)) = length (filter (\<lambda>x. fst x \<noteq> name) (retained_abs e) @ [(name, f)])"
    using length_entries [OF push(1)] push(2) by simp
  then show "retained_abs rf' = ref_insert (rt_max_entries rf) name
      \<lparr>rf_data = content, rf_completed_at = at, rf_metadata = meta\<rparr> (ref_evict now (rt_ttl rf) (retained_abs rf))"
    using comp pop push(2) inv(2) fld unfolding ref_insert_def Let_def f_def [symmetric] by simp
  show "rt_max_entries rf' = rt_max_entries rf" "rt_ttl rf' = rt_ttl rf"
    "rt_next_generation rf' = rt_next_generation rf + 1"
    using comp by (simp_all add: Let_def g_def)
qed

lemma retained_list_ok:
  assumes "retained_inv rf" "retained_list now rf = (rf', ms)"
  shows "rf' = evict_expired now rf" and "ms = map (rf_metadata \<circ> snd) (rev (ref_evict now (rt_ttl rf) (retained_abs rf)))"
proof -
  show rf': "rf' = evict_expired now rf" using assms(2) by (simp add: retained_list_def Let_def)
  let ?pick = "\<lambda>tab (name, generation). case map_of tab name of
      Some stored \<Rightarrow> if sf_generation stored = generation then Some stored else None | None \<Rightarrow> None"
  have "map (\<lambda>stored. rf_metadata (sf_file stored)) (List.map_filter (?pick tab) q) = map (rf_metadata \<circ> snd) (entries tab q)"
    for tab :: "'a file_table" and q
  proof (induction q)
    case (Cons e q)
    then show ?case by (cases e) (auto simp: List.map_filter_simps split: option.split)
  qed (simp add: List.map_filter_simps)
  moreover have "entries tab (rev q) = rev (entries tab q)" for tab :: "'a file_table" and q
  proof (induction q)
    case (Cons e q)
    then show ?case using entries_append [of tab "[e]" q]
      by (cases e) (auto simp: entries_append split: option.split)
  qed simp
  ultimately have "ms = map (rf_metadata \<circ> snd) (rev (retained_abs (evict_expired now rf)))"
    using assms(2) by (auto simp: retained_list_def Let_def retained_abs_def)
  then show "ms = map (rf_metadata \<circ> snd) (rev (ref_evict now (rt_ttl rf) (retained_abs rf)))"
    by (simp add: evict_expired_ok(2) [OF assms(1)])
qed

lemma retained_get_ok:
  assumes "retained_inv rf" "retained_get now name rf = (rf', r)"
  shows "rf' = evict_expired now rf" and "r = map_of (ref_evict now (rt_ttl rf) (retained_abs rf)) name"
proof -
  have "linked (rt_by_name (evict_expired now rf)) (rt_order (evict_expired now rf))"
    using evict_expired_ok(1) [OF assms(1)] by (simp add: retained_inv_def)
  then show "rf' = evict_expired now rf" and "r = map_of (ref_evict now (rt_ttl rf) (retained_abs rf)) name"
    using assms(2) by (auto simp: retained_get_def Let_def map_of_entries [symmetric]
        simp flip: retained_abs_def evict_expired_ok(2) [OF assms(1)])
qed

lemma retained_len_ok:
  assumes "retained_inv rf" "retained_len now rf = (rf', n)"
  shows "rf' = evict_expired now rf" and "n = length (ref_evict now (rt_ttl rf) (retained_abs rf))"
proof -
  have "linked (rt_by_name (evict_expired now rf)) (rt_order (evict_expired now rf))"
    using evict_expired_ok(1) [OF assms(1)] by (simp add: retained_inv_def)
  then show "rf' = evict_expired now rf" and "n = length (ref_evict now (rt_ttl rf) (retained_abs rf))"
    using assms(2) by (auto simp: retained_len_def Let_def length_entries [symmetric]
        simp flip: retained_abs_def evict_expired_ok(2) [OF assms(1)])
qed

section \<open>The contract of a bounded store\<close>

text \<open>
  What a client of the store relies on: an abstraction to a list, oldest first, that an insertion
  extends at the end and cuts at the front.  The lemmas hold for every such store.
\<close>

locale bounded_store =
  fixes inv :: "'s \<Rightarrow> bool"
    and contents :: "'s \<Rightarrow> ('k \<times> 'v) list"
    and limit :: "'s \<Rightarrow> nat"
    and fresh :: "'s \<Rightarrow> 't \<Rightarrow> 'k \<times> 'v \<Rightarrow> bool"
    and add :: "'t \<Rightarrow> 'k \<Rightarrow> 'v \<Rightarrow> 's \<Rightarrow> 's"
    and room :: "'s \<Rightarrow> nat"
  assumes distinct_contents: "inv s \<Longrightarrow> distinct (map fst (contents s))"
    and limit_pos: "inv s \<Longrightarrow> 0 < limit s"
    and bounded: "inv s \<Longrightarrow> length (contents s) \<le> limit s"
    and add_inv: "inv s \<Longrightarrow> 0 < room s \<Longrightarrow> inv (add t k v s)"
    and add_contents: "inv s \<Longrightarrow> 0 < room s \<Longrightarrow>
      contents (add t k v s) =
        (let ys = filter (\<lambda>e. fst e \<noteq> k) (filter (fresh s t) (contents s)) @ [(k, v)] in drop (length ys - limit s) ys)"
    and add_limit: "inv s \<Longrightarrow> 0 < room s \<Longrightarrow> limit (add t k v s) = limit s \<and> fresh (add t k v s) = fresh s \<and>
      room s = Suc (room (add t k v s))"
begin

primrec add_all :: "('t \<times> 'k \<times> 'v) list \<Rightarrow> 's \<Rightarrow> 's" where
  "add_all [] s = s"
| "add_all (x # xs) s = add_all xs (add (fst x) (fst (snd x)) (snd (snd x)) s)"

lemma newest_last:
  assumes "inv s" "0 < room s"
  shows "\<exists>ys. contents (add t k v s) = ys @ [(k, v)]"
  using add_contents [OF assms] limit_pos [OF assms(1)] by (simp add: Let_def)

lemma lookup_added: "inv s \<Longrightarrow> 0 < room s \<Longrightarrow> map_of (contents (add t k v s)) k = Some v"
  using newest_last [of s t k v] distinct_contents [OF add_inv, of s t k v] by (auto simp: map_add_Some_iff)

lemma lookup_other:
  assumes "inv s" "0 < room s" "k' \<noteq> k" "map_of (contents (add t k v s)) k' = Some v'"
  shows "map_of (contents s) k' = Some v' \<and> fresh s t (k', v')"
proof -
  let ?ys = "filter (\<lambda>e. fst e \<noteq> k) (filter (fresh s t) (contents s)) @ [(k, v)]"
  have "(k', v') \<in> set (drop (length ?ys - limit s) ?ys)"
    using assms(4) unfolding add_contents [OF assms(1,2)] Let_def by (rule map_of_SomeD)
  then have "(k', v') \<in> set ?ys" by (rule in_set_dropD)
  with assms(3) distinct_contents [OF assms(1)] show ?thesis by auto
qed

lemma add_all_ok: "inv s \<Longrightarrow> length xs \<le> room s \<Longrightarrow> inv (add_all xs s) \<and> limit (add_all xs s) = limit s"
proof (induction xs arbitrary: s)
  case (Cons x xs)
  let ?s = "add (fst x) (fst (snd x)) (snd (snd x)) s"
  have pos: "0 < room s" using Cons.prems(2) by simp
  show ?case
    using Cons.IH [of ?s] add_inv [OF Cons.prems(1) pos] add_limit [OF Cons.prems(1) pos, of "fst x" "fst (snd x)" "snd (snd x)"]
      Cons.prems(2) by simp
qed simp

text \<open>A value that stays fresh is found until \<open>limit\<close> other keys have been added after it.\<close>

lemma survives:
  assumes "inv u" "length ys \<le> room u" "length ys + length post < limit u" "contents u = pre @ (k, v) # post"
    "k \<notin> fst ` snd ` set ys" "\<forall>y \<in> set ys. fresh u (fst y) (k, v)"
  shows "map_of (contents (add_all ys u)) k = Some v"
  using assms
proof (induction ys arbitrary: u pre post)
  case Nil
  then show ?case using distinct_contents [of u] by (intro map_of_is_SomeI) auto
next
  case (Cons y ys)
  obtain t' k' v' where y: "y = (t', k', v')" by (cases y)
  let ?u = "add t' k' v' u"
  have pos: "0 < room u" using Cons.prems(2) by simp
  have ne: "k' \<noteq> k" using Cons.prems(5) y by auto
  define cut where "cut es = filter (\<lambda>e. fst e \<noteq> k') (filter (fresh u t') es)" for es
  define pre' where "pre' = cut pre"
  define post' where "post' = cut post @ [(k', v')]"
  let ?n = "length (pre' @ (k, v) # post') - limit u"
  have "cut (contents u) @ [(k', v')] = pre' @ (k, v) # post'"
    using Cons.prems(4,6) ne by (simp add: y pre'_def post'_def cut_def)
  then have c: "contents ?u = drop ?n (pre' @ (k, v) # post')"
    using add_contents [OF Cons.prems(1) pos, of t' k' v'] unfolding Let_def cut_def [symmetric] by simp
  have "length (cut post) \<le> length post" unfolding cut_def by (meson length_filter_le le_trans)
  then have len: "length post' \<le> length post + 1" by (simp add: post'_def)
  then have "length post' + 1 \<le> limit u" using Cons.prems(3) by simp
  then have "?n \<le> length pre'" by simp
  then have c': "contents ?u = drop ?n pre' @ (k, v) # post'" using c by simp
  have "map_of (contents (add_all ys ?u)) k = Some v"
    using add_limit [OF Cons.prems(1) pos, of t' k' v'] add_inv [OF Cons.prems(1) pos, of t' k' v'] Cons.prems len
    by (intro Cons.IH [OF _ _ _ c']) auto
  then show ?case by (simp add: y)
qed

lemma recent_found:
  assumes "inv s" "length xs + 1 \<le> room s" "length xs < limit s" "k \<notin> fst ` snd ` set xs"
    "\<forall>x \<in> set xs. fresh s (fst x) (k, v)"
  shows "map_of (contents (add_all xs (add t k v s))) k = Some v"
proof -
  have pos: "0 < room s" using assms(2) by simp
  obtain pre where "contents (add t k v s) = pre @ [(k, v)]" using newest_last [OF assms(1) pos] by blast
  then show ?thesis
    using assms add_limit [OF assms(1) pos, of t k v] add_inv [OF assms(1) pos, of t k v]
    by (intro survives [of _ _ "[]" pre]) auto
qed

end

text \<open>The generations left before the counter saturates.\<close>

definition generations_left :: "'m retained_files \<Rightarrow> nat" where
  "generations_left rf = 2 ^ 64 - 1 - unat (rt_next_generation rf)"

definition add_file :: "system_time \<Rightarrow> str \<Rightarrow> 'm retained_file \<Rightarrow> 'm retained_files \<Rightarrow> 'm retained_files" where
  "add_file now name f rf = fst (insert_processed now name (rf_data f) (rf_metadata f) (rf_completed_at f) rf)"

lemma generations_left_pos: "0 < generations_left rf \<longleftrightarrow> rt_next_generation rf \<noteq> - 1"
  using unat_bound [of "rt_next_generation rf"] unat_max_word [where 'a = 64]
  by (auto simp: generations_left_def word_unat_eq_iff)

lemma add_file_ok:
  assumes "retained_inv rf" "0 < generations_left rf"
  shows "retained_inv (add_file now name f rf)"
    and "retained_abs (add_file now name f rf) =
      ref_insert (rt_max_entries rf) name f (ref_evict now (rt_ttl rf) (retained_abs rf))"
    and "rt_max_entries (add_file now name f rf) = rt_max_entries rf"
    and "rt_ttl (add_file now name f rf) = rt_ttl rf"
    and "generations_left rf = Suc (generations_left (add_file now name f rf))"
proof -
  obtain rf' m where r: "insert_processed now name (rf_data f) (rf_metadata f) (rf_completed_at f) rf = (rf', m)"
    by fastforce
  have g: "rt_next_generation rf \<noteq> - 1" using assms(2) by (simp add: generations_left_pos)
  note ok = insert_processed_ok [OF assms(1) g r]
  have "rf' = add_file now name f rf" "\<lparr>rf_data = rf_data f, rf_completed_at = rf_completed_at f, rf_metadata = rf_metadata f\<rparr> = f"
    using r by (simp_all add: add_file_def)
  with ok show "retained_inv (add_file now name f rf)"
    and "retained_abs (add_file now name f rf) =
      ref_insert (rt_max_entries rf) name f (ref_evict now (rt_ttl rf) (retained_abs rf))"
    and "rt_max_entries (add_file now name f rf) = rt_max_entries rf"
    and "rt_ttl (add_file now name f rf) = rt_ttl rf"
    by simp_all
  have "unat (rt_next_generation rf) < 2 ^ 64 - 1" using assms(2) by (simp add: generations_left_def)
  then have "unat (rt_next_generation rf + 1) = Suc (unat (rt_next_generation rf))"
    by (simp add: unat_word_ariths)
  then show "generations_left rf = Suc (generations_left (add_file now name f rf))"
    using ok(6) assms(2) \<open>rf' = add_file now name f rf\<close> by (simp add: generations_left_def)
qed

lemma retained_abs_distinct: "retained_inv rf \<Longrightarrow> distinct (map fst (retained_abs rf))"
  by (simp add: retained_inv_def retained_abs_def linked_def distinct_entries)

lemma retained_abs_bounded: "retained_inv rf \<Longrightarrow> length (retained_abs rf) \<le> rt_max_entries rf"
  by (simp add: retained_inv_def retained_abs_def length_entries)

interpretation retained: bounded_store retained_inv retained_abs rt_max_entries
  "\<lambda>rf now e. \<not> expired now (rt_ttl rf) e" add_file generations_left
proof
  fix s :: "'m retained_files" and t k v
  assume s: "retained_inv s"
  show "distinct (map fst (retained_abs s))" using s by (rule retained_abs_distinct)
  show "length (retained_abs s) \<le> rt_max_entries s" using s by (rule retained_abs_bounded)
  show "0 < rt_max_entries s" using s by (simp add: retained_inv_def)
  assume pos: "0 < generations_left s"
  note ok = add_file_ok [OF s pos, of t k v]
  show "retained_inv (add_file t k v s)" by (rule ok(1))
  show "retained_abs (add_file t k v s) =
      (let ys = filter (\<lambda>e. fst e \<noteq> k) (filter (\<lambda>e. \<not> expired t (rt_ttl s) e) (retained_abs s)) @ [(k, v)]
       in drop (length ys - rt_max_entries s) ys)"
    using ok(2) by (simp add: ref_insert_def ref_evict_def)
  show "rt_max_entries (add_file t k v s) = rt_max_entries s \<and>
      (\<lambda>now e. \<not> expired now (rt_ttl (add_file t k v s)) e) = (\<lambda>now e. \<not> expired now (rt_ttl s) e) \<and>
      generations_left s = Suc (generations_left (add_file t k v s))"
    using ok(3,4,5) by simp
qed

section \<open>Properties\<close>

inductive retained_reach :: "'m retained_files \<Rightarrow> bool" where
  new: "retained_reach (retained_new n ttl)"
| insert: "retained_reach rf \<Longrightarrow> rt_next_generation rf \<noteq> - 1 \<Longrightarrow>
    retained_reach (fst (insert_processed now name content meta at rf))"
| list: "retained_reach rf \<Longrightarrow> retained_reach (fst (retained_list now rf))"
| get: "retained_reach rf \<Longrightarrow> retained_reach (fst (retained_get now name rf))"
| len: "retained_reach rf \<Longrightarrow> retained_reach (fst (retained_len now rf))"

lemma retained_reach_inv: "retained_reach rf \<Longrightarrow> retained_inv rf"
proof (induction rule: retained_reach.induct)
  case (insert rf now name content meta at)
  then show ?case using insert_processed_ok(1) by (metis prod.collapse)
qed (auto simp: retained_inv_new retained_list_def retained_get_def retained_len_def Let_def evict_expired_ok(1))

definition sample_file :: "nat \<Rightarrow> nat retained_file" where
  "sample_file n = \<lparr>rf_data = [], rf_completed_at = 0, rf_metadata = n\<rparr>"

text \<open>
  C17.  Every store that insertions and reads lead to (before the generation counter saturates)
  holds at most \<^verbatim>\<open>max_entries\<close> files, has one current queue entry per file, and keeps its queue
  within \<^verbatim>\<open>max(4 * max_entries, 16)\<close> (or \<^verbatim>\<open>max_entries\<close>, where that product saturates): replacing files
  does not grow the queue without bound.
\<close>

theorem retained_store_bounded:
  assumes "retained_reach rf"
  shows "length (rt_by_name rf) \<le> rt_max_entries rf \<and>
    length (rt_order rf) \<le> max (order_limit (rt_max_entries rf)) (rt_max_entries rf) \<and>
    length (filter (is_current (rt_by_name rf)) (rt_order rf)) = length (rt_by_name rf) \<and>
    distinct (map fst (rt_by_name rf))"
proof -
  have inv: "retained_inv rf" by (rule retained_reach_inv [OF assms])
  have "length (filter (is_current tab) q) = length (entries tab q)" for tab :: "'a file_table" and q
    by (induction tab q rule: entries.induct) (auto simp: is_current_def split: option.split)
  with inv show ?thesis by (simp add: retained_inv_def linked_def length_entries)
qed

theorem retained_store_bounded_witness:
  "let rf = fst (insert_processed 0 ''a'' [] (1::nat) 0 (retained_new 2 0)) in
     length (rt_by_name rf) \<le> rt_max_entries rf \<and> distinct (map fst (rt_by_name rf))"
proof -
  have "retained_reach (fst (insert_processed 0 ''a'' [] (1::nat) 0 (retained_new 2 0)))"
    by (intro retained_reach.insert retained_reach.new) (simp add: retained_new_def)
  then show ?thesis using retained_store_bounded unfolding Let_def by blast
qed

text \<open>
  C18.  The store refines the list of the newest file of each name: an insertion drops the expired
  files, replaces the file of that name, appends it as the newest and cuts the oldest beyond the
  limit; listing gives the metadata newest first; a lookup finds the file of that name
  unless it expired; the length is that of the list.
\<close>

theorem retained_store_refines:
  assumes "retained_reach rf" "rt_next_generation rf \<noteq> - 1"
  shows "retained_abs (fst (insert_processed now name content meta at rf)) =
      ref_insert (rt_max_entries rf) name \<lparr>rf_data = content, rf_completed_at = at, rf_metadata = meta\<rparr>
        (ref_evict now (rt_ttl rf) (retained_abs rf)) \<and>
    snd (retained_list now rf) = map (rf_metadata \<circ> snd) (rev (ref_evict now (rt_ttl rf) (retained_abs rf))) \<and>
    snd (retained_get now name rf) = map_of (ref_evict now (rt_ttl rf) (retained_abs rf)) name \<and>
    snd (retained_len now rf) = length (ref_evict now (rt_ttl rf) (retained_abs rf))"
proof -
  have inv: "retained_inv rf" by (rule retained_reach_inv [OF assms(1)])
  show ?thesis
    using insert_processed_ok(3) [OF inv assms(2) prod.collapse [symmetric], of now name content meta at]
      retained_list_ok(2) [OF inv prod.collapse [symmetric], of now]
      retained_get_ok(2) [OF inv prod.collapse [symmetric], of now name]
      retained_len_ok(2) [OF inv prod.collapse [symmetric], of now] by simp
qed

theorem retained_store_refines_witness:
  "let rf = fst (insert_processed 0 ''a'' [] (1::nat) 0 (retained_new 2 0)) in
     snd (retained_list 0 rf) = [1] \<and> snd (retained_len 0 rf) = 1"
proof -
  let ?rf = "fst (insert_processed 0 ''a'' [] (1::nat) 0 (retained_new 2 0))"
  have "retained_reach ?rf" by (intro retained_reach.insert retained_reach.new) (simp add: retained_new_def)
  moreover have "rt_next_generation ?rf = 2" "rt_ttl ?rf = 1000000000"
    "retained_abs ?rf = [(''a'', \<lparr>rf_data = [], rf_completed_at = 0, rf_metadata = 1\<rparr>)]"
    by (simp_all add: insert_processed_def evict_expired_def retained_new_def compact_stale_order_entries_def
        order_limit_def sat_add_def retained_abs_def)
  ultimately show ?thesis
    using retained_store_refines [of ?rf 0 "''a''" "[]" 0 0]
    by (simp add: ref_evict_def expired_def file_age_def Let_def)
qed

text \<open>
  No file is lost early: a file that does not expire is found, with the data last inserted under
  its name, until as many files of other names have been inserted after it as the store has
  entries.
\<close>

lemma retained_recent_found:
  assumes "retained_reach rf" "length xs + 1 \<le> generations_left rf" "length xs < rt_max_entries rf"
    "name \<notin> fst ` snd ` set xs" "\<forall>x \<in> set xs. \<not> expired (fst x) (rt_ttl rf) (name, f)"
  shows "map_of (retained_abs (foldl (\<lambda>s (t, n, g). add_file t n g s) (add_file now name f rf) xs)) name = Some f"
proof -
  have "retained.add_all ys s = foldl (\<lambda>s (t, n, g). add_file t n g s) s ys" for s and ys :: "(int \<times> str \<times> 'a retained_file) list"
    by (induction ys arbitrary: s) (simp_all add: case_prod_beta)
  then show ?thesis
    using retained.recent_found [OF retained_reach_inv [OF assms(1)] assms(2-5), of now] by simp
qed

lemma retained_recent_found_sample:
  "map_of (retained_abs (add_file 7 ''b'' (sample_file 2) (add_file 0 ''a'' (sample_file 1) (retained_new 2 0)))) ''a'' =
     Some (sample_file 1)"
proof -
  have "\<not> expired 7 (secs 1) (''a'', sample_file 1)" by (simp add: expired_def file_age_def sample_file_def)
  moreover have "generations_left (retained_new 2 0 :: nat retained_files) = 2 ^ 64 - 2"
    by (simp add: generations_left_def retained_new_def)
  ultimately show ?thesis
    using retained_recent_found [of "retained_new 2 0" "[(7, ''b'', sample_file 2)]" "''a''" "sample_file 1" 0]
      retained_reach.new [of 2 0, where 'm = nat]
    by (simp add: retained_new_def)
qed

end
