(* ===== verification/Persist_Store.thy ===== *)
theory Persist_Store
  imports Rust_Str
begin

text \<open>
  Errors of the persistence layer and the object-store blob writer (emwin-db/src/error.rs and
  emwin-db/src/writer.rs).  The object store itself, its path parser and the texts of its errors
  belong to other crates: the store is the record \<open>object_store\<close> of its operations on a
  state of its own.  The lemmas show that what \<^verbatim>\<open>delete\<close> removes is what \<^verbatim>\<open>write\<close> put.
\<close>

section \<open>Errors\<close>

datatype io_kind =
    ConnectionRefused | ConnectionReset | ConnectionAborted | NotConnected | BrokenPipe | TimedOut
  | Interrupted | WriteZero | UnexpectedEof | StorageFull | NotFound | OtherIo

datatype sqlx_kind = SqlxIo | SqlxTls | PoolTimedOut | PoolClosed | WorkerCrashed | OtherSqlx

datatype persist_error =
    PersistIo io_kind str
  | PersistJoin str
  | PersistJson str
  | PersistSqlx sqlx_kind str
  | PersistMigration str
  | PersistObjectStore str bool str
  | PersistClosed
  | PersistInvalidConfig str
  | PersistInvalidRequest str

fun show_persist_error :: "persist_error \<Rightarrow> str" where
  "show_persist_error (PersistIo k s) = s"
| "show_persist_error (PersistJoin s) = s"
| "show_persist_error (PersistJson s) = s"
| "show_persist_error (PersistSqlx k s) = s"
| "show_persist_error (PersistMigration s) = s"
| "show_persist_error (PersistObjectStore operation retryable message) =
     ''object store '' @ operation @ '' failed: '' @ message"
| "show_persist_error PersistClosed = ''persistence runtime is closed''"
| "show_persist_error (PersistInvalidConfig s) = ''invalid persistence config: '' @ s"
| "show_persist_error (PersistInvalidRequest s) = ''invalid persistence request: '' @ s"

fun is_retryable :: "persist_error \<Rightarrow> bool" where
  "is_retryable (PersistIo k s) \<longleftrightarrow>
     k \<in> {ConnectionRefused, ConnectionReset, ConnectionAborted, NotConnected, BrokenPipe, TimedOut,
          Interrupted, WriteZero, UnexpectedEof, StorageFull}"
| "is_retryable (PersistSqlx k s) \<longleftrightarrow> k \<in> {SqlxIo, SqlxTls, PoolTimedOut, PoolClosed, WorkerCrashed}"
| "is_retryable (PersistObjectStore operation retryable message) = retryable"
| "is_retryable (PersistJoin s) = False"
| "is_retryable (PersistJson s) = False"
| "is_retryable (PersistMigration s) = False"
| "is_retryable PersistClosed = False"
| "is_retryable (PersistInvalidConfig s) = False"
| "is_retryable (PersistInvalidRequest s) = False"

fun should_reset_postgres_pool :: "persist_error \<Rightarrow> bool" where
  "should_reset_postgres_pool (PersistSqlx k s) \<longleftrightarrow> k \<in> {SqlxIo, SqlxTls, PoolTimedOut, PoolClosed, WorkerCrashed}"
| "should_reset_postgres_pool e = False"

fun failure_class :: "persist_error \<Rightarrow> str" where
  "failure_class (PersistIo k s) = (if k = StorageFull then ''storage_full'' else ''filesystem_unavailable'')"
| "failure_class (PersistSqlx k s) = ''database_unavailable''"
| "failure_class (PersistObjectStore operation retryable message) = ''object_store_unavailable''"
| "failure_class (PersistJoin s) = ''runtime_join_failure''"
| "failure_class (PersistJson s) = ''json_failure''"
| "failure_class (PersistMigration s) = ''database_migration_failure''"
| "failure_class PersistClosed = ''runtime_closed''"
| "failure_class (PersistInvalidConfig s) = ''invalid_config''"
| "failure_class (PersistInvalidRequest s) = ''invalid_request''"

lemma reset_pool_retryable: "should_reset_postgres_pool e \<Longrightarrow> is_retryable e"
  by (cases e) simp_all

section \<open>Blobs\<close>

datatype blob_role = Payload | MetadataSidecar

record blob_entry =
  be_role :: blob_role
  be_relative_path :: str
  be_bytes :: bytes
  be_content_type :: "str option"

record stored_blob =
  sb_role :: blob_role
  sb_location :: str
  sb_size_bytes :: nat
  sb_content_type :: "str option"

text \<open>The variants of the store's errors; \<open>source\<close> and the rest are rendered texts.\<close>

datatype os_error =
    OsNotFound str
  | OsInvalidPath str
  | OsNotSupported str
  | OsAlreadyExists str
  | OsPrecondition str
  | OsNotModified str
  | OsNotImplemented str str
  | OsJoinError str
  | OsPermissionDenied str
  | OsUnauthenticated str
  | OsUnknownConfigurationKey str
  | OsOther str

definition object_store_error_from_object_store :: "str \<Rightarrow> os_error \<Rightarrow> str option \<Rightarrow> persist_error" where
  "object_store_error_from_object_store operation err location =
     (case err of
        OsNotFound path \<Rightarrow>
          PersistIo NotFound
            (''stored blob `'' @ (case location of Some l \<Rightarrow> l | None \<Rightarrow> path) @ ''` was not found during '' @ operation)
      | OsInvalidPath source \<Rightarrow> PersistInvalidRequest source
      | OsNotSupported source \<Rightarrow> PersistObjectStore operation False source
      | OsAlreadyExists source \<Rightarrow> PersistObjectStore operation False source
      | OsPrecondition source \<Rightarrow> PersistObjectStore operation False source
      | OsNotModified source \<Rightarrow> PersistObjectStore operation False source
      | OsNotImplemented op implementer \<Rightarrow> PersistObjectStore operation False (op @ '' by '' @ implementer)
      | OsJoinError source \<Rightarrow> PersistObjectStore operation True source
      | OsPermissionDenied source \<Rightarrow> PersistObjectStore operation False source
      | OsUnauthenticated source \<Rightarrow> PersistObjectStore operation False source
      | OsUnknownConfigurationKey key \<Rightarrow> PersistObjectStore operation False (''unknown config key `'' @ key @ ''`'')
      | OsOther text \<Rightarrow> PersistObjectStore operation True text)"

record ('w, 'p) object_store =
  os_parse_path :: "str \<Rightarrow> str + 'p"
  os_put :: "'p \<Rightarrow> bytes \<Rightarrow> 'w \<Rightarrow> 'w \<times> (os_error + unit)"
  os_delete :: "'p \<Rightarrow> 'w \<Rightarrow> 'w \<times> (os_error + unit)"

definition normalize_relative_path :: "str \<Rightarrow> str" where
  "normalize_relative_path relative_path =
     trim_start_matches (\<lambda>c. c = CHR ''/'') (map (\<lambda>c. if c = CHR 0x5C then CHR ''/'' else c) relative_path)"

definition build_object_key :: "str option \<Rightarrow> str \<Rightarrow> str" where
  "build_object_key pre relative_path =
     (let normalized = normalize_relative_path relative_path in
      case pre of
        Some p \<Rightarrow> if p \<noteq> [] then p @ ''/'' @ normalized else normalized
      | None \<Rightarrow> normalized)"

definition format_object_store_location :: "str \<Rightarrow> str \<Rightarrow> str" where
  "format_object_store_location root_location relative_path =
     (let normalized = normalize_relative_path relative_path;
          root = trim_end_matches (\<lambda>c. c = CHR ''/'') root_location
      in if root = [] then normalized else root @ ''/'' @ normalized)"

definition strip_object_store_root :: "str \<Rightarrow> str \<Rightarrow> str + str" where
  "strip_object_store_root location root_location =
     (case strip_prefix (trim_end_matches (\<lambda>c. c = CHR ''/'') root_location @ ''/'') location of
        Some rest \<Rightarrow> Inr (normalize_relative_path rest)
      | None \<Rightarrow> Inl (''stored blob location `'' @ location @
          ''` does not belong to configured object store root `'' @ root_location @ ''`''))"

definition parse_object_store_path :: "('w, 'p) object_store \<Rightarrow> str \<Rightarrow> persist_error + 'p" where
  "parse_object_store_path store path =
     (case os_parse_path store path of Inl err \<Rightarrow> Inl (PersistInvalidRequest err) | Inr p \<Rightarrow> Inr p)"

record ('w, 'p) blob_writer =
  bw_store :: "('w, 'p) object_store"
  bw_prefix :: "str option"
  bw_root_location :: str

definition blob_write :: "('w, 'p) blob_writer \<Rightarrow> blob_entry \<Rightarrow> 'w \<Rightarrow> 'w \<times> (persist_error + stored_blob)" where
  "blob_write bw entry w =
     (case parse_object_store_path (bw_store bw) (build_object_key (bw_prefix bw) (be_relative_path entry)) of
        Inl e \<Rightarrow> (w, Inl e)
      | Inr path \<Rightarrow>
          (case os_put (bw_store bw) path (be_bytes entry) w of
             (w', Inl err) \<Rightarrow> (w', Inl (object_store_error_from_object_store ''put_object'' err None))
           | (w', Inr _) \<Rightarrow>
               (w', Inr \<lparr>sb_role = be_role entry,
                         sb_location = format_object_store_location (bw_root_location bw) (be_relative_path entry),
                         sb_size_bytes = length (be_bytes entry), sb_content_type = be_content_type entry\<rparr>)))"

definition blob_delete :: "('w, 'p) blob_writer \<Rightarrow> stored_blob \<Rightarrow> 'w \<Rightarrow> 'w \<times> (persist_error + unit)" where
  "blob_delete bw blob w =
     (case strip_object_store_root (sb_location blob) (bw_root_location bw) of
        Inl e \<Rightarrow> (w, Inl (PersistInvalidRequest e))
      | Inr relative \<Rightarrow>
          (case parse_object_store_path (bw_store bw) (build_object_key (bw_prefix bw) relative) of
             Inl e \<Rightarrow> (w, Inl e)
           | Inr path \<Rightarrow>
               (case os_delete (bw_store bw) path w of
                  (w', Inr _) \<Rightarrow> (w', Inr ())
                | (w', Inl err) \<Rightarrow>
                    (case err of
                       OsNotFound p \<Rightarrow> (w', Inr ())
                     | _ \<Rightarrow> (w', Inl (object_store_error_from_object_store ''delete_object'' err
                               (Some (sb_location blob))))))))"

section \<open>Keys and locations\<close>

lemma normalize_idem [simp]: "normalize_relative_path (normalize_relative_path p) = normalize_relative_path p"
proof -
  have "map (\<lambda>c. if c = CHR 0x5C then CHR ''/'' else c) (dropWhile P (map (\<lambda>c. if c = CHR 0x5C then CHR ''/'' else c) p)) =
      dropWhile P (map (\<lambda>c. if c = CHR 0x5C then CHR ''/'' else c) p)" for P
    by (rule map_idI) (auto dest!: set_dropWhileD)
  then show ?thesis by (simp add: normalize_relative_path_def trim_start_matches_def)
qed

lemma build_key_normalize [simp]: "build_object_key pre (normalize_relative_path p) = build_object_key pre p"
  by (simp add: build_object_key_def)

lemma strip_format:
  "trim_end_matches (\<lambda>c. c = CHR ''/'') root \<noteq> [] \<Longrightarrow>
     strip_object_store_root (format_object_store_location root p) root = Inr (normalize_relative_path p)"
  by (simp add: strip_object_store_root_def format_object_store_location_def Let_def strip_prefix_def)

text \<open>Separators and a leading slash do not matter to the key or to the location.\<close>

lemma key_separators:
  "normalize_relative_path p = normalize_relative_path q \<Longrightarrow>
     build_object_key pre p = build_object_key pre q \<and>
     format_object_store_location root p = format_object_store_location root q"
  by (simp add: build_object_key_def format_object_store_location_def)

definition map_store :: "((str \<times> bytes) list, str) object_store" where
  "map_store =
     \<lparr>os_parse_path = (\<lambda>p. if p = [] then Inl ''empty'' else Inr p), os_put = (\<lambda>p bs w. ((p, bs) # w, Inr ())),
      os_delete = (\<lambda>p w. if p \<in> fst ` set w then (filter (\<lambda>e. fst e \<noteq> p) w, Inr ()) else (w, Inl (OsNotFound p)))\<rparr>"

definition map_writer :: "((str \<times> bytes) list, str) blob_writer" where
  "map_writer = \<lparr>bw_store = map_store, bw_prefix = Some ''archive'', bw_root_location = ''s3://b/archive/''\<rparr>"

text \<open>
  C24.  What the writer stored can be deleted: a delete of the reference that a write returned reaches
  the object store with exactly the path that the write used, whatever separators and leading
  slashes the relative path and whatever trailing slashes the root have; a missing object counts
  as deleted.
\<close>

theorem blob_delete_written:
  assumes "trim_end_matches (\<lambda>c. c = CHR ''/'') (bw_root_location bw) \<noteq> []"
    "blob_write bw entry w = (w1, Inr blob)"
  shows "\<exists>path. os_parse_path (bw_store bw) (build_object_key (bw_prefix bw) (be_relative_path entry)) = Inr path \<and>
    os_put (bw_store bw) path (be_bytes entry) w = (w1, Inr ()) \<and>
    blob_delete bw blob w2 =
      (case os_delete (bw_store bw) path w2 of
         (w', Inr _) \<Rightarrow> (w', Inr ())
       | (w', Inl err) \<Rightarrow>
           (case err of
              OsNotFound p \<Rightarrow> (w', Inr ())
            | _ \<Rightarrow> (w', Inl (object_store_error_from_object_store ''delete_object'' err (Some (sb_location blob))))))"
  using assms
  by (auto simp: blob_write_def blob_delete_def parse_object_store_path_def strip_format
      split: sum.splits prod.splits)

theorem blob_delete_written_witness:
  "\<exists>w blob. blob_write map_writer \<lparr>be_role = Payload, be_relative_path = (''/x'' @ [CHR 0x5C] @ ''y''), be_bytes = [1], be_content_type = None\<rparr> [] =
     (w, Inr blob) \<and> blob_delete map_writer blob w = ([], Inr ())"
proof -
  let ?e = "\<lparr>be_role = Payload, be_relative_path = (''/x'' @ [CHR 0x5C] @ ''y''), be_bytes = [1], be_content_type = None\<rparr>"
  have root: "trim_end_matches (\<lambda>c. c = CHR ''/'') (bw_root_location map_writer) \<noteq> []"
    by (simp add: map_writer_def trim_end_matches_def)
  obtain w blob where r: "blob_write map_writer ?e [] = (w, Inr blob)" "w = [(''archive/x/y'', [1])]"
    by (simp add: blob_write_def map_writer_def map_store_def parse_object_store_path_def build_object_key_def
        normalize_relative_path_def trim_start_matches_def)
  obtain path where p: "os_parse_path (bw_store map_writer) (build_object_key (bw_prefix map_writer) (be_relative_path ?e)) = Inr path"
      "os_put (bw_store map_writer) path (be_bytes ?e) [] = (w, Inr ())"
      "blob_delete map_writer blob w =
      (case os_delete (bw_store map_writer) path w of
         (w', Inr _) \<Rightarrow> (w', Inr ())
       | (w', Inl err) \<Rightarrow>
           (case err of
              OsNotFound p \<Rightarrow> (w', Inr ())
            | _ \<Rightarrow> (w', Inl (object_store_error_from_object_store ''delete_object'' err (Some (sb_location blob))))))"
    using blob_delete_written [OF root r(1), of w] by blast
  then have "path = ''archive/x/y''" using r(2) by (simp add: map_writer_def map_store_def)
  with p(3) r show ?thesis by (intro exI [of _ w] exI [of _ blob]) (simp add: map_writer_def map_store_def)
qed

end
