(* ===== verification/Persist_Runtime.thy ===== *)
theory Persist_Runtime
  imports Persist_Store "HOL-Library.Sublist"
begin

text \<open>
  The background persistence runtime (emwin-db/src/runtime): the bounded queue with its semaphore,
  the retry policy with throttled failure logs, and the worker that drains the queue.  The blob
  writer and the metadata sink are traits; they, the clock and the flag that another task may set
  while the worker sleeps are the record \<open>backend\<close> of operations on a state of its own.
  The calls made are kept in a list, so that the theorems can speak of them.
\<close>

section \<open>Configuration, requests and statistics\<close>

record persistence_config =
  pc_queue_capacity :: nat
  pc_retry_initial_delay :: duration
  pc_retry_max_delay :: duration
  pc_retry_max_attempts :: u32
  pc_failure_log_cooldown :: duration

definition persistence_config_new :: "nat \<Rightarrow> persistence_config" where
  "persistence_config_new queue_capacity =
     \<lparr>pc_queue_capacity = max queue_capacity 1, pc_retry_initial_delay = secs 1, pc_retry_max_delay = secs 60,
      pc_retry_max_attempts = 3, pc_failure_log_cooldown = secs 30\<rparr>"

definition with_retry_delays :: "persistence_config \<Rightarrow> duration \<Rightarrow> duration \<Rightarrow> persistence_config" where
  "with_retry_delays cfg initial_delay max_delay =
     cfg\<lparr>pc_retry_initial_delay := initial_delay, pc_retry_max_delay := max max_delay initial_delay\<rparr>"

definition with_retry_max_attempts :: "persistence_config \<Rightarrow> u32 \<Rightarrow> persistence_config" where
  "with_retry_max_attempts cfg attempts = cfg\<lparr>pc_retry_max_attempts := max attempts 1\<rparr>"

definition with_failure_log_cooldown :: "persistence_config \<Rightarrow> duration \<Rightarrow> persistence_config" where
  "with_failure_log_cooldown cfg cooldown = cfg\<lparr>pc_failure_log_cooldown := cooldown\<rparr>"

record 'm persist_request =
  pr_request_key :: str
  pr_metadata :: 'm
  pr_blobs :: "blob_entry list"

record 'm persisted_request =
  pd_request_key :: str
  pd_metadata :: 'm
  pd_blobs :: "stored_blob list"

record persistence_stats =
  st_queue_len :: nat
  st_queue_capacity :: nat
  enqueued_total :: u64
  evicted_total :: u64
  persisted_total :: u64
  failed_total :: u64
  retry_exhausted_total :: u64
  stale_dropped_total :: u64

definition stats_default :: persistence_stats where
  "stats_default =
     \<lparr>st_queue_len = 0, st_queue_capacity = 0, enqueued_total = 0, evicted_total = 0, persisted_total = 0,
      failed_total = 0, retry_exhausted_total = 0, stale_dropped_total = 0\<rparr>"

record enqueue_result =
  er_accepted :: bool
  er_evicted_oldest_key :: "str option"
  er_queue_len :: nat

section \<open>Queue\<close>

record 'm shared_queue =
  qu_pending :: "'m persist_request list"
  qu_closed :: bool
  qu_stats :: persistence_stats
  qu_available :: nat
  qu_capacity :: nat

definition shared_queue_new :: "nat \<Rightarrow> 'm shared_queue" where
  "shared_queue_new capacity =
     \<lparr>qu_pending = [], qu_closed = False, qu_stats = stats_default, qu_available = 0, qu_capacity = max capacity 1\<rparr>"

definition count_enqueued :: "persistence_stats \<Rightarrow> persistence_stats" where
  "count_enqueued s = s\<lparr>enqueued_total := sat_add (enqueued_total s) 1\<rparr>"

definition enqueue :: "'m persist_request \<Rightarrow> 'm shared_queue \<Rightarrow> 'm shared_queue \<times> enqueue_result" where
  "enqueue request q =
     (if qu_closed q
      then (q, \<lparr>er_accepted = False, er_evicted_oldest_key = None, er_queue_len = length (qu_pending q)\<rparr>)
      else
        let (q1, evicted) =
          (if length (qu_pending q) = qu_capacity q
           then (q\<lparr>qu_stats := (qu_stats q)\<lparr>evicted_total := sat_add (evicted_total (qu_stats q)) 1\<rparr>,
                   qu_pending := drop 1 (qu_pending q)\<rparr>,
                 case qu_pending q of [] \<Rightarrow> None | item # _ \<Rightarrow> Some (pr_request_key item))
           else (q\<lparr>qu_stats := count_enqueued (qu_stats q), qu_available := qu_available q + 1\<rparr>, None));
            q2 = q1\<lparr>qu_pending := qu_pending q1 @ [request]\<rparr>;
            q3 = (if evicted \<noteq> None then q2\<lparr>qu_stats := count_enqueued (qu_stats q2)\<rparr> else q2)
        in (q3, \<lparr>er_accepted = True, er_evicted_oldest_key = evicted, er_queue_len = length (qu_pending q3)\<rparr>))"

definition stats_snapshot :: "'m shared_queue \<Rightarrow> persistence_stats" where
  "stats_snapshot q = (qu_stats q)\<lparr>st_queue_len := length (qu_pending q), st_queue_capacity := qu_capacity q\<rparr>"

definition queue_close :: "'m shared_queue \<Rightarrow> 'm shared_queue \<times> nat" where
  "queue_close q =
     (if qu_closed q then (q, 0)
      else (q\<lparr>qu_closed := True, qu_pending := [], qu_available := qu_available q + 1\<rparr>, length (qu_pending q)))"

definition pop_request :: "'m shared_queue \<Rightarrow> 'm shared_queue \<times> 'm persist_request option" where
  "pop_request q =
     (case qu_pending q of [] \<Rightarrow> (q, None) | r # rest \<Rightarrow> (q\<lparr>qu_pending := rest\<rparr>, Some r))"

definition queue_is_closed :: "'m shared_queue \<Rightarrow> bool" where
  "queue_is_closed q \<longleftrightarrow> qu_closed q \<and> qu_pending q = []"

section \<open>Retry policy\<close>

record failure_context =
  fc_stage :: str
  fc_backend :: str
  fc_target :: str

record degraded_backend =
  dg_stage :: str
  dg_backend :: str
  dg_target :: str
  dg_failure_class :: str
  dg_last_error :: str
  dg_last_logged_at :: instant
  dg_suppressed_failures :: u64

type_synonym backend_health = "degraded_backend option"

definition degraded_of :: "failure_context \<Rightarrow> persist_error \<Rightarrow> instant \<Rightarrow> degraded_backend" where
  "degraded_of ctx err now =
     \<lparr>dg_stage = fc_stage ctx, dg_backend = fc_backend ctx, dg_target = fc_target ctx,
      dg_failure_class = failure_class err, dg_last_error = show_persist_error err, dg_last_logged_at = now,
      dg_suppressed_failures = 0\<rparr>"

text \<open>The second component says whether a warning is logged, with the failures suppressed before it.\<close>

definition note_retryable_failure :: "backend_health \<Rightarrow> failure_context \<Rightarrow> persist_error \<Rightarrow> duration \<Rightarrow> instant \<Rightarrow>
    backend_health \<times> u64 option" where
  "note_retryable_failure h ctx err cooldown now =
     (case h of
        Some current \<Rightarrow>
          if dg_failure_class current = failure_class err \<and> dg_stage current = fc_stage ctx \<and>
             dg_backend current = fc_backend ctx \<and> dg_target current = fc_target ctx \<and>
             dg_last_error current = show_persist_error err \<and> now - dg_last_logged_at current < cooldown
          then (Some (current\<lparr>dg_suppressed_failures := sat_add (dg_suppressed_failures current) 1\<rparr>), None)
          else (Some (degraded_of ctx err now), Some (dg_suppressed_failures current))
      | None \<Rightarrow> (Some (degraded_of ctx err now), Some 0))"

definition note_recovered :: "backend_health \<Rightarrow> backend_health" where
  "note_recovered h = None"

definition DURATION_MAX :: duration where
  "DURATION_MAX = secs (2 ^ 64 - 1) + 999999999"

definition retry_delay :: "persistence_config \<Rightarrow> u32 \<Rightarrow> duration" where
  "retry_delay cfg attempt =
     (let multiplier = 2 ^ unat (min attempt 6)
      in min (min (pc_retry_initial_delay cfg * multiplier) DURATION_MAX) (pc_retry_max_delay cfg))"

definition retry_budget_exhausted :: "persistence_config \<Rightarrow> u32 \<Rightarrow> bool" where
  "retry_budget_exhausted cfg attempt \<longleftrightarrow> sat_add attempt 1 \<ge> max (pc_retry_max_attempts cfg) 1"

section \<open>One request\<close>

record ('w, 'm) backend =
  bk_write :: "blob_entry \<Rightarrow> 'w \<Rightarrow> 'w \<times> (persist_error + stored_blob)"
  bk_delete :: "stored_blob \<Rightarrow> 'w \<Rightarrow> 'w \<times> (persist_error + unit)"
  bk_persist :: "'m persisted_request \<Rightarrow> 'w \<Rightarrow> 'w \<times> (persist_error + unit)"
  bk_sleep :: "duration \<Rightarrow> 'w \<Rightarrow> 'w"
  bk_closed :: "'w \<Rightarrow> bool"
  bk_now :: "'w \<Rightarrow> instant"
  bk_writer_name :: str
  bk_writer_target :: str
  bk_sink_name :: str
  bk_sink_target :: "str option"

datatype 'm call =
    Call_Write blob_entry "persist_error + stored_blob"
  | Call_Delete stored_blob "persist_error + unit"
  | Call_Persist "'m persisted_request" "persist_error + unit"
  | Call_Sleep duration

record ('w, 'm) io_state =
  io_world :: 'w
  io_calls :: "'m call list"

definition do_write :: "('w, 'm) backend \<Rightarrow> blob_entry \<Rightarrow> ('w, 'm) io_state \<Rightarrow>
    ('w, 'm) io_state \<times> (persist_error + stored_blob)" where
  "do_write bk e io =
     (case bk_write bk e (io_world io) of
        (w, r) \<Rightarrow> (\<lparr>io_world = w, io_calls = io_calls io @ [Call_Write e r]\<rparr>, r))"

definition do_delete :: "('w, 'm) backend \<Rightarrow> stored_blob \<Rightarrow> ('w, 'm) io_state \<Rightarrow> ('w, 'm) io_state" where
  "do_delete bk b io =
     (case bk_delete bk b (io_world io) of (w, r) \<Rightarrow> \<lparr>io_world = w, io_calls = io_calls io @ [Call_Delete b r]\<rparr>)"

definition do_persist :: "('w, 'm) backend \<Rightarrow> 'm persisted_request \<Rightarrow> ('w, 'm) io_state \<Rightarrow>
    ('w, 'm) io_state \<times> (persist_error + unit)" where
  "do_persist bk p io =
     (case bk_persist bk p (io_world io) of
        (w, r) \<Rightarrow> (\<lparr>io_world = w, io_calls = io_calls io @ [Call_Persist p r]\<rparr>, r))"

definition do_sleep :: "('w, 'm) backend \<Rightarrow> duration \<Rightarrow> ('w, 'm) io_state \<Rightarrow> ('w, 'm) io_state" where
  "do_sleep bk d io = \<lparr>io_world = bk_sleep bk d (io_world io), io_calls = io_calls io @ [Call_Sleep d]\<rparr>"

fun write_blobs :: "('w, 'm) backend \<Rightarrow> blob_entry list \<Rightarrow> stored_blob list \<Rightarrow> ('w, 'm) io_state \<Rightarrow>
    ('w, 'm) io_state \<times> (stored_blob list \<times> persist_error + stored_blob list)" where
  "write_blobs bk [] stored io = (io, Inr stored)"
| "write_blobs bk (blob # blobs) stored io =
     (case do_write bk blob io of
        (io', Inr s) \<Rightarrow> write_blobs bk blobs (stored @ [s]) io'
      | (io', Inl err) \<Rightarrow> (io', Inl (stored, err)))"

fun cleanup_stored_blobs :: "('w, 'm) backend \<Rightarrow> stored_blob list \<Rightarrow> ('w, 'm) io_state \<Rightarrow> ('w, 'm) io_state" where
  "cleanup_stored_blobs bk [] io = io"
| "cleanup_stored_blobs bk (b # bs) io = cleanup_stored_blobs bk bs (do_delete bk b io)"

datatype persist_outcome =
    Persisted str
  | StaleDropped str failure_context persist_error
  | PersistFailed str failure_context persist_error

definition blob_context :: "('w, 'm) backend \<Rightarrow> failure_context" where
  "blob_context bk = \<lparr>fc_stage = ''blob_write'', fc_backend = bk_writer_name bk, fc_target = bk_writer_target bk\<rparr>"

definition metadata_context :: "('w, 'm) backend \<Rightarrow> failure_context" where
  "metadata_context bk =
     \<lparr>fc_stage = ''metadata_persist'', fc_backend = bk_sink_name bk,
      fc_target = (case bk_sink_target bk of Some t \<Rightarrow> t | None \<Rightarrow> ''unavailable'')\<rparr>"

lemma attempts_left:
  "\<not> retry_budget_exhausted cfg attempt \<Longrightarrow>
     unat (max (pc_retry_max_attempts cfg) 1) - unat (sat_add attempt 1) <
     unat (max (pc_retry_max_attempts cfg) 1) - unat attempt"
proof -
  assume "\<not> retry_budget_exhausted cfg attempt"
  then have lt: "unat (sat_add attempt 1) < unat (max (pc_retry_max_attempts cfg) 1)"
    by (simp add: retry_budget_exhausted_def word_le_nat_alt not_le)
  moreover have "unat (max (pc_retry_max_attempts cfg) 1) < 2 ^ 32" using unat_bound [where 'a = 32] by simp
  ultimately have "unat (sat_add attempt 1) = Suc (unat attempt)" by (simp add: unat_sat_add_1 min_def split: if_splits)
  with lt show ?thesis by simp
qed

text \<open>The two loops, with the number of failed attempts so far.\<close>

function blob_loop :: "('w, 'm) backend \<Rightarrow> persistence_config \<Rightarrow> 'm persist_request \<Rightarrow> u32 \<Rightarrow> stored_blob list \<Rightarrow>
    backend_health \<Rightarrow> ('w, 'm) io_state \<Rightarrow> ('w, 'm) io_state \<times> backend_health \<times> (persist_outcome + stored_blob list)" where
  "blob_loop bk cfg request attempt candidates h io =
     (case write_blobs bk (pr_blobs request) [] io of
        (io1, Inr stored) \<Rightarrow> (io1, h, Inr stored)
      | (io1, Inl (stored, err)) \<Rightarrow>
          if is_retryable err \<and> \<not> bk_closed bk (io_world io1)
          then
            let candidates' = candidates @ stored in
            if retry_budget_exhausted cfg attempt
            then (cleanup_stored_blobs bk candidates' io1, h,
                  Inl (StaleDropped (pr_request_key request) (blob_context bk) err))
            else
              let delay = retry_delay cfg attempt;
                  h1 = fst (note_retryable_failure h (blob_context bk) err (pc_failure_log_cooldown cfg)
                              (bk_now bk (io_world io1)))
              in blob_loop bk cfg request (sat_add attempt 1) candidates' h1 (do_sleep bk delay io1)
          else (io1, h, Inl (PersistFailed (pr_request_key request) (blob_context bk) err)))"
  by pat_completeness auto
termination
  by (relation "measure (\<lambda>(bk, cfg, request, attempt, c, h, io).
      unat (max (pc_retry_max_attempts cfg) 1) - unat attempt)") (use attempts_left in auto)

declare blob_loop.simps [simp del]

function metadata_loop :: "('w, 'm) backend \<Rightarrow> persistence_config \<Rightarrow> 'm persist_request \<Rightarrow> stored_blob list \<Rightarrow> u32 \<Rightarrow>
    backend_health \<Rightarrow> ('w, 'm) io_state \<Rightarrow> ('w, 'm) io_state \<times> backend_health \<times> persist_outcome" where
  "metadata_loop bk cfg request stored attempt h io =
     (case do_persist bk \<lparr>pd_request_key = pr_request_key request, pd_metadata = pr_metadata request, pd_blobs = stored\<rparr> io of
        (io1, Inr _) \<Rightarrow> (io1, note_recovered h, Persisted (pr_request_key request))
      | (io1, Inl err) \<Rightarrow>
          if is_retryable err \<and> \<not> bk_closed bk (io_world io1)
          then
            if retry_budget_exhausted cfg attempt
            then (cleanup_stored_blobs bk stored io1, h,
                  StaleDropped (pr_request_key request) (metadata_context bk) err)
            else
              let delay = retry_delay cfg attempt;
                  h1 = fst (note_retryable_failure h (metadata_context bk) err (pc_failure_log_cooldown cfg)
                              (bk_now bk (io_world io1)))
              in metadata_loop bk cfg request stored (sat_add attempt 1) h1 (do_sleep bk delay io1)
          else (io1, h, PersistFailed (pr_request_key request) (metadata_context bk) err))"
  by pat_completeness auto
termination
  by (relation "measure (\<lambda>(bk, cfg, request, stored, attempt, h, io).
      unat (max (pc_retry_max_attempts cfg) 1) - unat attempt)") (use attempts_left in auto)

declare metadata_loop.simps [simp del]

definition persist_request_with_retry :: "('w, 'm) backend \<Rightarrow> persistence_config \<Rightarrow> 'm persist_request \<Rightarrow>
    backend_health \<Rightarrow> ('w, 'm) io_state \<Rightarrow> ('w, 'm) io_state \<times> backend_health \<times> persist_outcome" where
  "persist_request_with_retry bk cfg request h io =
     (case blob_loop bk cfg request 0 [] h io of
        (io1, h1, Inl outcome) \<Rightarrow> (io1, h1, outcome)
      | (io1, h1, Inr stored) \<Rightarrow> metadata_loop bk cfg request stored 0 h1 io1)"

section \<open>Calls of a request\<close>

fun written :: "'m call list \<Rightarrow> stored_blob list" where
  "written [] = []"
| "written (Call_Write e (Inr s) # cs) = s # written cs"
| "written (c # cs) = written cs"

fun deleted :: "'m call list \<Rightarrow> stored_blob list" where
  "deleted [] = []"
| "deleted (Call_Delete s r # cs) = s # deleted cs"
| "deleted (c # cs) = deleted cs"

fun sleeps :: "'m call list \<Rightarrow> duration list" where
  "sleeps [] = []"
| "sleeps (Call_Sleep d # cs) = d # sleeps cs"
| "sleeps (c # cs) = sleeps cs"

lemma calls_append [simp]:
  "written (a @ b) = written a @ written b" "deleted (a @ b) = deleted a @ deleted b" "sleeps (a @ b) = sleeps a @ sleeps b"
  by (induction a rule: written.induct) simp_all

text \<open>
  The log of a request, described apart from the loops.  A pass over the blobs stores them in order;
  it fails at one of them, after references for those before it.  A stage makes at most \<open>allowed\<close>
  attempts, and every attempt but its last ended with a retryable error and was followed by its pause.
\<close>

definition writes :: "blob_entry list \<Rightarrow> stored_blob list \<Rightarrow> 'm call list" where
  "writes es ss = map2 (\<lambda>e s. Call_Write e (Inr s)) es ss"

definition write_failed :: "blob_entry list \<Rightarrow> 'm call list \<Rightarrow> stored_blob list \<Rightarrow> persist_error \<Rightarrow> bool" where
  "write_failed blobs cs ss err \<longleftrightarrow>
     (\<exists>before e after. blobs = before @ e # after \<and> length ss = length before \<and>
        cs = writes before ss @ [Call_Write e (Inl err)])"

definition allowed :: "persistence_config \<Rightarrow> nat" where
  "allowed cfg = unat (max (pc_retry_max_attempts cfg) 1)"

inductive write_tries :: "persistence_config \<Rightarrow> blob_entry list \<Rightarrow> nat \<Rightarrow> stored_blob list \<Rightarrow> 'm call list \<Rightarrow> bool"
  for cfg blobs where
  none: "write_tries cfg blobs 0 [] []"
| again: "write_tries cfg blobs n ss cs \<Longrightarrow> write_failed blobs ds ts err \<Longrightarrow> is_retryable err \<Longrightarrow> Suc n < allowed cfg \<Longrightarrow>
    write_tries cfg blobs (Suc n) (ss @ ts) (cs @ ds @ [Call_Sleep (retry_delay cfg (word_of_nat n))])"

inductive persist_tries :: "persistence_config \<Rightarrow> 'm persisted_request \<Rightarrow> nat \<Rightarrow> 'm call list \<Rightarrow> bool"
  for cfg p where
  none: "persist_tries cfg p 0 []"
| again: "persist_tries cfg p n cs \<Longrightarrow> is_retryable err \<Longrightarrow> Suc n < allowed cfg \<Longrightarrow>
    persist_tries cfg p (Suc n) (cs @ [Call_Persist p (Inl err), Call_Sleep (retry_delay cfg (word_of_nat n))])"

definition persisted_as :: "'m persist_request \<Rightarrow> stored_blob list \<Rightarrow> 'm persisted_request" where
  "persisted_as request ss =
     \<lparr>pd_request_key = pr_request_key request, pd_metadata = pr_metadata request, pd_blobs = ss\<rparr>"

definition deletes :: "stored_blob list \<Rightarrow> (persist_error + unit) list \<Rightarrow> 'm call list" where
  "deletes ss rs = map2 Call_Delete ss rs"

text \<open>
  How a request ends: \<open>closed\<close> says whether the runtime is closed then.  Each outcome carries the error of
  the last attempt; a drop comes after exactly the allowed number of attempts of its stage.
\<close>

inductive request_trace :: "('w, 'm) backend \<Rightarrow> persistence_config \<Rightarrow> 'm persist_request \<Rightarrow> bool \<Rightarrow> 'm call list \<Rightarrow>
    persist_outcome \<Rightarrow> bool" for bk cfg request closed where
  blobs_failed: "write_tries cfg (pr_blobs request) n ss cs \<Longrightarrow> write_failed (pr_blobs request) ds ts err \<Longrightarrow>
    \<not> is_retryable err \<or> closed \<Longrightarrow>
    request_trace bk cfg request closed (cs @ ds) (PersistFailed (pr_request_key request) (blob_context bk) err)"
| blobs_dropped: "write_tries cfg (pr_blobs request) n ss cs \<Longrightarrow> write_failed (pr_blobs request) ds ts err \<Longrightarrow>
    is_retryable err \<Longrightarrow> Suc n = allowed cfg \<Longrightarrow> length rs = length (ss @ ts) \<Longrightarrow>
    request_trace bk cfg request closed (cs @ ds @ deletes (ss @ ts) rs)
      (StaleDropped (pr_request_key request) (blob_context bk) err)"
| persisted: "write_tries cfg (pr_blobs request) n ss cs \<Longrightarrow> length ts = length (pr_blobs request) \<Longrightarrow>
    persist_tries cfg (persisted_as request ts) m ds \<Longrightarrow>
    request_trace bk cfg request closed
      (cs @ writes (pr_blobs request) ts @ ds @ [Call_Persist (persisted_as request ts) (Inr ())])
      (Persisted (pr_request_key request))"
| metadata_failed: "write_tries cfg (pr_blobs request) n ss cs \<Longrightarrow> length ts = length (pr_blobs request) \<Longrightarrow>
    persist_tries cfg (persisted_as request ts) m ds \<Longrightarrow> \<not> is_retryable err \<or> closed \<Longrightarrow>
    request_trace bk cfg request closed
      (cs @ writes (pr_blobs request) ts @ ds @ [Call_Persist (persisted_as request ts) (Inl err)])
      (PersistFailed (pr_request_key request) (metadata_context bk) err)"
| metadata_dropped: "write_tries cfg (pr_blobs request) n ss cs \<Longrightarrow> length ts = length (pr_blobs request) \<Longrightarrow>
    persist_tries cfg (persisted_as request ts) m ds \<Longrightarrow> is_retryable err \<Longrightarrow> Suc m = allowed cfg \<Longrightarrow>
    length rs = length ts \<Longrightarrow>
    request_trace bk cfg request closed
      (cs @ writes (pr_blobs request) ts @ ds @ [Call_Persist (persisted_as request ts) (Inl err)] @ deletes ts rs)
      (StaleDropped (pr_request_key request) (metadata_context bk) err)"

lemma calls_of_writes [simp]:
  "length ss = length es \<Longrightarrow> written (writes es ss) = ss" "deleted (writes es ss) = []" "sleeps (writes es ss) = []"
proof -
  show "length ss = length es \<Longrightarrow> written (writes es ss) = ss"
    by (induction es ss rule: list_induct2') (simp_all add: writes_def)
  show "deleted (writes es ss) = []" "sleeps (writes es ss) = []"
    by (induction es ss rule: list_induct2') (simp_all add: writes_def)
qed

lemma calls_of_deletes [simp]:
  "length rs = length ss \<Longrightarrow> deleted (deletes ss rs) = ss" "written (deletes ss rs) = []" "sleeps (deletes ss rs) = []"
proof -
  show "length rs = length ss \<Longrightarrow> deleted (deletes ss rs) = ss"
    by (induction ss rs rule: list_induct2') (simp_all add: deletes_def)
  show "written (deletes ss rs) = []" "sleeps (deletes ss rs) = []"
    by (induction ss rs rule: list_induct2') (simp_all add: deletes_def)
qed

lemma calls_of_failure:
  "write_failed blobs cs ss err \<Longrightarrow> written cs = ss \<and> deleted cs = [] \<and> sleeps cs = []"
  by (auto simp: write_failed_def)

lemma allowed_pos [simp]: "0 < allowed cfg"
proof -
  have "(0 :: u32) < 1" by simp
  then show ?thesis by (simp only: allowed_def unat_gt_0) (metis max.cobounded2 not_le word_gt_0)
qed

lemma tries_bounded:
  "write_tries cfg blobs n ss cs \<Longrightarrow> n < allowed cfg"
  by (induction rule: write_tries.induct) simp_all

lemma persist_tries_bounded:
  "persist_tries cfg p n cs \<Longrightarrow> n < allowed cfg"
  by (induction rule: persist_tries.induct) simp_all

lemma calls_of_tries:
  "write_tries cfg blobs n ss cs \<Longrightarrow>
     written cs = ss \<and> deleted cs = [] \<and> sleeps cs = map (\<lambda>i. retry_delay cfg (word_of_nat i)) [0..<n]"
  by (induction rule: write_tries.induct) (auto dest: calls_of_failure)

lemma calls_of_persist_tries:
  "persist_tries cfg p n cs \<Longrightarrow>
     written cs = [] \<and> deleted cs = [] \<and> sleeps cs = map (\<lambda>i. retry_delay cfg (word_of_nat i)) [0..<n]"
  by (induction rule: persist_tries.induct) simp_all

text \<open>The write results of the log are results of the writer.\<close>

definition made :: "('w, 'm) backend \<Rightarrow> 'm call list \<Rightarrow> bool" where
  "made bk cs \<longleftrightarrow> (\<forall>e s. Call_Write e (Inr s) \<in> set cs \<longrightarrow> (\<exists>w w'. bk_write bk e w = (w', Inr s)))"

lemma made_append [simp]: "made bk (cs @ ds) \<longleftrightarrow> made bk cs \<and> made bk ds"
  by (auto simp: made_def)

lemma made_other [simp]:
  "made bk []" "made bk (Call_Delete b r # cs) = made bk cs" "made bk (Call_Persist p q # cs) = made bk cs"
  "made bk (Call_Sleep d # cs) = made bk cs" "made bk (Call_Write e (Inl err) # cs) = made bk cs"
  by (auto simp: made_def)

lemma write_blobs_trace:
  "write_blobs bk blobs stored io = (io', r) \<Longrightarrow>
     \<exists>cs ts. io_calls io' = io_calls io @ cs \<and> made bk cs \<and>
       (case r of
          Inr ss \<Rightarrow> ss = stored @ ts \<and> length ts = length blobs \<and> cs = writes blobs ts
        | Inl (ss, err) \<Rightarrow> ss = stored @ ts \<and> write_failed blobs cs ts err)"
proof (induction bk blobs stored io arbitrary: io' r rule: write_blobs.induct)
  case (1 bk stored io)
  then show ?case by (auto simp: writes_def)
next
  case (2 bk blob blobs stored io)
  obtain io1 r1 where w: "do_write bk blob io = (io1, r1)" by fastforce
  then have calls: "io_calls io1 = io_calls io @ [Call_Write blob r1]" "made bk [Call_Write blob r1]"
    by (auto simp: do_write_def made_def split: prod.splits)
  show ?case
  proof (cases r1)
    case (Inl err)
    then have "io' = io1" "r = Inl (stored, err)" using "2.prems" w by auto
    moreover have "write_failed (blob # blobs) [Call_Write blob (Inl err)] [] err"
      unfolding write_failed_def by (intro exI [of _ "[]"] exI [of _ blob] exI [of _ blobs]) (simp add: writes_def)
    ultimately show ?thesis using calls Inl by (intro exI [of _ "[Call_Write blob r1]"] exI [of _ "[]"]) simp
  next
    case (Inr s)
    then have "write_blobs bk blobs (stored @ [s]) io1 = (io', r)" using "2.prems" w by simp
    from "2.IH" [OF w [symmetric] Inr this] obtain cs ts where
      cs: "io_calls io' = io_calls io1 @ cs" "made bk cs" and
      r: "case r of Inr ss \<Rightarrow> ss = (stored @ [s]) @ ts \<and> length ts = length blobs \<and> cs = writes blobs ts
          | Inl (ss, err) \<Rightarrow> ss = (stored @ [s]) @ ts \<and> write_failed blobs cs ts err" by blast
    have "write_failed (blob # blobs) (Call_Write blob r1 # cs) (s # ts) err" if failed: "write_failed blobs cs ts err" for err
    proof -
      obtain before e rest where "blobs = before @ e # rest" "length ts = length before" "cs = writes before ts @ [Call_Write e (Inl err)]"
        using failed by (auto simp: write_failed_def)
      then show ?thesis
        unfolding write_failed_def using Inr
        by (intro exI [of _ "blob # before"] exI [of _ e] exI [of _ rest]) (simp add: writes_def)
    qed
    then show ?thesis
      using calls cs r Inr
      by (intro exI [of _ "Call_Write blob r1 # cs"] exI [of _ "s # ts"])
        (auto simp: writes_def made_def split: sum.splits)
  qed
qed

lemma cleanup_trace:
  "\<exists>rs. length rs = length bs \<and> io_calls (cleanup_stored_blobs bk bs io) = io_calls io @ deletes bs rs"
proof (induction bk bs io rule: cleanup_stored_blobs.induct)
  case (2 bk b bs io)
  obtain w r where d: "bk_delete bk b (io_world io) = (w, r)" by fastforce
  from 2 obtain rs where "length rs = length bs"
    "io_calls (cleanup_stored_blobs bk bs (do_delete bk b io)) = io_calls (do_delete bk b io) @ deletes bs rs" by blast
  with d show ?case by (intro exI [of _ "r # rs"]) (simp add: do_delete_def deletes_def)
qed (simp add: deletes_def)

lemma made_deletes [simp]: "made bk (deletes bs rs)"
  by (auto simp: made_def deletes_def)

lemma exhausted_allowed:
  assumes "unat attempt < allowed cfg"
  shows "retry_budget_exhausted cfg attempt \<longleftrightarrow> Suc (unat attempt) = allowed cfg"
    "\<not> retry_budget_exhausted cfg attempt \<Longrightarrow> unat (sat_add attempt 1) = Suc (unat attempt)"
proof -
  have "allowed cfg < 2 ^ 32" using unat_bound [where 'a = 32] by (simp add: allowed_def)
  then show "retry_budget_exhausted cfg attempt \<longleftrightarrow> Suc (unat attempt) = allowed cfg"
    "\<not> retry_budget_exhausted cfg attempt \<Longrightarrow> unat (sat_add attempt 1) = Suc (unat attempt)"
    using assms by (auto simp: retry_budget_exhausted_def word_le_nat_alt allowed_def [symmetric] unat_sat_add_1)
qed

lemma retry_delay_max: "retry_delay cfg attempt \<le> pc_retry_max_delay cfg"
  by (simp add: retry_delay_def Let_def)

lemma blob_loop_trace:
  "blob_loop bk cfg request attempt candidates h io = (io', h', r) \<Longrightarrow>
   write_tries cfg (pr_blobs request) (unat attempt) candidates (io_calls io) \<Longrightarrow> made bk (io_calls io) \<Longrightarrow>
     made bk (io_calls io') \<and>
     (case r of
        Inl outcome \<Rightarrow> request_trace bk cfg request (bk_closed bk (io_world io')) (io_calls io') outcome
      | Inr ts \<Rightarrow> \<exists>n ss cs. write_tries cfg (pr_blobs request) n ss cs \<and> length ts = length (pr_blobs request) \<and>
          io_calls io' = cs @ writes (pr_blobs request) ts)"
proof (induction bk cfg request attempt candidates h io arbitrary: io' h' r rule: blob_loop.induct)
  case (1 bk cfg request attempt candidates h io)
  note tries = "1.prems"(2) and m0 = "1.prems"(3) and budget = exhausted_allowed [OF tries_bounded [OF "1.prems"(2)]]
  obtain io1 r1 where w: "write_blobs bk (pr_blobs request) [] io = (io1, r1)" by fastforce
  from write_blobs_trace [OF w] obtain cs ts where cs: "io_calls io1 = io_calls io @ cs" "made bk cs" and
    r1: "case r1 of Inr ss \<Rightarrow> ss = [] @ ts \<and> length ts = length (pr_blobs request) \<and> cs = writes (pr_blobs request) ts
         | Inl (ss, err) \<Rightarrow> ss = [] @ ts \<and> write_failed (pr_blobs request) cs ts err" by blast
  show ?case
  proof (cases r1)
    case (Inr ss)
    then have "io' = io1" "r = Inr ss" using "1.prems"(1) w by (auto simp: blob_loop.simps [of bk])
    then show ?thesis using cs r1 Inr tries m0 by auto
  next
    case (Inl x)
    obtain ss err where x: "x = (ss, err)" by (cases x)
    have ss: "ss = ts" "write_failed (pr_blobs request) cs ts err" using r1 Inl x by simp_all
    show ?thesis
    proof (cases "is_retryable err \<and> \<not> bk_closed bk (io_world io1)")
      case False
      then have "io' = io1" "r = Inl (PersistFailed (pr_request_key request) (blob_context bk) err)"
        using "1.prems"(1) w Inl x by (auto simp: blob_loop.simps [of bk])
      then show ?thesis using cs m0 False request_trace.blobs_failed [OF tries ss(2)] by simp
    next
      case retry: True
      show ?thesis
      proof (cases "retry_budget_exhausted cfg attempt")
        case True
        then have res: "io' = cleanup_stored_blobs bk (candidates @ ts) io1"
            "r = Inl (StaleDropped (pr_request_key request) (blob_context bk) err)"
          using "1.prems"(1) w Inl x retry ss(1) by (auto simp: blob_loop.simps [of bk] Let_def)
        obtain rs where rs: "length rs = length (candidates @ ts)" "io_calls io' = io_calls io1 @ deletes (candidates @ ts) rs"
          using cleanup_trace [of "candidates @ ts" bk io1] res(1) by blast
        have "Suc (unat attempt) = allowed cfg" using True budget(1) by simp
        from request_trace.blobs_dropped [OF tries ss(2) conjunct1 [OF retry] this rs(1)]
        show ?thesis using rs(2) cs m0 res(2) by simp
      next
        case False
        let ?d = "retry_delay cfg attempt"
        let ?h = "fst (note_retryable_failure h (blob_context bk) err (pc_failure_log_cooldown cfg) (bk_now bk (io_world io1)))"
        have loop: "blob_loop bk cfg request (sat_add attempt 1) (candidates @ ss) ?h (do_sleep bk ?d io1) = (io', h', r)"
          using "1.prems"(1) w Inl x retry False by (simp add: blob_loop.simps [of bk cfg request attempt] Let_def)
        have "Suc (unat attempt) < allowed cfg" using False budget(1) tries_bounded [OF tries] by simp
        from write_tries.again [OF tries ss(2) conjunct1 [OF retry] this]
        have "write_tries cfg (pr_blobs request) (unat (sat_add attempt 1)) (candidates @ ss) (io_calls (do_sleep bk ?d io1))"
          using budget(2) [OF False] ss(1) cs(1) by (simp add: do_sleep_def)
        moreover have "made bk (io_calls (do_sleep bk ?d io1))" using m0 cs by (simp add: do_sleep_def)
        ultimately show ?thesis
          using "1.IH" [OF w [symmetric] Inl x [symmetric] retry refl False refl refl loop] by blast
      qed
    qed
  qed
qed

lemma metadata_loop_trace:
  "metadata_loop bk cfg request ts attempt h io = (io', h', r) \<Longrightarrow>
   io_calls io = cs @ writes (pr_blobs request) ts @ ds \<Longrightarrow> made bk (io_calls io) \<Longrightarrow>
   write_tries cfg (pr_blobs request) n ss cs \<Longrightarrow> length ts = length (pr_blobs request) \<Longrightarrow>
   persist_tries cfg (persisted_as request ts) (unat attempt) ds \<Longrightarrow>
     made bk (io_calls io') \<and> request_trace bk cfg request (bk_closed bk (io_world io')) (io_calls io') r"
proof (induction bk cfg request ts attempt h io arbitrary: io' h' r ds rule: metadata_loop.induct)
  case (1 bk cfg request ts attempt h io)
  note log = "1.prems"(2) and m0 = "1.prems"(3) and stored = "1.prems"(4,5) and tries = "1.prems"(6)
  note budget = exhausted_allowed [OF persist_tries_bounded [OF tries]]
  let ?p = "persisted_as request ts"
  obtain io1 r1 where p: "do_persist bk ?p io = (io1, r1)" by fastforce
  then have calls: "io_calls io1 = io_calls io @ [Call_Persist ?p r1]" by (auto simp: do_persist_def split: prod.splits)
  note p' = p [unfolded persisted_as_def]
  show ?case
  proof (cases r1)
    case (Inr u)
    then have "io' = io1" "r = Persisted (pr_request_key request)"
      using "1.prems"(1) p' by (auto simp: metadata_loop.simps [of bk])
    then show ?thesis using calls Inr log m0 request_trace.persisted [OF stored tries] by simp
  next
    case (Inl err)
    show ?thesis
    proof (cases "is_retryable err \<and> \<not> bk_closed bk (io_world io1)")
      case False
      then have "io' = io1" "r = PersistFailed (pr_request_key request) (metadata_context bk) err"
        using "1.prems"(1) p' Inl by (auto simp: metadata_loop.simps [of bk])
      then show ?thesis using calls Inl log m0 False request_trace.metadata_failed [OF stored tries] by simp
    next
      case retry: True
      show ?thesis
      proof (cases "retry_budget_exhausted cfg attempt")
        case True
        then have res: "io' = cleanup_stored_blobs bk ts io1"
            "r = StaleDropped (pr_request_key request) (metadata_context bk) err"
          using "1.prems"(1) p' Inl retry by (auto simp: metadata_loop.simps [of bk])
        obtain rs where rs: "length rs = length ts" "io_calls io' = io_calls io1 @ deletes ts rs"
          using cleanup_trace [of ts bk io1] res(1) by blast
        have "Suc (unat attempt) = allowed cfg" using True budget(1) by simp
        from request_trace.metadata_dropped [OF stored tries conjunct1 [OF retry] this rs(1)]
        show ?thesis using rs(2) calls Inl log m0 res(2) by simp
      next
        case False
        let ?d = "retry_delay cfg attempt"
        let ?h = "fst (note_retryable_failure h (metadata_context bk) err (pc_failure_log_cooldown cfg) (bk_now bk (io_world io1)))"
        have loop: "metadata_loop bk cfg request ts (sat_add attempt 1) ?h (do_sleep bk ?d io1) = (io', h', r)"
          using "1.prems"(1) p' Inl retry False by (simp add: metadata_loop.simps [of bk cfg request ts attempt] Let_def)
        have "Suc (unat attempt) < allowed cfg" using False budget(1) persist_tries_bounded [OF tries] by simp
        from persist_tries.again [OF tries conjunct1 [OF retry] this]
        have "persist_tries cfg ?p (unat (sat_add attempt 1)) (ds @ [Call_Persist ?p (Inl err), Call_Sleep ?d])"
          using budget(2) [OF False] by simp
        moreover have "io_calls (do_sleep bk ?d io1) =
            cs @ writes (pr_blobs request) ts @ ds @ [Call_Persist ?p (Inl err), Call_Sleep ?d]"
          using calls Inl log by (simp add: do_sleep_def)
        moreover have "made bk (io_calls (do_sleep bk ?d io1))" using m0 calls by (simp add: do_sleep_def)
        ultimately show ?thesis
          using "1.IH" [OF p' [symmetric] Inl retry False refl refl loop] stored by blast
      qed
    qed
  qed
qed

lemma persist_request_trace:
  assumes "persist_request_with_retry bk cfg request h io = (io', h', r)" "io_calls io = []"
  shows "made bk (io_calls io')" "request_trace bk cfg request (bk_closed bk (io_world io')) (io_calls io') r"
proof -
  obtain io1 h1 r1 where b: "blob_loop bk cfg request 0 [] h io = (io1, h1, r1)" using prod_cases3 by blast
  have start: "write_tries cfg (pr_blobs request) (unat (0 :: u32)) [] (io_calls io)" "made bk (io_calls io)"
    using assms(2) by (simp_all add: write_tries.none)
  note t = blob_loop_trace [OF b start]
  have "made bk (io_calls io') \<and> request_trace bk cfg request (bk_closed bk (io_world io')) (io_calls io') r"
  proof (cases r1)
    case (Inl outcome)
    then have "io' = io1" "r = outcome" using assms b by (simp_all add: persist_request_with_retry_def)
    then show ?thesis using t Inl by simp
  next
    case (Inr ts)
    then have m: "metadata_loop bk cfg request ts 0 h1 io1 = (io', h', r)"
      using assms b by (simp add: persist_request_with_retry_def)
    obtain n ss cs where "write_tries cfg (pr_blobs request) n ss cs" "length ts = length (pr_blobs request)"
      "io_calls io1 = cs @ writes (pr_blobs request) ts" using t Inr by auto
    then show ?thesis
      using metadata_loop_trace [OF m, of cs "[]" n ss] t by (simp add: persist_tries.none)
  qed
  then show "made bk (io_calls io')" "request_trace bk cfg request (bk_closed bk (io_world io')) (io_calls io') r" by simp_all
qed

text \<open>The pauses of a request: those of its failed attempts, in the order of both stages.\<close>

lemma request_trace_sleeps:
  assumes "request_trace bk cfg request closed cs r"
  shows "\<exists>n m. n < allowed cfg \<and> m < allowed cfg \<and>
    sleeps cs = map (\<lambda>i. retry_delay cfg (word_of_nat i)) [0..<n] @ map (\<lambda>i. retry_delay cfg (word_of_nat i)) [0..<m]"
proof -
  have blobs: "n < allowed cfg \<and> 0 < allowed cfg \<and>
      sleeps (cs @ ds) = map (\<lambda>i. retry_delay cfg (word_of_nat i)) [0..<n] @ map (\<lambda>i. retry_delay cfg (word_of_nat i)) [0..<0]"
    if "write_tries cfg blobs n ss cs" "write_failed blobs ds ts err" for blobs n ss cs ds ts err
    using calls_of_tries [OF that(1)] calls_of_failure [OF that(2)] tries_bounded [OF that(1)] by simp
  from assms show ?thesis
  proof cases
    case (blobs_failed n ss cs ds ts err)
    then show ?thesis using blobs by blast
  next
    case (blobs_dropped n ss cs ds ts err rs)
    then show ?thesis
      using blobs [OF blobs_dropped(3,4)] by (intro exI [of _ n] exI [of _ 0]) simp
  next
    case (persisted n ss cs ts m ds)
    then show ?thesis
      using calls_of_tries [OF persisted(3)] calls_of_persist_tries [OF persisted(5)] tries_bounded [OF persisted(3)]
        persist_tries_bounded [OF persisted(5)] by (intro exI [of _ n] exI [of _ m]) simp
  next
    case (metadata_failed n ss cs ts m ds err)
    then show ?thesis
      using calls_of_tries [OF metadata_failed(3)] calls_of_persist_tries [OF metadata_failed(5)]
        tries_bounded [OF metadata_failed(3)] persist_tries_bounded [OF metadata_failed(5)]
      by (intro exI [of _ n] exI [of _ m]) simp
  next
    case (metadata_dropped n ss cs ts m ds err rs)
    then show ?thesis
      using calls_of_tries [OF metadata_dropped(3)] calls_of_persist_tries [OF metadata_dropped(5)]
        tries_bounded [OF metadata_dropped(3)] persist_tries_bounded [OF metadata_dropped(5)]
      by (intro exI [of _ n] exI [of _ m]) simp
  qed
qed

section \<open>Writers whose references depend on the entry only\<close>

locale stable_writer =
  fixes put :: "blob_entry \<Rightarrow> 'w \<Rightarrow> 'w \<times> (persist_error + stored_blob)"
    and reference :: "blob_entry \<Rightarrow> stored_blob"
  assumes write_reference: "put e w = (w', Inr s) \<Longrightarrow> s = reference e"
begin

lemma log_references:
  assumes "bk_write bk = put" "made bk cs" "Call_Write e (Inr s) \<in> set cs"
  shows "s = reference e"
  using assms write_reference unfolding made_def by metis

lemma writes_references:
  "bk_write bk = put \<Longrightarrow> length ss = length es \<Longrightarrow> made bk (writes es ss) \<Longrightarrow> ss = map reference es"
proof (induction es ss rule: list_induct2')
  case (4 e es s ss)
  then have "made bk (writes es ss)" "Call_Write e (Inr s) \<in> set (writes (e # es) (s # ss))"
    by (auto simp: writes_def made_def)
  then show ?case using 4 log_references [of bk "writes (e # es) (s # ss)" e s] by simp
qed simp_all

lemma tries_references:
  assumes "bk_write bk = put"
  shows "write_tries cfg blobs n ss cs \<Longrightarrow> made bk cs \<Longrightarrow> set ss \<subseteq> reference ` set blobs"
proof (induction rule: write_tries.induct)
  case (again n ss cs ds ts err)
  from again(2) obtain before e after where "blobs = before @ e # after" "length ts = length before"
    "ds = writes before ts @ [Call_Write e (Inl err)]" by (auto simp: write_failed_def)
  then have "set ts \<subseteq> reference ` set blobs"
    using writes_references [OF assms, of ts before] again.prems by auto
  then show ?case using again by simp
qed simp

text \<open>When a request is dropped as stale, a delete is issued for exactly the references it wrote.\<close>

lemma stale_cleanup:
  assumes "bk_write bk = put" "persist_request_with_retry bk cfg request h io = (io', h', StaleDropped k ctx err)"
    "io_calls io = []"
  shows "set (deleted (io_calls io')) = set (written (io_calls io'))"
proof -
  note made = persist_request_trace(1) [OF assms(2,3)]
  from persist_request_trace(2) [OF assms(2,3)] show ?thesis
  proof cases
    case (blobs_dropped n ss cs ds ts rs)
    then show ?thesis using calls_of_tries [OF blobs_dropped(4)] calls_of_failure [OF blobs_dropped(5)] by simp
  next
    case (metadata_dropped n ss cs ts m ds rs)
    have "ts = map reference (pr_blobs request)" "set ss \<subseteq> reference ` set (pr_blobs request)"
      using made metadata_dropped writes_references [OF assms(1), of ts "pr_blobs request"]
        tries_references [OF assms(1) metadata_dropped(4)] by simp_all
    then show ?thesis
      using metadata_dropped calls_of_tries [OF metadata_dropped(4)] calls_of_persist_tries [OF metadata_dropped(6)] by auto
  qed
qed

end

definition object_reference :: "('w, 'p) blob_writer \<Rightarrow> blob_entry \<Rightarrow> stored_blob" where
  "object_reference bw entry =
     \<lparr>sb_role = be_role entry, sb_location = format_object_store_location (bw_root_location bw) (be_relative_path entry),
      sb_size_bytes = length (be_bytes entry), sb_content_type = be_content_type entry\<rparr>"

interpretation object_writer: stable_writer "blob_write bw" "object_reference bw" for bw
  by unfold_locales (auto simp: blob_write_def object_reference_def split: sum.splits prod.splits)

section \<open>Worker and producers\<close>

datatype 'm worker_phase = W_Waiting | W_Holding | W_Busy "'m persist_request" | W_Stopped persistence_stats

datatype fate = Taken | Evicted | Dropped_At_Close

text \<open>The runtime: queue, worker and backend health, with the history of accepted requests and of the
  ones that left the queue.\<close>

record 'm persist_sys =
  sy_queue :: "'m shared_queue"
  sy_worker :: "'m worker_phase"
  sy_health :: backend_health
  sy_accepted :: "'m persist_request list"
  sy_left :: "(fate \<times> 'm persist_request) list"

definition persist_sys_new :: "persistence_config \<Rightarrow> 'm persist_sys" where
  "persist_sys_new cfg =
     \<lparr>sy_queue = shared_queue_new (pc_queue_capacity cfg), sy_worker = W_Waiting, sy_health = None,
      sy_accepted = [], sy_left = []\<rparr>"

definition producer_enqueue :: "'m persist_request \<Rightarrow> 'm persist_sys \<Rightarrow> 'm persist_sys" where
  "producer_enqueue request sy =
     (let q = sy_queue sy; (q', r) = enqueue request q
      in sy\<lparr>sy_queue := q',
            sy_accepted := sy_accepted sy @ (if er_accepted r then [request] else []),
            sy_left := sy_left sy @ (if er_evicted_oldest_key r \<noteq> None then [(Evicted, hd (qu_pending q))] else [])\<rparr>)"

definition runtime_close :: "'m persist_sys \<Rightarrow> 'm persist_sys" where
  "runtime_close sy =
     (let q = sy_queue sy; (q', n) = queue_close q
      in sy\<lparr>sy_queue := q', sy_left := sy_left sy @ map (Pair Dropped_At_Close) (take n (qu_pending q))\<rparr>)"

definition worker_acquire :: "'m persist_sys \<Rightarrow> 'm persist_sys" where
  "worker_acquire sy =
     (let q = sy_queue sy in sy\<lparr>sy_queue := q\<lparr>qu_available := qu_available q - 1\<rparr>, sy_worker := W_Holding\<rparr>)"

definition worker_pop :: "'m persist_sys \<Rightarrow> 'm persist_sys" where
  "worker_pop sy =
     (case pop_request (sy_queue sy) of
        (q, Some r) \<Rightarrow> sy\<lparr>sy_queue := q, sy_worker := W_Busy r, sy_left := sy_left sy @ [(Taken, r)]\<rparr>
      | (q, None) \<Rightarrow>
          if queue_is_closed q then sy\<lparr>sy_worker := W_Stopped (stats_snapshot q)\<rparr>
          else sy\<lparr>sy_worker := W_Waiting\<rparr>)"

definition count_outcome :: "persist_outcome \<Rightarrow> persistence_stats \<Rightarrow> persistence_stats" where
  "count_outcome outcome s =
     (case outcome of
        Persisted k \<Rightarrow> s\<lparr>persisted_total := sat_add (persisted_total s) 1\<rparr>
      | StaleDropped k ctx err \<Rightarrow>
          s\<lparr>retry_exhausted_total := sat_add (retry_exhausted_total s) 1,
            stale_dropped_total := sat_add (stale_dropped_total s) 1\<rparr>
      | PersistFailed k ctx err \<Rightarrow> s\<lparr>failed_total := sat_add (failed_total s) 1\<rparr>)"

definition worker_finish :: "persist_outcome \<Rightarrow> backend_health \<Rightarrow> 'm persist_sys \<Rightarrow> 'm persist_sys" where
  "worker_finish outcome h sy =
     (let q = sy_queue sy
      in sy\<lparr>sy_queue := q\<lparr>qu_stats := count_outcome outcome (qu_stats q)\<rparr>, sy_health := h, sy_worker := W_Waiting\<rparr>)"

inductive persist_step :: "('w, 'm) backend \<Rightarrow> persistence_config \<Rightarrow> 'm persist_sys \<Rightarrow> 'm persist_sys \<Rightarrow> bool" for bk cfg where
  enqueues: "persist_step bk cfg sy (producer_enqueue request sy)"
| closes: "persist_step bk cfg sy (runtime_close sy)"
| acquires: "sy_worker sy = W_Waiting \<Longrightarrow> 0 < qu_available (sy_queue sy) \<Longrightarrow> persist_step bk cfg sy (worker_acquire sy)"
| pops: "sy_worker sy = W_Holding \<Longrightarrow> persist_step bk cfg sy (worker_pop sy)"
| finishes: "sy_worker sy = W_Busy request \<Longrightarrow>
    persist_request_with_retry bk cfg request (sy_health sy) io = (io', h, outcome) \<Longrightarrow>
    persist_step bk cfg sy (worker_finish outcome h sy)"

inductive_cases persist_step_cases: "persist_step bk cfg sy sy'"

inductive persist_reach :: "('w, 'm) backend \<Rightarrow> persistence_config \<Rightarrow> 'm persist_sys \<Rightarrow> bool" for bk cfg where
  start: "persist_reach bk cfg (persist_sys_new cfg)"
| step: "persist_reach bk cfg sy \<Longrightarrow> persist_step bk cfg sy sy' \<Longrightarrow> persist_reach bk cfg sy'"

definition count_fate :: "fate \<Rightarrow> 'm persist_sys \<Rightarrow> nat" where
  "count_fate f sy = length (filter (\<lambda>x. fst x = f) (sy_left sy))"

definition is_busy :: "'m worker_phase \<Rightarrow> bool" where
  "is_busy w = (case w of W_Busy r \<Rightarrow> True | _ \<Rightarrow> False)"

definition sat_count :: "u64 \<Rightarrow> nat \<Rightarrow> bool" where
  "sat_count c n \<longleftrightarrow> unat c = min n (2 ^ 64 - 1)"

lemma sat_count_Suc: "sat_count c n \<Longrightarrow> sat_count (sat_add c 1) (Suc n)"
  by (auto simp: sat_count_def unat_sat_add_1)

definition persist_inv :: "'m persist_sys \<Rightarrow> bool" where
  "persist_inv sy \<longleftrightarrow>
     (let q = sy_queue sy; w = sy_worker sy in
      0 < qu_capacity q \<and> length (qu_pending q) \<le> qu_capacity q \<and>
      (\<not> qu_closed q \<longrightarrow>
         qu_available q + (if w = W_Holding then 1 else 0) = length (qu_pending q) \<and> (\<forall>s. w \<noteq> W_Stopped s)) \<and>
      (qu_closed q \<longrightarrow> qu_pending q = [] \<and> (0 < qu_available q \<or> w = W_Holding \<or> (\<exists>s. w = W_Stopped s))))"

definition history_inv :: "'m persist_sys \<Rightarrow> bool" where
  "history_inv sy \<longleftrightarrow>
     (let q = sy_queue sy; s = qu_stats q in
      sy_accepted sy = map snd (sy_left sy) @ qu_pending q \<and>
      sat_count (enqueued_total s) (length (sy_accepted sy)) \<and>
      sat_count (evicted_total s) (count_fate Evicted sy) \<and>
      retry_exhausted_total s = stale_dropped_total s \<and>
      (\<exists>p f d. sat_count (persisted_total s) p \<and> sat_count (failed_total s) f \<and> sat_count (stale_dropped_total s) d \<and>
         count_fate Taken sy = p + f + d + (if is_busy (sy_worker sy) then 1 else 0)))"

lemma persist_inv_new: "persist_inv (persist_sys_new cfg)" "history_inv (persist_sys_new cfg)"
  by (simp_all add: persist_inv_def history_inv_def persist_sys_new_def shared_queue_new_def stats_default_def
      sat_count_def count_fate_def is_busy_def)

lemma enqueue_cases:
  assumes "enqueue request q = (q', r)" "0 < qu_capacity q"
  obtains (closed) "qu_closed q" "q' = q" "\<not> er_accepted r" "er_evicted_oldest_key r = None"
  | (room) "\<not> qu_closed q" "length (qu_pending q) \<noteq> qu_capacity q" "er_accepted r" "er_evicted_oldest_key r = None"
      "q' = q\<lparr>qu_stats := count_enqueued (qu_stats q), qu_available := qu_available q + 1,
              qu_pending := qu_pending q @ [request]\<rparr>"
  | (full) old rest where "\<not> qu_closed q" "length (qu_pending q) = qu_capacity q" "er_accepted r"
      "qu_pending q = old # rest" "er_evicted_oldest_key r = Some (pr_request_key old)"
      "q' = q\<lparr>qu_stats := count_enqueued ((qu_stats q)\<lparr>evicted_total := sat_add (evicted_total (qu_stats q)) 1\<rparr>),
              qu_pending := rest @ [request]\<rparr>"
proof (cases "qu_closed q")
  case True
  show ?thesis by (rule closed) (use True assms(1) in \<open>auto simp: enqueue_def\<close>)
next
  case open': False
  show ?thesis
  proof (cases "length (qu_pending q) = qu_capacity q")
    case True
    then obtain old rest where "qu_pending q = old # rest" using assms(2) by (cases "qu_pending q") auto
    with open' True show ?thesis by (intro full) (use assms(1) in \<open>auto simp: enqueue_def Let_def\<close>)
  next
    case False
    with open' show ?thesis by (intro room) (use assms(1) in \<open>auto simp: enqueue_def Let_def\<close>)
  qed
qed

lemma enqueue_inv:
  assumes "persist_inv sy" "history_inv sy"
  shows "persist_inv (producer_enqueue request sy) \<and> history_inv (producer_enqueue request sy)"
proof -
  let ?q = "sy_queue sy"
  obtain q' r where e: "enqueue request ?q = (q', r)" by fastforce
  have cap: "0 < qu_capacity ?q" using assms(1) by (simp add: persist_inv_def Let_def)
  from e cap show ?thesis
  proof (cases rule: enqueue_cases)
    case closed
    then have "producer_enqueue request sy = sy" using e by (simp add: producer_enqueue_def)
    then show ?thesis using assms by simp
  next
    case room
    then show ?thesis
      using assms e
      by (auto simp: producer_enqueue_def persist_inv_def history_inv_def count_enqueued_def count_fate_def Let_def
          intro: sat_count_Suc)
  next
    case (full old rest)
    then show ?thesis
      using assms e
      by (auto simp: producer_enqueue_def persist_inv_def history_inv_def count_enqueued_def count_fate_def Let_def
          intro: sat_count_Suc)
  qed
qed

lemma close_inv:
  assumes "persist_inv sy" "history_inv sy"
  shows "persist_inv (runtime_close sy) \<and> history_inv (runtime_close sy)"
  using assms
  by (auto simp: runtime_close_def queue_close_def persist_inv_def history_inv_def count_fate_def Let_def filter_map comp_def)

lemma acquire_inv:
  assumes "persist_inv sy" "history_inv sy" "sy_worker sy = W_Waiting" "0 < qu_available (sy_queue sy)"
  shows "persist_inv (worker_acquire sy) \<and> history_inv (worker_acquire sy)"
  using assms by (auto simp: worker_acquire_def persist_inv_def history_inv_def count_fate_def is_busy_def Let_def)

lemma pop_inv:
  assumes "persist_inv sy" "history_inv sy" "sy_worker sy = W_Holding"
  shows "persist_inv (worker_pop sy) \<and> history_inv (worker_pop sy)"
proof (cases "qu_pending (sy_queue sy)")
  case Nil
  then show ?thesis
    using assms
    by (auto simp: worker_pop_def pop_request_def queue_is_closed_def persist_inv_def history_inv_def count_fate_def
        is_busy_def Let_def)
next
  case (Cons r rest)
  then show ?thesis
    using assms
    by (auto simp: worker_pop_def pop_request_def persist_inv_def history_inv_def count_fate_def is_busy_def Let_def)
qed

lemma worker_finish_inv:
  assumes "persist_inv sy" "history_inv sy" "sy_worker sy = W_Busy request"
  shows "persist_inv (worker_finish outcome h sy) \<and> history_inv (worker_finish outcome h sy)"
proof -
  let ?s = "qu_stats (sy_queue sy)"
  obtain p f d where c: "sat_count (persisted_total ?s) p" "sat_count (failed_total ?s) f"
      "sat_count (stale_dropped_total ?s) d" "count_fate Taken sy = Suc (p + f + d)"
    using assms(2,3) by (auto simp: history_inv_def is_busy_def Let_def)
  let ?sy = "worker_finish outcome h sy"
  have "\<exists>p f d. sat_count (persisted_total (qu_stats (sy_queue ?sy))) p \<and>
      sat_count (failed_total (qu_stats (sy_queue ?sy))) f \<and>
      sat_count (stale_dropped_total (qu_stats (sy_queue ?sy))) d \<and> count_fate Taken ?sy = p + f + d"
  proof (cases outcome)
    case (Persisted k)
    then show ?thesis using c sat_count_Suc [OF c(1)]
      by (intro exI [of _ "Suc p"] exI [of _ f] exI [of _ d]) (simp add: worker_finish_def count_outcome_def count_fate_def Let_def)
  next
    case (StaleDropped k ctx err)
    then show ?thesis using c sat_count_Suc [OF c(3)]
      by (intro exI [of _ p] exI [of _ f] exI [of _ "Suc d"]) (simp add: worker_finish_def count_outcome_def count_fate_def Let_def)
  next
    case (PersistFailed k ctx err)
    then show ?thesis using c sat_count_Suc [OF c(2)]
      by (intro exI [of _ p] exI [of _ "Suc f"] exI [of _ d]) (simp add: worker_finish_def count_outcome_def count_fate_def Let_def)
  qed
  then show ?thesis
    using assms
    by (auto simp: worker_finish_def persist_inv_def history_inv_def count_outcome_def count_fate_def is_busy_def Let_def
        split: persist_outcome.splits)
qed

lemma persist_step_inv: "persist_step bk cfg sy sy' \<Longrightarrow> persist_inv sy \<and> history_inv sy \<Longrightarrow> persist_inv sy' \<and> history_inv sy'"
  by (induction rule: persist_step.induct)
    (use enqueue_inv close_inv acquire_inv pop_inv worker_finish_inv in blast)+

lemma persist_reach_inv: "persist_reach bk cfg sy \<Longrightarrow> persist_inv sy \<and> history_inv sy"
  by (induction rule: persist_reach.induct) (use persist_inv_new persist_step_inv in blast)+

section \<open>Properties\<close>

text \<open>A store that accepts payloads and times out on the sidecar.\<close>

definition flaky_store :: "(nat, str) object_store" where
  "flaky_store =
     \<lparr>os_parse_path = Inr, os_put = (\<lambda>p bs w. (w + 1, if bs = [] then Inl (OsOther ''timeout'') else Inr ())),
      os_delete = (\<lambda>p w. (w - 1, Inr ()))\<rparr>"

definition flaky_writer :: "(nat, str) blob_writer" where
  "flaky_writer = \<lparr>bw_store = flaky_store, bw_prefix = Some ''archive'', bw_root_location = ''s3://b/archive''\<rparr>"

definition flaky_backend :: "(nat, nat) backend" where
  "flaky_backend =
     \<lparr>bk_write = blob_write flaky_writer, bk_delete = blob_delete flaky_writer, bk_persist = (\<lambda>p w. (w, Inr ())),
      bk_sleep = (\<lambda>d w. w), bk_closed = (\<lambda>w. False), bk_now = (\<lambda>w. 0), bk_writer_name = ''object_store'',
      bk_writer_target = ''s3://b/archive'', bk_sink_name = ''noop'', bk_sink_target = None\<rparr>"

definition flaky_request :: "nat persist_request" where
  "flaky_request =
     \<lparr>pr_request_key = ''k'', pr_metadata = 1,
      pr_blobs = [\<lparr>be_role = Payload, be_relative_path = ''a.txt'', be_bytes = [1], be_content_type = None\<rparr>,
                  \<lparr>be_role = MetadataSidecar, be_relative_path = ''a.json'', be_bytes = [], be_content_type = None\<rparr>]\<rparr>"

definition one_attempt :: persistence_config where
  "one_attempt = with_retry_max_attempts (persistence_config_new 4) 1"

lemma flaky_run:
  "\<exists>io h ctx err. persist_request_with_retry flaky_backend one_attempt flaky_request None \<lparr>io_world = 0, io_calls = []\<rparr> =
     (io, h, StaleDropped ''k'' ctx err) \<and> written (io_calls io) \<noteq> []"
  by (simp add: persist_request_with_retry_def blob_loop.simps flaky_backend_def flaky_writer_def flaky_store_def
      flaky_request_def one_attempt_def with_retry_max_attempts_def persistence_config_new_def
      retry_budget_exhausted_def do_write_def do_delete_def blob_write_def parse_object_store_path_def
      object_store_error_from_object_store_def sat_add_def Let_def split: prod.split)

text \<open>
  C20.  A request ends after a bounded number of attempts, whatever the writer and the sink answer, and
  its outcome is what the logged calls amount to.  Persisted: the last call is the accepted metadata,
  with the references that the last pass over the blobs returned, one per blob in order, and nothing
  was deleted.  Failed: the error is that of the last call, and it was not retryable or the runtime was
  closed.  Dropped as stale: the error is that of the last attempt of a stage, which was retryable and
  the last of exactly \<^verbatim>\<open>retry_max_attempts\<close> attempts, and deletes follow.  Every other attempt
  failed with a retryable error and was followed by its pause, at most \<^verbatim>\<open>retry_max_attempts - 1\<close>
  pauses per stage, none longer than \<^verbatim>\<open>retry_max_delay\<close>.
\<close>

theorem persist_request_outcome:
  assumes "persist_request_with_retry bk cfg request h \<lparr>io_world = w, io_calls = []\<rparr> = (io, h', outcome)"
  shows "request_trace bk cfg request (bk_closed bk (io_world io)) (io_calls io) outcome \<and>
    length (sleeps (io_calls io)) \<le> 2 * (unat (max (pc_retry_max_attempts cfg) 1) - 1) \<and>
    (\<forall>d \<in> set (sleeps (io_calls io)). d \<le> pc_retry_max_delay cfg)"
proof -
  have t: "request_trace bk cfg request (bk_closed bk (io_world io)) (io_calls io) outcome"
    using persist_request_trace(2) [OF assms] by simp
  from request_trace_sleeps [OF t] obtain n m where "n < allowed cfg" "m < allowed cfg"
    "sleeps (io_calls io) = map (\<lambda>i. retry_delay cfg (word_of_nat i)) [0..<n] @ map (\<lambda>i. retry_delay cfg (word_of_nat i)) [0..<m]"
    by blast
  then show ?thesis using t retry_delay_max [of cfg] by (auto simp: allowed_def)
qed

theorem persist_request_outcome_witness:
  "\<exists>io h outcome. persist_request_with_retry flaky_backend one_attempt flaky_request None \<lparr>io_world = 0, io_calls = []\<rparr> =
     (io, h, outcome) \<and>
     request_trace flaky_backend one_attempt flaky_request (bk_closed flaky_backend (io_world io)) (io_calls io) outcome \<and>
     sleeps (io_calls io) = []"
proof -
  obtain io h outcome where r: "persist_request_with_retry flaky_backend one_attempt flaky_request None
      \<lparr>io_world = 0, io_calls = []\<rparr> = (io, h, outcome)" using prod_cases3 by blast
  have "pc_retry_max_attempts one_attempt = 1" by (simp add: one_attempt_def with_retry_max_attempts_def)
  with persist_request_outcome [OF r] r show ?thesis by (intro exI [of _ io] exI [of _ h] exI [of _ outcome]) simp
qed

text \<open>
  C21.  The cleanup of a stale request misses nothing: with the object-store writer, when the retry
  budget of either stage is exhausted, a delete is issued for every reference that any of the attempts
  stored, and for no other.  So a stored reference without a successful delete has a delete that failed,
  which the worker only logs.
\<close>

theorem persist_stale_cleanup:
  assumes "bk_write bk = blob_write bw"
    "persist_request_with_retry bk cfg request h \<lparr>io_world = w, io_calls = []\<rparr> = (io, h', StaleDropped k ctx err)"
  shows "set (deleted (io_calls io)) = set (written (io_calls io)) \<and>
    (\<forall>s \<in> set (written (io_calls io)).
       Call_Delete s (Inr ()) \<in> set (io_calls io) \<or> (\<exists>e. Call_Delete s (Inl e) \<in> set (io_calls io)))"
proof -
  have d: "set (deleted (io_calls io)) = set (written (io_calls io))"
    using object_writer.stale_cleanup [OF assms] by simp
  have "\<exists>r. Call_Delete s r \<in> set cs" if "s \<in> set (deleted cs)" for s and cs :: "'b call list"
    using that by (induction cs rule: deleted.induct) auto
  then show ?thesis using d by (metis old.unit.exhaust sum.exhaust_sel)
qed

theorem persist_stale_cleanup_witness:
  "\<exists>io h ctx err. persist_request_with_retry flaky_backend one_attempt flaky_request None \<lparr>io_world = 0, io_calls = []\<rparr> =
     (io, h, StaleDropped ''k'' ctx err) \<and> written (io_calls io) \<noteq> [] \<and>
     set (deleted (io_calls io)) = set (written (io_calls io))"
proof -
  have b: "bk_write flaky_backend = blob_write flaky_writer" by (simp add: flaky_backend_def)
  obtain io h ctx err where r: "persist_request_with_retry flaky_backend one_attempt flaky_request None
      \<lparr>io_world = 0, io_calls = []\<rparr> = (io, h, StaleDropped ''k'' ctx err)" "written (io_calls io) \<noteq> []"
    using flaky_run by blast
  show ?thesis using r persist_stale_cleanup [OF b r(1)]
    by (intro exI [of _ io] exI [of _ h] exI [of _ ctx] exI [of _ err]) simp
qed

text \<open>
  C22.  The queue under every interleaving of producers, worker and shutdown: it never exceeds its
  capacity, requests leave it in the order they were accepted (the oldest is evicted when it is full),
  every accepted request is accounted for exactly once, and the counters are those numbers
  (saturating).
\<close>

theorem persist_queue_history:
  assumes "persist_reach bk cfg sy"
  shows "length (qu_pending (sy_queue sy)) \<le> qu_capacity (sy_queue sy) \<and>
    sy_accepted sy = map snd (sy_left sy) @ qu_pending (sy_queue sy) \<and>
    sat_count (enqueued_total (qu_stats (sy_queue sy))) (length (sy_accepted sy)) \<and>
    sat_count (evicted_total (qu_stats (sy_queue sy))) (count_fate Evicted sy) \<and>
    (\<exists>p f d. sat_count (persisted_total (qu_stats (sy_queue sy))) p \<and> sat_count (failed_total (qu_stats (sy_queue sy))) f \<and>
       sat_count (stale_dropped_total (qu_stats (sy_queue sy))) d \<and>
       count_fate Taken sy = p + f + d + (if is_busy (sy_worker sy) then 1 else 0))"
  using persist_reach_inv [OF assms] unfolding persist_inv_def history_inv_def Let_def by blast

theorem persist_queue_history_witness:
  "let sy = worker_pop (worker_acquire (producer_enqueue flaky_request (persist_sys_new one_attempt))) in
     sy_accepted sy = map snd (sy_left sy) @ qu_pending (sy_queue sy) \<and> sy_worker sy = W_Busy flaky_request"
proof -
  let ?s = "producer_enqueue flaky_request (persist_sys_new one_attempt)"
  have "persist_reach flaky_backend one_attempt ?s" by (rule persist_reach.step [OF persist_reach.start persist_step.enqueues])
  moreover have w: "sy_worker ?s = W_Waiting" "0 < qu_available (sy_queue ?s)"
    by (simp_all add: producer_enqueue_def persist_sys_new_def enqueue_def shared_queue_new_def one_attempt_def
        with_retry_max_attempts_def persistence_config_new_def Let_def)
  ultimately have "persist_reach flaky_backend one_attempt (worker_acquire ?s)" by (blast intro: persist_reach.step persist_step.acquires)
  moreover have h: "sy_worker (worker_acquire ?s) = W_Holding" by (simp add: worker_acquire_def Let_def)
  ultimately have r: "persist_reach flaky_backend one_attempt (worker_pop (worker_acquire ?s))" by (blast intro: persist_reach.step persist_step.pops)
  from persist_queue_history [OF this] show ?thesis
    by (simp add: Let_def worker_pop_def worker_acquire_def pop_request_def producer_enqueue_def persist_sys_new_def
        enqueue_def shared_queue_new_def one_attempt_def with_retry_max_attempts_def persistence_config_new_def)
qed

text \<open>
  C23.  No lost wakeup and a clean stop: a worker that waits without a permit has nothing to do (the
  queue is open and empty); a permit is never taken for nothing while the queue is open; the worker
  stops only after the queue was closed, and a closed queue always leaves it a permit to find out.
\<close>

theorem persist_no_lost_wakeup:
  assumes "persist_reach bk cfg sy"
  shows "(sy_worker sy = W_Waiting \<and> qu_available (sy_queue sy) = 0 \<longrightarrow>
      \<not> qu_closed (sy_queue sy) \<and> qu_pending (sy_queue sy) = []) \<and>
    (sy_worker sy = W_Holding \<and> \<not> qu_closed (sy_queue sy) \<longrightarrow> qu_pending (sy_queue sy) \<noteq> []) \<and>
    (\<forall>s. sy_worker sy = W_Stopped s \<longrightarrow> qu_closed (sy_queue sy) \<and> qu_pending (sy_queue sy) = []) \<and>
    (qu_closed (sy_queue sy) \<and> sy_worker sy = W_Holding \<longrightarrow> (\<exists>s. sy_worker (worker_pop sy) = W_Stopped s))"
  using persist_reach_inv [OF assms]
  by (auto simp: persist_inv_def worker_pop_def pop_request_def queue_is_closed_def Let_def)

theorem persist_no_lost_wakeup_witness:
  "let sy = worker_acquire (runtime_close (persist_sys_new one_attempt :: nat persist_sys)) in
     \<exists>s. sy_worker (worker_pop sy) = W_Stopped s"
proof -
  let ?s = "runtime_close (persist_sys_new one_attempt) :: nat persist_sys"
  have "persist_reach flaky_backend one_attempt ?s" by (rule persist_reach.step [OF persist_reach.start persist_step.closes])
  moreover have "sy_worker ?s = W_Waiting" "0 < qu_available (sy_queue ?s)" "qu_closed (sy_queue ?s)"
    by (simp_all add: runtime_close_def queue_close_def persist_sys_new_def shared_queue_new_def Let_def)
  ultimately have "persist_reach flaky_backend one_attempt (worker_acquire ?s)" by (blast intro: persist_reach.step persist_step.acquires)
  from persist_no_lost_wakeup [OF this] show ?thesis
    by (simp add: Let_def worker_acquire_def runtime_close_def queue_close_def persist_sys_new_def shared_queue_new_def)
qed

end
