(* ===== verification/Parser_Time.thy ===== *)
theory Parser_Time
  imports Rust_Str
begin

text \<open>
  Parse issues and the resolution of partial timestamps of the parser (emwin-parser/src/issue.rs,
  emwin-parser/src/time.rs).  A \<^verbatim>\<open>DateTime<Utc>\<close> is a signed number of nanoseconds from the epoch.
  The calendar belongs to the chrono crate: the record \<open>calendar\<close> holds what the parser asks of
  it, the year and the month of an instant, the instant of a date and a time where that date
  exists, and the parser of the \<^verbatim>\<open>%y%m%dT%H%MZ\<close> format.
\<close>

section \<open>Issues\<close>

record parse_issue =
  pi_kind :: str
  pi_code :: str
  pi_message :: str
  pi_line :: "str option"

definition issue_new :: "str \<Rightarrow> str \<Rightarrow> str \<Rightarrow> str option \<Rightarrow> parse_issue" where
  "issue_new kind code message line = \<lparr>pi_kind = kind, pi_code = code, pi_message = message, pi_line = line\<rparr>"

section \<open>Partial timestamps\<close>

type_synonym datetime = int

record calendar =
  cal_year :: "datetime \<Rightarrow> int"
  cal_month :: "datetime \<Rightarrow> nat"
  cal_at :: "int \<Rightarrow> nat \<Rightarrow> nat \<Rightarrow> nat \<Rightarrow> nat \<Rightarrow> datetime option"
  cal_day_shift :: "datetime \<Rightarrow> int \<Rightarrow> nat \<Rightarrow> nat \<Rightarrow> datetime option"
  cal_parse :: "str \<Rightarrow> datetime option"

text \<open>\<open>cal_at y m d h mi\<close> is the instant of a date and a time of day, where the date exists;
  \<open>cal_day_shift t k h mi\<close> the instant at that time of day, \<open>k\<close> days from the date of \<open>t\<close>, where
  the date is in range.\<close>

definition distance_secs :: "datetime \<Rightarrow> datetime \<Rightarrow> nat" where
  "distance_secs reference candidate = nat \<bar>candidate - reference\<bar> div nanos_per_sec"

text \<open>\<^verbatim>\<open>Iterator::min_by_key\<close>: the first of the elements with the least key.\<close>

fun min_by_key :: "('a \<Rightarrow> nat) \<Rightarrow> 'a list \<Rightarrow> 'a option" where
  "min_by_key key [] = None"
| "min_by_key key (x # xs) =
     (case min_by_key key xs of Some y \<Rightarrow> if key y < key x then Some y else Some x | None \<Rightarrow> Some x)"

definition surrounding_months :: "int \<Rightarrow> nat \<Rightarrow> (int \<times> nat) list" where
  "surrounding_months year month =
     [if month = 1 then (year - 1, 12) else (year, month - 1), (year, month),
      if month = 12 then (year + 1, 1) else (year, month + 1)]"

definition build_candidate :: "calendar \<Rightarrow> int \<Rightarrow> nat \<Rightarrow> nat \<Rightarrow> nat \<Rightarrow> nat \<Rightarrow> datetime option" where
  "build_candidate cal year month day hour minute = cal_at cal year month day hour minute"

definition candidate_datetimes :: "calendar \<Rightarrow> datetime \<Rightarrow> nat \<Rightarrow> nat \<Rightarrow> nat \<Rightarrow> datetime list option" where
  "candidate_datetimes cal reference day hour minute =
     (if day = 0 \<or> day > 31 \<or> hour > 23 \<or> minute > 59 then None
      else
        let candidates =
          List.map_filter (\<lambda>(year, month). build_candidate cal year month day hour minute)
            (surrounding_months (cal_year cal reference) (cal_month cal reference))
        in if candidates = [] then None else Some candidates)"

definition resolve_day_time_nearest :: "calendar \<Rightarrow> datetime \<Rightarrow> nat \<Rightarrow> nat \<Rightarrow> nat \<Rightarrow> datetime option" where
  "resolve_day_time_nearest cal reference day hour minute =
     (case candidate_datetimes cal reference day hour minute of
        None \<Rightarrow> None
      | Some candidates \<Rightarrow> min_by_key (distance_secs reference) candidates)"

fun shift_all :: "calendar \<Rightarrow> datetime \<Rightarrow> nat \<Rightarrow> nat \<Rightarrow> int list \<Rightarrow> datetime list option" where
  "shift_all cal reference hour minute [] = Some []"
| "shift_all cal reference hour minute (k # ks) =
     (case cal_day_shift cal reference k hour minute of
        None \<Rightarrow> None
      | Some t \<Rightarrow> map_option ((#) t) (shift_all cal reference hour minute ks))"

definition resolve_clock_time_nearest :: "calendar \<Rightarrow> datetime \<Rightarrow> nat \<Rightarrow> nat \<Rightarrow> datetime option" where
  "resolve_clock_time_nearest cal reference hour minute =
     (if hour > 23 \<or> minute > 59 then None
      else case shift_all cal reference hour minute [- 1, 0, 1] of
        None \<Rightarrow> None
      | Some candidates \<Rightarrow> min_by_key (distance_secs reference) candidates)"

fun min_opt :: "int list \<Rightarrow> int option" where
  "min_opt [] = None"
| "min_opt (x # xs) = (case min_opt xs of Some y \<Rightarrow> Some (min x y) | None \<Rightarrow> Some x)"

fun max_opt :: "int list \<Rightarrow> int option" where
  "max_opt [] = None"
| "max_opt (x # xs) = (case max_opt xs of Some y \<Rightarrow> Some (max x y) | None \<Rightarrow> Some x)"

definition resolve_day_time_not_before :: "calendar \<Rightarrow> datetime \<Rightarrow> nat \<Rightarrow> nat \<Rightarrow> nat \<Rightarrow> datetime option" where
  "resolve_day_time_not_before cal reference day hour minute =
     (case candidate_datetimes cal reference day hour minute of
        None \<Rightarrow> None
      | Some candidates \<Rightarrow>
          (case min_opt (filter (\<lambda>c. c \<ge> reference) candidates) of
             Some t \<Rightarrow> Some t
           | None \<Rightarrow> max_opt candidates))"

section \<open>Selection\<close>

lemma min_by_key_Some: "xs \<noteq> [] \<Longrightarrow> \<exists>y. min_by_key key xs = Some y"
  by (cases xs) (auto split: option.split)

lemma min_by_key_min: "min_by_key key xs = Some y \<Longrightarrow> y \<in> set xs \<and> (\<forall>x \<in> set xs. key y \<le> key x)"
proof (induction xs arbitrary: y)
  case (Cons x xs)
  show ?case
  proof (cases "min_by_key key xs")
    case None
    then have "xs = []" using min_by_key_Some [of xs key] by auto
    with None Cons.prems show ?thesis by simp
  next
    case (Some z)
    have z: "z \<in> set xs" "\<And>x. x \<in> set xs \<Longrightarrow> key z \<le> key x" using Cons.IH [OF Some] by simp_all
    have y: "y = (if key z < key x then z else x)" using Cons.prems Some by (simp split: if_splits)
    have "key y \<le> key x'" if "x' \<in> set xs" for x' using z(2) [OF that] y by (simp split: if_splits)
    with y z(1) show ?thesis by auto
  qed
qed simp

lemma min_opt_Some: "min_opt xs = Some y \<longleftrightarrow> xs \<noteq> [] \<and> y = Min (set xs)"
proof (induction xs arbitrary: y)
  case (Cons x xs)
  show ?case
  proof (cases "xs = []")
    case False
    then have "min_opt xs = Some (Min (set xs))" using Cons by blast
    with False show ?thesis by (auto simp: Min_insert)
  qed auto
qed simp

lemma max_opt_Some: "max_opt xs = Some y \<longleftrightarrow> xs \<noteq> [] \<and> y = Max (set xs)"
proof (induction xs arbitrary: y)
  case (Cons x xs)
  show ?case
  proof (cases "xs = []")
    case False
    then have "max_opt xs = Some (Max (set xs))" using Cons by blast
    with False show ?thesis by (auto simp: Max_insert)
  qed auto
qed simp

lemma min_opt_None: "min_opt xs = None \<longleftrightarrow> xs = []"
  by (cases xs) (auto split: option.split)

lemma set_map_filter: "set (List.map_filter f xs) = {y. \<exists>x \<in> set xs. f x = Some y}"
  by (induction xs) (auto simp: List.map_filter_simps split: option.splits)

lemma candidate_datetimes_Some:
  assumes "candidate_datetimes cal reference day hour minute = Some cs"
  shows "cs \<noteq> [] \<and> 1 \<le> day \<and> day \<le> 31 \<and> hour \<le> 23 \<and> minute \<le> 59 \<and>
    set cs = {t. \<exists>p \<in> set (surrounding_months (cal_year cal reference) (cal_month cal reference)).
      cal_at cal (fst p) (snd p) day hour minute = Some t}"
proof -
  let ?ms = "surrounding_months (cal_year cal reference) (cal_month cal reference)"
  let ?f = "\<lambda>(year, month). cal_at cal year month day hour minute"
  have cs: "cs = List.map_filter ?f ?ms" "cs \<noteq> []" "1 \<le> day \<and> day \<le> 31 \<and> hour \<le> 23 \<and> minute \<le> 59"
    using assms by (auto simp: candidate_datetimes_def build_candidate_def Let_def split: if_splits)
  have "set cs = {t. \<exists>p \<in> set ?ms. ?f p = Some t}" unfolding cs(1) by (rule set_map_filter)
  then show ?thesis using cs(2,3) by (simp add: case_prod_beta)
qed

lemma surrounding_months_range:
  "1 \<le> month \<Longrightarrow> month \<le> 12 \<Longrightarrow> (y, m) \<in> set (surrounding_months year month) \<Longrightarrow>
     1 \<le> m \<and> m \<le> 12 \<and> \<bar>(12 * y + int m) - (12 * year + int month)\<bar> \<le> 1"
  by (auto simp: surrounding_months_def split: if_splits)

section \<open>Contract of a resolver\<close>

text \<open>
  The two resolvers choose from the same candidates; what their callers rely on is that the choice is one
  of the candidates and that it is minimal in the order of preference.
\<close>

locale time_resolver =
  fixes candidates :: "datetime \<Rightarrow> 'k \<Rightarrow> datetime list option"
    and prefers :: "datetime \<Rightarrow> datetime \<Rightarrow> datetime \<Rightarrow> bool"
    and resolve :: "datetime \<Rightarrow> 'k \<Rightarrow> datetime option"
  assumes resolve_None: "resolve r k = None \<longleftrightarrow> candidates r k = None"
    and resolve_Some: "resolve r k = Some t \<Longrightarrow>
      \<exists>cs. candidates r k = Some cs \<and> t \<in> set cs \<and> (\<forall>c \<in> set cs. prefers r t c)"
begin

lemma resolve_unique_best:
  assumes "candidates r k = Some cs" "c \<in> set cs" "\<And>c'. c' \<in> set cs \<Longrightarrow> prefers r c' c \<Longrightarrow> c' = c"
  shows "resolve r k = Some c"
proof -
  obtain t where t: "resolve r k = Some t" using resolve_None [of r k] assms(1) by (cases "resolve r k") auto
  with resolve_Some [OF t] assms show ?thesis by auto
qed

end

definition nearer :: "datetime \<Rightarrow> datetime \<Rightarrow> datetime \<Rightarrow> bool" where
  "nearer r t c \<longleftrightarrow> distance_secs r t \<le> distance_secs r c"

text \<open>A candidate that is not in the past is better than one that is; of two in the future the
  earlier, of two in the past the later.\<close>

definition sooner :: "datetime \<Rightarrow> datetime \<Rightarrow> datetime \<Rightarrow> bool" where
  "sooner r t c \<longleftrightarrow> (if c \<ge> r then r \<le> t \<and> t \<le> c else t \<ge> c)"

interpretation nearest: time_resolver "\<lambda>r (d, h, m). candidate_datetimes cal r d h m" nearer
  "\<lambda>r (d, h, m). resolve_day_time_nearest cal r d h m" for cal
proof (unfold_locales, goal_cases)
  case (1 r k)
  obtain d h m where k: "k = (d, h, m)" by (cases k)
  show ?case
    using min_by_key_Some candidate_datetimes_Some
    by (auto simp: k resolve_day_time_nearest_def split: option.split) (metis min_by_key_Some option.distinct(1))
next
  case (2 r k t)
  obtain d h m where k: "k = (d, h, m)" by (cases k)
  with 2 show ?case
    by (auto simp: resolve_day_time_nearest_def nearer_def split: option.splits dest: min_by_key_min)
qed

interpretation not_before: time_resolver "\<lambda>r (d, h, m). candidate_datetimes cal r d h m" sooner
  "\<lambda>r (d, h, m). resolve_day_time_not_before cal r d h m" for cal
proof (unfold_locales, goal_cases)
  case (1 r k)
  obtain d h m where k: "k = (d, h, m)" by (cases k)
  show ?case
  proof (cases "candidate_datetimes cal r d h m")
    case (Some cs)
    then have "cs \<noteq> []" using candidate_datetimes_Some by blast
    then have "max_opt cs = Some (Max (set cs))" by (simp add: max_opt_Some)
    with Some k show ?thesis by (auto simp: resolve_day_time_not_before_def split: option.split)
  qed (simp add: k resolve_day_time_not_before_def)
next
  case (2 r k t)
  obtain d h m where k: "k = (d, h, m)" by (cases k)
  then obtain cs where cs: "candidate_datetimes cal r d h m = Some cs"
    using 2 by (auto simp: resolve_day_time_not_before_def split: option.splits)
  let ?f = "filter (\<lambda>c. c \<ge> r) cs"
  show ?case
  proof (cases "?f = []")
    case True
    then have "t = Max (set cs)" "cs \<noteq> []" using 2 k cs candidate_datetimes_Some [OF cs]
      by (simp_all add: resolve_day_time_not_before_def max_opt_Some)
    then show ?thesis using cs k True by (auto simp: sooner_def filter_empty_conv)
  next
    case False
    then have "min_opt ?f = Some (Min (set ?f))" by (simp add: min_opt_Some)
    then have t: "t = Min (set ?f)" using 2 k cs by (simp add: resolve_day_time_not_before_def)
    then have "t \<in> set ?f" using False by (metis Min_in List.finite_set set_empty)
    moreover have "\<forall>c \<in> set ?f. t \<le> c" using t by simp
    ultimately show ?thesis using cs k by (auto simp: sooner_def)
  qed
qed

section \<open>Properties\<close>

lemma candidates_None_iff:
  "candidate_datetimes cal r d h m = None \<longleftrightarrow>
     d = 0 \<or> d > 31 \<or> h > 23 \<or> m > 59 \<or>
     (\<forall>p \<in> set (surrounding_months (cal_year cal r) (cal_month cal r)). cal_at cal (fst p) (snd p) d h m = None)"
proof -
  have "List.map_filter f xs = [] \<longleftrightarrow> (\<forall>x \<in> set xs. f x = None)" for f :: "int \<times> nat \<Rightarrow> datetime option" and xs
    by (induction xs) (auto simp: List.map_filter_simps split: option.splits)
  then show ?thesis by (auto simp: candidate_datetimes_def build_candidate_def Let_def case_prod_beta)
qed

lemma image_None_iff: "(\<forall>p \<in> S. f p = None) \<longleftrightarrow> {t. \<exists>p \<in> S. f p = Some t} = {}"
proof
  assume none: "{t. \<exists>p \<in> S. f p = Some t} = {}"
  show "\<forall>p \<in> S. f p = None"
  proof
    fix p assume "p \<in> S"
    with none show "f p = None" by (cases "f p") auto
  qed
qed auto

definition month_calendar :: calendar where
  "month_calendar =
     \<lparr>cal_year = (\<lambda>t. t div (360 * 86400 * int nanos_per_sec)),
      cal_month = (\<lambda>t. nat (t mod (360 * 86400 * int nanos_per_sec) div (30 * 86400 * int nanos_per_sec)) + 1),
      cal_at = (\<lambda>y mo d h mi. if d \<le> 30
        then Some ((((y * 12 + int mo - 1) * 30 + int d - 1) * 86400 + int h * 3600 + int mi * 60) * int nanos_per_sec)
        else None),
      cal_day_shift = (\<lambda>t k h mi. Some ((((t div (86400 * int nanos_per_sec)) + k) * 86400 + int h * 3600 + int mi * 60) *
        int nanos_per_sec)),
      cal_parse = (\<lambda>s. None)\<rparr>"

text \<open>
  C25.  A partial timestamp is resolved to an instant of that day and time in the month of the
  reference, the one before or the one after; \<^verbatim>\<open>resolve_day_time_nearest\<close> gives one that no other is nearer
  to the reference than (in whole seconds), \<^verbatim>\<open>resolve_day_time_not_before\<close> the earliest that is not before
  the reference, or the latest when all are before it.  Both fail exactly when the numbers are
  out of range or none of the three months has that day.
\<close>

theorem resolve_day_time_best:
  fixes cal r d h m
  defines "C \<equiv> {t. \<exists>p \<in> set (surrounding_months (cal_year cal r) (cal_month cal r)).
    cal_at cal (fst p) (snd p) d h m = Some t}"
  shows "(resolve_day_time_nearest cal r d h m = None \<longleftrightarrow> d = 0 \<or> d > 31 \<or> h > 23 \<or> m > 59 \<or> C = {}) \<and>
    (resolve_day_time_not_before cal r d h m = None \<longleftrightarrow> d = 0 \<or> d > 31 \<or> h > 23 \<or> m > 59 \<or> C = {}) \<and>
    (\<forall>t. resolve_day_time_nearest cal r d h m = Some t \<longrightarrow>
       t \<in> C \<and> (\<forall>c \<in> C. distance_secs r t \<le> distance_secs r c)) \<and>
    (\<forall>t. resolve_day_time_not_before cal r d h m = Some t \<longrightarrow>
       t \<in> C \<and> (if \<exists>c \<in> C. r \<le> c then r \<le> t \<and> (\<forall>c \<in> C. r \<le> c \<longrightarrow> t \<le> c) else (\<forall>c \<in> C. c \<le> t)))"
proof -
  have none: "candidate_datetimes cal r d h m = None \<longleftrightarrow> d = 0 \<or> d > 31 \<or> h > 23 \<or> m > 59 \<or> C = {}"
    unfolding candidates_None_iff C_def image_None_iff ..
  have set: "set cs = C" if "candidate_datetimes cal r d h m = Some cs" for cs
    using candidate_datetimes_Some [OF that] by (simp add: C_def)
  have near: "t \<in> C \<and> (\<forall>c \<in> C. distance_secs r t \<le> distance_secs r c)"
    if "resolve_day_time_nearest cal r d h m = Some t" for t
    using nearest.resolve_Some [of cal r "(d, h, m)" t] that set by (auto simp: nearer_def)
  have later: "t \<in> C \<and> (if \<exists>c \<in> C. r \<le> c then r \<le> t \<and> (\<forall>c \<in> C. r \<le> c \<longrightarrow> t \<le> c) else (\<forall>c \<in> C. c \<le> t))"
    if "resolve_day_time_not_before cal r d h m = Some t" for t
  proof -
    have "t \<in> C" "\<forall>c \<in> C. sooner r t c"
      using not_before.resolve_Some [of cal r "(d, h, m)" t] that set by auto
    then show ?thesis by (auto simp: sooner_def not_le split: if_splits)
  qed
  show ?thesis
    using nearest.resolve_None [of cal r "(d, h, m)"] not_before.resolve_None [of cal r "(d, h, m)"] none near later
    by auto
qed

theorem resolve_day_time_best_witness:
  "resolve_day_time_nearest month_calendar 0 30 23 59 = Some (- 60 * int nanos_per_sec) \<and>
   distance_secs 0 (- 60 * int nanos_per_sec) \<le> distance_secs 0 (29 * 86400 * int nanos_per_sec + 86340 * int nanos_per_sec)"
proof -
  have r: "resolve_day_time_nearest month_calendar 0 30 23 59 = Some (- 60 * int nanos_per_sec)"
    by (simp add: resolve_day_time_nearest_def candidate_datetimes_def build_candidate_def surrounding_months_def
        month_calendar_def distance_secs_def List.map_filter_simps)
  have c: "\<exists>p \<in> set (surrounding_months (cal_year month_calendar 0) (cal_month month_calendar 0)).
      cal_at month_calendar (fst p) (snd p) 30 23 59 = Some (29 * 86400 * int nanos_per_sec + 86340 * int nanos_per_sec)"
    by (simp add: surrounding_months_def month_calendar_def)
  show ?thesis using resolve_day_time_best [of month_calendar 0 30 23 59] r c by blast
qed

end
