(* ===== verification/Parser_Codes.thy ===== *)
theory Parser_Codes
  imports Parser_Time
begin

text \<open>
  Slash-delimited codes in bulletins: the scanner of emwin-parser/src/body/support.rs and the parsers of
  VTEC (body/vtec.rs) and HVTEC codes (body/hvtec.rs).  The time format is parsed by the calendar, the
  table of river gauges is a parameter.  The lemmas characterise the scanner by the parts between
  slashes and show that rendered codes are read back from a bulletin.
\<close>

section \<open>Scanner\<close>

fun scan_slash_delimited_candidates :: "(str \<Rightarrow> bool) \<Rightarrow> str \<Rightarrow> str list" where
  "scan_slash_delimited_candidates predicate [] = []"
| "scan_slash_delimited_candidates predicate (c # rest) =
     (if c = CHR ''/''
      then case position (\<lambda>b. b = CHR ''/'') rest of
          None \<Rightarrow> []
        | Some k \<Rightarrow> (let candidate = c # take (k + 1) rest in if predicate candidate then [candidate] else [])
      else []) @ scan_slash_delimited_candidates predicate rest"

section \<open>VTEC\<close>

record vtec_code =
  vt_status :: char
  vt_status_description :: "str option"
  vt_action :: str
  vt_action_description :: "str option"
  vt_office :: str
  vt_phenomena :: str
  vt_phenomena_description :: "str option"
  vt_significance :: char
  vt_significance_description :: "str option"
  vt_etn :: u32
  vt_begin :: "datetime option"
  vt_end :: "datetime option"

definition phenomena_table :: "(str \<times> str) list" where
  "phenomena_table =
     [(''AF'', ''Ashfall''), (''AS'', ''Air Stagnation''), (''AV'', ''Avalanche''),
      (''BH'', ''Beach Hazard''), (''BS'', ''Blowing Snow''), (''BW'', ''Brisk Wind''),
      (''BZ'', ''Blizzard''), (''CF'', ''Coastal Flood''), (''CW'', ''Cold Weather''),
      (''DF'', ''Debris Flow''), (''DS'', ''Dust Storm''), (''DU'', ''Blowing Dust''),
      (''EC'', ''Extreme Cold''), (''EH'', ''Excessive Heat''), (''EW'', ''Extreme Wind''),
      (''FA'', ''Areal Flood''), (''FF'', ''Flash Flood''), (''FG'', ''Dense Fog''), (''FL'', ''Flood''),
      (''FR'', ''Frost''), (''FW'', ''Fire Weather''), (''FZ'', ''Freeze''), (''GL'', ''Gale''),
      (''HF'', ''Hurricane Force Wind''), (''HI'', ''Inland Hurricane Wind''), (''HS'', ''Heavy Snow''),
      (''HT'', ''Heat''), (''HU'', ''Hurricane''), (''HW'', ''High Wind''), (''HY'', ''Hydrologic''),
      (''HZ'', ''Hard Freeze''), (''IP'', ''Sleet''), (''IS'', ''Ice Storm''),
      (''LB'', ''Lake Effect Snow and Blowing Snow''), (''LE'', ''Lake Effect Snow''),
      (''LO'', ''Low Water''), (''LS'', ''Lakeshore Flood''), (''LW'', ''Lake Wind''),
      (''MA'', ''Marine''), (''MF'', ''Marine Dense Fog''), (''MH'', ''Marine Ashfall''),
      (''MS'', ''Marine Dense Smoke''), (''RB'', ''Small Craft for Rough Bar''),
      (''RP'', ''Rip Currents''), (''SB'', ''Snow And Blowing Snow''), (''SC'', ''Small Craft''),
      (''SE'', ''Hazardous Seas''), (''SI'', ''Small Craft for Winds''), (''SM'', ''Smoke''),
      (''SN'', ''Snow''), (''SQ'', ''Snow Squall''), (''SR'', ''Storm''), (''SS'', ''Storm Surge''),
      (''SU'', ''High Surf''), (''SV'', ''Severe Thunderstorm''),
      (''SW'', ''Small Craft for Hazardous Seas''), (''TI'', ''Inland Tropical Storm Wind''),
      (''TO'', ''Tornado''), (''TR'', ''Tropical Storm''), (''TS'', ''Tsunami''), (''TY'', ''Typhoon''),
      (''UP'', ''Freezing Spray''), (''WC'', ''Wind Chill''), (''WI'', ''Wind''),
      (''WS'', ''Winter Storm''), (''WW'', ''Winter Weather''), (''XH'', ''Extreme Heat''),
      (''ZF'', ''Freezing Fog''), (''ZR'', ''Freezing Rain'')]"

definition vtec_phenomena_description :: "str \<Rightarrow> str option" where
  "vtec_phenomena_description code = map_of phenomena_table code"

definition vtec_action_description :: "str \<Rightarrow> str option" where
  "vtec_action_description code = map_of
     [(''NEW'', ''New''), (''CON'', ''Continued''), (''EXT'', ''Changed in Time''),
      (''EXA'', ''Changed in Area''), (''EXB'', ''Changed in Time and Area''), (''CAN'', ''Cancelled''),
      (''UPG'', ''Upgraded''), (''EXP'', ''Expired''), (''COR'', ''Corrected''), (''ROU'', ''Routine'')] code"

definition vtec_status_description :: "char \<Rightarrow> str option" where
  "vtec_status_description code = map_of
     [(CHR ''O'', ''Operational''), (CHR ''T'', ''Test''), (CHR ''E'', ''Experimental''), (CHR ''X'', ''Experimental VTEC'')] code"

definition vtec_significance_description :: "char \<Rightarrow> str option" where
  "vtec_significance_description code = map_of
     [(CHR ''W'', ''Warning''), (CHR ''A'', ''Watch''), (CHR ''Y'', ''Advisory''), (CHR ''S'', ''Statement''), (CHR ''O'', ''Outlook''), (CHR ''N'', ''Synopsis''), (CHR ''F'', ''Forecast'')] code"

definition is_vtec_candidate :: "str \<Rightarrow> bool" where
  "is_vtec_candidate candidate \<longleftrightarrow>
     (1 < length candidate \<and> is_upper (candidate ! 1)) \<and> (2 < length candidate \<and> candidate ! 2 = CHR ''.'')"

definition find_vtec_candidates :: "str \<Rightarrow> str list" where
  "find_vtec_candidates bulletin = scan_slash_delimited_candidates is_vtec_candidate bulletin"

definition invalid_format_issue :: "str \<Rightarrow> parse_issue" where
  "invalid_format_issue raw =
     issue_new ''vtec_parse'' ''invalid_vtec_format'' (''could not parse VTEC code: `'' @ raw @ ''`'') (Some raw)"

definition invalid_etn_issue :: "str \<Rightarrow> parse_issue" where
  "invalid_etn_issue raw =
     issue_new ''vtec_parse'' ''invalid_vtec_etn'' (''could not parse VTEC ETN from code: `'' @ raw @ ''`'') (Some raw)"

definition parse_vtec_time :: "calendar \<Rightarrow> str \<Rightarrow> datetime option" where
  "parse_vtec_time cal s = (if length s \<noteq> 12 then None else cal_parse cal s)"

definition parse_vtec_time_or_unspecified :: "calendar \<Rightarrow> str \<Rightarrow> str \<Rightarrow> str \<Rightarrow> parse_issue + datetime option" where
  "parse_vtec_time_or_unspecified cal token code raw =
     (if token = ''000000T0000Z'' then Inr None
      else case parse_vtec_time cal token of
        None \<Rightarrow> Inl (issue_new ''vtec_parse'' code
          (''could not parse VTEC '' @ (if code = ''invalid_vtec_begin_time'' then ''begin time'' else ''end time'') @
           '' from code: `'' @ raw @ ''`'') (Some raw))
      | Some parsed \<Rightarrow> if cal_year cal parsed < 1971 then Inr None else Inr (Some parsed))"

definition strip_slashes :: "str \<Rightarrow> str option" where
  "strip_slashes raw =
     (case strip_prefix ''/'' raw of None \<Rightarrow> None | Some v \<Rightarrow> strip_suffix ''/'' v)"

definition single_char :: "str \<Rightarrow> char option" where
  "single_char s = (if length s = 1 then Some (hd s) else None)"

definition parse_vtec_candidate :: "calendar \<Rightarrow> str \<Rightarrow> parse_issue + vtec_code" where
  "parse_vtec_candidate cal raw =
     (case strip_slashes raw of
        None \<Rightarrow> Inl (invalid_format_issue raw)
      | Some inner \<Rightarrow>
          (let fields = split_char (CHR ''.'') inner in
           if length fields \<noteq> 7 then Inl (invalid_format_issue raw)
           else case single_char (fields ! 0) of
             None \<Rightarrow> Inl (invalid_format_issue raw)
           | Some status \<Rightarrow>
           case single_char (fields ! 4) of
             None \<Rightarrow> Inl (invalid_format_issue raw)
           | Some significance \<Rightarrow>
           case parse_u32 (fields ! 5) of
             None \<Rightarrow> Inl (invalid_etn_issue raw)
           | Some etn \<Rightarrow>
           case split_once (CHR ''-'') (fields ! 6) of
             None \<Rightarrow> Inl (invalid_format_issue raw)
           | Some (begin_raw, end_raw) \<Rightarrow>
           case parse_vtec_time_or_unspecified cal begin_raw ''invalid_vtec_begin_time'' raw of
             Inl e \<Rightarrow> Inl e
           | Inr begin_time \<Rightarrow>
           case parse_vtec_time_or_unspecified cal end_raw ''invalid_vtec_end_time'' raw of
             Inl e \<Rightarrow> Inl e
           | Inr end_time \<Rightarrow>
             Inr \<lparr>vt_status = status, vt_status_description = vtec_status_description status,
                  vt_action = fields ! 1, vt_action_description = vtec_action_description (fields ! 1),
                  vt_office = fields ! 2, vt_phenomena = fields ! 3,
                  vt_phenomena_description = vtec_phenomena_description (fields ! 3),
                  vt_significance = significance,
                  vt_significance_description = vtec_significance_description significance,
                  vt_etn = etn, vt_begin = begin_time, vt_end = end_time\<rparr>))"

text \<open>The results and the issues of a list of candidates, each in order.\<close>

definition partition_results :: "('a \<Rightarrow> 'e + 'b) \<Rightarrow> 'a list \<Rightarrow> 'b list \<times> 'e list" where
  "partition_results f xs =
     (List.map_filter (\<lambda>x. case f x of Inr y \<Rightarrow> Some y | Inl e \<Rightarrow> None) xs,
      List.map_filter (\<lambda>x. case f x of Inl e \<Rightarrow> Some e | Inr y \<Rightarrow> None) xs)"

definition parse_vtec_codes_with_issues :: "calendar \<Rightarrow> str \<Rightarrow> vtec_code list \<times> parse_issue list" where
  "parse_vtec_codes_with_issues cal bulletin =
     partition_results (parse_vtec_candidate cal) (find_vtec_candidates bulletin)"

definition parse_vtec_codes :: "calendar \<Rightarrow> str \<Rightarrow> vtec_code list" where
  "parse_vtec_codes cal bulletin = fst (parse_vtec_codes_with_issues cal bulletin)"

section \<open>HVTEC\<close>

datatype hvtec_severity = SeverityNone | Minor | Moderate | Major | SeverityUnknown

definition hvtec_severity_from_str :: "str \<Rightarrow> hvtec_severity" where
  "hvtec_severity_from_str s =
     (if s = ''N'' \<or> s = ''0'' then SeverityNone
      else if s = ''1'' then Minor else if s = ''2'' then Moderate else if s = ''3'' then Major
      else SeverityUnknown)"

datatype hvtec_cause =
    ExcessiveRainfall
  | Snowmelt
  | RainAndSnowmelt
  | DamFailure
  | GlacierOutburst
  | IceJam
  | RainSnowmeltIceJam
  | UpstreamFloodingStormSurge
  | UpstreamFloodingTidalEffects
  | ElevatedUpstreamFlowTidalEffects
  | WindTidalEffects
  | UpstreamDamRelease
  | MultipleCauses
  | OtherEffects
  | CauseUnknown
  | CauseOther

definition hvtec_cause_from_str :: "str \<Rightarrow> hvtec_cause" where
  "hvtec_cause_from_str s =
     (case map_of
        [(''ER'', ExcessiveRainfall),
         (''SM'', Snowmelt),
         (''RS'', RainAndSnowmelt),
         (''DM'', DamFailure),
         (''GO'', GlacierOutburst),
         (''IJ'', IceJam),
         (''IC'', RainSnowmeltIceJam),
         (''FS'', UpstreamFloodingStormSurge),
         (''FT'', UpstreamFloodingTidalEffects),
         (''ET'', ElevatedUpstreamFlowTidalEffects),
         (''WT'', WindTidalEffects),
         (''DR'', UpstreamDamRelease),
         (''MC'', MultipleCauses),
         (''OT'', OtherEffects),
         (''UU'', CauseUnknown)] s
      of Some c \<Rightarrow> c | None \<Rightarrow> CauseOther)"

datatype hvtec_record = NoRecord | NearRecord | NotApplicable | Unavailable | RecordUnknown

definition hvtec_record_from_str :: "str \<Rightarrow> hvtec_record" where
  "hvtec_record_from_str s =
     (if s = ''NO'' then NoRecord else if s = ''NR'' then NearRecord else if s = ''OO'' then NotApplicable
      else if s = ''UU'' then Unavailable else RecordUnknown)"

record 'l hvtec_code =
  hv_nwslid :: str
  hv_location :: "'l option"
  hv_severity :: hvtec_severity
  hv_cause :: hvtec_cause
  hv_begin :: "datetime option"
  hv_crest :: "datetime option"
  hv_end :: "datetime option"
  hv_record :: hvtec_record

definition is_valid_nwslid :: "str \<Rightarrow> bool" where
  "is_valid_nwslid field \<longleftrightarrow> length field = 5 \<and> list_all is_alphanumeric field"

definition is_structurally_hvtec_candidate :: "str \<Rightarrow> bool" where
  "is_structurally_hvtec_candidate candidate \<longleftrightarrow>
     (case strip_slashes candidate of
        None \<Rightarrow> False
      | Some inner \<Rightarrow>
          (let fields = split_char (CHR ''.'') inner in
           length fields \<ge> 3 \<and> is_valid_nwslid (fields ! 0) \<and>
           fields ! 1 \<in> {''N'', ''0'', ''1'', ''2'', ''3'', ''U''} \<and>
           length (fields ! 2) = 2 \<and> list_all is_upper (fields ! 2)))"

definition find_hvtec_candidates :: "str \<Rightarrow> str list" where
  "find_hvtec_candidates bulletin = scan_slash_delimited_candidates is_structurally_hvtec_candidate bulletin"

definition hvtec_format_issue :: "str \<Rightarrow> parse_issue" where
  "hvtec_format_issue raw =
     issue_new ''hvtec_parse'' ''invalid_hvtec_format'' (''could not parse HVTEC code: `'' @ raw @ ''`'') (Some raw)"

definition hvtec_time_issue :: "str \<Rightarrow> str \<Rightarrow> parse_issue" where
  "hvtec_time_issue code raw =
     issue_new ''hvtec_parse'' code
       (''could not parse HVTEC '' @
        (if code = ''invalid_hvtec_begin_time'' then ''begin time''
         else if code = ''invalid_hvtec_crest_time'' then ''crest time'' else ''end time'') @
        '' from code: `'' @ raw @ ''`'') (Some raw)"

definition parse_hvtec_time :: "calendar \<Rightarrow> str \<Rightarrow> datetime option" where
  "parse_hvtec_time cal s = (if length s \<noteq> 12 then None else cal_parse cal s)"

definition parse_hvtec_optional_time :: "calendar \<Rightarrow> str \<Rightarrow> datetime option option" where
  "parse_hvtec_optional_time cal token =
     (if token = ''000000T0000Z'' then Some None else map_option Some (parse_hvtec_time cal token))"

definition parse_hvtec_candidate :: "calendar \<Rightarrow> (str \<Rightarrow> 'l option) \<Rightarrow> str \<Rightarrow> parse_issue + 'l hvtec_code" where
  "parse_hvtec_candidate cal nwslid_entry raw =
     (case strip_slashes raw of
        None \<Rightarrow> Inl (hvtec_format_issue raw)
      | Some inner \<Rightarrow>
          (let fields = split_char (CHR ''.'') inner in
           if length fields \<noteq> 7 then Inl (hvtec_format_issue raw)
           else case parse_hvtec_optional_time cal (fields ! 3) of
             None \<Rightarrow> Inl (hvtec_time_issue ''invalid_hvtec_begin_time'' raw)
           | Some begin_time \<Rightarrow>
           case parse_hvtec_optional_time cal (fields ! 4) of
             None \<Rightarrow> Inl (hvtec_time_issue ''invalid_hvtec_crest_time'' raw)
           | Some crest_time \<Rightarrow>
           case parse_hvtec_optional_time cal (fields ! 5) of
             None \<Rightarrow> Inl (hvtec_time_issue ''invalid_hvtec_end_time'' raw)
           | Some end_time \<Rightarrow>
             Inr \<lparr>hv_nwslid = fields ! 0, hv_location = nwslid_entry (fields ! 0),
                  hv_severity = hvtec_severity_from_str (fields ! 1), hv_cause = hvtec_cause_from_str (fields ! 2),
                  hv_begin = begin_time, hv_crest = crest_time, hv_end = end_time,
                  hv_record = hvtec_record_from_str (fields ! 6)\<rparr>))"

definition parse_hvtec_codes_with_issues :: "calendar \<Rightarrow> (str \<Rightarrow> 'l option) \<Rightarrow> str \<Rightarrow>
    'l hvtec_code list \<times> parse_issue list" where
  "parse_hvtec_codes_with_issues cal nwslid_entry bulletin =
     partition_results (parse_hvtec_candidate cal nwslid_entry) (find_hvtec_candidates bulletin)"

definition parse_hvtec_codes :: "calendar \<Rightarrow> (str \<Rightarrow> 'l option) \<Rightarrow> str \<Rightarrow> 'l hvtec_code list" where
  "parse_hvtec_codes cal nwslid_entry bulletin = fst (parse_hvtec_codes_with_issues cal nwslid_entry bulletin)"

section \<open>The scanner and the parts between slashes\<close>

abbreviation slash :: char where
  "slash \<equiv> CHR ''/''"

definition wrap :: "str \<Rightarrow> str" where
  "wrap s = slash # s @ [slash]"

lemma scan_slash_eq:
  "scan_slash_delimited_candidates p s = filter p (map wrap (butlast (tl (split_char slash s))))"
proof (induction s)
  case (Cons c s)
  obtain y ys where y: "split_char slash s = y # ys" by (cases "split_char slash s") auto
  have s: "s = join [slash] (y # ys)" using join_split_char [of slash s] y by simp
  have pos: "(case position (\<lambda>b. b = slash) s of None \<Rightarrow> [] | Some k \<Rightarrow> [wrap (take k s)]) =
      map wrap (if ys = [] then [] else [y])"
  proof -
    have "slash \<notin> set y" using y
    proof (induction s arbitrary: y ys)
      case (Cons a s)
      then show ?case by (cases "split_char slash s") (auto split: if_splits)
    qed simp
    show ?thesis
    proof (cases "ys = []")
      case True
      then have "position (\<lambda>b. b = slash) s = None" using s \<open>slash \<notin> set y\<close> by (simp add: position_None) blast
      with True show ?thesis by simp
    next
      case False
      then obtain r where r: "s = y @ slash # r" using s by (simp add: join_Cons)
      have "position (\<lambda>b. b = slash) (y @ slash # r) = Some (length y)"
        using \<open>slash \<notin> set y\<close> by (induction y) auto
      with r False show ?thesis by simp
    qed
  qed
  show ?case
  proof (cases "c = slash")
    case True
    have "(case position (\<lambda>b. b = slash) s of None \<Rightarrow> []
        | Some k \<Rightarrow> (let candidate = slash # take (k + 1) s in if p candidate then [candidate] else [])) =
        filter p (case position (\<lambda>b. b = slash) s of None \<Rightarrow> [] | Some k \<Rightarrow> [wrap (take k s)])"
    proof (cases "position (\<lambda>b. b = slash) s")
      case (Some k)
      then have "k < length s" "s ! k = slash" using position_Some [OF Some] by auto
      then have "take (k + 1) s = take k s @ [slash]" by (simp add: take_Suc_conv_app_nth)
      with Some True show ?thesis by (simp add: wrap_def)
    qed simp
    then show ?thesis unfolding pos using Cons.IH y by (auto simp: True)
  next
    case False
    then show ?thesis using Cons.IH y by simp
  qed
qed simp

section \<open>Codes in a bulletin\<close>

text \<open>
  A format of slash-delimited codes: which texts its scanner accepts, its parser, the text of a code
  and what the parser reads.  A bulletin is a sequence of other text and codes.
\<close>

locale slash_format =
  fixes accepts :: "str \<Rightarrow> bool"
    and parse :: "str \<Rightarrow> 'e + 'c"
    and body :: "'f \<Rightarrow> str"
    and decode :: "'f \<Rightarrow> 'c"
    and ok :: "'f \<Rightarrow> bool"
  assumes body_no_slash: "ok f \<Longrightarrow> slash \<notin> set (body f)"
    and body_accepted: "ok f \<Longrightarrow> accepts (wrap (body f))"
    and body_parsed: "ok f \<Longrightarrow> parse (wrap (body f)) = Inr (decode f)"
begin

primrec bulletin :: "(str \<times> 'f) list \<Rightarrow> str \<Rightarrow> str" where
  "bulletin [] rest = rest"
| "bulletin (x # xs) rest = fst x @ wrap (body (snd x)) @ bulletin xs rest"

definition segments_ok :: "(str \<times> 'f) list \<Rightarrow> str \<Rightarrow> bool" where
  "segments_ok xs rest \<longleftrightarrow>
     slash \<notin> set rest \<and>
     (\<forall>x \<in> set xs. slash \<notin> set (fst x) \<and> \<not> accepts (wrap (fst x)) \<and> ok (snd x))"

lemma split_bulletin:
  "segments_ok xs rest \<Longrightarrow>
     split_char slash (bulletin xs rest) = concat (map (\<lambda>x. [fst x, body (snd x)]) xs) @ [rest]"
proof (induction xs)
  case Nil
  then show ?case by (simp add: segments_ok_def split_char_no)
next
  case (Cons x xs)
  have "slash \<notin> set (fst x)" "slash \<notin> set (body (snd x))" "segments_ok xs rest"
    using Cons.prems body_no_slash by (auto simp: segments_ok_def)
  with Cons.IH show ?case by (simp add: wrap_def split_char_append)
qed

lemma accepted_segments:
  "\<forall>x \<in> set xs. \<not> accepts (wrap (fst x)) \<and> ok (snd x) \<Longrightarrow>
     filter accepts (map wrap (concat (map (\<lambda>x. [fst x, body (snd x)]) xs))) = map (\<lambda>x. wrap (body (snd x))) xs"
  by (induction xs) (auto simp: body_accepted)

lemma scan_bulletin:
  assumes "segments_ok xs rest"
  shows "scan_slash_delimited_candidates accepts (bulletin xs rest) = map (\<lambda>x. wrap (body (snd x))) xs"
proof (cases xs)
  case Nil
  then show ?thesis using assms by (simp add: scan_slash_eq segments_ok_def split_char_no)
next
  case (Cons x ys)
  let ?parts = "\<lambda>zs. concat (map (\<lambda>x. [fst x, body (snd x)]) zs)"
  have "butlast (tl (?parts xs @ [rest])) = body (snd x) # ?parts ys" using Cons by (simp add: butlast_append)
  then have "scan_slash_delimited_candidates accepts (bulletin xs rest) =
      filter accepts (map wrap (body (snd x) # ?parts ys))"
    using split_bulletin [OF assms] by (simp add: scan_slash_eq)
  then show ?thesis
    using assms accepted_segments [of ys] Cons by (simp add: segments_ok_def body_accepted)
qed

lemma bulletin_parsed:
  assumes "segments_ok xs rest"
  shows "partition_results parse (scan_slash_delimited_candidates accepts (bulletin xs rest)) = (map (decode \<circ> snd) xs, [])"
proof -
  have "\<forall>x \<in> set xs. ok (snd x)" using assms by (simp add: segments_ok_def)
  then have "partition_results parse (map (\<lambda>x. wrap (body (snd x))) xs) = (map (decode \<circ> snd) xs, [])"
    by (induction xs) (auto simp: partition_results_def body_parsed List.map_filter_simps)
  then show ?thesis by (simp add: scan_bulletin [OF assms])
qed

end

lemma strip_slashes_wrap [simp]: "strip_slashes (wrap s) = Some s"
  by (simp add: strip_slashes_def wrap_def strip_prefix_def strip_suffix_def)

section \<open>VTEC in a bulletin\<close>

record vtec_fields =
  vf_status :: char
  vf_action :: str
  vf_office :: str
  vf_phenomena :: str
  vf_significance :: char
  vf_etn :: u32
  vf_begin :: str
  vf_end :: str

definition vtec_body :: "vtec_fields \<Rightarrow> str" where
  "vtec_body f =
     join ''.'' [[vf_status f], vf_action f, vf_office f, vf_phenomena f, [vf_significance f],
       pad0 4 (show_nat (unat (vf_etn f))), vf_begin f @ ''-'' @ vf_end f]"

text \<open>A time token: the unspecified time or one the calendar can read.\<close>

definition time_ok :: "calendar \<Rightarrow> str \<Rightarrow> bool" where
  "time_ok cal s \<longleftrightarrow>
     length s = 12 \<and> set s \<inter> {slash, CHR ''.'', CHR ''-''} = {} \<and> (s = ''000000T0000Z'' \<or> cal_parse cal s \<noteq> None)"

definition vtec_time :: "calendar \<Rightarrow> str \<Rightarrow> datetime option" where
  "vtec_time cal s =
     (if s = ''000000T0000Z'' then None
      else case cal_parse cal s of Some t \<Rightarrow> if cal_year cal t < 1971 then None else Some t | None \<Rightarrow> None)"

text \<open>A code stands on one line.\<close>

definition within_line :: "str \<Rightarrow> bool" where
  "within_line s \<longleftrightarrow> CHR 0x0A \<notin> set s \<and> CHR 0x0D \<notin> set s"

definition vtec_ok :: "calendar \<Rightarrow> vtec_fields \<Rightarrow> bool" where
  "vtec_ok cal f \<longleftrightarrow>
     is_upper (vf_status f) \<and> vf_significance f \<notin> {slash, CHR ''.''} \<and>
     (set (vf_action f) \<union> set (vf_office f) \<union> set (vf_phenomena f)) \<inter> {slash, CHR ''.''} = {} \<and>
     time_ok cal (vf_begin f) \<and> time_ok cal (vf_end f) \<and> within_line (vtec_body f)"

definition vtec_decode :: "calendar \<Rightarrow> vtec_fields \<Rightarrow> vtec_code" where
  "vtec_decode cal f =
     \<lparr>vt_status = vf_status f, vt_status_description = vtec_status_description (vf_status f),
      vt_action = vf_action f, vt_action_description = vtec_action_description (vf_action f),
      vt_office = vf_office f, vt_phenomena = vf_phenomena f,
      vt_phenomena_description = vtec_phenomena_description (vf_phenomena f),
      vt_significance = vf_significance f,
      vt_significance_description = vtec_significance_description (vf_significance f),
      vt_etn = vf_etn f, vt_begin = vtec_time cal (vf_begin f), vt_end = vtec_time cal (vf_end f)\<rparr>"

lemma upper_not_special: "is_upper c \<Longrightarrow> c \<noteq> slash \<and> c \<noteq> CHR ''.''"
  by (auto simp: is_upper_def)

lemma digits_no_special: "c \<in> {slash, CHR ''.''} \<Longrightarrow> c \<notin> set (pad0 w (show_nat n))"
  using pad0_digits by (fastforce simp: is_digit_def)

lemma vtec_split:
  assumes "vtec_ok cal f"
  shows "split_char (CHR ''.'') (vtec_body f) =
    [[vf_status f], vf_action f, vf_office f, vf_phenomena f, [vf_significance f],
     pad0 4 (show_nat (unat (vf_etn f))), vf_begin f @ ''-'' @ vf_end f]"
  unfolding vtec_body_def
  by (rule split_char_join)
    (use assms digits_no_special [of "CHR ''.''"] upper_not_special [of "vf_status f"] in
      \<open>auto simp: vtec_ok_def time_ok_def disjoint_iff\<close>)

lemma vtec_time_parsed: "time_ok cal s \<Longrightarrow> parse_vtec_time_or_unspecified cal s code raw = Inr (vtec_time cal s)"
  by (auto simp: time_ok_def parse_vtec_time_or_unspecified_def vtec_time_def parse_vtec_time_def split: option.split)

interpretation vtec: slash_format is_vtec_candidate "parse_vtec_candidate cal" vtec_body "vtec_decode cal" "vtec_ok cal" for cal
proof (unfold_locales, goal_cases)
  case (1 f)
  then show ?case
    using digits_no_special [of slash] upper_not_special [of "vf_status f"]
    by (auto simp: vtec_body_def vtec_ok_def time_ok_def disjoint_iff)
next
  case (2 f)
  then show ?case by (simp add: is_vtec_candidate_def wrap_def vtec_body_def vtec_ok_def)
next
  case (3 f)
  have "split_once (CHR ''-'') (vf_begin f @ ''-'' @ vf_end f) = Some (vf_begin f, vf_end f)"
    using 3 split_once_append [of "CHR ''-''" "vf_begin f" "vf_end f"] by (auto simp: vtec_ok_def time_ok_def)
  moreover have "parse_u32 (pad0 4 (show_nat (unat (vf_etn f)))) = Some (vf_etn f)"
    using unat_bound [of "vf_etn f"] by (simp add: parse_u32_def parse_uint_pad0)
  moreover have "time_ok cal (vf_begin f)" "time_ok cal (vf_end f)" using 3 by (simp_all add: vtec_ok_def)
  ultimately show ?case
    by (simp add: parse_vtec_candidate_def vtec_split [OF 3] single_char_def vtec_decode_def vtec_time_parsed)
qed

section \<open>HVTEC in a bulletin\<close>

record hvtec_fields =
  hf_nwslid :: str
  hf_severity :: str
  hf_cause :: str
  hf_begin :: str
  hf_crest :: str
  hf_end :: str
  hf_record :: str

definition hvtec_body :: "hvtec_fields \<Rightarrow> str" where
  "hvtec_body f =
     join ''.'' [hf_nwslid f, hf_severity f, hf_cause f, hf_begin f, hf_crest f, hf_end f, hf_record f]"

definition hvtec_ok :: "calendar \<Rightarrow> hvtec_fields \<Rightarrow> bool" where
  "hvtec_ok cal f \<longleftrightarrow>
     is_valid_nwslid (hf_nwslid f) \<and> hf_severity f \<in> {''N'', ''0'', ''1'', ''2'', ''3'', ''U''} \<and>
     length (hf_cause f) = 2 \<and> list_all is_upper (hf_cause f) \<and>
     time_ok cal (hf_begin f) \<and> time_ok cal (hf_crest f) \<and> time_ok cal (hf_end f) \<and>
     set (hf_record f) \<inter> {slash, CHR ''.''} = {} \<and> within_line (hvtec_body f)"

definition hvtec_time :: "calendar \<Rightarrow> str \<Rightarrow> datetime option" where
  "hvtec_time cal s = (if s = ''000000T0000Z'' then None else cal_parse cal s)"

definition hvtec_decode :: "calendar \<Rightarrow> (str \<Rightarrow> 'l option) \<Rightarrow> hvtec_fields \<Rightarrow> 'l hvtec_code" where
  "hvtec_decode cal gauges f =
     \<lparr>hv_nwslid = hf_nwslid f, hv_location = gauges (hf_nwslid f), hv_severity = hvtec_severity_from_str (hf_severity f),
      hv_cause = hvtec_cause_from_str (hf_cause f), hv_begin = hvtec_time cal (hf_begin f),
      hv_crest = hvtec_time cal (hf_crest f), hv_end = hvtec_time cal (hf_end f),
      hv_record = hvtec_record_from_str (hf_record f)\<rparr>"

lemma alphanumeric_not_special: "is_alphanumeric c \<Longrightarrow> c \<noteq> slash \<and> c \<noteq> CHR ''.''"
  by (auto simp: is_alphanumeric_def is_digit_def is_upper_def is_lower_def)

lemma hvtec_no_special:
  assumes "hvtec_ok cal f" "c \<in> {slash, CHR ''.''}"
  shows "c \<notin> set (hf_nwslid f)" "c \<notin> set (hf_severity f)" "c \<notin> set (hf_cause f)" "c \<notin> set (hf_begin f)"
    "c \<notin> set (hf_crest f)" "c \<notin> set (hf_end f)" "c \<notin> set (hf_record f)"
proof -
  have f: "\<forall>d \<in> set (hf_nwslid f). is_alphanumeric d" "\<forall>d \<in> set (hf_cause f). is_upper d"
      "hf_severity f \<in> {''N'', ''0'', ''1'', ''2'', ''3'', ''U''}"
    using assms(1) by (auto simp: hvtec_ok_def is_valid_nwslid_def list_all_iff)
  show "c \<notin> set (hf_nwslid f)" using f(1) assms(2) alphanumeric_not_special by blast
  show "c \<notin> set (hf_cause f)" using f(2) assms(2) upper_not_special by blast
  show "c \<notin> set (hf_severity f)" using f(3) assms(2) by auto
  have t: "set (hf_begin f) \<inter> {slash, CHR ''.'', CHR ''-''} = {}" "set (hf_crest f) \<inter> {slash, CHR ''.'', CHR ''-''} = {}"
      "set (hf_end f) \<inter> {slash, CHR ''.'', CHR ''-''} = {}" "set (hf_record f) \<inter> {slash, CHR ''.''} = {}"
    using assms(1) by (simp_all add: hvtec_ok_def time_ok_def)
  have c: "c \<in> {slash, CHR ''.'', CHR ''-''}" using assms(2) by auto
  show "c \<notin> set (hf_begin f)" using t(1) c by (metis disjoint_iff)
  show "c \<notin> set (hf_crest f)" using t(2) c by (metis disjoint_iff)
  show "c \<notin> set (hf_end f)" using t(3) c by (metis disjoint_iff)
  show "c \<notin> set (hf_record f)" using t(4) assms(2) by (metis disjoint_iff)
qed

lemma hvtec_split:
  assumes "hvtec_ok cal f"
  shows "split_char (CHR ''.'') (hvtec_body f) =
    [hf_nwslid f, hf_severity f, hf_cause f, hf_begin f, hf_crest f, hf_end f, hf_record f]"
  unfolding hvtec_body_def
  by (rule split_char_join) (use hvtec_no_special [OF assms, of "CHR ''.''"] in auto)

lemma hvtec_time_parsed: "time_ok cal s \<Longrightarrow> parse_hvtec_optional_time cal s = Some (hvtec_time cal s)"
  by (auto simp: time_ok_def parse_hvtec_optional_time_def hvtec_time_def parse_hvtec_time_def)

interpretation hvtec: slash_format is_structurally_hvtec_candidate "parse_hvtec_candidate cal gauges" hvtec_body
  "hvtec_decode cal gauges" "hvtec_ok cal" for cal gauges
proof (unfold_locales, goal_cases)
  case (1 f)
  then show ?case using hvtec_no_special [of cal f slash] by (simp add: hvtec_body_def)
next
  case (2 f)
  then show ?case
    by (simp add: is_structurally_hvtec_candidate_def hvtec_split [OF 2]) (auto simp: hvtec_ok_def)
next
  case (3 f)
  then have "time_ok cal (hf_begin f)" "time_ok cal (hf_crest f)" "time_ok cal (hf_end f)"
    by (simp_all add: hvtec_ok_def)
  then show ?case
    by (simp add: parse_hvtec_candidate_def hvtec_split [OF 3] hvtec_time_parsed hvtec_decode_def)
qed

section \<open>Properties\<close>

definition sample_calendar :: calendar where
  "sample_calendar = month_calendar\<lparr>cal_year := \<lambda>t. 2025, cal_parse := \<lambda>s. if length s = 12 then Some 7 else None\<rparr>"

definition tornado :: vtec_fields where
  "tornado =
     \<lparr>vf_status = CHR ''O'', vf_action = ''NEW'', vf_office = ''KDMX'', vf_phenomena = ''TO'',
      vf_significance = CHR ''W'', vf_etn = 123, vf_begin = ''250301T1200Z'', vf_end = ''250301T1300Z''\<rparr>"

definition flood :: hvtec_fields where
  "flood =
     \<lparr>hf_nwslid = ''MSRM1'', hf_severity = ''3'', hf_cause = ''ER'', hf_begin = ''250301T1200Z'',
      hf_crest = ''000000T0000Z'', hf_end = ''250302T0000Z'', hf_record = ''NO''\<rparr>"

text \<open>
  C26.  VTEC codes are read back from a bulletin: for codes that each stand on one line, with text
  between them that has no slash and, put between slashes, does not itself look like the start of a
  code, the parser returns exactly the codes, in order and with the decoded fields, and reports no
  issue.
\<close>

theorem vtec_bulletin_parsed:
  assumes "\<forall>x \<in> set xs. slash \<notin> set (fst x) \<and> \<not> is_vtec_candidate (wrap (fst x)) \<and> vtec_ok cal (snd x)"
    "slash \<notin> set rest"
  shows "parse_vtec_codes_with_issues cal (concat (map (\<lambda>x. fst x @ wrap (vtec_body (snd x))) xs) @ rest) =
    (map (vtec_decode cal \<circ> snd) xs, [])"
proof -
  have "vtec.bulletin ys rest = concat (map (\<lambda>x. fst x @ wrap (vtec_body (snd x))) ys) @ rest" for ys
    by (induction ys) simp_all
  then show ?thesis
    using vtec.bulletin_parsed [of cal xs rest] assms
    by (simp add: parse_vtec_codes_with_issues_def find_vtec_candidates_def vtec.segments_ok_def)
qed

theorem vtec_bulletin_parsed_witness:
  "parse_vtec_codes_with_issues sample_calendar (''BULLETIN '' @ wrap (vtec_body tornado) @ '' END'') =
     ([vtec_decode sample_calendar tornado], [])"
proof -
  have "vtec_ok sample_calendar tornado"
    by (simp add: vtec_ok_def tornado_def time_ok_def sample_calendar_def is_upper_def within_line_def vtec_body_def)
      code_simp
  moreover have "\<not> is_vtec_candidate (wrap ''BULLETIN '')" by (simp add: is_vtec_candidate_def wrap_def)
  ultimately show ?thesis
    using vtec_bulletin_parsed [of "[(''BULLETIN '', tornado)]" sample_calendar "'' END''"] by simp
qed

text \<open>
  The candidates of the scanner are exactly the accepted texts between two consecutive slashes of
  the bulletin, in order.  Line breaks do not end a candidate: the text between two slashes is one
  candidate however many lines it spans.
\<close>

lemma scan_candidates_exact:
  "scan_slash_delimited_candidates p s = filter p (map wrap (butlast (tl (split_char slash s)))) \<and>
   scan_slash_delimited_candidates (\<lambda>c. True) (''/A'' @ [CHR 0x0A] @ ''B/'') = [''/A'' @ [CHR 0x0A] @ ''B/'']"
  using scan_slash_eq [of p s] by (simp add: scan_slash_eq [of "\<lambda>c. True"] wrap_def)

text \<open>
  C28.  HVTEC codes are read back from a bulletin under the same conditions (each code on one line,
  no slash in the text between them and no such text that is structurally a code), with severity,
  cause and record decoded and the gauge looked up by its identifier.
\<close>

theorem hvtec_bulletin_parsed:
  assumes "\<forall>x \<in> set xs. slash \<notin> set (fst x) \<and> \<not> is_structurally_hvtec_candidate (wrap (fst x)) \<and> hvtec_ok cal (snd x)"
    "slash \<notin> set rest"
  shows "parse_hvtec_codes_with_issues cal gauges (concat (map (\<lambda>x. fst x @ wrap (hvtec_body (snd x))) xs) @ rest) =
    (map (hvtec_decode cal gauges \<circ> snd) xs, [])"
proof -
  have "hvtec.bulletin ys rest = concat (map (\<lambda>x. fst x @ wrap (hvtec_body (snd x))) ys) @ rest" for ys
    by (induction ys) simp_all
  then show ?thesis
    using hvtec.bulletin_parsed [of cal xs rest gauges] assms
    by (simp add: parse_hvtec_codes_with_issues_def find_hvtec_candidates_def hvtec.segments_ok_def)
qed

theorem hvtec_bulletin_parsed_witness:
  "parse_hvtec_codes_with_issues sample_calendar (\<lambda>n. Some n) (wrap (hvtec_body flood) @ '' END'') =
     ([hvtec_decode sample_calendar (\<lambda>n. Some n) flood], [])"
proof -
  have "hvtec_ok sample_calendar flood"
    by (simp add: hvtec_ok_def flood_def time_ok_def sample_calendar_def is_valid_nwslid_def is_alphanumeric_def
        is_digit_def is_upper_def within_line_def hvtec_body_def)
  moreover have "\<not> is_structurally_hvtec_candidate (wrap [])"
    by (simp add: is_structurally_hvtec_candidate_def)
  ultimately show ?thesis
    using hvtec_bulletin_parsed [of "[([], flood)]" sample_calendar "'' END''"] by simp
qed

end
