(* ===== verification/Rust_Lines.thy ===== *)
theory Rust_Lines
  imports Rust_Str
begin

text \<open>
  Lines and words of a \<^verbatim>\<open>str\<close>: \<^verbatim>\<open>str::lines\<close> and \<^verbatim>\<open>str::split_whitespace\<close> as the parsers use them, and the
  bytes that trimming and splitting keep.
\<close>

section \<open>Lines\<close>

text \<open>A line ends with a line feed, or with a carriage return and a line feed; the last may have no end.\<close>

definition strip_cr :: "str \<Rightarrow> str" where
  "strip_cr l = (if suffix [CHR 0x0D] l then butlast l else l)"

definition text_lines :: "str \<Rightarrow> str list" where
  "text_lines s =
     (let ls = split_char (CHR 0x0A) s
      in map strip_cr (butlast ls) @ (if last ls = [] then [] else [last ls]))"

text \<open>Lines joined with a line feed, or with a carriage return and a line feed.\<close>

definition plain_line :: "str \<Rightarrow> bool" where
  "plain_line l \<longleftrightarrow> CHR 0x0A \<notin> set l \<and> (l = [] \<or> last l \<noteq> CHR 0x0D)"

definition unlines :: "str \<Rightarrow> str list \<Rightarrow> str" where
  "unlines eol ls = concat (map (\<lambda>l. l @ eol) ls)"

lemma split_char_unlines:
  assumes "\<forall>l \<in> set ls. CHR 0x0A \<notin> set l" "eol = [CHR 0x0A] \<or> eol = [CHR 0x0D, CHR 0x0A]"
  shows "split_char (CHR 0x0A) (unlines eol ls @ s) = map (\<lambda>l. l @ butlast eol) ls @ split_char (CHR 0x0A) s"
  using assms
  by (induction ls) (auto simp: unlines_def split_char_append split_char_append [of _ "_ @ [_]", simplified])

lemma strip_cr_plain:
  assumes "plain_line l" "eol = [CHR 0x0A] \<or> eol = [CHR 0x0D, CHR 0x0A]"
  shows "strip_cr (l @ butlast eol) = l"
  using assms by (cases l rule: rev_cases) (auto simp: strip_cr_def plain_line_def suffix_def butlast_append)

lemma text_lines_unlines_append:
  assumes "\<forall>l \<in> set ls. plain_line l" "eol = [CHR 0x0A] \<or> eol = [CHR 0x0D, CHR 0x0A]"
  shows "text_lines (unlines eol ls @ s) = ls @ text_lines s"
proof -
  have split: "split_char (CHR 0x0A) (unlines eol ls @ s) = map (\<lambda>l. l @ butlast eol) ls @ split_char (CHR 0x0A) s"
    using assms by (intro split_char_unlines) (auto simp: plain_line_def)
  have "map strip_cr (map (\<lambda>l. l @ butlast eol) ls) = ls"
    using assms strip_cr_plain by (simp add: map_idI)
  then show ?thesis by (simp add: text_lines_def split Let_def butlast_append)
qed

lemma text_lines_Nil [simp]: "text_lines [] = []"
  by (simp add: text_lines_def)

lemma text_lines_unlines:
  "\<forall>l \<in> set ls. plain_line l \<Longrightarrow> eol = [CHR 0x0A] \<or> eol = [CHR 0x0D, CHR 0x0A] \<Longrightarrow> text_lines (unlines eol ls) = ls"
  using text_lines_unlines_append [of ls eol "[]"] by simp

section \<open>Words\<close>

text \<open>The first word of a text that does not start with white space.\<close>

fun first_word :: "str \<Rightarrow> str" where
  "first_word [] = []"
| "first_word [a] = (if ws1 a then [] else [a])"
| "first_word [a, b] = (if ws1 a \<or> ws2 a b then [] else a # first_word [b])"
| "first_word (a # b # c # xs) = (if ws1 a \<or> ws2 a b \<or> ws3 a b c then [] else a # first_word (b # c # xs))"

lemma first_word_trimmed: "trim_start s \<noteq> [] \<Longrightarrow> first_word (trim_start s) \<noteq> []"
  by (induction s rule: trim_start.induct) (auto split: if_splits)

lemma length_trim_start: "length (trim_start s) \<le> length s"
  by (rule suffix_length_le) (rule suffix_trim_start)

function split_whitespace :: "str \<Rightarrow> str list" where
  "split_whitespace s =
     (let t = trim_start s in
      if t = [] then [] else first_word t # split_whitespace (drop (length (first_word t)) t))"
  by pat_completeness auto
termination
proof (relation "measure length", goal_cases)
  case (2 s t)
  then have "first_word t \<noteq> []" "length t \<le> length s" using first_word_trimmed length_trim_start by simp_all
  with 2 show ?case by (auto simp: length_greater_0_conv [symmetric] simp del: length_greater_0_conv)
qed simp

declare split_whitespace.simps [simp del]

text \<open>Words without white-space bytes, separated by spaces.\<close>

definition word_char :: "char \<Rightarrow> bool" where
  "word_char c \<longleftrightarrow> \<not> ws_lead c"

lemma first_word_append: "\<forall>c \<in> set w. word_char c \<Longrightarrow> first_word (w @ CHR '' '' # s) = w"
proof (induction w)
  case Nil
  then show ?case by (cases "CHR '' '' # s" rule: first_word.cases) (simp_all add: ws1_def)
next
  case (Cons a w)
  then have a: "\<not> ws1 a" "\<not> ws2 a b" "\<not> ws3 a b c" for b c
    by (auto simp: word_char_def ws_lead_def ws2_def ws3_def Let_def)
  have "first_word (a # x # xs) = a # first_word (x # xs)" for x xs
    using a by (cases xs) simp_all
  moreover obtain x xs where "w @ CHR '' '' # s = x # xs" by (cases "w @ CHR '' '' # s") auto
  ultimately show ?case using Cons by simp
qed

lemma first_word_plain: "\<forall>c \<in> set w. word_char c \<Longrightarrow> first_word w = w"
proof (induction w rule: first_word.induct)
  case (4 a b c xs)
  then show ?case by (auto simp: word_char_def ws_lead_def ws2_def ws3_def Let_def)
qed (auto simp: word_char_def ws_lead_def ws2_def)

definition spaces :: "nat \<Rightarrow> str" where
  "spaces n = replicate n CHR '' ''"

lemma trim_start_spaces: "trim_start (spaces n @ s) = trim_start s"
  by (induction n) (simp_all add: spaces_def trim_start_ws1 ws1_def)

lemma split_whitespace_spaces: "split_whitespace (spaces n @ s) = split_whitespace s"
  using trim_start_spaces [of n s] by (subst (1 2) split_whitespace.simps) simp

lemma split_whitespace_Nil [simp]: "split_whitespace [] = []"
  by (simp add: split_whitespace.simps)

lemma split_whitespace_word:
  assumes "w \<noteq> []" "\<forall>c \<in> set w. word_char c"
  shows "split_whitespace (w @ spaces (Suc n) @ s) = w # split_whitespace s"
    "split_whitespace w = [w]"
proof -
  have t: "trim_start (w @ x) = w @ x" for x
    using assms by (intro trim_start_keep) (cases w, auto simp: word_char_def)
  have "first_word (w @ spaces (Suc n) @ s) = w"
    using first_word_append [OF assms(2), of "spaces n @ s"] by (simp add: spaces_def)
  then have "split_whitespace (w @ spaces (Suc n) @ s) = w # split_whitespace (spaces (Suc n) @ s)"
    using t [of "spaces (Suc n) @ s"] assms(1) by (subst split_whitespace.simps) simp
  then show "split_whitespace (w @ spaces (Suc n) @ s) = w # split_whitespace s"
    by (simp only: split_whitespace_spaces)
  show "split_whitespace w = [w]"
    using t [of "[]"] assms first_word_plain [OF assms(2)] by (subst split_whitespace.simps) simp
qed

section \<open>What splitting and trimming keep\<close>

lemma set_trim_start: "set (trim_start s) \<subseteq> set s"
  by (rule set_mono_suffix) (rule suffix_trim_start)

lemma set_trim: "set (trim s) \<subseteq> set s"
  using set_mono_prefix [OF prefix_trim_end [of "trim_start s"]] set_trim_start [of s] by (auto simp: trim_def)

lemma set_split_char: "x \<in> set (split_char c s) \<Longrightarrow> set x \<subseteq> set s"
proof (induction s arbitrary: x)
  case (Cons a s)
  then show ?case by (cases "split_char c s") (fastforce split: if_splits)+
qed simp

lemma split_char_lines: "l \<in> set (split_char c s) \<Longrightarrow> c \<notin> set l"
proof (induction s arbitrary: l)
  case (Cons a s)
  then show ?case by (cases "split_char c s") (auto split: if_splits)
qed simp

lemma text_lines_from: "l \<in> set (text_lines s) \<Longrightarrow> \<exists>k \<in> set (split_char (CHR 0x0A) s). set l \<subseteq> set k"
  by (auto simp: text_lines_def strip_cr_def Let_def split: if_splits dest!: in_set_butlastD)

lemma is_ascii_mono: "set t \<subseteq> set s \<Longrightarrow> is_ascii s \<Longrightarrow> is_ascii t"
  by (auto simp: is_ascii_def)

lemma trim_end_matches_set: "set (trim_end_matches p s) \<subseteq> set s"
  by (auto simp: trim_end_matches_def dest: set_dropWhileD)

end
