(* ===== verification/Parser_Ugc.thy ===== *)
theory Parser_Ugc
  imports Parser_Time Rust_Lines "HOL-Library.Char_ord" "HOL-Library.List_Lexorder" "HOL-Library.Multiset"
begin

text \<open>
  The parser of UGC sections (emwin-parser/src/body/ugc.rs): candidate lines, the expansion of state
  prefixes, shorthand numbers and ranges, and the grouping into counties, zones, fire and marine zones.
  Slices by byte position are modelled with their panics.  The catalogues of counties and zones are
  parameters; a number of type \<^verbatim>\<open>f64\<close> in them is a type parameter.
\<close>

section \<open>Codes and sections\<close>

datatype ugc_class = County | Zone | FireZone | Marine | UnknownClass

definition class_from_char :: "char \<Rightarrow> ugc_class" where
  "class_from_char c =
     (if c = CHR ''C'' then County else if c = CHR ''Z'' then Zone else if c = CHR ''F'' then FireZone
      else if c = CHR ''M'' then Marine else UnknownClass)"

fun class_as_char :: "ugc_class \<Rightarrow> char" where
  "class_as_char County = CHR ''C''"
| "class_as_char Zone = CHR ''Z''"
| "class_as_char FireZone = CHR ''F''"
| "class_as_char Marine = CHR ''M''"
| "class_as_char UnknownClass = CHR ''Z''"

record ugc_code =
  uc_state :: str
  uc_geoclass :: ugc_class
  uc_number :: u16

record 'f ugc_location =
  ul_name :: str
  ul_latitude :: 'f
  ul_longitude :: 'f

record 'f ugc_area =
  ua_id :: u16
  ua_name :: "str option"
  ua_lat :: "'f option"
  ua_lon :: "'f option"

type_synonym 'f bucket = "(str \<times> 'f ugc_area list) list"

record 'f ugc_section =
  us_counties :: "'f bucket"
  us_zones :: "'f bucket"
  us_fire_zones :: "'f bucket"
  us_marine_zones :: "'f bucket"
  us_expires :: datetime

record 'f catalog =
  ct_county :: "str \<Rightarrow> 'f ugc_location option"
  ct_zone :: "str \<Rightarrow> 'f ugc_location option"

definition build_area :: "ugc_code \<Rightarrow> (str \<Rightarrow> 'f ugc_location option) option \<Rightarrow> 'f ugc_area" where
  "build_area code lookup =
     (let canonical = uc_state code @ [class_as_char (uc_geoclass code)] @ pad0 3 (show_nat (unat (uc_number code)));
          entry = (case lookup of None \<Rightarrow> None | Some l \<Rightarrow> l canonical)
      in \<lparr>ua_id = uc_number code, ua_name = map_option ul_name entry, ua_lat = map_option ul_latitude entry,
          ua_lon = map_option ul_longitude entry\<rparr>)"

definition is_marine_zone_state :: "str \<Rightarrow> bool" where
  "is_marine_zone_state state \<longleftrightarrow>
     state \<in> {''AM'', ''AN'', ''GM'', ''LC'', ''LE'', ''LH'', ''LM'', ''LO'', ''LS'', ''PH'', ''PK'', ''PM'', ''PS'', ''PZ'', ''SL''}"

text \<open>\<^verbatim>\<open>entry(key).or_insert_with(Vec::new).push(area)\<close> on the ordered map.\<close>

fun bucket_push :: "str \<Rightarrow> 'f ugc_area \<Rightarrow> 'f bucket \<Rightarrow> 'f bucket" where
  "bucket_push k a [] = [(k, [a])]"
| "bucket_push k a ((k', as) # m) =
     (if k = k' then (k', as @ [a]) # m else if k < k' then (k, [a]) # (k', as) # m else (k', as) # bucket_push k a m)"

definition add_code :: "'f catalog \<Rightarrow> 'f ugc_section \<Rightarrow> ugc_code \<Rightarrow> 'f ugc_section" where
  "add_code cat s code =
     (case uc_geoclass code of
        County \<Rightarrow> s\<lparr>us_counties := bucket_push (uc_state code) (build_area code (Some (ct_county cat))) (us_counties s)\<rparr>
      | FireZone \<Rightarrow> s\<lparr>us_fire_zones := bucket_push (uc_state code) (build_area code None) (us_fire_zones s)\<rparr>
      | Marine \<Rightarrow> s\<lparr>us_marine_zones := bucket_push (uc_state code) (build_area code None) (us_marine_zones s)\<rparr>
      | _ \<Rightarrow>
          (let area = build_area code (Some (ct_zone cat)) in
           if is_marine_zone_state (uc_state code)
           then s\<lparr>us_marine_zones := bucket_push (uc_state code) area (us_marine_zones s)\<rparr>
           else s\<lparr>us_zones := bucket_push (uc_state code) area (us_zones s)\<rparr>))"

definition section_from_codes :: "'f catalog \<Rightarrow> ugc_code list \<Rightarrow> datetime \<Rightarrow> 'f ugc_section" where
  "section_from_codes cat codes expires =
     foldl (add_code cat)
       \<lparr>us_counties = [], us_zones = [], us_fire_zones = [], us_marine_zones = [], us_expires = expires\<rparr> codes"

section \<open>Candidate lines\<close>

text \<open>The text without white-space characters.\<close>

fun compact_ugc_text :: "str \<Rightarrow> str" where
  "compact_ugc_text [] = []"
| "compact_ugc_text [a] = (if ws1 a then [] else [a])"
| "compact_ugc_text [a, b] =
     (if ws1 a then compact_ugc_text [b] else if ws2 a b then [] else a # compact_ugc_text [b])"
| "compact_ugc_text (a # b # c # xs) =
     (if ws1 a then compact_ugc_text (b # c # xs)
      else if ws2 a b then compact_ugc_text (c # xs)
      else if ws3 a b c then compact_ugc_text xs
      else a # compact_ugc_text (b # c # xs))"

text \<open>The lines, with every carriage return at their end removed.\<close>

definition iter_candidate_lines :: "str \<Rightarrow> str list" where
  "iter_candidate_lines s = map (trim_end_matches (\<lambda>c. c = CHR 0x0D)) (text_lines s)"

definition is_ugc_start :: "str \<Rightarrow> bool" where
  "is_ugc_start line \<longleftrightarrow>
     (let t = trim_start line in
      6 \<le> length t \<and> is_upper (t ! 0) \<and> is_upper (t ! 1) \<and>
      t ! 2 \<in> {CHR ''C'', CHR ''Z'', CHR ''F'', CHR ''M''} \<and>
      is_digit (t ! 3) \<and> is_digit (t ! 4) \<and> is_digit (t ! 5) \<and>
      (length t = 6 \<or> t ! 6 \<in> {CHR ''-'', CHR ''>'', CHR '','', CHR '' '', CHR 0x09}))"

definition has_ugc_expiration_suffix :: "str \<Rightarrow> bool rust" where
  "has_ugc_expiration_suffix s =
     (if 8 \<le> length s \<and> last s = CHR ''-''
      then rbind (slice s (length s - 7) (length s - 1))
             (\<lambda>digits. Ret (list_all is_digit digits \<and> s ! (length s - 8) = CHR ''-''))
      else Ret False)"

definition starts_new_section_header :: "str \<Rightarrow> bool" where
  "starts_new_section_header line \<longleftrightarrow>
     (let t = trim line in
      t \<noteq> [] \<and>
      (last t = CHR '':'' \<or> find_sub ''...'' t \<noteq> None \<or>
       (let w = first_word t in
        \<not> is_ugc_start t \<and> 4 \<le> length w \<and> is_upper (hd w) \<and>
        list_all (\<lambda>c. is_upper c \<or> is_digit c \<or> c = CHR ''/'' \<or> c = CHR ''-'') w)))"

fun collect_ugc_candidate :: "str \<Rightarrow> str list \<Rightarrow> (str option \<times> str list) rust" where
  "collect_ugc_candidate combined lines =
     rbind (has_ugc_expiration_suffix combined) (\<lambda>complete.
       if complete then Ret (Some combined, lines)
       else case lines of
           [] \<Rightarrow> Ret (None, [])
         | next_line # rest \<Rightarrow>
             (let next_text = trim next_line in
              if next_text = [] \<or> starts_new_section_header next_text then Ret (None, lines)
              else collect_ugc_candidate (combined @ compact_ugc_text next_text) rest))"

declare collect_ugc_candidate.simps [simp del]

lemma collect_rest_length: "collect_ugc_candidate c lines = Ret (r, rest) \<Longrightarrow> length rest \<le> length lines"
proof (induction lines arbitrary: c r rest)
  case Nil
  then show ?case by (auto simp: collect_ugc_candidate.simps split: if_splits)
next
  case (Cons l ls)
  from Cons.prems show ?case
    by (subst (asm) collect_ugc_candidate.simps) (auto simp: Let_def split: if_splits dest: Cons.IH)
qed

function extract_ugc_candidates :: "str list \<Rightarrow> str list rust" where
  "extract_ugc_candidates [] = Ret []"
| "extract_ugc_candidates (line # lines) =
     (if \<not> is_ugc_start line then extract_ugc_candidates lines
      else case collect_ugc_candidate (compact_ugc_text line) lines of
          Panic \<Rightarrow> Panic
        | Ret (candidate, rest) \<Rightarrow>
            (case extract_ugc_candidates rest of
               Panic \<Rightarrow> Panic
             | Ret others \<Rightarrow> Ret ((case candidate of Some c \<Rightarrow> [c] | None \<Rightarrow> []) @ others)))"
  by pat_completeness auto
termination
  by (relation "measure length") (auto dest!: sym [of "Ret _"] collect_rest_length)

section \<open>Numbers and ranges\<close>

definition is_three_digit_ugc_token :: "str \<Rightarrow> bool" where
  "is_three_digit_ugc_token token \<longleftrightarrow> length token = 3 \<and> list_all is_digit token"

definition is_one_to_three_digit_ugc_token :: "str \<Rightarrow> bool" where
  "is_one_to_three_digit_ugc_token token \<longleftrightarrow> 1 \<le> length token \<and> length token \<le> 3 \<and> list_all is_digit token"

definition parse_ugc_number :: "str \<Rightarrow> u16 option" where
  "parse_ugc_number s = (if is_three_digit_ugc_token s then parse_u16 s else None)"

definition parse_ugc_range_end :: "u16 \<Rightarrow> str \<Rightarrow> u16 option" where
  "parse_ugc_range_end start token =
     (if \<not> is_one_to_three_digit_ugc_token token then None
      else if length token = 3
      then (case parse_ugc_number token of
              None \<Rightarrow> None | Some e \<Rightarrow> if e \<ge> start then Some e else None)
      else case parse_u16 token of
          None \<Rightarrow> None
        | Some sfx \<Rightarrow>
            (let magnitude = 10 ^ length token; pre = (start div magnitude) * magnitude; e = pre + sfx
             in if e \<ge> start then Some e else None))"

definition is_ugc_numeric_sequence :: "str \<Rightarrow> bool" where
  "is_ugc_numeric_sequence segment \<longleftrightarrow>
     (let tokens = split_char (CHR ''>'') segment in
      is_three_digit_ugc_token (hd tokens) \<and>
      (length tokens = 1 \<or>
       (if length tokens = 2 then is_one_to_three_digit_ugc_token (tokens ! 1)
        else even (length tokens) \<and> list_all is_one_to_three_digit_ugc_token (tl tokens))))"

fun range_pairs :: "str list \<Rightarrow> (u16 \<times> u16) list option" where
  "range_pairs (a # b # rest) =
     (case parse_ugc_number a of
        None \<Rightarrow> None
      | Some start \<Rightarrow>
          (case parse_ugc_range_end start b of
             None \<Rightarrow> None
           | Some e \<Rightarrow> map_option ((#) (start, e)) (range_pairs rest)))"
| "range_pairs rest = Some []"

definition parse_ugc_numeric_ranges :: "str \<Rightarrow> (u16 \<times> u16) list option" where
  "parse_ugc_numeric_ranges numeric =
     (let tokens = split_char (CHR ''>'') numeric in
      case parse_ugc_number (hd tokens) of
        None \<Rightarrow> None
      | Some first \<Rightarrow>
          if length tokens = 1 then Some [(first, first)]
          else if length tokens = 2
          then map_option (\<lambda>e. [(first, e)]) (parse_ugc_range_end first (tokens ! 1))
          else if odd (length tokens) then None
          else range_pairs tokens)"

definition parse_full_ugc_segment :: "str \<Rightarrow> (str \<times> ugc_class \<times> str) option rust" where
  "parse_full_ugc_segment segment =
     (if length segment < 6 then Ret None
      else rbind (slice segment 0 2) (\<lambda>state.
        let geoclass = segment ! 2 in
        if \<not> list_all is_upper state then Ret None
        else if geoclass \<notin> {CHR ''C'', CHR ''Z'', CHR ''F'', CHR ''M''} then Ret None
        else rbind (slice segment 3 (length segment)) (\<lambda>numeric.
          Ret (if is_ugc_numeric_sequence numeric then Some (state, class_from_char geoclass, numeric) else None))))"

type_synonym ugc_prefix = "(str \<times> ugc_class) option"

definition range_codes :: "str \<Rightarrow> ugc_class \<Rightarrow> u16 \<times> u16 \<Rightarrow> ugc_code list" where
  "range_codes state geoclass r =
     map (\<lambda>n. \<lparr>uc_state = state, uc_geoclass = geoclass, uc_number = word_of_nat n\<rparr>)
       [unat (fst r) ..< Suc (unat (snd r))]"

definition parse_ugc_segment :: "str \<Rightarrow> ugc_prefix \<Rightarrow> (ugc_prefix \<times> ugc_code list option) rust" where
  "parse_ugc_segment segment current_prefix =
     rbind (parse_full_ugc_segment segment) (\<lambda>full.
       let target =
         (case full of
            Some (state, geoclass, numeric) \<Rightarrow> Some ((state, geoclass), numeric)
          | None \<Rightarrow>
              if is_ugc_numeric_sequence segment
              then (case current_prefix of Some p \<Rightarrow> Some (p, segment) | None \<Rightarrow> None)
              else None)
       in case target of
            None \<Rightarrow> Ret (current_prefix, None)
          | Some ((state, geoclass), numeric) \<Rightarrow>
              Ret (Some (state, geoclass),
                   map_option (\<lambda>rs. concat (map (range_codes state geoclass) rs)) (parse_ugc_numeric_ranges numeric)))"

text \<open>\<^verbatim>\<open>split([',', '-'])\<close>.\<close>

fun split_any :: "(char \<Rightarrow> bool) \<Rightarrow> str \<Rightarrow> str list" where
  "split_any p [] = [[]]"
| "split_any p (x # xs) =
     (if p x then [] # split_any p xs
      else case split_any p xs of [] \<Rightarrow> [[x]] | y # ys \<Rightarrow> (x # y) # ys)"

fun expand_segments :: "str list \<Rightarrow> ugc_prefix \<Rightarrow> ugc_code list option rust" where
  "expand_segments [] pre = Ret (Some [])"
| "expand_segments (segment # rest) pre =
     (if segment = [] then expand_segments rest pre
      else rbind (parse_ugc_segment (trim segment) pre) (\<lambda>(pre', parsed).
        case parsed of
          None \<Rightarrow> Ret None
        | Some codes \<Rightarrow> rbind (expand_segments rest pre') (\<lambda>others. Ret (map_option ((@) codes) others))))"

definition expand_ugc_block :: "str \<Rightarrow> ugc_code list option rust" where
  "expand_ugc_block block =
     rbind (expand_segments (split_any (\<lambda>c. c = CHR '','' \<or> c = CHR ''-'') block) None) (\<lambda>codes.
       Ret (case codes of Some [] \<Rightarrow> None | _ \<Rightarrow> codes))"

section \<open>Sections\<close>

definition extract_expiration :: "str \<Rightarrow> (str \<times> str) option rust" where
  "extract_expiration s =
     rbind (has_ugc_expiration_suffix s) (\<lambda>complete.
       if \<not> complete then Ret None
       else rbind (slice s 0 (length s - 8)) (\<lambda>code_block.
         rbind (slice s (length s - 8 + 1) (length s - 1)) (\<lambda>expire_code. Ret (Some (code_block, expire_code)))))"

definition parse_expire_time :: "calendar \<Rightarrow> str \<Rightarrow> datetime \<Rightarrow> datetime option rust" where
  "parse_expire_time cal expire_code valid_time =
     (if length expire_code \<noteq> 6 then Ret None
      else rbind (slice expire_code 0 2) (\<lambda>d. case parse_u32 d of None \<Rightarrow> Ret None | Some day \<Rightarrow>
        rbind (slice expire_code 2 4) (\<lambda>h. case parse_u32 h of None \<Rightarrow> Ret None | Some hour \<Rightarrow>
          rbind (slice expire_code 4 6) (\<lambda>m. case parse_u32 m of None \<Rightarrow> Ret None | Some minute \<Rightarrow>
            Ret (resolve_day_time_not_before cal valid_time (unat day) (unat hour) (unat minute))))))"

definition ugc_issue :: "str \<Rightarrow> str \<Rightarrow> str \<Rightarrow> parse_issue" where
  "ugc_issue code what s = issue_new ''ugc_parse'' code (what @ ''`'' @ s @ ''`'') (Some s)"

definition parse_ugc_capture :: "calendar \<Rightarrow> 'f catalog \<Rightarrow> datetime \<Rightarrow> str \<Rightarrow> (parse_issue + 'f ugc_section) rust" where
  "parse_ugc_capture cal cat valid_time s =
     rbind (extract_expiration s) (\<lambda>e. case e of
       None \<Rightarrow> Ret (Inl (ugc_issue ''invalid_ugc_format'' ''could not parse UGC section: '' s))
     | Some (code_block, expire_code) \<Rightarrow>
         rbind (expand_ugc_block code_block) (\<lambda>c. case c of
           None \<Rightarrow> Ret (Inl (ugc_issue ''invalid_ugc_codes'' ''could not parse UGC codes from section: '' s))
         | Some codes \<Rightarrow>
             rbind (parse_expire_time cal expire_code valid_time) (\<lambda>x. case x of
               None \<Rightarrow> Ret (Inl (ugc_issue ''invalid_ugc_expiration'' ''could not parse UGC expiration from section: '' s))
             | Some expires \<Rightarrow> Ret (Inr (section_from_codes cat codes expires)))))"

fun parse_captures :: "calendar \<Rightarrow> 'f catalog \<Rightarrow> datetime \<Rightarrow> str list \<Rightarrow> ('f ugc_section list \<times> parse_issue list) rust" where
  "parse_captures cal cat valid_time [] = Ret ([], [])"
| "parse_captures cal cat valid_time (s # ss) =
     rbind (parse_ugc_capture cal cat valid_time s) (\<lambda>r.
       rbind (parse_captures cal cat valid_time ss) (\<lambda>(sections, issues).
         Ret (case r of Inr sec \<Rightarrow> (sec # sections, issues) | Inl i \<Rightarrow> (sections, i # issues))))"

definition parse_ugc_sections_with_issues :: "calendar \<Rightarrow> 'f catalog \<Rightarrow> str \<Rightarrow> datetime \<Rightarrow>
    ('f ugc_section list \<times> parse_issue list) rust" where
  "parse_ugc_sections_with_issues cal cat bulletin valid_time =
     rbind (extract_ugc_candidates (iter_candidate_lines bulletin)) (parse_captures cal cat valid_time)"

definition parse_ugc_sections :: "calendar \<Rightarrow> 'f catalog \<Rightarrow> str \<Rightarrow> datetime \<Rightarrow> 'f ugc_section list rust" where
  "parse_ugc_sections cal cat bulletin valid_time =
     rbind (parse_ugc_sections_with_issues cal cat bulletin valid_time) (\<lambda>r. Ret (fst r))"

section \<open>ASCII texts never panic\<close>

lemma set_compact: "set (compact_ugc_text s) \<subseteq> set s"
  by (induction s rule: compact_ugc_text.induct) auto

lemma set_split_any: "x \<in> set (split_any p s) \<Longrightarrow> set x \<subseteq> set s"
proof (induction s arbitrary: x)
  case (Cons a s)
  then show ?case by (cases "split_any p s") (fastforce split: if_splits)+
qed simp

lemmas ascii_compact = is_ascii_mono [OF set_compact]
  and ascii_trim = is_ascii_mono [OF set_trim]

lemma ascii_candidate_lines: "is_ascii s \<Longrightarrow> l \<in> set (iter_candidate_lines s) \<Longrightarrow> is_ascii l"
proof -
  assume a: "is_ascii s" and l: "l \<in> set (iter_candidate_lines s)"
  then obtain l' where l': "l' \<in> set (text_lines s)" "set l \<subseteq> set l'"
    using trim_end_matches_set by (auto simp: iter_candidate_lines_def)
  with text_lines_from [OF l'(1)] obtain k where k: "k \<in> set (split_char (CHR 0x0A) s)" and sub: "set l \<subseteq> set k" by blast
  from is_ascii_mono [OF subset_trans [OF sub set_split_char [OF k]] a] show ?thesis .
qed

lemma suffix_ascii: "is_ascii s \<Longrightarrow> \<exists>b. has_ugc_expiration_suffix s = Ret b"
  by (auto simp: has_ugc_expiration_suffix_def slice_ascii)

lemma collect_ascii:
  "is_ascii c \<Longrightarrow> \<forall>l \<in> set lines. is_ascii l \<Longrightarrow>
    \<exists>r rest. collect_ugc_candidate c lines = Ret (r, rest) \<and> (\<forall>x. r = Some x \<longrightarrow> is_ascii x) \<and> set rest \<subseteq> set lines"
proof (induction lines arbitrary: c)
  case Nil
  obtain b where "has_ugc_expiration_suffix c = Ret b" using suffix_ascii Nil(1) by blast
  then have "collect_ugc_candidate c [] = Ret (if b then Some c else None, [])"
    by (subst collect_ugc_candidate.simps) simp
  with Nil(1) show ?case by simp
next
  case (Cons l ls)
  have "is_ascii (c @ compact_ugc_text (trim l))" using Cons.prems by (simp add: ascii_compact ascii_trim)
  then obtain r rest where ih: "collect_ugc_candidate (c @ compact_ugc_text (trim l)) ls = Ret (r, rest)"
      "\<forall>x. r = Some x \<longrightarrow> is_ascii x" "set rest \<subseteq> set ls"
    using Cons.IH Cons.prems by (metis list.set_intros(2))
  obtain b where b: "has_ugc_expiration_suffix c = Ret b" using suffix_ascii Cons.prems(1) by blast
  have "collect_ugc_candidate c (l # ls) =
      (if b then Ret (Some c, l # ls)
       else if trim l = [] \<or> starts_new_section_header (trim l) then Ret (None, l # ls) else Ret (r, rest))"
    by (subst collect_ugc_candidate.simps) (simp add: b ih Let_def)
  with ih(2,3) Cons.prems(1) show ?case by (auto split: if_splits)
qed

lemma extract_ascii:
  "\<forall>l \<in> set lines. is_ascii l \<Longrightarrow> \<exists>cs. extract_ugc_candidates lines = Ret cs \<and> (\<forall>c \<in> set cs. is_ascii c)"
proof (induction lines rule: extract_ugc_candidates.induct)
  case (2 line lines)
  show ?case
  proof (cases "is_ugc_start line")
    case True
    obtain r rest where c: "collect_ugc_candidate (compact_ugc_text line) lines = Ret (r, rest)"
        "\<forall>x. r = Some x \<longrightarrow> is_ascii x" "set rest \<subseteq> set lines"
      using collect_ascii [of "compact_ugc_text line" lines] 2(3) ascii_compact by auto
    moreover have "\<forall>l \<in> set rest. is_ascii l" using c(3) 2(3) by auto
    then obtain cs where "extract_ugc_candidates rest = Ret cs" "\<forall>c \<in> set cs. is_ascii c"
      using 2(2) [of "(r, rest)" r rest] True c(1) by auto
    ultimately show ?thesis using True by (cases r) auto
  qed (use 2 in simp)
qed simp

lemma rbind_Panic: "rbind r f = Panic \<longleftrightarrow> r = Panic \<or> (\<exists>x. r = Ret x \<and> f x = Panic)"
  by (cases r) simp_all

lemma full_segment_ascii: "is_ascii s \<Longrightarrow> parse_full_ugc_segment s \<noteq> Panic"
  by (auto simp: parse_full_ugc_segment_def slice_ascii Let_def)

lemma segment_ascii: "is_ascii s \<Longrightarrow> parse_ugc_segment s pre \<noteq> Panic"
  using full_segment_ascii [of s]
  by (auto simp: parse_ugc_segment_def rbind_Panic Let_def split: option.splits)

lemma expand_ascii: "\<forall>s \<in> set ss. is_ascii s \<Longrightarrow> expand_segments ss pre \<noteq> Panic"
proof (induction ss arbitrary: pre)
  case (Cons s ss)
  then show ?case using segment_ascii [of "trim s" pre] ascii_trim [of s]
    by (auto simp: rbind_Panic split: option.splits)
qed simp

lemma block_ascii: "is_ascii s \<Longrightarrow> expand_ugc_block s \<noteq> Panic"
  using expand_ascii [of "split_any (\<lambda>c. c = CHR '','' \<or> c = CHR ''-'') s" None] is_ascii_mono [OF set_split_any]
  by (auto simp: expand_ugc_block_def rbind_Panic)

lemma expire_time_ascii: "is_ascii s \<Longrightarrow> parse_expire_time cal s vt \<noteq> Panic"
  by (auto simp: parse_expire_time_def slice_ascii split: option.splits)

lemma expiration_ascii:
  "is_ascii s \<Longrightarrow> extract_expiration s = Ret None \<or>
    (\<exists>x y. extract_expiration s = Ret (Some (x, y)) \<and> is_ascii x \<and> is_ascii y)"
proof -
  assume a: "is_ascii s"
  then obtain b where b: "has_ugc_expiration_suffix s = Ret b" using suffix_ascii by blast
  show ?thesis
  proof (cases b)
    case True
    with b have "8 \<le> length s" by (simp add: has_ugc_expiration_suffix_def split: if_splits)
    with a b True show ?thesis by (simp add: extract_expiration_def slice_ascii)
  qed (use b in \<open>simp add: extract_expiration_def\<close>)
qed

lemma capture_ascii: "is_ascii s \<Longrightarrow> parse_ugc_capture cal cat vt s \<noteq> Panic"
  using expiration_ascii [of s] block_ascii expire_time_ascii [of _ cal vt]
  by (auto simp: parse_ugc_capture_def rbind_Panic split: option.splits)

lemma captures_ascii: "\<forall>s \<in> set ss. is_ascii s \<Longrightarrow> parse_captures cal cat vt ss \<noteq> Panic"
  by (induction ss) (auto simp: rbind_Panic capture_ascii)

lemma sections_ascii: "is_ascii s \<Longrightarrow> parse_ugc_sections_with_issues cal cat s vt \<noteq> Panic"
  using extract_ascii [of "iter_candidate_lines s"] ascii_candidate_lines [of s] captures_ascii [of _ cal cat vt]
  by (auto simp: parse_ugc_sections_with_issues_def rbind_Panic)

section \<open>Well-formed sections\<close>

lemma digit_val_le: "is_digit c \<Longrightarrow> digit_val c \<le> 9"
  by (auto simp: is_digit_def digit_val_def Let_def)

lemma digits_acc_bound: "digits_acc n s = Some m \<Longrightarrow> m < (n + 1) * 10 ^ length s"
proof (induction s arbitrary: n)
  case (Cons c s)
  then have d: "is_digit c" and m: "m < (10 * n + digit_val c + 1) * 10 ^ length s" by (auto split: if_splits)
  have "(10 * n + digit_val c + 1) * 10 ^ length s \<le> (10 * n + 10) * 10 ^ length s"
    using digit_val_le [OF d] by (intro mult_le_mono1) simp
  with m have "m < (10 * n + 10) * 10 ^ length s" by (rule less_le_trans)
  then show ?case by (simp add: algebra_simps)
qed simp

lemma parse_u16_bound:
  assumes "parse_u16 s = Some w" "list_all is_digit s"
  shows "unat w < 10 ^ length s"
proof -
  obtain n where n: "parse_uint (2 ^ 16) s = Some n" "w = of_nat n" using assms(1) by (auto simp: parse_u16_def)
  then have "s \<noteq> []" by (auto simp: parse_uint_def)
  with n(1) assms(2) have "digits_acc 0 s = Some n" "n < 2 ^ 16"
    by (auto simp: parse_uint_digits list_all_iff split: option.splits if_splits)
  with n(2) digits_acc_bound [of 0 s n] show ?thesis by (simp add: unat_of_nat)
qed

lemma parse_ugc_number_bound: "parse_ugc_number s = Some n \<Longrightarrow> unat n \<le> 999"
  using parse_u16_bound [of s n] by (auto simp: parse_ugc_number_def is_three_digit_ugc_token_def split: if_splits)

lemma shorthand_bound:
  assumes "unat (start :: u16) \<le> 999" "unat (sfx :: u16) < 10 ^ w" "w = 1 \<or> w = 2"
  shows "unat (start div 10 ^ w * 10 ^ w + sfx) = unat start div 10 ^ w * 10 ^ w + unat sfx"
    "unat start div 10 ^ w * 10 ^ w + unat sfx \<le> 999"
proof -
  have le: "a \<le> 999 \<Longrightarrow> b < 10 \<Longrightarrow> a div 10 * 10 + b \<le> 999" "a \<le> 999 \<Longrightarrow> b < 100 \<Longrightarrow> a div 100 * 100 + b \<le> 999"
    for a b :: nat using div_le_mono [of a 999 10] div_le_mono [of a 999 100] by simp_all
  consider "w = 1" | "w = 2" using assms(3) by blast
  then have "unat start div 10 ^ w * 10 ^ w + unat sfx \<le> 999 \<and>
      unat (start div 10 ^ w * 10 ^ w + sfx) = unat start div 10 ^ w * 10 ^ w + unat sfx"
    using assms(1,2) by cases (simp_all add: unat_word_ariths unat_div le)
  then show "unat (start div 10 ^ w * 10 ^ w + sfx) = unat start div 10 ^ w * 10 ^ w + unat sfx"
    "unat start div 10 ^ w * 10 ^ w + unat sfx \<le> 999" by blast+
qed

lemma range_end_bound:
  assumes "parse_ugc_range_end start token = Some e" "unat start \<le> 999"
  shows "unat e \<le> 999 \<and> start \<le> e"
proof (cases "length token = 3")
  case True
  with assms show ?thesis
    by (auto simp: parse_ugc_range_end_def split: if_splits option.splits dest: parse_ugc_number_bound)
next
  case False
  with assms(1) have len: "length token = 1 \<or> length token = 2" and d: "list_all is_digit token"
    by (auto simp: parse_ugc_range_end_def is_one_to_three_digit_ugc_token_def split: if_splits)
  from False assms(1) obtain sfx where sfx: "parse_u16 token = Some sfx"
      "e = start div 10 ^ length token * 10 ^ length token + sfx" "start \<le> e"
    by (auto simp: parse_ugc_range_end_def Let_def split: if_splits option.splits)
  from shorthand_bound [OF assms(2) parse_u16_bound [OF sfx(1) d] len] sfx(2,3) show ?thesis by simp
qed

lemma parsed_range_bound: "parse_ugc_range_end n t = Some e \<Longrightarrow> parse_ugc_number s = Some n \<Longrightarrow> unat e \<le> 999"
  using range_end_bound parse_ugc_number_bound by blast

lemma range_pairs_bound: "range_pairs ts = Some rs \<Longrightarrow> r \<in> set rs \<Longrightarrow> unat (snd r) \<le> 999"
  by (induction ts arbitrary: rs r rule: range_pairs.induct)
    (fastforce split: option.splits dest: parsed_range_bound)+

lemma ranges_bound: "parse_ugc_numeric_ranges s = Some rs \<Longrightarrow> r \<in> set rs \<Longrightarrow> unat (snd r) \<le> 999"
  by (auto simp: parse_ugc_numeric_ranges_def Let_def split: option.splits if_splits
      dest: parse_ugc_number_bound parsed_range_bound range_pairs_bound)

definition prefix_ok :: "str \<times> ugc_class \<Rightarrow> bool" where
  "prefix_ok p \<longleftrightarrow> length (fst p) = 2 \<and> list_all is_upper (fst p) \<and> snd p \<noteq> UnknownClass"

definition code_ok :: "ugc_code \<Rightarrow> bool" where
  "code_ok c \<longleftrightarrow> prefix_ok (uc_state c, uc_geoclass c) \<and> unat (uc_number c) \<le> 999"

lemma range_codes_ok:
  "prefix_ok (st, cl) \<Longrightarrow> unat (snd r) \<le> 999 \<Longrightarrow> c \<in> set (range_codes st cl r) \<Longrightarrow> code_ok c"
  by (auto simp: range_codes_def code_ok_def unat_of_nat simp del: upt_Suc)

lemma full_segment_ok: "parse_full_ugc_segment s = Ret (Some (st, cl, num)) \<Longrightarrow> prefix_ok (st, cl)"
  by (auto simp: parse_full_ugc_segment_def prefix_ok_def slice_def class_from_char_def Let_def split: if_splits)

lemma ranges_codes_ok:
  "parse_ugc_numeric_ranges s = Some rs \<Longrightarrow> prefix_ok (st, cl) \<Longrightarrow> r \<in> set rs \<Longrightarrow>
    c \<in> set (range_codes st cl r) \<Longrightarrow> code_ok c"
  using ranges_bound range_codes_ok by blast

lemma segment_ok:
  assumes "parse_ugc_segment s pre = Ret (pre', r)" "\<And>p. pre = Some p \<Longrightarrow> prefix_ok p"
  shows "(\<forall>p. pre' = Some p \<longrightarrow> prefix_ok p) \<and> (\<forall>cs. r = Some cs \<longrightarrow> (\<forall>c \<in> set cs. code_ok c))"
  using assms
  by (auto simp: parse_ugc_segment_def Let_def split: option.splits if_splits
      dest: full_segment_ok) (metis full_segment_ok ranges_codes_ok)+

lemma expand_segments_ok:
  "expand_segments ss pre = Ret (Some cs) \<Longrightarrow> (\<And>p. pre = Some p \<Longrightarrow> prefix_ok p) \<Longrightarrow> c \<in> set cs \<Longrightarrow> code_ok c"
proof (induction ss arbitrary: pre cs)
  case (Cons s ss)
  show ?case
  proof (cases "s = []")
    case False
    with Cons.prems(1) obtain pre' codes others where
      p: "parse_ugc_segment (trim s) pre = Ret (pre', Some codes)" "expand_segments ss pre' = Ret (Some others)"
        "cs = codes @ others"
      by (auto split: option.splits)
    with segment_ok [OF p(1)] Cons.prems(2,3) Cons.IH [OF p(2)] show ?thesis by auto
  qed (use Cons in simp)
qed simp

lemma expand_block_ok: "expand_ugc_block s = Ret (Some cs) \<Longrightarrow> cs \<noteq> [] \<and> (\<forall>c \<in> set cs. code_ok c)"
proof -
  assume b: "expand_ugc_block s = Ret (Some cs)"
  have last: "(case y of Some [] \<Rightarrow> None | _ \<Rightarrow> y) = Some cs \<Longrightarrow> y = Some cs \<and> cs \<noteq> []" for y
    by (cases y) (auto split: list.splits)
  from b have "expand_segments (split_any (\<lambda>c. c = CHR '','' \<or> c = CHR ''-'') s) None = Ret (Some cs)" "cs \<noteq> []"
    by (auto simp: expand_ugc_block_def dest!: last)
  then show ?thesis using expand_segments_ok by blast
qed

section \<open>The grouping\<close>

definition bucket_sorted :: "'f bucket \<Rightarrow> bool" where
  "bucket_sorted m \<longleftrightarrow> sorted_wrt (<) (map fst m)"

definition areas_at :: "'f bucket \<Rightarrow> str \<Rightarrow> 'f ugc_area list" where
  "areas_at m k = (case map_of m k of Some as \<Rightarrow> as | None \<Rightarrow> [])"

lemma bucket_Nil [simp]: "bucket_sorted []" "areas_at [] k = []"
  by (simp_all add: bucket_sorted_def areas_at_def)

lemma bucket_push_keys: "set (map fst (bucket_push k a m)) = insert k (set (map fst m))"
  by (induction k a m rule: bucket_push.induct) auto

lemma bucket_push_sorted: "bucket_sorted m \<Longrightarrow> bucket_sorted (bucket_push k a m)"
proof (induction k a m rule: bucket_push.induct)
  case (2 k a k' as m)
  then show ?case using bucket_push_keys [of k a m] by (force simp: bucket_sorted_def)
qed (simp add: bucket_sorted_def)

lemma sorted_map_of_less: "bucket_sorted ((k', as) # m) \<Longrightarrow> k \<le> k' \<Longrightarrow> map_of m k = None"
  by (auto simp: bucket_sorted_def map_of_eq_None_iff)

lemma areas_at_push:
  "bucket_sorted m \<Longrightarrow> areas_at (bucket_push k a m) k' = (if k' = k then areas_at m k @ [a] else areas_at m k')"
proof (induction k a m rule: bucket_push.induct)
  case (2 k a j as m)
  then have "bucket_sorted m" by (simp add: bucket_sorted_def)
  with 2(1) have ih: "k \<noteq> j \<Longrightarrow> \<not> k < j \<Longrightarrow>
      areas_at (bucket_push k a m) k' = (if k' = k then areas_at m k @ [a] else areas_at m k')"
    by simp
  have no: "k < j \<Longrightarrow> map_of m k = None" using sorted_map_of_less [OF 2(2), of k] by simp
  have Cons: "areas_at ((i, x) # n) q = (if q = i then x else areas_at n q)" for i x n q
    by (simp add: areas_at_def)
  show ?case using ih no by (cases "k = j"; cases "k < j") (auto simp: Cons, simp add: areas_at_def)
qed (simp add: areas_at_def)

lemma bucket_push_areas:
  "(j, as) \<in> set (bucket_push k a m) \<Longrightarrow>
    j = k \<and> set as \<subseteq> insert a (\<Union>(set ` snd ` set m)) \<and> as \<noteq> [] \<or> (j, as) \<in> set m"
  by (induction k a m rule: bucket_push.induct) (auto split: if_splits)

definition area_ok :: "'f ugc_area \<Rightarrow> bool" where
  "area_ok a \<longleftrightarrow> unat (ua_id a) \<le> 999"

definition bucket_ok :: "'f bucket \<Rightarrow> bool" where
  "bucket_ok m \<longleftrightarrow> bucket_sorted m \<and>
     (\<forall>(k, as) \<in> set m. length k = 2 \<and> list_all is_upper k \<and> as \<noteq> [] \<and> (\<forall>a \<in> set as. area_ok a))"

definition section_ok :: "'f ugc_section \<Rightarrow> bool" where
  "section_ok s \<longleftrightarrow> bucket_ok (us_counties s) \<and> bucket_ok (us_zones s) \<and> bucket_ok (us_fire_zones s) \<and>
     bucket_ok (us_marine_zones s)"

definition section_size :: "'f ugc_section \<Rightarrow> nat" where
  "section_size s = (\<Sum>m \<leftarrow> [us_counties s, us_zones s, us_fire_zones s, us_marine_zones s]. \<Sum>(k, as) \<leftarrow> m. length as)"

lemma bucket_push_ok:
  assumes "bucket_ok m" "length k = 2" "list_all is_upper k" "area_ok a"
  shows "bucket_ok (bucket_push k a m)"
  using assms bucket_push_sorted [of m k a]
  by (fastforce simp: bucket_ok_def dest!: bucket_push_areas)

lemma build_area_ok: "code_ok c \<Longrightarrow> area_ok (build_area c l)"
  by (simp add: area_ok_def build_area_def code_ok_def Let_def)

lemma add_code_ok: "section_ok s \<Longrightarrow> code_ok c \<Longrightarrow> section_ok (add_code cat s c)"
proof -
  assume s: "section_ok s" and c: "code_ok c"
  then have "length (uc_state c) = 2" "list_all is_upper (uc_state c)" by (simp_all add: code_ok_def prefix_ok_def)
  with s show ?thesis
    by (simp add: section_ok_def add_code_def Let_def bucket_push_ok build_area_ok [OF c] split: ugc_class.split)
qed

lemma bucket_push_size: "(\<Sum>(k, as) \<leftarrow> bucket_push k a m. length as) = Suc (\<Sum>(k, as) \<leftarrow> m. length as)"
  by (induction k a m rule: bucket_push.induct) auto

lemma add_code_size: "section_size (add_code cat s c) = Suc (section_size s)"
  by (simp add: section_size_def add_code_def bucket_push_size Let_def split: ugc_class.split)

lemma section_fold: 
  "section_size (foldl (add_code cat) s codes) = section_size s + length codes"
  "section_ok s \<Longrightarrow> \<forall>c \<in> set codes. code_ok c \<Longrightarrow> section_ok (foldl (add_code cat) s codes)"
  by (induction codes arbitrary: s) (auto simp: add_code_size add_code_ok)

lemma section_from_codes_ok:
  "\<forall>c \<in> set codes. code_ok c \<Longrightarrow> section_ok (section_from_codes cat codes t)"
  "section_size (section_from_codes cat codes t) = length codes"
  by (simp_all add: section_from_codes_def section_fold, rule section_fold(2))
    (simp_all add: section_ok_def bucket_ok_def bucket_sorted_def section_size_def)

lemma capture_section_ok:
  "parse_ugc_capture cal cat vt s = Ret (Inr sec) \<Longrightarrow> section_ok sec \<and> 0 < section_size sec"
  by (auto simp: parse_ugc_capture_def section_from_codes_ok split: option.splits dest!: expand_block_ok)

lemma captures_cases:
  assumes "parse_captures cal cat vt (s # ss) = Ret (xs, issues)"
  obtains (sec) sec ys where "parse_ugc_capture cal cat vt s = Ret (Inr sec)"
      "parse_captures cal cat vt ss = Ret (ys, issues)" "xs = sec # ys"
    | (issue) i js where "parse_ugc_capture cal cat vt s = Ret (Inl i)"
      "parse_captures cal cat vt ss = Ret (xs, js)" "issues = i # js"
proof -
  obtain r ys js where "parse_ugc_capture cal cat vt s = Ret r" "parse_captures cal cat vt ss = Ret (ys, js)"
      "(xs, issues) = (case r of Inr sec \<Rightarrow> (sec # ys, js) | Inl i \<Rightarrow> (ys, i # js))"
    using assms by auto
  with sec issue show thesis by (cases r) simp_all
qed

lemma captures_sections_ok:
  "parse_captures cal cat vt ss = Ret (xs, issues) \<Longrightarrow> sec \<in> set xs \<Longrightarrow> section_ok sec \<and> 0 < section_size sec"
proof (induction ss arbitrary: xs issues)
  case (Cons s ss)
  from Cons.prems(1) show ?case
    by (cases rule: captures_cases) (use Cons in \<open>auto dest: capture_section_ok\<close>)
qed simp

lemma captures_count: "parse_captures cal cat vt ss = Ret (xs, issues) \<Longrightarrow> length xs + length issues = length ss"
proof (induction ss arbitrary: xs issues)
  case (Cons s ss)
  from Cons.prems show ?case by (cases rule: captures_cases) (use Cons.IH in auto)
qed simp

lemma add_code_areas:
  assumes "bucket_sorted (us_counties s)" "bucket_sorted (us_zones s)" "bucket_sorted (us_fire_zones s)"
    "bucket_sorted (us_marine_zones s)"
  shows "areas_at (us_counties (add_code cat s c)) k = areas_at (us_counties s) k @
      (if uc_state c = k \<and> uc_geoclass c = County then [build_area c (Some (ct_county cat))] else [])"
    "areas_at (us_fire_zones (add_code cat s c)) k = areas_at (us_fire_zones s) k @
      (if uc_state c = k \<and> uc_geoclass c = FireZone then [build_area c None] else [])"
    "areas_at (us_zones (add_code cat s c)) k = areas_at (us_zones s) k @
      (if uc_state c = k \<and> uc_geoclass c \<in> {Zone, UnknownClass} \<and> \<not> is_marine_zone_state k
       then [build_area c (Some (ct_zone cat))] else [])"
    "areas_at (us_marine_zones (add_code cat s c)) k = areas_at (us_marine_zones s) k @
      (if uc_state c = k \<and> (uc_geoclass c = Marine \<or> uc_geoclass c \<in> {Zone, UnknownClass} \<and> is_marine_zone_state k)
       then [build_area c (if uc_geoclass c = Marine then None else Some (ct_zone cat))] else [])"
  using assms by (auto simp: add_code_def areas_at_push Let_def split: ugc_class.split)

lemma add_code_sorted:
  assumes "bucket_sorted (us_counties s)" "bucket_sorted (us_zones s)" "bucket_sorted (us_fire_zones s)"
    "bucket_sorted (us_marine_zones s)"
  shows "bucket_sorted (us_counties (add_code cat s c))" "bucket_sorted (us_zones (add_code cat s c))"
    "bucket_sorted (us_fire_zones (add_code cat s c))" "bucket_sorted (us_marine_zones (add_code cat s c))"
  using assms by (auto simp: add_code_def bucket_push_sorted Let_def split: ugc_class.split)

definition zone_code :: "ugc_code \<Rightarrow> bool" where
  "zone_code c \<longleftrightarrow> uc_geoclass c \<in> {Zone, UnknownClass}"

lemma section_fold_areas:
  assumes "bucket_sorted (us_counties s)" "bucket_sorted (us_zones s)" "bucket_sorted (us_fire_zones s)"
    "bucket_sorted (us_marine_zones s)"
  shows "areas_at (us_counties (foldl (add_code cat) s codes)) k = areas_at (us_counties s) k @
      map (\<lambda>c. build_area c (Some (ct_county cat))) (filter (\<lambda>c. uc_state c = k \<and> uc_geoclass c = County) codes)"
    "areas_at (us_fire_zones (foldl (add_code cat) s codes)) k = areas_at (us_fire_zones s) k @
      map (\<lambda>c. build_area c None) (filter (\<lambda>c. uc_state c = k \<and> uc_geoclass c = FireZone) codes)"
    "areas_at (us_zones (foldl (add_code cat) s codes)) k = areas_at (us_zones s) k @
      map (\<lambda>c. build_area c (Some (ct_zone cat)))
        (filter (\<lambda>c. uc_state c = k \<and> zone_code c \<and> \<not> is_marine_zone_state k) codes)"
    "areas_at (us_marine_zones (foldl (add_code cat) s codes)) k = areas_at (us_marine_zones s) k @
      map (\<lambda>c. build_area c (if uc_geoclass c = Marine then None else Some (ct_zone cat)))
        (filter (\<lambda>c. uc_state c = k \<and> (uc_geoclass c = Marine \<or> zone_code c \<and> is_marine_zone_state k)) codes)"
  using assms
  by (induction codes arbitrary: s) (simp_all add: add_code_areas add_code_sorted zone_code_def)

section \<open>Written sections\<close>

text \<open>
  The text of a UGC block.  A segment has an optional prefix (absent when it repeats the one before), the
  first and last number, and the number of digits that the end of the range is written with, none for a
  single number.
\<close>

type_synonym ugc_seg = "(str \<times> ugc_class) option \<times> nat \<times> nat \<times> nat"

definition three :: "nat \<Rightarrow> str" where
  "three n = pad0 3 (show_nat n)"

fun seg_numeric :: "ugc_seg \<Rightarrow> str" where
  "seg_numeric (p, lo, hi, w) = three lo @ (if w = 0 then [] else CHR ''>'' # drop (3 - w) (three hi))"

fun prefix_text :: "ugc_seg \<Rightarrow> str" where
  "prefix_text (None, r) = []"
| "prefix_text (Some (st, cl), r) = st @ [class_as_char cl]"

definition seg_text :: "ugc_seg \<Rightarrow> str" where
  "seg_text s = prefix_text s @ seg_numeric s"

fun seg_ok :: "ugc_seg \<Rightarrow> bool" where
  "seg_ok (p, lo, hi, w) \<longleftrightarrow> lo \<le> hi \<and> hi \<le> 999 \<and> w \<le> 3 \<and> lo div 10 ^ w = hi div 10 ^ w \<and>
     (case p of None \<Rightarrow> True | Some q \<Rightarrow> prefix_ok q)"

fun seg_codes :: "ugc_prefix \<Rightarrow> ugc_seg list \<Rightarrow> ugc_code list" where
  "seg_codes pre [] = []"
| "seg_codes pre ((p, lo, hi, w) # ss) =
     (let q = (if p = None then pre else p) in
      (case q of Some (st, cl) \<Rightarrow> range_codes st cl (of_nat lo, of_nat hi) | None \<Rightarrow> []) @ seg_codes q ss)"

definition dashed :: "ugc_seg list \<Rightarrow> str" where
  "dashed ss = concat (map (\<lambda>s. seg_text s @ ''-'') ss)"

lemma digit_char_0: "digit_char 0 = CHR ''0''"
  by code_simp

lemma digit_cases_3: "n \<le> 999 \<Longrightarrow> three n = [digit_char (n div 100), digit_char (n div 10 mod 10), digit_char (n mod 10)]"
proof -
  assume n: "n \<le> 999"
  consider "n < 10" | "10 \<le> n" "n < 100" | "100 \<le> n" by linarith
  then show ?thesis
  proof cases
    case 1
    then show ?thesis by (simp add: three_def pad0_def show_nat.simps [of n] digit_char_0 numeral_2_eq_2)
  next
    case 2
    then have "n div 10 < 10" "n div 10 mod 10 = n div 10" by auto
    with 2 show ?thesis
      by (simp add: three_def pad0_def show_nat.simps [of n] show_nat.simps [of "n div 10"] digit_char_0)
  next
    case 3
    then have d: "\<not> n < 10" "\<not> n div 10 < 10" "n div 10 div 10 < 10" "n div 10 div 10 = n div 100"
      using n by (auto simp: div_mult2_eq [symmetric])
    have "show_nat (n div 10 div 10) = [digit_char (n div 10 div 10)]" using d by (subst show_nat.simps) simp
    moreover have "show_nat (n div 10) = show_nat (n div 10 div 10) @ [digit_char (n div 10 mod 10)]"
      using d by (subst show_nat.simps) simp
    moreover have "show_nat n = show_nat (n div 10) @ [digit_char (n mod 10)]" using d by (subst show_nat.simps) simp
    ultimately show ?thesis using d by (simp add: three_def pad0_def)
  qed
qed

lemma length_three: "n \<le> 999 \<Longrightarrow> length (three n) = 3"
  by (simp add: digit_cases_3)

lemma three_digits: "c \<in> set (three n) \<Longrightarrow> is_digit c"
  by (auto simp: three_def dest: pad0_digits)

lemma parse_ugc_number_three: "n \<le> 999 \<Longrightarrow> parse_ugc_number (three n) = Some (of_nat n)"
  using three_digits [of _ n] parse_uint_pad0 [of n "2 ^ 16" 3]
  by (auto simp: parse_ugc_number_def is_three_digit_ugc_token_def length_three list_all_iff parse_u16_def
      three_def [symmetric])

lemma digits_acc_drop_three:
  assumes "n \<le> 999" "1 \<le> w" "w \<le> 3"
  shows "digits_acc 0 (drop (3 - w) (three n)) = Some (n mod 10 ^ w)"
proof -
  have d: "n div 100 < 10" "n div 10 mod 10 < 10" "n mod 10 < 10" using assms(1) by auto
  have m: "10 * (n div 10 mod 10) + n mod 10 = n mod 100" "10 * (10 * (n div 100) + n div 10 mod 10) + n mod 10 = n"
    using mod_mult2_eq [of n 10 10] div_mult2_eq [of n 10 10] by simp_all
  consider "w = 1" | "w = 2" | "w = 3" using assms(2,3) by linarith
  then show ?thesis
    using d m assms(1)
    by cases (simp_all add: digit_cases_3 is_digit_digit_char digit_val_digit_char algebra_simps numeral_2_eq_2 numeral_3_eq_3)
qed

lemma parse_u16_drop_three:
  assumes "n \<le> 999" "1 \<le> w" "w \<le> 3"
  shows "parse_u16 (drop (3 - w) (three n)) = Some (of_nat (n mod 10 ^ w))"
proof -
  have "drop (3 - w) (three n) \<noteq> []" using length_three [OF assms(1)] assms(2,3) by simp
  moreover have "\<And>c. c \<in> set (drop (3 - w) (three n)) \<Longrightarrow> is_digit c" using three_digits in_set_dropD by metis
  moreover have "n mod 10 ^ w < 65536" using assms(1) le_less_trans [OF mod_less_eq_dividend, of n 65536] by simp
  ultimately show ?thesis
    by (simp add: parse_u16_def parse_uint_digits digits_acc_drop_three [OF assms])
qed

lemma range_end_three:
  assumes "lo \<le> hi" "hi \<le> 999" "1 \<le> w" "w \<le> 3" "lo div 10 ^ w = hi div 10 ^ w"
  shows "parse_ugc_range_end (of_nat lo) (drop (3 - w) (three hi)) = Some (of_nat hi)"
proof -
  let ?t = "drop (3 - w) (three hi)"
  have tok: "is_one_to_three_digit_ugc_token ?t"
    using assms three_digits in_set_dropD
    by (fastforce simp: is_one_to_three_digit_ugc_token_def length_three list_all_iff)
  have len: "length ?t = w" using assms by (simp add: length_three)
  have le: "(of_nat lo :: u16) \<le> of_nat hi" using assms by (simp add: word_le_nat_alt unat_of_nat)
  show ?thesis
  proof (cases "w = 3")
    case True
    then show ?thesis using tok le assms by (simp add: parse_ugc_range_end_def length_three parse_ugc_number_three)
  next
    case False
    then have w: "w = 1 \<or> w = 2" using assms by linarith
    have lt: "unat (of_nat (hi mod 10 ^ w) :: u16) < 10 ^ w"
      using w by (auto simp: unat_of_nat intro: le_less_trans [OF mod_less_eq_dividend])
    have hi: "lo div 10 ^ w * 10 ^ w + hi mod 10 ^ w = hi" by (simp only: assms(5) div_mult_mod_eq)
    have "unat ((of_nat lo :: u16) div 10 ^ w * 10 ^ w + of_nat (hi mod 10 ^ w)) =
        unat (of_nat lo :: u16) div 10 ^ w * 10 ^ w + unat (of_nat (hi mod 10 ^ w) :: u16)"
      using assms w lt by (intro shorthand_bound) (auto simp: unat_of_nat)
    also have "\<dots> = hi"
    proof -
      have "hi mod 10 ^ w < 65536" using assms(2) le_less_trans [OF mod_less_eq_dividend, of hi 65536] by simp
      then show ?thesis using assms hi by (simp add: unat_of_nat)
    qed
    finally have "(of_nat lo :: u16) div 10 ^ w * 10 ^ w + of_nat (hi mod 10 ^ w) = of_nat hi"
      by (metis of_nat_unat ucast_id)
    then show ?thesis
      using tok len le False parse_u16_drop_three [OF assms(2,3,4)] by (simp add: parse_ugc_range_end_def Let_def)
  qed
qed

lemma not_digit_gt: "\<not> is_digit CHR ''>''" "\<not> is_digit CHR ''-''" "\<not> is_digit CHR '',''"
  by (simp_all add: is_digit_def)

lemma seg_numeric_ranges:
  assumes "seg_ok (p, lo, hi, w)"
  shows "is_ugc_numeric_sequence (seg_numeric (p, lo, hi, w))"
    "parse_ugc_numeric_ranges (seg_numeric (p, lo, hi, w)) = Some [(of_nat lo, of_nat hi)]"
proof -
  from assms have lo: "lo \<le> 999" by simp
  have gt: "CHR ''>'' \<notin> set (three lo)" "CHR ''>'' \<notin> set (drop (3 - w) (three hi))"
    using three_digits not_digit_gt(1) in_set_dropD by metis+
  have split: "split_char (CHR ''>'') (seg_numeric (p, lo, hi, w)) =
      (if w = 0 then [three lo] else [three lo, drop (3 - w) (three hi)])"
    using gt by (simp add: split_char_no split_char_append)
  have first: "is_three_digit_ugc_token (three lo)"
    using lo three_digits by (auto simp: is_three_digit_ugc_token_def length_three list_all_iff)
  have second: "is_one_to_three_digit_ugc_token (drop (3 - w) (three hi))" if "w \<noteq> 0"
    using that assms three_digits in_set_dropD
    by (fastforce simp: is_one_to_three_digit_ugc_token_def length_three list_all_iff)
  show "is_ugc_numeric_sequence (seg_numeric (p, lo, hi, w))"
    unfolding is_ugc_numeric_sequence_def split using first second by simp
  show "parse_ugc_numeric_ranges (seg_numeric (p, lo, hi, w)) = Some [(of_nat lo, of_nat hi)]"
    unfolding parse_ugc_numeric_ranges_def split using assms lo range_end_three [of lo hi w]
    by (cases "w = 0") (simp_all add: parse_ugc_number_three)
qed

text \<open>The bytes of a block: upper-case letters, digits, \<open>>\<close> and \<open>-\<close>, so no white space.\<close>

definition ugc_char :: "char \<Rightarrow> bool" where
  "ugc_char c \<longleftrightarrow> is_upper c \<or> is_digit c \<or> c = CHR ''>'' \<or> c = CHR ''-''"

lemma ugc_char_plain:
  "ugc_char c \<Longrightarrow> (of_char c :: nat) < 128 \<and> \<not> ws1 c \<and> \<not> ws_lead c \<and> \<not> ws_last c \<and> c \<notin> {CHR 0x0A, CHR 0x0D, CHR ''.'', CHR '':'', CHR '',''}"
  by (auto simp: ugc_char_def is_upper_def is_digit_def ws_lead_def ws_last_def ws1_def Let_def)

lemma ugc_char_no_multi:
  assumes "ugc_char a"
  shows "\<not> ws1 a" "\<not> ws2 a b" "\<not> ws3 a b c"
  using ugc_char_plain [OF assms] by (auto simp: ws2_def ws3_def Let_def)

lemma compact_keep: "\<forall>c \<in> set s. ugc_char c \<Longrightarrow> compact_ugc_text s = s"
  by (induction s rule: compact_ugc_text.induct) (auto simp: ugc_char_no_multi)

lemma ascii_ugc: "\<forall>c \<in> set s. ugc_char c \<Longrightarrow> is_ascii s"
  by (auto simp: is_ascii_def dest: ugc_char_plain)

lemma trim_ugc: "\<forall>c \<in> set s. ugc_char c \<Longrightarrow> trim s = s"
  by (rule trim_keep) (metis hd_in_set last_in_set ugc_char_plain)

lemma trim_start_ugc: "\<forall>c \<in> set s. ugc_char c \<Longrightarrow> trim_start s = s"
  by (rule trim_start_keep) (metis hd_in_set ugc_char_plain)

lemma class_char_cases: "cl \<noteq> UnknownClass \<Longrightarrow> class_as_char cl \<in> {CHR ''C'', CHR ''Z'', CHR ''F'', CHR ''M''}"
  by (cases cl) simp_all

lemma class_char_round [simp]: "cl \<noteq> UnknownClass \<Longrightarrow> class_from_char (class_as_char cl) = cl"
  by (cases cl) (simp_all add: class_from_char_def)

lemma upper_not_digit: "is_upper c \<Longrightarrow> \<not> is_digit c"
  by (auto simp: is_digit_def is_upper_def Let_def)

lemma class_char_upper: "is_upper (class_as_char cl)"
  by (cases cl) (simp_all add: is_upper_def)

lemma numeric_chars: "c \<in> set (seg_numeric s) \<Longrightarrow> ugc_char c \<and> c \<noteq> CHR ''-''"
  using not_digit_gt by (cases s) (auto simp: ugc_char_def split: if_splits dest!: in_set_dropD three_digits)

lemma prefix_chars: "seg_ok s \<Longrightarrow> c \<in> set (prefix_text s) \<Longrightarrow> is_upper c"
  by (cases s rule: prefix_text.cases) (auto simp: prefix_ok_def list_all_iff class_char_upper)

lemma seg_chars: "seg_ok s \<Longrightarrow> c \<in> set (seg_text s) \<Longrightarrow> ugc_char c \<and> c \<noteq> CHR ''-'' \<and> c \<noteq> CHR '',''"
  using prefix_chars [of s c] numeric_chars [of c s]
  by (auto simp: seg_text_def ugc_char_def is_upper_def is_digit_def)

lemma dashed_chars: "list_all seg_ok ss \<Longrightarrow> \<forall>c \<in> set (dashed ss). ugc_char c"
  by (auto simp: dashed_def list_all_iff ugc_char_def dest!: seg_chars)

lemma seg_text_nonempty: "seg_ok s \<Longrightarrow> seg_text s \<noteq> []"
  using length_three [of "fst (snd s)"] by (cases s) (auto simp: seg_text_def)

lemma full_seg_text:
  assumes "seg_ok (Some (st, cl), lo, hi, w)"
  shows "parse_full_ugc_segment (seg_text (Some (st, cl), lo, hi, w)) = Ret (Some (st, cl, seg_numeric (Some (st, cl), lo, hi, w)))"
proof -
  define n where "n = seg_numeric (Some (st, cl), lo, hi, w)"
  have st: "length st = 2" "list_all is_upper st" "cl \<noteq> UnknownClass" using assms by (simp_all add: prefix_ok_def)
  then obtain a b where ab: "st = [a, b]" by (metis One_nat_def Suc_1 length_0_conv length_Suc_conv)
  have t: "seg_text (Some (st, cl), lo, hi, w) = a # b # class_as_char cl # n" by (simp add: seg_text_def ab n_def)
  have asc: "is_ascii (a # b # class_as_char cl # n)"
    unfolding t [symmetric] using seg_chars [OF assms] by (intro ascii_ugc) blast
  have "3 \<le> length n" using assms length_three [of lo] by (simp add: n_def)
  then show ?thesis
    unfolding t parse_full_ugc_segment_def n_def [symmetric]
    using st class_char_cases [OF st(3)] seg_numeric_ranges(1) [OF assms, folded n_def]
    by (simp add: slice_ascii [OF asc] ab Let_def)
qed

lemma short_seg_text:
  assumes "seg_ok (None, lo, hi, w)"
  shows "parse_full_ugc_segment (seg_text (None, lo, hi, w)) = Ret None"
proof -
  let ?n = "seg_text (None, lo, hi, w)"
  have asc: "is_ascii ?n" using seg_chars [OF assms] by (intro ascii_ugc) blast
  obtain x xs where x: "?n = x # xs" "is_digit x"
    using digit_cases_3 [of lo] assms by (auto simp: seg_text_def is_digit_digit_char)
  then have "\<not> is_upper x" using upper_not_digit by blast
  then show ?thesis
    using slice_ascii [OF asc, of 0 2] x by (auto simp: parse_full_ugc_segment_def Let_def numeral_2_eq_2)
qed

lemma parse_written_segment:
  assumes "seg_ok (p, lo, hi, w)" "(if p = None then pre else p) = Some (st, cl)"
  shows "parse_ugc_segment (seg_text (p, lo, hi, w)) pre =
    Ret (Some (st, cl), Some (range_codes st cl (of_nat lo, of_nat hi)))"
proof (cases p)
  case None
  then show ?thesis
    using assms short_seg_text [of lo hi w] seg_numeric_ranges [OF assms(1)]
    by (simp add: parse_ugc_segment_def seg_text_def Let_def)
next
  case (Some q)
  then show ?thesis
    using assms full_seg_text [of st cl lo hi w] seg_numeric_ranges [OF assms(1)]
    by (simp add: parse_ugc_segment_def Let_def)
qed

lemma expand_written:
  "list_all seg_ok ss \<Longrightarrow> pre \<noteq> None \<or> ss = [] \<or> fst (hd ss) \<noteq> None \<Longrightarrow>
    expand_segments (map seg_text ss) pre = Ret (Some (seg_codes pre ss))"
proof (induction ss arbitrary: pre)
  case (Cons s ss)
  obtain p lo hi w where s: "s = (p, lo, hi, w)" by (cases s)
  then have ok: "seg_ok (p, lo, hi, w)" using Cons.prems by simp
  obtain st cl where q: "(if p = None then pre else p) = Some (st, cl)" using Cons.prems(2) s by (cases p; cases pre) auto
  have "trim (seg_text s) = seg_text s" using seg_chars [OF ok] s by (intro trim_ugc) blast
  with parse_written_segment [OF ok q] seg_text_nonempty [OF ok] Cons.IH [of "Some (st, cl)"] Cons.prems(1)
  show ?case using q s by (auto simp: Let_def)
qed simp

lemma dashed_simps [simp]: "dashed [] = []" "dashed (s # ss) = seg_text s @ CHR ''-'' # dashed ss"
  "dashed (ss @ ss') = dashed ss @ dashed ss'"
  by (simp_all add: dashed_def)

lemma dashed_tail:
  assumes "list_all seg_ok ss" "ss \<noteq> []" "fst (hd ss) \<noteq> None"
  obtains x y ds where "dashed ss = x @ [y] @ ds @ ''-''" "\<not> is_digit y" "length ds \<le> 5"
proof -
  obtain ss' p lo hi w where ss: "ss = ss' @ [(p, lo, hi, w)]" using assms(2) by (metis rev_exhaust prod_cases4)
  then have ok: "seg_ok (p, lo, hi, w)" using assms(1) by simp
  then have len: "length (three lo) = 3" "length (three hi) = 3" by (simp_all add: length_three)
  show thesis
  proof (cases "w = 0")
    case False
    then show thesis
      using that [of "dashed ss' @ prefix_text (p, lo, hi, w) @ three lo" "CHR ''>''" "drop (3 - w) (three hi)"] len not_digit_gt(1)
      by (simp add: ss seg_text_def)
  next
    case True
    show thesis
    proof (cases p)
      case (Some q)
      obtain st cl where "q = (st, cl)" by (cases q)
      then show thesis
        using that [of "dashed ss' @ st" "class_as_char cl" "three lo"] True Some len upper_not_digit [OF class_char_upper, of cl]
        by (simp add: ss seg_text_def)
    next
      case None
      then obtain ss'' s where "ss' = ss'' @ [s]" using assms(3) ss by (cases ss' rule: rev_cases) auto
      then show thesis
        using that [of "dashed ss'' @ seg_text s" "CHR ''-''" "three lo"] True None len not_digit_gt(2)
        by (simp add: ss seg_text_def)
    qed
  qed
qed

lemma suffix_absent:
  assumes "is_ascii c" "c = x @ [y] @ ds @ ''-''" "\<not> is_digit y" "length ds \<le> 5"
  shows "has_ugc_expiration_suffix c = Ret False"
proof (cases "8 \<le> length c")
  case True
  let ?i = "length c - 7"
  have "length c = length x + length ds + 2" using assms(2) by simp
  with True assms(4) have idx: "?i + (5 - length ds) = length x" by arith
  have "take 6 (drop ?i c) ! (5 - length ds) = drop ?i c ! (5 - length ds)" by simp
  also have "\<dots> = c ! length x" using True idx by (simp only: nth_drop)
  also have "\<dots> = y" using assms(2) by simp
  finally have "y \<in> set (take 6 (drop ?i c))" using True nth_mem [of "5 - length ds" "take 6 (drop ?i c)"] by simp
  then have "\<not> list_all is_digit (take 6 (drop ?i c))" using assms(3) by (auto simp: list_all_iff)
  then show ?thesis using True slice_ascii [OF assms(1), of ?i "length c - 1"] by (simp add: has_ugc_expiration_suffix_def)
qed (auto simp: has_ugc_expiration_suffix_def)

lemma suffix_present:
  assumes "is_ascii (x @ ''-'' @ ds @ ''-'')" "length ds = 6" "list_all is_digit ds"
  shows "has_ugc_expiration_suffix (x @ ''-'' @ ds @ ''-'') = Ret True"
    "extract_expiration (x @ ''-'' @ ds @ ''-'') = Ret (Some (x, ds))"
proof -
  have s: "slice (x @ ''-'' @ ds @ ''-'') (Suc (length x)) (Suc (length x) + 6) = Ret ds"
      "slice (x @ ''-'' @ ds @ ''-'') 0 (length x) = Ret x"
    using slice_ascii [OF assms(1)] assms(2) by simp_all
  show p: "has_ugc_expiration_suffix (x @ ''-'' @ ds @ ''-'') = Ret True"
    using s(1) assms(2,3) by (simp add: has_ugc_expiration_suffix_def nth_append)
  show "extract_expiration (x @ ''-'' @ ds @ ''-'') = Ret (Some (x, ds))"
    using s assms(2) p by (simp add: extract_expiration_def)
qed

lemma written_start:
  assumes "seg_ok s" "fst s \<noteq> None" "\<forall>c \<in> set e. ugc_char c"
  shows "is_ugc_start (seg_text s @ CHR ''-'' # e)"
proof -
  obtain st cl lo hi w where s: "s = (Some (st, cl), lo, hi, w)" using assms(2) by (cases s) auto
  have st: "length st = 2" "list_all is_upper st" "cl \<noteq> UnknownClass" and lo: "lo \<le> 999"
    using assms(1) s by (auto simp: prefix_ok_def)
  then obtain a b where ab: "st = [a, b]" by (metis One_nat_def Suc_1 length_0_conv length_Suc_conv)
  have "trim_start (seg_text s @ CHR ''-'' # e) = seg_text s @ CHR ''-'' # e"
    using seg_chars [OF assms(1)] assms(3) by (intro trim_start_ugc) (auto simp: ugc_char_def)
  moreover have "seg_text s = a # b # class_as_char cl # digit_char (lo div 100) # digit_char (lo div 10 mod 10) #
      digit_char (lo mod 10) # (if w = 0 then [] else CHR ''>'' # drop (3 - w) (three hi))"
    using digit_cases_3 [OF lo] by (simp add: seg_text_def s ab)
  moreover have "is_digit (digit_char (lo div 100))" "is_digit (digit_char (lo div 10 mod 10))"
      "is_digit (digit_char (lo mod 10))" "is_upper a" "is_upper b"
    using lo st(2) ab by (simp_all add: is_digit_digit_char)
  ultimately show ?thesis
    using class_char_cases [OF st(3)] by (cases "w = 0") (simp_all add: is_ugc_start_def)
qed

lemma no_dots: "CHR ''.'' \<notin> set t \<Longrightarrow> find_sub ''...'' t = None"
  by (rule find_sub_missing) auto

lemma first_word_Cons: "ugc_char a \<Longrightarrow> \<exists>w. first_word (a # s) = a # w"
  by (cases "a # s" rule: first_word.cases) (auto simp: ugc_char_no_multi)

lemma written_no_header:
  assumes "seg_ok s" "\<forall>c \<in> set e. ugc_char c"
  shows "\<not> starts_new_section_header (seg_text s @ CHR ''-'' # e)"
proof -
  let ?t = "seg_text s @ CHR ''-'' # e"
  have ch: "\<forall>c \<in> set ?t. ugc_char c" using seg_chars [OF assms(1)] assms(2) by (auto simp: ugc_char_def)
  have dots: "find_sub ''...'' ?t = None" using ch ugc_char_plain by (intro no_dots) blast
  have "last ?t \<in> set ?t" by (rule last_in_set) simp
  then have col: "last ?t \<noteq> CHR '':''" using ch ugc_char_plain by blast
  show ?thesis
  proof (cases "fst s = None")
    case False
    from written_start [OF assms(1) False assms(2)] dots col trim_ugc [OF ch] show ?thesis
      by (simp add: starts_new_section_header_def Let_def)
  next
    case True
    then obtain d r where d: "?t = d # r" "is_digit d"
      using assms(1) digit_cases_3 [of "fst (snd s)"] by (cases s) (auto simp: seg_text_def is_digit_digit_char)
    then have "\<not> is_upper d" using upper_not_digit by blast
    moreover obtain w where "first_word ?t = d # w" using first_word_Cons d ch by (metis list.set_intros(1))
    ultimately show ?thesis using dots col trim_ugc [OF ch] by (simp add: starts_new_section_header_def Let_def)
  qed
qed

lemma dashed_Nil_iff [simp]: "dashed ss = [] \<longleftrightarrow> ss = []"
  by (cases ss) simp_all

lemma dashed_snoc: "ss \<noteq> [] \<Longrightarrow> dashed ss = butlast (dashed ss) @ ''-''"
  by (cases ss rule: rev_cases) (simp_all add: butlast_append)

lemma split_written:
  assumes "list_all seg_ok ss" "ss \<noteq> []"
  shows "split_any (\<lambda>c. c = CHR '','' \<or> c = CHR ''-'') (butlast (dashed ss)) = map seg_text ss"
proof -
  let ?p = "\<lambda>c. c = CHR '','' \<or> c = CHR ''-''"
  have plain: "split_any ?p (t @ CHR ''-'' # u) = t # split_any ?p u" "split_any ?p t = [t]"
    if "\<forall>c \<in> set t. c \<noteq> CHR '','' \<and> c \<noteq> CHR ''-''" for t u
    using that by (induction t) auto
  have seg: "\<forall>c \<in> set (seg_text s). c \<noteq> CHR '','' \<and> c \<noteq> CHR ''-''" if "seg_ok s" for s
    using seg_chars [OF that] by blast
  from assms show ?thesis
  proof (induction ss)
    case (Cons s ss)
    then show ?case
      using plain [OF seg, of s] by (cases "ss = []") (simp_all add: butlast_append)
  qed simp
qed

text \<open>The expiration, and the lines of a block: groups of segments, the last with the expiration.\<close>

definition expiry :: "nat \<Rightarrow> nat \<Rightarrow> nat \<Rightarrow> str" where
  "expiry d h m = pad0 2 (show_nat d) @ pad0 2 (show_nat h) @ pad0 2 (show_nat m)"

lemma length_pad2: "n < 100 \<Longrightarrow> length (pad0 2 (show_nat n)) = 2"
proof -
  assume n: "n < 100"
  then have "n div 10 < 10" by auto
  then have "\<not> n < 10 \<Longrightarrow> length (show_nat n) = 2"
    by (simp add: show_nat.simps [of n] show_nat.simps [of "n div 10"])
  then show ?thesis by (cases "n < 10") (simp_all add: pad0_def show_nat.simps [of n])
qed

lemma expiry_digits: "list_all is_digit (expiry d h m)"
  by (auto simp: expiry_def list_all_iff dest: pad0_digits)

lemma parse_expiry:
  assumes "d < 100" "h < 100" "m < 100"
  shows "parse_expire_time cal (expiry d h m) vt = Ret (resolve_day_time_not_before cal vt d h m)"
    "length (expiry d h m) = 6" "is_ascii (expiry d h m)"
proof -
  note len = length_pad2 [OF assms(1)] length_pad2 [OF assms(2)] length_pad2 [OF assms(3)]
  show l: "length (expiry d h m) = 6" using len by (simp add: expiry_def)
  show a: "is_ascii (expiry d h m)"
    using expiry_digits [of d h m] by (intro ascii_ugc) (auto simp: list_all_iff ugc_char_def)
  have "parse_u32 (pad0 2 (show_nat n)) = Some (of_nat n)" if "n < 100" for n
    using that parse_uint_pad0 [of n "2 ^ 32" 2] by (simp add: parse_u32_def)
  moreover have "slice (expiry d h m) 0 2 = Ret (pad0 2 (show_nat d))" "slice (expiry d h m) 2 4 = Ret (pad0 2 (show_nat h))"
      "slice (expiry d h m) 4 6 = Ret (pad0 2 (show_nat m))"
    using len l by (simp_all add: slice_ascii [OF a]) (simp_all add: expiry_def)
  ultimately show "parse_expire_time cal (expiry d h m) vt = Ret (resolve_day_time_not_before cal vt d h m)"
    using assms l by (simp add: parse_expire_time_def unat_of_nat)
qed

lemma expiry_chars: "\<forall>c \<in> set (expiry d h m @ ''-''). ugc_char c"
  using expiry_digits [of d h m] by (auto simp: list_all_iff ugc_char_def)

lemma suffix_written:
  assumes "list_all seg_ok ss" "ss \<noteq> []" "d < 100" "h < 100" "m < 100"
  shows "has_ugc_expiration_suffix (dashed ss @ expiry d h m @ ''-'') = Ret True"
    "extract_expiration (dashed ss @ expiry d h m @ ''-'') = Ret (Some (butlast (dashed ss), expiry d h m))"
proof -
  let ?b = "butlast (dashed ss)"
  have eq: "?b @ ''-'' @ expiry d h m @ ''-'' = dashed ss @ expiry d h m @ ''-''"
    using dashed_snoc [OF assms(2)] by simp
  have "is_ascii (dashed ss @ expiry d h m @ ''-'')"
    using dashed_chars [OF assms(1)] expiry_chars [of d h m] by (intro ascii_ugc) auto
  from suffix_present [of ?b "expiry d h m", unfolded eq, OF this parse_expiry(2) [OF assms(3-5)] expiry_digits]
  show "has_ugc_expiration_suffix (dashed ss @ expiry d h m @ ''-'') = Ret True"
    "extract_expiration (dashed ss @ expiry d h m @ ''-'') = Ret (Some (?b, expiry d h m))" .
qed

lemma capture_written:
  assumes "list_all seg_ok ss" "ss \<noteq> []" "fst (hd ss) \<noteq> None" "d < 100" "h < 100" "m < 100"
    "resolve_day_time_not_before cal vt d h m = Some t"
  shows "parse_ugc_capture cal cat vt (dashed ss @ expiry d h m @ ''-'') = Ret (Inr (section_from_codes cat (seg_codes None ss) t))"
proof -
  obtain p lo hi w r where ss: "ss = (p, lo, hi, w) # r" using assms(2) by (cases ss) auto
  then have "seg_codes None ss \<noteq> []"
    using assms(1,3) by (auto simp: range_codes_def unat_of_nat simp del: upt_Suc)
  then have "expand_ugc_block (butlast (dashed ss)) = Ret (Some (seg_codes None ss))"
    using split_written [OF assms(1,2)] expand_written [OF assms(1), of None] assms(3)
    by (simp add: expand_ugc_block_def split: list.split)
  with suffix_written(2) [OF assms(1,2,4-6)] parse_expiry(1) [OF assms(4-6), of cal vt] assms(7)
  show ?thesis by (simp add: parse_ugc_capture_def)
qed

definition block_lines :: "ugc_seg list list \<Rightarrow> ugc_seg list \<Rightarrow> str \<Rightarrow> str list" where
  "block_lines gs g e = map dashed gs @ [dashed g @ e @ ''-'']"

lemma collect_step:
  assumes "list_all seg_ok ss" "ss \<noteq> []" "fst (hd ss) \<noteq> None" "list_all seg_ok g" "g \<noteq> []" "\<forall>c \<in> set e. ugc_char c"
  shows "collect_ugc_candidate (dashed ss) ((dashed g @ e) # lines) = collect_ugc_candidate (dashed ss @ dashed g @ e) lines"
proof -
  obtain x y ds where x: "dashed ss = x @ [y] @ ds @ ''-''" "\<not> is_digit y" "length ds \<le> 5"
    using dashed_tail [OF assms(1-3)] by blast
  have no: "has_ugc_expiration_suffix (dashed ss) = Ret False"
    using suffix_absent [OF ascii_ugc [OF dashed_chars [OF assms(1)]] x] .
  have ch: "\<forall>c \<in> set (dashed g @ e). ugc_char c" using dashed_chars [OF assms(4)] assms(6) by auto
  obtain s r where g: "g = s # r" using assms(5) by (cases g) auto
  have "\<forall>c \<in> set (dashed r @ e). ugc_char c" using ch g by simp
  then have "\<not> starts_new_section_header (dashed g @ e)"
    using written_no_header [of s "dashed r @ e"] assms(4) g by simp
  then show ?thesis
    using no assms(5) trim_ugc [OF ch] compact_keep [OF ch] by (subst collect_ugc_candidate.simps) (simp add: Let_def)
qed

lemma collect_written:
  assumes "list_all seg_ok (ss @ concat gs @ g)" "ss \<noteq> []" "fst (hd ss) \<noteq> None" "\<forall>x \<in> set gs. x \<noteq> []" "g \<noteq> []"
    "d < 100" "h < 100" "m < 100"
  shows "collect_ugc_candidate (dashed ss) (block_lines gs g (expiry d h m) @ post) =
    Ret (Some (dashed (ss @ concat gs @ g) @ expiry d h m @ ''-''), post)"
  using assms
proof (induction gs arbitrary: ss)
  case Nil
  have "collect_ugc_candidate (dashed ss) ((dashed g @ expiry d h m @ ''-'') # post) =
      collect_ugc_candidate (dashed ss @ dashed g @ expiry d h m @ ''-'') post"
    using Nil by (intro collect_step expiry_chars) simp_all
  moreover have "has_ugc_expiration_suffix (dashed (ss @ g) @ expiry d h m @ ''-'') = Ret True"
    using Nil by (intro suffix_written) simp_all
  then have "collect_ugc_candidate (dashed ss @ dashed g @ expiry d h m @ ''-'') post =
      Ret (Some (dashed ss @ dashed g @ expiry d h m @ ''-''), post)"
    by (subst collect_ugc_candidate.simps) simp
  ultimately show ?case by (simp add: block_lines_def)
next
  case (Cons g' gs)
  have "collect_ugc_candidate (dashed ss) ((dashed g' @ []) # block_lines gs g (expiry d h m) @ post) =
      collect_ugc_candidate (dashed ss @ dashed g' @ []) (block_lines gs g (expiry d h m) @ post)"
    using Cons.prems by (intro collect_step) simp_all
  moreover have "collect_ugc_candidate (dashed (ss @ g')) (block_lines gs g (expiry d h m) @ post) =
      Ret (Some (dashed ((ss @ g') @ concat gs @ g) @ expiry d h m @ ''-''), post)"
    using Cons.prems by (intro Cons.IH) (simp_all add: hd_append)
  ultimately show ?case by (simp add: block_lines_def)
qed

lemma extract_skip: "\<forall>l \<in> set pre. \<not> is_ugc_start l \<Longrightarrow> extract_ugc_candidates (pre @ ls) = extract_ugc_candidates ls"
  by (induction pre) simp_all

lemma extract_written:
  assumes "list_all seg_ok (concat gs @ g)" "fst (hd (concat gs @ g)) \<noteq> None" "\<forall>x \<in> set gs. x \<noteq> []" "g \<noteq> []"
    "d < 100" "h < 100" "m < 100" "extract_ugc_candidates post = Ret cs"
  shows "extract_ugc_candidates (block_lines gs g (expiry d h m) @ post) =
    Ret ((dashed (concat gs @ g) @ expiry d h m @ ''-'') # cs)"
proof -
  show ?thesis
  proof (cases gs)
    case Nil
    obtain s r where g: "g = s # r" using assms(4) by (cases g) auto
    have ch: "\<forall>c \<in> set (dashed g @ expiry d h m @ ''-''). ugc_char c"
      using expiry_chars [of d h m] dashed_chars [of g] assms(1) Nil by auto
    have "is_ugc_start (dashed g @ expiry d h m @ ''-'')"
      using written_start [of s "dashed r @ expiry d h m @ ''-''"] assms(1,2) ch g Nil by simp
    moreover have "has_ugc_expiration_suffix (dashed g @ expiry d h m @ ''-'') = Ret True"
      using assms Nil by (intro suffix_written) simp_all
    then have "collect_ugc_candidate (dashed g @ expiry d h m @ ''-'') post = Ret (Some (dashed g @ expiry d h m @ ''-''), post)"
      by (subst collect_ugc_candidate.simps) simp
    ultimately show ?thesis using compact_keep [OF ch] assms(8) Nil by (simp add: block_lines_def)
  next
    case (Cons ss gs')
    then obtain s r where ss: "ss = s # r" using assms(3) by (cases ss) auto
    have ch: "\<forall>c \<in> set (dashed ss). ugc_char c" using dashed_chars [of ss] assms(1) Cons by simp
    have "is_ugc_start (dashed ss)" using written_start [of s "dashed r"] assms(1,2) ch ss Cons by simp
    then show ?thesis
      using collect_written [of ss gs' g d h m post] compact_keep [OF ch] assms Cons ss by (simp add: block_lines_def)
  qed
qed

lemma candidate_lines_unlines:
  assumes "\<forall>l \<in> set ls. plain_line l" "eol = [CHR 0x0A] \<or> eol = [CHR 0x0D, CHR 0x0A]"
  shows "iter_candidate_lines (unlines eol ls) = ls"
proof -
  have "trim_end_matches (\<lambda>c. c = CHR 0x0D) l = l" if "plain_line l" for l
    using that by (cases l rule: rev_cases) (auto simp: plain_line_def trim_end_matches_def)
  then show ?thesis using assms by (simp add: iter_candidate_lines_def text_lines_unlines map_idI)
qed

lemma block_lines_plain:
  assumes "list_all seg_ok (concat gs @ g)"
  shows "\<forall>l \<in> set (block_lines gs g (expiry d h m)). plain_line l"
proof -
  have plain: "plain_line l" if "\<forall>c \<in> set l. ugc_char c" for l
    using that ugc_char_plain last_in_set [of l] by (fastforce simp: plain_line_def)
  have ch: "\<forall>c \<in> set (dashed x). ugc_char c" if "x \<in> set gs \<or> x = g" for x
    using that assms by (intro dashed_chars) (auto simp: list_all_iff)
  have "plain_line (dashed g @ expiry d h m @ ''-'')"
    using ch [of g] expiry_chars [of d h m] by (intro plain) auto
  moreover have "plain_line (dashed x)" if "x \<in> set gs" for x using ch [of x] that by (intro plain) simp
  ultimately show ?thesis by (auto simp: block_lines_def)
qed

lemma written_block_parsed:
  assumes "list_all seg_ok (concat gs @ g)" "fst (hd (concat gs @ g)) \<noteq> None" "\<forall>x \<in> set (gs @ [g]). x \<noteq> []"
    "d < 100" "h < 100" "m < 100" "resolve_day_time_not_before cal valid_time d h m = Some t"
    "\<forall>l \<in> set (pre @ post). plain_line l \<and> \<not> is_ugc_start l" "eol = [CHR 0x0A] \<or> eol = [CHR 0x0D, CHR 0x0A]"
  shows "parse_ugc_sections_with_issues cal cat (unlines eol (pre @ block_lines gs g (expiry d h m) @ post)) valid_time =
    Ret ([section_from_codes cat (seg_codes None (concat gs @ g)) t], [])"
proof -
  let ?ls = "pre @ block_lines gs g (expiry d h m) @ post"
  have "iter_candidate_lines (unlines eol ?ls) = ?ls"
    using assms(8,9) block_lines_plain [OF assms(1)] by (intro candidate_lines_unlines) auto
  moreover have "extract_ugc_candidates post = Ret []"
    using extract_skip [of post "[]"] assms(8) by simp
  then have "extract_ugc_candidates ?ls = Ret [dashed (concat gs @ g) @ expiry d h m @ ''-'']"
    using extract_skip [of pre] extract_written [of gs g d h m post "[]"] assms by simp
  ultimately show ?thesis
    using capture_written [of "concat gs @ g" d h m cal valid_time t cat] assms
    by (simp add: parse_ugc_sections_with_issues_def)
qed

text \<open>
  C29.  A UGC block is read back from a bulletin: prefixes, repeated prefixes left out, single numbers,
  ranges with a shortened end, a block broken over several lines after a dash, either line ending, other
  lines around it.  The parser gives one section, with exactly the codes that the segments stand for and
  the expiration resolved against the time of the bulletin, and no issue.
\<close>

theorem ugc_block_parsed:
  assumes "list_all seg_ok (concat gs @ g)" "fst (hd (concat gs @ g)) \<noteq> None" "\<forall>x \<in> set (gs @ [g]). x \<noteq> []"
    "d < 100" "h < 100" "m < 100" "resolve_day_time_not_before cal valid_time d h m = Some t"
    "\<forall>l \<in> set (pre @ post). plain_line l \<and> \<not> is_ugc_start l" "eol = [CHR 0x0A] \<or> eol = [CHR 0x0D, CHR 0x0A]"
  shows "parse_ugc_sections_with_issues cal cat (unlines eol (pre @ block_lines gs g (expiry d h m) @ post)) valid_time =
    Ret ([section_from_codes cat (seg_codes None (concat gs @ g)) t], [])"
  by (rule written_block_parsed [OF assms])

definition no_catalog :: "nat catalog" where
  "no_catalog = \<lparr>ct_county = (\<lambda>_. None), ct_zone = (\<lambda>_. None)\<rparr>"

definition minute_calendar :: calendar where
  "minute_calendar =
     \<lparr>cal_year = (\<lambda>t. 2025), cal_month = (\<lambda>t. 3),
      cal_at = (\<lambda>y mo d h mi. Some ((((y - 2025) * 12 + int mo - 3) * 31 + int d) * 1440 + int h * 60 + int mi)),
      cal_day_shift = (\<lambda>t k h mi. None), cal_parse = (\<lambda>s. None)\<rparr>"

definition idaho :: "ugc_seg list" where
  "idaho = [(Some (''ID'', Zone), 51, 75, 2), (None, 80, 80, 0)]"

lemma idaho_ok: "list_all seg_ok idaho" "fst (hd idaho) \<noteq> None" "idaho \<noteq> []"
  "resolve_day_time_not_before minute_calendar 0 5 12 0 = Some 7920"
  by (simp_all add: idaho_def prefix_ok_def is_upper_def) code_simp

theorem ugc_block_parsed_witness:
  "unlines [CHR 0x0D, CHR 0x0A] [dashed idaho @ expiry 5 12 0 @ ''-''] = ''IDZ051>75-080-051200-'' @ [CHR 0x0D, CHR 0x0A] \<and>
   parse_ugc_sections_with_issues minute_calendar no_catalog
     (unlines [CHR 0x0D, CHR 0x0A] [dashed idaho @ expiry 5 12 0 @ ''-'']) 0 =
   Ret ([section_from_codes no_catalog (seg_codes None idaho) 7920], [])"
proof
  show "unlines [CHR 0x0D, CHR 0x0A] [dashed idaho @ expiry 5 12 0 @ ''-''] = ''IDZ051>75-080-051200-'' @ [CHR 0x0D, CHR 0x0A]"
    by code_simp
  show "parse_ugc_sections_with_issues minute_calendar no_catalog
     (unlines [CHR 0x0D, CHR 0x0A] [dashed idaho @ expiry 5 12 0 @ ''-'']) 0 =
    Ret ([section_from_codes no_catalog (seg_codes None idaho) 7920], [])"
    using ugc_block_parsed [of "[]" idaho 5 12 0 minute_calendar 0 7920 "[]" "[]" "[CHR 0x0D, CHR 0x0A]" no_catalog] idaho_ok
    by (simp add: block_lines_def)
qed

text \<open>
  C30.  On an ASCII bulletin the parser of UGC sections never panics: it returns sections and issues,
  and each candidate line group gives exactly one of them.
\<close>

theorem ugc_ascii_no_panic:
  assumes "is_ascii bulletin"
  shows "\<exists>candidates sections issues.
    extract_ugc_candidates (iter_candidate_lines bulletin) = Ret candidates \<and>
    parse_ugc_sections_with_issues cal cat bulletin valid_time = Ret (sections, issues) \<and>
    parse_ugc_sections cal cat bulletin valid_time = Ret sections \<and>
    length sections + length issues = length candidates"
proof -
  obtain cs where cs: "extract_ugc_candidates (iter_candidate_lines bulletin) = Ret cs" "\<forall>c \<in> set cs. is_ascii c"
    using extract_ascii [of "iter_candidate_lines bulletin"] ascii_candidate_lines [OF assms] by blast
  obtain xs issues where "parse_captures cal cat valid_time cs = Ret (xs, issues)"
    using captures_ascii [OF cs(2), of cal cat valid_time] by (metis prod.collapse rust.exhaust)
  with cs(1) captures_count [OF this] show ?thesis
    by (simp add: parse_ugc_sections_with_issues_def parse_ugc_sections_def)
qed

theorem ugc_ascii_no_panic_witness:
  "\<exists>sections. parse_ugc_sections minute_calendar no_catalog ''IAC001>003-051200-'' 0 = Ret sections"
proof -
  have "is_ascii ''IAC001>003-051200-''" by simp
  from ugc_ascii_no_panic [OF this, of minute_calendar no_catalog 0] show ?thesis by blast
qed

text \<open>
  On other texts it panics: when the compacted text of a line that starts a UGC section ends with
  a dash and the byte seven places before the end lies inside a character, as in a line with an accented
  letter among the digits, the slice of \<^verbatim>\<open>has_ugc_expiration_suffix\<close> is not at a character boundary
  and the parse of the whole bulletin is lost.
\<close>

lemma ugc_panics_inside_char:
  assumes "is_ugc_start line" "c = compact_ugc_text line" "8 \<le> length c" "last c = CHR ''-''"
    "is_cont (byte_of (c ! (length c - 7)))" "iter_candidate_lines bulletin = line # lines"
  shows "parse_ugc_sections cal cat bulletin valid_time = Panic"
proof -
  have "\<not> is_char_boundary c (length c - 7)" using assms(3,5) by (auto simp: is_char_boundary_def)
  then have "has_ugc_expiration_suffix c = Panic" using assms(3,4) by (simp add: has_ugc_expiration_suffix_def slice_def)
  then have "collect_ugc_candidate c lines = Panic" by (simp add: collect_ugc_candidate.simps [of c lines])
  then show ?thesis
    using assms by (simp add: parse_ugc_sections_def parse_ugc_sections_with_issues_def)
qed

definition accented_line :: str where
  "accented_line = ''IAC001-'' @ [CHR 0xC3, CHR 0xA9] @ ''12345-''"

lemma ugc_panics_inside_char_sample:
  "parse_ugc_sections minute_calendar no_catalog accented_line 0 = Panic"
proof -
  have "is_ugc_start accented_line" by code_simp
  moreover have "compact_ugc_text accented_line = accented_line" by code_simp
  moreover have "8 \<le> length accented_line \<and> last accented_line = CHR ''-''" by code_simp
  moreover have "is_cont (byte_of (accented_line ! (length accented_line - 7)))" by code_simp
  moreover have "iter_candidate_lines accented_line = [accented_line]" by code_simp
  ultimately show ?thesis using ugc_panics_inside_char [of accented_line accented_line accented_line "[]"] by simp
qed

text \<open>
  C32.  Every section that the parser returns is well formed: it has at least one area, its groups are
  in increasing order of two-letter upper-case prefixes and not empty, and every number has at most
  three digits, also when a shortened range end is completed with the start's leading digits.
\<close>

theorem ugc_sections_well_formed:
  assumes "parse_ugc_sections cal cat bulletin valid_time = Ret sections" "s \<in> set sections"
  shows "section_ok s \<and> 0 < section_size s"
proof -
  obtain cs issues where "parse_captures cal cat valid_time cs = Ret (sections, issues)"
    using assms(1) by (auto simp: parse_ugc_sections_def parse_ugc_sections_with_issues_def)
  from captures_sections_ok [OF this assms(2)] show ?thesis .
qed

theorem ugc_sections_well_formed_witness:
  "\<exists>s. parse_ugc_sections minute_calendar no_catalog
      (unlines [CHR 0x0A] [dashed idaho @ expiry 5 12 0 @ ''-'']) 0 = Ret [s] \<and> section_ok s \<and> 0 < section_size s"
proof -
  have p: "parse_ugc_sections minute_calendar no_catalog (unlines [CHR 0x0A] [dashed idaho @ expiry 5 12 0 @ ''-'']) 0 =
      Ret [section_from_codes no_catalog (seg_codes None idaho) 7920]"
    using written_block_parsed [of "[]" idaho 5 12 0 minute_calendar 0 7920 "[]" "[]" "[CHR 0x0A]" no_catalog] idaho_ok
    by (simp add: block_lines_def parse_ugc_sections_def)
  from p ugc_sections_well_formed [OF p] show ?thesis by simp
qed

text \<open>
  The grouping of codes loses nothing and keeps the order: under every prefix, each of the four
  maps holds the areas of exactly the codes of its class, in the order of the text; zone codes of a
  marine prefix go to the marine map; names and coordinates come from the catalogue of the class; and
  the section has as many areas as codes.
\<close>

lemma section_from_codes_groups:
  fixes cat codes expires k
  defines "s \<equiv> section_from_codes cat codes expires"
  shows "areas_at (us_counties s) k =
      map (\<lambda>c. build_area c (Some (ct_county cat))) (filter (\<lambda>c. uc_state c = k \<and> uc_geoclass c = County) codes) \<and>
    areas_at (us_fire_zones s) k =
      map (\<lambda>c. build_area c None) (filter (\<lambda>c. uc_state c = k \<and> uc_geoclass c = FireZone) codes) \<and>
    areas_at (us_zones s) k =
      map (\<lambda>c. build_area c (Some (ct_zone cat)))
        (filter (\<lambda>c. uc_state c = k \<and> zone_code c \<and> \<not> is_marine_zone_state k) codes) \<and>
    areas_at (us_marine_zones s) k =
      map (\<lambda>c. build_area c (if uc_geoclass c = Marine then None else Some (ct_zone cat)))
        (filter (\<lambda>c. uc_state c = k \<and> (uc_geoclass c = Marine \<or> zone_code c \<and> is_marine_zone_state k)) codes) \<and>
    section_size s = length codes"
  unfolding s_def by (simp add: section_from_codes_ok(2)) (simp add: section_from_codes_def section_fold_areas)

end
