(* ===== verification/Parser_Header.thy ===== *)
theory Parser_Header
  imports Parser_Time Rust_Lines
begin

text \<open>
  WMO and AFOS headers of text products (emwin-parser/src/header): the conditioning of raw transport
  bytes, the header and AFOS lines, the split into header and body, and the enrichment of a header.
  The lossy decoding of bytes belongs to the bstr crate and the catalogue of products is generated: both
  are parameters.  The borrowed and the owned header types of the source have the same fields and are
  one record here; \<^verbatim>\<open>to_owned\<close> also completes the product type.
\<close>

section \<open>Headers and errors\<close>

record wmo_header =
  wh_ttaaii :: str
  wh_cccc :: str
  wh_ddhhmm :: str
  wh_bbb :: "str option"

record text_product_header =
  th_ttaaii :: str
  th_cccc :: str
  th_ddhhmm :: str
  th_bbb :: "str option"
  th_afos :: str

record parsed_text_product =
  pt_header :: text_product_header
  pt_conditioned_text :: str
  pt_body_text :: str

record parsed_wmo_bulletin =
  pw_header :: wmo_header
  pw_conditioned_text :: str
  pw_body_text :: str

datatype parser_error =
    EmptyInput
  | MissingWmoLine
  | InvalidWmoHeader str
  | MissingAfosLine
  | MissingAfos str

fun show_parser_error :: "parser_error \<Rightarrow> str" where
  "show_parser_error EmptyInput = ''text payload is empty after conditioning''"
| "show_parser_error MissingWmoLine = ''conditioned text does not contain a WMO header line''"
| "show_parser_error (InvalidWmoHeader line) = ''could not parse WMO header line: `'' @ line @ ''`''"
| "show_parser_error MissingAfosLine = ''conditioned text does not contain an AFOS line''"
| "show_parser_error (MissingAfos line) = ''could not parse AFOS PIL from line: `'' @ line @ ''`''"

section \<open>Lines\<close>

abbreviation nl :: char where
  "nl \<equiv> CHR 0x0A"

definition nth_line :: "str \<Rightarrow> nat \<Rightarrow> str option" where
  "nth_line s i = (if i < length (text_lines s) then Some (text_lines s ! i) else None)"

definition upper_or_digit :: "char \<Rightarrow> bool" where
  "upper_or_digit c \<longleftrightarrow> is_upper c \<or> is_digit c"

text \<open>The slices of \<^verbatim>\<open>is_valid_ddhhmm\<close> are taken of six ASCII digits only.\<close>

definition is_valid_ddhhmm :: "str \<Rightarrow> bool" where
  "is_valid_ddhhmm v \<longleftrightarrow>
     length v = 6 \<and> list_all is_digit v \<and>
     (case (parse_u32 (take 2 v), parse_u32 (take 2 (drop 2 v)), parse_u32 (take 2 (drop 4 v))) of
        (Some day, Some hour, Some minute) \<Rightarrow> 1 \<le> day \<and> day \<le> 31 \<and> hour \<le> 23 \<and> minute \<le> 59
      | _ \<Rightarrow> False)"

definition is_valid_bbb :: "str \<Rightarrow> bool" where
  "is_valid_bbb v \<longleftrightarrow>
     length v = 3 \<and> v ! 0 \<in> {CHR ''A'', CHR ''C'', CHR ''R''} \<and>
     v ! 1 \<in> {CHR ''A'', CHR ''C'', CHR ''M'', CHR ''O'', CHR ''R'', CHR ''T''} \<and> is_upper (v ! 2)"

definition valid_wmo_fields :: "str \<Rightarrow> str \<Rightarrow> str \<Rightarrow> str option \<Rightarrow> bool" where
  "valid_wmo_fields ttaaii cccc ddhhmm bbb \<longleftrightarrow>
     4 \<le> length ttaaii \<and> length ttaaii \<le> 6 \<and> list_all upper_or_digit ttaaii \<and>
     length cccc = 4 \<and> list_all is_upper cccc \<and> is_valid_ddhhmm ddhhmm \<and>
     (case bbb of None \<Rightarrow> True | Some b \<Rightarrow> is_valid_bbb b)"

definition parse_wmo_line :: "str \<Rightarrow> wmo_header option" where
  "parse_wmo_line line =
     (case split_whitespace (trim line) of
        ttaaii # cccc # ddhhmm # rest \<Rightarrow>
          (let bbb = (case rest of [] \<Rightarrow> None | b # _ \<Rightarrow> Some b) in
           if length rest \<le> 1 \<and> valid_wmo_fields ttaaii cccc ddhhmm bbb
           then Some \<lparr>wh_ttaaii = ttaaii, wh_cccc = cccc, wh_ddhhmm = ddhhmm, wh_bbb = bbb\<rparr>
           else None)
      | _ \<Rightarrow> None)"

definition parse_afos_line :: "str \<Rightarrow> str option" where
  "parse_afos_line line =
     (let t = trim_end_matches (\<lambda>c. c = CHR '' '' \<or> c = CHR 0x09) line in
      if \<not> (4 \<le> length t \<and> length t \<le> 6) then None
      else if list_all upper_or_digit t then Some t else None)"

definition has_ldm_sequence :: "str \<Rightarrow> bool" where
  "has_ldm_sequence s \<longleftrightarrow>
     3 \<le> length s \<and> list_all is_digit (take 3 s) \<and> 3 < length s \<and> (s ! 3 = CHR '' '' \<or> s ! 3 = nl)"

section \<open>Conditioning\<close>

definition condition_text :: "str \<Rightarrow> parser_error + str" where
  "condition_text input =
     (let t0 = trim (filter (\<lambda>c. c \<noteq> CHR 0x0D \<and> c \<noteq> CHR 0x00) input) in
      if t0 = [] then Inl EmptyInput
      else
        let t1 = (if hd t0 = CHR 0x01
                  then (case split_once nl t0 of Some (_, rest) \<Rightarrow> rest | None \<Rightarrow> []) else t0);
            t2 = (if t1 \<noteq> [] \<and> last t1 = CHR 0x03 then butlast t1 else t1);
            conditioned = (if has_ldm_sequence t2 then t2 else ''000 '' @ [nl] @ t2)
        in case nth_line conditioned 1 of
             None \<Rightarrow> Inl MissingWmoLine
           | Some line2 \<Rightarrow>
               if parse_wmo_line line2 = None then Inl (InvalidWmoHeader line2)
               else Inr (if last conditioned = nl then conditioned else conditioned @ [nl]))"

definition condition_text_bytes :: "(bytes \<Rightarrow> str) \<Rightarrow> bytes \<Rightarrow> parser_error + str" where
  "condition_text_bytes lossy bs = condition_text (lossy bs)"

section \<open>Header and body\<close>

fun newline_offsets :: "nat \<Rightarrow> str \<Rightarrow> nat list" where
  "newline_offsets i [] = []"
| "newline_offsets i (c # s) = (if c = nl then i # newline_offsets (Suc i) s else newline_offsets (Suc i) s)"

fun seek_line :: "nat \<Rightarrow> nat \<Rightarrow> nat list \<Rightarrow> nat option" where
  "seek_line n seen [] = None"
| "seek_line n seen (p # ps) = (if Suc seen = n then Some (p + 1) else seek_line n (Suc seen) ps)"

definition offset_after_n_lines :: "str \<Rightarrow> nat \<Rightarrow> nat option" where
  "offset_after_n_lines s n =
     (if n = 0 then Some 0
      else case seek_line n 0 (newline_offsets 0 s) of Some i \<Rightarrow> Some i | None \<Rightarrow> Some (length s))"

text \<open>The offset is the start, the end or follows a line feed, so the slice is at a character boundary.\<close>

definition body_after_lines :: "str \<Rightarrow> nat \<Rightarrow> str" where
  "body_after_lines s n =
     drop (case offset_after_n_lines s n of Some i \<Rightarrow> i | None \<Rightarrow> length s) s"

definition parse_wmo :: "str \<Rightarrow> parser_error + wmo_header" where
  "parse_wmo s =
     (case nth_line s 1 of
        None \<Rightarrow> Inl MissingWmoLine
      | Some line \<Rightarrow> (case parse_wmo_line line of None \<Rightarrow> Inl (InvalidWmoHeader line) | Some h \<Rightarrow> Inr h))"

definition parse_afos :: "str \<Rightarrow> parser_error + str" where
  "parse_afos s =
     (case nth_line s 2 of
        None \<Rightarrow> Inl MissingAfosLine
      | Some line3 \<Rightarrow> (case parse_afos_line line3 of None \<Rightarrow> Inl (MissingAfos line3) | Some a \<Rightarrow> Inr a))"

definition parse_wmo_bulletin_conditioned_ref :: "str \<Rightarrow> parser_error + parsed_wmo_bulletin" where
  "parse_wmo_bulletin_conditioned_ref s =
     (case parse_wmo s of
        Inl e \<Rightarrow> Inl e
      | Inr h \<Rightarrow> Inr \<lparr>pw_header = h, pw_conditioned_text = s, pw_body_text = body_after_lines s 2\<rparr>)"

definition parse_text_product_conditioned_ref :: "str \<Rightarrow> parser_error + parsed_text_product" where
  "parse_text_product_conditioned_ref s =
     (case parse_wmo_bulletin_conditioned_ref s of
        Inl e \<Rightarrow> Inl e
      | Inr parsed \<Rightarrow>
          (case parse_afos s of
             Inl e \<Rightarrow> Inl e
           | Inr afos \<Rightarrow>
               (let h = pw_header parsed in
                Inr \<lparr>pt_header = \<lparr>th_ttaaii = wh_ttaaii h, th_cccc = wh_cccc h, th_ddhhmm = wh_ddhhmm h,
                       th_bbb = wh_bbb h, th_afos = afos\<rparr>,
                     pt_conditioned_text = s, pt_body_text = body_after_lines s 3\<rparr>)))"

definition normalize_ttaaii :: "str \<Rightarrow> str" where
  "normalize_ttaaii t = (if length t = 4 then t @ ''00'' else t)"

definition wmo_to_owned :: "wmo_header \<Rightarrow> wmo_header" where
  "wmo_to_owned h = h\<lparr>wh_ttaaii := normalize_ttaaii (wh_ttaaii h)\<rparr>"

definition text_to_owned :: "text_product_header \<Rightarrow> text_product_header" where
  "text_to_owned h = h\<lparr>th_ttaaii := normalize_ttaaii (th_ttaaii h)\<rparr>"

definition parse_text_product :: "(bytes \<Rightarrow> str) \<Rightarrow> bytes \<Rightarrow> parser_error + text_product_header" where
  "parse_text_product lossy bs =
     (case condition_text_bytes lossy bs of
        Inl e \<Rightarrow> Inl e
      | Inr conditioned \<Rightarrow>
          (case parse_text_product_conditioned_ref conditioned of
             Inl e \<Rightarrow> Inl e
           | Inr parsed \<Rightarrow> Inr (text_to_owned (pt_header parsed))))"

section \<open>Timestamps and enrichment\<close>

definition parse_timestamp_fields :: "calendar \<Rightarrow> str \<Rightarrow> datetime \<Rightarrow> datetime option rust" where
  "parse_timestamp_fields cal ddhhmm reference =
     (if length ddhhmm \<noteq> 6 then Ret None
      else rbind (slice ddhhmm 0 2) (\<lambda>d. case parse_u32 d of None \<Rightarrow> Ret None | Some day \<Rightarrow>
        rbind (slice ddhhmm 2 4) (\<lambda>h. case parse_u32 h of None \<Rightarrow> Ret None | Some hour \<Rightarrow>
          rbind (slice ddhhmm 4 6) (\<lambda>m. case parse_u32 m of None \<Rightarrow> Ret None | Some minute \<Rightarrow>
            Ret (if day = 0 \<or> day > 31 \<or> hour > 23 \<or> minute > 59 then None
                 else resolve_day_time_nearest cal reference (unat day) (unat hour) (unat minute))))))"

definition wmo_timestamp :: "calendar \<Rightarrow> wmo_header \<Rightarrow> datetime \<Rightarrow> datetime option rust" where
  "wmo_timestamp cal h reference = parse_timestamp_fields cal (wh_ddhhmm h) reference"

definition text_timestamp :: "calendar \<Rightarrow> text_product_header \<Rightarrow> datetime \<Rightarrow> datetime option rust" where
  "text_timestamp cal h reference =
     wmo_timestamp cal \<lparr>wh_ttaaii = th_ttaaii h, wh_cccc = th_cccc h, wh_ddhhmm = th_ddhhmm h, wh_bbb = th_bbb h\<rparr> reference"

datatype bbb_kind = Amendment | Correction | DelayedRepeat | OtherBbb

definition classify_bbb :: "str \<Rightarrow> bbb_kind" where
  "classify_bbb bbb =
     (let normalized = to_ascii_uppercase (trim bbb) in
      if prefix ''AA'' normalized then Amendment
      else if prefix ''CC'' normalized then Correction
      else if prefix ''RR'' normalized then DelayedRepeat
      else OtherBbb)"

record text_product_enrichment =
  te_pil_nnn :: "str option"
  te_pil_description :: "str option"
  te_bbb_kind :: "bbb_kind option"

text \<open>The catalogue gives the title of a product.\<close>

definition enrich_header :: "(str \<Rightarrow> str option) \<Rightarrow> text_product_header \<Rightarrow> text_product_enrichment rust" where
  "enrich_header catalog_title header =
     rbind (if 3 \<le> length (th_afos header) then rbind (slice (th_afos header) 0 3) (\<lambda>p. Ret (Some p)) else Ret None)
       (\<lambda>pil_nnn. Ret \<lparr>te_pil_nnn = pil_nnn,
          te_pil_description = (case pil_nnn of None \<Rightarrow> None | Some p \<Rightarrow> catalog_title p),
          te_bbb_kind = map_option classify_bbb (th_bbb header)\<rparr>)"

section \<open>Lines of a conditioned text\<close>

lemma strip_cr_no: "CHR 0x0D \<notin> set l \<Longrightarrow> strip_cr l = l"
  by (auto simp: strip_cr_def suffix_def)

lemma split_char_snoc: "split_char c (s @ [c]) = split_char c s @ [[]]"
proof (induction s)
  case (Cons a s)
  obtain y ys where "split_char c s = y # ys" by (meson neq_Nil_conv split_char_nonempty)
  with Cons show ?case by simp
qed simp

lemma split_char_concat: "concat (map (\<lambda>l. l @ [c]) (split_char c s)) = s @ [c]"
proof (induction s)
  case (Cons a s)
  obtain y ys where "split_char c s = y # ys" by (meson neq_Nil_conv split_char_nonempty)
  with Cons show ?case by simp
qed simp

lemma split_char_snoc_other:
  "x \<noteq> c \<Longrightarrow> split_char c (s @ [x]) = butlast (split_char c s) @ [last (split_char c s) @ [x]]"
proof (induction s)
  case (Cons a s)
  obtain y ys where "split_char c s = y # ys" by (meson neq_Nil_conv split_char_nonempty)
  with Cons show ?case by (cases "ys = []") auto
qed simp

lemma last_split_char: "s \<noteq> [] \<Longrightarrow> last (split_char c s) = [] \<longleftrightarrow> last s = c"
proof (cases s rule: rev_cases)
  case (snoc t x)
  then show ?thesis by (cases "x = c") (simp_all add: split_char_snoc split_char_snoc_other)
qed simp

text \<open>A text without carriage returns that ends with a line feed is its lines, each with a line feed.\<close>

lemma text_lines_ended:
  assumes "CHR 0x0D \<notin> set s" "s \<noteq> []" "last s = nl"
  shows "unlines [nl] (text_lines s) = s" "\<forall>l \<in> set (text_lines s). nl \<notin> set l"
proof -
  obtain t where t: "s = t @ [nl]" using assms(2,3) by (metis append_butlast_last_id)
  have "CHR 0x0D \<notin> set l" if "l \<in> set (split_char nl t)" for l
    using set_split_char [OF that] assms(1) t by auto
  then have lines: "text_lines s = split_char nl t"
    by (simp add: text_lines_def t split_char_snoc map_idI strip_cr_no)
  show "unlines [nl] (text_lines s) = s" unfolding lines by (simp add: split_char_concat unlines_def t)
  show "\<forall>l \<in> set (text_lines s). nl \<notin> set l" unfolding lines by (blast dest: split_char_lines [of _ nl])
qed

lemma text_lines_close:
  assumes "CHR 0x0D \<notin> set s" "s \<noteq> []" "last s \<noteq> nl"
  shows "text_lines (s @ [nl]) = text_lines s"
proof -
  have no: "CHR 0x0D \<notin> set l" if "l \<in> set (split_char nl s)" for l
    using set_split_char [OF that] assms(1) by auto
  have "last (split_char nl s) \<noteq> []" using last_split_char [OF assms(2)] assms(3) by simp
  moreover have "strip_cr (last (split_char nl s)) = last (split_char nl s)" by (intro strip_cr_no no) simp
  moreover have "map strip_cr (split_char nl s) = map strip_cr (butlast (split_char nl s)) @ [strip_cr (last (split_char nl s))]"
    by (metis append_butlast_last_id list.simps(8) list.simps(9) map_append split_char_nonempty)
  ultimately show ?thesis by (simp add: text_lines_def split_char_snoc Let_def)
qed

lemma newline_offsets_line:
  "nl \<notin> set l \<Longrightarrow> newline_offsets i (l @ nl # s) = (i + length l) # newline_offsets (Suc (i + length l)) s"
  by (induction l arbitrary: i) auto

lemma seek_lines:
  assumes "\<forall>l \<in> set ls. nl \<notin> set l" "seen < n"
  shows "seek_line n seen (newline_offsets i (unlines [nl] ls)) =
    (if n - seen \<le> length ls then Some (i + length (unlines [nl] (take (n - seen) ls))) else None)"
  using assms
proof (induction ls arbitrary: seen i)
  case (Cons l ls)
  have l: "newline_offsets i (unlines [nl] (l # ls)) = (i + length l) # newline_offsets (Suc (i + length l)) (unlines [nl] ls)"
    using Cons.prems(1) newline_offsets_line [of l i "unlines [nl] ls"] by (simp add: unlines_def)
  show ?case
  proof (cases "Suc seen = n")
    case True
    then have "n - seen = 1" by simp
    then show ?thesis using True unfolding l by (simp add: unlines_def)
  next
    case False
    then obtain k where k: "n - seen = Suc k" "n - Suc seen = k" "Suc seen < n" using Cons.prems(2)
      by (metis Suc_diff_Suc Suc_lessI)
    with Cons.IH [of "Suc seen" "Suc (i + length l)"] Cons.prems(1) False show ?thesis
      unfolding l by simp (simp add: unlines_def)
  qed
qed (simp add: unlines_def)

lemma body_after_unlines:
  assumes "\<forall>l \<in> set ls. nl \<notin> set l"
  shows "body_after_lines (unlines [nl] ls) n = unlines [nl] (drop n ls)"
proof (cases "n = 0")
  case False
  have split: "unlines [nl] ls = unlines [nl] (take n ls) @ unlines [nl] (drop n ls)"
    by (metis append_take_drop_id concat_append map_append unlines_def)
  have "drop (length (unlines [nl] (take n ls))) (unlines [nl] ls) = unlines [nl] (drop n ls)"
    by (subst split) simp
  with False seek_lines [OF assms, of 0 n 0] show ?thesis
    by (auto simp: body_after_lines_def offset_after_n_lines_def unlines_def)
qed (simp add: body_after_lines_def offset_after_n_lines_def)

section \<open>The layout of a conditioned text\<close>

definition conditioned_ok :: "str \<Rightarrow> bool" where
  "conditioned_ok t \<longleftrightarrow> CHR 0x0D \<notin> set t \<and> CHR 0x00 \<notin> set t \<and> t \<noteq> [] \<and> last t = nl \<and> has_ldm_sequence t \<and>
     (\<exists>l1 l2 ls. text_lines t = l1 # l2 # ls \<and> parse_wmo_line l2 \<noteq> None)"

lemma has_ldm_append: "has_ldm_sequence s \<Longrightarrow> has_ldm_sequence (s @ t)"
  by (auto simp: has_ldm_sequence_def nth_append)

lemma split_once_set: "split_once c s = Some (a, b) \<Longrightarrow> set b \<subseteq> set s"
  by (auto dest: split_once_Some)

lemma condition_text_stages:
  assumes "trim (filter (\<lambda>c. c \<noteq> CHR 0x0D \<and> c \<noteq> CHR 0x00) s) = t0" "t0 \<noteq> []"
    "(if hd t0 = CHR 0x01 then (case split_once nl t0 of Some (_, rest) \<Rightarrow> rest | None \<Rightarrow> []) else t0) = t1"
    "(if t1 \<noteq> [] \<and> last t1 = CHR 0x03 then butlast t1 else t1) = t2"
    "(if has_ldm_sequence t2 then t2 else ''000 '' @ [nl] @ t2) = conditioned"
  shows "condition_text s =
    (case nth_line conditioned 1 of
       None \<Rightarrow> Inl MissingWmoLine
     | Some line2 \<Rightarrow> if parse_wmo_line line2 = None then Inl (InvalidWmoHeader line2)
         else Inr (if last conditioned = nl then conditioned else conditioned @ [nl]))"
  unfolding condition_text_def Let_def assms(1) assms(3) assms(4) assms(5) using assms(2) by simp

lemma condition_text_ok:
  assumes "condition_text s = Inr t"
  shows "conditioned_ok t"
proof -
  let ?keep = "\<lambda>u. CHR 0x0D \<notin> set u \<and> CHR 0x00 \<notin> set u"
  define t0 where "t0 = trim (filter (\<lambda>c. c \<noteq> CHR 0x0D \<and> c \<noteq> CHR 0x00) s)"
  define t1 where "t1 = (if hd t0 = CHR 0x01 then (case split_once nl t0 of Some (_, rest) \<Rightarrow> rest | None \<Rightarrow> []) else t0)"
  define t2 where "t2 = (if t1 \<noteq> [] \<and> last t1 = CHR 0x03 then butlast t1 else t1)"
  define cond where "cond = (if has_ldm_sequence t2 then t2 else ''000 '' @ [nl] @ t2)"
  have "?keep t0" using set_trim [of "filter (\<lambda>c. c \<noteq> CHR 0x0D \<and> c \<noteq> CHR 0x00) s"] by (auto simp: t0_def)
  moreover have "set t1 \<subseteq> set t0"
    unfolding t1_def using split_once_set [of nl t0] by (cases "split_once nl t0") auto
  ultimately have "?keep t1" by blast
  then have "?keep t2" by (auto simp: t2_def dest: in_set_butlastD)
  then have keep: "?keep cond" by (simp add: cond_def)
  have "t0 \<noteq> []" using assms by (auto simp: condition_text_def Let_def t0_def)
  from condition_text_stages [OF t0_def [symmetric] this t1_def [symmetric] t2_def [symmetric] cond_def [symmetric]] assms
  obtain line2 where l2: "nth_line cond 1 = Some line2" "parse_wmo_line line2 \<noteq> None"
      "t = (if last cond = nl then cond else cond @ [nl])"
    by (auto split: if_split_asm option.split_asm)
  have ne: "cond \<noteq> []" using l2(1) by (auto simp: nth_line_def split: if_splits)
  have ldm: "has_ldm_sequence cond" by (auto simp: cond_def) (simp add: has_ldm_sequence_def is_digit_def)
  have "text_lines t = text_lines cond" using text_lines_close keep ne l2(3) by auto
  then have "nth_line t 1 = Some line2" using l2(1) by (simp add: nth_line_def split: if_splits)
  then obtain l1 ls where "text_lines t = l1 # line2 # ls"
    by (cases "text_lines t"; cases "tl (text_lines t)") (auto simp: nth_line_def split: if_splits)
  with l2 keep ne ldm show ?thesis by (auto simp: conditioned_ok_def has_ldm_append)
qed

lemma conditioned_parse:
  assumes "conditioned_ok t" "text_lines t = l1 # l2 # ls" "parse_wmo_line l2 = Some h"
  shows "parse_wmo_bulletin_conditioned_ref t = Inr \<lparr>pw_header = h, pw_conditioned_text = t, pw_body_text = unlines [nl] ls\<rparr>"
    "parse_text_product_conditioned_ref t =
      (case ls of
         [] \<Rightarrow> Inl MissingAfosLine
       | l3 # rest \<Rightarrow>
           (case parse_afos_line l3 of
              None \<Rightarrow> Inl (MissingAfos l3)
            | Some afos \<Rightarrow>
                Inr \<lparr>pt_header = \<lparr>th_ttaaii = wh_ttaaii h, th_cccc = wh_cccc h, th_ddhhmm = wh_ddhhmm h,
                       th_bbb = wh_bbb h, th_afos = afos\<rparr>,
                     pt_conditioned_text = t, pt_body_text = unlines [nl] rest\<rparr>))"
proof -
  have t: "unlines [nl] (l1 # l2 # ls) = t" "\<forall>l \<in> set (l1 # l2 # ls). nl \<notin> set l"
    using text_lines_ended [of t] assms(1,2) by (simp_all add: conditioned_ok_def)
  have body: "body_after_lines t n = unlines [nl] (drop n (l1 # l2 # ls))" for n
    using body_after_unlines [OF t(2)] t(1) by metis
  have wmo: "parse_wmo t = Inr h" using assms(2,3) by (simp add: parse_wmo_def nth_line_def)
  then show w: "parse_wmo_bulletin_conditioned_ref t =
      Inr \<lparr>pw_header = h, pw_conditioned_text = t, pw_body_text = unlines [nl] ls\<rparr>"
    by (simp add: parse_wmo_bulletin_conditioned_ref_def body numeral_2_eq_2)
  show "parse_text_product_conditioned_ref t = (case ls of
         [] \<Rightarrow> Inl MissingAfosLine
       | l3 # rest \<Rightarrow>
           (case parse_afos_line l3 of
              None \<Rightarrow> Inl (MissingAfos l3)
            | Some afos \<Rightarrow>
                Inr \<lparr>pt_header = \<lparr>th_ttaaii = wh_ttaaii h, th_cccc = wh_cccc h, th_ddhhmm = wh_ddhhmm h,
                       th_bbb = wh_bbb h, th_afos = afos\<rparr>,
                     pt_conditioned_text = t, pt_body_text = unlines [nl] rest\<rparr>))"
    by (cases ls) (simp_all add: parse_text_product_conditioned_ref_def w parse_afos_def nth_line_def assms(2) body
        numeral_2_eq_2 numeral_3_eq_3 Let_def split: option.split)
qed

section \<open>Written headers\<close>

lemma trim_rev_keeps:
  assumes "\<not> ws_last c"
  shows "\<exists>r'. suffix r' r \<and> trim_rev (r @ c # x) = r' @ c # x"
proof (induction r rule: length_induct)
  case (1 r)
  have stop: "trim_rev (c # x) = c # x" using trim_rev_keep [of "c # x"] assms by simp
  have c: "\<not> ws1 c" "\<not> ws2 c b" "\<not> ws2 b c" "\<not> ws3 c b d" "\<not> ws3 b c d" "\<not> ws3 b d c" for b d
    using assms by (auto simp: ws_last_def ws2_def ws3_def Let_def)
  consider (nil) "r = []" | (keep) "trim_rev (r @ c # x) = r @ c # x"
    | (cut) r' where "suffix r' r" "length r' < length r" "trim_rev (r @ c # x) = trim_rev (r' @ c # x)"
  proof (cases r rule: trim_rev.cases)
    case (2 a)
    then show ?thesis using that(2) that(3) [of "[]"] c by (cases "ws1 a"; cases x) auto
  next
    case (3 a b)
    then show ?thesis
      using that(2) that(3) [of "[b]"] that(3) [of "[]"] c
      by (cases "ws1 a"; cases "ws2 b a"; cases x) (auto simp: suffix_def)
  next
    case (4 a b d xs)
    then show ?thesis
      using that(2) that(3) [of "b # d # xs"] that(3) [of "d # xs"] that(3) [of xs]
      by (cases "ws1 a"; cases "ws2 b a"; cases "ws3 d b a") (auto simp: suffix_def)
  qed (use that(1) in blast)
  then show ?case
  proof cases
    case cut
    then obtain r'' where "suffix r'' r'" "trim_rev (r' @ c # x) = r'' @ c # x" using 1 by blast
    with cut show ?thesis using suffix_order.trans by metis
  qed (use stop in \<open>auto intro: exI [of _ r]\<close>)
qed

lemma trim_end_keeps: "\<not> ws_last c \<Longrightarrow> \<exists>q'. prefix q' q \<and> trim_end (p @ c # q) = p @ c # q'"
proof -
  assume "\<not> ws_last c"
  from trim_rev_keeps [OF this, of "rev q" "rev p"] obtain r' where
    r: "suffix r' (rev q)" "trim_rev (rev q @ c # rev p) = r' @ c # rev p" by blast
  then have "prefix (rev r') q" by (metis rev_rev_ident suffix_to_prefix)
  with r(2) show ?thesis by (intro exI [of _ "rev r'"]) (simp add: trim_end_def)
qed

lemma trim_end_spaces: "w \<noteq> [] \<Longrightarrow> \<not> ws_last (last w) \<Longrightarrow> trim_end (w @ spaces n) = w"
proof -
  assume w: "w \<noteq> []" "\<not> ws_last (last w)"
  have "trim_rev (spaces n @ rev w) = trim_rev (rev w)"
    by (induction n) (simp_all add: spaces_def trim_rev_ws1 ws1_def)
  moreover have "rev (spaces n) = spaces n" by (simp add: spaces_def)
  ultimately show ?thesis using trim_rev_keep [of "rev w"] w by (simp add: trim_end_def hd_rev)
qed

lemma upper_or_digit_plain: "upper_or_digit c \<Longrightarrow> word_char c \<and> \<not> ws_lead c \<and> \<not> ws_last c \<and>
    c \<notin> {nl, CHR 0x0D, CHR 0x01, CHR 0x03, CHR '' '', CHR 0x09}"
  by (auto simp: upper_or_digit_def is_upper_def is_digit_def word_char_def ws_lead_def ws_last_def ws1_def Let_def)

definition wmo_words :: "str \<Rightarrow> str \<Rightarrow> str \<Rightarrow> str option \<Rightarrow> nat \<Rightarrow> nat \<Rightarrow> nat \<Rightarrow> str" where
  "wmo_words ttaaii cccc ddhhmm bbb i j k =
     ttaaii @ spaces (Suc i) @ cccc @ spaces (Suc j) @ ddhhmm @ (case bbb of None \<Rightarrow> [] | Some x \<Rightarrow> spaces (Suc k) @ x)"

lemma bbb_upper: "is_valid_bbb b \<Longrightarrow> list_all upper_or_digit b \<and> b \<noteq> []"
proof -
  assume v: "is_valid_bbb b"
  then obtain x y z where "b = [x, y, z]"
    by (metis (no_types) is_valid_bbb_def length_0_conv length_Suc_conv numeral_3_eq_3)
  with v show ?thesis by (auto simp: is_valid_bbb_def upper_or_digit_def is_upper_def)
qed

lemma valid_fields_chars:
  assumes "valid_wmo_fields ttaaii cccc ddhhmm bbb"
  shows "list_all upper_or_digit ttaaii" "list_all upper_or_digit cccc" "list_all upper_or_digit ddhhmm"
    "ttaaii \<noteq> []" "cccc \<noteq> []" "ddhhmm \<noteq> []" "\<And>b. bbb = Some b \<Longrightarrow> list_all upper_or_digit b \<and> b \<noteq> []"
  using assms bbb_upper
  by (auto simp: valid_wmo_fields_def is_valid_ddhhmm_def upper_or_digit_def list_all_iff split: option.splits)

lemma wmo_words_chars:
  assumes "valid_wmo_fields ttaaii cccc ddhhmm bbb"
  shows "\<forall>c \<in> set (wmo_words ttaaii cccc ddhhmm bbb i j k). upper_or_digit c \<or> c = CHR '' ''"
    "upper_or_digit (last (wmo_words ttaaii cccc ddhhmm bbb i j k))"
    "upper_or_digit (hd (wmo_words ttaaii cccc ddhhmm bbb i j k))"
    "wmo_words ttaaii cccc ddhhmm bbb i j k \<noteq> []"
  using valid_fields_chars [OF assms]
  by (auto simp: wmo_words_def spaces_def list_all_iff split: option.splits)

lemma parse_wmo_written:
  assumes "valid_wmo_fields ttaaii cccc ddhhmm bbb"
  shows "parse_wmo_line (wmo_words ttaaii cccc ddhhmm bbb i j k @ spaces n) =
    Some \<lparr>wh_ttaaii = ttaaii, wh_cccc = cccc, wh_ddhhmm = ddhhmm, wh_bbb = bbb\<rparr>"
proof -
  let ?w = "wmo_words ttaaii cccc ddhhmm bbb i j k"
  have wc: "\<forall>c \<in> set w. word_char c" if "list_all upper_or_digit w" for w
    using that upper_or_digit_plain by (auto simp: list_all_iff)
  note f = valid_fields_chars [OF assms]
  have "split_whitespace ?w = ttaaii # cccc # ddhhmm # (case bbb of None \<Rightarrow> [] | Some b \<Rightarrow> [b])"
    using f wc by (cases bbb) (auto simp: wmo_words_def split_whitespace_word)
  moreover have "trim_start (?w @ spaces n) = ?w @ spaces n"
    using wmo_words_chars(3,4) [OF assms, of i j k] upper_or_digit_plain by (intro trim_start_keep) (cases ?w, auto)
  then have "trim (?w @ spaces n) = ?w"
    using wmo_words_chars(2,4) [OF assms, of i j k] upper_or_digit_plain by (simp add: trim_def trim_end_spaces)
  ultimately show ?thesis using assms by (cases bbb) (simp_all add: parse_wmo_line_def Let_def)
qed

lemma parse_afos_written:
  assumes "list_all upper_or_digit afos" "4 \<le> length afos" "length afos \<le> 6" "set pad \<subseteq> {CHR '' '', CHR 0x09}"
  shows "parse_afos_line (afos @ pad) = Some afos"
proof -
  let ?P = "\<lambda>c. c = CHR '' '' \<or> c = CHR 0x09"
  obtain x c where x: "afos = x @ [c]" "\<not> ?P c"
    using assms(1,2) upper_or_digit_plain by (cases afos rule: rev_cases) auto
  have "dropWhile ?P (rev pad @ rev afos) = dropWhile ?P (rev afos)"
    using assms(4) by (intro dropWhile_append2) auto
  then have "trim_end_matches ?P (afos @ pad) = afos" using x by (simp add: trim_end_matches_def)
  with assms show ?thesis by (simp add: parse_afos_line_def Let_def)
qed

text \<open>
  A product as it is transported: an optional start line after SOH, an optional sequence line, the header
  and AFOS lines, the body, an optional ETX.
\<close>

definition framed :: "str option \<Rightarrow> str option \<Rightarrow> str \<Rightarrow> str \<Rightarrow> str \<Rightarrow> bool \<Rightarrow> str" where
  "framed start seq wmo afos_line body etx =
     (case start of None \<Rightarrow> [] | Some junk \<Rightarrow> CHR 0x01 # junk @ [nl]) @
     (case seq of None \<Rightarrow> [] | Some digits \<Rightarrow> digits @ '' '' @ [nl]) @
     wmo @ [nl] @ afos_line @ [nl] @ body @ (if etx then [CHR 0x03] else [])"

definition seq_ok :: "str option \<Rightarrow> bool" where
  "seq_ok seq \<longleftrightarrow> (case seq of None \<Rightarrow> True | Some d \<Rightarrow> length d = 3 \<and> list_all is_digit d)"

definition seq_line :: "str option \<Rightarrow> str" where
  "seq_line seq = (case seq of None \<Rightarrow> ''000 '' | Some d \<Rightarrow> d @ '' '')"

lemma header_line_plain: "\<forall>c \<in> set l. upper_or_digit c \<or> c = CHR '' '' \<Longrightarrow> plain_line l"
  using upper_or_digit_plain last_in_set [of l] by (fastforce simp: plain_line_def)

lemma seq_line_chars: "seq_ok seq \<Longrightarrow> \<forall>c \<in> set (seq_line seq). upper_or_digit c \<or> c = CHR '' ''"
  by (cases seq) (auto simp: seq_line_def seq_ok_def upper_or_digit_def is_digit_def list_all_iff)

lemma text_lines_first: "nl \<notin> set x \<Longrightarrow> text_lines (x @ nl # z) = strip_cr x # text_lines z"
  by (simp add: text_lines_def split_char_append Let_def)

lemma prefix_of_line:
  assumes "prefix y (pad @ nl # z)" "nl \<notin> set pad"
  obtains pad' where "set pad' \<subseteq> set pad" "y = pad' \<or> (\<exists>u. y = pad' @ nl # u)"
proof (cases "prefix y pad")
  case True
  then show thesis using that [of y] set_mono_prefix by blast
next
  case False
  then obtain v where "y = pad @ v" "prefix v (nl # z)" using assms(1) by (auto simp: prefix_append)
  then show thesis using that [of pad] by (cases v) auto
qed

lemma cond_lines:
  assumes "plain_line l1" "plain_line l2" "nl \<notin> set afos" "CHR 0x0D \<notin> set afos" "afos \<noteq> []"
    "y = pad' \<or> (\<exists>u. y = pad' @ nl # u)" "set pad' \<subseteq> {CHR '' '', CHR 0x09}"
  shows "\<exists>ls. text_lines (l1 @ nl # l2 @ nl # afos @ y) = l1 # l2 # (afos @ pad') # ls"
proof -
  have two: "text_lines (l1 @ nl # l2 @ nl # z) = l1 # l2 # text_lines z" for z
    using text_lines_unlines_append [of "[l1, l2]" "[nl]" z] assms(1,2) by (simp add: unlines_def)
  have pad: "nl \<notin> set (afos @ pad')" "CHR 0x0D \<notin> set (afos @ pad')" using assms(3,4,7) by auto
  show ?thesis
  proof (cases "y = pad'")
    case True
    have "text_lines (afos @ pad') = [afos @ pad']" using pad assms(5) by (simp add: text_lines_def split_char_no)
    then show ?thesis using True by (simp add: two)
  next
    case False
    then obtain u where "y = pad' @ nl # u" using assms(6) by blast
    then have "text_lines (afos @ y) = strip_cr (afos @ pad') # text_lines u"
      using text_lines_first [OF pad(1)] by simp
    then show ?thesis using strip_cr_no [OF pad(2)] by (simp add: two)
  qed
qed

lemma condition_framed:
  assumes "valid_wmo_fields ttaaii cccc ddhhmm bbb" "seq_ok seq" "\<forall>junk. start = Some junk \<longrightarrow> nl \<notin> set junk"
    "list_all upper_or_digit afos" "afos \<noteq> []" "set pad \<subseteq> {CHR '' '', CHR 0x09}"
    "filter (\<lambda>c. c \<noteq> CHR 0x0D \<and> c \<noteq> CHR 0x00) s =
      framed start seq (wmo_words ttaaii cccc ddhhmm bbb i j k @ spaces n) (afos @ pad) body etx"
  shows "\<exists>t pad' ls. condition_text s = Inr t \<and> set pad' \<subseteq> {CHR '' '', CHR 0x09} \<and>
    text_lines t = seq_line seq # (wmo_words ttaaii cccc ddhhmm bbb i j k @ spaces n) # (afos @ pad') # ls"
proof -
  define wmo where "wmo = wmo_words ttaaii cccc ddhhmm bbb i j k @ spaces n"
  define S where "S = (case start of None \<Rightarrow> [] | Some junk \<Rightarrow> CHR 0x01 # junk @ [nl])"
  define L where "L = (case seq of None \<Rightarrow> [] | Some digits \<Rightarrow> digits @ '' '' @ [nl])"
  obtain as a where as: "afos = as @ [a]" using assms(5) by (metis rev_exhaust)
  have a: "upper_or_digit a" using assms(4) as by simp
  have wch: "\<forall>c \<in> set wmo. upper_or_digit c \<or> c = CHR '' ''" "upper_or_digit (hd wmo)" "wmo \<noteq> []"
    using wmo_words_chars [OF assms(1), of i j k] by (auto simp: wmo_def spaces_def)
  let ?q = "pad @ nl # body @ (if etx then [CHR 0x03] else [])"
  have F: "framed start seq wmo (afos @ pad) body etx = (S @ L @ wmo @ [nl] @ as) @ a # ?q"
    by (simp add: framed_def S_def L_def as)
  have hd: "\<not> ws_lead (hd ((S @ L @ wmo @ [nl] @ as) @ a # ?q))"
    using wch(2,3) upper_or_digit_plain assms(2) digit_not_ws
    by (cases start; cases seq; cases "the seq"; cases wmo)
      (auto simp: S_def L_def seq_ok_def ws_lead_def ws1_def)
  obtain q' where q': "prefix q' ?q"
      "trim_end ((S @ L @ wmo @ [nl] @ as) @ a # ?q) = (S @ L @ wmo @ [nl] @ as) @ a # q'"
    using trim_end_keeps a upper_or_digit_plain by blast
  define t0 where "t0 = S @ L @ wmo @ [nl] @ afos @ q'"
  have t0: "trim (filter (\<lambda>c. c \<noteq> CHR 0x0D \<and> c \<noteq> CHR 0x00) s) = t0"
    using assms(7) trim_start_keep [of "(S @ L @ wmo @ [nl] @ as) @ a # ?q"] hd q'(2)
    unfolding wmo_def [symmetric] F by (simp add: trim_def t0_def as)
  define t1 where "t1 = L @ wmo @ [nl] @ afos @ q'"
  have t1: "(if hd t0 = CHR 0x01 then (case split_once nl t0 of Some (_, rest) \<Rightarrow> rest | None \<Rightarrow> []) else t0) = t1"
  proof (cases start)
    case None
    have "hd t0 \<noteq> CHR 0x01"
      using wch(2,3) upper_or_digit_plain assms(2) None
      by (cases seq; cases "the seq"; cases wmo) (auto simp: t0_def S_def L_def seq_ok_def is_digit_def)
    then show ?thesis using None by (simp add: t0_def t1_def S_def)
  next
    case (Some junk)
    then have "split_once nl t0 = Some (CHR 0x01 # junk, t1)"
      using split_once_append [of nl "CHR 0x01 # junk" t1] assms(3) by (simp add: t0_def t1_def S_def)
    then show ?thesis using Some by (simp add: t0_def S_def)
  qed
  define q2 where "q2 = (if q' \<noteq> [] \<and> last q' = CHR 0x03 then butlast q' else q')"
  define t2 where "t2 = L @ wmo @ [nl] @ afos @ q2"
  have t2: "(if t1 \<noteq> [] \<and> last t1 = CHR 0x03 then butlast t1 else t1) = t2"
    using upper_or_digit_plain [OF a] by (auto simp: t1_def t2_def q2_def as butlast_append)
  have "prefix q2 q'" by (simp add: q2_def prefixeq_butlast)
  then have "prefix q2 (pad @ nl # body @ (if etx then [CHR 0x03] else []))" using q'(1) prefix_order.trans by blast
  then obtain pad' where pad': "set pad' \<subseteq> set pad" "q2 = pad' \<or> (\<exists>u. q2 = pad' @ nl # u)"
    using prefix_of_line [of q2 pad] assms(6) by auto
  define cond where "cond = seq_line seq @ nl # wmo @ nl # afos @ q2"
  have cond: "(if has_ldm_sequence t2 then t2 else ''000 '' @ [nl] @ t2) = cond"
  proof (cases seq)
    case None
    have "t2 ! 3 = ttaaii ! 3" "3 < length ttaaii" "3 < length t2"
      using assms(1) None by (simp_all add: t2_def L_def wmo_def wmo_words_def nth_append valid_wmo_fields_def)
    then have "\<not> has_ldm_sequence t2"
      using upper_or_digit_plain valid_fields_chars(1) [OF assms(1)] by (auto simp: has_ldm_sequence_def list_all_iff)
    then show ?thesis using None by (simp add: cond_def t2_def L_def seq_line_def)
  next
    case (Some d)
    then have "length d = 3" "list_all is_digit d" using assms(2) by (simp_all add: seq_ok_def)
    then have "has_ldm_sequence t2" using Some by (simp add: has_ldm_sequence_def t2_def L_def nth_append)
    then show ?thesis using Some by (simp add: cond_def t2_def L_def seq_line_def)
  qed
  have seq: "plain_line (seq_line seq)" using seq_line_chars [OF assms(2)] by (rule header_line_plain)
  have wl: "plain_line wmo" using wch(1) by (rule header_line_plain)
  have p: "set pad' \<subseteq> {CHR '' '', CHR 0x09}" using pad'(1) assms(6) by blast
  have af: "nl \<notin> set afos" "CHR 0x0D \<notin> set afos" using assms(4) upper_or_digit_plain by (auto simp: list_all_iff)
  obtain ls where ls: "text_lines cond = seq_line seq # wmo # (afos @ pad') # ls"
    using cond_lines [OF seq wl af assms(5) pad'(2) p] by (auto simp: cond_def)
  have pw: "parse_wmo_line wmo \<noteq> None" using parse_wmo_written [OF assms(1), of i j k n] by (simp add: wmo_def)
  have keep: "CHR 0x0D \<notin> set cond"
  proof -
    have "CHR 0x0D \<notin> set t0" using set_trim [of "filter (\<lambda>c. c \<noteq> CHR 0x0D \<and> c \<noteq> CHR 0x00) s"] unfolding t0 [symmetric] by auto
    moreover have "set q2 \<subseteq> set q'" using \<open>prefix q2 q'\<close> by (rule set_mono_prefix)
    moreover have "CHR 0x0D \<notin> set (seq_line seq)" using seq_line_chars [OF assms(2)] upper_or_digit_plain by fastforce
    ultimately show ?thesis using af by (auto simp: t0_def cond_def)
  qed
  have "t0 \<noteq> []" by (simp add: t0_def)
  then have "condition_text s = Inr (if last cond = nl then cond else cond @ [nl])"
    using condition_text_stages [OF t0 _ t1 t2 cond] ls pw by (simp add: nth_line_def)
  moreover have "text_lines (if last cond = nl then cond else cond @ [nl]) = seq_line seq # wmo # (afos @ pad') # ls"
    using ls text_lines_close [OF keep] by (simp add: cond_def)
  ultimately show ?thesis using p unfolding wmo_def by blast
qed

section \<open>Parsed headers\<close>

definition header_ok :: "text_product_header \<Rightarrow> bool" where
  "header_ok h \<longleftrightarrow>
     (length (th_ttaaii h) = 5 \<or> length (th_ttaaii h) = 6) \<and> list_all upper_or_digit (th_ttaaii h) \<and>
     length (th_cccc h) = 4 \<and> list_all is_upper (th_cccc h) \<and> is_valid_ddhhmm (th_ddhhmm h) \<and>
     (\<forall>b. th_bbb h = Some b \<longrightarrow> is_valid_bbb b) \<and>
     4 \<le> length (th_afos h) \<and> length (th_afos h) \<le> 6 \<and> list_all upper_or_digit (th_afos h)"

lemma parse_wmo_line_valid:
  "parse_wmo_line l = Some h \<Longrightarrow> valid_wmo_fields (wh_ttaaii h) (wh_cccc h) (wh_ddhhmm h) (wh_bbb h)"
  by (auto simp: parse_wmo_line_def Let_def split: list.splits if_splits)

lemma parse_afos_line_valid:
  "parse_afos_line l = Some a \<Longrightarrow> 4 \<le> length a \<and> length a \<le> 6 \<and> list_all upper_or_digit a"
  by (auto simp: parse_afos_line_def Let_def split: if_splits)

lemma normalize_ttaaii_ok:
  "4 \<le> length t \<Longrightarrow> length t \<le> 6 \<Longrightarrow> list_all upper_or_digit t \<Longrightarrow>
    (length (normalize_ttaaii t) = 5 \<or> length (normalize_ttaaii t) = 6) \<and> list_all upper_or_digit (normalize_ttaaii t)"
  by (auto simp: normalize_ttaaii_def upper_or_digit_def is_digit_def)

lemma parsed_header_ok:
  assumes "parse_text_product lossy bs = Inr h"
  shows "header_ok h"
proof -
  obtain t where t: "condition_text (lossy bs) = Inr t"
    using assms by (auto simp: parse_text_product_def condition_text_bytes_def split: sum.splits)
  obtain l1 l2 ls w where l: "text_lines t = l1 # l2 # ls" "parse_wmo_line l2 = Some w"
    using condition_text_ok [OF t] by (auto simp: conditioned_ok_def)
  note p = conditioned_parse(2) [OF condition_text_ok [OF t] l]
  from assms t p obtain l3 rest a where a: "ls = l3 # rest" "parse_afos_line l3 = Some a"
    by (auto simp: parse_text_product_def condition_text_bytes_def split: list.splits option.splits)
  then have h: "h = text_to_owned \<lparr>th_ttaaii = wh_ttaaii w, th_cccc = wh_cccc w, th_ddhhmm = wh_ddhhmm w,
      th_bbb = wh_bbb w, th_afos = a\<rparr>"
    using assms t p by (simp add: parse_text_product_def condition_text_bytes_def)
  have v: "valid_wmo_fields (wh_ttaaii w) (wh_cccc w) (wh_ddhhmm w) (wh_bbb w)" using parse_wmo_line_valid [OF l(2)] .
  with normalize_ttaaii_ok [of "wh_ttaaii w"] parse_afos_line_valid [OF a(2)] show ?thesis
    by (auto simp: h header_ok_def text_to_owned_def valid_wmo_fields_def split: option.splits)
qed

lemma ascii_upper_or_digit: "list_all upper_or_digit s \<Longrightarrow> is_ascii s"
  by (auto simp: is_ascii_def list_all_iff upper_or_digit_def is_upper_def is_digit_def Let_def)

lemma timestamp_valid:
  assumes "is_valid_ddhhmm v"
  shows "\<exists>d h m. parse_u32 (take 2 v) = Some d \<and> parse_u32 (take 2 (drop 2 v)) = Some h \<and>
    parse_u32 (take 2 (drop 4 v)) = Some m \<and> 1 \<le> d \<and> d \<le> 31 \<and> h \<le> 23 \<and> m \<le> 59 \<and>
    parse_timestamp_fields cal v r = Ret (resolve_day_time_nearest cal r (unat d) (unat h) (unat m))"
proof -
  obtain d h m where f: "parse_u32 (take 2 v) = Some d" "parse_u32 (take 2 (drop 2 v)) = Some h"
      "parse_u32 (take 2 (drop 4 v)) = Some m" "1 \<le> d" "d \<le> 31" "h \<le> 23" "m \<le> 59"
    using assms by (auto simp: is_valid_ddhhmm_def split: option.splits)
  have v: "length v = 6" "is_ascii v"
    using assms by (auto simp: is_valid_ddhhmm_def upper_or_digit_def list_all_iff intro: ascii_upper_or_digit)
  have "d \<noteq> 0" "\<not> d > 31" "\<not> h > 23" "\<not> m > 59" using f(4-7) by (auto simp: not_less)
  then have "parse_timestamp_fields cal v r = Ret (resolve_day_time_nearest cal r (unat d) (unat h) (unat m))"
    using f(1-3) v by (simp add: parse_timestamp_fields_def slice_ascii)
  with f show ?thesis by blast
qed

section \<open>Properties\<close>

text \<open>
  C34.  The header of a text product is recovered from its transport: whatever carriage returns and null
  bytes are in between, with or without a start line after SOH, a sequence line, padding of the lines and
  an ETX at the end, the parser returns the fields of the header line and the AFOS identifier, with a
  four-character product type completed by zeros.
\<close>

theorem text_product_recovered:
  assumes "valid_wmo_fields ttaaii cccc ddhhmm bbb" "seq_ok seq" "\<forall>junk. start = Some junk \<longrightarrow> nl \<notin> set junk"
    "list_all upper_or_digit afos" "4 \<le> length afos" "length afos \<le> 6" "set pad \<subseteq> {CHR '' '', CHR 0x09}"
    "filter (\<lambda>c. c \<noteq> CHR 0x0D \<and> c \<noteq> CHR 0x00) (lossy bs) =
      framed start seq (wmo_words ttaaii cccc ddhhmm bbb i j k @ spaces n) (afos @ pad) body etx"
  shows "parse_text_product lossy bs =
    Inr \<lparr>th_ttaaii = normalize_ttaaii ttaaii, th_cccc = cccc, th_ddhhmm = ddhhmm, th_bbb = bbb, th_afos = afos\<rparr>"
proof -
  have "afos \<noteq> []" using assms(5) by auto
  from condition_framed [OF assms(1-4) this assms(7,8)] obtain t pad' ls where
    t: "condition_text (lossy bs) = Inr t" "set pad' \<subseteq> {CHR '' '', CHR 0x09}"
      "text_lines t = seq_line seq # (wmo_words ttaaii cccc ddhhmm bbb i j k @ spaces n) # (afos @ pad') # ls" by blast
  from conditioned_parse(2) [OF condition_text_ok [OF t(1)] t(3) parse_wmo_written [OF assms(1)]]
    parse_afos_written [OF assms(4-6) t(2)] t(1)
  show ?thesis by (simp add: parse_text_product_def condition_text_bytes_def text_to_owned_def)
qed

definition sample_product :: str where
  "sample_product =
     [CHR 0x01] @ ''123'' @ [CHR 0x0D, CHR 0x0A] @ ''ABCD KBOX 022101  COR '' @ [CHR 0x0D, CHR 0x0A] @ ''AFD'' @
     [CHR 0x00] @ ''BOX'' @ [CHR 0x09, CHR 0x0D, CHR 0x0A] @ ''body'' @ [CHR 0x0D, CHR 0x0A, CHR 0x03]"

lemma sample_fields: "valid_wmo_fields ''ABCD'' ''KBOX'' ''022101'' (Some ''COR'')"
  by (simp add: valid_wmo_fields_def is_valid_ddhhmm_def parse_u32_def parse_uint_def is_digit_def digit_val_def
      upper_or_digit_def is_upper_def is_valid_bbb_def)

lemma sample_framed:
  "filter (\<lambda>c. c \<noteq> CHR 0x0D \<and> c \<noteq> CHR 0x00) sample_product =
     framed (Some ''123'') None (wmo_words ''ABCD'' ''KBOX'' ''022101'' (Some ''COR'') 0 0 1 @ spaces 1)
       (''AFDBOX'' @ [CHR 0x09]) (''body'' @ [nl]) True"
  by (simp add: sample_product_def framed_def wmo_words_def spaces_def)

theorem text_product_recovered_witness:
  "parse_text_product str_of (bytes_of sample_product) =
     Inr \<lparr>th_ttaaii = ''ABCD00'', th_cccc = ''KBOX'', th_ddhhmm = ''022101'', th_bbb = Some ''COR'', th_afos = ''AFDBOX''\<rparr>"
  using text_product_recovered [OF sample_fields, of None "Some ''123''" "''AFDBOX''" "[CHR 0x09]" str_of
      "bytes_of sample_product" 0 0 1 1 "''body'' @ [nl]" True] sample_framed
  by (simp add: seq_ok_def normalize_ttaaii_def upper_or_digit_def is_upper_def)

lemma sample_lines:
  "\<exists>t pad' ls. condition_text sample_product = Inr t \<and> set pad' \<subseteq> {CHR '' '', CHR 0x09} \<and>
     text_lines t = seq_line None # (wmo_words ''ABCD'' ''KBOX'' ''022101'' (Some ''COR'') 0 0 1 @ spaces 1) # (''AFDBOX'' @ pad') # ls"
  using condition_framed [OF sample_fields, of None "Some ''123''" "''AFDBOX''" "[CHR 0x09]" sample_product 0 0 1 1
      "''body'' @ [nl]" True] sample_framed
  by (simp add: seq_ok_def upper_or_digit_def is_upper_def)

text \<open>
  C35.  What conditioning promises to the later stages: the text has no carriage return or null byte, starts
  with a sequence line, ends with a line feed and is exactly its lines; the second is a valid header.
  So the WMO parse of a conditioned text always succeeds, and the AFOS parse fails only for the third line;
  the bodies are the lines that follow.
\<close>

theorem conditioned_text_layout:
  assumes "condition_text s = Inr t"
  shows "CHR 0x0D \<notin> set t \<and> CHR 0x00 \<notin> set t \<and> has_ldm_sequence t \<and>
    (\<exists>l1 l2 ls h. text_lines t = l1 # l2 # ls \<and> t = unlines [nl] (l1 # l2 # ls) \<and> parse_wmo_line l2 = Some h \<and>
      parse_wmo_bulletin_conditioned_ref t = Inr \<lparr>pw_header = h, pw_conditioned_text = t, pw_body_text = unlines [nl] ls\<rparr> \<and>
      parse_text_product_conditioned_ref t =
        (case ls of
           [] \<Rightarrow> Inl MissingAfosLine
         | l3 # rest \<Rightarrow>
             (case parse_afos_line l3 of
                None \<Rightarrow> Inl (MissingAfos l3)
              | Some afos \<Rightarrow>
                  Inr \<lparr>pt_header = \<lparr>th_ttaaii = wh_ttaaii h, th_cccc = wh_cccc h, th_ddhhmm = wh_ddhhmm h,
                         th_bbb = wh_bbb h, th_afos = afos\<rparr>,
                       pt_conditioned_text = t, pt_body_text = unlines [nl] rest\<rparr>)))"
proof -
  have ok: "conditioned_ok t" using condition_text_ok [OF assms] .
  then obtain l1 l2 ls h where l: "text_lines t = l1 # l2 # ls" "parse_wmo_line l2 = Some h"
    by (auto simp: conditioned_ok_def)
  have "t = unlines [nl] (l1 # l2 # ls)" using text_lines_ended(1) [of t] ok l(1) by (simp add: conditioned_ok_def)
  with ok l conditioned_parse [OF ok l] show ?thesis by (simp add: conditioned_ok_def)
qed

theorem conditioned_text_layout_witness:
  "\<exists>t l1 l2 ls. condition_text sample_product = Inr t \<and> t = unlines [nl] (l1 # l2 # ls)"
proof -
  obtain t where "condition_text sample_product = Inr t" using sample_lines by blast
  from this conditioned_text_layout [OF this] show ?thesis by blast
qed

text \<open>
  C36.  Every header that the parser returns is well formed, and what is computed from it later cannot
  panic: its timestamp is the instant nearest to the reference with the day, hour and minute that the
  header's digits denote, and its enrichment takes the first three characters of the AFOS identifier.
\<close>

theorem parsed_header_usable:
  assumes "parse_text_product lossy bs = Inr h"
  shows "header_ok h \<and>
    (\<exists>day hour minute. parse_u32 (take 2 (th_ddhhmm h)) = Some day \<and> parse_u32 (take 2 (drop 2 (th_ddhhmm h))) = Some hour \<and>
      parse_u32 (take 2 (drop 4 (th_ddhhmm h))) = Some minute \<and> 1 \<le> day \<and> day \<le> 31 \<and> hour \<le> 23 \<and> minute \<le> 59 \<and>
      text_timestamp cal h r = Ret (resolve_day_time_nearest cal r (unat day) (unat hour) (unat minute))) \<and>
    enrich_header catalog_title h =
      Ret \<lparr>te_pil_nnn = Some (take 3 (th_afos h)), te_pil_description = catalog_title (take 3 (th_afos h)),
           te_bbb_kind = map_option classify_bbb (th_bbb h)\<rparr>"
proof -
  have ok: "header_ok h" using parsed_header_ok [OF assms] .
  have "is_ascii (th_afos h)" using ok by (simp add: header_ok_def ascii_upper_or_digit)
  then have "enrich_header catalog_title h =
      Ret \<lparr>te_pil_nnn = Some (take 3 (th_afos h)), te_pil_description = catalog_title (take 3 (th_afos h)),
           te_bbb_kind = map_option classify_bbb (th_bbb h)\<rparr>"
    using ok slice_ascii [of "th_afos h" 0 3] by (simp add: enrich_header_def header_ok_def)
  with ok timestamp_valid [of "th_ddhhmm h" cal r] show ?thesis
    by (simp add: header_ok_def text_timestamp_def wmo_timestamp_def)
qed

lemma sample_parsed:
  "parse_text_product str_of (bytes_of sample_product) = Inr (text_to_owned
     \<lparr>th_ttaaii = ''ABCD'', th_cccc = ''KBOX'', th_ddhhmm = ''022101'', th_bbb = Some ''COR'', th_afos = ''AFDBOX''\<rparr>)"
proof -
  obtain t pad' ls where t: "condition_text sample_product = Inr t" "set pad' \<subseteq> {CHR '' '', CHR 0x09}"
      "text_lines t = seq_line None # (wmo_words ''ABCD'' ''KBOX'' ''022101'' (Some ''COR'') 0 0 1 @ spaces 1) # (''AFDBOX'' @ pad') # ls"
    using sample_lines by blast
  moreover have "parse_afos_line (''AFDBOX'' @ pad') = Some ''AFDBOX''"
    using t(2) by (intro parse_afos_written) (simp_all add: upper_or_digit_def is_upper_def)
  ultimately show ?thesis
    using conditioned_parse(2) [OF condition_text_ok [OF t(1)] t(3) parse_wmo_written [OF sample_fields]]
    by (simp add: parse_text_product_def condition_text_bytes_def)
qed

theorem parsed_header_usable_witness:
  "\<exists>h. parse_text_product str_of (bytes_of sample_product) = Inr h \<and> header_ok h \<and>
     enrich_header (\<lambda>p. Some p) h =
       Ret \<lparr>te_pil_nnn = Some ''AFD'', te_pil_description = Some ''AFD'', te_bbb_kind = Some OtherBbb\<rparr>"
proof -
  have "classify_bbb ''COR'' = OtherBbb" by code_simp
  with sample_parsed parsed_header_usable [OF sample_parsed, of month_calendar 0 "\<lambda>p. Some p"] show ?thesis
    by (simp add: text_to_owned_def)
qed

end
