(* ===== verification/Parser_Envelope.thy ===== *)
theory Parser_Envelope
  imports Parser_Header
begin

text \<open>
  The first stages of the parser pipeline: normalized input (emwin-parser/src/pipeline/normalize.rs), the
  envelope that decides between AFOS text, WMO text, graphics and unknown payloads (envelope.rs), and the
  file-name rules they use (data/mod.rs, data/graphics.rs).  The decoding functions of the bstr crate and
  the three regular expressions for graphics are the record \<open>parser_env\<close>.
\<close>

section \<open>File names\<close>

record parser_env =
  pe_lossy :: "bytes \<Rightarrow> str"
  pe_to_str :: "bytes \<Rightarrow> str option"
  pe_radar_re :: "str \<Rightarrow> bool"
  pe_goes_re :: "str \<Rightarrow> str option"
  pe_imgmod_re :: "str \<Rightarrow> str option"

text \<open>The part after the last separator.\<close>

definition after_last :: "(char \<Rightarrow> bool) \<Rightarrow> str \<Rightarrow> str" where
  "after_last p s = rev (takeWhile (\<lambda>c. \<not> p c) (rev s))"

definition canonical_name :: "str \<Rightarrow> str" where
  "canonical_name filename =
     (let base = trim (after_last (\<lambda>c. c = CHR ''/'' \<or> c = CHR 0x5C) filename) in
      case rsplit_once (CHR ''-'') base of
        Some (_, tail) \<Rightarrow>
          (let candidate = trim tail in
           if CHR ''.'' \<in> set candidate \<and> candidate \<noteq> [] \<and>
              list_all (\<lambda>c. is_alphanumeric c \<or> c = CHR ''.'' \<or> c = CHR ''_'' \<or> c = CHR ''-'') candidate
           then candidate else base)
      | None \<Rightarrow> base)"

definition container_from_ext :: "str \<Rightarrow> str" where
  "container_from_ext ext = (if ext = ''ZIP'' then ''zip'' else ''raw'')"

definition container_from_filename :: "str \<Rightarrow> str" where
  "container_from_filename filename =
     container_from_ext (case rsplit_once (CHR ''.'') (canonical_name filename) of
       Some (_, ext) \<Rightarrow> to_ascii_uppercase ext | None \<Rightarrow> [])"

record non_text_product_meta =
  nm_family :: str
  nm_title :: str
  nm_container :: str
  nm_pil :: "str option"
  nm_wmo_prefix :: "str option"

definition graphic :: "str \<Rightarrow> str \<Rightarrow> str \<Rightarrow> non_text_product_meta" where
  "graphic family title container =
     \<lparr>nm_family = family, nm_title = title, nm_container = container, nm_pil = None, nm_wmo_prefix = None\<rparr>"

definition detect_graphics :: "parser_env \<Rightarrow> str \<Rightarrow> non_text_product_meta option" where
  "detect_graphics env upper =
     (if pe_radar_re env upper then Some (graphic ''radar_graphic'' ''Radar graphic'' ''raw'')
      else case pe_goes_re env upper of
          Some ext \<Rightarrow> Some (graphic ''goes_graphic'' ''GOES satellite graphic'' (container_from_ext ext))
        | None \<Rightarrow>
            (case pe_imgmod_re env upper of
               Some ext \<Rightarrow> Some (graphic ''nws_graphic'' ''NWS graphic product'' (container_from_ext ext))
             | None \<Rightarrow> None))"

definition classify_non_text_product :: "parser_env \<Rightarrow> str \<Rightarrow> non_text_product_meta option" where
  "classify_non_text_product env filename = detect_graphics env (to_ascii_uppercase (canonical_name filename))"

section \<open>Normalized input\<close>

record normalized_input =
  ni_filename :: str
  ni_container :: str
  ni_bytes :: bytes
  ni_text_range :: "(nat \<times> nat) option"
  ni_is_text_product :: bool

definition is_text_product :: "str \<Rightarrow> bool" where
  "is_text_product filename \<longleftrightarrow>
     (let upper = to_ascii_uppercase filename in suffix ''.TXT'' upper \<or> suffix ''.WMO'' upper)"

definition is_zip_payload :: "bytes \<Rightarrow> bool" where
  "is_zip_payload bs \<longleftrightarrow>
     prefix (bytes_of ''PK'' @ [3, 4]) bs \<or> prefix (bytes_of ''PK'' @ [5, 6]) bs \<or> prefix (bytes_of ''PK'' @ [7, 8]) bs"

definition detected_container :: "str \<Rightarrow> bytes \<Rightarrow> str" where
  "detected_container filename bs = (if is_zip_payload bs then ''zip'' else container_from_filename filename)"

definition normalize_text_bytes :: "bytes \<Rightarrow> bytes" where
  "normalize_text_bytes bs = filter (\<lambda>b. b \<noteq> byte_of CHR 0x0D \<and> b \<noteq> 0) bs"

definition from_input :: "str \<Rightarrow> bytes \<Rightarrow> normalized_input" where
  "from_input filename bs =
     (let is_text = is_text_product filename;
          container = detected_container filename bs;
          (bs', range) =
            (if is_text \<and> container \<noteq> ''zip''
             then (let normalized = normalize_text_bytes bs in (normalized, Some (0, length normalized)))
             else (bs, None))
      in \<lparr>ni_filename = filename, ni_container = container, ni_bytes = bs', ni_text_range = range,
          ni_is_text_product = is_text\<rparr>)"

text \<open>\<^verbatim>\<open>bytes.get(start..end)\<close>.\<close>

definition get_range :: "'a list \<Rightarrow> nat \<times> nat \<Rightarrow> 'a list option" where
  "get_range xs r =
     (if fst r \<le> snd r \<and> snd r \<le> length xs then Some (take (snd r - fst r) (drop (fst r) xs)) else None)"

definition ni_text_bytes :: "normalized_input \<Rightarrow> bytes option" where
  "ni_text_bytes n = (case ni_text_range n of None \<Rightarrow> None | Some r \<Rightarrow> get_range (ni_bytes n) r)"

definition ni_text_str :: "parser_env \<Rightarrow> normalized_input \<Rightarrow> str option" where
  "ni_text_str env n = (case ni_text_bytes n of None \<Rightarrow> None | Some bs \<Rightarrow> pe_to_str env bs)"

section \<open>Envelopes\<close>

datatype envelope_kind = TextAfos | TextWmoOnly | NonText | UnknownKind

record parsed_envelope =
  en_normalized :: normalized_input
  en_kind :: envelope_kind
  en_header :: "text_product_header option"
  en_wmo_header :: "wmo_header option"
  en_body_range :: "(nat \<times> nat) option"
  en_parse_error :: "parser_error option"
  en_non_text_meta :: "non_text_product_meta option"

definition envelope_unknown :: "normalized_input \<Rightarrow> parser_error option \<Rightarrow> parsed_envelope" where
  "envelope_unknown n err =
     \<lparr>en_normalized = n, en_kind = UnknownKind, en_header = None, en_wmo_header = None, en_body_range = None,
      en_parse_error = err, en_non_text_meta = None\<rparr>"

text \<open>
  The position of the body in the text, which the source computes from the addresses of the two slices:
  the body is the rest of the text after its header lines.
\<close>

definition body_range :: "str \<Rightarrow> str \<Rightarrow> (nat \<times> nat) option" where
  "body_range conditioned body =
     (let start = length conditioned - length body; finish = start + length body
      in if finish \<le> length conditioned then Some (start, finish) else None)"

definition set_text :: "normalized_input \<Rightarrow> str \<Rightarrow> normalized_input" where
  "set_text n conditioned =
     n\<lparr>ni_bytes := bytes_of conditioned, ni_text_range := Some (0, length (bytes_of conditioned))\<rparr>"

definition envelope_build :: "parser_env \<Rightarrow> normalized_input \<Rightarrow> parsed_envelope" where
  "envelope_build env n =
     (if ni_container n = ''zip'' \<and> ni_is_text_product n then envelope_unknown n None
      else if ni_is_text_product n
      then
        (case ni_text_bytes n of
           None \<Rightarrow> envelope_unknown n None
         | Some text_bytes \<Rightarrow>
             (let preferred = (case ni_text_str env n of None \<Rightarrow> text_bytes | Some s \<Rightarrow> bytes_of s) in
              case condition_text_bytes (pe_lossy env) preferred of
                Inl err \<Rightarrow> envelope_unknown n (Some err)
              | Inr conditioned \<Rightarrow>
                  (case parse_text_product_conditioned_ref conditioned of
                     Inr parsed \<Rightarrow>
                       \<lparr>en_normalized = set_text n conditioned, en_kind = TextAfos,
                        en_header = Some (text_to_owned (pt_header parsed)), en_wmo_header = None,
                        en_body_range = body_range conditioned (pt_body_text parsed), en_parse_error = None,
                        en_non_text_meta = None\<rparr>
                   | Inl err \<Rightarrow>
                       (case (err, parse_wmo_bulletin_conditioned_ref conditioned) of
                          (MissingAfosLine, Inr parsed) \<Rightarrow>
                            \<lparr>en_normalized = set_text n conditioned, en_kind = TextWmoOnly, en_header = None,
                             en_wmo_header = Some (wmo_to_owned (pw_header parsed)),
                             en_body_range = body_range conditioned (pw_body_text parsed),
                             en_parse_error = Some err, en_non_text_meta = None\<rparr>
                        | (MissingAfos _, Inr parsed) \<Rightarrow>
                            \<lparr>en_normalized = set_text n conditioned, en_kind = TextWmoOnly, en_header = None,
                             en_wmo_header = Some (wmo_to_owned (pw_header parsed)),
                             en_body_range = body_range conditioned (pw_body_text parsed),
                             en_parse_error = Some err, en_non_text_meta = None\<rparr>
                        | _ \<Rightarrow> envelope_unknown n (Some err)))))
      else case classify_non_text_product env (ni_filename n) of
          Some meta \<Rightarrow>
            \<lparr>en_normalized = n, en_kind = NonText, en_header = None, en_wmo_header = None, en_body_range = None,
             en_parse_error = None, en_non_text_meta = Some meta\<rparr>
        | None \<Rightarrow> envelope_unknown n None)"

definition en_text_bytes :: "parsed_envelope \<Rightarrow> bytes option" where
  "en_text_bytes e = ni_text_bytes (en_normalized e)"

definition en_body_text :: "parsed_envelope \<Rightarrow> str option" where
  "en_body_text e =
     (case en_body_range e of
        None \<Rightarrow> None
      | Some r \<Rightarrow>
          (case get_range (ni_bytes (en_normalized e)) r of
             None \<Rightarrow> None
           | Some bs \<Rightarrow> (case from_utf8 bs of Inr s \<Rightarrow> Some s | Inl _ \<Rightarrow> None)))"

section \<open>The decision of the envelope\<close>

text \<open>
  What the stages amount to: the decision by the lines of the conditioned text, without the branches that
  no input reaches.
\<close>

definition wmo_envelope :: "normalized_input \<Rightarrow> str \<Rightarrow> wmo_header \<Rightarrow> str list \<Rightarrow> parser_error \<Rightarrow> parsed_envelope" where
  "wmo_envelope n t h ls err =
     \<lparr>en_normalized = set_text n t, en_kind = TextWmoOnly, en_header = None, en_wmo_header = Some (wmo_to_owned h),
      en_body_range = Some (length t - length (unlines [nl] ls), length t), en_parse_error = Some err,
      en_non_text_meta = None\<rparr>"

definition afos_envelope :: "normalized_input \<Rightarrow> str \<Rightarrow> wmo_header \<Rightarrow> str \<Rightarrow> str list \<Rightarrow> parsed_envelope" where
  "afos_envelope n t h afos ls =
     \<lparr>en_normalized = set_text n t, en_kind = TextAfos,
      en_header = Some (text_to_owned \<lparr>th_ttaaii = wh_ttaaii h, th_cccc = wh_cccc h, th_ddhhmm = wh_ddhhmm h,
        th_bbb = wh_bbb h, th_afos = afos\<rparr>),
      en_wmo_header = None, en_body_range = Some (length t - length (unlines [nl] ls), length t),
      en_parse_error = None, en_non_text_meta = None\<rparr>"

definition text_envelope :: "normalized_input \<Rightarrow> str \<Rightarrow> str list \<Rightarrow> parsed_envelope" where
  "text_envelope n t lines =
     (let h = the (parse_wmo_line (lines ! 1)) in
      case drop 2 lines of
        [] \<Rightarrow> wmo_envelope n t h [] MissingAfosLine
      | l3 # rest \<Rightarrow>
          (case parse_afos_line l3 of
             None \<Rightarrow> wmo_envelope n t h (l3 # rest) (MissingAfos l3)
           | Some afos \<Rightarrow> afos_envelope n t h afos rest))"

lemma length_unlines_append: "length (unlines [nl] ls) \<le> length (unlines [nl] (ls' @ ls))"
  by (simp add: unlines_def)

lemma body_range_lines:
  "t = unlines [nl] (ls' @ ls) \<Longrightarrow>
    body_range t (unlines [nl] ls) = Some (length t - length (unlines [nl] ls), length t)"
  using length_unlines_append [of ls ls'] by (simp add: body_range_def Let_def)

lemma get_range_lines:
  assumes "t = unlines [nl] (ls' @ ls)"
  shows "get_range (bytes_of t) (length t - length (unlines [nl] ls), length t) = Some (bytes_of (unlines [nl] ls))"
proof -
  have "t = unlines [nl] ls' @ unlines [nl] ls" using assms by (simp add: unlines_def)
  then show ?thesis by (simp add: get_range_def)
qed

lemma conditioned_lines:
  assumes "condition_text s = Inr t"
  obtains l1 l2 ls h where "text_lines t = l1 # l2 # ls" "t = unlines [nl] (l1 # l2 # ls)" "parse_wmo_line l2 = Some h"
    "conditioned_ok t"
proof -
  have ok: "conditioned_ok t" using condition_text_ok [OF assms] .
  then obtain l1 l2 ls h where l: "text_lines t = l1 # l2 # ls" "parse_wmo_line l2 = Some h"
    by (auto simp: conditioned_ok_def)
  moreover have "t = unlines [nl] (l1 # l2 # ls)" using text_lines_ended(1) [of t] ok l(1) by (simp add: conditioned_ok_def)
  ultimately show thesis using that ok by blast
qed

lemma build_text:
  assumes "\<And>bs s. pe_to_str env bs = Some s \<Longrightarrow> bytes_of s = bs" "ni_is_text_product n" "ni_container n \<noteq> ''zip''"
    "ni_text_bytes n = Some bs"
  shows "envelope_build env n =
    (case condition_text (pe_lossy env bs) of
       Inl err \<Rightarrow> envelope_unknown n (Some err)
     | Inr t \<Rightarrow> text_envelope n t (text_lines t))"
proof -
  have pref: "(case ni_text_str env n of None \<Rightarrow> bs | Some s \<Rightarrow> bytes_of s) = bs"
    using assms(1,4) by (simp add: ni_text_str_def split: option.split)
  show ?thesis
  proof (cases "condition_text (pe_lossy env bs)")
    case (Inl err)
    then show ?thesis using assms pref by (simp add: envelope_build_def condition_text_bytes_def)
  next
    case (Inr t)
    from conditioned_lines [OF Inr] obtain l1 l2 ls h where
      l: "text_lines t = l1 # l2 # ls" "t = unlines [nl] (l1 # l2 # ls)" "parse_wmo_line l2 = Some h" and ok: "conditioned_ok t" .
    note p = conditioned_parse [OF ok l(1,3)]
    have r2: "body_range t (unlines [nl] ls) = Some (length t - length (unlines [nl] ls), length t)"
      using body_range_lines [of t "[l1, l2]" ls] l(2) by simp
    have r3: "body_range t (unlines [nl] rest) = Some (length t - length (unlines [nl] rest), length t)" if "ls = l3 # rest" for l3 rest
      using body_range_lines [of t "[l1, l2, l3]" rest] l(2) that by simp
    show ?thesis
      using assms pref Inr p r2 r3 l(1,3)
      by (cases ls; cases "parse_afos_line (hd ls)")
        (simp_all add: envelope_build_def condition_text_bytes_def text_envelope_def wmo_envelope_def afos_envelope_def)
  qed
qed

definition envelope_spec :: "parser_env \<Rightarrow> str \<Rightarrow> bytes \<Rightarrow> parsed_envelope" where
  "envelope_spec env filename bs =
     (let n = from_input filename bs in
      if is_text_product filename
      then
        (if detected_container filename bs = ''zip'' then envelope_unknown n None
         else case condition_text (pe_lossy env (normalize_text_bytes bs)) of
             Inl err \<Rightarrow> envelope_unknown n (Some err)
           | Inr t \<Rightarrow> text_envelope n t (text_lines t))
      else case classify_non_text_product env filename of
          None \<Rightarrow> envelope_unknown n None
        | Some meta \<Rightarrow> (envelope_unknown n None)\<lparr>en_kind := NonText, en_non_text_meta := Some meta\<rparr>)"

lemma build_eq_spec:
  assumes "\<And>bs s. pe_to_str env bs = Some s \<Longrightarrow> bytes_of s = bs"
  shows "envelope_build env (from_input filename bs) = envelope_spec env filename bs"
proof -
  let ?n = "from_input filename bs"
  have n: "ni_filename ?n = filename" "ni_container ?n = detected_container filename bs" "ni_is_text_product ?n = is_text_product filename"
    by (simp_all add: from_input_def Let_def split: prod.split)
  have tb: "ni_text_bytes ?n = Some (normalize_text_bytes bs)"
    if "is_text_product filename" "detected_container filename bs \<noteq> ''zip''"
    using that by (simp add: from_input_def ni_text_bytes_def get_range_def Let_def)
  show ?thesis
  proof (cases "is_text_product filename \<and> detected_container filename bs \<noteq> ''zip''")
    case True
    then show ?thesis using build_text [of env ?n, OF assms] n tb by (simp add: envelope_spec_def Let_def)
  next
    case False
    then show ?thesis using n
      by (auto simp: envelope_build_def envelope_spec_def envelope_unknown_def Let_def split: option.split)
  qed
qed

definition sample_env :: parser_env where
  "sample_env =
     \<lparr>pe_lossy = str_of, pe_to_str = (\<lambda>bs. Some (str_of bs)), pe_radar_re = (\<lambda>s. s = ''RADUMSVY.GIF''),
      pe_goes_re = (\<lambda>_. None), pe_imgmod_re = (\<lambda>_. None)\<rparr>"

section \<open>Properties\<close>

text \<open>
  C37.  The envelope of a payload is decided as the reference says: a text product framed as ZIP stays
  unknown; other text products are decided by the lines of their conditioned text, AFOS before WMO only,
  with the error of the conditioning otherwise (no other error can arise); other files by their name.
  \<open>pe_to_str\<close> is assumed to return a view of the same bytes.
\<close>

theorem envelope_decided:
  assumes "\<And>bs s. pe_to_str env bs = Some s \<Longrightarrow> bytes_of s = bs"
  shows "envelope_build env (from_input filename bs) = envelope_spec env filename bs"
  by (rule build_eq_spec [OF assms])

theorem envelope_decided_witness:
  "envelope_build sample_env (from_input ''20260305-radumsvy.gif'' [1, 2, 3]) =
     envelope_spec sample_env ''20260305-radumsvy.gif'' [1, 2, 3] \<and>
   en_kind (envelope_spec sample_env ''20260305-radumsvy.gif'' [1, 2, 3]) = NonText"
proof
  show "en_kind (envelope_spec sample_env ''20260305-radumsvy.gif'' [1, 2, 3]) = NonText" by code_simp
qed (rule envelope_decided, simp add: sample_env_def)

text \<open>
  C38.  The body range of an envelope lies in its buffer and denotes the lines after the header lines, two
  or three: the buffer is the header lines and the body, nothing is lost between them.
\<close>

theorem envelope_body_in_buffer:
  assumes "\<And>bs s. pe_to_str env bs = Some s \<Longrightarrow> bytes_of s = bs"
    "en_body_range e = Some r" "e = envelope_build env (from_input filename bs)"
  shows "\<exists>t headers body. en_text_bytes e = Some (bytes_of t) \<and> t = unlines [nl] (headers @ body) \<and>
    text_lines t = headers @ body \<and> length headers = (if en_kind e = TextAfos then 3 else 2) \<and>
    get_range (ni_bytes (en_normalized e)) r = Some (bytes_of (unlines [nl] body)) \<and>
    (is_ascii t \<longrightarrow> en_body_text e = Some (unlines [nl] body))"
proof -
  have e: "e = envelope_spec env filename bs" unfolding assms(3) by (rule build_eq_spec [OF assms(1)])
  obtain t where t: "condition_text (pe_lossy env (normalize_text_bytes bs)) = Inr t"
      "e = text_envelope (from_input filename bs) t (text_lines t)"
    using assms(2) e
    by (auto simp: envelope_spec_def envelope_unknown_def Let_def split: if_splits sum.splits option.splits)
  from conditioned_lines [OF t(1)] obtain l1 l2 ls h where
    l: "text_lines t = l1 # l2 # ls" "t = unlines [nl] (l1 # l2 # ls)" "parse_wmo_line l2 = Some h" .
  have sel: "ni_bytes (set_text n t) = bytes_of t" "ni_text_bytes (set_text n t) = Some (bytes_of t)" for n
    by (simp_all add: set_text_def ni_text_bytes_def get_range_def)
  have body: ?thesis
    if "headers @ body = l1 # l2 # ls" "en_normalized e = set_text n t" "r = (length t - length (unlines [nl] body), length t)"
      "length headers = (if en_kind e = TextAfos then 3 else 2)" "en_body_range e = Some r" for headers body n
  proof -
    have g: "get_range (bytes_of t) r = Some (bytes_of (unlines [nl] body))"
      using get_range_lines [of t headers body] l(2) that(1,3) by simp
    have utf8: "from_utf8 (bytes_of (unlines [nl] body)) = Inr (unlines [nl] body)" if "is_ascii t"
    proof -
      have "set (unlines [nl] body) \<subseteq> set t" using l(2) \<open>headers @ body = l1 # l2 # ls\<close> [symmetric] by (auto simp: unlines_def)
      then have "\<And>b. b \<in> set (bytes_of (unlines [nl] body)) \<Longrightarrow> b < 0x80"
        using that by (auto simp: bytes_of_def is_ascii_def word_less_nat_alt)
      then show ?thesis using from_utf8_ascii by (metis str_of_bytes_of)
    qed
    have "en_text_bytes e = Some (bytes_of t)" by (simp only: en_text_bytes_def that(2) sel)
    moreover have "t = unlines [nl] (headers @ body)" unfolding that(1) by (rule l(2))
    moreover have "text_lines t = headers @ body" unfolding that(1) by (rule l(1))
    moreover have "get_range (ni_bytes (en_normalized e)) r = Some (bytes_of (unlines [nl] body))" by (simp only: that(2) sel g)
    moreover have "is_ascii t \<longrightarrow> en_body_text e = Some (unlines [nl] body)"
      by (simp add: en_body_text_def that(2,5) sel g utf8)
    ultimately show ?thesis using that(4) by blast
  qed
  show ?thesis
  proof (cases "ls \<noteq> [] \<and> parse_afos_line (hd ls) \<noteq> None")
    case True
    then obtain l3 rest a where ls: "ls = l3 # rest" "parse_afos_line l3 = Some a" by (cases ls) auto
    have e: "e = afos_envelope (from_input filename bs) t h a rest"
      unfolding t(2) l(1) text_envelope_def by (simp add: ls l(3))
    show ?thesis
    proof (rule body)
      show "[l1, l2, l3] @ rest = l1 # l2 # ls" by (simp add: ls)
      show "r = (length t - length (unlines [nl] rest), length t)" "en_body_range e = Some r"
        using assms(2) by (simp_all add: e afos_envelope_def)
    qed (simp_all add: e afos_envelope_def)
  next
    case False
    then obtain err where e: "e = wmo_envelope (from_input filename bs) t h ls err"
      unfolding t(2) l(1) text_envelope_def by (cases ls) (auto simp: l(3))
    show ?thesis
    proof (rule body)
      show "[l1, l2] @ ls = l1 # l2 # ls" by simp
      show "r = (length t - length (unlines [nl] ls), length t)" "en_body_range e = Some r"
        using assms(2) by (simp_all add: e wmo_envelope_def)
    qed (simp_all add: e wmo_envelope_def)
  qed
qed

lemma normalize_filter:
  "normalize_text_bytes (bytes_of s) = bytes_of (filter (\<lambda>c. c \<noteq> CHR 0x0D \<and> c \<noteq> CHR 0x00) s)"
  by (induction s) (simp_all add: normalize_text_bytes_def bytes_of_def)

lemma condition_text_filter:
  "condition_text (filter (\<lambda>c. c \<noteq> CHR 0x0D \<and> c \<noteq> CHR 0x00) s) = condition_text s"
  by (simp add: condition_text_def)

lemma sample_envelope:
  "\<exists>n t h ls. envelope_spec sample_env ''afdbox.txt'' (bytes_of sample_product) = afos_envelope n t h ''AFDBOX'' ls"
proof -
  obtain t pad' ls where t: "condition_text sample_product = Inr t" "set pad' \<subseteq> {CHR '' '', CHR 0x09}"
      "text_lines t = seq_line None # (wmo_words ''ABCD'' ''KBOX'' ''022101'' (Some ''COR'') 0 0 1 @ spaces 1) # (''AFDBOX'' @ pad') # ls"
    using sample_lines by blast
  have "parse_afos_line (''AFDBOX'' @ pad') = Some ''AFDBOX''"
    using t(2) by (intro parse_afos_written) (simp_all add: upper_or_digit_def is_upper_def)
  then have "text_envelope n t (text_lines t) = afos_envelope n t (the (parse_wmo_line (text_lines t ! 1))) ''AFDBOX'' ls" for n
    by (simp add: text_envelope_def t(3))
  moreover have "is_text_product ''afdbox.txt''" by code_simp
  moreover have "detected_container ''afdbox.txt'' (bytes_of sample_product) \<noteq> ''zip''" by code_simp
  ultimately show ?thesis
    using t(1) by (auto simp: envelope_spec_def Let_def normalize_filter condition_text_filter sample_env_def)
qed

theorem envelope_body_in_buffer_witness:
  "\<exists>r t headers body. en_body_range (envelope_build sample_env (from_input ''afdbox.txt'' (bytes_of sample_product))) = Some r \<and>
     t = unlines [nl] (headers @ body) \<and> length headers = 3 \<and>
     get_range (ni_bytes (en_normalized (envelope_build sample_env (from_input ''afdbox.txt'' (bytes_of sample_product))))) r =
       Some (bytes_of (unlines [nl] body))"
proof -
  let ?e = "envelope_build sample_env (from_input ''afdbox.txt'' (bytes_of sample_product))"
  have view: "\<And>bs s. pe_to_str sample_env bs = Some s \<Longrightarrow> bytes_of s = bs" by (simp add: sample_env_def)
  obtain n t h ls where e: "?e = afos_envelope n t h ''AFDBOX'' ls"
    using sample_envelope build_eq_spec [OF view] by metis
  then have k: "en_kind ?e = TextAfos" by (simp add: afos_envelope_def)
  obtain r where "en_body_range ?e = Some r" by (simp add: e afos_envelope_def)
  with envelope_body_in_buffer [OF view this refl] k show ?thesis by auto
qed

end
