(* ===== verification/Alert_Store.thy ===== *)
theory Alert_Store
  imports Persist_Store
begin

text \<open>
  The alert tables (emwin-service/src/alerting.rs, emwin-db/src/postgres/alerting.rs and the schema
  emwin-db/migrations/0003_alerting.sql).  The record \<open>alert_db\<close> holds the tables of the schema, each
  a list of rows in the order of their identities; every statement of the sink is a function on
  it, with the constraints of the schema (primary and unique keys, references with cascading
  deletes).  An identity or any other \<^verbatim>\<open>i64\<close> that is only assigned, compared and printed is an
  \<^typ>\<open>int\<close>; an \<^verbatim>\<open>i32\<close> is a word read as a signed number; a \<^verbatim>\<open>DateTime\<close> is a number of
  nanoseconds, where the table keeps microseconds.  The claiming statements order their rows in an inner
  query and return them from an update, whose order SQL leaves open; the model returns them by
  identity, as the inner query orders them.  \<open>now\<close> is the clock of the database at the statement, \<open>locked\<close> the rows that a
  concurrent transaction holds.  The types \<open>'f\<close> and \<open>'v\<close> are file filters and JSON values.

  The theorems are about the table of delivery attempts under every interleaving of statements of
  any number of workers.
\<close>

section \<open>Alert types\<close>

type_synonym i64 = int
type_synonym i32 = "32 word"

datatype alert_source_kind = ProductAvailable | IncidentChange

datatype alert_contact_point_kind = Webhook_Kind | Apprise_Kind

datatype alert_delivery_status = Pending | InProgress | Delivered | RetryPending | Failed | Suppressed

record incident_filter_input =
  if_action :: "str option"
  if_office :: "str option"
  if_phenomena :: "str option"
  if_significance :: "str option"
  if_status :: "str option"
  if_etn :: "str option"

datatype 'f alert_match_criteria = Match_Product 'f | Match_Incident incident_filter_input

record alert_trigger_policy =
  tp_cooldown_secs :: u64
  tp_severity :: "str option"

record alert_template =
  tm_title :: str
  tm_body :: str

datatype alert_contact_point_config =
    Webhook str "str option" "str option" "u64 option"
  | Apprise str

datatype alert_contact_point_config_view =
    Webhook_View str bool bool "u64 option"
  | Apprise_View bool

fun contact_point_kind :: "alert_contact_point_config \<Rightarrow> alert_contact_point_kind" where
  "contact_point_kind (Webhook url authorization_header signing_secret timeout_secs) = Webhook_Kind"
| "contact_point_kind (Apprise destination_url) = Apprise_Kind"

fun redact :: "alert_contact_point_config \<Rightarrow> alert_contact_point_config_view" where
  "redact (Webhook url authorization_header signing_secret timeout_secs) =
     Webhook_View url (authorization_header \<noteq> None) (signing_secret \<noteq> None) timeout_secs"
| "redact (Apprise destination_url) = Apprise_View (trim destination_url \<noteq> [])"

record alert_contact_point =
  cv_id :: i64
  cv_name :: str
  cv_enabled :: bool
  cv_kind :: alert_contact_point_kind
  cv_config :: alert_contact_point_config_view
  cv_created_at :: system_time
  cv_updated_at :: system_time

record alert_contact_point_input =
  ci_name :: str
  ci_enabled :: bool
  ci_config :: alert_contact_point_config

record alert_rule_target =
  rt_contact_point_id :: i64
  rt_position :: i32

record 'f alert_rule =
  ru_id :: i64
  ru_name :: str
  ru_enabled :: bool
  ru_criteria :: "'f alert_match_criteria"
  ru_trigger_policy :: alert_trigger_policy
  ru_template :: alert_template
  ru_targets :: "alert_rule_target list"
  ru_created_at :: system_time
  ru_updated_at :: system_time

record 'f alert_rule_input =
  ri_name :: str
  ri_enabled :: bool
  ri_criteria :: "'f alert_match_criteria"
  ri_trigger_policy :: alert_trigger_policy
  ri_template :: alert_template
  ri_targets :: "alert_rule_target list"

record 'f alert_silence =
  si_id :: i64
  si_criteria :: "'f alert_match_criteria"
  si_starts_at :: system_time
  si_ends_at :: system_time
  si_reason :: str
  si_created_at :: system_time

record 'v alert_source_event =
  se_id :: i64
  se_source_kind :: alert_source_kind
  se_source_id :: str
  se_payload :: 'v
  se_source_timestamp :: system_time
  se_created_at :: system_time
  se_claimed_at :: "system_time option"
  se_processed_at :: "system_time option"

record 'v alert_event =
  ev_id :: i64
  ev_rule_id :: i64
  ev_source_event_id :: i64
  ev_delivery_key :: str
  ev_severity :: "str option"
  ev_title :: str
  ev_body :: str
  ev_payload :: 'v
  ev_created_at :: system_time

record alert_delivery_attempt =
  da_id :: i64
  da_alert_event_id :: i64
  da_contact_point_id :: i64
  da_delivery_key :: str
  da_attempt_no :: i32
  da_status :: alert_delivery_status
  da_claimed_at :: "system_time option"
  da_next_retry_at :: "system_time option"
  da_response_code :: "i32 option"
  da_response_excerpt :: "str option"
  da_delivered_at :: "system_time option"
  da_created_at :: system_time
  da_updated_at :: system_time

record alert_contact_point_record =
  cr_id :: i64
  cr_name :: str
  cr_enabled :: bool
  cr_config :: alert_contact_point_config

section \<open>Tables\<close>

record contact_point_row =
  cp_id :: i64
  cp_name :: str
  cp_enabled :: bool
  cp_config :: alert_contact_point_config
  cp_created_at :: system_time
  cp_updated_at :: system_time

record 'f rule_row =
  rr_id :: i64
  rr_name :: str
  rr_source_kind :: alert_source_kind
  rr_enabled :: bool
  rr_criteria :: "'f alert_match_criteria"
  rr_trigger_policy :: alert_trigger_policy
  rr_template :: alert_template
  rr_created_at :: system_time
  rr_updated_at :: system_time

record ('f, 'v) alert_db =
  db_contact_points :: "contact_point_row list"
  db_rules :: "'f rule_row list"
  db_rule_targets :: "(i64 \<times> alert_rule_target) list"
  db_silences :: "'f alert_silence list"
  db_source_events :: "'v alert_source_event list"
  db_events :: "'v alert_event list"
  db_attempts :: "alert_delivery_attempt list"
  db_contact_point_seq :: i64
  db_rule_seq :: i64
  db_silence_seq :: i64
  db_source_event_seq :: i64
  db_event_seq :: i64
  db_attempt_seq :: i64

definition empty_db :: "('f, 'v) alert_db" where
  "empty_db =
     \<lparr>db_contact_points = [], db_rules = [], db_rule_targets = [], db_silences = [], db_source_events = [],
      db_events = [], db_attempts = [], db_contact_point_seq = 1, db_rule_seq = 1,
      db_silence_seq = 1, db_source_event_seq = 1, db_event_seq = 1, db_attempt_seq = 1\<rparr>"

text \<open>A reference to a row that does not exist, and a second row with the same key, are errors.\<close>

definition foreign_key_violation :: persist_error where
  "foreign_key_violation = PersistSqlx OtherSqlx ''violates foreign key constraint''"

definition unique_violation :: persist_error where
  "unique_violation = PersistSqlx OtherSqlx ''duplicate key value violates unique constraint''"

section \<open>Contact points\<close>

definition map_alert_contact_point :: "contact_point_row \<Rightarrow> alert_contact_point" where
  "map_alert_contact_point r =
     \<lparr>cv_id = cp_id r, cv_name = cp_name r, cv_enabled = cp_enabled r, cv_kind = contact_point_kind (cp_config r),
      cv_config = redact (cp_config r), cv_created_at = cp_created_at r, cv_updated_at = cp_updated_at r\<rparr>"

definition list_alert_contact_points :: "('f, 'v) alert_db \<Rightarrow> alert_contact_point list" where
  "list_alert_contact_points db = map map_alert_contact_point (db_contact_points db)"

definition get_alert_contact_point :: "i64 \<Rightarrow> ('f, 'v) alert_db \<Rightarrow> alert_contact_point option" where
  "get_alert_contact_point i db =
     map_option map_alert_contact_point (find (\<lambda>r. cp_id r = i) (db_contact_points db))"

definition get_alert_contact_point_record :: "i64 \<Rightarrow> ('f, 'v) alert_db \<Rightarrow> alert_contact_point_record option" where
  "get_alert_contact_point_record i db =
     map_option (\<lambda>r. \<lparr>cr_id = cp_id r, cr_name = cp_name r, cr_enabled = cp_enabled r, cr_config = cp_config r\<rparr>)
       (find (\<lambda>r. cp_id r = i) (db_contact_points db))"

definition create_alert_contact_point :: "system_time \<Rightarrow> alert_contact_point_input \<Rightarrow> ('f, 'v) alert_db \<Rightarrow>
    ('f, 'v) alert_db \<times> alert_contact_point" where
  "create_alert_contact_point now input db =
     (let row = \<lparr>cp_id = db_contact_point_seq db, cp_name = ci_name input, cp_enabled = ci_enabled input,
                 cp_config = ci_config input, cp_created_at = now, cp_updated_at = now\<rparr>
      in (db\<lparr>db_contact_points := db_contact_points db @ [row], db_contact_point_seq := db_contact_point_seq db + 1\<rparr>,
          map_alert_contact_point row))"

definition update_alert_contact_point :: "system_time \<Rightarrow> i64 \<Rightarrow> alert_contact_point_input \<Rightarrow> ('f, 'v) alert_db \<Rightarrow>
    ('f, 'v) alert_db \<times> alert_contact_point option" where
  "update_alert_contact_point now i input db =
     (let db' = db\<lparr>db_contact_points := map (\<lambda>r.
           if cp_id r = i
           then r\<lparr>cp_name := ci_name input, cp_enabled := ci_enabled input, cp_config := ci_config input,
                  cp_updated_at := now\<rparr>
           else r) (db_contact_points db)\<rparr>
      in (db', get_alert_contact_point i db'))"

text \<open>Deletes cascade along the references of the schema.\<close>

definition delete_alert_contact_point :: "i64 \<Rightarrow> ('f, 'v) alert_db \<Rightarrow> ('f, 'v) alert_db \<times> bool" where
  "delete_alert_contact_point i db =
     (db\<lparr>db_contact_points := filter (\<lambda>r. cp_id r \<noteq> i) (db_contact_points db),
         db_rule_targets := filter (\<lambda>(r, t). rt_contact_point_id t \<noteq> i) (db_rule_targets db),
         db_attempts := filter (\<lambda>a. da_contact_point_id a \<noteq> i) (db_attempts db)\<rparr>,
      \<exists>r \<in> set (db_contact_points db). cp_id r = i)"

section \<open>Rules and silences\<close>

definition map_alert_rule_row :: "('f, 'v) alert_db \<Rightarrow> 'f rule_row \<Rightarrow> 'f alert_rule" where
  "map_alert_rule_row db r =
     \<lparr>ru_id = rr_id r, ru_name = rr_name r, ru_enabled = rr_enabled r, ru_criteria = rr_criteria r,
      ru_trigger_policy = rr_trigger_policy r, ru_template = rr_template r,
      ru_targets = sort_key (\<lambda>t. sint (rt_position t)) (sort_key rt_contact_point_id
        (map snd (filter (\<lambda>(i, t). i = rr_id r) (db_rule_targets db)))),
      ru_created_at = rr_created_at r, ru_updated_at = rr_updated_at r\<rparr>"

definition list_alert_rules :: "('f, 'v) alert_db \<Rightarrow> 'f alert_rule list" where
  "list_alert_rules db = map (map_alert_rule_row db) (db_rules db)"

definition list_enabled_alert_rules :: "alert_source_kind \<Rightarrow> ('f, 'v) alert_db \<Rightarrow> 'f alert_rule list" where
  "list_enabled_alert_rules source_kind db =
     map (map_alert_rule_row db) (filter (\<lambda>r. rr_enabled r \<and> rr_source_kind r = source_kind) (db_rules db))"

definition get_alert_rule :: "i64 \<Rightarrow> ('f, 'v) alert_db \<Rightarrow> 'f alert_rule option" where
  "get_alert_rule i db = map_option (map_alert_rule_row db) (find (\<lambda>r. rr_id r = i) (db_rules db))"

fun criteria_source_kind :: "'f alert_match_criteria \<Rightarrow> alert_source_kind" where
  "criteria_source_kind (Match_Product input) = ProductAvailable"
| "criteria_source_kind (Match_Incident input) = IncidentChange"

fun insert_rule_targets :: "i64 \<Rightarrow> alert_rule_target list \<Rightarrow> ('f, 'v) alert_db \<Rightarrow> persist_error + ('f, 'v) alert_db" where
  "insert_rule_targets rule_id [] db = Inr db"
| "insert_rule_targets rule_id (t # ts) db =
     (if \<exists>(r, u) \<in> set (db_rule_targets db). r = rule_id \<and> rt_contact_point_id u = rt_contact_point_id t
      then Inl unique_violation
      else if \<exists>p \<in> set (db_contact_points db). cp_id p = rt_contact_point_id t
      then insert_rule_targets rule_id ts (db\<lparr>db_rule_targets := db_rule_targets db @ [(rule_id, t)]\<rparr>)
      else Inl foreign_key_violation)"

definition replace_rule_targets :: "i64 \<Rightarrow> alert_rule_target list \<Rightarrow> ('f, 'v) alert_db \<Rightarrow>
    persist_error + ('f, 'v) alert_db" where
  "replace_rule_targets rule_id targets db =
     insert_rule_targets rule_id targets
       (db\<lparr>db_rule_targets := filter (\<lambda>(r, t). r \<noteq> rule_id) (db_rule_targets db)\<rparr>)"

text \<open>A transaction that fails leaves the tables as they were; identities it drew are not given back.\<close>

definition create_alert_rule :: "system_time \<Rightarrow> 'f alert_rule_input \<Rightarrow> ('f, 'v) alert_db \<Rightarrow>
    ('f, 'v) alert_db \<times> (persist_error + 'f alert_rule)" where
  "create_alert_rule now input db =
     (let rule_id = db_rule_seq db;
          row = \<lparr>rr_id = rule_id, rr_name = ri_name input, rr_source_kind = criteria_source_kind (ri_criteria input),
                 rr_enabled = ri_enabled input, rr_criteria = ri_criteria input,
                 rr_trigger_policy = ri_trigger_policy input, rr_template = ri_template input,
                 rr_created_at = now, rr_updated_at = now\<rparr>;
          db1 = db\<lparr>db_rule_seq := rule_id + 1\<rparr>
      in case replace_rule_targets rule_id (ri_targets input) (db1\<lparr>db_rules := db_rules db @ [row]\<rparr>) of
           Inl e \<Rightarrow> (db1, Inl e)
         | Inr db2 \<Rightarrow>
             (db2, case get_alert_rule rule_id db2 of
                Some rule \<Rightarrow> Inr rule
              | None \<Rightarrow> Inl (PersistInvalidRequest ''created alert rule could not be reloaded'')))"

definition update_alert_rule :: "system_time \<Rightarrow> i64 \<Rightarrow> 'f alert_rule_input \<Rightarrow> ('f, 'v) alert_db \<Rightarrow>
    ('f, 'v) alert_db \<times> (persist_error + 'f alert_rule option)" where
  "update_alert_rule now i input db =
     (if \<exists>r \<in> set (db_rules db). rr_id r = i
      then
        let db1 = db\<lparr>db_rules := map (\<lambda>r.
              if rr_id r = i
              then r\<lparr>rr_name := ri_name input, rr_source_kind := criteria_source_kind (ri_criteria input),
                     rr_enabled := ri_enabled input, rr_criteria := ri_criteria input,
                     rr_trigger_policy := ri_trigger_policy input, rr_template := ri_template input,
                     rr_updated_at := now\<rparr>
              else r) (db_rules db)\<rparr>
        in case replace_rule_targets i (ri_targets input) db1 of
             Inl e \<Rightarrow> (db, Inl e)
           | Inr db2 \<Rightarrow> (db2, Inr (get_alert_rule i db2))
      else (db, Inr None))"

text \<open>Deleting a rule deletes its targets, its events and their delivery attempts.\<close>

definition delete_alert_rule :: "i64 \<Rightarrow> ('f, 'v) alert_db \<Rightarrow> ('f, 'v) alert_db \<times> bool" where
  "delete_alert_rule i db =
     (let gone = map ev_id (filter (\<lambda>e. ev_rule_id e = i) (db_events db))
      in (db\<lparr>db_rules := filter (\<lambda>r. rr_id r \<noteq> i) (db_rules db),
             db_rule_targets := filter (\<lambda>(r, t). r \<noteq> i) (db_rule_targets db),
             db_events := filter (\<lambda>e. ev_rule_id e \<noteq> i) (db_events db),
             db_attempts := filter (\<lambda>a. da_alert_event_id a \<notin> set gone) (db_attempts db)\<rparr>,
          \<exists>r \<in> set (db_rules db). rr_id r = i))"

definition list_alert_silences :: "('f, 'v) alert_db \<Rightarrow> 'f alert_silence list" where
  "list_alert_silences db = sort_key (\<lambda>s. - si_starts_at s) (rev (db_silences db))"

definition list_active_alert_silences :: "system_time \<Rightarrow> ('f, 'v) alert_db \<Rightarrow> 'f alert_silence list" where
  "list_active_alert_silences at db = filter (\<lambda>s. si_starts_at s \<le> at \<and> si_ends_at s \<ge> at) (db_silences db)"

definition create_alert_silence :: "system_time \<Rightarrow> 'f alert_match_criteria \<Rightarrow> system_time \<Rightarrow> system_time \<Rightarrow> str \<Rightarrow>
    ('f, 'v) alert_db \<Rightarrow> ('f, 'v) alert_db \<times> 'f alert_silence" where
  "create_alert_silence now criteria starts_at ends_at reason db =
     (let row = \<lparr>si_id = db_silence_seq db, si_criteria = criteria, si_starts_at = starts_at, si_ends_at = ends_at,
                 si_reason = reason, si_created_at = now\<rparr>
      in (db\<lparr>db_silences := db_silences db @ [row], db_silence_seq := db_silence_seq db + 1\<rparr>, row))"

definition delete_alert_silence :: "i64 \<Rightarrow> ('f, 'v) alert_db \<Rightarrow> ('f, 'v) alert_db \<times> bool" where
  "delete_alert_silence i db =
     (db\<lparr>db_silences := filter (\<lambda>s. si_id s \<noteq> i) (db_silences db)\<rparr>, \<exists>s \<in> set (db_silences db). si_id s = i)"

section \<open>Source events and alert events\<close>

definition insert_source_event :: "system_time \<Rightarrow> alert_source_kind \<Rightarrow> str \<Rightarrow> 'v \<Rightarrow> system_time \<Rightarrow>
    ('f, 'v) alert_db \<Rightarrow> ('f, 'v) alert_db" where
  "insert_source_event now source_kind source_id payload source_timestamp db =
     db\<lparr>db_source_events := db_source_events db @
          [\<lparr>se_id = db_source_event_seq db, se_source_kind = source_kind, se_source_id = source_id,
            se_payload = payload, se_source_timestamp = source_timestamp, se_created_at = now,
            se_claimed_at = None, se_processed_at = None\<rparr>],
        db_source_event_seq := db_source_event_seq db + 1\<rparr>"

definition claimable_source :: "(i64 \<Rightarrow> bool) \<Rightarrow> system_time \<Rightarrow> 'v alert_source_event \<Rightarrow> bool" where
  "claimable_source locked lease_cutoff e \<longleftrightarrow>
     se_processed_at e = None \<and> (case se_claimed_at e of None \<Rightarrow> True | Some t \<Rightarrow> t \<le> lease_cutoff) \<and>
     \<not> locked (se_id e)"

definition claim_pending_alert_source_events :: "(i64 \<Rightarrow> bool) \<Rightarrow> system_time \<Rightarrow> i64 \<Rightarrow> system_time \<Rightarrow>
    ('f, 'v) alert_db \<Rightarrow> ('f, 'v) alert_db \<times> 'v alert_source_event list" where
  "claim_pending_alert_source_events locked now limit lease_cutoff db =
     (let claimed = map se_id (take (nat limit) (filter (claimable_source locked lease_cutoff) (db_source_events db)));
          rows = map (\<lambda>e. if se_id e \<in> set claimed then e\<lparr>se_claimed_at := Some now\<rparr> else e) (db_source_events db)
      in (db\<lparr>db_source_events := rows\<rparr>, filter (\<lambda>e. se_id e \<in> set claimed) rows))"

definition mark_alert_source_event_processed :: "system_time \<Rightarrow> i64 \<Rightarrow> system_time \<Rightarrow> ('f, 'v) alert_db \<Rightarrow>
    ('f, 'v) alert_db \<times> bool" where
  "mark_alert_source_event_processed now i claimed_at db =
     (let hit = (\<lambda>e. se_id e = i \<and> se_claimed_at e = Some claimed_at)
      in (db\<lparr>db_source_events :=
            map (\<lambda>e. if hit e then e\<lparr>se_processed_at := Some now\<rparr> else e) (db_source_events db)\<rparr>,
          list_ex hit (db_source_events db)))"

definition rule_has_recent_alert_event :: "i64 \<Rightarrow> str \<Rightarrow> system_time \<Rightarrow> ('f, 'v) alert_db \<Rightarrow> bool" where
  "rule_has_recent_alert_event rule_id source_id since db \<longleftrightarrow>
     list_ex (\<lambda>e. ev_rule_id e = rule_id \<and> ev_created_at e \<ge> since \<and>
       list_ex (\<lambda>s. se_id s = ev_source_event_id e \<and> se_source_id s = source_id) (db_source_events db)) (db_events db)"

definition get_alert_event :: "i64 \<Rightarrow> ('f, 'v) alert_db \<Rightarrow> 'v alert_event option" where
  "get_alert_event i db = find (\<lambda>e. ev_id e = i) (db_events db)"

definition list_alert_rule_events :: "i64 \<Rightarrow> ('f, 'v) alert_db \<Rightarrow> 'v alert_event list" where
  "list_alert_rule_events rule_id db = rev (filter (\<lambda>e. ev_rule_id e = rule_id) (db_events db))"

definition list_alert_deliveries :: "('f, 'v) alert_db \<Rightarrow> alert_delivery_attempt list" where
  "list_alert_deliveries db = rev (db_attempts db)"

text \<open>\<^verbatim>\<open>{}\<close> of a signed number.\<close>

definition show_int :: "int \<Rightarrow> str" where
  "show_int n = (if n < 0 then CHR ''-'' # show_nat (nat (- n)) else show_nat (nat n))"

definition pending_row :: "system_time \<Rightarrow> i64 \<Rightarrow> i64 \<Rightarrow> str \<Rightarrow> alert_rule_target \<Rightarrow> alert_delivery_attempt" where
  "pending_row now i event_id delivery_key t =
     \<lparr>da_id = i, da_alert_event_id = event_id, da_contact_point_id = rt_contact_point_id t,
      da_delivery_key = delivery_key @ '':'' @ show_int (rt_contact_point_id t), da_attempt_no = 0,
      da_status = Pending, da_claimed_at = None, da_next_retry_at = None, da_response_code = None,
      da_response_excerpt = None, da_delivered_at = None, da_created_at = now, da_updated_at = now\<rparr>"

fun insert_attempts :: "system_time \<Rightarrow> i64 \<Rightarrow> str \<Rightarrow> alert_rule_target list \<Rightarrow> ('f, 'v) alert_db \<Rightarrow>
    ('f, 'v) alert_db \<times> (persist_error + unit)" where
  "insert_attempts now event_id delivery_key [] db = (db, Inr ())"
| "insert_attempts now event_id delivery_key (t # ts) db =
     (let i = db_attempt_seq db;
          db1 = db\<lparr>db_attempt_seq := i + 1\<rparr>
      in if list_ex (\<lambda>p. cp_id p = rt_contact_point_id t) (db_contact_points db)
         then insert_attempts now event_id delivery_key ts
                (db1\<lparr>db_attempts := db_attempts db @
                   [pending_row now i event_id delivery_key t]\<rparr>)
         else (db1, Inl foreign_key_violation))"

definition insert_alert_event_with_attempts :: "system_time \<Rightarrow> 'f alert_rule \<Rightarrow> i64 \<Rightarrow> str \<Rightarrow> str \<Rightarrow> str \<Rightarrow> 'v \<Rightarrow>
    ('f, 'v) alert_db \<Rightarrow> ('f, 'v) alert_db \<times> (persist_error + 'v alert_event option)" where
  "insert_alert_event_with_attempts now rule source_event_id delivery_key title body payload db =
     (let event = \<lparr>ev_id = db_event_seq db, ev_rule_id = ru_id rule, ev_source_event_id = source_event_id,
                   ev_delivery_key = delivery_key, ev_severity = tp_severity (ru_trigger_policy rule),
                   ev_title = title, ev_body = body, ev_payload = payload, ev_created_at = now\<rparr>;
          db1 = db\<lparr>db_event_seq := db_event_seq db + 1\<rparr>
      in if list_ex (\<lambda>e. ev_delivery_key e = delivery_key) (db_events db) then (db1, Inr None)
         else if list_ex (\<lambda>r. rr_id r = ru_id rule) (db_rules db) \<and>
                 list_ex (\<lambda>s. se_id s = source_event_id) (db_source_events db)
         then case insert_attempts now (ev_id event) delivery_key (ru_targets rule)
                     (db1\<lparr>db_events := db_events db @ [event]\<rparr>) of
                (db2, Inr _) \<Rightarrow> (db2, Inr (Some event))
              | (db2, Inl e) \<Rightarrow> (db1\<lparr>db_attempt_seq := db_attempt_seq db2\<rparr>, Inl e)
         else (db1, Inl foreign_key_violation))"

section \<open>Delivery attempts\<close>

record delivery_attempt_update =
  au_id :: i64
  au_claimed_at :: system_time
  au_attempt_no :: i32
  au_status :: alert_delivery_status
  au_next_retry_at :: "system_time option"
  au_response_code :: "i32 option"
  au_response_excerpt :: "str option"

definition claimable_attempt :: "(i64 \<Rightarrow> bool) \<Rightarrow> system_time \<Rightarrow> system_time \<Rightarrow> alert_delivery_attempt \<Rightarrow> bool" where
  "claimable_attempt locked now lease_cutoff a \<longleftrightarrow>
     (da_status a \<in> {Pending, RetryPending} \<and> (case da_next_retry_at a of None \<Rightarrow> True | Some t \<Rightarrow> t \<le> now) \<or>
      da_status a = InProgress \<and> (case da_claimed_at a of None \<Rightarrow> False | Some t \<Rightarrow> t \<le> lease_cutoff)) \<and>
     \<not> locked (da_id a)"

definition claim_due_delivery_attempts :: "(i64 \<Rightarrow> bool) \<Rightarrow> system_time \<Rightarrow> i64 \<Rightarrow> system_time \<Rightarrow>
    ('f, 'v) alert_db \<Rightarrow> ('f, 'v) alert_db \<times> alert_delivery_attempt list" where
  "claim_due_delivery_attempts locked now limit lease_cutoff db =
     (let claimed = map da_id (take (nat limit) (filter (claimable_attempt locked now lease_cutoff) (db_attempts db)));
          rows = map (\<lambda>a. if da_id a \<in> set claimed
                          then a\<lparr>da_status := InProgress, da_claimed_at := Some now, da_updated_at := now\<rparr>
                          else a) (db_attempts db)
      in (db\<lparr>db_attempts := rows\<rparr>, filter (\<lambda>a. da_id a \<in> set claimed) rows))"

definition updates_row :: "delivery_attempt_update \<Rightarrow> alert_delivery_attempt \<Rightarrow> bool" where
  "updates_row u a \<longleftrightarrow> da_id a = au_id u \<and> da_claimed_at a = Some (au_claimed_at u) \<and> da_status a = InProgress"

definition updated_row :: "system_time \<Rightarrow> delivery_attempt_update \<Rightarrow> alert_delivery_attempt \<Rightarrow> alert_delivery_attempt" where
  "updated_row now u a =
     a\<lparr>da_attempt_no := au_attempt_no u, da_status := au_status u, da_next_retry_at := au_next_retry_at u,
       da_response_code := au_response_code u, da_response_excerpt := au_response_excerpt u,
       da_claimed_at := (if au_status u = Delivered then da_claimed_at a else None),
       da_delivered_at := (if au_status u = Delivered then Some now else da_delivered_at a),
       da_updated_at := now\<rparr>"

definition update_delivery_attempt :: "system_time \<Rightarrow> delivery_attempt_update \<Rightarrow> ('f, 'v) alert_db \<Rightarrow>
    ('f, 'v) alert_db \<times> bool" where
  "update_delivery_attempt now u db =
     (db\<lparr>db_attempts := map (\<lambda>a. if updates_row u a then updated_row now u a else a) (db_attempts db)\<rparr>,
      list_ex (updates_row u) (db_attempts db))"

definition mark_delivery_attempt_delivered :: "system_time \<Rightarrow> i64 \<Rightarrow> system_time \<Rightarrow> i32 \<Rightarrow> i32 option \<Rightarrow> str option \<Rightarrow>
    ('f, 'v) alert_db \<Rightarrow> ('f, 'v) alert_db \<times> bool" where
  "mark_delivery_attempt_delivered now i claimed_at attempt_no response_code response_excerpt =
     update_delivery_attempt now \<lparr>au_id = i, au_claimed_at = claimed_at, au_attempt_no = attempt_no,
       au_status = Delivered, au_next_retry_at = None, au_response_code = response_code,
       au_response_excerpt = response_excerpt\<rparr>"

definition mark_delivery_attempt_retry :: "system_time \<Rightarrow> i64 \<Rightarrow> system_time \<Rightarrow> i32 \<Rightarrow> system_time \<Rightarrow> i32 option \<Rightarrow>
    str option \<Rightarrow> ('f, 'v) alert_db \<Rightarrow> ('f, 'v) alert_db \<times> bool" where
  "mark_delivery_attempt_retry now i claimed_at attempt_no next_retry_at response_code response_excerpt =
     update_delivery_attempt now \<lparr>au_id = i, au_claimed_at = claimed_at, au_attempt_no = attempt_no,
       au_status = RetryPending, au_next_retry_at = Some next_retry_at, au_response_code = response_code,
       au_response_excerpt = response_excerpt\<rparr>"

definition mark_delivery_attempt_failed :: "system_time \<Rightarrow> i64 \<Rightarrow> system_time \<Rightarrow> i32 \<Rightarrow> i32 option \<Rightarrow> str option \<Rightarrow>
    ('f, 'v) alert_db \<Rightarrow> ('f, 'v) alert_db \<times> bool" where
  "mark_delivery_attempt_failed now i claimed_at attempt_no response_code response_excerpt =
     update_delivery_attempt now \<lparr>au_id = i, au_claimed_at = claimed_at, au_attempt_no = attempt_no,
       au_status = Failed, au_next_retry_at = None, au_response_code = response_code,
       au_response_excerpt = response_excerpt\<rparr>"

section \<open>Claiming rows of a table\<close>

text \<open>The elements of a prefix of a filtered list, picked from the list again.\<close>

lemma filter_mem_take_filter: "distinct xs \<Longrightarrow> filter (\<lambda>x. x \<in> set (take n (filter P xs))) xs = take n (filter P xs)"
proof (induction xs arbitrary: n)
  case (Cons a xs)
  show ?case
  proof (cases "P a \<and> n > 0")
    case True
    then obtain m where n: "n = Suc m" using gr0_conv_Suc by blast
    have "a \<notin> set xs" using Cons.prems by simp
    then have "filter (\<lambda>x. x = a \<or> x \<in> set (take m (filter P xs))) xs = filter (\<lambda>x. x \<in> set (take m (filter P xs))) xs"
      by (intro filter_cong) auto
    with True n Cons show ?thesis by simp
  next
    case False
    have "a \<notin> set (take n (filter P xs))" using Cons.prems by (meson distinct.simps(2) in_set_takeD filter_is_subset subsetD)
    with False Cons show ?thesis by (cases n) auto
  qed
qed simp

lemma claim_table_sub: "set (take n (filter P xs)) \<subseteq> set xs"
  by (meson filter_is_subset set_take_subset subset_trans)

lemma claim_table_distinct: "distinct (map f xs) \<Longrightarrow> distinct (map f (take n (filter P xs)))"
  by (simp add: distinct_map_filter take_map [symmetric])

text \<open>
  A claim selects rows, updates them by their identities and returns them by their identities; with
  distinct identities these are the selected rows, updated.
\<close>

lemma claim_table:
  fixes f :: "'r \<Rightarrow> 'i"
  assumes ids: "distinct (map f xs)" and upd: "\<And>x. f (upd x) = f x"
  shows "map (\<lambda>a. if f a \<in> f ` set (take n (filter P xs)) then upd a else a) xs =
      map (\<lambda>a. if a \<in> set (take n (filter P xs)) then upd a else a) xs"
    and "filter (\<lambda>a. f a \<in> f ` set (take n (filter P xs)))
        (map (\<lambda>a. if f a \<in> f ` set (take n (filter P xs)) then upd a else a) xs) =
      map upd (take n (filter P xs))"
proof -
  let ?due = "take n (filter P xs)"
  have mem: "f a \<in> f ` set ?due \<longleftrightarrow> a \<in> set ?due" if "a \<in> set xs" for a
    using that ids claim_table_sub [of n P xs] by (auto simp: distinct_map inj_on_def)
  show tab: "map (\<lambda>a. if f a \<in> f ` set ?due then upd a else a) xs = map (\<lambda>a. if a \<in> set ?due then upd a else a) xs"
    by (rule map_cong [OF refl]) (simp add: mem)
  have "filter (\<lambda>a. f a \<in> f ` set ?due) (map (\<lambda>a. if f a \<in> f ` set ?due then upd a else a) xs) =
      map (\<lambda>a. if f a \<in> f ` set ?due then upd a else a) (filter (\<lambda>a. f a \<in> f ` set ?due) xs)"
    by (simp add: filter_map comp_def if_distrib upd cong: if_cong)
  also have "\<dots> = map upd (filter (\<lambda>a. f a \<in> f ` set ?due) xs)" by (rule map_cong [OF refl]) simp
  also have "filter (\<lambda>a. f a \<in> f ` set ?due) xs = filter (\<lambda>a. a \<in> set ?due) xs"
    by (rule filter_cong [OF refl]) (simp add: mem)
  also have "filter (\<lambda>a. a \<in> set ?due) xs = ?due"
    by (rule filter_mem_take_filter) (use ids in \<open>simp add: distinct_map\<close>)
  finally show "filter (\<lambda>a. f a \<in> f ` set ?due) (map (\<lambda>a. if f a \<in> f ` set ?due then upd a else a) xs) = map upd ?due" .
qed

end
