(* ===== verification/Alert_Worker.thy ===== *)
theory Alert_Worker
  imports Alert_Store
begin

text \<open>
  The alert worker (emwin-alert/src/worker.rs): it claims source events, matches them against the
  enabled rules and silences and inserts alert events with one delivery attempt per target, then
  claims due attempts, sends the notifications and finalises each attempt.

  The worker is written over the record \<open>alert_env\<close>: the calls to the sink and to the HTTP client act on
  a world of type \<open>'w\<close> and may fail; the clock, the file filters, the JSON conversions, the templates
  and the calendar arithmetic belong to other components.  \<open>pg_env\<close> gives the calls to the sink their
  meaning on the tables of \<open>Alert_Store\<close>.  \<open>Panic\<close> is the outcome of a panic.
\<close>

section \<open>Matching\<close>

datatype incident_change_action = Created | Updated

datatype incident_change_trigger = Trigger_Persist | Trigger_Cleanup

record incident_summary =
  is_office :: str
  is_phenomena :: str
  is_significance :: str
  is_etn :: i64
  is_current_status :: str
  is_latest_vtec_action :: str
  is_issued_at :: system_time
  is_start_utc :: "system_time option"
  is_end_utc :: "system_time option"
  is_last_updated_at :: system_time
  is_first_product_id :: i64
  is_latest_product_id :: i64
  is_latest_product_timestamp_utc :: system_time

record incident_change =
  ic_action :: incident_change_action
  ic_trigger :: incident_change_trigger
  ic_incident :: incident_summary

fun incident_action_name :: "incident_change_action \<Rightarrow> str" where
  "incident_action_name Created = ''created''"
| "incident_action_name Updated = ''updated''"

definition normalize_lower :: "str \<Rightarrow> str" where
  "normalize_lower s = to_ascii_lowercase (trim s)"

definition normalize_upper :: "str \<Rightarrow> str" where
  "normalize_upper s = to_ascii_uppercase (trim s)"

definition matches_csv :: "str option \<Rightarrow> str \<Rightarrow> (str \<Rightarrow> str) \<Rightarrow> bool" where
  "matches_csv raw actual normal =
     (case raw of
        Some raw \<Rightarrow>
          list_ex (\<lambda>candidate. candidate = normal actual)
            (map normal (filter (\<lambda>s. s \<noteq> []) (map trim (split_char CHR '','' raw))))
      | None \<Rightarrow> True)"

text \<open>\<^verbatim>\<open>str::parse::<i64>\<close>.\<close>

definition parse_i64 :: "str \<Rightarrow> i64 option" where
  "parse_i64 s =
     (case s of
        c # r \<Rightarrow>
          if c = CHR ''-'' then
            (if r = [] then None
             else case digits_acc 0 r of None \<Rightarrow> None | Some n \<Rightarrow> if n \<le> 2 ^ 63 then Some (- int n) else None)
          else map_option int (parse_uint (2 ^ 63) s)
      | [] \<Rightarrow> None)"

definition matches_i64_csv :: "str option \<Rightarrow> i64 \<Rightarrow> bool" where
  "matches_i64_csv raw actual =
     (case raw of
        Some raw \<Rightarrow>
          list_ex (\<lambda>candidate. candidate = actual)
            (List.map_filter parse_i64 (map trim (split_char CHR '','' raw)))
      | None \<Rightarrow> True)"

definition incident_filter_matches :: "incident_filter_input \<Rightarrow> incident_change \<Rightarrow> bool" where
  "incident_filter_matches input change \<longleftrightarrow>
     matches_csv (if_action input) (incident_action_name (ic_action change)) normalize_lower \<and>
     matches_csv (if_office input) (is_office (ic_incident change)) normalize_upper \<and>
     matches_csv (if_phenomena input) (is_phenomena (ic_incident change)) normalize_upper \<and>
     matches_csv (if_significance input) (is_significance (ic_incident change)) normalize_upper \<and>
     matches_csv (if_status input) (is_current_status (ic_incident change)) normalize_lower \<and>
     matches_i64_csv (if_etn input) (is_etn (ic_incident change))"

section \<open>Configuration, statistics and environment\<close>

record alert_worker_config =
  wc_source_batch_size :: i64
  wc_delivery_batch_size :: i64
  wc_idle_poll_interval :: duration
  wc_stats_log_interval :: duration
  wc_source_claim_lease :: duration
  wc_delivery_claim_lease :: duration
  wc_http_timeout :: duration
  wc_max_delivery_attempts :: i32
  wc_apprise_api_url :: "str option"

definition alert_worker_config_default :: alert_worker_config where
  "alert_worker_config_default =
     \<lparr>wc_source_batch_size = 32, wc_delivery_batch_size = 32, wc_idle_poll_interval = 2 * nanos_per_sec,
      wc_stats_log_interval = 30 * nanos_per_sec, wc_source_claim_lease = 300 * nanos_per_sec,
      wc_delivery_claim_lease = 300 * nanos_per_sec, wc_http_timeout = 30 * nanos_per_sec,
      wc_max_delivery_attempts = 4, wc_apprise_api_url = None\<rparr>"

record alert_dispatch_config =
  dc_apprise_api_url :: "str option"
  dc_http_timeout :: duration

record alert_dispatch_outcome =
  do_response_code :: "i32 option"
  do_response_excerpt :: "str option"

record test_alert_notification =
  tn_title :: str
  tn_body :: str

datatype delivery_failure =
    Retryable "i32 option" "str option"
  | Terminal "i32 option" "str option"

datatype alert_error =
    AlertDb persist_error
  | AlertHttp str
  | AlertHttpMiddleware str
  | AlertJson str
  | AlertTemplate str
  | AlertInvalidConfig str

fun show_alert_error :: "alert_error \<Rightarrow> str" where
  "show_alert_error (AlertDb e) = show_persist_error e"
| "show_alert_error (AlertHttp s) = s"
| "show_alert_error (AlertHttpMiddleware s) = s"
| "show_alert_error (AlertJson s) = s"
| "show_alert_error (AlertTemplate s) = s"
| "show_alert_error (AlertInvalidConfig s) = ''invalid alert worker configuration: '' @ s"

text \<open>The counters are atomic and wrap around.\<close>

record alert_worker_stats =
  ws_source_events_claimed :: u64
  ws_source_events_processed :: u64
  ws_alert_events_created :: u64
  ws_matches_silenced :: u64
  ws_matches_cooldown_suppressed :: u64
  ws_source_claim_lost :: u64
  ws_attempts_claimed :: u64
  ws_delivery_success :: u64
  ws_delivery_retry_scheduled :: u64
  ws_delivery_terminal_failure :: u64
  ws_finalization_claim_lost :: u64
  ws_missing_alert_event :: u64
  ws_missing_contact_point :: u64
  ws_disabled_contact_point :: u64

definition alert_worker_stats_default :: alert_worker_stats where
  "alert_worker_stats_default =
     \<lparr>ws_source_events_claimed = 0, ws_source_events_processed = 0, ws_alert_events_created = 0,
      ws_matches_silenced = 0, ws_matches_cooldown_suppressed = 0, ws_source_claim_lost = 0,
      ws_attempts_claimed = 0, ws_delivery_success = 0, ws_delivery_retry_scheduled = 0,
      ws_delivery_terminal_failure = 0, ws_finalization_claim_lost = 0, ws_missing_alert_event = 0,
      ws_missing_contact_point = 0, ws_disabled_contact_point = 0\<rparr>"

datatype 'v json_item = JStr str | JInt i64 | JNull | JValue 'v

record 'v http_request =
  hr_url :: str
  hr_headers :: "(str \<times> str) list"
  hr_json :: "(str \<times> 'v json_item) list"
  hr_timeout :: "duration option"

record http_response =
  hp_status :: u16
  hp_text :: "str option"

record 'v render_context =
  rx_source_event :: 'v
  rx_source_kind :: str
  rx_rule_id :: i64
  rx_rule_name :: str

record ('w, 'f, 'v, 'm) alert_env =
  ae_claim_sources :: "i64 \<Rightarrow> int \<Rightarrow> 'w \<Rightarrow> 'w \<times> (persist_error + 'v alert_source_event list)"
  ae_load_metadata :: "'v alert_source_event \<Rightarrow> 'w \<Rightarrow> 'w \<times> (persist_error + 'm)"
  ae_enabled_rules :: "alert_source_kind \<Rightarrow> 'w \<Rightarrow> 'w \<times> (persist_error + 'f alert_rule list)"
  ae_active_silences :: "system_time \<Rightarrow> 'w \<Rightarrow> 'w \<times> (persist_error + 'f alert_silence list)"
  ae_recent_event :: "i64 \<Rightarrow> str \<Rightarrow> system_time \<Rightarrow> 'w \<Rightarrow> 'w \<times> (persist_error + bool)"
  ae_insert_event :: "'f alert_rule \<Rightarrow> i64 \<Rightarrow> str \<Rightarrow> str \<Rightarrow> str \<Rightarrow> 'v \<Rightarrow> 'w \<Rightarrow> 'w \<times> (persist_error + 'v alert_event option)"
  ae_mark_processed :: "i64 \<Rightarrow> system_time \<Rightarrow> 'w \<Rightarrow> 'w \<times> (persist_error + bool)"
  ae_claim_attempts :: "i64 \<Rightarrow> int \<Rightarrow> 'w \<Rightarrow> 'w \<times> (persist_error + alert_delivery_attempt list)"
  ae_get_event :: "i64 \<Rightarrow> 'w \<Rightarrow> 'w \<times> (persist_error + 'v alert_event option)"
  ae_get_contact_point :: "i64 \<Rightarrow> 'w \<Rightarrow> 'w \<times> (persist_error + alert_contact_point_record option)"
  ae_mark_delivered :: "i64 \<Rightarrow> system_time \<Rightarrow> i32 \<Rightarrow> i32 option \<Rightarrow> str option \<Rightarrow> 'w \<Rightarrow> 'w \<times> (persist_error + bool)"
  ae_mark_retry :: "i64 \<Rightarrow> system_time \<Rightarrow> i32 \<Rightarrow> system_time \<Rightarrow> i32 option \<Rightarrow> str option \<Rightarrow> 'w \<Rightarrow> 'w \<times> (persist_error + bool)"
  ae_mark_failed :: "i64 \<Rightarrow> system_time \<Rightarrow> i32 \<Rightarrow> i32 option \<Rightarrow> str option \<Rightarrow> 'w \<Rightarrow> 'w \<times> (persist_error + bool)"
  ae_send :: "'v http_request \<Rightarrow> 'w \<Rightarrow> 'w \<times> (str + http_response)"
  ae_now :: "'w \<Rightarrow> system_time"
  ae_add_seconds :: "system_time \<Rightarrow> i64 \<Rightarrow> system_time rust"
  ae_sub_seconds :: "system_time \<Rightarrow> i64 \<Rightarrow> system_time rust"
  ae_chrono_duration :: "duration \<Rightarrow> str + int"
  ae_filter :: "'f \<Rightarrow> 'm \<Rightarrow> str + bool"
  ae_incident :: "'v \<Rightarrow> str + incident_change"
  ae_render :: "str \<Rightarrow> 'v render_context \<Rightarrow> str + str"
  ae_hmac :: "bytes \<Rightarrow> bytes \<Rightarrow> bytes"
  ae_json_text :: "(str \<times> 'v json_item) list \<Rightarrow> str"

record 'w alert_state =
  as_world :: 'w
  as_stats :: alert_worker_stats

type_synonym ('w, 'a) alert_comp = "'w alert_state \<Rightarrow> ('w alert_state \<times> (alert_error + 'a)) rust"

text \<open>Sequencing with \<^verbatim>\<open>?\<close>, a call to the sink, and the updates of the counters.\<close>

definition abind :: "('w, 'a) alert_comp \<Rightarrow> ('a \<Rightarrow> ('w, 'b) alert_comp) \<Rightarrow> ('w, 'b) alert_comp" where
  "abind m f s =
     rbind (m s) (\<lambda>(s', r). case r of Inl e \<Rightarrow> Ret (s', Inl e) | Inr x \<Rightarrow> f x s')"

definition areturn :: "'a \<Rightarrow> ('w, 'a) alert_comp" where
  "areturn x s = Ret (s, Inr x)"

definition afail :: "alert_error \<Rightarrow> ('w, 'a) alert_comp" where
  "afail e s = Ret (s, Inl e)"

definition of_result :: "alert_error + 'a \<Rightarrow> ('w, 'a) alert_comp" where
  "of_result r s = Ret (s, r)"

definition of_rust :: "'a rust \<Rightarrow> ('w, 'a) alert_comp" where
  "of_rust r s = rbind r (\<lambda>x. Ret (s, Inr x))"

definition sink_call :: "('w \<Rightarrow> 'w \<times> (persist_error + 'a)) \<Rightarrow> ('w, 'a) alert_comp" where
  "sink_call f s =
     (case f (as_world s) of (w, r) \<Rightarrow> Ret (s\<lparr>as_world := w\<rparr>, map_sum AlertDb id r))"

definition count_stats :: "(alert_worker_stats \<Rightarrow> alert_worker_stats) \<Rightarrow> ('w, unit) alert_comp" where
  "count_stats f s = Ret (s\<lparr>as_stats := f (as_stats s)\<rparr>, Inr ())"

definition the_clock :: "('w, 'f, 'v, 'm) alert_env \<Rightarrow> ('w, system_time) alert_comp" where
  "the_clock env s = Ret (s, Inr (ae_now env (as_world s)))"

section \<open>Source events\<close>

definition map_err :: "('e \<Rightarrow> alert_error) \<Rightarrow> 'e + 'a \<Rightarrow> alert_error + 'a" where
  "map_err f r = map_sum f id r"

definition event_matches_criteria :: "('w, 'f, 'v, 'm) alert_env \<Rightarrow> 'f alert_match_criteria \<Rightarrow>
    'v alert_source_event \<Rightarrow> 'm option \<Rightarrow> alert_error + bool" where
  "event_matches_criteria env criteria event product_metadata =
     (case criteria of
        Match_Product input \<Rightarrow>
          if se_source_kind event \<noteq> ProductAvailable then Inr False
          else (case product_metadata of
              None \<Rightarrow> Inr False
            | Some metadata \<Rightarrow> map_err AlertInvalidConfig (ae_filter env input metadata))
      | Match_Incident input \<Rightarrow>
          if se_source_kind event \<noteq> IncidentChange then Inr False
          else (case ae_incident env (se_payload event) of
              Inl e \<Rightarrow> Inl (AlertJson e)
            | Inr change \<Rightarrow> Inr (incident_filter_matches input change)))"

fun matching_silence :: "('w, 'f, 'v, 'm) alert_env \<Rightarrow> 'v alert_source_event \<Rightarrow> 'm option \<Rightarrow> 'f alert_silence list \<Rightarrow>
    alert_error + i64 option" where
  "matching_silence env event metadata [] = Inr None"
| "matching_silence env event metadata (silence # silences) =
     (case event_matches_criteria env (si_criteria silence) event metadata of
        Inl e \<Rightarrow> Inl e
      | Inr True \<Rightarrow> Inr (Some (si_id silence))
      | Inr False \<Rightarrow> matching_silence env event metadata silences)"

fun source_kind_label :: "alert_source_kind \<Rightarrow> str" where
  "source_kind_label ProductAvailable = ''product_available''"
| "source_kind_label IncidentChange = ''incident_change''"

definition render_rule :: "('w, 'f, 'v, 'm) alert_env \<Rightarrow> 'f alert_rule \<Rightarrow> 'v alert_source_event \<Rightarrow>
    alert_error + str \<times> str" where
  "render_rule env rule event =
     (let ctx = \<lparr>rx_source_event = se_payload event, rx_source_kind = source_kind_label (se_source_kind event),
                 rx_rule_id = ru_id rule, rx_rule_name = ru_name rule\<rparr>
      in case ae_render env (tm_title (ru_template rule)) ctx of
           Inl e \<Rightarrow> Inl (AlertTemplate e)
         | Inr title \<Rightarrow>
             (case ae_render env (tm_body (ru_template rule)) ctx of
                Inl e \<Rightarrow> Inl (AlertTemplate e)
              | Inr body \<Rightarrow> Inr (title, body)))"

definition build_delivery_key :: "'f alert_rule \<Rightarrow> 'v alert_source_event \<Rightarrow> str" where
  "build_delivery_key rule event =
     (case se_source_kind event of
        ProductAvailable \<Rightarrow> show_int (ru_id rule) @ '':product_available:'' @ se_source_id event @ '':fire''
      | IncidentChange \<Rightarrow>
          show_int (ru_id rule) @ '':incident_change:'' @ se_source_id event @ '':'' @ show_int (se_id event) @ '':fire'')"

definition cooldown_seconds :: "u64 \<Rightarrow> i64" where
  "cooldown_seconds n = (if uint n < 2 ^ 63 then uint n else 2 ^ 63 - 1)"

definition in_cooldown :: "('w, 'f, 'v, 'm) alert_env \<Rightarrow> 'f alert_rule \<Rightarrow> 'v alert_source_event \<Rightarrow> ('w, bool) alert_comp" where
  "in_cooldown env rule event =
     (if tp_cooldown_secs (ru_trigger_policy rule) > 0
      then abind (the_clock env) (\<lambda>now.
           abind (of_rust (ae_sub_seconds env now (cooldown_seconds (tp_cooldown_secs (ru_trigger_policy rule))))) (\<lambda>since.
           sink_call (ae_recent_event env (ru_id rule) (se_source_id event) since)))
      else areturn False)"

definition process_rule :: "('w, 'f, 'v, 'm) alert_env \<Rightarrow> 'v alert_source_event \<Rightarrow> 'm option \<Rightarrow> 'f alert_silence list \<Rightarrow>
    'f alert_rule \<Rightarrow> ('w, unit) alert_comp" where
  "process_rule env event metadata silences rule =
     abind (of_result (event_matches_criteria env (ru_criteria rule) event metadata)) (\<lambda>matched.
     if \<not> matched then areturn ()
     else abind (of_result (matching_silence env event metadata silences)) (\<lambda>silence.
     if silence \<noteq> None then count_stats (\<lambda>st. st\<lparr>ws_matches_silenced := ws_matches_silenced st + 1\<rparr>)
     else abind (in_cooldown env rule event) (\<lambda>suppressed.
     if suppressed
     then count_stats (\<lambda>st. st\<lparr>ws_matches_cooldown_suppressed := ws_matches_cooldown_suppressed st + 1\<rparr>)
     else abind (of_result (render_rule env rule event)) (\<lambda>(title, body).
     abind (sink_call (ae_insert_event env rule (se_id event) (build_delivery_key rule event) title body (se_payload event)))
       (\<lambda>inserted.
     if inserted = None then areturn ()
     else count_stats (\<lambda>st. st\<lparr>ws_alert_events_created := ws_alert_events_created st + 1\<rparr>))))))"

fun process_rules :: "('w, 'f, 'v, 'm) alert_env \<Rightarrow> 'v alert_source_event \<Rightarrow> 'm option \<Rightarrow> 'f alert_silence list \<Rightarrow>
    'f alert_rule list \<Rightarrow> ('w, unit) alert_comp" where
  "process_rules env event metadata silences [] = areturn ()"
| "process_rules env event metadata silences (rule # rules) =
     abind (process_rule env event metadata silences rule) (\<lambda>_. process_rules env event metadata silences rules)"

definition finish_source_event :: "('w, 'f, 'v, 'm) alert_env \<Rightarrow> 'v alert_source_event \<Rightarrow> ('w, unit) alert_comp" where
  "finish_source_event env event =
     (case se_claimed_at event of
        None \<Rightarrow> afail (AlertInvalidConfig
          (''claimed source event '' @ show_int (se_id event) @ '' did not include claimed_at''))
      | Some claimed_at \<Rightarrow>
          abind (sink_call (ae_mark_processed env (se_id event) claimed_at)) (\<lambda>ok.
          if \<not> ok then count_stats (\<lambda>st. st\<lparr>ws_source_claim_lost := ws_source_claim_lost st + 1\<rparr>)
          else count_stats (\<lambda>st. st\<lparr>ws_source_events_processed := ws_source_events_processed st + 1\<rparr>)))"

text \<open>The rules of a kind are loaded once per batch; the two caches go along.\<close>

definition cached_rules :: "('w, 'f, 'v, 'm) alert_env \<Rightarrow> alert_source_kind \<Rightarrow> 'f alert_rule list option \<Rightarrow>
    ('w, 'f alert_rule list) alert_comp" where
  "cached_rules env kind cache =
     (case cache of Some rules \<Rightarrow> areturn rules | None \<Rightarrow> sink_call (ae_enabled_rules env kind))"

definition event_metadata :: "('w, 'f, 'v, 'm) alert_env \<Rightarrow> 'v alert_source_event \<Rightarrow> ('w, 'm option) alert_comp" where
  "event_metadata env event =
     (if se_source_kind event = ProductAvailable
      then abind (sink_call (ae_load_metadata env event)) (\<lambda>m. areturn (Some m))
      else areturn None)"

fun process_events :: "('w, 'f, 'v, 'm) alert_env \<Rightarrow> 'f alert_rule list option \<Rightarrow> 'f alert_rule list option \<Rightarrow>
    'v alert_source_event list \<Rightarrow> ('w, unit) alert_comp" where
  "process_events env qbt_rules incident_rules [] = areturn ()"
| "process_events env qbt_rules incident_rules (event # events) =
     abind (event_metadata env event) (\<lambda>metadata.
     abind (cached_rules env (se_source_kind event)
              (if se_source_kind event = ProductAvailable then qbt_rules else incident_rules)) (\<lambda>rules.
     abind (the_clock env) (\<lambda>now.
     abind (sink_call (ae_active_silences env now)) (\<lambda>silences.
     abind (process_rules env event metadata silences rules) (\<lambda>_.
     abind (finish_source_event env event) (\<lambda>_.
     process_events env
       (if se_source_kind event = ProductAvailable then Some rules else qbt_rules)
       (if se_source_kind event = ProductAvailable then incident_rules else Some rules) events))))))"

definition chrono_duration :: "('w, 'f, 'v, 'm) alert_env \<Rightarrow> duration \<Rightarrow> alert_error + int" where
  "chrono_duration env d = map_err (\<lambda>e. AlertInvalidConfig (''invalid duration: '' @ e)) (ae_chrono_duration env d)"

definition process_source_events :: "('w, 'f, 'v, 'm) alert_env \<Rightarrow> alert_worker_config \<Rightarrow> ('w, unit) alert_comp" where
  "process_source_events env config =
     abind (of_result (chrono_duration env (wc_source_claim_lease config))) (\<lambda>lease.
     abind (sink_call (ae_claim_sources env (wc_source_batch_size config) lease)) (\<lambda>events.
     if events = [] then areturn ()
     else abind (count_stats (\<lambda>st. st\<lparr>ws_source_events_claimed := ws_source_events_claimed st + of_nat (length events)\<rparr>)) (\<lambda>_.
     process_events env None None events)))"

section \<open>Sending\<close>

text \<open>\<^verbatim>\<open>chars().take(n)\<close>.\<close>

function take_chars :: "nat \<Rightarrow> str \<Rightarrow> str" where
  "take_chars 0 s = []"
| "take_chars (Suc n) [] = []"
| "take_chars (Suc n) (c # s) =
     c # takeWhile (\<lambda>d. is_cont (byte_of d)) s @ take_chars n (dropWhile (\<lambda>d. is_cont (byte_of d)) s)"
  by pat_completeness auto
termination by (relation "measure fst") simp_all

definition truncate_text :: "str option \<Rightarrow> str option" where
  "truncate_text s = map_option (take_chars 256) s"

definition classify_transport_error :: "str \<Rightarrow> delivery_failure" where
  "classify_transport_error err = Retryable None (Some err)"

definition classify_response :: "u16 \<Rightarrow> str option \<Rightarrow> delivery_failure" where
  "classify_response status body =
     (let response_code = Some (ucast status);
          response_excerpt = truncate_text body
      in if 500 \<le> status \<and> status < 600 \<or> status \<in> {408, 425, 429}
         then Retryable response_code response_excerpt
         else Terminal response_code response_excerpt)"

definition is_success_status :: "u16 \<Rightarrow> bool" where
  "is_success_status status \<longleftrightarrow> 200 \<le> status \<and> status < 300"

definition hex_digit :: "nat \<Rightarrow> char" where
  "hex_digit n = (if n < 10 then char_of (48 + n) else char_of (87 + n))"

definition sign_payload :: "('w, 'f, 'v, 'm) alert_env \<Rightarrow> str \<Rightarrow> (str \<times> 'v json_item) list \<Rightarrow> str" where
  "sign_payload env secret payload =
     concat (map (\<lambda>b. [hex_digit (unat b div 16), hex_digit (unat b mod 16)])
       (ae_hmac env (bytes_of secret) (bytes_of (ae_json_text env payload))))"

definition opt_str :: "str option \<Rightarrow> 'v json_item" where
  "opt_str s = (case s of None \<Rightarrow> JNull | Some s \<Rightarrow> JStr s)"

definition http_send :: "('w, 'f, 'v, 'm) alert_env \<Rightarrow> 'v http_request \<Rightarrow> 'w \<Rightarrow>
    'w \<times> (delivery_failure + alert_dispatch_outcome)" where
  "http_send env request w =
     (case ae_send env request w of
        (w', Inl err) \<Rightarrow> (w', Inl (classify_transport_error err))
      | (w', Inr response) \<Rightarrow>
          (w', if is_success_status (hp_status response)
               then Inr \<lparr>do_response_code = Some (ucast (hp_status response)),
                         do_response_excerpt = truncate_text (hp_text response)\<rparr>
               else Inl (classify_response (hp_status response) (hp_text response))))"

definition webhook_headers :: "('w, 'f, 'v, 'm) alert_env \<Rightarrow> str option \<Rightarrow> str option \<Rightarrow>
    (str \<times> 'v json_item) list \<Rightarrow> (str \<times> str) list" where
  "webhook_headers env authorization_header signing_secret payload =
     (case authorization_header of None \<Rightarrow> [] | Some h \<Rightarrow> [(''Authorization'', h)]) @
     (case signing_secret of None \<Rightarrow> [] | Some secret \<Rightarrow> [(''X-Emwin-Signature'', sign_payload env secret payload)])"

definition apprise_request :: "str \<Rightarrow> str \<Rightarrow> str \<Rightarrow> str \<Rightarrow> 'v http_request" where
  "apprise_request apprise_api_url destination_url title body =
     \<lparr>hr_url = trim_end_matches (\<lambda>c. c = CHR ''/'') apprise_api_url @ ''/notify'', hr_headers = [],
      hr_json = [(''urls'', JStr destination_url), (''title'', JStr title), (''body'', JStr body), (''type'', JStr ''info'')],
      hr_timeout = None\<rparr>"

definition timeout_of :: "u64 option \<Rightarrow> duration option" where
  "timeout_of t = map_option (\<lambda>n. unat n * nanos_per_sec) t"

fun deliver_attempt :: "('w, 'f, 'v, 'm) alert_env \<Rightarrow> alert_dispatch_config \<Rightarrow> 'v alert_event \<Rightarrow>
    alert_contact_point_record \<Rightarrow> alert_delivery_attempt \<Rightarrow> 'w \<Rightarrow> 'w \<times> (delivery_failure + alert_dispatch_outcome)" where
  "deliver_attempt env config event contact_point attempt w =
     (case cr_config contact_point of
        Webhook url authorization_header signing_secret timeout_secs \<Rightarrow>
          (let payload =
             [(''delivery_key'', JStr (da_delivery_key attempt)), (''alert_event_id'', JInt (ev_id event)),
              (''contact_point_id'', JInt (cr_id contact_point)), (''rule_id'', JInt (ev_rule_id event)),
              (''source_event_id'', JInt (ev_source_event_id event)), (''severity'', opt_str (ev_severity event)),
              (''title'', JStr (ev_title event)), (''body'', JStr (ev_body event)),
              (''payload'', JValue (ev_payload event))]
           in http_send env
                \<lparr>hr_url = url,
                 hr_headers = [(''X-Emwin-Alert-Id'', show_int (ev_id event)),
                   (''X-Emwin-Delivery-Key'', da_delivery_key attempt),
                   (''X-Emwin-Contact-Point-Id'', show_int (cr_id contact_point))] @
                   webhook_headers env authorization_header signing_secret payload,
                 hr_json = payload, hr_timeout = timeout_of timeout_secs\<rparr> w)
      | Apprise destination_url \<Rightarrow>
          (case dc_apprise_api_url config of
             None \<Rightarrow> (w, Inl (Terminal None (Some (show_alert_error
               (AlertInvalidConfig ''apprise_api_url is required for apprise contact points'')))))
           | Some apprise_api_url \<Rightarrow>
               http_send env (apprise_request apprise_api_url destination_url (ev_title event) (ev_body event)) w))"

declare deliver_attempt.simps [simp del]

text \<open>A test notification reports the HTTP error itself.  The status is written with its reason phrase.\<close>

definition test_send :: "('w, 'f, 'v, 'm) alert_env \<Rightarrow> (u16 \<Rightarrow> str) \<Rightarrow> str \<Rightarrow> 'v http_request \<Rightarrow> 'w \<Rightarrow>
    'w \<times> (alert_error + alert_dispatch_outcome)" where
  "test_send env show_status what request w =
     (case ae_send env request w of
        (w', Inl err) \<Rightarrow> (w', Inl (AlertHttpMiddleware err))
      | (w', Inr response) \<Rightarrow>
          (w', if is_success_status (hp_status response)
               then Inr \<lparr>do_response_code = Some (ucast (hp_status response)),
                         do_response_excerpt = truncate_text (hp_text response)\<rparr>
               else Inl (AlertInvalidConfig (what @ '' delivery failed status='' @ show_status (hp_status response)))))"

fun deliver_test_notification :: "('w, 'f, 'v, 'm) alert_env \<Rightarrow> (u16 \<Rightarrow> str) \<Rightarrow> alert_dispatch_config \<Rightarrow>
    alert_contact_point_config \<Rightarrow> test_alert_notification \<Rightarrow> 'w \<Rightarrow> 'w \<times> (alert_error + alert_dispatch_outcome)" where
  "deliver_test_notification env show_status config
     (Webhook url authorization_header signing_secret timeout_secs) notification w =
     (let payload = [(''event'', JStr ''test''), (''title'', JStr (tn_title notification)), (''body'', JStr (tn_body notification))]
      in test_send env show_status ''test webhook''
           \<lparr>hr_url = url, hr_headers = webhook_headers env authorization_header signing_secret payload,
            hr_json = payload, hr_timeout = timeout_of timeout_secs\<rparr> w)"
| "deliver_test_notification env show_status config (Apprise destination_url) notification w =
     (case dc_apprise_api_url config of
        None \<Rightarrow> (w, Inl (AlertInvalidConfig ''apprise_api_url is required for apprise contact point tests''))
      | Some apprise_api_url \<Rightarrow>
          test_send env show_status ''test apprise''
            (apprise_request apprise_api_url destination_url (tn_title notification) (tn_body notification)) w)"

section \<open>Delivery attempts\<close>

definition backoff_seconds :: "i32 \<Rightarrow> i64" where
  "backoff_seconds attempt_no =
     (if attempt_no \<in> {0, 1} then 5 else if attempt_no = 2 then 15 else if attempt_no = 3 then 45 else 90)"

definition log_delivery_finalization_claim_loss :: "bool \<Rightarrow> ('w, unit) alert_comp" where
  "log_delivery_finalization_claim_loss finalized =
     (if finalized then areturn ()
      else count_stats (\<lambda>st. st\<lparr>ws_finalization_claim_lost := ws_finalization_claim_lost st + 1\<rparr>))"

text \<open>The three targets that cannot be delivered to, and the outcomes of a delivery.\<close>

definition fail_attempt :: "('w, 'f, 'v, 'm) alert_env \<Rightarrow> (alert_worker_stats \<Rightarrow> alert_worker_stats) \<Rightarrow>
    alert_delivery_attempt \<Rightarrow> system_time \<Rightarrow> i32 option \<Rightarrow> str option \<Rightarrow> ('w, unit) alert_comp" where
  "fail_attempt env count attempt claimed_at response_code response_excerpt =
     abind (count_stats count) (\<lambda>_.
     abind (sink_call (ae_mark_failed env (da_id attempt) claimed_at (da_attempt_no attempt + 1)
              response_code response_excerpt)) log_delivery_finalization_claim_loss)"

definition finish_delivery :: "('w, 'f, 'v, 'm) alert_env \<Rightarrow> alert_worker_config \<Rightarrow> alert_delivery_attempt \<Rightarrow> system_time \<Rightarrow>
    delivery_failure + alert_dispatch_outcome \<Rightarrow> ('w, unit) alert_comp" where
  "finish_delivery env config attempt claimed_at result =
     (case result of
        Inr outcome \<Rightarrow>
          abind (sink_call (ae_mark_delivered env (da_id attempt) claimed_at (da_attempt_no attempt + 1)
                   (do_response_code outcome) (do_response_excerpt outcome))) (\<lambda>finalized.
          if finalized then count_stats (\<lambda>st. st\<lparr>ws_delivery_success := ws_delivery_success st + 1\<rparr>)
          else log_delivery_finalization_claim_loss finalized)
      | Inl (Retryable response_code response_excerpt) \<Rightarrow>
          (let next_attempt_no = da_attempt_no attempt + 1
           in if sint next_attempt_no \<ge> sint (wc_max_delivery_attempts config)
              then fail_attempt env (\<lambda>st. st\<lparr>ws_delivery_terminal_failure := ws_delivery_terminal_failure st + 1\<rparr>)
                     attempt claimed_at response_code response_excerpt
              else
                abind (the_clock env) (\<lambda>now.
                abind (of_rust (ae_add_seconds env now (backoff_seconds next_attempt_no))) (\<lambda>next_retry_at.
                abind (count_stats (\<lambda>st. st\<lparr>ws_delivery_retry_scheduled := ws_delivery_retry_scheduled st + 1\<rparr>)) (\<lambda>_.
                abind (sink_call (ae_mark_retry env (da_id attempt) claimed_at next_attempt_no next_retry_at
                         response_code response_excerpt)) log_delivery_finalization_claim_loss))))
      | Inl (Terminal response_code response_excerpt) \<Rightarrow>
          fail_attempt env (\<lambda>st. st\<lparr>ws_delivery_terminal_failure := ws_delivery_terminal_failure st + 1\<rparr>)
            attempt claimed_at response_code response_excerpt)"

definition send_attempt :: "('w, 'f, 'v, 'm) alert_env \<Rightarrow> alert_dispatch_config \<Rightarrow> 'v alert_event \<Rightarrow>
    alert_contact_point_record \<Rightarrow> alert_delivery_attempt \<Rightarrow> ('w, delivery_failure + alert_dispatch_outcome) alert_comp" where
  "send_attempt env config event contact_point attempt s =
     (case deliver_attempt env config event contact_point attempt (as_world s) of
        (w, r) \<Rightarrow> Ret (s\<lparr>as_world := w\<rparr>, Inr r))"

definition process_attempt :: "('w, 'f, 'v, 'm) alert_env \<Rightarrow> alert_worker_config \<Rightarrow> alert_delivery_attempt \<Rightarrow>
    ('w, unit) alert_comp" where
  "process_attempt env config attempt =
     (case da_claimed_at attempt of
        None \<Rightarrow> afail (AlertInvalidConfig
          (''claimed delivery attempt '' @ show_int (da_id attempt) @ '' did not include claimed_at''))
      | Some claimed_at \<Rightarrow>
          abind (sink_call (ae_get_event env (da_alert_event_id attempt))) (\<lambda>found.
          case found of
            None \<Rightarrow>
              fail_attempt env (\<lambda>st. st\<lparr>ws_missing_alert_event := ws_missing_alert_event st + 1\<rparr>)
                attempt claimed_at None (Some ''missing alert event'')
          | Some event \<Rightarrow>
              abind (sink_call (ae_get_contact_point env (da_contact_point_id attempt))) (\<lambda>point.
              case point of
                None \<Rightarrow>
                  fail_attempt env (\<lambda>st. st\<lparr>ws_missing_contact_point := ws_missing_contact_point st + 1\<rparr>)
                    attempt claimed_at None (Some ''missing contact point'')
              | Some contact_point \<Rightarrow>
                  if \<not> cr_enabled contact_point
                  then fail_attempt env (\<lambda>st. st\<lparr>ws_disabled_contact_point := ws_disabled_contact_point st + 1\<rparr>)
                         attempt claimed_at None (Some ''contact point disabled'')
                  else
                    abind (send_attempt env
                      \<lparr>dc_apprise_api_url = wc_apprise_api_url config, dc_http_timeout = wc_http_timeout config\<rparr>
                      event contact_point attempt)
                      (finish_delivery env config attempt claimed_at))))"

fun process_attempts :: "('w, 'f, 'v, 'm) alert_env \<Rightarrow> alert_worker_config \<Rightarrow> alert_delivery_attempt list \<Rightarrow>
    ('w, unit) alert_comp" where
  "process_attempts env config [] = areturn ()"
| "process_attempts env config (attempt # attempts) =
     abind (process_attempt env config attempt) (\<lambda>_. process_attempts env config attempts)"

definition process_delivery_attempts :: "('w, 'f, 'v, 'm) alert_env \<Rightarrow> alert_worker_config \<Rightarrow> ('w, unit) alert_comp" where
  "process_delivery_attempts env config =
     abind (of_result (chrono_duration env (wc_delivery_claim_lease config))) (\<lambda>lease.
     abind (sink_call (ae_claim_attempts env (wc_delivery_batch_size config) lease)) (\<lambda>attempts.
     if attempts = [] then areturn ()
     else abind (count_stats (\<lambda>st. st\<lparr>ws_attempts_claimed := ws_attempts_claimed st + of_nat (length attempts)\<rparr>)) (\<lambda>_.
     process_attempts env config attempts)))"

section \<open>The worker\<close>

definition run_once :: "('w, 'f, 'v, 'm) alert_env \<Rightarrow> alert_worker_config \<Rightarrow> ('w, unit) alert_comp" where
  "run_once env config =
     abind (process_source_events env config) (\<lambda>_. process_delivery_attempts env config)"

definition worker_config_error :: "alert_worker_config \<Rightarrow> alert_error option" where
  "worker_config_error config =
     (if wc_source_batch_size config \<le> 0 \<or> wc_delivery_batch_size config \<le> 0
      then Some (AlertInvalidConfig ''batch sizes must be positive'')
      else if sint (wc_max_delivery_attempts config) \<le> 0
      then Some (AlertInvalidConfig ''max delivery attempts must be positive'')
      else if wc_source_claim_lease config = 0 \<or> wc_delivery_claim_lease config = 0 \<or> wc_http_timeout config = 0
      then Some (AlertInvalidConfig ''claim leases and HTTP timeout must be positive'')
      else None)"

text \<open>
  The loop until the shutdown, which here comes after \<open>passes\<close> iterations; \<open>idle\<close> is what happens while
  the worker sleeps.  An error of an iteration is logged and dropped.
\<close>

fun worker_loop :: "('w, 'f, 'v, 'm) alert_env \<Rightarrow> alert_worker_config \<Rightarrow> ('w \<Rightarrow> 'w) \<Rightarrow> nat \<Rightarrow> 'w alert_state \<Rightarrow>
    'w alert_state rust" where
  "worker_loop env config idle 0 s = Ret s"
| "worker_loop env config idle (Suc passes) s =
     rbind (run_once env config s) (\<lambda>(s', result).
     worker_loop env config idle passes (s'\<lparr>as_world := idle (as_world s')\<rparr>))"

definition run_worker :: "('w, 'f, 'v, 'm) alert_env \<Rightarrow> alert_worker_config \<Rightarrow> ('w \<Rightarrow> 'w) \<Rightarrow> nat \<Rightarrow> 'w \<Rightarrow>
    (alert_error + 'w alert_state) rust" where
  "run_worker env config idle passes w =
     (case worker_config_error config of
        Some e \<Rightarrow> Ret (Inl e)
      | None \<Rightarrow> rbind (worker_loop env config idle passes \<lparr>as_world = w, as_stats = alert_worker_stats_default\<rparr>)
                 (\<lambda>s. Ret (Inr s)))"

end
