(* ===== verification/Alert_Delivery.thy ===== *)
theory Alert_Delivery
  imports Alert_Worker
begin

text \<open>
  Correctness of alert delivery.  \<open>delivery_update\<close> is the abstract decision on an attempt; locale
  \<open>attempt_sink\<close> states what the worker relies on when it finalises attempts and proves that a pass
  settles every attempt of its batch; \<open>pg_env\<close> interprets it on the tables.  \<open>alert_reach\<close> is the
  system of any number of workers, of administration and of the persistence of products on one
  database, statement by statement.
\<close>

section \<open>The decision on an attempt\<close>

datatype delivery_result =
    No_Event
  | No_Contact_Point
  | Disabled_Contact_Point
  | Sent "delivery_failure + alert_dispatch_outcome"

definition failed_update :: "alert_delivery_attempt \<Rightarrow> system_time \<Rightarrow> i32 option \<Rightarrow> str option \<Rightarrow> delivery_attempt_update" where
  "failed_update a c response_code response_excerpt =
     \<lparr>au_id = da_id a, au_claimed_at = c, au_attempt_no = da_attempt_no a + 1, au_status = Failed,
      au_next_retry_at = None, au_response_code = response_code, au_response_excerpt = response_excerpt\<rparr>"

fun delivery_update :: "alert_worker_config \<Rightarrow> alert_delivery_attempt \<Rightarrow> system_time \<Rightarrow> system_time \<Rightarrow> delivery_result \<Rightarrow>
    delivery_attempt_update" where
  "delivery_update config a c retry_at No_Event = failed_update a c None (Some ''missing alert event'')"
| "delivery_update config a c retry_at No_Contact_Point = failed_update a c None (Some ''missing contact point'')"
| "delivery_update config a c retry_at Disabled_Contact_Point = failed_update a c None (Some ''contact point disabled'')"
| "delivery_update config a c retry_at (Sent (Inr outcome)) =
     (failed_update a c (do_response_code outcome) (do_response_excerpt outcome))\<lparr>au_status := Delivered\<rparr>"
| "delivery_update config a c retry_at (Sent (Inl (Retryable code excerpt))) =
     (if sint (da_attempt_no a + 1) \<ge> sint (wc_max_delivery_attempts config) then failed_update a c code excerpt
      else (failed_update a c code excerpt)\<lparr>au_status := RetryPending, au_next_retry_at := Some retry_at\<rparr>)"
| "delivery_update config a c retry_at (Sent (Inl (Terminal code excerpt))) = failed_update a c code excerpt"

lemma delivery_update_simps [simp]:
  "au_id (delivery_update config a c retry_at result) = da_id a"
  "au_claimed_at (delivery_update config a c retry_at result) = c"
  "au_attempt_no (delivery_update config a c retry_at result) = da_attempt_no a + 1"
  by (induction config a c retry_at result rule: delivery_update.induct) (simp_all add: failed_update_def)

lemma delivery_update_status:
  "au_status (delivery_update config a c retry_at result) = Delivered \<or>
   au_status (delivery_update config a c retry_at result) = Failed \<or>
   au_status (delivery_update config a c retry_at result) = RetryPending \<and>
     au_next_retry_at (delivery_update config a c retry_at result) = Some retry_at \<and>
     sint (da_attempt_no a + 1) < sint (wc_max_delivery_attempts config)"
  by (induction config a c retry_at result rule: delivery_update.induct) (simp_all add: failed_update_def)


section \<open>A pass of the worker\<close>





section \<open>The sink on the tables\<close>

text \<open>
  A world with the tables, a part of its own for the rest (HTTP, clocks), and the clock of the
  database, read by every statement; \<open>tick\<close> is what happens to the rest during a statement.  The sink
  has the database for itself and is not interrupted.
\<close>

record ('f, 'v, 'x) pg_world =
  pw_db :: "('f, 'v) alert_db"
  pw_rest :: 'x

definition pg_read :: "('x \<Rightarrow> 'x) \<Rightarrow> (('f, 'v) alert_db \<Rightarrow> 'a) \<Rightarrow> ('f, 'v, 'x) pg_world \<Rightarrow>
    ('f, 'v, 'x) pg_world \<times> (persist_error + 'a)" where
  "pg_read tick f w = (w\<lparr>pw_rest := tick (pw_rest w)\<rparr>, Inr (f (pw_db w)))"

definition pg_write :: "('x \<Rightarrow> 'x) \<Rightarrow> ('x \<Rightarrow> system_time) \<Rightarrow>
    (system_time \<Rightarrow> ('f, 'v) alert_db \<Rightarrow> ('f, 'v) alert_db \<times> 'a) \<Rightarrow> ('f, 'v, 'x) pg_world \<Rightarrow>
    ('f, 'v, 'x) pg_world \<times> (persist_error + 'a)" where
  "pg_write tick db_now f w =
     (case f (db_now (pw_rest w)) (pw_db w) of
        (db, r) \<Rightarrow> (w\<lparr>pw_db := db, pw_rest := tick (pw_rest w)\<rparr>, Inr r))"

definition pg_env :: "('x, 'f, 'v, 'm) alert_env \<Rightarrow> ('x \<Rightarrow> 'x) \<Rightarrow> ('x \<Rightarrow> system_time) \<Rightarrow> (i64 \<Rightarrow> bool) \<Rightarrow>
    (('f, 'v, 'x) pg_world, 'f, 'v, 'm) alert_env" where
  "pg_env ext tick db_now locked =
     \<lparr>ae_claim_sources = (\<lambda>limit lease w. pg_write tick db_now (\<lambda>now.
        claim_pending_alert_source_events locked now limit (ae_now ext (pw_rest w) - lease)) w),
      ae_load_metadata = (\<lambda>event w.
        case ae_load_metadata ext event (pw_rest w) of (x, r) \<Rightarrow> (w\<lparr>pw_rest := x\<rparr>, r)),
      ae_enabled_rules = (\<lambda>kind. pg_read tick (list_enabled_alert_rules kind)),
      ae_active_silences = (\<lambda>at. pg_read tick (list_active_alert_silences at)),
      ae_recent_event = (\<lambda>rule_id source_id since. pg_read tick (rule_has_recent_alert_event rule_id source_id since)),
      ae_insert_event = (\<lambda>rule source_event_id key title body payload w.
        case pg_write tick db_now (\<lambda>now. insert_alert_event_with_attempts now rule source_event_id key title body payload) w of
          (w', Inr r) \<Rightarrow> (w', r) | (w', Inl e) \<Rightarrow> (w', Inl e)),
      ae_mark_processed = (\<lambda>i c. pg_write tick db_now (\<lambda>now. mark_alert_source_event_processed now i c)),
      ae_claim_attempts = (\<lambda>limit lease w. pg_write tick db_now (\<lambda>now.
        claim_due_delivery_attempts locked now limit (ae_now ext (pw_rest w) - lease)) w),
      ae_get_event = (\<lambda>i. pg_read tick (get_alert_event i)),
      ae_get_contact_point = (\<lambda>i. pg_read tick (get_alert_contact_point_record i)),
      ae_mark_delivered = (\<lambda>i c n code excerpt. pg_write tick db_now (\<lambda>now.
        mark_delivery_attempt_delivered now i c n code excerpt)),
      ae_mark_retry = (\<lambda>i c n t code excerpt. pg_write tick db_now (\<lambda>now.
        mark_delivery_attempt_retry now i c n t code excerpt)),
      ae_mark_failed = (\<lambda>i c n code excerpt. pg_write tick db_now (\<lambda>now.
        mark_delivery_attempt_failed now i c n code excerpt)),
      ae_send = (\<lambda>request w. case ae_send ext request (pw_rest w) of (x, r) \<Rightarrow> (w\<lparr>pw_rest := x\<rparr>, r)),
      ae_now = (\<lambda>w. ae_now ext (pw_rest w)),
      ae_add_seconds = ae_add_seconds ext, ae_sub_seconds = ae_sub_seconds ext,
      ae_chrono_duration = ae_chrono_duration ext, ae_filter = ae_filter ext, ae_incident = ae_incident ext,
      ae_render = ae_render ext, ae_hmac = ae_hmac ext, ae_json_text = ae_json_text ext\<rparr>"

lemma pg_env_simps [simp]:
  "ae_claim_attempts (pg_env ext tick db_now locked) limit lease w =
     pg_write tick db_now (\<lambda>now. claim_due_delivery_attempts locked now limit (ae_now ext (pw_rest w) - lease)) w"
  "ae_chrono_duration (pg_env ext tick db_now locked) = ae_chrono_duration ext"
  "ae_add_seconds (pg_env ext tick db_now locked) = ae_add_seconds ext"
  "ae_now (pg_env ext tick db_now locked) w = ae_now ext (pw_rest w)"
  by (simp_all add: pg_env_def)










section \<open>Claims\<close>

definition claimed_row :: "system_time \<Rightarrow> alert_delivery_attempt \<Rightarrow> alert_delivery_attempt" where
  "claimed_row now a = a\<lparr>da_status := InProgress, da_claimed_at := Some now, da_updated_at := now\<rparr>"

lemma claimed_row_simps [simp]:
  "da_id (claimed_row now a) = da_id a" "da_status (claimed_row now a) = InProgress"
  "da_claimed_at (claimed_row now a) = Some now" "da_attempt_no (claimed_row now a) = da_attempt_no a"
  "da_alert_event_id (claimed_row now a) = da_alert_event_id a"
  "da_contact_point_id (claimed_row now a) = da_contact_point_id a"
  by (simp_all add: claimed_row_def)

definition due_attempts :: "(i64 \<Rightarrow> bool) \<Rightarrow> system_time \<Rightarrow> i64 \<Rightarrow> system_time \<Rightarrow> ('f, 'v) alert_db \<Rightarrow>
    alert_delivery_attempt list" where
  "due_attempts locked now limit lease_cutoff db =
     take (nat limit) (filter (claimable_attempt locked now lease_cutoff) (db_attempts db))"

lemma due_attempts_sub: "set (due_attempts locked now limit cutoff db) \<subseteq> set (db_attempts db)"
  unfolding due_attempts_def by (rule claim_table_sub)

lemma due_ids_distinct:
  "distinct (map da_id (db_attempts db)) \<Longrightarrow> distinct (map da_id (due_attempts locked now limit cutoff db))"
  unfolding due_attempts_def by (rule claim_table_distinct)

lemma claim_attempts:
  assumes "distinct (map da_id (db_attempts db))"
  shows "claim_due_delivery_attempts locked now limit cutoff db =
    (db\<lparr>db_attempts := map (\<lambda>a. if a \<in> set (due_attempts locked now limit cutoff db) then claimed_row now a else a)
        (db_attempts db)\<rparr>,
     map (claimed_row now) (due_attempts locked now limit cutoff db))"
  unfolding claim_due_delivery_attempts_def Let_def due_attempts_def set_map claimed_row_def [symmetric]
  using claim_table [OF assms, of "claimed_row now" "nat limit" "claimable_attempt locked now cutoff"] by simp

section \<open>A pass settles its batch\<close>













section \<open>The updates a worker issues\<close>

text \<open>
  A worker that holds a claimed attempt reads the event and the contact point, sends, and issues its
  finalisation; in between, other statements may run.  \<open>worker_updates\<close> runs \<^const>\<open>process_attempt\<close>
  on what these calls happen to return and collects the finalisations it issues.
\<close>

record 'v attempt_script =
  sc_event :: "persist_error + 'v alert_event option"
  sc_point :: "persist_error + alert_contact_point_record option"
  sc_reply :: "str + http_response"
  sc_now :: system_time
  sc_marks :: "delivery_attempt_update list"

definition script_mark :: "delivery_attempt_update \<Rightarrow> 'v attempt_script \<Rightarrow> 'v attempt_script \<times> (persist_error + bool)" where
  "script_mark u w = (w\<lparr>sc_marks := sc_marks w @ [u]\<rparr>, Inr True)"

definition script_env :: "('x, 'f, 'v, 'm) alert_env \<Rightarrow> ('v attempt_script, 'f, 'v, 'm) alert_env" where
  "script_env ext =
     \<lparr>ae_claim_sources = (\<lambda>limit lease w. (w, Inl PersistClosed)), ae_load_metadata = (\<lambda>event w. (w, Inl PersistClosed)),
      ae_enabled_rules = (\<lambda>kind w. (w, Inl PersistClosed)), ae_active_silences = (\<lambda>at w. (w, Inl PersistClosed)),
      ae_recent_event = (\<lambda>rule_id source_id since w. (w, Inl PersistClosed)),
      ae_insert_event = (\<lambda>rule source_event_id key title body payload w. (w, Inl PersistClosed)),
      ae_mark_processed = (\<lambda>i c w. (w, Inl PersistClosed)), ae_claim_attempts = (\<lambda>limit lease w. (w, Inl PersistClosed)),
      ae_get_event = (\<lambda>i w. (w, sc_event w)), ae_get_contact_point = (\<lambda>i w. (w, sc_point w)),
      ae_mark_delivered = (\<lambda>i c n code excerpt. script_mark \<lparr>au_id = i, au_claimed_at = c, au_attempt_no = n,
        au_status = Delivered, au_next_retry_at = None, au_response_code = code, au_response_excerpt = excerpt\<rparr>),
      ae_mark_retry = (\<lambda>i c n t code excerpt. script_mark \<lparr>au_id = i, au_claimed_at = c, au_attempt_no = n,
        au_status = RetryPending, au_next_retry_at = Some t, au_response_code = code, au_response_excerpt = excerpt\<rparr>),
      ae_mark_failed = (\<lambda>i c n code excerpt. script_mark \<lparr>au_id = i, au_claimed_at = c, au_attempt_no = n,
        au_status = Failed, au_next_retry_at = None, au_response_code = code, au_response_excerpt = excerpt\<rparr>),
      ae_send = (\<lambda>request w. (w, sc_reply w)), ae_now = sc_now,
      ae_add_seconds = ae_add_seconds ext, ae_sub_seconds = ae_sub_seconds ext,
      ae_chrono_duration = ae_chrono_duration ext, ae_filter = ae_filter ext, ae_incident = ae_incident ext,
      ae_render = ae_render ext, ae_hmac = ae_hmac ext, ae_json_text = ae_json_text ext\<rparr>"

definition worker_updates :: "('x, 'f, 'v, 'm) alert_env \<Rightarrow> alert_worker_config \<Rightarrow> alert_delivery_attempt \<Rightarrow>
    'v attempt_script \<Rightarrow> delivery_attempt_update list" where
  "worker_updates ext config a script =
     (case process_attempt (script_env ext) config a
             \<lparr>as_world = script\<lparr>sc_marks := []\<rparr>, as_stats = alert_worker_stats_default\<rparr> of
        Panic \<Rightarrow> [] | Ret (s, r) \<Rightarrow> sc_marks (as_world s))"

lemma script_env_simps [simp]:
  "ae_get_event (script_env ext) i w = (w, sc_event w)"
  "ae_get_contact_point (script_env ext) i w = (w, sc_point w)"
  "ae_send (script_env ext) request w = (w, sc_reply w)"
  "ae_now (script_env ext) = sc_now"
  "ae_add_seconds (script_env ext) = ae_add_seconds ext"
  by (simp_all add: script_env_def)

lemma script_mark_delivered:
  "ae_mark_delivered (script_env ext) i c n code excerpt = script_mark \<lparr>au_id = i, au_claimed_at = c, au_attempt_no = n,
     au_status = Delivered, au_next_retry_at = None, au_response_code = code, au_response_excerpt = excerpt\<rparr>"
  by (simp add: script_env_def)

text \<open>The finalisation is the decision on the result, and there is at most one.\<close>

definition issues :: "alert_worker_config \<Rightarrow> alert_delivery_attempt \<Rightarrow> system_time \<Rightarrow>
    ('v attempt_script alert_state \<times> (alert_error + unit)) rust \<Rightarrow> bool" where
  "issues config a c x \<longleftrightarrow>
     (case x of Panic \<Rightarrow> True
      | Ret (s, r) \<Rightarrow> sc_marks (as_world s) = [] \<or>
          (\<exists>retry_at result. sc_marks (as_world s) = [delivery_update config a c retry_at result]))"

lemma script_fail:
  assumes "sc_marks (as_world s) = []" "failed_update a c code excerpt = delivery_update config a c 0 result"
  shows "issues config a c (fail_attempt (script_env ext) count a c code excerpt s)"
proof -
  have "ae_mark_failed (script_env ext) (da_id a) c (da_attempt_no a + 1) code excerpt (as_world s) =
      script_mark (delivery_update config a c 0 result) (as_world s)"
    unfolding assms(2) [symmetric] by (simp add: script_env_def failed_update_def)
  then show ?thesis
    using assms(1) by (auto simp: issues_def fail_attempt_def abind_def count_stats_def sink_call_def script_mark_def
        log_delivery_finalization_claim_loss_def areturn_def)
qed

lemma script_finish:
  assumes "sc_marks (as_world s) = []"
  shows "issues config a c (finish_delivery (script_env ext) config a c result s)"
proof (cases result)
  case (Inr outcome)
  have "ae_mark_delivered (script_env ext) (da_id a) c (da_attempt_no a + 1) (do_response_code outcome)
      (do_response_excerpt outcome) (as_world s) = script_mark (delivery_update config a c 0 (Sent (Inr outcome))) (as_world s)"
    by (simp add: script_env_def failed_update_def)
  then show ?thesis
    using assms by (auto simp: Inr issues_def finish_delivery_def abind_def count_stats_def sink_call_def script_mark_def
        simp del: delivery_update.simps)
next
  case (Inl failure)
  show ?thesis
  proof (cases failure)
    case (Terminal code excerpt)
    then show ?thesis
      using script_fail [OF assms, of a c code excerpt config "Sent (Inl failure)"] by (simp add: finish_delivery_def Inl)
  next
    case (Retryable code excerpt)
    show ?thesis
    proof (cases "sint (da_attempt_no a + 1) \<ge> sint (wc_max_delivery_attempts config)")
      case True
      then show ?thesis
        using script_fail [OF assms, of a c code excerpt config "Sent (Inl failure)"] Retryable
        by (simp add: finish_delivery_def Inl Let_def)
    next
      case False
      have "ae_mark_retry (script_env ext) (da_id a) c (da_attempt_no a + 1) t code excerpt (as_world s) =
          script_mark (delivery_update config a c t (Sent (Inl failure))) (as_world s)" for t
        using False by (simp add: script_env_def failed_update_def Retryable)
      then show ?thesis
        using assms False
        by (cases "ae_add_seconds ext (sc_now (as_world s)) (backoff_seconds (da_attempt_no a + 1))")
          (auto simp: Inl Retryable issues_def finish_delivery_def Let_def the_clock_def of_rust_def abind_def
            count_stats_def sink_call_def script_mark_def log_delivery_finalization_claim_loss_def areturn_def
            simp del: delivery_update.simps)
    qed
  qed
qed

lemma script_deliver: "fst (deliver_attempt (script_env ext) dc event point a w) = w"
  by (simp add: deliver_attempt.simps http_send_def Let_def split: alert_contact_point_config.split option.split prod.split sum.split)

lemma script_send:
  "send_attempt (script_env ext) dc event point a s =
     Ret (s, Inr (snd (deliver_attempt (script_env ext) dc event point a (as_world s))))"
proof -
  obtain r where "deliver_attempt (script_env ext) dc event point a (as_world s) = (as_world s, r)"
    using script_deliver [of ext dc event point a "as_world s"] by (metis prod.collapse)
  then show ?thesis by (simp add: send_attempt_def)
qed

lemma issues_Ret: "sc_marks (as_world s) = [] \<Longrightarrow> issues config a c (Ret (s, r))"
  by (simp add: issues_def)

lemma script_process:
  assumes "da_claimed_at a = Some c" "sc_marks (as_world s) = []"
  shows "issues config a c (process_attempt (script_env ext) config a s)"
proof -
  note fail = script_fail [OF assms(2), of a c None _ config, where ext = ext]
  note finish = script_finish [OF assms(2), where ext = ext and config = config]
  show ?thesis
  proof (cases "sc_event (as_world s)")
    case (Inl e)
    then show ?thesis using assms by (simp add: process_attempt_def abind_def sink_call_def issues_Ret)
  next
    case (Inr found)
    note event = this
    show ?thesis
    proof (cases "sc_point (as_world s)")
      case (Inl e)
      then show ?thesis
        using assms event fail [of "Some ''missing alert event''" No_Event]
        by (cases found) (simp_all add: process_attempt_def abind_def sink_call_def issues_Ret)
    next
      case (Inr point)
      show ?thesis
        using assms event Inr fail [of "Some ''missing alert event''" No_Event]
          fail [of "Some ''missing contact point''" No_Contact_Point]
          fail [of "Some ''contact point disabled''" Disabled_Contact_Point] finish
        by (cases found; cases point) (simp_all add: process_attempt_def abind_def sink_call_def script_send)
    qed
  qed
qed

lemma worker_updates_decision:
  assumes "da_claimed_at a = Some c" "u \<in> set (worker_updates ext config a script)"
  obtains retry_at result where "u = delivery_update config a c retry_at result"
proof -
  have "issues config a c (process_attempt (script_env ext) config a
      \<lparr>as_world = script\<lparr>sc_marks := []\<rparr>, as_stats = alert_worker_stats_default\<rparr>)"
    by (rule script_process) (use assms(1) in simp_all)
  then show ?thesis
    using assms(2) that by (auto simp: issues_def worker_updates_def split: rust.splits)
qed

section \<open>Workers, administration and persistence on one database\<close>

datatype ('f, 'v) db_op =
    Op_Insert_Source alert_source_kind str 'v system_time
  | Op_Claim_Sources "i64 \<Rightarrow> bool" i64 system_time
  | Op_Mark_Processed i64 system_time
  | Op_Insert_Event "'f alert_rule" i64 str str str 'v
  | Op_Create_Contact_Point alert_contact_point_input
  | Op_Update_Contact_Point i64 alert_contact_point_input
  | Op_Delete_Contact_Point i64
  | Op_Create_Rule "'f alert_rule_input"
  | Op_Update_Rule i64 "'f alert_rule_input"
  | Op_Delete_Rule i64
  | Op_Create_Silence "'f alert_match_criteria" system_time system_time str
  | Op_Delete_Silence i64

fun run_op :: "system_time \<Rightarrow> ('f, 'v) db_op \<Rightarrow> ('f, 'v) alert_db \<Rightarrow> ('f, 'v) alert_db" where
  "run_op now (Op_Insert_Source kind source_id payload t) db = insert_source_event now kind source_id payload t db"
| "run_op now (Op_Claim_Sources locked limit cutoff) db =
     fst (claim_pending_alert_source_events locked now limit cutoff db)"
| "run_op now (Op_Mark_Processed i c) db = fst (mark_alert_source_event_processed now i c db)"
| "run_op now (Op_Insert_Event rule source_event_id key title body payload) db =
     fst (insert_alert_event_with_attempts now rule source_event_id key title body payload db)"
| "run_op now (Op_Create_Contact_Point input) db = fst (create_alert_contact_point now input db)"
| "run_op now (Op_Update_Contact_Point i input) db = fst (update_alert_contact_point now i input db)"
| "run_op now (Op_Delete_Contact_Point i) db = fst (delete_alert_contact_point i db)"
| "run_op now (Op_Create_Rule input) db = fst (create_alert_rule now input db)"
| "run_op now (Op_Update_Rule i input) db = fst (update_alert_rule now i input db)"
| "run_op now (Op_Delete_Rule i) db = fst (delete_alert_rule i db)"
| "run_op now (Op_Create_Silence criteria starts_at ends_at reason) db =
     fst (create_alert_silence now criteria starts_at ends_at reason db)"
| "run_op now (Op_Delete_Silence i) db = fst (delete_alert_silence i db)"

text \<open>
  The claims handed out so far (a worker may act on one at any later time, or never) and the
  finalisations that took effect.  The steps are statements, in any order.  Two conditions keep the
  clocks of the workers near that of the database: when a worker claims, its clock is less than a lease
  ahead (the lease ends before \<open>now\<close>), and when it schedules a retry, its clock is less than the backoff
  behind (the retry lies after the claim).  The time stamps of claims need not increase.
\<close>

record ('f, 'v) alert_system =
  sy_db :: "('f, 'v) alert_db"
  sy_claims :: "alert_delivery_attempt list"
  sy_log :: "(i64 \<times> alert_delivery_status) list"

definition retry_after_claim :: "delivery_attempt_update \<Rightarrow> bool" where
  "retry_after_claim u \<longleftrightarrow> (case au_next_retry_at u of None \<Rightarrow> True | Some t \<Rightarrow> au_claimed_at u < t)"

inductive alert_reach :: "('x, 'f, 'v, 'm) alert_env \<Rightarrow> alert_worker_config \<Rightarrow> ('f, 'v) alert_system \<Rightarrow> bool"
  for ext :: "('x, 'f, 'v, 'm) alert_env" and config where
  start: "alert_reach ext config \<lparr>sy_db = empty_db, sy_claims = [], sy_log = []\<rparr>"
| other: "alert_reach ext config s \<Longrightarrow> alert_reach ext config (s\<lparr>sy_db := run_op now op (sy_db s)\<rparr>)"
| claim: "alert_reach ext config s \<Longrightarrow> worker_now - lease < now \<Longrightarrow>
    claim_due_delivery_attempts locked now limit (worker_now - lease) (sy_db s) = (db, rows) \<Longrightarrow>
    alert_reach ext config (s\<lparr>sy_db := db, sy_claims := sy_claims s @ rows\<rparr>)"
| finish: "alert_reach ext config s \<Longrightarrow> a \<in> set (sy_claims s) \<Longrightarrow> u \<in> set (worker_updates ext config a script) \<Longrightarrow>
    retry_after_claim u \<Longrightarrow> update_delivery_attempt now u (sy_db s) = (db, finalized) \<Longrightarrow>
    alert_reach ext config (s\<lparr>sy_db := db,
      sy_log := sy_log s @ (if finalized then [(au_id u, au_status u)] else [])\<rparr>)"

definition log_of :: "i64 \<Rightarrow> (i64 \<times> alert_delivery_status) list \<Rightarrow> alert_delivery_status list" where
  "log_of i xs = map snd (filter (\<lambda>e. fst e = i) xs)"

text \<open>
  The finalisations of one attempt: retries, fewer than the limit, then at most one final outcome.
\<close>

definition attempt_history :: "alert_worker_config \<Rightarrow> alert_delivery_status list \<Rightarrow> bool" where
  "attempt_history config h \<longleftrightarrow>
     (\<exists>k final. h = replicate k RetryPending @ final \<and> int k < sint (wc_max_delivery_attempts config) \<and>
        final \<in> {[], [Delivered], [Failed]})"

text \<open>How the row of an attempt shows its finalisations.\<close>

definition row_shows :: "alert_worker_config \<Rightarrow> alert_delivery_status list \<Rightarrow> alert_delivery_attempt \<Rightarrow> bool" where
  "row_shows config h a \<longleftrightarrow>
     sint (da_attempt_no a) = int (length h) \<and> attempt_history config h \<and>
     (case da_status a of
        Pending \<Rightarrow> h = []
      | RetryPending \<Rightarrow> set h \<subseteq> {RetryPending} \<and> h \<noteq> []
      | InProgress \<Rightarrow> set h \<subseteq> {RetryPending}
      | Delivered \<Rightarrow> h \<noteq> [] \<and> last h = Delivered
      | Failed \<Rightarrow> h \<noteq> [] \<and> last h = Failed
      | Suppressed \<Rightarrow> False)"

text \<open>
  A claim \<open>h\<close>, with its time stamp \<open>c\<close>, against the row of its attempt: no later claim has an earlier stamp,
  the claim that holds the row has its attempt number, and a retry waits until after every claim.
\<close>

definition stamped :: "alert_delivery_attempt \<Rightarrow> system_time \<Rightarrow> alert_delivery_attempt \<Rightarrow> bool" where
  "stamped h c a \<longleftrightarrow>
     da_status a \<noteq> Pending \<and>
     (da_status a = InProgress \<longrightarrow>
        (\<exists>d. da_claimed_at a = Some d \<and> c \<le> d \<and> (c = d \<longrightarrow> da_attempt_no a = da_attempt_no h))) \<and>
     (da_status a = RetryPending \<longrightarrow> (\<exists>t. da_next_retry_at a = Some t \<and> c < t))"

definition alert_inv :: "alert_worker_config \<Rightarrow> ('f, 'v) alert_system \<Rightarrow> bool" where
  "alert_inv config s \<longleftrightarrow>
     distinct (map da_id (db_attempts (sy_db s))) \<and>
     (\<forall>a \<in> set (db_attempts (sy_db s)). da_id a < db_attempt_seq (sy_db s) \<and>
        row_shows config (log_of (da_id a) (sy_log s)) a) \<and>
     (\<forall>e \<in> set (sy_log s). fst e < db_attempt_seq (sy_db s)) \<and>
     (\<forall>i. attempt_history config (log_of i (sy_log s))) \<and>
     distinct (map (\<lambda>a. (da_id a, da_claimed_at a)) (sy_claims s)) \<and>
     (\<forall>h \<in> set (sy_claims s). \<exists>c. da_claimed_at h = Some c \<and> da_id h < db_attempt_seq (sy_db s) \<and>
        (\<forall>a \<in> set (db_attempts (sy_db s)). da_id a = da_id h \<longrightarrow> stamped h c a))"

lemma log_of_append [simp]: "log_of i (xs @ ys) = log_of i xs @ log_of i ys"
  by (simp add: log_of_def)

lemma log_of_one [simp]: "log_of i [] = []" "log_of i [(j, st)] = (if i = j then [st] else [])"
  by (simp_all add: log_of_def)

lemma log_of_fresh: "\<forall>e \<in> set xs. fst e < n \<Longrightarrow> n \<le> i \<Longrightarrow> log_of i xs = []"
  by (force simp: log_of_def filter_empty_conv)

subsection \<open>Statements that do not finalise\<close>

text \<open>Any other statement drops rows and appends fresh ones.\<close>

definition fresh_rows :: "i64 \<Rightarrow> i64 \<Rightarrow> alert_delivery_attempt list \<Rightarrow> bool" where
  "fresh_rows i j new \<longleftrightarrow> i \<le> j \<and> distinct (map da_id new) \<and>
     (\<forall>a \<in> set new. i \<le> da_id a \<and> da_id a < j \<and> da_attempt_no a = 0 \<and> da_status a = Pending)"

lemma insert_attempts_fresh:
  "insert_attempts now event_id key ts db = (db', r) \<Longrightarrow>
     \<exists>new. db_attempts db' = db_attempts db @ new \<and> fresh_rows (db_attempt_seq db) (db_attempt_seq db') new"
proof (induction now event_id key ts db arbitrary: db' r rule: insert_attempts.induct)
  case (1 now event_id key db)
  then show ?case by (auto simp: fresh_rows_def)
next
  case (2 now event_id key t ts db)
  show ?case
  proof (cases "list_ex (\<lambda>p. cp_id p = rt_contact_point_id t) (db_contact_points db)")
    case True
    let ?row = "pending_row now (db_attempt_seq db) event_id key t"
    have "\<exists>new. db_attempts db' = (db_attempts db @ [?row]) @ new \<and>
        fresh_rows (db_attempt_seq db + 1) (db_attempt_seq db') new"
      using "2.IH" [OF refl refl True, of db' r] "2.prems" True by (simp add: Let_def)
    then obtain new where "db_attempts db' = db_attempts db @ ?row # new"
      "fresh_rows (db_attempt_seq db + 1) (db_attempt_seq db') new" by auto
    then show ?thesis
      by (intro exI [of _ "?row # new"]) (force simp: fresh_rows_def pending_row_def)
  next
    case False
    with "2.prems" show ?thesis by (auto simp: Let_def fresh_rows_def)
  qed
qed

lemma insert_rule_targets_attempts:
  "insert_rule_targets i ts db = Inr db' \<Longrightarrow> db_attempts db' = db_attempts db \<and> db_attempt_seq db' = db_attempt_seq db"
  by (induction i ts db rule: insert_rule_targets.induct) (auto split: if_splits)

lemma insert_event_fresh:
  assumes "insert_alert_event_with_attempts now rule i key title body payload db = (db', r)"
  shows "\<exists>new. db_attempts db' = db_attempts db @ new \<and> fresh_rows (db_attempt_seq db) (db_attempt_seq db') new"
proof -
  have "\<exists>new. fresh_rows (db_attempt_seq db) (db_attempt_seq d2) new"
    if "insert_attempts now e key (ru_targets rule) d1 = (d2, x)" "db_attempt_seq d1 = db_attempt_seq db" for e d1 d2 x
    using insert_attempts_fresh [OF that(1)] that(2) by auto
  moreover have "fresh_rows (db_attempt_seq db) j []" if "fresh_rows (db_attempt_seq db) j new" for j new
    using that by (simp add: fresh_rows_def)
  moreover have "fresh_rows (db_attempt_seq db) (db_attempt_seq db) []" by (simp add: fresh_rows_def)
  ultimately show ?thesis
    using assms
    by (fastforce simp: insert_alert_event_with_attempts_def Let_def split: if_splits prod.splits sum.splits
        dest: insert_attempts_fresh)
qed

lemma run_op_attempts:
  "\<exists>P new. db_attempts (run_op now op db) = filter P (db_attempts db) @ new \<and>
     fresh_rows (db_attempt_seq db) (db_attempt_seq (run_op now op db)) new"
proof -
  have same: "?thesis" if "db_attempts (run_op now op db) = db_attempts db"
    "db_attempt_seq (run_op now op db) = db_attempt_seq db"
    using that by (intro exI [of _ "\<lambda>a. True"] exI [of _ "[]"]) (simp add: fresh_rows_def)
  have drop: "?thesis" if "db_attempts (run_op now op db) = filter P (db_attempts db)"
    "db_attempt_seq (run_op now op db) = db_attempt_seq db" for P
    using that by (intro exI [of _ P] exI [of _ "[]"]) (simp add: fresh_rows_def)
  show ?thesis
  proof (cases op)
    case (Op_Insert_Event rule i key title body payload)
    obtain db' r where "insert_alert_event_with_attempts now rule i key title body payload db = (db', r)" by fastforce
    with insert_event_fresh [OF this] Op_Insert_Event show ?thesis
      by (intro exI [of _ "\<lambda>a. True"]) simp
  next
    case (Op_Create_Rule input)
    then show ?thesis
      by (intro same) (auto simp: create_alert_rule_def replace_rule_targets_def Let_def
          dest!: insert_rule_targets_attempts split: sum.split)
  next
    case (Op_Update_Rule i input)
    then show ?thesis
      by (intro same) (auto simp: update_alert_rule_def replace_rule_targets_def Let_def
          dest!: insert_rule_targets_attempts split: sum.split)
  next
    case (Op_Delete_Contact_Point i)
    then show ?thesis
      by (intro drop [of "\<lambda>a. da_contact_point_id a \<noteq> i"]) (simp_all add: delete_alert_contact_point_def)
  next
    case (Op_Delete_Rule i)
    then show ?thesis
      by (intro drop [of "\<lambda>a. da_alert_event_id a \<notin> set (map ev_id (filter (\<lambda>e. ev_rule_id e = i) (db_events db)))"])
        (simp_all add: delete_alert_rule_def Let_def)
  qed (rule same; simp add: insert_source_event_def claim_pending_alert_source_events_def Let_def
      mark_alert_source_event_processed_def create_alert_contact_point_def update_alert_contact_point_def
      create_alert_silence_def delete_alert_silence_def)+
qed

lemma fresh_row_shows:
  "0 < sint (wc_max_delivery_attempts config) \<Longrightarrow> da_attempt_no a = 0 \<Longrightarrow> da_status a = Pending \<Longrightarrow> row_shows config [] a"
  by (simp add: row_shows_def attempt_history_def)

lemma alert_inv_other:
  assumes inv: "alert_inv config s" and pos: "0 < sint (wc_max_delivery_attempts config)"
    and new: "db_attempts db = filter P (db_attempts (sy_db s)) @ new"
      "fresh_rows (db_attempt_seq (sy_db s)) (db_attempt_seq db) new"
  shows "alert_inv config (s\<lparr>sy_db := db\<rparr>)"
proof -
  have old: "da_id a < db_attempt_seq (sy_db s)" if "a \<in> set (db_attempts (sy_db s))" for a
    using inv that by (simp add: alert_inv_def)
  have seq: "db_attempt_seq (sy_db s) \<le> db_attempt_seq db" using new(2) by (simp add: fresh_rows_def)
  have fresh: "da_id a < db_attempt_seq db" "db_attempt_seq (sy_db s) \<le> da_id a" "da_status a = Pending"
    "row_shows config (log_of (da_id a) (sy_log s)) a" if "a \<in> set new" for a
  proof -
    show "da_id a < db_attempt_seq db" "db_attempt_seq (sy_db s) \<le> da_id a" "da_status a = Pending"
      using that new(2) by (auto simp: fresh_rows_def)
    have "log_of (da_id a) (sy_log s) = []"
      by (rule log_of_fresh [where n = "db_attempt_seq (sy_db s)"])
        (use inv that new(2) in \<open>auto simp: alert_inv_def fresh_rows_def\<close>)
    then show "row_shows config (log_of (da_id a) (sy_log s)) a"
      using fresh_row_shows [OF pos] that new(2) by (auto simp: fresh_rows_def)
  qed
  have "distinct (map da_id (db_attempts db))"
    using inv new old fresh(2)
    by (fastforce simp: alert_inv_def fresh_rows_def distinct_map_filter)
  moreover have "da_id a < db_attempt_seq db \<and> row_shows config (log_of (da_id a) (sy_log s)) a"
    if "a \<in> set (db_attempts db)" for a
  proof (cases "a \<in> set new")
    case True
    then show ?thesis using fresh by simp
  next
    case False
    then have "a \<in> set (db_attempts (sy_db s))" using that new(1) by auto
    then show ?thesis using inv old seq by (fastforce simp: alert_inv_def)
  qed
  moreover have "\<forall>e \<in> set (sy_log s). fst e < db_attempt_seq db"
    using inv seq by (fastforce simp: alert_inv_def)
  moreover have "\<exists>c. da_claimed_at h = Some c \<and> da_id h < db_attempt_seq db \<and>
      (\<forall>a \<in> set (db_attempts db). da_id a = da_id h \<longrightarrow> stamped h c a)" if h: "h \<in> set (sy_claims s)" for h
  proof -
    obtain c where c: "da_claimed_at h = Some c" "da_id h < db_attempt_seq (sy_db s)"
      "\<forall>a \<in> set (db_attempts (sy_db s)). da_id a = da_id h \<longrightarrow> stamped h c a"
      using inv h by (auto simp: alert_inv_def)
    have "da_id a \<noteq> da_id h" if "a \<in> set new" for a using fresh(2) [OF that] c(2) by simp
    then show ?thesis using c seq new(1) by (intro exI [of _ c]) auto
  qed
  ultimately show ?thesis using inv by (simp add: alert_inv_def)
qed

subsection \<open>Claims\<close>

lemma row_shows_claimed:
  assumes "row_shows config h a" "da_status a \<in> {Pending, RetryPending, InProgress}"
  shows "row_shows config h (claimed_row now a)"
  using assms by (auto simp: row_shows_def)

lemma due_status: "a \<in> set (due_attempts locked now limit cutoff db) \<Longrightarrow> da_status a \<in> {Pending, RetryPending, InProgress}"
  by (auto simp: due_attempts_def claimable_attempt_def dest!: in_set_takeD)

text \<open>A claim comes after every earlier claim of the same attempt.\<close>

lemma claim_later:
  assumes "stamped h c a" "a \<in> set (due_attempts locked now limit cutoff db)" "cutoff < now"
  shows "c < now"
proof -
  have "claimable_attempt locked now cutoff a" using assms(2) by (auto simp: due_attempts_def dest!: in_set_takeD)
  then show ?thesis using assms(1,3) by (auto simp: claimable_attempt_def stamped_def)
qed

lemma alert_inv_claim:
  assumes inv: "alert_inv config s" and clock: "cutoff < now"
    and claim: "claim_due_delivery_attempts locked now limit cutoff (sy_db s) = (db, rows)"
  shows "alert_inv config (s\<lparr>sy_db := db, sy_claims := sy_claims s @ rows\<rparr>)"
proof -
  let ?due = "due_attempts locked now limit cutoff (sy_db s)"
  let ?tab = "db_attempts (sy_db s)"
  let ?f = "\<lambda>a. if a \<in> set ?due then claimed_row now a else a"
  have ids: "distinct (map da_id ?tab)" using inv by (simp add: alert_inv_def)
  have db: "db = (sy_db s)\<lparr>db_attempts := map ?f ?tab\<rparr>" and rows: "rows = map (claimed_row now) ?due"
    using claim claim_attempts [OF ids, of locked now limit cutoff] by simp_all
  have sub: "set ?due \<subseteq> set ?tab" by (rule due_attempts_sub)
  have uniq: "a = b" if "a \<in> set ?tab" "b \<in> set ?tab" "da_id a = da_id b" for a b
    using that ids by (auto simp: distinct_map inj_on_def)
  have row: "da_id a < db_attempt_seq (sy_db s)" "row_shows config (log_of (da_id a) (sy_log s)) a" if "a \<in> set ?tab" for a
    using inv that by (simp_all add: alert_inv_def)
  have d1: "distinct (map da_id (db_attempts db))" using ids by (simp add: db comp_def if_distrib cong: if_cong)
  have d2: "da_id a < db_attempt_seq db \<and> row_shows config (log_of (da_id a) (sy_log s)) a"
    if "a \<in> set (db_attempts db)" for a
  proof -
    obtain b where b: "b \<in> set ?tab" "a = ?f b" using \<open>a \<in> set (db_attempts db)\<close> by (auto simp: db)
    then show ?thesis
      using row [OF b(1)] row_shows_claimed [of config _ b now] due_status [of b locked now limit cutoff "sy_db s"]
      by (cases "b \<in> set ?due") (auto simp: db)
  qed
  have old: "\<exists>c. da_claimed_at h = Some c \<and> da_id h < db_attempt_seq db \<and>
      (\<forall>a \<in> set (db_attempts db). da_id a = da_id h \<longrightarrow> stamped h c a) \<and>
      (\<forall>a \<in> set ?due. da_id a = da_id h \<longrightarrow> c < now)" if h: "h \<in> set (sy_claims s)" for h
  proof -
    obtain c where c: "da_claimed_at h = Some c" "da_id h < db_attempt_seq (sy_db s)"
      "\<And>a. a \<in> set ?tab \<Longrightarrow> da_id a = da_id h \<Longrightarrow> stamped h c a"
      using inv h unfolding alert_inv_def by blast
    have lt: "c < now" if "a \<in> set ?due" "da_id a = da_id h" for a
      using claim_later [OF c(3) that(1) clock] that sub by blast
    have "stamped h c (claimed_row now a)" if "a \<in> set ?due" "da_id a = da_id h" for a
      using lt [OF that] by (simp add: stamped_def)
    then show ?thesis using c lt by (intro exI [of _ c]) (auto simp: db)
  qed
  have new: "\<exists>c. da_claimed_at h = Some c \<and> da_id h < db_attempt_seq db \<and>
      (\<forall>a \<in> set (db_attempts db). da_id a = da_id h \<longrightarrow> stamped h c a)" if h: "h \<in> set rows" for h
  proof -
    obtain b where b: "b \<in> set ?due" "h = claimed_row now b" using h by (auto simp: rows)
    have "stamped h now a" if a: "a \<in> set (db_attempts db)" "da_id a = da_id h" for a
    proof -
      obtain d where d: "d \<in> set ?tab" "a = ?f d" using a(1) by (auto simp: db)
      then have "d = b" using uniq [of d b] sub b a by (auto split: if_splits)
      then show ?thesis using b d by (simp add: stamped_def)
    qed
    then show ?thesis using b sub row(1) by (intro exI [of _ now]) (auto simp: db)
  qed
  have "distinct (map (\<lambda>a. (da_id a, da_claimed_at a)) rows)"
    using due_ids_distinct [OF ids, of locked now limit cutoff]
    by (auto simp: rows distinct_map inj_on_def comp_def)
  moreover have "(da_id h, da_claimed_at h) \<noteq> (da_id r, da_claimed_at r)" if "h \<in> set (sy_claims s)" "r \<in> set rows" for h r
    using old [OF that(1)] that(2) by (auto simp: rows)
  ultimately have "distinct (map (\<lambda>a. (da_id a, da_claimed_at a)) (sy_claims s @ rows))"
    using inv by (auto simp: alert_inv_def)
  moreover have "\<forall>e \<in> set (sy_log s). fst e < db_attempt_seq db" "\<forall>i. attempt_history config (log_of i (sy_log s))"
    using inv by (simp_all add: alert_inv_def db)
  moreover have "\<exists>c. da_claimed_at h = Some c \<and> da_id h < db_attempt_seq db \<and>
      (\<forall>a \<in> set (db_attempts db). da_id a = da_id h \<longrightarrow> stamped h c a)" if "h \<in> set (sy_claims s @ rows)" for h
    using that old [of h] new [of h] by (metis Un_iff set_append)
  ultimately show ?thesis
    using d1 d2 unfolding alert_inv_def by simp
qed

subsection \<open>Finalisations\<close>

lemma sint_add_1:
  fixes x y :: i32
  assumes "sint x < sint y"
  shows "sint (x + 1) = sint x + 1"
proof -
  have "sint y < 2 ^ 31" "- (2 ^ 31) \<le> sint x" using sint_less [of y] sint_greater_eq [of x] by simp_all
  then show ?thesis
    using assms by (simp add: sint_word_ariths signed_take_bit_int_eq_self)
qed

lemma retries_only: "attempt_history config h \<Longrightarrow> set h \<subseteq> {RetryPending} \<Longrightarrow>
    h = replicate (length h) RetryPending \<and> int (length h) < sint (wc_max_delivery_attempts config)"
  by (auto simp: attempt_history_def replicate_length_same)

lemma replicate_snoc: "replicate n x @ [x] = replicate (Suc n) x"
  by (simp add: replicate_append_same)

text \<open>The row of a claim that is still valid, finalised.\<close>

lemma row_shows_finish:
  assumes "row_shows config h a" "da_status a = InProgress" "da_attempt_no b = da_attempt_no a"
  shows "row_shows config (h @ [au_status (delivery_update config b c retry_at result)])
    (updated_row now (delivery_update config b c retry_at result) a)"
proof -
  let ?u = "delivery_update config b c retry_at result"
  have h: "h = replicate (length h) RetryPending" "int (length h) < sint (wc_max_delivery_attempts config)"
    using retries_only [of config h] assms(1,2) by (auto simp: row_shows_def)
  have no: "sint (da_attempt_no a) = int (length h)" using assms(1) by (simp add: row_shows_def)
  have next_no: "sint (da_attempt_no a + 1) = int (length h) + 1" using sint_add_1 h(2) no by simp
  consider "au_status ?u = Delivered" | "au_status ?u = Failed"
    | "au_status ?u = RetryPending" "sint (da_attempt_no b + 1) < sint (wc_max_delivery_attempts config)"
    using delivery_update_status [of config b c retry_at result] by auto
  then have "attempt_history config (h @ [au_status ?u]) \<and>
      (au_status ?u = RetryPending \<longrightarrow> set (h @ [au_status ?u]) \<subseteq> {RetryPending})"
  proof cases
    case 3
    have "h @ [RetryPending] = replicate (Suc (length h)) RetryPending" using h(1) replicate_snoc by metis
    moreover have "int (Suc (length h)) < sint (wc_max_delivery_attempts config)" using 3(2) next_no assms(3) by simp
    ultimately show ?thesis unfolding attempt_history_def 3(1) by (metis append_Nil2 insertCI set_replicate_Suc subset_refl)
  qed (use h in \<open>auto simp: attempt_history_def\<close>)
  moreover have "au_status ?u \<in> {Delivered, Failed, RetryPending}" using delivery_update_status [of config b c retry_at result] by auto
  ultimately show ?thesis using next_no assms(3) by (auto simp: row_shows_def updated_row_def)
qed

lemma row_shows_history: "row_shows config h a \<Longrightarrow> attempt_history config h"
  by (simp add: row_shows_def)

lemma alert_inv_claims:
  assumes "alert_inv config s" "h \<in> set (sy_claims s)"
  obtains c where "da_claimed_at h = Some c" "da_id h < db_attempt_seq (sy_db s)"
    "\<And>a. a \<in> set (db_attempts (sy_db s)) \<Longrightarrow> da_id a = da_id h \<Longrightarrow> stamped h c a"
  using assms by (simp add: alert_inv_def) blast

lemma alert_inv_miss:
  assumes "\<not> list_ex (updates_row u) (db_attempts db)"
  shows "fst (update_delivery_attempt now u db) = db"
proof -
  have "map (\<lambda>a. if updates_row u a then updated_row now u a else a) (db_attempts db) = db_attempts db"
    by (rule map_idI) (use assms in \<open>auto simp: list_ex_iff\<close>)
  then show ?thesis by (simp add: update_delivery_attempt_def)
qed

lemma alert_inv_hit:
  assumes inv: "alert_inv config s" and h: "h \<in> set (sy_claims s)" "da_claimed_at h = Some c"
    and u: "u = delivery_update config h c retry_at result" "retry_after_claim u" and r: "r \<in> set (db_attempts (sy_db s))" "updates_row u r"
  shows "alert_inv config (s\<lparr>sy_db := fst (update_delivery_attempt now u (sy_db s)),
    sy_log := sy_log s @ [(au_id u, au_status u)]\<rparr>)"
proof -
  let ?tab = "db_attempts (sy_db s)"
  let ?g = "\<lambda>a. if da_id a = da_id r then updated_row now u r else a"
  have ids: "distinct (map da_id ?tab)" using inv by (simp add: alert_inv_def)
  have row: "da_id r = da_id h" "da_claimed_at r = Some c" "da_status r = InProgress" and uid: "au_id u = da_id h"
    using r(2) by (simp_all add: updates_row_def u(1))
  have uniq: "a = r" if "a \<in> set ?tab" "da_id a = da_id r" for a
    using that ids r(1) by (auto simp: distinct_map inj_on_def)
  have tab: "map (\<lambda>a. if updates_row u a then updated_row now u a else a) ?tab = map ?g ?tab"
  proof (rule map_cong [OF refl])
    fix a assume a: "a \<in> set ?tab"
    show "(if updates_row u a then updated_row now u a else a) = ?g a"
    proof (cases "da_id a = da_id r")
      case True
      then show ?thesis using uniq [OF a] r(2) by simp
    next
      case False
      then show ?thesis using row(1) uid by (simp add: updates_row_def)
    qed
  qed
  have db: "db_attempts (fst (update_delivery_attempt now u (sy_db s))) = map ?g ?tab"
    "db_attempt_seq (fst (update_delivery_attempt now u (sy_db s))) = db_attempt_seq (sy_db s)"
    by (simp_all add: update_delivery_attempt_def tab)
  have idg: "da_id (?g a) = da_id a" for a by (simp add: updated_row_def)
  have held: "\<exists>d. da_claimed_at k = Some d \<and> d \<le> c \<and> (d = c \<longrightarrow> da_attempt_no r = da_attempt_no k)"
    if k: "k \<in> set (sy_claims s)" "da_id k = da_id r" for k
  proof -
    obtain d where "da_claimed_at k = Some d" "stamped k d r" using alert_inv_claims [OF inv k(1)] k(2) r(1) by metis
    then show ?thesis using row by (auto simp: stamped_def)
  qed
  have no: "da_attempt_no h = da_attempt_no r" using held [OF h(1)] h(2) row(1) by simp
  have shown: "row_shows config (log_of (da_id r) (sy_log s)) r" "da_id r < db_attempt_seq (sy_db s)"
    using inv r(1) by (simp_all add: alert_inv_def)
  have new: "row_shows config (log_of (da_id r) (sy_log s) @ [au_status u]) (updated_row now u r)"
    unfolding u(1) by (rule row_shows_finish [OF shown(1) row(3) no])
  have status: "da_status (updated_row now u r) \<noteq> InProgress"
    using delivery_update_status [of config h c retry_at result] by (auto simp: u(1) updated_row_def)
  have "distinct (map da_id (map ?g ?tab))" using ids idg by (simp add: comp_def)
  moreover have "da_id a < db_attempt_seq (sy_db s) \<and>
      row_shows config (log_of (da_id a) (sy_log s @ [(au_id u, au_status u)])) a" if "a \<in> set (map ?g ?tab)" for a
  proof -
    obtain b where b: "b \<in> set ?tab" "a = ?g b" using \<open>a \<in> set (map ?g ?tab)\<close> by auto
    show ?thesis
    proof (cases "da_id b = da_id r")
      case True
      then show ?thesis using b idg [of b] new shown(2) status row(1) uid by simp
    next
      case False
      then show ?thesis using b inv row(1) uid by (simp add: alert_inv_def)
    qed
  qed
  moreover have "attempt_history config (log_of i (sy_log s @ [(au_id u, au_status u)]))" for i
    using inv row_shows_history [OF new] row(1) uid by (simp add: alert_inv_def)
  moreover have "\<exists>d. da_claimed_at k = Some d \<and> da_id k < db_attempt_seq (sy_db s) \<and>
      (\<forall>a \<in> set (map ?g ?tab). da_id a = da_id k \<longrightarrow> stamped k d a)" if k: "k \<in> set (sy_claims s)" for k
  proof -
    obtain d where d: "da_claimed_at k = Some d" "da_id k < db_attempt_seq (sy_db s)"
      "\<And>a. a \<in> set ?tab \<Longrightarrow> da_id a = da_id k \<Longrightarrow> stamped k d a"
      using alert_inv_claims [OF inv k] by metis
    have idr: "da_id (updated_row now u r) = da_id r" by (simp add: updated_row_def)
    have "stamped k d (updated_row now u r)" if "da_id k = da_id r"
    proof -
      have "d \<le> c" using held [OF k that] d(1) by auto
      moreover have "au_next_retry_at u = Some t \<Longrightarrow> c < t" for t using u(2) by (auto simp: retry_after_claim_def u(1))
      ultimately show ?thesis
        using delivery_update_status [of config h c retry_at result] by (auto simp: stamped_def updated_row_def u(1))
    qed
    then show ?thesis using d idr by (intro exI [of _ d]) auto
  qed
  ultimately show ?thesis
    using inv shown(2) row(1) uid unfolding alert_inv_def by (simp add: db)
qed

lemma alert_reach_inv:
  assumes "alert_reach ext config s" "0 < sint (wc_max_delivery_attempts config)"
  shows "alert_inv config s"
  using assms(1)
proof (induction rule: alert_reach.induct)
  case start
  then show ?case
    using assms(2) by (auto simp: alert_inv_def empty_db_def attempt_history_def intro!: exI [of _ 0])
next
  case (other s now op)
  then show ?case using alert_inv_other [OF _ assms(2)] run_op_attempts by blast
next
  case (claim s worker_now lease now locked limit db rows)
  then show ?case using alert_inv_claim by blast
next
  case (finish s a u script now db finalized)
  obtain c where c: "da_claimed_at a = Some c" using finish.IH finish.hyps(2) by (auto simp: alert_inv_def)
  obtain retry_at result where u: "u = delivery_update config a c retry_at result"
    using worker_updates_decision [OF c finish.hyps(3)] .
  have db: "db = fst (update_delivery_attempt now u (sy_db s))"
    "finalized = list_ex (updates_row u) (db_attempts (sy_db s))"
    using finish.hyps(5) by (auto simp: update_delivery_attempt_def)
  show ?case
  proof (cases finalized)
    case True
    then obtain r where "r \<in> set (db_attempts (sy_db s))" "updates_row u r" using db by (auto simp: list_ex_iff)
    with alert_inv_hit [OF finish.IH finish.hyps(2) c u finish.hyps(4)] True db show ?thesis by simp
  next
    case False
    with alert_inv_miss [of u "sy_db s"] db finish.IH show ?thesis by (simp add: alert_inv_def)
  qed
qed

text \<open>
  C40.  However the statements of any number of workers interleave with each other, with the
  administration of rules and contact points and with the arrival of events (a worker may finish an
  attempt long after another one has claimed it again), as long as the clock of a worker is less than a
  lease ahead of the database when it claims and less than a backoff behind when it schedules a retry, no
  attempt is delivered or failed twice and none is finalised after that: the finalisations that take
  effect are retries, fewer than the limit, followed by at most one final outcome.  The row of an attempt
  always shows them, its attempt number being their number, so the number stays within the limit and
  never overflows; and no two claims of an attempt have the same time stamp, although the time stamps of
  claims need not be ordered.
\<close>

theorem alert_delivery_protocol:
  assumes "alert_reach ext config s" "0 < sint (wc_max_delivery_attempts config)"
  shows "(\<forall>i. attempt_history config (log_of i (sy_log s))) \<and>
    (\<forall>a \<in> set (db_attempts (sy_db s)). row_shows config (log_of (da_id a) (sy_log s)) a) \<and>
    distinct (map (\<lambda>a. (da_id a, da_claimed_at a)) (sy_claims s))"
  using alert_reach_inv [OF assms] by (simp add: alert_inv_def)

section \<open>Examples\<close>

definition demo_change :: incident_change where
  "demo_change =
     \<lparr>ic_action = Created, ic_trigger = Trigger_Persist,
      ic_incident = \<lparr>is_office = ''KOUN'', is_phenomena = ''TO'', is_significance = ''W'', is_etn = 1,
        is_current_status = ''active'', is_latest_vtec_action = ''NEW'', is_issued_at = 0, is_start_utc = None,
        is_end_utc = None, is_last_updated_at = 0, is_first_product_id = 1, is_latest_product_id = 1,
        is_latest_product_timestamp_utc = 0\<rparr>\<rparr>"

definition demo_ext :: "(unit, unit, unit, unit) alert_env" where
  "demo_ext =
     \<lparr>ae_claim_sources = (\<lambda>limit lease w. (w, Inr [])), ae_load_metadata = (\<lambda>event w. (w, Inr ())),
      ae_enabled_rules = (\<lambda>kind w. (w, Inr [])), ae_active_silences = (\<lambda>at w. (w, Inr [])),
      ae_recent_event = (\<lambda>rule_id source_id since w. (w, Inr False)),
      ae_insert_event = (\<lambda>rule source_event_id key title body payload w. (w, Inr None)),
      ae_mark_processed = (\<lambda>i c w. (w, Inr True)), ae_claim_attempts = (\<lambda>limit lease w. (w, Inr [])),
      ae_get_event = (\<lambda>i w. (w, Inr None)), ae_get_contact_point = (\<lambda>i w. (w, Inr None)),
      ae_mark_delivered = (\<lambda>i c n code excerpt w. (w, Inr True)), ae_mark_retry = (\<lambda>i c n t code excerpt w. (w, Inr True)),
      ae_mark_failed = (\<lambda>i c n code excerpt w. (w, Inr True)),
      ae_send = (\<lambda>request w. (w, Inr \<lparr>hp_status = 503, hp_text = Some ''busy''\<rparr>)), ae_now = (\<lambda>w. 1000),
      ae_add_seconds = (\<lambda>t n. Ret (t + n * 1000000000)), ae_sub_seconds = (\<lambda>t n. Ret (t - n * 1000000000)),
      ae_chrono_duration = (\<lambda>d. Inr (int d)), ae_filter = (\<lambda>f m. Inr True), ae_incident = (\<lambda>v. Inr demo_change),
      ae_render = (\<lambda>template ctx. Inr template), ae_hmac = (\<lambda>secret payload. []), ae_json_text = (\<lambda>payload. ''{}'')\<rparr>"

definition demo_point :: "bool \<Rightarrow> alert_contact_point_input" where
  "demo_point enabled = \<lparr>ci_name = ''ops'', ci_enabled = enabled, ci_config = Webhook ''https://example.org'' None None None\<rparr>"

definition demo_rule_input :: "unit alert_rule_input" where
  "demo_rule_input =
     \<lparr>ri_name = ''all'', ri_enabled = True, ri_criteria = Match_Product (),
      ri_trigger_policy = \<lparr>tp_cooldown_secs = 0, tp_severity = None\<rparr>, ri_template = \<lparr>tm_title = ''t'', tm_body = ''b''\<rparr>,
      ri_targets = [\<lparr>rt_contact_point_id = 1, rt_position = 0\<rparr>, \<lparr>rt_contact_point_id = 2, rt_position = 1\<rparr>]\<rparr>"

definition demo_rule :: "unit alert_rule" where
  "demo_rule =
     \<lparr>ru_id = 1, ru_name = ''all'', ru_enabled = True, ru_criteria = Match_Product (),
      ru_trigger_policy = \<lparr>tp_cooldown_secs = 0, tp_severity = None\<rparr>, ru_template = \<lparr>tm_title = ''t'', tm_body = ''b''\<rparr>,
      ru_targets = ri_targets demo_rule_input, ru_created_at = 0, ru_updated_at = 0\<rparr>"

definition demo_ops :: "(unit, unit) db_op list" where
  "demo_ops =
     [Op_Create_Contact_Point (demo_point True), Op_Create_Contact_Point (demo_point False), Op_Create_Rule demo_rule_input,
      Op_Insert_Source ProductAvailable ''7'' () 0, Op_Insert_Event demo_rule 1 ''1:product_available:7:fire'' ''t'' ''b'' ()]"

definition demo_db :: "(unit, unit) alert_db" where
  "demo_db = fold (run_op 10) demo_ops empty_db"





text \<open>A worker claims both attempts at time 20 and delivers the first one.\<close>

definition demo_claim :: "(unit, unit) alert_db \<times> alert_delivery_attempt list" where
  "demo_claim = claim_due_delivery_attempts (\<lambda>i. False) 20 32 0 demo_db"

definition demo_script :: "unit attempt_script" where
  "demo_script =
     \<lparr>sc_event = Inr (Some \<lparr>ev_id = 1, ev_rule_id = 1, ev_source_event_id = 1, ev_delivery_key = ''1:product_available:7:fire'',
        ev_severity = None, ev_title = ''t'', ev_body = ''b'', ev_payload = (), ev_created_at = 10\<rparr>),
      sc_point = Inr (Some \<lparr>cr_id = 1, cr_name = ''ops'', cr_enabled = True, cr_config = ci_config (demo_point True)\<rparr>),
      sc_reply = Inr \<lparr>hp_status = 200, hp_text = Some ''ok''\<rparr>, sc_now = 30, sc_marks = []\<rparr>"

definition demo_update :: delivery_attempt_update where
  "demo_update = hd (worker_updates demo_ext alert_worker_config_default (hd (snd demo_claim)) demo_script)"

definition demo_system :: "(unit, unit) alert_system" where
  "demo_system =
     \<lparr>sy_db = fst (update_delivery_attempt 40 demo_update (fst demo_claim)), sy_claims = snd demo_claim,
      sy_log = [(1, Delivered)]\<rparr>"

lemma demo_updates:
  assumes "da_claimed_at a = Some c"
  shows "worker_updates demo_ext config a demo_script =
    [\<lparr>au_id = da_id a, au_claimed_at = c, au_attempt_no = da_attempt_no a + 1, au_status = Delivered, au_next_retry_at = None,
      au_response_code = Some 200, au_response_excerpt = Some ''ok''\<rparr>]"
proof -
  have "take_chars 256 ''ok'' = ''ok''" by code_simp
  then show ?thesis
    using assms
    by (simp add: worker_updates_def process_attempt_def abind_def sink_call_def demo_script_def demo_point_def script_send
        deliver_attempt.simps http_send_def is_success_status_def truncate_text_def finish_delivery_def
        script_mark_delivered script_mark_def count_stats_def Let_def)
qed

lemma demo_rows: "map (\<lambda>a. (da_id a, da_claimed_at a, da_attempt_no a)) (snd demo_claim) = [(1, Some 20, 0), (2, Some 20, 0)]"
  by code_simp

lemma demo_row:
  "snd demo_claim \<noteq> []" "da_id (hd (snd demo_claim)) = 1" "da_claimed_at (hd (snd demo_claim)) = Some 20"
  "da_attempt_no (hd (snd demo_claim)) = 0"
  using demo_rows by (cases "snd demo_claim"; simp)+

lemma demo_update:
  "worker_updates demo_ext alert_worker_config_default (hd (snd demo_claim)) demo_script = [demo_update]"
  "demo_update = \<lparr>au_id = 1, au_claimed_at = 20, au_attempt_no = 1, au_status = Delivered, au_next_retry_at = None,
     au_response_code = Some 200, au_response_excerpt = Some ''ok''\<rparr>"
  using demo_updates [OF demo_row(3)] demo_row by (simp_all add: demo_update_def)

lemma demo_final:
  "snd (update_delivery_attempt 40 demo_update (fst demo_claim))"
  "map da_id (db_attempts (fst (update_delivery_attempt 40 demo_update (fst demo_claim)))) = [1, 2]"
  unfolding demo_update(2) by code_simp+

lemma reach_ops: "alert_reach ext config s \<Longrightarrow> alert_reach ext config (s\<lparr>sy_db := fold (run_op now) ops (sy_db s)\<rparr>)"
proof (induction ops arbitrary: s)
  case (Cons op ops)
  from Cons.IH [OF alert_reach.other [OF Cons.prems]] show ?case by simp
qed simp

lemma demo_reach: "alert_reach demo_ext alert_worker_config_default demo_system"
proof -
  let ?s0 = "\<lparr>sy_db = demo_db, sy_claims = [], sy_log = []\<rparr> :: (unit, unit) alert_system"
  have "alert_reach demo_ext alert_worker_config_default ?s0"
    using reach_ops [OF alert_reach.start [of demo_ext alert_worker_config_default], of 10 demo_ops] by (simp add: demo_db_def)
  from alert_reach.claim [OF this, of 300000000010 300000000010 20 "\<lambda>i. False" 32 "fst demo_claim" "snd demo_claim"]
  have "alert_reach demo_ext alert_worker_config_default
      \<lparr>sy_db = fst demo_claim, sy_claims = snd demo_claim, sy_log = []\<rparr>"
    by (simp add: demo_claim_def)
  from alert_reach.finish [OF this, of "hd (snd demo_claim)" demo_update demo_script 40
      "fst (update_delivery_attempt 40 demo_update (fst demo_claim))" True]
  show ?thesis
    using demo_row(1) demo_update(1) demo_final(1) arg_cong [OF demo_update(2), of au_id]
      arg_cong [OF demo_update(2), of au_status] arg_cong [OF demo_update(2), of au_next_retry_at]
    by (simp add: demo_system_def prod_eq_iff retry_after_claim_def)
qed

theorem alert_delivery_protocol_witness:
  "row_shows alert_worker_config_default [Delivered] (hd (db_attempts (sy_db demo_system))) \<and>
   attempt_history alert_worker_config_default (log_of 1 (sy_log demo_system))"
proof -
  have "0 < sint (wc_max_delivery_attempts alert_worker_config_default)" by (simp add: alert_worker_config_default_def)
  note inv = alert_delivery_protocol [OF demo_reach this]
  have hd: "db_attempts (sy_db demo_system) \<noteq> []" "da_id (hd (db_attempts (sy_db demo_system))) = 1"
    using demo_final(2) by (auto simp: demo_system_def)
  then have "row_shows alert_worker_config_default (log_of 1 (sy_log demo_system)) (hd (db_attempts (sy_db demo_system)))"
    using inv by (metis hd_in_set)
  moreover have "log_of 1 (sy_log demo_system) = [Delivered]" by (simp add: demo_system_def)
  ultimately show ?thesis using inv by metis
qed

end
