(* ===== verification/Alert_Source.thy ===== *)
theory Alert_Source
  imports Alert_Delivery
begin

text \<open>
  Correctness of the first half of the alert worker: a pass over the claimed source events fires
  exactly the rules that match, each at most once, with one delivery attempt per target, and marks
  the events as processed.
\<close>

section \<open>Delivery keys\<close>

lemma show_int_no_colon: "CHR '':'' \<notin> set (show_int n)"
  by (auto simp: show_int_def is_digit_def dest!: show_nat_digits)

lemma show_nat_inj: "show_nat m = show_nat n \<Longrightarrow> m = n"
  by (metis digits_acc_show_nat option.inject)

lemma show_nat_not_minus: "show_nat m \<noteq> CHR ''-'' # s"
  using show_nat_digits [of "CHR ''-''" m] by (auto simp: is_digit_def)

lemma show_int_inj: "show_int m = show_int n \<Longrightarrow> m = n"
  by (auto simp: show_int_def show_nat_not_minus show_nat_not_minus [symmetric] dest!: show_nat_inj split: if_splits)

text \<open>Equal texts with a separator after a part without it have equal parts.\<close>

lemma colon_split: "a @ CHR '':'' # x = b @ CHR '':'' # y \<Longrightarrow> CHR '':'' \<notin> set a \<Longrightarrow> CHR '':'' \<notin> set b \<Longrightarrow> a = b \<and> x = y"
  by (induction a arbitrary: b) (case_tac b; auto)+

lemma colon_split_end:
  assumes "x @ CHR '':'' # a = y @ CHR '':'' # b" "CHR '':'' \<notin> set a" "CHR '':'' \<notin> set b"
  shows "x = y \<and> a = b"
proof -
  have "rev a @ CHR '':'' # rev x = rev b @ CHR '':'' # rev y" using arg_cong [OF assms(1), of rev] by simp
  then show ?thesis using colon_split [of "rev a" "rev x" "rev b" "rev y"] assms(2,3) by simp
qed

lemma delivery_key_inj:
  fixes r r' :: "'f alert_rule" and e e' :: "'v alert_source_event"
  assumes "build_delivery_key r e = build_delivery_key r' e'"
  shows "ru_id r = ru_id r' \<and> se_source_kind e = se_source_kind e' \<and> se_source_id e = se_source_id e' \<and>
    (se_source_kind e = IncidentChange \<longrightarrow> se_id e = se_id e')"
proof -
  define rest where "rest = (\<lambda>e :: 'v alert_source_event. case se_source_kind e of
      ProductAvailable \<Rightarrow> ''product_available:'' @ se_source_id e @ '':fire''
    | IncidentChange \<Rightarrow> ''incident_change:'' @ se_source_id e @ '':'' @ show_int (se_id e) @ '':fire'')"
  have "show_int (ru_id r) @ CHR '':'' # rest e = show_int (ru_id r') @ CHR '':'' # rest e'"
    using assms by (simp add: build_delivery_key_def rest_def split: alert_source_kind.splits)
  then have ids: "ru_id r = ru_id r'" and eq: "rest e = rest e'"
    using colon_split show_int_no_colon show_int_inj by blast+
  show ?thesis
  proof (cases "se_source_kind e")
    case ProductAvailable
    then show ?thesis using ids eq by (cases "se_source_kind e'") (simp_all add: rest_def)
  next
    case IncidentChange
    then have kind: "se_source_kind e' = IncidentChange" using eq by (cases "se_source_kind e'") (simp_all add: rest_def)
    then have "se_source_id e @ CHR '':'' # show_int (se_id e) = se_source_id e' @ CHR '':'' # show_int (se_id e')"
      using eq IncidentChange by (simp add: rest_def)
    then show ?thesis
      using colon_split_end [OF _ show_int_no_colon show_int_no_colon] show_int_inj ids kind IncidentChange by metis
  qed
qed

section \<open>What a pass fires\<close>

text \<open>
  \<open>db'\<close> has, beyond \<open>db\<close>, exactly the events \<open>fs\<close> with a rule each, and for each of them one attempt per
  target of the rule, in this order; keys stay unique and everything else but the source events is
  as before.
\<close>

definition same_config :: "('f, 'v) alert_db \<Rightarrow> ('f, 'v) alert_db \<Rightarrow> bool" where
  "same_config db db' \<longleftrightarrow>
     db_contact_points db' = db_contact_points db \<and> db_rules db' = db_rules db \<and>
     db_rule_targets db' = db_rule_targets db \<and> db_silences db' = db_silences db"

definition targets_of :: "('v alert_event \<times> 'f alert_rule) list \<Rightarrow> (i64 \<times> i64) list" where
  "targets_of fs = concat (map (\<lambda>(ev, rule). map (\<lambda>t. (ev_id ev, rt_contact_point_id t)) (ru_targets rule)) fs)"

definition event_keys :: "('f, 'v) alert_db \<Rightarrow> str list" where
  "event_keys db = map ev_delivery_key (db_events db)"

definition fired :: "('v alert_event \<times> 'f alert_rule) list \<Rightarrow> ('f, 'v) alert_db \<Rightarrow> ('f, 'v) alert_db \<Rightarrow> bool" where
  "fired fs db db' \<longleftrightarrow>
     same_config db db' \<and> db_events db' = db_events db @ map fst fs \<and>
     (\<exists>new. db_attempts db' = db_attempts db @ new \<and>
        map (\<lambda>a. (da_alert_event_id a, da_contact_point_id a)) new = targets_of fs \<and>
        (\<forall>a \<in> set new. da_status a = Pending)) \<and>
     (distinct (event_keys db) \<longrightarrow> distinct (event_keys db'))"

lemma fired_refl: "same_config db db' \<Longrightarrow> db_events db' = db_events db \<Longrightarrow> db_attempts db' = db_attempts db \<Longrightarrow> fired [] db db'"
  by (simp add: fired_def targets_of_def event_keys_def)

lemma fired_trans: "fired fs db db' \<Longrightarrow> fired gs db' db'' \<Longrightarrow> fired (fs @ gs) db db''"
  by (fastforce simp: fired_def same_config_def targets_of_def)

lemma fired_config: "fired fs db db' \<Longrightarrow> same_config db db'" and fired_keys: "fired fs db db' \<Longrightarrow> set (event_keys db) \<subseteq> set (event_keys db')"
  by (auto simp: fired_def event_keys_def)

lemma same_config_reads:
  assumes "same_config db db'"
  shows "list_enabled_alert_rules kind db' = list_enabled_alert_rules kind db"
    "list_active_alert_silences at db' = list_active_alert_silences at db"
  using assms by (simp_all add: same_config_def list_enabled_alert_rules_def list_active_alert_silences_def
      map_alert_rule_row_def cong: map_cong)

text \<open>The references of the schema hold for the targets of rules.\<close>

definition targets_exist :: "('f, 'v) alert_db \<Rightarrow> bool" where
  "targets_exist db \<longleftrightarrow>
     (\<forall>(r, t) \<in> set (db_rule_targets db). \<exists>p \<in> set (db_contact_points db). cp_id p = rt_contact_point_id t)"

lemma insert_attempts_all:
  "\<forall>t \<in> set ts. \<exists>p \<in> set (db_contact_points db). cp_id p = rt_contact_point_id t \<Longrightarrow>
   \<exists>db' new. insert_attempts now i key ts db = (db', Inr ()) \<and> db_attempts db' = db_attempts db @ new \<and>
     map (\<lambda>a. (da_alert_event_id a, da_contact_point_id a)) new = map (\<lambda>t. (i, rt_contact_point_id t)) ts \<and>
     (\<forall>a \<in> set new. da_status a = Pending) \<and> db_events db' = db_events db \<and> same_config db db' \<and>
     db_source_events db' = db_source_events db"
proof (induction ts arbitrary: db)
  case Nil
  then show ?case by (simp add: same_config_def)
next
  case (Cons t ts)
  let ?row = "pending_row now (db_attempt_seq db) i key t"
  let ?db = "db\<lparr>db_attempt_seq := db_attempt_seq db + 1, db_attempts := db_attempts db @ [?row]\<rparr>"
  obtain db' new where "insert_attempts now i key ts ?db = (db', Inr ())"
    "db_attempts db' = db_attempts ?db @ new"
    "map (\<lambda>a. (da_alert_event_id a, da_contact_point_id a)) new = map (\<lambda>t. (i, rt_contact_point_id t)) ts"
    "\<forall>a \<in> set new. da_status a = Pending" "db_events db' = db_events ?db" "same_config ?db db'"
    "db_source_events db' = db_source_events ?db"
    using Cons.IH [of ?db] Cons.prems by auto
  moreover have "list_ex (\<lambda>p. cp_id p = rt_contact_point_id t) (db_contact_points db)"
    using Cons.prems by (auto simp: list_ex_iff)
  ultimately show ?case
    by (intro exI [of _ db'] exI [of _ "?row # new"]) (simp add: Let_def same_config_def pending_row_def)
qed

lemma insert_event_fired:
  assumes "list_ex (\<lambda>r. rr_id r = ru_id rule) (db_rules db)" "list_ex (\<lambda>e. se_id e = i) (db_source_events db)"
    "\<forall>t \<in> set (ru_targets rule). \<exists>p \<in> set (db_contact_points db). cp_id p = rt_contact_point_id t"
  shows "\<exists>db' r fs. insert_alert_event_with_attempts now rule i key title body payload db = (db', Inr r) \<and>
    fired fs db db' \<and> db_source_events db' = db_source_events db \<and> key \<in> set (event_keys db') \<and>
    (\<forall>(ev, q) \<in> set fs. q = rule \<and> ev_delivery_key ev = key \<and> ev_rule_id ev = ru_id rule \<and> ev_source_event_id ev = i)"
proof (cases "list_ex (\<lambda>e. ev_delivery_key e = key) (db_events db)")
  case True
  then show ?thesis
    by (intro exI [of _ "db\<lparr>db_event_seq := db_event_seq db + 1\<rparr>"] exI [of _ None] exI [of _ "[]"])
      (auto simp: insert_alert_event_with_attempts_def Let_def fired_refl same_config_def event_keys_def list_ex_iff)
next
  case False
  define event where "event = \<lparr>ev_id = db_event_seq db, ev_rule_id = ru_id rule, ev_source_event_id = i,
    ev_delivery_key = key, ev_severity = tp_severity (ru_trigger_policy rule),
    ev_title = title, ev_body = body, ev_payload = payload, ev_created_at = now\<rparr>"
  let ?db = "db\<lparr>db_event_seq := db_event_seq db + 1, db_events := db_events db @ [event]\<rparr>"
  obtain db' new where ins: "insert_attempts now (ev_id event) key (ru_targets rule) ?db = (db', Inr ())"
    and db': "db_attempts db' = db_attempts ?db @ new"
    "map (\<lambda>a. (da_alert_event_id a, da_contact_point_id a)) new = map (\<lambda>t. (ev_id event, rt_contact_point_id t)) (ru_targets rule)"
    "\<forall>a \<in> set new. da_status a = Pending" "db_events db' = db_events ?db" "same_config ?db db'"
    "db_source_events db' = db_source_events ?db"
    using insert_attempts_all [of "ru_targets rule" ?db now "ev_id event" key] assms(3) by auto
  have "insert_alert_event_with_attempts now rule i key title body payload db = (db', Inr (Some event))"
    using False assms(1,2) ins by (simp add: insert_alert_event_with_attempts_def Let_def event_def)
  moreover have "fired [(event, rule)] db db'"
    using db' False by (auto simp: fired_def same_config_def targets_of_def event_keys_def list_ex_iff event_def)
  moreover have "key \<in> set (event_keys db')" using db'(4) by (simp add: event_keys_def event_def)
  ultimately show ?thesis
    using db'(6) by (intro exI [of _ db'] exI [of _ "Some event"] exI [of _ "[(event, rule)]"]) (simp add: event_def)
qed

section \<open>Rules of one event\<close>

definition meta_of :: "('v alert_source_event \<Rightarrow> 'm) \<Rightarrow> 'v alert_source_event \<Rightarrow> 'm option" where
  "meta_of meta e = (if se_source_kind e = ProductAvailable then Some (meta e) else None)"

definition criteria_hold :: "('x, 'f, 'v, 'm) alert_env \<Rightarrow> ('v alert_source_event \<Rightarrow> 'm) \<Rightarrow> 'v alert_source_event \<Rightarrow>
    'f alert_match_criteria \<Rightarrow> bool" where
  "criteria_hold ext meta e criteria \<longleftrightarrow> event_matches_criteria ext criteria e (meta_of meta e) = Inr True"

definition silenced :: "('x, 'f, 'v, 'm) alert_env \<Rightarrow> ('v alert_source_event \<Rightarrow> 'm) \<Rightarrow> 'v alert_source_event \<Rightarrow>
    'f alert_silence list \<Rightarrow> bool" where
  "silenced ext meta e silences \<longleftrightarrow> (\<exists>silence \<in> set silences. criteria_hold ext meta e (si_criteria silence))"

text \<open>
  What a pass relies on for the event \<open>e\<close> outside the tables: its metadata can be loaded, the criteria of the
  stored rules and silences can be evaluated on it, the templates of the rules render, and the cooldowns
  of the rules can be subtracted from what the clock shows.
\<close>

definition answers :: "('x, 'f, 'v, 'm) alert_env \<Rightarrow> ('v alert_source_event \<Rightarrow> 'm) \<Rightarrow> ('f, 'v) alert_db \<Rightarrow>
    'v alert_source_event \<Rightarrow> bool" where
  "answers ext meta db e \<longleftrightarrow>
     (se_source_kind e = ProductAvailable \<longrightarrow> (\<forall>x. \<exists>x'. ae_load_metadata ext e x = (x', Inr (meta e)))) \<and>
     (\<forall>silence \<in> set (db_silences db). \<exists>b. event_matches_criteria ext (si_criteria silence) e (meta_of meta e) = Inr b) \<and>
     (\<forall>rule \<in> set (list_enabled_alert_rules (se_source_kind e) db).
        (\<exists>b. event_matches_criteria ext (ru_criteria rule) e (meta_of meta e) = Inr b) \<and>
        (\<exists>r. render_rule ext rule e = Inr r) \<and>
        (tp_cooldown_secs (ru_trigger_policy rule) > 0 \<longrightarrow>
           (\<forall>x. ae_sub_seconds ext (ae_now ext x) (cooldown_seconds (tp_cooldown_secs (ru_trigger_policy rule))) \<noteq> Panic)))"

text \<open>The moments of a pass: what lies outside the tables changes with a query and with a load of metadata.\<close>

inductive later :: "('x, 'f, 'v, 'm) alert_env \<Rightarrow> ('x \<Rightarrow> 'x) \<Rightarrow> 'x \<Rightarrow> 'x \<Rightarrow> bool" for ext tick x where
  now: "later ext tick x x"
| query: "later ext tick x y \<Longrightarrow> later ext tick x (tick y)"
| load: "later ext tick x y \<Longrightarrow> later ext tick x (fst (ae_load_metadata ext e y))"

lemma later_trans: "later ext tick y z \<Longrightarrow> later ext tick x y \<Longrightarrow> later ext tick x z"
  by (induction rule: later.induct) (auto intro: later.intros)

text \<open>
  The decision on a rule.  In its cooldown an event of the rule for the same source was created not longer
  ago than the cooldown; \<open>names\<close> are the sources of the source events and \<open>evs\<close> the alert events so far.
\<close>

definition source_names :: "('f, 'v) alert_db \<Rightarrow> (i64 \<times> str) list" where
  "source_names db = map (\<lambda>q. (se_id q, se_source_id q)) (db_source_events db)"

definition cooling :: "('x, 'f, 'v, 'm) alert_env \<Rightarrow> system_time \<Rightarrow> (i64 \<times> str) list \<Rightarrow> 'v alert_event list \<Rightarrow>
    'v alert_source_event \<Rightarrow> 'f alert_rule \<Rightarrow> bool" where
  "cooling ext now names evs e rule \<longleftrightarrow>
     tp_cooldown_secs (ru_trigger_policy rule) > 0 \<and>
     (\<exists>ev \<in> set evs. ev_rule_id ev = ru_id rule \<and> (ev_source_event_id ev, se_source_id e) \<in> set names \<and>
        (\<exists>since \<le> ev_created_at ev.
           ae_sub_seconds ext now (cooldown_seconds (tp_cooldown_secs (ru_trigger_policy rule))) = Ret since))"

definition fires :: "('x, 'f, 'v, 'm) alert_env \<Rightarrow> ('v alert_source_event \<Rightarrow> 'm) \<Rightarrow> 'f alert_silence list \<Rightarrow> system_time \<Rightarrow>
    (i64 \<times> str) list \<Rightarrow> 'v alert_event list \<Rightarrow> 'v alert_source_event \<Rightarrow> 'f alert_rule \<Rightarrow> bool" where
  "fires ext meta silences now names evs e rule \<longleftrightarrow>
     criteria_hold ext meta e (ru_criteria rule) \<and> \<not> silenced ext meta e silences \<and> \<not> cooling ext now names evs e rule"

lemma pg_env_source [simp]:
  "ae_filter (pg_env ext tick db_now locked) = ae_filter ext" "ae_incident (pg_env ext tick db_now locked) = ae_incident ext"
  "ae_render (pg_env ext tick db_now locked) = ae_render ext"
  "ae_sub_seconds (pg_env ext tick db_now locked) = ae_sub_seconds ext"
  "ae_now (pg_env ext tick db_now locked) w = ae_now ext (pw_rest w)"
  "ae_load_metadata (pg_env ext tick db_now locked) event w =
     (case ae_load_metadata ext event (pw_rest w) of (x, r) \<Rightarrow> (w\<lparr>pw_rest := x\<rparr>, r))"
  "ae_enabled_rules (pg_env ext tick db_now locked) kind = pg_read tick (list_enabled_alert_rules kind)"
  "ae_active_silences (pg_env ext tick db_now locked) at = pg_read tick (list_active_alert_silences at)"
  "ae_recent_event (pg_env ext tick db_now locked) i source_id since = pg_read tick (rule_has_recent_alert_event i source_id since)"
  "ae_insert_event (pg_env ext tick db_now locked) rule j key title body payload w =
     (case pg_write tick db_now (\<lambda>now. insert_alert_event_with_attempts now rule j key title body payload) w of
        (w', Inr r) \<Rightarrow> (w', r) | (w', Inl e) \<Rightarrow> (w', Inl e))"
  "ae_mark_processed (pg_env ext tick db_now locked) i c =
     pg_write tick db_now (\<lambda>now. mark_alert_source_event_processed now i c)"
  "ae_claim_sources (pg_env ext tick db_now locked) limit lease w =
     pg_write tick db_now (\<lambda>now. claim_pending_alert_source_events locked now limit (ae_now ext (pw_rest w) - lease)) w"
  by (simp_all add: pg_env_def)

lemma criteria_pg: "event_matches_criteria (pg_env ext tick db_now locked) criteria e m = event_matches_criteria ext criteria e m"
  by (cases criteria; cases m) (simp_all add: event_matches_criteria_def)

lemma render_pg: "render_rule (pg_env ext tick db_now locked) rule e = render_rule ext rule e"
  by (simp add: render_rule_def Let_def split: sum.split)

lemma criteria_decided:
  "\<exists>b. event_matches_criteria ext criteria e (meta_of meta e) = Inr b \<Longrightarrow>
     event_matches_criteria ext criteria e (meta_of meta e) = Inr (criteria_hold ext meta e criteria)"
  by (auto simp: criteria_hold_def)

lemma matching_silence_total:
  assumes "\<forall>silence \<in> set silences. \<exists>b. event_matches_criteria ext (si_criteria silence) e (meta_of meta e) = Inr b"
  shows "\<exists>r. matching_silence (pg_env ext tick db_now locked) e (meta_of meta e) silences = Inr r \<and>
    (r \<noteq> None \<longleftrightarrow> silenced ext meta e silences)"
  using assms
proof (induction silences)
  case (Cons silence silences)
  have "event_matches_criteria ext (si_criteria silence) e (meta_of meta e) = Inr (criteria_hold ext meta e (si_criteria silence))"
    using Cons.prems by (intro criteria_decided) simp
  then show ?case
    using Cons by (cases "criteria_hold ext meta e (si_criteria silence)") (auto simp: criteria_pg silenced_def)
qed (simp add: silenced_def)

text \<open>The event \<open>ev\<close> was fired by \<open>rule\<close> for \<open>e\<close>, rightly.\<close>

definition fired_for :: "('x, 'f, 'v, 'm) alert_env \<Rightarrow> ('v alert_source_event \<Rightarrow> 'm) \<Rightarrow> 'v alert_source_event \<Rightarrow>
    'v alert_event \<times> 'f alert_rule \<Rightarrow> bool" where
  "fired_for ext meta e f \<longleftrightarrow>
     ev_delivery_key (fst f) = build_delivery_key (snd f) e \<and> ev_rule_id (fst f) = ru_id (snd f) \<and>
     ev_source_event_id (fst f) = se_id e \<and> criteria_hold ext meta e (ru_criteria (snd f))"

text \<open>The counters of source events that only the end of an event changes.\<close>

definition source_counts :: "alert_worker_stats \<Rightarrow> u64 \<times> u64 \<times> u64" where
  "source_counts st = (ws_source_events_claimed st, ws_source_events_processed st, ws_source_claim_lost st)"

lemma in_cooldown_pg:
  assumes "answers ext meta db e" "rule \<in> set (list_enabled_alert_rules (se_source_kind e) db)"
  shows "\<exists>w. in_cooldown (pg_env ext tick db_now locked) rule e s = Ret (s\<lparr>as_world := w\<rparr>,
      Inr (cooling ext (ae_now ext (pw_rest (as_world s))) (source_names (pw_db (as_world s))) (db_events (pw_db (as_world s))) e rule)) \<and>
    pw_db w = pw_db (as_world s) \<and> later ext tick (pw_rest (as_world s)) (pw_rest w)"
proof (cases "tp_cooldown_secs (ru_trigger_policy rule) = 0")
  case True
  then show ?thesis by (intro exI [of _ "as_world s"]) (simp add: in_cooldown_def areturn_def cooling_def later.now)
next
  case False
  let ?n = "cooldown_seconds (tp_cooldown_secs (ru_trigger_policy rule))"
  obtain since where since: "ae_sub_seconds ext (ae_now ext (pw_rest (as_world s))) ?n = Ret since"
    using assms False unfolding answers_def by (metis rust.exhaust word_gt_0)
  have "rule_has_recent_alert_event (ru_id rule) (se_source_id e) since (pw_db (as_world s)) \<longleftrightarrow>
      cooling ext (ae_now ext (pw_rest (as_world s))) (source_names (pw_db (as_world s))) (db_events (pw_db (as_world s))) e rule"
    using False since
    by (auto simp: rule_has_recent_alert_event_def cooling_def source_names_def list_ex_iff word_gt_0 image_iff) metis+
  with False since show ?thesis
    by (intro exI [of _ "(as_world s)\<lparr>pw_rest := tick (pw_rest (as_world s))\<rparr>"])
      (simp add: in_cooldown_def abind_def the_clock_def of_rust_def sink_call_def pg_read_def word_gt_0 later.intros)
qed

text \<open>
  Between the moments \<open>x\<close> and \<open>x'\<close>, with the tables \<open>db\<close> and \<open>db'\<close>, the rule was decided at one moment on the
  events there were then: if it fires then its key is in the table, and it has fired only if it fires.
\<close>

definition rule_decided :: "('x, 'f, 'v, 'm) alert_env \<Rightarrow> ('x \<Rightarrow> 'x) \<Rightarrow> ('v alert_source_event \<Rightarrow> 'm) \<Rightarrow> 'f alert_silence list \<Rightarrow>
    'x \<Rightarrow> ('f, 'v) alert_db \<Rightarrow> 'x \<Rightarrow> ('f, 'v) alert_db \<Rightarrow> ('v alert_event \<times> 'f alert_rule) list \<Rightarrow> 'v alert_source_event \<Rightarrow>
    'f alert_rule \<Rightarrow> bool" where
  "rule_decided ext tick meta silences x db x' db' fs e rule \<longleftrightarrow>
     (\<exists>y evs. later ext tick x y \<and> later ext tick y x' \<and> prefix (db_events db) evs \<and> prefix evs (db_events db') \<and>
        (fires ext meta silences (ae_now ext y) (source_names db) evs e rule \<longrightarrow>
           build_delivery_key rule e \<in> set (event_keys db')) \<and>
        ((\<exists>f \<in> set fs. snd f = rule \<and> fired_for ext meta e f) \<longrightarrow>
           fires ext meta silences (ae_now ext y) (source_names db) evs e rule))"

lemma prefix_keys: "prefix (db_events db) (db_events db') \<Longrightarrow> set (event_keys db) \<subseteq> set (event_keys db')"
  by (auto simp: event_keys_def prefix_def)

lemma rule_decided_widen:
  assumes "rule_decided ext tick meta silences x db x' db' fs e rule" "later ext tick a x" "later ext tick x' b"
    "prefix (db_events da) (db_events db)" "prefix (db_events db') (db_events d')" "source_names da = source_names db"
    "\<And>f. f \<in> set gs \<Longrightarrow> snd f = rule \<Longrightarrow> fired_for ext meta e f \<Longrightarrow> f \<in> set fs"
  shows "rule_decided ext tick meta silences a da b d' gs e rule"
proof -
  obtain y evs where y: "later ext tick x y" "later ext tick y x'" "prefix (db_events db) evs" "prefix evs (db_events db')"
    "fires ext meta silences (ae_now ext y) (source_names db) evs e rule \<longrightarrow> build_delivery_key rule e \<in> set (event_keys db')"
    "(\<exists>f \<in> set fs. snd f = rule \<and> fired_for ext meta e f) \<longrightarrow>
       fires ext meta silences (ae_now ext y) (source_names db) evs e rule"
    using assms(1) unfolding rule_decided_def by blast
  have "later ext tick a y" "later ext tick y b" "prefix (db_events da) evs" "prefix evs (db_events d')"
    using y(1-4) assms(2-5) by (blast intro: later_trans prefix_order.trans)+
  then show ?thesis
    unfolding rule_decided_def assms(6) using y(5,6) assms(7) prefix_keys [OF assms(5)] by blast
qed

lemma process_rule_pg:
  assumes ans: "answers ext meta db e" and same: "same_config db (pw_db (as_world s))"
    and rule: "rule \<in> set (list_enabled_alert_rules (se_source_kind e) db)"
    and silences: "set silences \<subseteq> set (db_silences db)" and targets: "targets_exist (pw_db (as_world s))"
    and source: "list_ex (\<lambda>r. se_id r = se_id e) (db_source_events (pw_db (as_world s)))"
  shows "\<exists>s' fs. process_rule (pg_env ext tick db_now locked) e (meta_of meta e) silences rule s = Ret (s', Inr ()) \<and>
    later ext tick (pw_rest (as_world s)) (pw_rest (as_world s')) \<and>
    fired fs (pw_db (as_world s)) (pw_db (as_world s')) \<and>
    db_source_events (pw_db (as_world s')) = db_source_events (pw_db (as_world s)) \<and>
    (\<forall>f \<in> set fs. snd f = rule \<and> fired_for ext meta e f) \<and>
    rule_decided ext tick meta silences (pw_rest (as_world s)) (pw_db (as_world s)) (pw_rest (as_world s'))
      (pw_db (as_world s')) fs e rule \<and>
    source_counts (as_stats s') = source_counts (as_stats s)"
proof -
  let ?env = "pg_env ext tick db_now locked"
  let ?db = "pw_db (as_world s)"
  let ?x = "pw_rest (as_world s)"
  let ?cool = "cooling ext (ae_now ext ?x) (source_names ?db) (db_events ?db) e rule"
  have crit: "event_matches_criteria ext (ru_criteria rule) e (meta_of meta e) = Inr (criteria_hold ext meta e (ru_criteria rule))"
    using ans rule by (intro criteria_decided) (simp add: answers_def)
  obtain silence where sil: "matching_silence ?env e (meta_of meta e) silences = Inr silence"
    "silence \<noteq> None \<longleftrightarrow> silenced ext meta e silences"
    using matching_silence_total [of silences ext e meta tick db_now locked] ans silences unfolding answers_def by blast
  obtain w where cool: "in_cooldown ?env rule e s = Ret (s\<lparr>as_world := w\<rparr>, Inr ?cool)" "pw_db w = ?db" "later ext tick ?x (pw_rest w)"
    using in_cooldown_pg [OF ans rule, of tick db_now locked s] by blast
  have none: "fired [] ?db ?db" by (simp add: fired_refl same_config_def)
  note defs = process_rule_def abind_def of_result_def criteria_pg crit areturn_def count_stats_def
  show ?thesis
  proof (cases "fires ext meta silences (ae_now ext ?x) (source_names ?db) (db_events ?db) e rule")
    case False
    have decided: "rule_decided ext tick meta silences ?x ?db x' ?db [] e rule" if "later ext tick ?x x'" for x'
      unfolding rule_decided_def using False that by (intro exI [of _ ?x] exI [of _ "db_events ?db"]) (simp add: later.now)
    show ?thesis
      using False none sil cool decided [OF later.now] decided [OF cool(3)]
      by (auto simp: defs fires_def source_counts_def later.now intro!: exI [of _ "[]"])
  next
    case True
    obtain title body where render: "render_rule ?env rule e = Inr (title, body)"
      using ans rule unfolding answers_def render_pg by (metis surj_pair)
    have "rule \<in> set (list_enabled_alert_rules (se_source_kind e) ?db)" using rule same_config_reads(1) [OF same] by simp
    then obtain row where row: "row \<in> set (db_rules ?db)" "rule = map_alert_rule_row ?db row"
      by (auto simp: list_enabled_alert_rules_def)
    have "\<forall>t \<in> set (ru_targets rule). \<exists>p \<in> set (db_contact_points ?db). cp_id p = rt_contact_point_id t"
      using targets row(2) by (force simp: targets_exist_def map_alert_rule_row_def)
    moreover have "list_ex (\<lambda>r. rr_id r = ru_id rule) (db_rules ?db)"
      using row by (auto simp: list_ex_iff map_alert_rule_row_def)
    ultimately obtain db' r fs where
      ins: "insert_alert_event_with_attempts (db_now (pw_rest w)) rule (se_id e) (build_delivery_key rule e) title body
        (se_payload e) ?db = (db', Inr r)" and
      fs: "fired fs ?db db'" "db_source_events db' = db_source_events ?db" "build_delivery_key rule e \<in> set (event_keys db')"
      "\<forall>(ev, q) \<in> set fs. q = rule \<and> ev_delivery_key ev = build_delivery_key rule e \<and> ev_rule_id ev = ru_id rule \<and>
         ev_source_event_id ev = se_id e"
      using insert_event_fired [OF _ source] by blast
    have "\<forall>f \<in> set fs. snd f = rule \<and> fired_for ext meta e f"
      using fs(4) True by (auto simp: fired_for_def fires_def)
    moreover have lt: "later ext tick ?x (tick (pw_rest w))" using cool(3) by (rule later.query)
    moreover have "rule_decided ext tick meta silences ?x ?db (tick (pw_rest w)) db' fs e rule"
      unfolding rule_decided_def
      using True fs(1,3) lt by (intro exI [of _ ?x] exI [of _ "db_events ?db"]) (simp add: later.now fired_def)
    ultimately show ?thesis
      using True sil cool render ins fs
      by (cases r) (auto simp: defs fires_def sink_call_def pg_write_def source_counts_def intro!: exI [of _ fs])
  qed
qed

lemma targets_exist_config: "same_config db db' \<Longrightarrow> targets_exist db' = targets_exist db"
  by (simp add: same_config_def targets_exist_def)

lemma fired_prefix: "fired fs db db' \<Longrightarrow> prefix (db_events db) (db_events db')"
  by (simp add: fired_def)

lemma decided_Cons:
  assumes one: "rule_decided ext tick meta silences x db x1 db1 fs e rule" and fs: "\<forall>f \<in> set fs. snd f = rule"
    and rest: "\<forall>q \<in> set rules. rule_decided ext tick meta silences x1 db1 x2 db2 gs e q" and gs: "\<forall>f \<in> set gs. snd f \<in> set rules"
    and t: "later ext tick x x1" "later ext tick x1 x2" "prefix (db_events db) (db_events db1)" "prefix (db_events db1) (db_events db2)"
      "source_names db1 = source_names db"
  shows "\<forall>q \<in> set (rule # rules). rule_decided ext tick meta silences x db x2 db2 (fs @ gs) e q"
proof
  fix q assume q: "q \<in> set (rule # rules)"
  have tail: "rule_decided ext tick meta silences x db x2 db2 (fs @ gs) e q"
    if "q \<in> set rules" "\<And>f. f \<in> set fs \<Longrightarrow> snd f = q \<Longrightarrow> \<not> fired_for ext meta e f"
    by (rule rule_decided_widen [OF bspec [OF rest that(1)] t(1) later.now t(3) prefix_order.refl])
      (use that(2) t(5) in auto)
  show "rule_decided ext tick meta silences x db x2 db2 (fs @ gs) e q"
  proof (cases "q = rule")
    case False
    then show ?thesis using q fs by (intro tail) auto
  next
    case True
    show ?thesis
    proof (cases "(\<exists>f \<in> set fs. fired_for ext meta e f) \<or> rule \<notin> set rules")
      case False
      then show ?thesis using True by (intro tail) auto
    next
      case fired: True
      obtain y evs where y: "later ext tick x y" "later ext tick y x1" "prefix (db_events db) evs" "prefix evs (db_events db1)"
        "fires ext meta silences (ae_now ext y) (source_names db) evs e rule \<longrightarrow> build_delivery_key rule e \<in> set (event_keys db1)"
        "(\<exists>f \<in> set fs. snd f = rule \<and> fired_for ext meta e f) \<longrightarrow>
           fires ext meta silences (ae_now ext y) (source_names db) evs e rule"
        using one unfolding rule_decided_def by blast
      have "later ext tick y x2" "prefix evs (db_events db2)"
        using y(2,4) t(2,4) by (blast intro: later_trans prefix_order.trans)+
      moreover have "(\<exists>f \<in> set (fs @ gs). snd f = rule \<and> fired_for ext meta e f) \<longrightarrow>
          fires ext meta silences (ae_now ext y) (source_names db) evs e rule"
        using y(6) fired fs gs by auto
      ultimately show ?thesis
        unfolding rule_decided_def True using y(1,3,5) prefix_keys [OF t(4)] by blast
    qed
  qed
qed

lemma process_rules_pg:
  assumes ans: "answers ext meta db e" and silences: "set silences \<subseteq> set (db_silences db)"
  shows "same_config db (pw_db (as_world s)) \<Longrightarrow> set rules \<subseteq> set (list_enabled_alert_rules (se_source_kind e) db) \<Longrightarrow>
    targets_exist (pw_db (as_world s)) \<Longrightarrow>
    list_ex (\<lambda>r. se_id r = se_id e) (db_source_events (pw_db (as_world s))) \<Longrightarrow>
    \<exists>s' fs. process_rules (pg_env ext tick db_now locked) e (meta_of meta e) silences rules s = Ret (s', Inr ()) \<and>
    later ext tick (pw_rest (as_world s)) (pw_rest (as_world s')) \<and>
    fired fs (pw_db (as_world s)) (pw_db (as_world s')) \<and>
    db_source_events (pw_db (as_world s')) = db_source_events (pw_db (as_world s)) \<and>
    (\<forall>f \<in> set fs. snd f \<in> set rules \<and> fired_for ext meta e f) \<and>
    (\<forall>rule \<in> set rules. rule_decided ext tick meta silences (pw_rest (as_world s)) (pw_db (as_world s))
       (pw_rest (as_world s')) (pw_db (as_world s')) fs e rule) \<and>
    source_counts (as_stats s') = source_counts (as_stats s)"
proof (induction rules arbitrary: s)
  case Nil
  then show ?case by (auto simp: areturn_def fired_refl same_config_def later.now intro!: exI [of _ "[]"])
next
  case (Cons rule rules)
  let ?env = "pg_env ext tick db_now locked"
  have rule: "rule \<in> set (list_enabled_alert_rules (se_source_kind e) db)" using Cons.prems(2) by simp
  obtain s1 fs where s1: "process_rule ?env e (meta_of meta e) silences rule s = Ret (s1, Inr ())"
    "later ext tick (pw_rest (as_world s)) (pw_rest (as_world s1))"
    "fired fs (pw_db (as_world s)) (pw_db (as_world s1))"
    "db_source_events (pw_db (as_world s1)) = db_source_events (pw_db (as_world s))"
    "\<forall>f \<in> set fs. snd f = rule \<and> fired_for ext meta e f"
    "rule_decided ext tick meta silences (pw_rest (as_world s)) (pw_db (as_world s)) (pw_rest (as_world s1))
       (pw_db (as_world s1)) fs e rule"
    "source_counts (as_stats s1) = source_counts (as_stats s)"
    using process_rule_pg [OF ans Cons.prems(1) rule silences Cons.prems(3,4), of tick db_now locked] by blast
  note same = fired_config [OF s1(3)]
  have "same_config db (pw_db (as_world s1))" using Cons.prems(1) same by (simp add: same_config_def)
  moreover have "targets_exist (pw_db (as_world s1))" using Cons.prems(3) targets_exist_config [OF same] by simp
  moreover have "list_ex (\<lambda>r. se_id r = se_id e) (db_source_events (pw_db (as_world s1)))" using Cons.prems(4) s1(4) by simp
  moreover have "set rules \<subseteq> set (list_enabled_alert_rules (se_source_kind e) db)" using Cons.prems(2) by simp
  ultimately obtain s2 gs where s2: "process_rules ?env e (meta_of meta e) silences rules s1 = Ret (s2, Inr ())"
    "later ext tick (pw_rest (as_world s1)) (pw_rest (as_world s2))"
    "fired gs (pw_db (as_world s1)) (pw_db (as_world s2))"
    "db_source_events (pw_db (as_world s2)) = db_source_events (pw_db (as_world s1))"
    "\<forall>f \<in> set gs. snd f \<in> set rules \<and> fired_for ext meta e f"
    "\<forall>rule \<in> set rules. rule_decided ext tick meta silences (pw_rest (as_world s1)) (pw_db (as_world s1))
       (pw_rest (as_world s2)) (pw_db (as_world s2)) gs e rule"
    "source_counts (as_stats s2) = source_counts (as_stats s1)"
    using Cons.IH [of s1] by blast
  have "process_rules ?env e (meta_of meta e) silences (rule # rules) s = Ret (s2, Inr ())"
    using s1(1) s2(1) by (simp add: abind_def)
  moreover have "\<forall>f \<in> set (fs @ gs). snd f \<in> set (rule # rules) \<and> fired_for ext meta e f"
    using s1(5) s2(5) by auto
  moreover have "source_names (pw_db (as_world s1)) = source_names (pw_db (as_world s))" using s1(4) by (simp add: source_names_def)
  then have "\<forall>q \<in> set (rule # rules). rule_decided ext tick meta silences (pw_rest (as_world s)) (pw_db (as_world s))
      (pw_rest (as_world s2)) (pw_db (as_world s2)) (fs @ gs) e q"
    using s1(5) s2(5)
    by (intro decided_Cons [OF s1(6) _ s2(6) _ s1(2) s2(2) fired_prefix [OF s1(3)] fired_prefix [OF s2(3)]]) auto
  ultimately show ?case
    using fired_trans [OF s1(3) s2(3)] later_trans [OF s2(2) s1(2)] s1(4,7) s2(4,7) by (metis (no_types, lifting))
qed

section \<open>The batch\<close>

lemma finish_source_pg:
  assumes "e \<in> set (db_source_events (pw_db (as_world s)))" "distinct (map se_id (db_source_events (pw_db (as_world s))))"
    "se_claimed_at e = Some c"
  shows "\<exists>s' t. finish_source_event (pg_env ext tick db_now locked) e s = Ret (s', Inr ()) \<and>
    later ext tick (pw_rest (as_world s)) (pw_rest (as_world s')) \<and>
    pw_db (as_world s') = (pw_db (as_world s))\<lparr>db_source_events :=
      map (\<lambda>r. if r = e then r\<lparr>se_processed_at := Some t\<rparr> else r) (db_source_events (pw_db (as_world s)))\<rparr> \<and>
    source_counts (as_stats s') =
      (ws_source_events_claimed (as_stats s), ws_source_events_processed (as_stats s) + 1, ws_source_claim_lost (as_stats s))"
proof -
  let ?db = "pw_db (as_world s)"
  let ?now = "db_now (pw_rest (as_world s))"
  have "(if se_id r = se_id e \<and> se_claimed_at r = Some c then r\<lparr>se_processed_at := Some ?now\<rparr> else r) =
      (if r = e then r\<lparr>se_processed_at := Some ?now\<rparr> else r)" if "r \<in> set (db_source_events ?db)" for r
    using that assms by (auto simp: distinct_map inj_on_def)
  then have "map (\<lambda>r. if se_id r = se_id e \<and> se_claimed_at r = Some c then r\<lparr>se_processed_at := Some ?now\<rparr> else r)
      (db_source_events ?db) = map (\<lambda>r. if r = e then r\<lparr>se_processed_at := Some ?now\<rparr> else r) (db_source_events ?db)"
    by (rule map_cong [OF refl])
  moreover have "list_ex (\<lambda>r. se_id r = se_id e \<and> se_claimed_at r = Some c) (db_source_events ?db)"
    using assms by (auto simp: list_ex_iff)
  ultimately show ?thesis
    using assms(3) by (auto simp: finish_source_event_def abind_def sink_call_def pg_write_def
        mark_alert_source_event_processed_def count_stats_def source_counts_def intro!: exI [of _ ?now] intro: later.intros)
qed

lemma event_metadata_pg:
  assumes "answers ext meta db e"
  shows "\<exists>w. event_metadata (pg_env ext tick db_now locked) e s = Ret (s\<lparr>as_world := w\<rparr>, Inr (meta_of meta e)) \<and>
    pw_db w = pw_db (as_world s) \<and> later ext tick (pw_rest (as_world s)) (pw_rest w)"
proof (cases "se_source_kind e")
  case ProductAvailable
  then obtain x where x: "ae_load_metadata ext e (pw_rest (as_world s)) = (x, Inr (meta e))"
    using assms unfolding answers_def by blast
  have "later ext tick (pw_rest (as_world s)) x" using later.load [OF later.now, of ext tick "pw_rest (as_world s)" e] x by simp
  with x ProductAvailable show ?thesis
    by (auto simp: event_metadata_def meta_of_def abind_def sink_call_def areturn_def)
next
  case IncidentChange
  then show ?thesis
    by (auto simp: event_metadata_def meta_of_def areturn_def later.now intro: exI [of _ "as_world s"])
qed

lemma cached_rules_pg:
  assumes "cache \<in> {None, Some (list_enabled_alert_rules kind (pw_db (as_world s)))}"
  shows "\<exists>w. cached_rules (pg_env ext tick db_now locked) kind cache s =
      Ret (s\<lparr>as_world := w\<rparr>, Inr (list_enabled_alert_rules kind (pw_db (as_world s)))) \<and> pw_db w = pw_db (as_world s) \<and>
    later ext tick (pw_rest (as_world s)) (pw_rest w)"
  using assms by (auto simp: cached_rules_def areturn_def sink_call_def pg_read_def later.intros intro: exI [of _ "as_world s"])

text \<open>The start of an event: metadata, rules and silences are at hand, the database is as before.\<close>

lemma event_start_pg:
  assumes "answers ext meta db e"
    "cache \<in> {None, Some (list_enabled_alert_rules (se_source_kind e) (pw_db (as_world s)))}"
  shows "\<exists>w z. pw_db w = pw_db (as_world s) \<and> later ext tick (pw_rest (as_world s)) z \<and> later ext tick z (pw_rest w) \<and>
    abind (event_metadata (pg_env ext tick db_now locked) e) (\<lambda>metadata.
    abind (cached_rules (pg_env ext tick db_now locked) (se_source_kind e) cache) (\<lambda>rules.
    abind (the_clock (pg_env ext tick db_now locked)) (\<lambda>now.
    abind (sink_call (ae_active_silences (pg_env ext tick db_now locked) now)) (\<lambda>silences. k metadata rules silences)))) s =
    k (meta_of meta e) (list_enabled_alert_rules (se_source_kind e) (pw_db (as_world s)))
      (list_active_alert_silences (ae_now ext z) (pw_db (as_world s))) (s\<lparr>as_world := w\<rparr>)"
proof -
  obtain w1 where w1: "event_metadata (pg_env ext tick db_now locked) e s = Ret (s\<lparr>as_world := w1\<rparr>, Inr (meta_of meta e))"
    "pw_db w1 = pw_db (as_world s)" "later ext tick (pw_rest (as_world s)) (pw_rest w1)"
    using event_metadata_pg [OF assms(1)] by blast
  obtain w2 where w2: "cached_rules (pg_env ext tick db_now locked) (se_source_kind e) cache (s\<lparr>as_world := w1\<rparr>) =
      Ret (s\<lparr>as_world := w2\<rparr>, Inr (list_enabled_alert_rules (se_source_kind e) (pw_db (as_world s))))"
    "pw_db w2 = pw_db (as_world s)" "later ext tick (pw_rest w1) (pw_rest w2)"
    using cached_rules_pg [of cache "se_source_kind e" "s\<lparr>as_world := w1\<rparr>" ext tick db_now locked] assms(2) w1(2) by auto
  show ?thesis
    using later_trans [OF w2(3) w1(3)] later.query [OF later.now, of ext tick "pw_rest w2"]
    by (intro exI [of _ "w2\<lparr>pw_rest := tick (pw_rest w2)\<rparr>"] exI [of _ "pw_rest w2"])
      (simp add: abind_def w1(1,2) w2(1,2) the_clock_def sink_call_def pg_read_def)
qed

text \<open>The silences of an event are those active at one moment, before its rules are decided.\<close>

definition event_decided :: "('x, 'f, 'v, 'm) alert_env \<Rightarrow> ('x \<Rightarrow> 'x) \<Rightarrow> ('v alert_source_event \<Rightarrow> 'm) \<Rightarrow> 'x \<Rightarrow> ('f, 'v) alert_db \<Rightarrow>
    'x \<Rightarrow> ('f, 'v) alert_db \<Rightarrow> ('v alert_event \<times> 'f alert_rule) list \<Rightarrow> 'v alert_source_event \<Rightarrow> bool" where
  "event_decided ext tick meta x db x' db' fs e \<longleftrightarrow>
     (\<exists>z. later ext tick x z \<and>
        (\<forall>rule \<in> set (list_enabled_alert_rules (se_source_kind e) db).
           rule_decided ext tick meta (list_active_alert_silences (ae_now ext z) db) z db x' db' fs e rule))"

lemma event_decided_widen:
  assumes "event_decided ext tick meta x db x' db' fs e" "later ext tick a x" "later ext tick x' b"
    "prefix (db_events da) (db_events db)" "prefix (db_events db') (db_events d')" "source_names da = source_names db"
    "same_config da db" "\<And>f. f \<in> set gs \<Longrightarrow> fired_for ext meta e f \<Longrightarrow> f \<in> set fs"
  shows "event_decided ext tick meta a da b d' gs e"
proof -
  obtain z where z: "later ext tick x z" "\<forall>rule \<in> set (list_enabled_alert_rules (se_source_kind e) db).
      rule_decided ext tick meta (list_active_alert_silences (ae_now ext z) db) z db x' db' fs e rule"
    using assms(1) unfolding event_decided_def by blast
  have "rule_decided ext tick meta (list_active_alert_silences (ae_now ext z) da) z da b d' gs e rule"
    if "rule \<in> set (list_enabled_alert_rules (se_source_kind e) da)" for rule
    using rule_decided_widen [OF bspec [OF z(2)] later.now assms(3-6), of rule gs] that assms(8) same_config_reads [OF assms(7)]
    by metis
  then show ?thesis unfolding event_decided_def using later_trans [OF z(1) assms(2)] by blast
qed

definition pass_events :: "('x, 'f, 'v, 'm) alert_env \<Rightarrow> ('x \<Rightarrow> 'x) \<Rightarrow> ('v alert_source_event \<Rightarrow> 'm) \<Rightarrow> 'v alert_source_event list \<Rightarrow>
    'x \<Rightarrow> ('f, 'v) alert_db \<Rightarrow> 'x \<Rightarrow> ('f, 'v) alert_db \<Rightarrow> bool" where
  "pass_events ext tick meta es x db x' db' \<longleftrightarrow>
     later ext tick x x' \<and>
     (\<exists>fs. fired fs db db' \<and>
        (\<forall>f \<in> set fs. \<exists>e \<in> set es. snd f \<in> set (list_enabled_alert_rules (se_source_kind e) db) \<and> fired_for ext meta e f) \<and>
        (\<forall>e \<in> set es. event_decided ext tick meta x db x' db' fs e)) \<and>
     list_all2 (\<lambda>r r'. if r \<in> set es then \<exists>t. r' = r\<lparr>se_processed_at := Some t\<rparr> else r' = r)
       (db_source_events db) (db_source_events db')"

lemma pass_events_config: "pass_events ext tick meta es x db x' db' \<Longrightarrow> same_config db db'"
  by (auto simp: pass_events_def fired_config)

lemma pass_events_names:
  assumes "pass_events ext tick meta es x db x' db'"
  shows "source_names db' = source_names db" "map se_id (db_source_events db') = map se_id (db_source_events db)"
proof -
  have "list_all2 (\<lambda>r r'. se_id r' = se_id r \<and> se_source_id r' = se_source_id r) (db_source_events db) (db_source_events db')"
    by (rule list_all2_mono [of "\<lambda>r r'. if r \<in> set es then \<exists>t. r' = r\<lparr>se_processed_at := Some t\<rparr> else r' = r"])
      (use assms in \<open>auto simp: pass_events_def split: if_splits\<close>)
  then show "source_names db' = source_names db" "map se_id (db_source_events db') = map se_id (db_source_events db)"
    unfolding source_names_def by (induction rule: list_all2_induct) simp_all
qed

lemma pass_events_keeps:
  assumes "pass_events ext tick meta [e] x db x' db'" "q \<in> set (db_source_events db)" "q \<noteq> e"
  shows "q \<in> set (db_source_events db')"
proof -
  have "list_all2 (\<lambda>r r'. if r \<in> set [e] then \<exists>t. r' = r\<lparr>se_processed_at := Some t\<rparr> else r' = r)
      (db_source_events db) (db_source_events db')" using assms(1) by (simp add: pass_events_def)
  then show ?thesis using assms(2,3) by (induction rule: list_all2_induct) auto
qed

lemma marks_Cons:
  assumes "list_all2 (\<lambda>r r'. if r \<in> set [e] then \<exists>t. r' = r\<lparr>se_processed_at := Some t\<rparr> else r' = r) rs rs1"
    "list_all2 (\<lambda>r r'. if r \<in> set es then \<exists>t. r' = r\<lparr>se_processed_at := Some t\<rparr> else r' = r) rs1 rs2"
    "se_id e \<notin> se_id ` set es"
  shows "list_all2 (\<lambda>r r'. if r \<in> set (e # es) then \<exists>t. r' = r\<lparr>se_processed_at := Some t\<rparr> else r' = r) rs rs2"
proof (rule list_all2_trans [OF _ assms(1,2)])
  fix r r1 r2
  assume a: "if r \<in> set [e] then \<exists>t. r1 = r\<lparr>se_processed_at := Some t\<rparr> else r1 = r"
    and b: "if r1 \<in> set es then \<exists>t. r2 = r1\<lparr>se_processed_at := Some t\<rparr> else r2 = r1"
  show "if r \<in> set (e # es) then \<exists>t. r2 = r\<lparr>se_processed_at := Some t\<rparr> else r2 = r"
  proof (cases "r = e")
    case True
    then have "se_id r1 = se_id e" using a by auto
    then have "r1 \<notin> set es" using assms(3) by (metis image_eqI)
    then show ?thesis using a b True by auto
  next
    case False
    then have "r1 = r" using a by simp
    then show ?thesis using b False by (auto split: if_splits)
  qed
qed

lemma pass_events_Cons:
  assumes one: "pass_events ext tick meta [e] x db x1 db1" and rest: "pass_events ext tick meta es x1 db1 x2 db2"
    and ids: "se_id e \<notin> se_id ` set es"
  shows "pass_events ext tick meta (e # es) x db x2 db2"
proof -
  obtain fs where fs: "fired fs db db1"
    "\<forall>f \<in> set fs. snd f \<in> set (list_enabled_alert_rules (se_source_kind e) db) \<and> fired_for ext meta e f"
    "event_decided ext tick meta x db x1 db1 fs e"
    using one by (auto simp: pass_events_def)
  obtain gs where gs: "fired gs db1 db2"
    "\<forall>f \<in> set gs. \<exists>q \<in> set es. snd f \<in> set (list_enabled_alert_rules (se_source_kind q) db1) \<and> fired_for ext meta q f"
    "\<forall>q \<in> set es. event_decided ext tick meta x1 db1 x2 db2 gs q"
    using rest by (auto simp: pass_events_def)
  note same = fired_config [OF fs(1)] and names = pass_events_names(1) [OF one]
  have t: "later ext tick x x1" "later ext tick x1 x2" using one rest by (simp_all add: pass_events_def)
  note p = fired_prefix [OF fs(1)] fired_prefix [OF gs(1)]
  have other: "\<not> fired_for ext meta e f" if "f \<in> set gs" for f
    using gs(2) that ids unfolding fired_for_def image_iff by metis
  have head: "event_decided ext tick meta x db x2 db2 (fs @ gs) e"
    by (rule event_decided_widen [OF fs(3) later.now t(2) prefix_order.refl p(2) refl])
      (use other in \<open>auto simp: same_config_def\<close>)
  have tail: "event_decided ext tick meta x db x2 db2 (fs @ gs) q" if q: "q \<in> set es" for q
  proof (rule event_decided_widen [OF bspec [OF gs(3) q] t(1) later.now p(1) prefix_order.refl names [symmetric] same])
    fix f assume "f \<in> set (fs @ gs)" "fired_for ext meta q f"
    then show "f \<in> set gs" using fs(2) ids q by (auto simp: fired_for_def image_iff)
  qed
  have "list_all2 (\<lambda>r r'. if r \<in> set (e # es) then \<exists>t. r' = r\<lparr>se_processed_at := Some t\<rparr> else r' = r)
      (db_source_events db) (db_source_events db2)"
    by (rule marks_Cons [of e "db_source_events db" "db_source_events db1" es, OF _ _ ids]) (use one rest in \<open>simp_all only: pass_events_def\<close>)
  moreover have "\<forall>f \<in> set (fs @ gs). \<exists>q \<in> set (e # es). snd f \<in> set (list_enabled_alert_rules (se_source_kind q) db) \<and>
      fired_for ext meta q f"
    using fs(2) gs(2) by (auto simp: same_config_reads [OF same])
  ultimately show ?thesis
    using fired_trans [OF fs(1) gs(1)] later_trans [OF t(2,1)] head tail
    unfolding pass_events_def by (intro conjI exI [of _ "fs @ gs"]) auto
qed

lemma answers_config: "same_config db db' \<Longrightarrow> answers ext meta db' e = answers ext meta db e"
  by (simp add: answers_def same_config_reads(1)) (simp add: same_config_def)

lemma process_event_pg:
  assumes ans: "answers ext meta (pw_db (as_world s)) e"
    and cache: "cache \<in> {None, Some (list_enabled_alert_rules (se_source_kind e) (pw_db (as_world s)))}"
    and targets: "targets_exist (pw_db (as_world s))"
    and e: "e \<in> set (db_source_events (pw_db (as_world s)))" "se_claimed_at e \<noteq> None"
    and ids: "distinct (map se_id (db_source_events (pw_db (as_world s))))"
  shows "\<exists>s'. abind (event_metadata (pg_env ext tick db_now locked) e) (\<lambda>metadata.
      abind (cached_rules (pg_env ext tick db_now locked) (se_source_kind e) cache) (\<lambda>rules.
      abind (the_clock (pg_env ext tick db_now locked)) (\<lambda>now.
      abind (sink_call (ae_active_silences (pg_env ext tick db_now locked) now)) (\<lambda>silences.
      abind (process_rules (pg_env ext tick db_now locked) e metadata silences rules) (\<lambda>_.
      abind (finish_source_event (pg_env ext tick db_now locked) e) (\<lambda>_. k rules)))))) s =
    k (list_enabled_alert_rules (se_source_kind e) (pw_db (as_world s))) s' \<and>
    pass_events ext tick meta [e] (pw_rest (as_world s)) (pw_db (as_world s)) (pw_rest (as_world s')) (pw_db (as_world s')) \<and>
    source_counts (as_stats s') = (ws_source_events_claimed (as_stats s), ws_source_events_processed (as_stats s) + 1,
      ws_source_claim_lost (as_stats s))"
proof -
  let ?env = "pg_env ext tick db_now locked"
  let ?db = "pw_db (as_world s)"
  let ?x = "pw_rest (as_world s)"
  let ?rules = "list_enabled_alert_rules (se_source_kind e) ?db"
  obtain w z where w: "pw_db w = ?db" and z: "later ext tick ?x z" "later ext tick z (pw_rest w)" and
    start: "abind (event_metadata ?env e) (\<lambda>metadata.
      abind (cached_rules ?env (se_source_kind e) cache) (\<lambda>rules. abind (the_clock ?env) (\<lambda>now.
      abind (sink_call (ae_active_silences ?env now)) (\<lambda>silences.
      abind (process_rules ?env e metadata silences rules) (\<lambda>_. abind (finish_source_event ?env e) (\<lambda>_. k rules)))))) s =
    abind (process_rules ?env e (meta_of meta e) (list_active_alert_silences (ae_now ext z) ?db) ?rules)
      (\<lambda>_. abind (finish_source_event ?env e) (\<lambda>_. k ?rules)) (s\<lparr>as_world := w\<rparr>)"
    using event_start_pg [OF ans cache, of tick db_now locked "\<lambda>metadata rules silences.
      abind (process_rules ?env e metadata silences rules) (\<lambda>_. abind (finish_source_event ?env e) (\<lambda>_. k rules))"] by blast
  let ?sils = "list_active_alert_silences (ae_now ext z) ?db"
  have sils: "set ?sils \<subseteq> set (db_silences ?db)" by (auto simp: list_active_alert_silences_def)
  have "list_ex (\<lambda>r. se_id r = se_id e) (db_source_events ?db)" using e by (auto simp: list_ex_iff)
  then obtain s1 fs where s1: "process_rules ?env e (meta_of meta e) ?sils ?rules (s\<lparr>as_world := w\<rparr>) = Ret (s1, Inr ())"
    "later ext tick (pw_rest w) (pw_rest (as_world s1))"
    "fired fs ?db (pw_db (as_world s1))" "db_source_events (pw_db (as_world s1)) = db_source_events ?db"
    "\<forall>f \<in> set fs. snd f \<in> set ?rules \<and> fired_for ext meta e f"
    "\<forall>rule \<in> set ?rules. rule_decided ext tick meta ?sils (pw_rest w) ?db (pw_rest (as_world s1)) (pw_db (as_world s1)) fs e rule"
    "source_counts (as_stats s1) = source_counts (as_stats s)"
    using process_rules_pg [OF ans sils, of "s\<lparr>as_world := w\<rparr>" ?rules tick db_now locked] targets w
    by (auto simp: same_config_def)
  obtain c where c: "se_claimed_at e = Some c" using e(2) by auto
  obtain s2 t where s2: "finish_source_event ?env e s1 = Ret (s2, Inr ())"
    "later ext tick (pw_rest (as_world s1)) (pw_rest (as_world s2))"
    "pw_db (as_world s2) = (pw_db (as_world s1))\<lparr>db_source_events :=
      map (\<lambda>r. if r = e then r\<lparr>se_processed_at := Some t\<rparr> else r) (db_source_events ?db)\<rparr>"
    "source_counts (as_stats s2) =
      (ws_source_events_claimed (as_stats s1), ws_source_events_processed (as_stats s1) + 1, ws_source_claim_lost (as_stats s1))"
    using finish_source_pg [of e s1 c ext tick db_now locked] e ids c s1(4) by auto
  have "fired [] (pw_db (as_world s1)) (pw_db (as_world s2))" using s2(3) by (simp add: fired_refl same_config_def)
  from fired_trans [OF s1(3) this] have fired: "fired fs ?db (pw_db (as_world s2))" by simp
  have "prefix (db_events (pw_db (as_world s1))) (db_events (pw_db (as_world s2)))" using s2(3) by simp
  then have "rule_decided ext tick meta ?sils z ?db (pw_rest (as_world s2)) (pw_db (as_world s2)) fs e rule"
    if "rule \<in> set ?rules" for rule
    using rule_decided_widen [OF bspec [OF s1(6) that] z(2) s2(2) prefix_order.refl] by blast
  then have decided: "event_decided ext tick meta ?x ?db (pw_rest (as_world s2)) (pw_db (as_world s2)) fs e"
    unfolding event_decided_def using z(1) by blast
  have "list_all2 (\<lambda>r r'. if r \<in> set [e] then \<exists>t. r' = r\<lparr>se_processed_at := Some t\<rparr> else r' = r)
      (db_source_events ?db) (db_source_events (pw_db (as_world s2)))"
    using s2(3) by (auto simp: list_all2_map2 intro!: list_all2_refl)
  moreover have "later ext tick ?x (pw_rest (as_world s2))" using z s1(2) s2(2) by (blast intro: later_trans)
  ultimately have "pass_events ext tick meta [e] ?x ?db (pw_rest (as_world s2)) (pw_db (as_world s2))"
    using s1(5) fired decided unfolding pass_events_def by auto
  moreover have "abind (process_rules ?env e (meta_of meta e) ?sils ?rules)
      (\<lambda>_. abind (finish_source_event ?env e) (\<lambda>_. k ?rules)) (s\<lparr>as_world := w\<rparr>) = k ?rules s2"
    by (simp add: abind_def s1(1) s2(1))
  ultimately show ?thesis
    using start s2(4) s1(7) by (intro exI [of _ s2]) (simp add: source_counts_def)
qed

definition cache_ok :: "('f, 'v) alert_db \<Rightarrow> alert_source_kind \<Rightarrow> 'f alert_rule list option \<Rightarrow> bool" where
  "cache_ok db kind cache \<longleftrightarrow> cache \<in> {None, Some (list_enabled_alert_rules kind db)}"

lemma process_events_pg:
  shows "\<forall>e \<in> set es. answers ext meta (pw_db (as_world s)) e \<Longrightarrow> targets_exist (pw_db (as_world s)) \<Longrightarrow> set es \<subseteq> set (db_source_events (pw_db (as_world s))) \<Longrightarrow>
    distinct (map se_id (db_source_events (pw_db (as_world s)))) \<Longrightarrow> distinct (map se_id es) \<Longrightarrow>
    \<forall>e \<in> set es. se_claimed_at e \<noteq> None \<Longrightarrow> cache_ok (pw_db (as_world s)) ProductAvailable qbt \<Longrightarrow>
    cache_ok (pw_db (as_world s)) IncidentChange inc \<Longrightarrow>
    \<exists>s'. process_events (pg_env ext tick db_now locked) qbt inc es s = Ret (s', Inr ()) \<and>
      pass_events ext tick meta es (pw_rest (as_world s)) (pw_db (as_world s)) (pw_rest (as_world s')) (pw_db (as_world s')) \<and>
      source_counts (as_stats s') = (ws_source_events_claimed (as_stats s),
        ws_source_events_processed (as_stats s) + of_nat (length es), ws_source_claim_lost (as_stats s))"
proof (induction es arbitrary: s qbt inc)
  case Nil
  have "pass_events ext tick meta [] (pw_rest (as_world s)) (pw_db (as_world s)) (pw_rest (as_world s)) (pw_db (as_world s))"
    using fired_refl [of "pw_db (as_world s)" "pw_db (as_world s)"]
    by (auto simp: pass_events_def same_config_def list_all2_same later.now intro!: exI [of _ "[]"])
  then show ?case by (simp add: areturn_def source_counts_def)
next
  case (Cons e es)
  let ?env = "pg_env ext tick db_now locked"
  let ?cache = "if se_source_kind e = ProductAvailable then qbt else inc"
  let ?k = "\<lambda>rules. process_events ?env (if se_source_kind e = ProductAvailable then Some rules else qbt)
    (if se_source_kind e = ProductAvailable then inc else Some rules) es"
  have ans: "answers ext meta (pw_db (as_world s)) e" using Cons.prems(1) by simp
  have cache: "?cache \<in> {None, Some (list_enabled_alert_rules (se_source_kind e) (pw_db (as_world s)))}"
    using Cons.prems(7,8) by (cases "se_source_kind e") (simp_all add: cache_ok_def)
  have e: "e \<in> set (db_source_events (pw_db (as_world s)))" "se_claimed_at e \<noteq> None" using Cons.prems(3,6) by simp_all
  obtain s1 where s1: "process_events ?env qbt inc (e # es) s =
      ?k (list_enabled_alert_rules (se_source_kind e) (pw_db (as_world s))) s1"
    "pass_events ext tick meta [e] (pw_rest (as_world s)) (pw_db (as_world s)) (pw_rest (as_world s1)) (pw_db (as_world s1))"
    "source_counts (as_stats s1) = (ws_source_events_claimed (as_stats s), ws_source_events_processed (as_stats s) + 1,
      ws_source_claim_lost (as_stats s))"
    using process_event_pg [OF ans cache Cons.prems(2) e Cons.prems(4), of tick db_now locked ?k] by auto
  note same = pass_events_config [OF s1(2)]
  have t0: "\<forall>e \<in> set es. answers ext meta (pw_db (as_world s1)) e" using Cons.prems(1) answers_config [OF same] by auto
  have t1: "targets_exist (pw_db (as_world s1))" using Cons.prems(2) targets_exist_config [OF same] by simp
  have t2: "set es \<subseteq> set (db_source_events (pw_db (as_world s1)))"
    using Cons.prems(3,5) pass_events_keeps [OF s1(2)] by fastforce
  have t3: "distinct (map se_id (db_source_events (pw_db (as_world s1))))"
    using Cons.prems(4) pass_events_names(2) [OF s1(2)] by simp
  have t4: "distinct (map se_id es)" and t5: "\<forall>e \<in> set es. se_claimed_at e \<noteq> None" using Cons.prems(5,6) by simp_all
  have t6: "cache_ok (pw_db (as_world s1)) ProductAvailable
      (if se_source_kind e = ProductAvailable
       then Some (list_enabled_alert_rules (se_source_kind e) (pw_db (as_world s))) else qbt)"
    and t7: "cache_ok (pw_db (as_world s1)) IncidentChange
      (if se_source_kind e = ProductAvailable then inc
       else Some (list_enabled_alert_rules (se_source_kind e) (pw_db (as_world s))))"
    using Cons.prems(7,8) by (cases "se_source_kind e"; simp add: cache_ok_def same_config_reads [OF same])+
  obtain s2 where s2:
    "?k (list_enabled_alert_rules (se_source_kind e) (pw_db (as_world s))) s1 = Ret (s2, Inr ())"
    "pass_events ext tick meta es (pw_rest (as_world s1)) (pw_db (as_world s1)) (pw_rest (as_world s2)) (pw_db (as_world s2))"
    "source_counts (as_stats s2) = (ws_source_events_claimed (as_stats s1),
      ws_source_events_processed (as_stats s1) + of_nat (length es), ws_source_claim_lost (as_stats s1))"
    using Cons.IH [OF t0 t1 t2 t3 t4 t5 t6 t7] by blast
  have "pass_events ext tick meta (e # es) (pw_rest (as_world s)) (pw_db (as_world s)) (pw_rest (as_world s2)) (pw_db (as_world s2))"
    using pass_events_Cons [OF s1(2) s2(2)] Cons.prems(5) by simp
  then show ?case using s1(1,3) s2(1,3) by (intro exI [of _ s2]) (simp add: source_counts_def)
qed

definition due_sources :: "(i64 \<Rightarrow> bool) \<Rightarrow> i64 \<Rightarrow> system_time \<Rightarrow> ('f, 'v) alert_db \<Rightarrow> 'v alert_source_event list" where
  "due_sources locked limit lease_cutoff db =
     take (nat limit) (filter (claimable_source locked lease_cutoff) (db_source_events db))"

lemma claim_sources:
  assumes "distinct (map se_id (db_source_events db))"
  shows "claim_pending_alert_source_events locked now limit cutoff db =
    (db\<lparr>db_source_events := map (\<lambda>e. if e \<in> set (due_sources locked limit cutoff db) then e\<lparr>se_claimed_at := Some now\<rparr> else e)
        (db_source_events db)\<rparr>,
     map (\<lambda>e. e\<lparr>se_claimed_at := Some now\<rparr>) (due_sources locked limit cutoff db))"
  unfolding claim_pending_alert_source_events_def Let_def due_sources_def set_map
  using claim_table [OF assms, of "\<lambda>e. e\<lparr>se_claimed_at := Some now\<rparr>" "nat limit" "claimable_source locked cutoff"] by simp

text \<open>
  C12.  One pass over the pending source events, when every call to the database succeeds, nobody else
  writes, identities of source events are distinct, the targets of rules exist, and metadata, criteria,
  templates and cooldowns of the claimed events and the stored rules can be evaluated, succeeds and fires the right rules: the new alert events are exactly those listed
  in \<open>fs\<close>, each for a claimed event and an enabled rule of its kind, with one pending delivery attempt per
  target of the rule and a delivery key that no other event has.  For every claimed event there is one
  moment of the pass at which the silences are read, and for every enabled rule a later moment at which
  it is decided: the rule fires if its criteria hold, no silence active at the first moment matches and
  no event of the rule for that source is younger than the cooldown at the second; then its delivery key is
  in the table (new, or from an earlier pass), and a new event of the rule is there only then.  All claimed
  events, and no others, are marked as processed, and the counters say so.
\<close>

theorem source_pass_fires:
  fixes ext :: "('x, 'f, 'v, 'm) alert_env"
  assumes "\<forall>e \<in> set es. answers ext meta db e" "ae_chrono_duration ext (wc_source_claim_lease config) = Inr lease"
    "db = pw_db (as_world s)" "targets_exist db" "distinct (map se_id (db_source_events db))"
    "now = db_now (pw_rest (as_world s))"
    "due = due_sources locked (wc_source_batch_size config) (ae_now ext (pw_rest (as_world s)) - lease) db"
    "es = map (\<lambda>e. e\<lparr>se_claimed_at := Some now\<rparr>) due"
  shows "\<exists>s' fs. process_source_events (pg_env ext tick db_now locked) config s = Ret (s', Inr ()) \<and>
    fired fs db (pw_db (as_world s')) \<and>
    (\<forall>f \<in> set fs. \<exists>e \<in> set es. snd f \<in> set (list_enabled_alert_rules (se_source_kind e) db) \<and> fired_for ext meta e f) \<and>
    (\<forall>e \<in> set es. event_decided ext tick meta (pw_rest (as_world s)) db (pw_rest (as_world s')) (pw_db (as_world s')) fs e) \<and>
    list_all2 (\<lambda>r r'. if r \<in> set due then \<exists>t. r' = r\<lparr>se_claimed_at := Some now, se_processed_at := Some t\<rparr> else r' = r)
      (db_source_events db) (db_source_events (pw_db (as_world s'))) \<and>
    source_counts (as_stats s') = (ws_source_events_claimed (as_stats s) + of_nat (length due),
      ws_source_events_processed (as_stats s) + of_nat (length due), ws_source_claim_lost (as_stats s))"
proof -
  let ?env = "pg_env ext tick db_now locked"
  let ?c = "\<lambda>e. e\<lparr>se_claimed_at := Some now\<rparr>"
  let ?f = "\<lambda>e. if e \<in> set due then ?c e else e"
  let ?db = "db\<lparr>db_source_events := map ?f (db_source_events db)\<rparr>"
  let ?x = "pw_rest (as_world s)"
  let ?w = "(as_world s)\<lparr>pw_db := ?db, pw_rest := tick ?x\<rparr>"
  define s1 where "s1 = s\<lparr>as_world := ?w,
    as_stats := (as_stats s)\<lparr>ws_source_events_claimed := ws_source_events_claimed (as_stats s) + of_nat (length due)\<rparr>\<rparr>"
  have start: "process_source_events ?env config s =
      (if due = [] then Ret (s\<lparr>as_world := ?w\<rparr>, Inr ()) else process_events ?env None None es s1)"
    using claim_sources [OF assms(5), of locked now "wc_source_batch_size config" "ae_now ext ?x - lease"]
    by (simp add: process_source_events_def abind_def of_result_def chrono_duration_def map_err_def assms(2,3,6-8)
        sink_call_def pg_write_def areturn_def count_stats_def s1_def)
  have db1: "pw_db (as_world s1) = ?db" "pw_rest (as_world s1) = tick ?x" by (simp_all add: s1_def)
  have same: "same_config db ?db" by (simp add: same_config_def)
  have names: "source_names db = source_names ?db" by (simp add: source_names_def)
  have due: "set due \<subseteq> set (db_source_events db)" "distinct (map se_id due)"
    unfolding assms(7) due_sources_def by (rule claim_table_sub, rule claim_table_distinct [OF assms(5)])
  have t0: "\<forall>e \<in> set es. answers ext meta (pw_db (as_world s1)) e" unfolding db1 using assms(1) answers_config [OF same] by blast
  have t1: "targets_exist (pw_db (as_world s1))" using assms(4) targets_exist_config [OF same] by (simp add: db1)
  have t2: "set es \<subseteq> set (db_source_events (pw_db (as_world s1)))" using due(1) by (auto simp: db1 assms(8))
  have t3: "distinct (map se_id (db_source_events (pw_db (as_world s1))))"
    using assms(5) by (simp add: db1 comp_def if_distrib cong: if_cong)
  have t4: "distinct (map se_id es)" using due(2) by (simp add: assms(8) comp_def)
  have t5: "\<forall>e \<in> set es. se_claimed_at e \<noteq> None" by (auto simp: assms(8))
  obtain s2 where s2: "process_events ?env None None es s1 = Ret (s2, Inr ())"
    "pass_events ext tick meta es (tick ?x) ?db (pw_rest (as_world s2)) (pw_db (as_world s2))"
    "source_counts (as_stats s2) = (ws_source_events_claimed (as_stats s1),
      ws_source_events_processed (as_stats s1) + of_nat (length es), ws_source_claim_lost (as_stats s1))"
    using process_events_pg [OF t0 t1 t2 t3 t4 t5, of None None tick db_now locked] by (auto simp: cache_ok_def db1)
  show ?thesis
  proof (cases "due = []")
    case True
    then have "map ?f (db_source_events db) = db_source_events db" by simp
    then have "pw_db (as_world (s\<lparr>as_world := ?w\<rparr>)) = db" by simp
    then show ?thesis
      using True start fired_refl [of db db] assms(8)
      by (intro exI [of _ "s\<lparr>as_world := ?w\<rparr>"] exI [of _ "[]"])
        (simp add: same_config_def source_counts_def list_all2_same)
  next
    case False
    obtain fs where fs: "fired fs ?db (pw_db (as_world s2))"
      "\<forall>f \<in> set fs. \<exists>e \<in> set es. snd f \<in> set (list_enabled_alert_rules (se_source_kind e) db) \<and> fired_for ext meta e f"
      "\<forall>e \<in> set es. event_decided ext tick meta (tick ?x) ?db (pw_rest (as_world s2)) (pw_db (as_world s2)) fs e"
      using s2(2) unfolding pass_events_def same_config_reads [OF same] by blast
    have "fired [] db ?db" by (simp add: fired_refl same_config_def)
    from fired_trans [OF this fs(1)] have "fired fs db (pw_db (as_world s2))" by simp
    moreover have "event_decided ext tick meta ?x db (pw_rest (as_world s2)) (pw_db (as_world s2)) fs e" if "e \<in> set es" for e
      by (rule event_decided_widen [OF bspec [OF fs(3) that] later.query [OF later.now] later.now _ prefix_order.refl names same])
        simp_all
    moreover have "list_all2 (\<lambda>r r'. if r \<in> set due then \<exists>t. r' = r\<lparr>se_claimed_at := Some now, se_processed_at := Some t\<rparr> else r' = r)
        (db_source_events db) (db_source_events (pw_db (as_world s2)))"
    proof -
      have inj: "r \<notin> set es" if "r \<in> set (db_source_events db)" "r \<notin> set due" for r
      proof
        assume "r \<in> set es"
        then obtain b where "b \<in> set due" "se_id b = se_id r" by (auto simp: assms(8))
        with that due(1) assms(5) show False by (metis (no_types, lifting) distinct_map inj_on_def subsetD)
      qed
      have "list_all2 (\<lambda>r r'. if ?f r \<in> set es then \<exists>t. r' = (?f r)\<lparr>se_processed_at := Some t\<rparr> else r' = ?f r)
          (db_source_events db) (db_source_events (pw_db (as_world s2)))"
        using s2(2) by (simp add: pass_events_def list_all2_map1)
      then show ?thesis
        by (rule list.rel_mono_strong) (use inj in \<open>auto simp: assms(8) split: if_splits\<close>)
    qed
    ultimately show ?thesis
      using start False s2(1,3) fs(2) assms(8)
      by (intro exI [of _ s2] exI [of _ fs]) (simp add: source_counts_def s1_def)
  qed
qed

section \<open>Example\<close>

definition demo_source_db :: "(unit, unit) alert_db" where
  "demo_source_db = fold (run_op 10) (take 4 demo_ops) empty_db"

definition demo_source_state :: "(unit, unit, unit) pg_world alert_state" where
  "demo_source_state = \<lparr>as_world = \<lparr>pw_db = demo_source_db, pw_rest = ()\<rparr>, as_stats = alert_worker_stats_default\<rparr>"

definition demo_source :: "unit alert_source_event" where
  "demo_source =
     \<lparr>se_id = 1, se_source_kind = ProductAvailable, se_source_id = ''7'', se_payload = (), se_source_timestamp = 0,
      se_created_at = 10, se_claimed_at = None, se_processed_at = None\<rparr>"

lemma demo_source_due:
  "due_sources (\<lambda>i. False) 32 (1000 - 300000000000) demo_source_db = [demo_source]"
  "db_source_events demo_source_db = [demo_source]" "db_silences demo_source_db = []"
  by code_simp+

lemma demo_enabled:
  "map ru_id (list_enabled_alert_rules ProductAvailable demo_source_db) = [1]"
  "map ru_criteria (list_enabled_alert_rules ProductAvailable demo_source_db) = [Match_Product ()]"
  "map (tp_cooldown_secs \<circ> ru_trigger_policy) (list_enabled_alert_rules ProductAvailable demo_source_db) = [0]"
  by code_simp+

lemma demo_targets: "targets_exist demo_source_db"
  unfolding targets_exist_def by code_simp

lemma demo_answers: "se_source_kind e = ProductAvailable \<Longrightarrow> answers demo_ext (\<lambda>e. ()) demo_source_db e"
proof -
  assume e: "se_source_kind e = ProductAvailable"
  have rules: "\<forall>rule \<in> set (list_enabled_alert_rules ProductAvailable demo_source_db).
      ru_criteria rule = Match_Product () \<and> tp_cooldown_secs (ru_trigger_policy rule) = 0"
    using demo_enabled(2,3) by (cases "list_enabled_alert_rules ProductAvailable demo_source_db") auto
  then show ?thesis
    using e unfolding answers_def
    by (auto simp: demo_source_due(3) event_matches_criteria_def meta_of_def map_err_def render_rule_def Let_def demo_ext_def)
qed

theorem source_pass_fires_witness:
  "\<exists>s'. process_source_events (pg_env demo_ext id (\<lambda>x. 20) (\<lambda>i. False)) alert_worker_config_default demo_source_state =
      Ret (s', Inr ()) \<and>
    ''1:product_available:7:fire'' \<in> set (event_keys (pw_db (as_world s'))) \<and>
    source_counts (as_stats s') = (1, 1, 0)"
proof -
  let ?env = "pg_env demo_ext id (\<lambda>x. 20) (\<lambda>i. False)"
  let ?e = "demo_source\<lparr>se_claimed_at := Some 20\<rparr>"
  have db: "pw_db (as_world demo_source_state) = demo_source_db" by (simp add: demo_source_state_def)
  have due: "[demo_source] = due_sources (\<lambda>i. False) (wc_source_batch_size alert_worker_config_default)
      (ae_now demo_ext (pw_rest (as_world demo_source_state)) - 300000000000) demo_source_db"
    using demo_source_due(1) by (simp add: alert_worker_config_default_def demo_ext_def)
  have lease: "ae_chrono_duration demo_ext (wc_source_claim_lease alert_worker_config_default) = Inr 300000000000"
    by (simp add: demo_ext_def alert_worker_config_default_def)
  have ids: "distinct (map se_id (db_source_events demo_source_db))" by (simp add: demo_source_due)
  have ans: "\<forall>e \<in> set [?e]. answers demo_ext (\<lambda>e. ()) demo_source_db e"
    using demo_answers [of ?e] by (simp add: demo_source_def)
  have rest: "pw_rest (as_world demo_source_state) = ()" by simp
  obtain s' fs where s': "process_source_events ?env alert_worker_config_default demo_source_state = Ret (s', Inr ())"
    and all: "event_decided demo_ext id (\<lambda>e. ()) () demo_source_db (pw_rest (as_world s')) (pw_db (as_world s')) fs ?e"
    and counts: "source_counts (as_stats s') = (ws_source_events_claimed (as_stats demo_source_state) + of_nat 1,
      ws_source_events_processed (as_stats demo_source_state) + of_nat 1, ws_source_claim_lost (as_stats demo_source_state))"
    using source_pass_fires [where ext = demo_ext and meta = "\<lambda>e. ()" and tick = id and db_now = "\<lambda>x. 20" and
        locked = "\<lambda>i. False" and config = alert_worker_config_default and s = demo_source_state and db = demo_source_db and
        due = "[demo_source]" and now = 20 and es = "[?e]" and lease = 300000000000, OF ans lease db [symmetric] demo_targets ids refl due]
    by (auto simp: rest)
  obtain rule where rule: "rule \<in> set (list_enabled_alert_rules ProductAvailable demo_source_db)" "ru_id rule = 1"
    "ru_criteria rule = Match_Product ()" "tp_cooldown_secs (ru_trigger_policy rule) = 0"
    using demo_enabled by (cases "list_enabled_alert_rules ProductAvailable demo_source_db") auto
  have "fires demo_ext (\<lambda>e. ()) (list_active_alert_silences t demo_source_db) u names evs ?e rule" for t u names evs
    using rule by (simp add: fires_def silenced_def cooling_def list_active_alert_silences_def demo_source_due(3) criteria_hold_def
        event_matches_criteria_def demo_source_def meta_of_def map_err_def demo_ext_def)
  then have "build_delivery_key rule ?e \<in> set (event_keys (pw_db (as_world s')))"
    using all rule(1) unfolding event_decided_def rule_decided_def by (auto simp: demo_source_def)
  moreover have "build_delivery_key rule ?e = ''1:product_available:7:fire''"
  proof -
    have "show_int 1 = ''1''" by code_simp
    then show ?thesis using rule(2) by (simp add: build_delivery_key_def demo_source_def)
  qed
  moreover have "source_counts (as_stats s') = (1, 1, 0)"
    using counts by (simp add: demo_source_state_def alert_worker_stats_default_def)
  ultimately show ?thesis using s' by auto
qed

section \<open>The schema in reachable states\<close>

text \<open>
  What the constraints of the schema guarantee, in every state that workers, administration and
  arrivals lead to: the two passes above may rely on it, and an attempt whose event or contact
  point is missing has been overtaken by a delete.
\<close>

definition schema_ok :: "('f, 'v) alert_db \<Rightarrow> bool" where
  "schema_ok db \<longleftrightarrow>
     targets_exist db \<and> distinct (map se_id (db_source_events db)) \<and>
     (\<forall>e \<in> set (db_source_events db). se_id e < db_source_event_seq db) \<and> distinct (event_keys db) \<and>
     (\<forall>a \<in> set (db_attempts db). da_alert_event_id a \<in> ev_id ` set (db_events db) \<and>
        da_contact_point_id a \<in> cp_id ` set (db_contact_points db))"

lemma targets_exist_ids:
  "targets_exist db \<longleftrightarrow> (\<forall>(r, t) \<in> set (db_rule_targets db). rt_contact_point_id t \<in> cp_id ` set (db_contact_points db))"
  unfolding targets_exist_def image_iff by (simp add: eq_commute)

lemma schema_ok_cong:
  assumes "schema_ok db" "db_rule_targets db' = db_rule_targets db" "db_contact_points db' = db_contact_points db"
    "db_events db' = db_events db" "db_source_event_seq db' = db_source_event_seq db"
    "map se_id (db_source_events db') = map se_id (db_source_events db)"
    "set (map (\<lambda>a. (da_alert_event_id a, da_contact_point_id a)) (db_attempts db')) \<subseteq>
     set (map (\<lambda>a. (da_alert_event_id a, da_contact_point_id a)) (db_attempts db))"
  shows "schema_ok db'"
proof -
  have "\<forall>e \<in> set (db_source_events db'). se_id e < db_source_event_seq db'"
  proof
    fix e assume "e \<in> set (db_source_events db')"
    then have "se_id e \<in> set (map se_id (db_source_events db))" unfolding assms(6) [symmetric] by simp
    then show "se_id e < db_source_event_seq db'" using assms(1,5) by (auto simp: schema_ok_def)
  qed
  moreover have "\<forall>a \<in> set (db_attempts db'). da_alert_event_id a \<in> ev_id ` set (db_events db') \<and>
      da_contact_point_id a \<in> cp_id ` set (db_contact_points db')"
  proof
    fix a assume "a \<in> set (db_attempts db')"
    then have "(da_alert_event_id a, da_contact_point_id a) \<in>
        set (map (\<lambda>a. (da_alert_event_id a, da_contact_point_id a)) (db_attempts db))" using assms(7) by force
    then obtain b where "b \<in> set (db_attempts db)" "da_alert_event_id a = da_alert_event_id b"
      "da_contact_point_id a = da_contact_point_id b" by auto
    then show "da_alert_event_id a \<in> ev_id ` set (db_events db') \<and> da_contact_point_id a \<in> cp_id ` set (db_contact_points db')"
      using assms(1) by (simp add: assms(3,4) schema_ok_def)
  qed
  ultimately show ?thesis using assms by (simp add: schema_ok_def targets_exist_def event_keys_def)
qed

lemma schema_ok_claim: "schema_ok db \<Longrightarrow> schema_ok (fst (claim_due_delivery_attempts locked now limit cutoff db))"
  by (erule schema_ok_cong) (auto simp: claim_due_delivery_attempts_def Let_def)

lemma schema_ok_update: "schema_ok db \<Longrightarrow> schema_ok (fst (update_delivery_attempt now u db))"
  by (erule schema_ok_cong) (auto simp: update_delivery_attempt_def updated_row_def)

lemma schema_ok_targets:
  "insert_rule_targets i ts db = Inr db' \<Longrightarrow> targets_exist db \<Longrightarrow>
     targets_exist db' \<and> db_contact_points db' = db_contact_points db \<and> db_events db' = db_events db \<and>
     db_source_events db' = db_source_events db \<and> db_source_event_seq db' = db_source_event_seq db \<and>
     db_attempts db' = db_attempts db"
  by (induction i ts db rule: insert_rule_targets.induct) (auto simp: targets_exist_def split: if_splits)

lemma schema_ok_rules [simp]:
  "schema_ok (db\<lparr>db_rules := rs\<rparr>) = schema_ok db" "schema_ok (db\<lparr>db_rule_seq := n\<rparr>) = schema_ok db"
  by (simp_all add: schema_ok_def targets_exist_def event_keys_def)

lemma schema_ok_replace:
  assumes "replace_rule_targets i ts db = Inr db'" "schema_ok db"
  shows "schema_ok db'"
proof -
  have "targets_exist (db\<lparr>db_rule_targets := filter (\<lambda>(r, t). r \<noteq> i) (db_rule_targets db)\<rparr>)"
    using assms(2) by (auto simp: schema_ok_def targets_exist_def)
  from schema_ok_targets [OF assms(1) [unfolded replace_rule_targets_def] this] show ?thesis
    using assms(2) by (simp add: schema_ok_def event_keys_def)
qed

lemma schema_ok_insert:
  assumes "schema_ok db"
  shows "schema_ok (fst (insert_alert_event_with_attempts now rule i key title body payload db))"
proof -
  have att: "schema_ok db2" if "insert_attempts now k key ts db1 = (db2, Inr ())" "schema_ok db1"
    "k \<in> ev_id ` set (db_events db1)" for ts k db1 db2
    using that
  proof (induction ts arbitrary: db1)
    case (Cons t ts)
    have "list_ex (\<lambda>p. cp_id p = rt_contact_point_id t) (db_contact_points db1)"
      using Cons.prems(1) by (auto simp: Let_def split: if_splits)
    moreover have "schema_ok (db1\<lparr>db_attempt_seq := db_attempt_seq db1 + 1,
        db_attempts := db_attempts db1 @ [pending_row now (db_attempt_seq db1) k key t]\<rparr>)"
    proof -
      have "rt_contact_point_id t \<in> cp_id ` set (db_contact_points db1)"
        using calculation by (metis (mono_tags, lifting) image_eqI list_ex_iff)
      then show ?thesis
        using Cons.prems(2,3) by (auto simp: schema_ok_def targets_exist_def event_keys_def pending_row_def)
    qed
    ultimately show ?case using Cons.IH Cons.prems(1,3) by (simp add: Let_def)
  qed simp
  have seq: "schema_ok (db\<lparr>db_event_seq := n, db_attempt_seq := m\<rparr>)" "schema_ok (db\<lparr>db_event_seq := n\<rparr>)" for n m
    using assms by (simp_all add: schema_ok_def targets_exist_def event_keys_def)
  have ev: "schema_ok (db\<lparr>db_event_seq := n, db_events := db_events db @ [event]\<rparr>)"
    if "\<not> list_ex (\<lambda>e. ev_delivery_key e = ev_delivery_key event) (db_events db)" for n event
    using assms that by (auto simp: schema_ok_def targets_exist_def event_keys_def list_ex_iff)
  show ?thesis
    using seq by (auto simp: insert_alert_event_with_attempts_def Let_def split: prod.split sum.split
        elim!: att intro!: ev)
qed

lemma schema_ok_op:
  assumes "schema_ok db"
  shows "schema_ok (run_op now op db)"
proof (cases op)
  case (Op_Insert_Source kind source_id payload t)
  then show ?thesis using assms
    by (auto simp: insert_source_event_def schema_ok_def targets_exist_def event_keys_def)
next
  case (Op_Insert_Event rule i key title body payload)
  then show ?thesis using schema_ok_insert [OF assms] by simp
next
  case (Op_Delete_Contact_Point i)
  then show ?thesis using assms
    by (force simp: delete_alert_contact_point_def schema_ok_def targets_exist_def event_keys_def)
next
  case (Op_Delete_Rule i)
  have "a \<in> set (db_attempts db) \<Longrightarrow> da_alert_event_id a \<notin> ev_id ` {e \<in> set (db_events db). ev_rule_id e = i} \<Longrightarrow>
      da_alert_event_id a \<in> ev_id ` {e \<in> set (db_events db). ev_rule_id e \<noteq> i}" for a
    using assms by (fastforce simp: schema_ok_def image_iff)
  then show ?thesis using assms Op_Delete_Rule
    by (auto simp: delete_alert_rule_def Let_def schema_ok_def targets_exist_def event_keys_def distinct_map_filter)
next
  case (Op_Create_Rule input)
  then show ?thesis
    using assms by (auto simp: create_alert_rule_def Let_def split: sum.split dest: schema_ok_replace)
next
  case (Op_Update_Rule i input)
  then show ?thesis
    using assms by (auto simp: update_alert_rule_def Let_def split: sum.split dest: schema_ok_replace)
next
  case (Op_Create_Contact_Point input)
  then show ?thesis using assms
    by (auto simp: create_alert_contact_point_def Let_def schema_ok_def targets_exist_def event_keys_def)
next
  case (Op_Update_Contact_Point i input)
  have "map cp_id (db_contact_points (run_op now op db)) = map cp_id (db_contact_points db)"
    by (simp add: Op_Update_Contact_Point update_alert_contact_point_def Let_def)
  then have ids: "cp_id ` set (db_contact_points (run_op now op db)) = cp_id ` set (db_contact_points db)"
    by (metis set_map)
  have "db_rule_targets (run_op now op db) = db_rule_targets db" "db_source_events (run_op now op db) = db_source_events db"
    "db_source_event_seq (run_op now op db) = db_source_event_seq db" "db_events (run_op now op db) = db_events db"
    "db_attempts (run_op now op db) = db_attempts db"
    by (simp_all add: Op_Update_Contact_Point update_alert_contact_point_def Let_def)
  then show ?thesis using assms by (simp add: schema_ok_def targets_exist_ids event_keys_def ids)
qed (use assms in \<open>auto simp: claim_pending_alert_source_events_def mark_alert_source_event_processed_def Let_def
    create_alert_silence_def delete_alert_silence_def intro: schema_ok_cong [OF assms]\<close>)

lemma schema_reach: "alert_reach ext config s \<Longrightarrow> schema_ok (sy_db s)"
proof (induction rule: alert_reach.induct)
  case start
  then show ?case by (simp add: empty_db_def schema_ok_def targets_exist_def event_keys_def)
next
  case (other s now op)
  then show ?case using schema_ok_op by simp
next
  case (claim s worker_now lease now locked limit db rows)
  then show ?case using schema_ok_claim [of "sy_db s" locked now limit "worker_now - lease"] by simp
next
  case (finish s a u script now db finalized)
  then show ?case using schema_ok_update [of "sy_db s" now u] by simp
qed

end
