(* ===== verification/Rust_F64.thy ===== *)
theory Rust_F64
  imports Rust_Float Rust_Str
begin

text \<open>
  The arithmetic of \<^verbatim>\<open>f64\<close> as the geometry, the coordinate parsers and the filters use it: a result is the
  exact one rounded to 53 significant bits, ties to even, with the gradual underflow below \<open>2 ^ -1022\<close>, the
  overflow to the infinities from \<open>2 ^ 1024\<close> on, and the rules for infinities, NaN and negative zero of
  IEEE 754.  Comparison, \<^verbatim>\<open>min\<close> and \<^verbatim>\<open>max\<close>, \<^verbatim>\<open>str::parse\<close> and the formatting with a fixed number of
  decimals are those of the Rust standard library.
\<close>

section \<open>Rounding\<close>

text \<open>Round the magnitude \<open>p / q\<close>: at most 1074 binary digits follow the point.\<close>

definition f64_magnitude :: "nat \<Rightarrow> nat \<Rightarrow> rat" where
  "f64_magnitude p q =
     (if p = 0 then 0
      else
        let s = min (f64_shift p q) 1074 in
        if s \<ge> 0 then of_nat (round_half_even (p * 2 ^ nat s) q) / 2 ^ nat s
        else of_nat (round_half_even p (q * 2 ^ nat (- s))) * 2 ^ nat (- s))"

definition f64_pack :: "bool \<Rightarrow> rat \<Rightarrow> f64" where
  "f64_pack neg m =
     (let (p, q) = quotient_of m; r = f64_magnitude (nat p) (nat q) in
      if r \<ge> 2 ^ 1024 then (if neg then Neg_Infinity else Pos_Infinity)
      else if r = 0 then (if neg then Neg_Zero else Finite 0)
      else Finite (if neg then - r else r))"

definition f64_of_rat :: "rat \<Rightarrow> f64" where
  "f64_of_rat x = f64_pack (x < 0) \<bar>x\<bar>"

section \<open>Classification and comparison\<close>

fun f64_is_negative :: "f64 \<Rightarrow> bool" where
  "f64_is_negative (Finite r) \<longleftrightarrow> r < 0"
| "f64_is_negative Neg_Zero \<longleftrightarrow> True"
| "f64_is_negative Pos_Infinity \<longleftrightarrow> False"
| "f64_is_negative Neg_Infinity \<longleftrightarrow> True"
| "f64_is_negative Not_A_Number \<longleftrightarrow> False"

fun f64_is_finite :: "f64 \<Rightarrow> bool" where
  "f64_is_finite (Finite r) \<longleftrightarrow> True"
| "f64_is_finite Neg_Zero \<longleftrightarrow> True"
| "f64_is_finite _ \<longleftrightarrow> False"

text \<open>The value of a finite number.\<close>

fun f64_val :: "f64 \<Rightarrow> rat" where
  "f64_val (Finite r) = r"
| "f64_val _ = 0"

fun f64_lt :: "f64 \<Rightarrow> f64 \<Rightarrow> bool" where
  "f64_lt Not_A_Number y \<longleftrightarrow> False"
| "f64_lt Pos_Infinity y \<longleftrightarrow> False"
| "f64_lt Neg_Infinity y \<longleftrightarrow> y \<noteq> Neg_Infinity \<and> y \<noteq> Not_A_Number"
| "f64_lt x y \<longleftrightarrow> y = Pos_Infinity \<or> (f64_is_finite y \<and> f64_val x < f64_val y)"

definition f64_eq :: "f64 \<Rightarrow> f64 \<Rightarrow> bool" where
  "f64_eq x y \<longleftrightarrow>
     (if f64_is_finite x \<and> f64_is_finite y then f64_val x = f64_val y else x = y \<and> x \<noteq> Not_A_Number)"

definition f64_le :: "f64 \<Rightarrow> f64 \<Rightarrow> bool" where
  "f64_le x y \<longleftrightarrow> f64_lt x y \<or> f64_eq x y"

text \<open>\<^verbatim>\<open>min\<close> and \<^verbatim>\<open>max\<close> ignore an argument that is not a number.\<close>

definition f64_min :: "f64 \<Rightarrow> f64 \<Rightarrow> f64" where
  "f64_min x y = (if x = Not_A_Number then y else if y = Not_A_Number then x else if f64_lt y x then y else x)"

definition f64_max :: "f64 \<Rightarrow> f64 \<Rightarrow> f64" where
  "f64_max x y = (if x = Not_A_Number then y else if y = Not_A_Number then x else if f64_lt x y then y else x)"

section \<open>Arithmetic\<close>

fun f64_neg :: "f64 \<Rightarrow> f64" where
  "f64_neg (Finite r) = (if r = 0 then Neg_Zero else Finite (- r))"
| "f64_neg Neg_Zero = Finite 0"
| "f64_neg Pos_Infinity = Neg_Infinity"
| "f64_neg Neg_Infinity = Pos_Infinity"
| "f64_neg Not_A_Number = Not_A_Number"

definition f64_abs :: "f64 \<Rightarrow> f64" where
  "f64_abs x = (if f64_is_negative x then f64_neg x else x)"

definition f64_infinity :: "bool \<Rightarrow> f64" where
  "f64_infinity neg = (if neg then Neg_Infinity else Pos_Infinity)"

text \<open>An exact sum of zero is positive zero unless both summands are negative zeros.\<close>

definition f64_plus :: "f64 \<Rightarrow> f64 \<Rightarrow> f64" where
  "f64_plus x y =
     (if x = Not_A_Number \<or> y = Not_A_Number then Not_A_Number
      else if f64_is_finite x \<and> f64_is_finite y
           then (if x = Neg_Zero \<and> y = Neg_Zero then Neg_Zero else f64_of_rat (f64_val x + f64_val y))
      else if f64_is_finite x then y
      else if f64_is_finite y then x
      else if x = y then x else Not_A_Number)"

definition f64_minus :: "f64 \<Rightarrow> f64 \<Rightarrow> f64" where
  "f64_minus x y = f64_plus x (f64_neg y)"

definition f64_times :: "f64 \<Rightarrow> f64 \<Rightarrow> f64" where
  "f64_times x y =
     (let neg = (f64_is_negative x \<noteq> f64_is_negative y) in
      if x = Not_A_Number \<or> y = Not_A_Number then Not_A_Number
      else if f64_is_finite x \<and> f64_is_finite y then f64_pack neg (\<bar>f64_val x\<bar> * \<bar>f64_val y\<bar>)
      else if (f64_is_finite x \<and> f64_val x = 0) \<or> (f64_is_finite y \<and> f64_val y = 0) then Not_A_Number
      else f64_infinity neg)"

definition f64_divide :: "f64 \<Rightarrow> f64 \<Rightarrow> f64" where
  "f64_divide x y =
     (let neg = (f64_is_negative x \<noteq> f64_is_negative y) in
      if x = Not_A_Number \<or> y = Not_A_Number then Not_A_Number
      else if \<not> f64_is_finite x \<and> \<not> f64_is_finite y then Not_A_Number
      else if \<not> f64_is_finite x then f64_infinity neg
      else if \<not> f64_is_finite y then (if neg then Neg_Zero else Finite 0)
      else if f64_val y = 0 then (if f64_val x = 0 then Not_A_Number else f64_infinity neg)
      else f64_pack neg (\<bar>f64_val x\<bar> / \<bar>f64_val y\<bar>))"

section \<open>Parsing and printing\<close>

definition digits_value :: "str \<Rightarrow> nat" where
  "digits_value s = foldl (\<lambda>n c. 10 * n + digit_val c) 0 s"

definition scaled :: "str \<Rightarrow> str \<Rightarrow> int \<Rightarrow> rat" where
  "scaled whole decimals e =
     (let m = of_nat (digits_value (whole @ decimals)); k = e - int (length decimals)
      in if k \<ge> 0 then m * 10 ^ nat k else m / 10 ^ nat (- k))"

text \<open>The exponent after \<^verbatim>\<open>e\<close> or \<^verbatim>\<open>E\<close>: an optional sign and at least one digit.\<close>

definition parse_exponent :: "str \<Rightarrow> int option" where
  "parse_exponent s =
     (let neg = prefix ''-'' s; t = (if prefix ''-'' s \<or> prefix ''+'' s then tl s else s)
      in if t = [] \<or> \<not> list_all is_digit t then None
         else Some (if neg then - int (digits_value t) else int (digits_value t)))"

text \<open>Digits with an optional point between, before or after them, and an optional exponent.\<close>

definition parse_decimal :: "str \<Rightarrow> rat option" where
  "parse_decimal s =
     (let whole = takeWhile is_digit s;
          rest = dropWhile is_digit s;
          decimals = (if prefix ''.'' rest then takeWhile is_digit (tl rest) else []);
          rest = (if prefix ''.'' rest then dropWhile is_digit (tl rest) else rest)
      in if whole = [] \<and> decimals = [] then None
         else case rest of
             [] \<Rightarrow> Some (scaled whole decimals 0)
           | c # t \<Rightarrow>
               (if c = CHR ''e'' \<or> c = CHR ''E'' then map_option (scaled whole decimals) (parse_exponent t) else None))"

definition parse_f64 :: "str \<Rightarrow> f64 option" where
  "parse_f64 s =
     (let neg = prefix ''-'' s; t = (if prefix ''-'' s \<or> prefix ''+'' s then tl s else s)
      in case parse_decimal t of
          Some m \<Rightarrow> Some (f64_pack neg m)
        | None \<Rightarrow>
            (if eq_ignore_ascii_case t ''inf'' \<or> eq_ignore_ascii_case t ''infinity'' then Some (f64_infinity neg)
             else if eq_ignore_ascii_case t ''nan'' then Some Not_A_Number else None))"

text \<open>\<^verbatim>\<open>{:.d}\<close>: the exact value rounded to \<open>d\<close> decimals, ties to even.\<close>

definition show_fixed_mag :: "nat \<Rightarrow> rat \<Rightarrow> str" where
  "show_fixed_mag d m =
     (let (p, q) = quotient_of m; n = round_half_even (nat p * 10 ^ d) (nat q)
      in show_nat (n div 10 ^ d) @ ''.'' @ pad0 d (show_nat (n mod 10 ^ d)))"

definition show_fixed :: "nat \<Rightarrow> f64 \<Rightarrow> str" where
  "show_fixed d x =
     (case x of
        Finite r \<Rightarrow> (if r < 0 then ''-'' else []) @ show_fixed_mag d \<bar>r\<bar>
      | Neg_Zero \<Rightarrow> ''-'' @ show_fixed_mag d 0
      | Pos_Infinity \<Rightarrow> ''inf'' | Neg_Infinity \<Rightarrow> ''-inf'' | Not_A_Number \<Rightarrow> ''NaN'')"

section \<open>Facts about numbers\<close>

lemma f64_lt_finite: "f64_is_finite x \<Longrightarrow> f64_is_finite y \<Longrightarrow> f64_lt x y \<longleftrightarrow> f64_val x < f64_val y"
  by (cases x; cases y) simp_all

lemma f64_le_finite: "f64_is_finite x \<Longrightarrow> f64_is_finite y \<Longrightarrow> f64_le x y \<longleftrightarrow> f64_val x \<le> f64_val y"
  by (auto simp: f64_le_def f64_lt_finite f64_eq_def)

lemma f64_le_refl: "x \<noteq> Not_A_Number \<Longrightarrow> f64_le x x"
  by (simp add: f64_le_def f64_eq_def)

lemma f64_le_trans: "f64_le x y \<Longrightarrow> f64_le y z \<Longrightarrow> f64_le x z"
  by (cases x; cases y; cases z) (auto simp: f64_le_def f64_eq_def)

lemma f64_le_total: "x \<noteq> Not_A_Number \<Longrightarrow> y \<noteq> Not_A_Number \<Longrightarrow> \<not> f64_lt x y \<Longrightarrow> f64_le y x"
  by (cases x; cases y) (auto simp: f64_le_def f64_eq_def)

lemma f64_lt_le: "f64_lt x y \<Longrightarrow> f64_le x y"
  by (simp add: f64_le_def)

lemma f64_min_le:
  assumes "x \<noteq> Not_A_Number" "y \<noteq> Not_A_Number"
  shows "f64_le (f64_min x y) x" "f64_le (f64_min x y) y" "f64_min x y \<noteq> Not_A_Number"
  using assms f64_le_total f64_le_refl by (auto simp: f64_min_def intro: f64_lt_le)

lemma f64_max_ge:
  assumes "x \<noteq> Not_A_Number" "y \<noteq> Not_A_Number"
  shows "f64_le x (f64_max x y)" "f64_le y (f64_max x y)" "f64_max x y \<noteq> Not_A_Number"
  using assms f64_le_total f64_le_refl by (auto simp: f64_max_def intro: f64_lt_le)

lemma round_half_even_1 [simp]: "round_half_even n 1 = n" "round_half_even n (Suc 0) = n"
  by (simp_all add: round_half_even_def)

lemma f64_magnitude_small:
  assumes "n < 2 ^ 53"
  shows "f64_magnitude n 1 = of_nat n"
proof (cases "n = 0")
  case False
  define k where "k = floorlog 2 n"
  have k: "2 ^ (k - 1) \<le> n" "n < 2 ^ k" "k > 0"
    using floorlog_bounds [of n 2] False by (auto simp: k_def floorlog_def)
  have "k \<le> 53"
  proof (rule ccontr)
    assume "\<not> k \<le> 53"
    then have "(2 :: nat) ^ 53 \<le> 2 ^ (k - 1)" by (intro power_increasing) auto
    with k assms show False by simp
  qed
  have "(2 :: nat) ^ 53 = 2 ^ (k - 1) * 2 ^ (54 - k)"
    using \<open>k \<le> 53\<close> k(3) by (simp add: power_add [symmetric])
  then have big: "2 ^ 53 \<le> n * 2 ^ (54 - k)" using mult_le_mono1 [OF k(1), of "2 ^ (54 - k)"] by simp
  have one: "floorlog 2 1 = 1" by (simp add: compute_floorlog)
  have "nat (53 - (int k - 1)) = 54 - k" using \<open>k \<le> 53\<close> by simp
  then have shift: "f64_shift n 1 = int (53 - k)"
    using big \<open>k \<le> 53\<close> by (simp add: f64_shift_def Let_def one k_def [symmetric] del: One_nat_def)
  show ?thesis using False \<open>k \<le> 53\<close> by (simp add: f64_magnitude_def shift del: One_nat_def)
qed (simp add: f64_magnitude_def)

text \<open>Integers below 2 ^ 53 are exact.\<close>

lemma f64_pack_nat:
  assumes "n < 2 ^ 53"
  shows "f64_pack neg (of_nat n) = (if n = 0 then (if neg then Neg_Zero else Finite 0) else Finite (if neg then - of_nat n else of_nat n))"
proof -
  have q: "quotient_of (of_nat n) = (int n, 1)" using quotient_of_int [of "int n"] by simp
  have "(of_nat n :: rat) < of_nat (2 ^ 53)" using assms by (simp only: of_nat_less_iff)
  then have "\<not> (2 :: rat) ^ 1024 \<le> of_nat n" by simp
  then show ?thesis using f64_magnitude_small [OF assms] by (simp add: f64_pack_def q)
qed

lemma digits_acc_value: "list_all is_digit s \<Longrightarrow> digits_acc n s = Some (foldl (\<lambda>n c. 10 * n + digit_val c) n s)"
  by (induction s arbitrary: n) simp_all

lemma digits_value_acc: "list_all is_digit s \<Longrightarrow> digits_acc 0 s = Some (digits_value s)"
  by (simp add: digits_acc_value digits_value_def)

lemma digit_val_le_9: "is_digit c \<Longrightarrow> digit_val c \<le> 9"
  by (auto simp: is_digit_def digit_val_def Let_def)

lemma digits_value_bound_from:
  "list_all is_digit s \<Longrightarrow> foldl (\<lambda>n c. 10 * n + digit_val c) n s < (n + 1) * 10 ^ length s"
proof (induction s arbitrary: n)
  case (Cons c s)
  have "foldl (\<lambda>n c. 10 * n + digit_val c) (10 * n + digit_val c) s < (10 * n + digit_val c + 1) * 10 ^ length s"
    using Cons by simp
  also have "\<dots> \<le> (10 * n + 10) * 10 ^ length s"
    using digit_val_le_9 [of c] Cons.prems by (intro mult_right_mono) simp_all
  finally show ?case by (simp add: algebra_simps)
qed simp

lemma digits_value_bound: "list_all is_digit s \<Longrightarrow> digits_value s < 10 ^ length s"
  using digits_value_bound_from [of s 0] by (simp add: digits_value_def)

text \<open>A text of digits parses to the number it shows.\<close>

lemma parse_f64_digits:
  assumes "s \<noteq> []" "list_all is_digit s" "length s \<le> 15"
  shows "parse_f64 s = Some (Finite (of_nat (digits_value s)))"
proof -
  have sign: "\<not> prefix ''-'' s" "\<not> prefix ''+'' s"
    using assms(1,2) by (cases s; auto simp: is_digit_def)+
  have all: "takeWhile is_digit s = s" "dropWhile is_digit s = []"
    using assms(2) by (simp_all add: list_all_iff)
  have "digits_value s < 10 ^ 15"
    using digits_value_bound [OF assms(2)] power_increasing [OF assms(3), of "10 :: nat"] by simp
  then have "digits_value s < 2 ^ 53" by simp
  then have "f64_pack False (of_nat (digits_value s)) = Finite (of_nat (digits_value s))"
    by (simp add: f64_pack_nat)
  moreover have "parse_decimal s = Some (of_nat (digits_value s))"
    using assms(1) by (simp add: parse_decimal_def all scaled_def)
  ultimately show ?thesis by (simp add: parse_f64_def sign)
qed

end
