(* ===== verification/Parser_Geo.thy ===== *)
theory Parser_Geo
  imports Rust_F64
begin

text \<open>
  The geographic helpers (emwin-parser/src/geo.rs): bounding boxes, the point-in-polygon test by ray
  casting with its tolerant edge test, and the haversine distance.  The trigonometric functions and the
  square root of the platform's mathematics library are fields of a parameter \<open>libm\<close>.
\<close>

type_synonym coord = "f64 \<times> f64"

record geo_point =
  gp_lat :: f64
  gp_lon :: f64

record geo_bounds =
  gb_min_lat :: f64
  gb_max_lat :: f64
  gb_min_lon :: f64
  gb_max_lon :: f64

record libm =
  lm_to_radians :: "f64 \<Rightarrow> f64"
  lm_sin :: "f64 \<Rightarrow> f64"
  lm_cos :: "f64 \<Rightarrow> f64"
  lm_sqrt :: "f64 \<Rightarrow> f64"
  lm_atan2 :: "f64 \<Rightarrow> f64 \<Rightarrow> f64"

definition EARTH_RADIUS_MILES :: f64 where
  "EARTH_RADIUS_MILES = f64_of_rat (39587613 / 10000)"

definition EPSILON :: f64 where
  "EPSILON = f64_of_rat (1 / 10 ^ 9)"

definition distance_miles :: "libm \<Rightarrow> geo_point \<Rightarrow> geo_point \<Rightarrow> f64" where
  "distance_miles lm a b =
     (let lat1 = lm_to_radians lm (gp_lat a);
          lat2 = lm_to_radians lm (gp_lat b);
          delta_lat = lm_to_radians lm (f64_minus (gp_lat b) (gp_lat a));
          delta_lon = lm_to_radians lm (f64_minus (gp_lon b) (gp_lon a));
          sin_lat = lm_sin lm (f64_divide delta_lat (Finite 2));
          sin_lon = lm_sin lm (f64_divide delta_lon (Finite 2));
          haversine = f64_plus (f64_times sin_lat sin_lat)
            (f64_times (f64_times (f64_times (lm_cos lm lat1) (lm_cos lm lat2)) sin_lon) sin_lon);
          arc = f64_times (Finite 2) (lm_atan2 lm (lm_sqrt lm haversine) (lm_sqrt lm (f64_minus (Finite 1) haversine)))
      in f64_times EARTH_RADIUS_MILES arc)"

definition extend_bounds :: "geo_bounds \<Rightarrow> coord \<Rightarrow> geo_bounds" where
  "extend_bounds b p =
     \<lparr>gb_min_lat = f64_min (gb_min_lat b) (fst p), gb_max_lat = f64_max (gb_max_lat b) (fst p),
      gb_min_lon = f64_min (gb_min_lon b) (snd p), gb_max_lon = f64_max (gb_max_lon b) (snd p)\<rparr>"

definition polygon_bounds :: "coord list \<Rightarrow> geo_bounds option" where
  "polygon_bounds points =
     (case points of
        [] \<Rightarrow> None
      | p # ps \<Rightarrow>
          Some (foldl extend_bounds
            \<lparr>gb_min_lat = fst p, gb_max_lat = fst p, gb_min_lon = snd p, gb_max_lon = snd p\<rparr> ps))"

definition bounds_contains :: "geo_bounds \<Rightarrow> geo_point \<Rightarrow> bool" where
  "bounds_contains b p \<longleftrightarrow>
     f64_le (gb_min_lat b) (gp_lat p) \<and> f64_le (gp_lat p) (gb_max_lat b) \<and>
     f64_le (gb_min_lon b) (gp_lon p) \<and> f64_le (gp_lon p) (gb_max_lon b)"

definition point_on_segment :: "geo_point \<Rightarrow> coord \<Rightarrow> coord \<Rightarrow> bool" where
  "point_on_segment p start stop =
     (let cross = f64_minus
            (f64_times (f64_minus (gp_lat p) (fst start)) (f64_minus (snd stop) (snd start)))
            (f64_times (f64_minus (gp_lon p) (snd start)) (f64_minus (fst stop) (fst start)))
      in if f64_lt EPSILON (f64_abs cross) then False
         else
           f64_le (f64_minus (f64_min (fst start) (fst stop)) EPSILON) (gp_lat p) \<and>
           f64_le (gp_lat p) (f64_plus (f64_max (fst start) (fst stop)) EPSILON) \<and>
           f64_le (f64_minus (f64_min (snd start) (snd stop)) EPSILON) (gp_lon p) \<and>
           f64_le (gp_lon p) (f64_plus (f64_max (snd start) (snd stop)) EPSILON))"

text \<open>Does the ray from the point cross the edge from \<open>previous\<close> to \<open>current\<close>?\<close>

definition ray_intersects :: "geo_point \<Rightarrow> coord \<Rightarrow> coord \<Rightarrow> bool" where
  "ray_intersects p previous current \<longleftrightarrow>
     f64_lt (gp_lat p) (fst current) \<noteq> f64_lt (gp_lat p) (fst previous) \<and>
     f64_le (gp_lon p)
       (f64_plus
         (f64_divide
           (f64_times (f64_minus (snd previous) (snd current)) (f64_minus (gp_lat p) (fst current)))
           (f64_minus (fst previous) (fst current)))
         (snd current))"

fun polygon_walk :: "geo_point \<Rightarrow> bool \<Rightarrow> coord \<Rightarrow> coord list \<Rightarrow> bool" where
  "polygon_walk p inside previous [] = inside"
| "polygon_walk p inside previous (current # rest) =
     (if point_on_segment p previous current then True
      else polygon_walk p (if ray_intersects p previous current then \<not> inside else inside) current rest)"

definition point_in_polygon :: "geo_point \<Rightarrow> coord list \<Rightarrow> bool" where
  "point_in_polygon p polygon = (if length polygon < 3 then False else polygon_walk p False (last polygon) polygon)"

section \<open>Bounding boxes\<close>

definition bounds_ok :: "geo_bounds \<Rightarrow> bool" where
  "bounds_ok b \<longleftrightarrow> gb_min_lat b \<noteq> Not_A_Number \<and> gb_max_lat b \<noteq> Not_A_Number \<and>
     gb_min_lon b \<noteq> Not_A_Number \<and> gb_max_lon b \<noteq> Not_A_Number"

definition is_coord :: "coord \<Rightarrow> bool" where
  "is_coord p \<longleftrightarrow> fst p \<noteq> Not_A_Number \<and> snd p \<noteq> Not_A_Number"

definition geo_at :: "coord \<Rightarrow> geo_point" where
  "geo_at p = \<lparr>gp_lat = fst p, gp_lon = snd p\<rparr>"

lemma extend_bounds_contains:
  assumes "bounds_ok b" "is_coord p"
  shows "bounds_ok (extend_bounds b p)" "bounds_contains (extend_bounds b p) (geo_at p)"
    "bounds_contains b q \<Longrightarrow> bounds_contains (extend_bounds b p) q"
  using assms f64_min_le f64_max_ge
  by (auto simp: bounds_ok_def is_coord_def bounds_contains_def extend_bounds_def geo_at_def intro: f64_le_trans)

lemma extend_bounds_fold:
  assumes "bounds_ok b" "\<forall>p \<in> set ps. is_coord p"
  shows "bounds_contains b q \<or> q \<in> geo_at ` set ps \<Longrightarrow> bounds_contains (foldl extend_bounds b ps) q"
  using assms by (induction ps arbitrary: b) (auto intro: extend_bounds_contains)

text \<open>The box of a polygon contains all its vertices.\<close>

lemma polygon_bounds_contains:
  assumes "polygon_bounds ps = Some b" "\<forall>p \<in> set ps. is_coord p" "p \<in> set ps"
  shows "bounds_contains b (geo_at p)"
proof -
  obtain v vs where ps: "ps = v # vs" using assms(3) by (cases ps) auto
  then have v: "fst v \<noteq> Not_A_Number" "snd v \<noteq> Not_A_Number" using assms(2) by (simp_all add: is_coord_def)
  let ?b = "\<lparr>gb_min_lat = fst v, gb_max_lat = fst v, gb_min_lon = snd v, gb_max_lon = snd v\<rparr>"
  have "bounds_ok ?b" "bounds_contains ?b (geo_at v)"
    using v by (simp_all add: bounds_ok_def bounds_contains_def geo_at_def f64_le_refl)
  then show ?thesis
    using assms extend_bounds_fold [of ?b vs "geo_at p"] by (auto simp: ps polygon_bounds_def)
qed

end
