(* ===== verification/Parser_LatLon.thy ===== *)
theory Parser_LatLon
  imports Parser_Geo Parser_Time Rust_Lines
begin

text \<open>
  The parser of LAT...LON polygons (emwin-parser/src/body/latlon.rs) and the marker search and WKT formats it shares
  with the TIME...MOT...LOC parser (body/support.rs): candidates over several lines, the repair of split, packed
  and fused coordinate tokens, the packed coordinate formats, and the closing and checking of the ring.
  Slices by byte position are modelled with their panics.
\<close>

section \<open>Shared helpers\<close>

definition ascii_find_case_insensitive :: "str \<Rightarrow> str \<Rightarrow> nat option" where
  "ascii_find_case_insensitive haystack needle =
     (if needle = [] then Some 0
      else if length needle > length haystack then None
      else position (\<lambda>i. eq_ignore_ascii_case (take (length needle) (drop i haystack)) needle)
             [0..<length haystack - length needle + 1])"

definition wkt_points :: "nat \<Rightarrow> coord list \<Rightarrow> str" where
  "wkt_points d points = join '', '' (map (\<lambda>(lat, lon). show_fixed d lon @ '' '' @ show_fixed d lat) points)"

definition format_linestring_wkt :: "coord list \<Rightarrow> str" where
  "format_linestring_wkt points =
     (if length points = 1
      then ''POINT('' @ show_fixed 4 (snd (points ! 0)) @ '' '' @ show_fixed 4 (fst (points ! 0)) @ '')''
      else ''LINESTRING('' @ wkt_points 4 points @ '')'')"

definition format_polygon_wkt :: "coord list \<Rightarrow> str" where
  "format_polygon_wkt points = ''POLYGON(('' @ wkt_points 6 points @ ''))''"

text \<open>The \<^verbatim>\<open>?\<close> operator on an optional result of code that may panic, and \<^verbatim>\<open>text[i..j].parse().ok()?\<close>.\<close>

definition try_opt :: "'a option rust \<Rightarrow> ('a \<Rightarrow> 'b option rust) \<Rightarrow> 'b option rust" where
  "try_opt r f = rbind r (\<lambda>x. case x of None \<Rightarrow> Ret None | Some y \<Rightarrow> f y)"

definition parse_slice :: "str \<Rightarrow> nat \<Rightarrow> nat \<Rightarrow> f64 option rust" where
  "parse_slice s i j = rbind (slice s i j) (\<lambda>t. Ret (parse_f64 t))"

section \<open>Coordinates\<close>

definition latlon_marker :: str where
  "latlon_marker = ''LAT...LON''"

definition latlon_magnitude :: "str \<Rightarrow> f64 option rust" where
  "latlon_magnitude coord =
     (if length coord = 4 \<or> length coord = 5
      then Ret (map_option (\<lambda>hundredths. f64_divide hundredths (Finite 100)) (parse_f64 coord))
      else if length coord = 6
      then try_opt (parse_slice coord 0 2) (\<lambda>degrees.
           try_opt (parse_slice coord 2 4) (\<lambda>minutes.
           try_opt (parse_slice coord 4 6) (\<lambda>seconds.
           Ret (Some (f64_plus (f64_plus degrees (f64_divide minutes (Finite 60))) (f64_divide seconds (Finite 3600)))))))
      else if length coord = 7
      then try_opt (parse_slice coord 0 2) (\<lambda>degrees.
           try_opt (parse_slice coord 2 7) (\<lambda>decimal.
           Ret (Some (f64_plus degrees (f64_divide decimal (Finite 100000))))))
      else if length coord = 8
      then try_opt (parse_slice coord 0 2) (\<lambda>degrees.
           try_opt (parse_slice coord 2 4) (\<lambda>minutes.
           try_opt (parse_slice coord 4 6) (\<lambda>seconds.
           try_opt (parse_slice coord 6 8) (\<lambda>hundredths.
           Ret (Some (f64_plus (f64_plus degrees (f64_divide minutes (Finite 60)))
             (f64_divide (f64_plus seconds (f64_divide hundredths (Finite 100))) (Finite 3600))))))))
      else Ret (parse_f64 coord))"

definition latlon_parse_coordinate :: "str \<Rightarrow> bool \<Rightarrow> f64 option rust" where
  "latlon_parse_coordinate coord is_latitude =
     (let coord = trim coord in
      if prefix ''-'' coord then Ret (parse_f64 coord)
      else try_opt (latlon_magnitude coord) (\<lambda>value.
        let value = (if is_latitude then value
                     else if f64_lt value (Finite 40) then f64_plus value (Finite 100) else value)
        in Ret (Some (if is_latitude then value else f64_neg value))))"

section \<open>Coordinate tokens\<close>

definition is_latlon_terminator :: "str \<Rightarrow> bool" where
  "is_latlon_terminator token \<longleftrightarrow> trim token = ''$$'' \<or> trim token = ''&&''"

definition minus_digits :: "str \<Rightarrow> bool" where
  "minus_digits s \<longleftrightarrow> list_all is_digit (trim_start_matches (\<lambda>c. c = CHR ''-'') s)"

text \<open>Pieces are joined until the token has four to eight bytes; the rest of the pieces is returned with it.\<close>

fun latlon_consume_token :: "str \<Rightarrow> str list \<Rightarrow> (str \<times> str list) option" where
  "latlon_consume_token token [] = None"
| "latlon_consume_token token (piece # pieces) =
     (let token = token @ trim piece in
      if 4 \<le> length token \<and> length token \<le> 8
      then (if minus_digits token then Some (token, pieces) else None)
      else if length token > 8 then None
      else latlon_consume_token token pieces)"

definition latlon_split_packed :: "str list \<Rightarrow> str \<Rightarrow> (str \<times> str) option rust" where
  "latlon_split_packed normalized token =
     (if prefix ''-'' token \<or> length token \<noteq> 8 \<or> odd (length normalized) then Ret None
      else rbind (slice token 0 4) (\<lambda>lat. rbind (slice token 4 8) (\<lambda>lon.
        try_opt (latlon_parse_coordinate lat True) (\<lambda>_.
        try_opt (latlon_parse_coordinate lon False) (\<lambda>_. Ret (Some (lat, lon)))))))"

definition latlon_split_fused :: "str list \<Rightarrow> str \<Rightarrow> (str \<times> str) option rust" where
  "latlon_split_fused normalized token =
     (if prefix ''-'' token \<or> length token \<noteq> 8 \<or> even (length normalized) then Ret None
      else if list_ex (\<lambda>coord. prefix ''-'' coord \<or> length coord > 5) normalized then Ret None
      else rbind (slice token 0 4) (\<lambda>lon. rbind (slice token 4 8) (\<lambda>lat.
        if normalized = [] then Ret None
        else try_opt (latlon_parse_coordinate (last normalized) True) (\<lambda>_.
             try_opt (latlon_parse_coordinate lon False) (\<lambda>_.
             try_opt (latlon_parse_coordinate lat True) (\<lambda>_. Ret (Some (lon, lat))))))))"

definition latlon_issue :: "str \<Rightarrow> str \<Rightarrow> str \<Rightarrow> parse_issue" where
  "latlon_issue code message raw = issue_new ''latlon_parse'' code message (Some raw)"

definition fused_issue :: "str \<Rightarrow> str \<Rightarrow> str \<Rightarrow> parse_issue" where
  "fused_issue token lon lat =
     latlon_issue ''latlon_fused_token_repaired''
       (''repaired fused LAT...LON coordinate token `'' @ token @ ''` into `'' @ lon @ ''` `'' @ lat @ ''`'') token"

lemma latlon_consume_shorter: "latlon_consume_token token pieces = Some (t, rest) \<Longrightarrow> length rest < length pieces"
  by (induction token pieces rule: latlon_consume_token.induct) (auto simp: Let_def split: if_splits)

function latlon_normalize :: "str list \<Rightarrow> str list \<Rightarrow> parse_issue list \<Rightarrow> (str list \<times> parse_issue list) option rust" where
  "latlon_normalize [] normalized issues = Ret (Some (normalized, issues))"
| "latlon_normalize (t # ts) normalized issues =
     (if is_latlon_terminator t then Ret (Some (normalized, issues))
      else case latlon_consume_token [] (t # ts) of
          None \<Rightarrow> Ret None
        | Some (token, rest) \<Rightarrow>
            rbind (latlon_split_packed normalized token) (\<lambda>packed.
              case packed of
                Some (lat, lon) \<Rightarrow> latlon_normalize rest (normalized @ [lat, lon]) issues
              | None \<Rightarrow>
                  rbind (latlon_split_fused normalized token) (\<lambda>fused.
                    case fused of
                      Some (lon, lat) \<Rightarrow> latlon_normalize rest (normalized @ [lon, lat]) (issues @ [fused_issue token lon lat])
                    | None \<Rightarrow> latlon_normalize rest (normalized @ [token]) issues)))"
  by pat_completeness auto
termination
proof (relation "measure (\<lambda>(ts, _, _). length ts)", goal_cases)
  case 1
  show ?case by (rule wf_measure)
qed (auto dest: latlon_consume_shorter simp del: latlon_consume_token.simps)

declare latlon_normalize.simps(2) [simp del]

section \<open>Points and rings\<close>

definition count_issue :: "str \<Rightarrow> parse_issue" where
  "count_issue raw =
     latlon_issue ''invalid_latlon_coordinate_count''
       (''LAT...LON block has an invalid coordinate count: `'' @ raw @ ''`'') raw"

definition coordinate_issue :: "bool \<Rightarrow> str \<Rightarrow> parse_issue" where
  "coordinate_issue is_latitude raw =
     (let name = (if is_latitude then ''latitude'' else ''longitude'')
      in latlon_issue (''invalid_latlon_'' @ name)
           (''could not parse LAT...LON '' @ name @ '' from block: `'' @ raw @ ''`'') raw)"

fun latlon_parse_points :: "str \<Rightarrow> str list \<Rightarrow> coord list \<Rightarrow> f64 option \<Rightarrow> (parse_issue + coord list) rust" where
  "latlon_parse_points raw [] points pending =
     Ret (if pending \<noteq> None \<or> length points < 3 then Inl (count_issue raw) else Inr points)"
| "latlon_parse_points raw (coord # coords) points pending =
     (if length coord = 8 \<and> \<not> prefix ''-'' coord
      then if pending \<noteq> None then Ret (Inl (count_issue raw))
           else rbind (rbind (slice coord 0 4) (\<lambda>t. latlon_parse_coordinate t True)) (\<lambda>lat.
             case lat of
               None \<Rightarrow> Ret (Inl (coordinate_issue True raw))
             | Some lat \<Rightarrow>
                 rbind (rbind (slice coord 4 8) (\<lambda>t. latlon_parse_coordinate t False)) (\<lambda>lon.
                   case lon of
                     None \<Rightarrow> Ret (Inl (coordinate_issue False raw))
                   | Some lon \<Rightarrow> latlon_parse_points raw coords (points @ [(lat, lon)]) pending))
      else rbind (latlon_parse_coordinate coord (pending = None)) (\<lambda>value.
        case value of
          None \<Rightarrow> Ret (Inl (coordinate_issue (pending = None) raw))
        | Some value \<Rightarrow>
            (case pending of
               Some lat \<Rightarrow> latlon_parse_points raw coords (points @ [(lat, value)]) None
             | None \<Rightarrow> latlon_parse_points raw coords points (Some value))))"

definition coord_eq :: "coord \<Rightarrow> coord \<Rightarrow> bool" where
  "coord_eq p q \<longleftrightarrow> f64_eq (fst p) (fst q) \<and> f64_eq (snd p) (snd q)"

definition point_xy :: "coord \<Rightarrow> coord" where
  "point_xy p = (snd p, fst p)"

definition orientation :: "coord \<Rightarrow> coord \<Rightarrow> coord \<Rightarrow> f64" where
  "orientation first second third =
     f64_minus (f64_times (f64_minus (snd second) (snd first)) (f64_minus (fst third) (fst second)))
       (f64_times (f64_minus (fst second) (fst first)) (f64_minus (snd third) (snd second)))"

definition segments_intersect :: "coord \<Rightarrow> coord \<Rightarrow> coord \<Rightarrow> coord \<Rightarrow> bool" where
  "segments_intersect a b c d \<longleftrightarrow>
     f64_lt (f64_times (orientation a b c) (orientation a b d)) (Finite 0) \<and>
     f64_lt (f64_times (orientation c d a) (orientation c d b)) (Finite 0)"

definition has_self_intersection :: "coord list \<Rightarrow> bool" where
  "has_self_intersection points =
     (let segment_count = length points - 1 in
      list_ex (\<lambda>i. list_ex (\<lambda>j.
          \<not> (j = i + 1 \<or> (i = 0 \<and> j = segment_count - 1)) \<and>
          segments_intersect (point_xy (points ! i)) (point_xy (points ! (i + 1)))
            (point_xy (points ! j)) (point_xy (points ! (j + 1))))
        [i + 1..<segment_count]) [0..<segment_count])"

definition validate_polygon :: "coord list \<Rightarrow> str \<Rightarrow> parse_issue + coord list" where
  "validate_polygon points raw =
     (if length points < 3 then Inl (count_issue raw)
      else
        let points = (if \<not> coord_eq (hd points) (last points) then points @ [points ! 0] else points) in
        if length points > 4 \<and> has_self_intersection points
        then Inl (latlon_issue ''latlon_geometry_invalid''
               (''LAT...LON block produced a self-intersecting polygon: `'' @ raw @ ''`'') raw)
        else Inr points)"

record latlon_polygon =
  lp_points :: "coord list"
  lp_wkt :: str

section \<open>Candidates\<close>

definition looks_like_coordinate_line :: "str \<Rightarrow> bool" where
  "looks_like_coordinate_line line \<longleftrightarrow>
     list_all (\<lambda>token. let digits = trim_start_matches (\<lambda>c. c = CHR ''-'') token in digits \<noteq> [] \<and> list_all is_digit digits)
       (split_whitespace line)"

definition contains_dots :: "str \<Rightarrow> bool" where
  "contains_dots s \<longleftrightarrow> find_sub ''...'' s \<noteq> None"

definition latlon_section_header :: "str \<Rightarrow> bool" where
  "latlon_section_header line =
     (let trimmed = trim line in
      trimmed \<noteq> [] \<and> \<not> looks_like_coordinate_line trimmed \<and>
      (contains_dots trimmed \<or> prefix ''/'' trimmed \<or>
       (case split_whitespace trimmed of [] \<Rightarrow> False | token # _ \<Rightarrow> list_all is_upper token \<and> length token \<ge> 3)))"

definition marker_has_coordinates :: "str \<Rightarrow> bool" where
  "marker_has_coordinates raw =
     (case split_whitespace raw of
        marker # token # _ \<Rightarrow> eq_ignore_ascii_case marker latlon_marker \<and> minus_digits token
      | _ \<Rightarrow> False)"

text \<open>Does the block end before this line?\<close>

definition latlon_stops :: "str \<Rightarrow> bool" where
  "latlon_stops line \<longleftrightarrow>
     line = [] \<or> ascii_find_case_insensitive line latlon_marker \<noteq> None \<or>
     (latlon_section_header line \<and> \<not> looks_like_coordinate_line line)"

fun collect_latlon_candidate :: "str \<Rightarrow> str list \<Rightarrow> str \<times> str list" where
  "collect_latlon_candidate raw [] = (raw, [])"
| "collect_latlon_candidate raw (l # ls) =
     (let next_line = trim l in
      if latlon_stops next_line then (raw, l # ls)
      else
        let raw = (if raw = [] then raw else raw @ '' '') @ next_line in
        if marker_has_coordinates raw
        then case ls of
            [] \<Rightarrow> (raw, [])
          | p # _ \<Rightarrow> if latlon_stops (trim p) then (raw, ls) else collect_latlon_candidate raw ls
        else collect_latlon_candidate raw ls)"

declare collect_latlon_candidate.simps(2) [simp del]

lemma collect_latlon_shorter: "length (snd (collect_latlon_candidate raw ls)) \<le> length ls"
proof (induction ls arbitrary: raw)
  case (Cons l ls)
  then show ?case
    by (cases ls) (auto simp: collect_latlon_candidate.simps(2) [of _ l] Let_def le_SucI)
qed simp

function find_latlon_candidates :: "str list \<Rightarrow> str list" where
  "find_latlon_candidates [] = []"
| "find_latlon_candidates (line # ls) =
     (case ascii_find_case_insensitive line latlon_marker of
        None \<Rightarrow> find_latlon_candidates ls
      | Some marker_position \<Rightarrow>
          (let candidate = collect_latlon_candidate (trim (drop marker_position line)) ls
           in fst candidate # find_latlon_candidates (snd candidate)))"
  by pat_completeness auto
termination
  by (relation "measure length") (simp_all add: less_Suc_eq_le collect_latlon_shorter)

definition latlon_format_issue :: "str \<Rightarrow> parse_issue" where
  "latlon_format_issue raw =
     latlon_issue ''invalid_latlon_format'' (''could not parse LAT...LON block: `'' @ raw @ ''`'') raw"

definition latlon_coordinate_format_issue :: "str \<Rightarrow> parse_issue" where
  "latlon_coordinate_format_issue raw =
     latlon_issue ''invalid_latlon_coordinate_format''
       (''could not normalize LAT...LON coordinates from block: `'' @ raw @ ''`'') raw"

definition parse_latlon_candidate :: "str \<Rightarrow> (latlon_polygon option \<times> parse_issue list) rust" where
  "parse_latlon_candidate candidate =
     (let raw = trim candidate in
      case split_whitespace raw of
        [] \<Rightarrow> Ret (None, [latlon_format_issue raw])
      | marker # raw_coords \<Rightarrow>
          (if \<not> eq_ignore_ascii_case marker latlon_marker then Ret (None, [latlon_format_issue raw])
           else rbind (latlon_normalize raw_coords [] []) (\<lambda>normalized.
             case normalized of
               None \<Rightarrow> Ret (None, [latlon_coordinate_format_issue raw])
             | Some (coords, issues) \<Rightarrow>
                 rbind (latlon_parse_points raw coords [] None) (\<lambda>points.
                   case points of
                     Inl issue \<Rightarrow> Ret (None, issues @ [issue])
                   | Inr points \<Rightarrow>
                       (case validate_polygon points raw of
                          Inl issue \<Rightarrow> Ret (None, issues @ [issue])
                        | Inr points \<Rightarrow>
                            Ret (Some \<lparr>lp_points = points, lp_wkt = format_polygon_wkt points\<rparr>, issues))))))"

fun parse_latlon_candidates :: "str list \<Rightarrow> (latlon_polygon list \<times> parse_issue list) rust" where
  "parse_latlon_candidates [] = Ret ([], [])"
| "parse_latlon_candidates (c # cs) =
     rbind (parse_latlon_candidate c) (\<lambda>(polygon, parse_issues).
       rbind (parse_latlon_candidates cs) (\<lambda>(polygons, issues).
         Ret ((case polygon of None \<Rightarrow> polygons | Some p \<Rightarrow> p # polygons), parse_issues @ issues)))"

definition parse_latlon_polygons_with_issues :: "str \<Rightarrow> (latlon_polygon list \<times> parse_issue list) rust" where
  "parse_latlon_polygons_with_issues s = parse_latlon_candidates (find_latlon_candidates (text_lines s))"

definition parse_latlon_polygons :: "str \<Rightarrow> latlon_polygon list rust" where
  "parse_latlon_polygons s = rbind (parse_latlon_polygons_with_issues s) (\<lambda>(polygons, _). Ret polygons)"

text \<open>\<^verbatim>\<open>LatLonPolygon::from_points\<close>, for polygons of CAP messages.\<close>

definition polygon_from_points :: "coord list \<Rightarrow> parse_issue + latlon_polygon" where
  "polygon_from_points points =
     (case validate_polygon points ''CAP polygon'' of
        Inl issue \<Rightarrow> Inl issue
      | Inr points \<Rightarrow> Inr \<lparr>lp_points = points, lp_wkt = format_polygon_wkt points\<rparr>)"

section \<open>Numbers of coordinate texts\<close>

definition f64_nonneg :: "f64 \<Rightarrow> bool" where
  "f64_nonneg x \<longleftrightarrow> (case x of Finite r \<Rightarrow> 0 \<le> r | Pos_Infinity \<Rightarrow> True | _ \<Rightarrow> False)"

lemma f64_magnitude_nonneg: "0 \<le> f64_magnitude p q"
  by (simp add: f64_magnitude_def Let_def)

lemma f64_pack_number [simp]: "f64_pack neg m \<noteq> Not_A_Number"
  by (simp add: f64_pack_def Let_def split_beta)

lemma f64_pack_nonneg: "f64_nonneg (f64_pack False m)"
  using f64_magnitude_nonneg by (simp add: f64_pack_def f64_nonneg_def Let_def split_beta)

lemma f64_divide_nonneg: "f64_nonneg x \<Longrightarrow> 0 < c \<Longrightarrow> f64_nonneg (f64_divide x (Finite c))"
proof -
  assume a: "f64_nonneg x" "0 < c"
  then consider r where "x = Finite r" "0 \<le> r" | "x = Pos_Infinity" by (cases x) (auto simp: f64_nonneg_def)
  then show ?thesis
  proof cases
    case 1
    then show ?thesis using a(2) f64_pack_nonneg by (simp add: f64_divide_def)
  next
    case 2
    then show ?thesis using a(2) by (simp add: f64_divide_def f64_infinity_def f64_nonneg_def)
  qed
qed

lemma f64_plus_nonneg: "f64_nonneg x \<Longrightarrow> f64_nonneg y \<Longrightarrow> f64_nonneg (f64_plus x y)"
proof -
  assume "f64_nonneg x" "f64_nonneg y"
  then consider r s where "x = Finite r" "0 \<le> r" "y = Finite s" "0 \<le> s" | "x = Pos_Infinity \<or> y = Pos_Infinity"
      "x \<noteq> Not_A_Number" "y \<noteq> Not_A_Number" "x \<noteq> Neg_Infinity" "y \<noteq> Neg_Infinity"
    by (cases x; cases y) (auto simp: f64_nonneg_def)
  then show ?thesis
  proof cases
    case 1
    then have "f64_plus x y = f64_pack False \<bar>r + s\<bar>" by (simp add: f64_plus_def f64_of_rat_def)
    then show ?thesis using f64_pack_nonneg by simp
  next
    case 2
    then show ?thesis by (cases x; cases y) (auto simp: f64_plus_def f64_nonneg_def)
  qed
qed

lemma f64_nonneg_number: "f64_nonneg x \<Longrightarrow> x \<noteq> Not_A_Number" "f64_nonneg x \<Longrightarrow> f64_neg x \<noteq> Not_A_Number"
  by (cases x; simp add: f64_nonneg_def)+

section \<open>Coordinate texts never panic\<close>

lemma digit_ascii: "is_digit c \<Longrightarrow> (of_char c :: nat) < 128"
  by (auto simp: is_digit_def Let_def)

lemma minus_digits_chars: "minus_digits s \<Longrightarrow> c \<in> set s \<Longrightarrow> c = CHR ''-'' \<or> is_digit c"
proof (induction s)
  case (Cons a s)
  then show ?case
    by (cases "a = CHR ''-''") (auto simp: minus_digits_def trim_start_matches_def list_all_iff)
qed simp

lemma minus_digits_ascii: "minus_digits s \<Longrightarrow> is_ascii s"
  using minus_digits_chars digit_ascii by (fastforce simp: is_ascii_def)

lemma minus_digits_digits: "minus_digits s \<Longrightarrow> \<not> prefix ''-'' s \<Longrightarrow> list_all is_digit s"
  by (cases s) (auto simp: minus_digits_def trim_start_matches_def)

lemma digits_minus_digits: "list_all is_digit s \<Longrightarrow> minus_digits s"
  by (auto simp: minus_digits_def trim_start_matches_def list_all_iff dest: set_dropWhileD)

lemma minus_digits_trim: "minus_digits s \<Longrightarrow> trim s = s"
proof (rule trim_keep)
  assume a: "minus_digits s"
  have "\<not> ws_lead c \<and> \<not> ws_last c" if "c \<in> set s" for c
    using minus_digits_chars [OF a that] by (auto simp: ws_lead_def ws_last_def ws1_def is_digit_def Let_def)
  then show "s = [] \<or> \<not> ws_lead (hd s) \<and> \<not> ws_last (last s)" by (cases s) auto
qed

lemma parse_f64_minus: "minus_digits s \<Longrightarrow> prefix ''-'' s \<Longrightarrow> parse_f64 s \<noteq> Some Not_A_Number"
proof -
  assume a: "minus_digits s" "prefix ''-'' s"
  have "\<not> eq_ignore_ascii_case (tl s) ''nan''"
  proof
    assume "eq_ignore_ascii_case (tl s) ''nan''"
    then obtain c where c: "c \<in> set (tl s)" "to_lower c = CHR ''n''"
      by (cases "tl s") (auto simp: eq_ignore_ascii_case_def to_ascii_lowercase_def to_lower_def is_upper_def)
    from c(1) have "c \<in> set s" by (cases s) auto
    then have "c = CHR ''-'' \<or> is_digit c" using minus_digits_chars [OF a(1)] by blast
    with c(2) show False by (auto simp: to_lower_def is_upper_def is_digit_def Let_def)
  qed
  then show ?thesis using a(2) by (auto simp: parse_f64_def f64_infinity_def Let_def split: option.splits)
qed

lemma parse_slice_digits:
  assumes "list_all is_digit s" "i < j" "j \<le> length s" "length s \<le> 15"
  shows "\<exists>n. parse_slice s i j = Ret (Some (Finite (of_nat n)))"
proof -
  let ?t = "take (j - i) (drop i s)"
  have "list_all is_digit ?t" using assms(1) by (auto simp: list_all_iff dest: in_set_takeD in_set_dropD)
  moreover have "?t \<noteq> []" "length ?t \<le> 15" using assms by auto
  ultimately have "parse_f64 ?t = Some (Finite (of_nat (digits_value ?t)))" by (simp add: parse_f64_digits)
  moreover have "slice s i j = Ret ?t"
    using assms minus_digits_ascii [OF digits_minus_digits] by (simp add: slice_ascii)
  ultimately show ?thesis by (simp add: parse_slice_def)
qed

lemma try_opt_Ret [simp]: "try_opt (Ret (Some x)) f = f x" "try_opt (Ret None) f = Ret None"
  by (simp_all add: try_opt_def)

lemma Finite_of_nat_nonneg [simp]: "f64_nonneg (Finite (of_nat n))"
  by (simp add: f64_nonneg_def)

lemma latlon_magnitude_digits:
  assumes "list_all is_digit s" "length s \<le> 8"
  shows "\<exists>r. latlon_magnitude s = Ret r \<and> (\<forall>x. r = Some x \<longrightarrow> f64_nonneg x)"
proof -
  note num = parse_slice_digits [OF assms(1)]
  note closed = f64_plus_nonneg f64_divide_nonneg
  have all: "parse_f64 s = Some (Finite (of_nat (digits_value s)))" if "s \<noteq> []"
    using that assms by (simp add: parse_f64_digits)
  consider "s = []" | "length s = 6" | "length s = 7" | "length s = 8" | "s \<noteq> []" "length s \<notin> {6, 7, 8}" by auto
  then show ?thesis
  proof cases
    case 1
    then show ?thesis by (simp add: latlon_magnitude_def parse_f64_def parse_decimal_def eq_ignore_ascii_case_def to_ascii_lowercase_def)
  next
    case 2
    then show ?thesis
      using num [of 0 2] num [of 2 4] num [of 4 6] by (auto simp: latlon_magnitude_def intro!: closed)
  next
    case 3
    then show ?thesis using num [of 0 2] num [of 2 7] by (auto simp: latlon_magnitude_def intro!: closed)
  next
    case 4
    then show ?thesis
      using num [of 0 2] num [of 2 4] num [of 4 6] num [of 6 8] by (auto simp: latlon_magnitude_def intro!: closed)
  next
    case 5
    then show ?thesis by (auto simp: latlon_magnitude_def all intro!: closed)
  qed
qed

lemma latlon_coordinate_number:
  assumes "minus_digits s" "length s \<le> 8"
  shows "\<exists>r. latlon_parse_coordinate s b = Ret r \<and> r \<noteq> Some Not_A_Number"
proof (cases "prefix ''-'' s")
  case True
  then show ?thesis
    using parse_f64_minus [OF assms(1)] by (simp add: latlon_parse_coordinate_def minus_digits_trim [OF assms(1)])
next
  case False
  obtain r where r: "latlon_magnitude s = Ret r" "\<forall>x. r = Some x \<longrightarrow> f64_nonneg x"
    using latlon_magnitude_digits [OF minus_digits_digits [OF assms(1) False] assms(2)] by blast
  have "f64_nonneg (f64_plus x (Finite 100))" if "f64_nonneg x" for x
    using that by (intro f64_plus_nonneg) (simp_all add: f64_nonneg_def)
  then show ?thesis
    using r False f64_nonneg_number
    by (cases r) (auto simp: latlon_parse_coordinate_def minus_digits_trim [OF assms(1)] Let_def)
qed


section \<open>Polygons are closed rings\<close>

definition token_ok :: "str \<Rightarrow> bool" where
  "token_ok t \<longleftrightarrow> minus_digits t \<and> length t \<le> 8"

lemma token_coordinate: "token_ok t \<Longrightarrow> \<exists>r. latlon_parse_coordinate t b = Ret r \<and> r \<noteq> Some Not_A_Number"
  using latlon_coordinate_number by (simp add: token_ok_def)

lemma consume_token_ok: "latlon_consume_token acc ps = Some (t, rest) \<Longrightarrow> token_ok t"
  by (induction acc ps rule: latlon_consume_token.induct) (auto simp: Let_def token_ok_def split: if_splits)

text \<open>The two halves of a token of eight digits.\<close>

lemma token_halves:
  assumes "token_ok t" "\<not> prefix ''-'' t" "length t = 8"
  obtains a b where "slice t 0 4 = Ret a" "slice t 4 8 = Ret b" "token_ok a" "token_ok b"
proof -
  have d: "list_all is_digit t" using assms by (simp add: token_ok_def minus_digits_digits)
  then have "list_all is_digit (take 4 t)" "list_all is_digit (drop 4 t)"
    by (auto simp: list_all_iff dest: in_set_takeD in_set_dropD)
  then have "token_ok (take 4 t)" "token_ok (take 4 (drop 4 t))"
    using assms(3) by (auto simp: token_ok_def intro!: digits_minus_digits simp: list_all_iff dest: in_set_takeD)
  moreover have "slice t 0 4 = Ret (take 4 t)" "slice t 4 8 = Ret (take 4 (drop 4 t))"
    using assms minus_digits_ascii by (simp_all add: slice_ascii token_ok_def)
  ultimately show ?thesis using that by blast
qed

lemma try_coordinate:
  assumes "token_ok t" "\<exists>r. f = Ret r \<and> P r" "P None"
  shows "\<exists>r. try_opt (latlon_parse_coordinate t b) (\<lambda>_. f) = Ret r \<and> P r"
proof -
  obtain x where "latlon_parse_coordinate t b = Ret x" using token_coordinate [OF assms(1)] by blast
  then show ?thesis using assms(2,3) by (cases x) auto
qed

definition pair_ok :: "(str \<times> str) option \<Rightarrow> bool" where
  "pair_ok r \<longleftrightarrow> (\<forall>a b. r = Some (a, b) \<longrightarrow> token_ok a \<and> token_ok b)"

lemma split_packed_ok:
  assumes "token_ok t"
  shows "\<exists>r. latlon_split_packed normalized t = Ret r \<and> pair_ok r"
proof (cases "prefix ''-'' t \<or> length t \<noteq> 8 \<or> odd (length normalized)")
  case False
  then obtain a b where h: "slice t 0 4 = Ret a" "slice t 4 8 = Ret b" "token_ok a" "token_ok b"
    using token_halves [OF assms] by blast
  show ?thesis
    using False h by (auto simp: latlon_split_packed_def pair_ok_def intro!: try_coordinate)
qed (auto simp: latlon_split_packed_def pair_ok_def)

lemma split_fused_ok:
  assumes "token_ok t" "\<forall>c \<in> set normalized. token_ok c"
  shows "\<exists>r. latlon_split_fused normalized t = Ret r \<and> pair_ok r"
proof (cases "prefix ''-'' t \<or> length t \<noteq> 8 \<or> even (length normalized) \<or>
    list_ex (\<lambda>coord. prefix ''-'' coord \<or> length coord > 5) normalized")
  case False
  then obtain a b where h: "slice t 0 4 = Ret a" "slice t 4 8 = Ret b" "token_ok a" "token_ok b"
    using token_halves [OF assms(1)] by blast
  have "normalized \<noteq> []" using False by auto
  then have "token_ok (last normalized)" using assms(2) by simp
  with False h \<open>normalized \<noteq> []\<close> show ?thesis
    by (auto simp: latlon_split_fused_def pair_ok_def intro!: try_coordinate)
qed (auto simp: latlon_split_fused_def pair_ok_def)

lemma latlon_normalize_ok:
  assumes "\<forall>c \<in> set normalized. token_ok c"
  shows "\<exists>r. latlon_normalize ts normalized issues = Ret r \<and> (\<forall>cs is. r = Some (cs, is) \<longrightarrow> (\<forall>c \<in> set cs. token_ok c))"
  using assms
proof (induction ts normalized issues rule: latlon_normalize.induct)
  case (2 t ts normalized issues)
  show ?case
  proof (cases "is_latlon_terminator t \<or> latlon_consume_token [] (t # ts) = None")
    case True
    then show ?thesis using 2(4) by (auto simp: latlon_normalize.simps(2) simp del: latlon_consume_token.simps)
  next
    case False
    then obtain token rest where c: "latlon_consume_token [] (t # ts) = Some (token, rest)" by auto
    note tok = consume_token_ok [OF c]
    obtain packed where p: "latlon_split_packed normalized token = Ret packed" "pair_ok packed"
      using split_packed_ok [OF tok] by blast
    obtain fused where f: "latlon_split_fused normalized token = Ret fused" "pair_ok fused"
      using split_fused_ok [OF tok 2(4)] by blast
    show ?thesis
    proof (cases packed)
      case (Some ab)
      then show ?thesis
        using 2(3) [OF _ c] False c p 2(4)
        by (cases ab) (simp add: latlon_normalize.simps(2) pair_ok_def del: latlon_consume_token.simps)
    next
      case None
      show ?thesis
      proof (cases fused)
        case (Some ab)
        then show ?thesis
          using 2(2) [OF _ c] False c p f None 2(4)
          by (cases ab) (simp add: latlon_normalize.simps(2) pair_ok_def del: latlon_consume_token.simps)
      next
        case None2: None
        then show ?thesis
          using 2(1) [OF _ c] False c p f None 2(4) tok
          by (simp add: latlon_normalize.simps(2) del: latlon_consume_token.simps)
      qed
    qed
  qed
qed simp


lemma coordinate_of_token:
  assumes "token_ok t"
  obtains r where "latlon_parse_coordinate t b = Ret r" "r \<noteq> Some Not_A_Number"
  using token_coordinate [OF assms, of b] by blast

definition points_ok :: "parse_issue + coord list \<Rightarrow> bool" where
  "points_ok r \<longleftrightarrow> (\<forall>ps. r = Inr ps \<longrightarrow> 3 \<le> length ps \<and> (\<forall>p \<in> set ps. is_coord p))"

lemma parse_points_ok:
  assumes "\<forall>c \<in> set coords. token_ok c" "\<forall>p \<in> set points. is_coord p" "pending \<noteq> Some Not_A_Number"
  shows "\<exists>r. latlon_parse_points raw coords points pending = Ret r \<and> points_ok r"
  using assms
proof (induction raw coords points pending rule: latlon_parse_points.induct)
  case (1 raw points pending)
  then show ?case by (auto simp: points_ok_def)
next
  case (2 raw coord coords points pending)
  have tok: "token_ok coord" and rest: "\<forall>c \<in> set coords. token_ok c" using 2(4) by simp_all
  show ?case
  proof (cases "length coord = 8 \<and> \<not> prefix ''-'' coord")
    case True
    then obtain a b where h: "slice coord 0 4 = Ret a" "slice coord 4 8 = Ret b" "token_ok a" "token_ok b"
      using token_halves [OF tok] by blast
    obtain x where x: "latlon_parse_coordinate a True = Ret x" "x \<noteq> Some Not_A_Number"
      using coordinate_of_token [OF h(3)] by blast
    obtain y where y: "latlon_parse_coordinate b False = Ret y" "y \<noteq> Some Not_A_Number"
      using coordinate_of_token [OF h(4)] by blast
    show ?thesis
    proof (cases "pending \<noteq> None \<or> x = None \<or> y = None")
      case bad: True
      then show ?thesis using True h x y by (auto simp: points_ok_def split: option.splits)
    next
      case False
      then obtain lat lon where ll: "x = Some lat" "y = Some lon" "pending = None" by auto
      then have "\<exists>r. latlon_parse_points raw coords (points @ [(lat, lon)]) pending = Ret r \<and> points_ok r"
        using 2(1) [of lat lon] True x(2) y(2) rest 2(5,6) by (simp add: is_coord_def)
      then show ?thesis using True h x y ll by simp
    qed
  next
    case False
    obtain x where x: "latlon_parse_coordinate coord (pending = None) = Ret x" "x \<noteq> Some Not_A_Number"
      using coordinate_of_token [OF tok] by blast
    show ?thesis
    proof (cases x)
      case None
      then show ?thesis using False x by (auto simp: points_ok_def)
    next
      case (Some v)
      show ?thesis
      proof (cases pending)
        case p: None
        then show ?thesis using 2(2) [OF False, of v] x Some rest 2(5) False by auto
      next
        case p: (Some lat)
        then have "\<exists>r. latlon_parse_points raw coords (points @ [(lat, v)]) None = Ret r \<and> points_ok r"
          using 2(3) [OF False] x Some p rest 2(5,6) by (auto simp: is_coord_def)
        then show ?thesis using x Some p False by auto
      qed
    qed
  qed
qed

definition ring_ok :: "coord list \<Rightarrow> bool" where
  "ring_ok ps \<longleftrightarrow>
     3 \<le> length ps \<and> coord_eq (hd ps) (last ps) \<and> (\<forall>p \<in> set ps. is_coord p) \<and>
     (4 < length ps \<longrightarrow> \<not> has_self_intersection ps)"

lemma coord_eq_refl: "is_coord p \<Longrightarrow> coord_eq p p"
  by (simp add: is_coord_def coord_eq_def f64_eq_def)

lemma validate_polygon_ring:
  assumes "validate_polygon ps raw = Inr ring" "\<forall>p \<in> set ps. is_coord p"
  shows "ring_ok ring"
proof -
  let ?q = "if \<not> coord_eq (hd ps) (last ps) then ps @ [ps ! 0] else ps"
  have len: "3 \<le> length ps" using assms(1) by (auto simp: validate_polygon_def split: if_splits)
  then have ne: "ps \<noteq> []" by auto
  have ring: "ring = ?q" "4 < length ?q \<longrightarrow> \<not> has_self_intersection ?q"
    using assms(1) len by (auto simp: validate_polygon_def Let_def split: if_splits)
  have "coord_eq (hd ?q) (last ?q)"
    using ne assms(2) coord_eq_refl by (auto simp: hd_conv_nth nth_append)
  moreover have "\<forall>p \<in> set ?q. is_coord p" using ne assms(2) by auto
  ultimately show ?thesis using ring len unfolding ring_ok_def by (auto split: if_splits)
qed

definition polygon_ok :: "latlon_polygon \<Rightarrow> bool" where
  "polygon_ok p \<longleftrightarrow> ring_ok (lp_points p) \<and> lp_wkt p = format_polygon_wkt (lp_points p)"

lemma candidate_polygon_ok:
  "\<exists>p issues. parse_latlon_candidate c = Ret (p, issues) \<and> (\<forall>q. p = Some q \<longrightarrow> polygon_ok q) \<and> (p = None \<longrightarrow> issues \<noteq> [])"
proof (cases "split_whitespace (trim c)")
  case (Cons marker toks)
  obtain n where n: "latlon_normalize toks [] [] = Ret n" "\<forall>cs is. n = Some (cs, is) \<longrightarrow> (\<forall>c \<in> set cs. token_ok c)"
    using latlon_normalize_ok [of "[]" toks "[]"] by auto
  show ?thesis
  proof (cases "eq_ignore_ascii_case marker latlon_marker \<and> n \<noteq> None")
    case True
    then obtain cs iss where cs: "n = Some (cs, iss)" by auto
    then obtain r where r: "latlon_parse_points (trim c) cs [] None = Ret r" "points_ok r"
      using parse_points_ok [of cs "[]" None "trim c"] n(2) by auto
    show ?thesis
    proof (cases r)
      case (Inl i)
      then show ?thesis using Cons True n(1) cs r by (simp add: parse_latlon_candidate_def)
    next
      case (Inr ps)
      show ?thesis
      proof (cases "validate_polygon ps (trim c)")
        case v: (Inl i)
        then show ?thesis using Cons True n(1) cs r Inr by (simp add: parse_latlon_candidate_def)
      next
        case v: (Inr ring)
        then have "ring_ok ring" using validate_polygon_ring r(2) Inr by (simp add: points_ok_def)
        then show ?thesis using Cons True n(1) cs r Inr v by (simp add: parse_latlon_candidate_def polygon_ok_def)
      qed
    qed
  next
    case False
    then show ?thesis using Cons n(1) by (cases n) (auto simp: parse_latlon_candidate_def Let_def)
  qed
qed (simp add: parse_latlon_candidate_def)

lemma candidates_polygon_ok:
  "\<exists>ps issues. parse_latlon_candidates cs = Ret (ps, issues) \<and> (\<forall>p \<in> set ps. polygon_ok p) \<and>
     length cs \<le> length ps + length issues \<and> length ps \<le> length cs"
proof (induction cs)
  case (Cons c cs)
  obtain p iss where p: "parse_latlon_candidate c = Ret (p, iss)" "\<forall>q. p = Some q \<longrightarrow> polygon_ok q" "p = None \<longrightarrow> iss \<noteq> []"
    using candidate_polygon_ok [of c] by blast
  then show ?case using Cons by (cases p) (auto simp: Suc_le_eq neq_Nil_conv)
qed simp

text \<open>
  C31.  Whatever the bulletin, the LAT...LON parser does not panic, every candidate gives a polygon or an
  issue, and every polygon is a closed ring of at least three points without NaN coordinates, in which
  no two edges cross when it has more than four points, with its WKT text.
\<close>

theorem latlon_polygons_closed:
  "\<exists>polygons issues. parse_latlon_polygons_with_issues s = Ret (polygons, issues) \<and>
     list_all polygon_ok polygons \<and>
     length polygons \<le> length (find_latlon_candidates (text_lines s)) \<and>
     length (find_latlon_candidates (text_lines s)) \<le> length polygons + length issues"
  using candidates_polygon_ok [of "find_latlon_candidates (text_lines s)"]
  by (auto simp: parse_latlon_polygons_with_issues_def list_all_iff)

end
