(* ===== verification/Parser_Motion.thy ===== *)
theory Parser_Motion
  imports Parser_LatLon
begin

text \<open>
  The parser of TIME...MOT...LOC entries (emwin-parser/src/body/time_mot_loc.rs): candidates over several lines, the
  time, direction and speed tokens, and the coordinate pairs with the repair of split and packed tokens.
  Slices by byte position are modelled with their panics; the calendar resolves the time of day.
\<close>

section \<open>Tokens\<close>

definition motion_marker :: str where
  "motion_marker = ''TIME...MOT...LOC''"

record time_mot_loc_entry =
  tm_time_utc :: datetime
  tm_direction_degrees :: u16
  tm_speed_kt :: u16
  tm_points :: "coord list"
  tm_wkt :: str

definition parse_time_shape :: "str \<Rightarrow> bool" where
  "parse_time_shape token \<longleftrightarrow> length token = 5 \<and> suffix ''Z'' token \<and> list_all is_digit (take 4 token)"

definition parse_time_token :: "calendar \<Rightarrow> str \<Rightarrow> datetime \<Rightarrow> datetime option" where
  "parse_time_token cal token reference_time =
     (if \<not> parse_time_shape token then None
      else case parse_u32 (take 2 token) of
          None \<Rightarrow> None
        | Some hour \<Rightarrow>
            (case parse_u32 (take 2 (drop 2 token)) of
               None \<Rightarrow> None
             | Some minute \<Rightarrow> resolve_clock_time_nearest cal reference_time (unat hour) (unat minute)))"

text \<open>A number with its unit, in one token or in two; the tokens that are left are returned with it.\<close>

definition parse_unit_token :: "str \<Rightarrow> str list \<Rightarrow> u16 option \<times> str list" where
  "parse_unit_token unit tokens =
     (case tokens of
        [] \<Rightarrow> (None, [])
      | token # rest \<Rightarrow>
          (case strip_suffix unit token of
             Some value \<Rightarrow> (parse_u16 value, rest)
           | None \<Rightarrow>
               (if list_all is_digit token
                then case rest of
                    [] \<Rightarrow> (None, [])
                  | u # rest \<Rightarrow> (if eq_ignore_ascii_case u unit then parse_u16 token else None, rest)
                else (None, rest))))"

definition parse_degrees_token :: "str list \<Rightarrow> u16 option \<times> str list" where
  "parse_degrees_token tokens = parse_unit_token ''DEG'' tokens"

definition parse_speed_token :: "str list \<Rightarrow> u16 option \<times> str list" where
  "parse_speed_token tokens = parse_unit_token ''KT'' tokens"

section \<open>Coordinates\<close>

definition motion_magnitude :: "str \<Rightarrow> bool \<Rightarrow> f64 option rust" where
  "motion_magnitude digits is_lat =
     (let degrees_digits = (if is_lat then 2 else 3) in
      if length digits = 4
      then try_opt (parse_slice digits 0 2) (\<lambda>degrees.
           try_opt (parse_slice digits 2 4) (\<lambda>hundredths.
           Ret (Some (f64_plus degrees (f64_divide hundredths (Finite 100))))))
      else if length digits = 5
      then try_opt (parse_slice digits 0 degrees_digits) (\<lambda>degrees.
           try_opt (parse_slice digits degrees_digits 5) (\<lambda>hundredths.
           Ret (Some (f64_plus degrees (f64_divide hundredths (Finite 100))))))
      else if length digits = 6
      then try_opt (parse_slice digits 0 degrees_digits) (\<lambda>degrees.
           try_opt (parse_slice digits degrees_digits 6) (\<lambda>minutes.
           Ret (Some (f64_plus degrees (f64_divide minutes (Finite 60))))))
      else if length digits = 8
      then try_opt (parse_slice digits 0 degrees_digits) (\<lambda>degrees.
           try_opt (parse_slice digits degrees_digits (degrees_digits + 2)) (\<lambda>whole_minutes.
           try_opt (parse_slice digits (degrees_digits + 2) 8) (\<lambda>hundredths.
           Ret (Some (f64_plus degrees
             (f64_divide (f64_plus whole_minutes (f64_divide hundredths (Finite 100))) (Finite 60)))))))
      else Ret None)"

definition motion_parse_coordinate :: "str \<Rightarrow> bool \<Rightarrow> f64 option rust" where
  "motion_parse_coordinate s is_lat =
     (let digits = trim_start_matches (\<lambda>c. c = CHR ''-'') (trim s) in
      try_opt (motion_magnitude digits is_lat) (\<lambda>value. Ret (Some (if \<not> is_lat then f64_neg value else value))))"

fun motion_consume_token :: "str \<Rightarrow> str list \<Rightarrow> (str \<times> str list) option" where
  "motion_consume_token token [] = None"
| "motion_consume_token token (piece # pieces) =
     (let token = token @ trim piece in
      if 4 \<le> length token \<and> length token \<le> 8 then Some (token, pieces)
      else if length token > 8 then None
      else motion_consume_token token pieces)"

definition motion_split_packed :: "str list \<Rightarrow> str \<Rightarrow> (str \<times> str) option rust" where
  "motion_split_packed normalized token =
     (if length token \<noteq> 8 \<or> odd (length normalized) then Ret None
      else rbind (slice token 0 4) (\<lambda>lat. rbind (slice token 4 8) (\<lambda>lon.
        try_opt (motion_parse_coordinate lat True) (\<lambda>_.
        try_opt (motion_parse_coordinate lon False) (\<lambda>_. Ret (Some (lat, lon)))))))"

lemma motion_consume_shorter: "motion_consume_token token pieces = Some (t, rest) \<Longrightarrow> length rest < length pieces"
  by (induction token pieces rule: motion_consume_token.induct) (auto simp: Let_def split: if_splits)

function motion_normalize :: "str list \<Rightarrow> str list \<Rightarrow> str list option rust" where
  "motion_normalize [] normalized = Ret (Some normalized)"
| "motion_normalize (t # ts) normalized =
     (case motion_consume_token [] (t # ts) of
        None \<Rightarrow> Ret None
      | Some (token, rest) \<Rightarrow>
          rbind (motion_split_packed normalized token) (\<lambda>packed.
            case packed of
              Some (lat, lon) \<Rightarrow> motion_normalize rest (normalized @ [lat, lon])
            | None \<Rightarrow> motion_normalize rest (normalized @ [token])))"
  by pat_completeness auto
termination
proof (relation "measure (\<lambda>(ts, _). length ts)", goal_cases)
  case 1
  show ?case by (rule wf_measure)
qed (auto dest: motion_consume_shorter simp del: motion_consume_token.simps)

declare motion_normalize.simps(2) [simp del]

section \<open>Candidates\<close>

definition candidate_has_parseable_prefix :: "str \<Rightarrow> bool" where
  "candidate_has_parseable_prefix raw =
     (case split_whitespace raw of
        marker # time # rest \<Rightarrow>
          (let (degrees, rest) = parse_degrees_token rest; (speed, rest) = parse_speed_token rest
           in degrees \<noteq> None \<and> speed \<noteq> None \<and> eq_ignore_ascii_case marker motion_marker \<and> parse_time_shape time)
      | _ \<Rightarrow> False)"

definition has_odd_coordinate_tail :: "str \<Rightarrow> bool" where
  "has_odd_coordinate_tail raw =
     (let rest = snd (parse_speed_token (snd (parse_degrees_token (drop 2 (split_whitespace raw)))))
      in length rest > 0 \<and> odd (length rest))"

definition motion_coordinate_line :: "str \<Rightarrow> bool" where
  "motion_coordinate_line line \<longleftrightarrow> list_all (\<lambda>token. token \<noteq> [] \<and> list_all is_digit token) (split_whitespace line)"

definition motion_section_header :: "str \<Rightarrow> bool" where
  "motion_section_header line =
     (let trimmed = trim line in
      trimmed \<noteq> [] \<and> \<not> motion_coordinate_line trimmed \<and>
      (contains_dots trimmed \<or> prefix ''/'' trimmed \<or>
       (case split_whitespace trimmed of [] \<Rightarrow> False | token # _ \<Rightarrow> list_all is_upper token \<and> length token \<ge> 3)))"

definition motion_stops :: "str \<Rightarrow> bool" where
  "motion_stops line \<longleftrightarrow>
     line = [] \<or> ascii_find_case_insensitive line motion_marker \<noteq> None \<or>
     (motion_section_header line \<and> \<not> motion_coordinate_line line)"

fun collect_motion_lines :: "str \<Rightarrow> str list \<Rightarrow> str \<times> str list" where
  "collect_motion_lines raw [] = (raw, [])"
| "collect_motion_lines raw (l # ls) =
     (let next_line = trim l in
      if motion_stops next_line then (raw, l # ls)
      else
        let raw = (if raw = [] then raw else raw @ '' '') @ next_line in
        if candidate_has_parseable_prefix raw \<and> \<not> has_odd_coordinate_tail raw
        then case ls of
            [] \<Rightarrow> (raw, [])
          | p # _ \<Rightarrow> if motion_stops (trim p) then (raw, ls) else collect_motion_lines raw ls
        else collect_motion_lines raw ls)"

declare collect_motion_lines.simps(2) [simp del]

definition collect_time_mot_loc_candidate :: "str \<Rightarrow> str list \<Rightarrow> str option \<times> str list" where
  "collect_time_mot_loc_candidate raw ls =
     (let (raw, rest) = collect_motion_lines raw ls
      in (if candidate_has_parseable_prefix raw then Some raw else None, rest))"

lemma collect_motion_shorter: "length (snd (collect_motion_lines raw ls)) \<le> length ls"
proof (induction ls arbitrary: raw)
  case (Cons l ls)
  then show ?case
    by (cases ls) (auto simp: collect_motion_lines.simps(2) [of _ l] Let_def le_SucI)
qed simp

lemma collect_candidate_shorter: "length (snd (collect_time_mot_loc_candidate raw ls)) \<le> length ls"
  using collect_motion_shorter [of raw ls] by (simp add: collect_time_mot_loc_candidate_def split_beta)

record motion_candidate =
  mc_raw :: str
  mc_source_line :: str
  mc_marker_was_embedded :: bool

function find_time_mot_loc_candidates :: "str list \<Rightarrow> motion_candidate list" where
  "find_time_mot_loc_candidates [] = []"
| "find_time_mot_loc_candidates (line # ls) =
     (case ascii_find_case_insensitive line motion_marker of
        None \<Rightarrow> find_time_mot_loc_candidates ls
      | Some marker_position \<Rightarrow>
          (let candidate = collect_time_mot_loc_candidate (trim (drop marker_position line)) ls
           in (case fst candidate of
                 None \<Rightarrow> []
               | Some raw \<Rightarrow> [\<lparr>mc_raw = raw, mc_source_line = line, mc_marker_was_embedded = (marker_position > 0)\<rparr>])
              @ find_time_mot_loc_candidates (snd candidate)))"
  by pat_completeness auto
termination
  by (relation "measure length") (simp_all add: less_Suc_eq_le collect_candidate_shorter)

function count_line_markers :: "str \<Rightarrow> nat" where
  "count_line_markers search =
     (case ascii_find_case_insensitive search motion_marker of
        None \<Rightarrow> 0
      | Some k \<Rightarrow> Suc (count_line_markers (drop (k + length motion_marker) search)))"
  by pat_completeness auto
termination
  by (relation "measure length")
    (auto simp: ascii_find_case_insensitive_def motion_marker_def split: if_splits)

declare count_line_markers.simps [simp del]

definition count_markers :: "str list \<Rightarrow> nat" where
  "count_markers ls = sum_list (map count_line_markers ls)"

section \<open>Entries\<close>

definition motion_issue :: "str \<Rightarrow> str \<Rightarrow> str \<Rightarrow> parse_issue" where
  "motion_issue code message raw = issue_new ''time_mot_loc_parse'' code message (Some raw)"

definition motion_line_issue :: "str \<Rightarrow> str \<Rightarrow> str \<Rightarrow> parse_issue" where
  "motion_line_issue code what raw = motion_issue code (''could not '' @ what @ '' line: `'' @ raw @ ''`'') raw"

definition motion_format_issue :: "str \<Rightarrow> parse_issue" where
  "motion_format_issue raw = motion_line_issue ''invalid_time_mot_loc_format'' ''parse TIME...MOT...LOC'' raw"

definition motion_field_issue :: "str \<Rightarrow> str \<Rightarrow> parse_issue" where
  "motion_field_issue name raw =
     motion_line_issue (''invalid_time_mot_loc_'' @ name) (''parse TIME...MOT...LOC '' @ name @ '' from'') raw"

definition motion_normalize_issue :: "str \<Rightarrow> parse_issue" where
  "motion_normalize_issue raw =
     motion_line_issue ''invalid_time_mot_loc_coordinate_format'' ''normalize TIME...MOT...LOC coordinates from'' raw"

definition motion_count_issue :: "str \<Rightarrow> parse_issue" where
  "motion_count_issue raw =
     motion_issue ''invalid_time_mot_loc_coordinate_count''
       (''TIME...MOT...LOC line has an invalid coordinate count: `'' @ raw @ ''`'') raw"

definition dangling_issue :: "str \<Rightarrow> str \<Rightarrow> parse_issue" where
  "dangling_issue dropped raw =
     motion_issue ''time_mot_loc_truncated_dangling_coordinate''
       (''dropped dangling TIME...MOT...LOC coordinate token `'' @ dropped @ ''` after source formatting loss'') raw"

fun motion_points :: "str \<Rightarrow> str list \<Rightarrow> (parse_issue + coord list) rust" where
  "motion_points raw (a # b # rest) =
     rbind (motion_parse_coordinate a True) (\<lambda>lat.
       case lat of
         None \<Rightarrow> Ret (Inl (motion_field_issue ''latitude'' raw))
       | Some lat \<Rightarrow>
           rbind (motion_parse_coordinate b False) (\<lambda>lon.
             case lon of
               None \<Rightarrow> Ret (Inl (motion_field_issue ''longitude'' raw))
             | Some lon \<Rightarrow>
                 rbind (motion_points raw rest) (\<lambda>points.
                   Ret (case points of Inl issue \<Rightarrow> Inl issue | Inr points \<Rightarrow> Inr ((lat, lon) # points)))))"
| "motion_points raw _ = Ret (Inr [])"

definition motion_coordinates :: "str \<Rightarrow> str list \<Rightarrow> (parse_issue + coord list \<times> parse_issue list) rust" where
  "motion_coordinates raw tokens =
     rbind (motion_normalize tokens []) (\<lambda>normalized.
       case normalized of
         None \<Rightarrow> Ret (Inl (motion_normalize_issue raw))
       | Some coords \<Rightarrow>
           (let odd_count = odd (length coords);
                issues = (if odd_count then [dangling_issue (last coords) raw] else []);
                coords = (if odd_count then butlast coords else coords)
            in if length coords < 2 then Ret (Inl (motion_count_issue raw))
               else rbind (motion_points raw coords) (\<lambda>points.
                 Ret (case points of Inl issue \<Rightarrow> Inl issue | Inr points \<Rightarrow> Inr (points, issues)))))"

definition parse_time_mot_loc_candidate ::
    "calendar \<Rightarrow> motion_candidate \<Rightarrow> datetime \<Rightarrow> (parse_issue + time_mot_loc_entry \<times> parse_issue list) rust" where
  "parse_time_mot_loc_candidate cal candidate reference_time =
     (let raw = trim (mc_raw candidate) in
      case split_whitespace raw of
        [] \<Rightarrow> Ret (Inl (motion_format_issue raw))
      | marker # tokens \<Rightarrow>
          if \<not> eq_ignore_ascii_case marker motion_marker then Ret (Inl (motion_format_issue raw))
          else case tokens of
              [] \<Rightarrow> Ret (Inl (motion_format_issue raw))
            | time_token # tokens \<Rightarrow>
                (case parse_time_token cal time_token reference_time of
                   None \<Rightarrow> Ret (Inl (motion_field_issue ''time'' raw))
                 | Some time_utc \<Rightarrow>
                     (case parse_degrees_token tokens of
                        (None, _) \<Rightarrow> Ret (Inl (motion_field_issue ''direction'' raw))
                      | (Some direction, tokens) \<Rightarrow>
                          (case parse_speed_token tokens of
                             (None, _) \<Rightarrow> Ret (Inl (motion_field_issue ''speed'' raw))
                           | (Some speed, tokens) \<Rightarrow>
                               rbind (motion_coordinates raw tokens) (\<lambda>r.
                                 Ret (case r of
                                   Inl issue \<Rightarrow> Inl issue
                                 | Inr (points, issues) \<Rightarrow>
                                     Inr (\<lparr>tm_time_utc = time_utc, tm_direction_degrees = direction, tm_speed_kt = speed,
                                           tm_points = points, tm_wkt = format_linestring_wkt points\<rparr>, issues)))))))"

definition embedded_issue :: "str \<Rightarrow> parse_issue" where
  "embedded_issue line =
     motion_issue ''time_mot_loc_poorly_formatted'' ''TIME...MOT...LOC marker was not line-aligned in the source text'' line"

definition unmatched_marker_issue :: parse_issue where
  "unmatched_marker_issue =
     issue_new ''time_mot_loc_parse'' ''time_mot_loc_regex_failed_after_marker''
       ''found TIME...MOT...LOC marker but could not match the expected field layout'' None"

fun parse_motion_candidates ::
    "calendar \<Rightarrow> datetime \<Rightarrow> motion_candidate list \<Rightarrow> (time_mot_loc_entry list \<times> parse_issue list) rust" where
  "parse_motion_candidates cal reference_time [] = Ret ([], [])"
| "parse_motion_candidates cal reference_time (c # cs) =
     rbind (parse_time_mot_loc_candidate cal c reference_time) (\<lambda>r.
       rbind (parse_motion_candidates cal reference_time cs) (\<lambda>(entries, issues).
         let embedded = (if mc_marker_was_embedded c then [embedded_issue (mc_source_line c)] else [])
         in Ret (case r of
              Inl issue \<Rightarrow> (entries, embedded @ [issue] @ issues)
            | Inr (entry, parse_issues) \<Rightarrow> (entry # entries, embedded @ parse_issues @ issues))))"

definition parse_time_mot_loc_entries_with_issues ::
    "calendar \<Rightarrow> str \<Rightarrow> datetime \<Rightarrow> (time_mot_loc_entry list \<times> parse_issue list) rust" where
  "parse_time_mot_loc_entries_with_issues cal s reference_time =
     (let lines = text_lines s; candidates = find_time_mot_loc_candidates lines
      in rbind (parse_motion_candidates cal reference_time candidates) (\<lambda>(entries, issues).
           Ret (entries, issues @ (if count_markers lines > length candidates then [unmatched_marker_issue] else []))))"

definition parse_time_mot_loc_entries :: "calendar \<Rightarrow> str \<Rightarrow> datetime \<Rightarrow> time_mot_loc_entry list rust" where
  "parse_time_mot_loc_entries cal s reference_time =
     rbind (parse_time_mot_loc_entries_with_issues cal s reference_time) (\<lambda>(entries, _). Ret entries)"

text \<open>\<^verbatim>\<open>TimeMotLocEntry::from_parts\<close>.\<close>

definition entry_from_parts :: "datetime \<Rightarrow> u16 \<Rightarrow> u16 \<Rightarrow> coord list \<Rightarrow> time_mot_loc_entry" where
  "entry_from_parts time_utc direction speed points =
     \<lparr>tm_time_utc = time_utc, tm_direction_degrees = direction, tm_speed_kt = speed, tm_points = points,
      tm_wkt = format_linestring_wkt points\<rparr>"

text \<open>An eight-byte token with a character across its middle is not rejected but panics.\<close>

lemma motion_split_panics:
  "length t = 8 \<Longrightarrow> even (length normalized) \<Longrightarrow> \<not> is_char_boundary t 4 \<Longrightarrow> motion_split_packed normalized t = Panic"
  by (simp add: motion_split_packed_def slice_def)

end
