(* ===== verification/Parser_Hail.thy ===== *)
theory Parser_Hail
  imports Rust_F64 Parser_Ugc
begin

text \<open>
  The parser of wind and hail tags (emwin-parser/src/body/wind_hail.rs): the legacy pair, whose regular expression
  is matched by hand, and the modern tags, one per line.  Every part of the expression starts with a
  character its predecessor cannot match, so the matcher needs no backtracking; letters match in both
  cases, and \<^verbatim>\<open>K\<close> and \<^verbatim>\<open>S\<close> also in their Unicode case variants.
\<close>

datatype wind_hail_kind = LegacyWind | LegacyHail | WindThreat | MaxWindGust | HailThreat | MaxHailSize

record wind_hail_entry =
  wd_kind :: wind_hail_kind
  wd_numeric_value :: "f64 option"
  wd_units :: "str option"
  wd_comparison :: "char option"

section \<open>The legacy pair\<close>

fun strip_ci :: "str \<Rightarrow> str \<Rightarrow> str option" where
  "strip_ci [] s = Some s"
| "strip_ci (p # ps) s =
     (case s of
        [] \<Rightarrow> None
      | c # r \<Rightarrow>
          if to_upper c = p then strip_ci ps r
          else if p = CHR ''S'' \<and> prefix [CHR 0xC5, CHR 0xBF] s then strip_ci ps (drop 2 s)
          else if p = CHR ''K'' \<and> prefix [CHR 0xE2, CHR 0x84, CHR 0xAA] s then strip_ci ps (drop 3 s)
          else None)"

text \<open>The optional comparison sign, with white space around it.\<close>

definition strip_comparison :: "str \<Rightarrow> char option \<times> str" where
  "strip_comparison s =
     (case trim_start s of
        c # r \<Rightarrow> if c = CHR ''<'' \<or> c = CHR ''>'' then (Some c, trim_start r) else (None, c # r)
      | [] \<Rightarrow> (None, []))"

definition strip_some :: "(char \<Rightarrow> bool) \<Rightarrow> str \<Rightarrow> (str \<times> str) option" where
  "strip_some P s = (if takeWhile P s = [] then None else Some (takeWhile P s, dropWhile P s))"

definition strip_units :: "str \<Rightarrow> (str \<times> str) option" where
  "strip_units s =
     (case strip_ci ''MPH'' s of
        Some r \<Rightarrow> Some (take (length s - length r) s, r)
      | None \<Rightarrow> map_option (\<lambda>r. (take (length s - length r) s, r)) (strip_ci ''KTS'' s))"

record legacy_match =
  lg_raw :: str
  lg_wind_comparison :: "char option"
  lg_wind_value :: str
  lg_wind_units :: str
  lg_hail_comparison :: "char option"
  lg_hail_value :: str

definition legacy_at :: "str \<Rightarrow> (legacy_match \<times> str) option" where
  "legacy_at s =
     (case strip_ci ''WIND...'' s of None \<Rightarrow> None | Some r1 \<Rightarrow>
      let (wind_cmp, r2) = strip_comparison r1 in
      case strip_some is_digit r2 of None \<Rightarrow> None | Some (wind, r3) \<Rightarrow>
      case strip_units (trim_start r3) of None \<Rightarrow> None | Some (units, r4) \<Rightarrow>
      if trim_start r4 = r4 then None else
      case strip_ci ''HAIL...'' (trim_start r4) of None \<Rightarrow> None | Some r5 \<Rightarrow>
      let (hail_cmp, r6) = strip_comparison r5 in
      case strip_some (\<lambda>c. is_digit c \<or> c = CHR ''.'') r6 of None \<Rightarrow> None | Some (hail, r7) \<Rightarrow>
      case strip_ci ''IN'' (trim_start r7) of None \<Rightarrow> None | Some r8 \<Rightarrow>
      Some (\<lparr>lg_raw = take (length s - length r8) s, lg_wind_comparison = wind_cmp, lg_wind_value = wind,
             lg_wind_units = units, lg_hail_comparison = hail_cmp, lg_hail_value = hail\<rparr>, r8))"

text \<open>\<^verbatim>\<open>captures_iter\<close>: the leftmost match, then the matches after its end.\<close>

fun legacy_skip :: "nat \<Rightarrow> str \<Rightarrow> legacy_match list" where
  "legacy_skip k [] = []"
| "legacy_skip (Suc k) (c # s) = legacy_skip k s"
| "legacy_skip 0 (c # s) =
     (case legacy_at (c # s) of
        None \<Rightarrow> legacy_skip 0 s
      | Some (m, rest) \<Rightarrow> m # legacy_skip (length s - length rest) s)"

definition legacy_captures :: "str \<Rightarrow> legacy_match list" where
  "legacy_captures s = legacy_skip 0 s"

definition invalid_wind_hail_issue :: "str \<Rightarrow> parse_issue" where
  "invalid_wind_hail_issue raw =
     issue_new ''wind_hail_parse'' ''invalid_wind_hail_format'' (''could not parse wind/hail line: `'' @ raw @ ''`'') (Some raw)"

definition invalid_numeric_issue :: "str \<Rightarrow> str \<Rightarrow> parse_issue" where
  "invalid_numeric_issue code raw =
     issue_new ''wind_hail_parse'' code (''could not parse wind/hail value from line: `'' @ raw @ ''`'') (Some raw)"

definition legacy_entries :: "legacy_match \<Rightarrow> parse_issue + wind_hail_entry list" where
  "legacy_entries m =
     (case (parse_f64 (lg_wind_value m), parse_f64 (lg_hail_value m)) of
        (Some wind, Some hail) \<Rightarrow>
          Inr [\<lparr>wd_kind = LegacyWind, wd_numeric_value = Some wind, wd_units = Some (to_ascii_uppercase (lg_wind_units m)),
                wd_comparison = lg_wind_comparison m\<rparr>,
               \<lparr>wd_kind = LegacyHail, wd_numeric_value = Some hail, wd_units = Some ''IN'',
                wd_comparison = lg_hail_comparison m\<rparr>]
      | _ \<Rightarrow> Inl (invalid_wind_hail_issue (lg_raw m)))"

definition parse_legacy_wind_hail :: "str \<Rightarrow> wind_hail_entry list \<times> parse_issue list" where
  "parse_legacy_wind_hail s =
     (let results = map legacy_entries (legacy_captures s)
      in (concat (map (case_sum (\<lambda>_. []) id) results), concat (map (case_sum (\<lambda>i. [i]) (\<lambda>_. [])) results)))"

section \<open>Modern tags\<close>

definition normalize_modern_label :: "str \<Rightarrow> str" where
  "normalize_modern_label label = to_ascii_uppercase (compact_ugc_text label)"

lemma strip_suffix_shorter: "strip_suffix p s = Some r \<Longrightarrow> p \<noteq> [] \<Longrightarrow> length (trim_end r) < length s"
  using prefix_length_le [OF prefix_trim_end [of r]] suffix_length_le [of p s]
  by (cases p; auto simp: strip_suffix_def split: if_splits)

function strip_terminators :: "str \<Rightarrow> str" where
  "strip_terminators s =
     (case strip_suffix ''$$'' s of
        Some r \<Rightarrow> strip_terminators (trim_end r)
      | None \<Rightarrow>
          (case strip_suffix ''&&'' s of
             Some r \<Rightarrow> strip_terminators (trim_end r)
           | None \<Rightarrow> s))"
  by pat_completeness auto
termination
  by (relation "measure length") (auto dest: strip_suffix_shorter)

declare strip_terminators.simps [simp del]

definition normalize_modern_value :: "str \<Rightarrow> str" where
  "normalize_modern_value value =
     trim_end (trim_end_matches (\<lambda>c. c \<in> {CHR ''.'', CHR '','', CHR '';'', CHR '':''}) (strip_terminators (trim value)))"

definition find_units :: "str list \<Rightarrow> str \<Rightarrow> str \<Rightarrow> (str \<times> str) option" where
  "find_units allowed numeric units =
     (case find (\<lambda>a. a = to_ascii_uppercase units) allowed of None \<Rightarrow> None | Some a \<Rightarrow> Some (numeric, a))"

definition split_numeric_and_units :: "str \<Rightarrow> str list \<Rightarrow> (str \<times> str) option" where
  "split_numeric_and_units value allowed =
     (case split_whitespace value of
        [] \<Rightarrow> None
      | [first] \<Rightarrow>
          (case position (\<lambda>c. is_upper c \<or> is_lower c) first of
             None \<Rightarrow> None
           | Some k \<Rightarrow> if k > 0 then find_units allowed (take k first) (drop k first) else None)
      | [first, second] \<Rightarrow> find_units allowed first second
      | _ \<Rightarrow> None)"

definition parse_numeric_value ::
    "str \<Rightarrow> wind_hail_kind \<Rightarrow> str list \<Rightarrow> str \<Rightarrow> str \<Rightarrow> parse_issue + wind_hail_entry" where
  "parse_numeric_value value kind allowed error_code raw =
     (let value = normalize_modern_value value;
          comparison = (if prefix ''<'' value \<or> prefix ''>'' value then Some (hd value) else None);
          remainder = (if comparison \<noteq> None then trim (tl value) else value)
      in case split_numeric_and_units remainder allowed of
          None \<Rightarrow> Inl (invalid_numeric_issue error_code raw)
        | Some (numeric, units) \<Rightarrow>
            (case parse_f64 numeric of
               None \<Rightarrow> Inl (invalid_numeric_issue error_code raw)
             | Some v \<Rightarrow>
                 Inr \<lparr>wd_kind = kind, wd_numeric_value = Some v, wd_units = Some units, wd_comparison = comparison\<rparr>))"

definition threat_entry :: "wind_hail_kind \<Rightarrow> wind_hail_entry" where
  "threat_entry kind = \<lparr>wd_kind = kind, wd_numeric_value = None, wd_units = None, wd_comparison = None\<rparr>"

definition parse_modern_wind_hail_line :: "str \<Rightarrow> parse_issue + wind_hail_entry option" where
  "parse_modern_wind_hail_line line =
     (if line = [] then Inr None
      else case find_sub ''...'' line of
          None \<Rightarrow> Inr None
        | Some k \<Rightarrow>
            (let label = normalize_modern_label (take k line); value = trim (drop (k + 3) line)
             in if label = ''HAILTHREAT'' then Inr (Some (threat_entry HailThreat))
                else if label = ''WINDTHREAT'' then Inr (Some (threat_entry WindThreat))
                else if label = ''HAIL'' \<or> label = ''MAXHAILSIZE''
                     then map_sum id Some (parse_numeric_value value MaxHailSize [''IN''] ''invalid_wind_hail_hail_value'' line)
                else if label = ''WIND'' \<or> label = ''MAXWINDGUST''
                     then map_sum id Some (parse_numeric_value value MaxWindGust [''MPH'', ''KTS''] ''invalid_wind_hail_wind_value'' line)
                else Inr None))"

definition parse_wind_hail_entries_with_issues :: "str \<Rightarrow> wind_hail_entry list \<times> parse_issue list" where
  "parse_wind_hail_entries_with_issues s =
     (let (legacy, legacy_issues) = parse_legacy_wind_hail s;
          modern = map (\<lambda>l. parse_modern_wind_hail_line (trim l)) (text_lines s)
      in (legacy @ concat (map (case_sum (\<lambda>_. []) (case_option [] (\<lambda>e. [e]))) modern),
          legacy_issues @ concat (map (case_sum (\<lambda>i. [i]) (\<lambda>_. [])) modern)))"

definition parse_wind_hail_entries :: "str \<Rightarrow> wind_hail_entry list" where
  "parse_wind_hail_entries s = fst (parse_wind_hail_entries_with_issues s)"

text \<open>\<^verbatim>\<open>WindHailEntry::new\<close>.\<close>

definition wind_hail_entry_new :: "wind_hail_kind \<Rightarrow> f64 option \<Rightarrow> str option \<Rightarrow> char option \<Rightarrow> wind_hail_entry" where
  "wind_hail_entry_new kind value units comparison =
     \<lparr>wd_kind = kind, wd_numeric_value = value, wd_units = units, wd_comparison = comparison\<rparr>"

text \<open>A line with a legacy pair, which the legacy parser reads, is also reported as a bad wind value.\<close>

lemma legacy_pair_reported:
  "parse_modern_wind_hail_line ''WIND...60MPH HAIL...1.00IN'' =
     Inl (invalid_numeric_issue ''invalid_wind_hail_wind_value'' ''WIND...60MPH HAIL...1.00IN'')"
  by code_simp

end
