(* ===== verification/Parser_Body.thy ===== *)
theory Parser_Body
  imports Parser_Codes Parser_Motion Parser_Hail
begin

text \<open>
  The body of a product (emwin-parser/src/body/vtec_events.rs and body/enrich.rs): the segmentation of a bulletin
  with VTEC codes, the parse of each segment by the VTEC, HVTEC, UGC, polygon, motion and hail parsers
  with its quality checks, the extraction plan for other products, and the views of a body by points and
  polygons.  The calendar and the tables of zones and river gauges are parameters; the parser of CAP
  messages is an argument, which \<open>Parser_Cap\<close> defines.
\<close>

section \<open>Bodies\<close>

record nwslid_entry =
  ne_nwslid :: str
  ne_state_code :: str
  ne_stream_name :: str
  ne_proximity :: str
  ne_place_name :: str
  ne_latitude :: f64
  ne_longitude :: f64

type_synonym ugc_sec = "f64 ugc_section"
type_synonym hvtec = "nwslid_entry hvtec_code"

record vtec_event_segment =
  vs_segment_index :: nat
  vs_vtec :: "vtec_code list"
  vs_ugc_sections :: "ugc_sec list"
  vs_hvtec :: "hvtec list"
  vs_polygons :: "latlon_polygon list"
  vs_time_mot_loc :: "time_mot_loc_entry list"
  vs_wind_hail :: "wind_hail_entry list"

record generic_body =
  gn_ugc :: "ugc_sec list option"
  gn_latlon :: "latlon_polygon list option"
  gn_time_mot_loc :: "time_mot_loc_entry list option"
  gn_wind_hail :: "wind_hail_entry list option"

datatype product_body = VtecEventBody (vb_segments: "vtec_event_segment list") | GenericBody generic_body

fun as_vtec_event :: "product_body \<Rightarrow> vtec_event_segment list option" where
  "as_vtec_event (VtecEventBody segments) = Some segments"
| "as_vtec_event (GenericBody b) = None"

fun as_generic :: "product_body \<Rightarrow> generic_body option" where
  "as_generic (VtecEventBody segments) = None"
| "as_generic (GenericBody b) = Some b"

definition opt_list :: "'a list option \<Rightarrow> 'a list" where
  "opt_list o' = (case o' of None \<Rightarrow> [] | Some xs \<Rightarrow> xs)"

record parsed_polygon =
  pp_points :: "coord list"
  pp_bounds :: "geo_bounds option"

definition parsed_polygon_of :: "latlon_polygon \<Rightarrow> parsed_polygon" where
  "parsed_polygon_of p = \<lparr>pp_points = lp_points p, pp_bounds = polygon_bounds (lp_points p)\<rparr>"

fun iter_polygons :: "product_body \<Rightarrow> parsed_polygon list" where
  "iter_polygons (VtecEventBody segments) = concat (map (\<lambda>s. map parsed_polygon_of (vs_polygons s)) segments)"
| "iter_polygons (GenericBody b) = map parsed_polygon_of (opt_list (gn_latlon b))"

definition entry_points :: "time_mot_loc_entry list \<Rightarrow> geo_point list" where
  "entry_points entries = concat (map (\<lambda>e. map geo_at (tm_points e)) entries)"

definition area_point :: "f64 ugc_area \<Rightarrow> geo_point option" where
  "area_point a =
     (case (ua_lat a, ua_lon a) of (Some lat, Some lon) \<Rightarrow> Some \<lparr>gp_lat = lat, gp_lon = lon\<rparr> | _ \<Rightarrow> None)"

definition section_points :: "ugc_sec \<Rightarrow> geo_point list" where
  "section_points s =
     List.map_filter area_point
       (concat (map snd (us_counties s @ us_zones s @ us_fire_zones s @ us_marine_zones s)))"

definition gauge_points :: "hvtec list \<Rightarrow> geo_point list" where
  "gauge_points codes =
     List.map_filter (\<lambda>c. map_option (\<lambda>l. \<lparr>gp_lat = ne_latitude l, gp_lon = ne_longitude l\<rparr>) (hv_location c)) codes"

definition segment_points :: "vtec_event_segment \<Rightarrow> geo_point list" where
  "segment_points s =
     entry_points (vs_time_mot_loc s) @ concat (map section_points (vs_ugc_sections s)) @ gauge_points (vs_hvtec s)"

definition generic_points :: "generic_body \<Rightarrow> geo_point list" where
  "generic_points b =
     entry_points (opt_list (gn_time_mot_loc b)) @ concat (map section_points (opt_list (gn_ugc b)))"

fun iter_location_points :: "product_body \<Rightarrow> geo_point list" where
  "iter_location_points (VtecEventBody segments) = concat (map segment_points segments)"
| "iter_location_points (GenericBody b) = generic_points b"

section \<open>Segmentation\<close>

record body_env =
  be_calendar :: calendar
  be_catalog :: "f64 catalog"
  be_gauges :: "str \<Rightarrow> nwslid_entry option"

definition line_has_vtec :: "body_env \<Rightarrow> str \<Rightarrow> bool" where
  "line_has_vtec env line \<longleftrightarrow> fst (parse_vtec_codes_with_issues (be_calendar env) line) \<noteq> []"

definition line_has_time_mot_loc :: "str \<Rightarrow> bool" where
  "line_has_time_mot_loc line \<longleftrightarrow> prefix ''TIME...MOT...LOC'' (to_ascii_uppercase (trim_start line))"

definition line_has_geography :: "str \<Rightarrow> bool" where
  "line_has_geography line =
     (let upper = to_ascii_uppercase (trim_start line)
      in prefix ''LAT...LON'' upper \<or> prefix ''TIME...MOT...LOC'' upper)"

definition line_has_wind_hail :: "str \<Rightarrow> bool" where
  "line_has_wind_hail line =
     (let upper = to_ascii_uppercase (trim_start line)
      in prefix ''HAILTHREAT'' upper \<or> prefix ''MAXHAILSIZE'' upper \<or> prefix ''WINDTHREAT'' upper \<or>
         prefix ''MAXWINDGUST'' upper)"

definition looks_like_event_content :: "body_env \<Rightarrow> str \<Rightarrow> bool" where
  "looks_like_event_content env line \<longleftrightarrow>
     is_ugc_start line \<or> line_has_vtec env line \<or> line_has_geography line \<or> line_has_wind_hail line \<or>
     fst (parse_hvtec_codes_with_issues (be_calendar env) (be_gauges env) line) \<noteq> []"

definition push_vtec_segment :: "body_env \<Rightarrow> str list \<Rightarrow> str list \<Rightarrow> str list" where
  "push_vtec_segment env segments current =
     (if current = [] then segments
      else
        let joined = join [CHR 0x0A] current in
        if fst (parse_vtec_codes_with_issues (be_calendar env) joined) \<noteq> [] then segments @ [joined] else segments)"

fun split_segments :: "body_env \<Rightarrow> str list \<Rightarrow> str list \<Rightarrow> str list \<Rightarrow> bool \<Rightarrow> bool \<Rightarrow> str list" where
  "split_segments env [] segments current has_vtec has_geography = push_vtec_segment env segments current"
| "split_segments env (line # ls) segments current has_vtec has_geography =
     (let trimmed = trim_end line in
      if trim trimmed = ''$$'' then split_segments env ls (push_vtec_segment env segments current) [] False False
      else
        let boundary = (current \<noteq> [] \<and> has_vtec \<and>
              (is_ugc_start trimmed \<or> (line_has_vtec env trimmed \<and> has_geography)));
            segments = (if boundary then push_vtec_segment env segments current else segments);
            current = (if boundary then [] else current);
            has_vtec = (has_vtec \<and> \<not> boundary);
            has_geography = (has_geography \<and> \<not> boundary)
        in if current = [] \<and> \<not> looks_like_event_content env trimmed
           then split_segments env ls segments current has_vtec has_geography
           else if trim trimmed = [] \<and> current = []
           then split_segments env ls segments current has_vtec has_geography
           else split_segments env ls segments (current @ [trimmed])
                  (has_vtec \<or> line_has_vtec env trimmed) (has_geography \<or> line_has_geography trimmed))"

definition split_vtec_segments :: "body_env \<Rightarrow> str \<Rightarrow> str list" where
  "split_vtec_segments env s = split_segments env (text_lines (filter (\<lambda>c. c \<noteq> CHR 0x0D) s)) [] [] False False"

section \<open>Quality checks\<close>

definition canonical_code :: "char \<Rightarrow> str \<Rightarrow> f64 ugc_area \<Rightarrow> str" where
  "canonical_code class_code state area = state @ [class_code] @ pad0 3 (show_nat (unat (ua_id area)))"

definition canonical_codes :: "char \<Rightarrow> f64 bucket \<Rightarrow> str list" where
  "canonical_codes class_code groups = concat (map (\<lambda>(state, areas). map (canonical_code class_code state) areas) groups)"

text \<open>The sets of seen and of duplicated codes.\<close>

definition note_code :: "str set \<times> str set \<Rightarrow> str \<Rightarrow> str set \<times> str set" where
  "note_code s code =
     (let (seen, duplicates) = s in (insert code seen, if code \<in> seen then insert code duplicates else duplicates))"

definition collect_duplicate_ugc_codes :: "f64 bucket \<Rightarrow> char \<Rightarrow> str set \<times> str set \<Rightarrow> str set \<times> str set" where
  "collect_duplicate_ugc_codes groups class_code s = foldl note_code s (canonical_codes class_code groups)"

definition section_duplicates :: "ugc_sec \<Rightarrow> str set \<times> str set \<Rightarrow> str set \<times> str set" where
  "section_duplicates sec s =
     (let s = collect_duplicate_ugc_codes (us_counties sec) CHR ''C'' s;
          s = collect_duplicate_ugc_codes (us_zones sec) CHR ''Z'' s;
          s = collect_duplicate_ugc_codes (us_fire_zones sec) CHR ''F'' s
      in collect_duplicate_ugc_codes (us_marine_zones sec) CHR ''M'' s)"

definition find_segment_duplicate_ugc_codes :: "vtec_event_segment \<Rightarrow> str list" where
  "find_segment_duplicate_ugc_codes segment =
     sorted_list_of_set (snd (foldl (\<lambda>s sec. section_duplicates sec s) ({}, {}) (vs_ugc_sections segment)))"

definition segment_has_marine_only_ugc :: "vtec_event_segment \<Rightarrow> bool" where
  "segment_has_marine_only_ugc segment \<longleftrightarrow>
     vs_ugc_sections segment \<noteq> [] \<and>
     list_all (\<lambda>s. us_counties s = [] \<and> us_zones s = [] \<and> us_fire_zones s = [] \<and> us_marine_zones s \<noteq> []) (vs_ugc_sections segment)"

definition segment_has_polygon_required_ugc :: "vtec_event_segment \<Rightarrow> bool" where
  "segment_has_polygon_required_ugc segment \<longleftrightarrow>
     list_ex (\<lambda>s. us_counties s \<noteq> [] \<or> us_fire_zones s \<noteq> []) (vs_ugc_sections segment)"

definition segment_is_watch_only :: "vtec_event_segment \<Rightarrow> bool" where
  "segment_is_watch_only segment \<longleftrightarrow>
     vs_vtec segment \<noteq> [] \<and> list_all (\<lambda>c. vt_significance c = CHR ''A'') (vs_vtec segment)"

definition body_has_marine_only_ugc :: "vtec_event_segment list \<Rightarrow> bool" where
  "body_has_marine_only_ugc segments \<longleftrightarrow> segments \<noteq> [] \<and> list_all segment_has_marine_only_ugc segments"

definition segment_qc_issue :: "str \<Rightarrow> vtec_event_segment \<Rightarrow> str \<Rightarrow> parse_issue" where
  "segment_qc_issue code segment message =
     issue_new ''body_qc'' code (''segment '' @ show_nat (vs_segment_index segment) @ message) None"

text \<open>The flag of the context says that the sections were not parsed for lack of a reference time.\<close>

definition validate_vtec_segment :: "vtec_event_segment \<Rightarrow> bool \<Rightarrow> parse_issue list" where
  "validate_vtec_segment segment ugc_blocked =
     (let duplicates = find_segment_duplicate_ugc_codes segment in
      (if vs_ugc_sections segment = [] \<and> \<not> ugc_blocked
       then [segment_qc_issue ''vtec_segment_missing_ugc'' segment
               '' parsed VTEC content but did not recover UGC sections from the source text''] else []) @
      (if vs_polygons segment = [] \<and> segment_has_polygon_required_ugc segment \<and>
          \<not> segment_has_marine_only_ugc segment \<and> \<not> segment_is_watch_only segment
       then [segment_qc_issue ''vtec_segment_missing_required_polygon'' segment
               '' parsed VTEC content but did not recover a LAT...LON polygon from the source text''] else []) @
      (if duplicates \<noteq> []
       then [segment_qc_issue ''vtec_segment_duplicate_ugc_code'' segment
               ('' encountered duplicated UGC codes: '' @ join '', '' duplicates)] else []))"

definition validate_vtec_event_segments :: "vtec_event_segment list \<Rightarrow> parse_issue list" where
  "validate_vtec_event_segments segments = concat (map (\<lambda>s. validate_vtec_segment s False) segments)"

section \<open>Event bodies\<close>

definition missing_time_issue :: "str \<Rightarrow> str \<Rightarrow> nat \<Rightarrow> parse_issue" where
  "missing_time_issue kind what index =
     issue_new kind ''missing_reference_time''
       (''segment '' @ show_nat index @ '' could not parse '' @ what @
        '' because the header timestamp could not be resolved'') None"

definition segment_ugc :: "body_env \<Rightarrow> nat \<Rightarrow> str \<Rightarrow> datetime option \<Rightarrow> (ugc_sec list \<times> parse_issue list \<times> bool) rust" where
  "segment_ugc env index raw reference_time =
     (case reference_time of
        Some t \<Rightarrow>
          rbind (parse_ugc_sections_with_issues (be_calendar env) (be_catalog env) raw t) (\<lambda>(parsed, issues).
            Ret (parsed, issues, False))
      | None \<Rightarrow>
          (if list_ex is_ugc_start (text_lines raw)
           then Ret ([], [missing_time_issue ''ugc_parse'' ''UGC sections'' index], True)
           else Ret ([], [], False)))"

definition segment_motion :: "body_env \<Rightarrow> nat \<Rightarrow> str \<Rightarrow> datetime option \<Rightarrow> (time_mot_loc_entry list \<times> parse_issue list) rust" where
  "segment_motion env index raw reference_time =
     (case reference_time of
        Some t \<Rightarrow> parse_time_mot_loc_entries_with_issues (be_calendar env) raw t
      | None \<Rightarrow>
          (if list_ex line_has_time_mot_loc (text_lines raw)
           then Ret ([], [missing_time_issue ''time_mot_loc_parse'' ''TIME...MOT...LOC entries'' index])
           else Ret ([], [])))"

definition parse_vtec_segment ::
    "body_env \<Rightarrow> datetime option \<Rightarrow> nat \<Rightarrow> str \<Rightarrow> (vtec_event_segment option \<times> parse_issue list) rust" where
  "parse_vtec_segment env reference_time index raw =
     (let (vtec, vtec_issues) = parse_vtec_codes_with_issues (be_calendar env) raw in
      if vtec = [] then Ret (None, vtec_issues)
      else
        rbind (segment_ugc env index raw reference_time) (\<lambda>(ugc, ugc_issues, ugc_blocked).
          let (hvtec, hvtec_issues) = parse_hvtec_codes_with_issues (be_calendar env) (be_gauges env) raw in
          rbind (parse_latlon_polygons_with_issues raw) (\<lambda>(polygons, polygon_issues).
            rbind (segment_motion env index raw reference_time) (\<lambda>(motion, motion_issues).
              let (wind_hail, wind_hail_issues) = parse_wind_hail_entries_with_issues raw;
                  segment = \<lparr>vs_segment_index = index, vs_vtec = vtec, vs_ugc_sections = ugc, vs_hvtec = hvtec,
                             vs_polygons = polygons, vs_time_mot_loc = motion, vs_wind_hail = wind_hail\<rparr>
              in Ret (Some segment,
                   vtec_issues @ ugc_issues @ hvtec_issues @ polygon_issues @ motion_issues @ wind_hail_issues @
                   validate_vtec_segment segment ugc_blocked)))))"

fun parse_vtec_segments ::
    "body_env \<Rightarrow> datetime option \<Rightarrow> nat \<Rightarrow> str list \<Rightarrow> (vtec_event_segment list \<times> parse_issue list) rust" where
  "parse_vtec_segments env reference_time index [] = Ret ([], [])"
| "parse_vtec_segments env reference_time index (raw # raws) =
     rbind (parse_vtec_segment env reference_time index raw) (\<lambda>(segment, segment_issues).
       rbind (parse_vtec_segments env reference_time (Suc index) raws) (\<lambda>(segments, issues).
         Ret ((case segment of None \<Rightarrow> segments | Some s \<Rightarrow> s # segments), segment_issues @ issues)))"

definition parse_vtec_event_body_with_issues ::
    "body_env \<Rightarrow> str \<Rightarrow> datetime option \<Rightarrow> (vtec_event_segment list option \<times> parse_issue list) rust" where
  "parse_vtec_event_body_with_issues env s reference_time =
     rbind (parse_vtec_segments env reference_time 0 (split_vtec_segments env s)) (\<lambda>(segments, issues).
       Ret (if segments \<noteq> [] then Some segments else None, issues))"

section \<open>Extraction plans\<close>

datatype body_extractor = VtecEvents | ExtractUgc | ExtractLatLon | ExtractTimeMotLoc | ExtractWindHail

datatype body_qc_rule = UgcDuplicateCode

record body_extraction_plan =
  bp_extractors :: "body_extractor list"
  bp_qc_rules :: "body_qc_rule list"

datatype body_input_format = PlainText | CapXml

record body_extraction_state =
  bs_generic_body :: generic_body
  bs_vtec_event_body :: "vtec_event_segment list option"
  bs_issues :: "parse_issue list"
  bs_has_generic_content :: bool

record body_extraction_outcome =
  bo_body :: "product_body option"
  bo_issues :: "parse_issue list"

definition make_extraction_plan :: "body_extractor list \<Rightarrow> body_extraction_plan" where
  "make_extraction_plan extractors =
     \<lparr>bp_extractors = extractors, bp_qc_rules = (if ExtractUgc \<in> set extractors then [UgcDuplicateCode] else [])\<rparr>"

definition empty_generic :: generic_body where
  "empty_generic = \<lparr>gn_ugc = None, gn_latlon = None, gn_time_mot_loc = None, gn_wind_hail = None\<rparr>"

definition extraction_start :: body_extraction_state where
  "extraction_start =
     \<lparr>bs_generic_body = empty_generic, bs_vtec_event_body = None, bs_issues = [], bs_has_generic_content = False\<rparr>"

definition add_issues :: "parse_issue list \<Rightarrow> body_extraction_state \<Rightarrow> body_extraction_state" where
  "add_issues issues st = st\<lparr>bs_issues := bs_issues st @ issues\<rparr>"

definition add_generic ::
    "'a list \<Rightarrow> ('a list \<Rightarrow> generic_body \<Rightarrow> generic_body) \<Rightarrow> body_extraction_state \<Rightarrow> body_extraction_state" where
  "add_generic parsed store st =
     (if parsed = [] then st
      else st\<lparr>bs_generic_body := store parsed (bs_generic_body st), bs_has_generic_content := True\<rparr>)"

definition apply_vtec_events_extractor ::
    "body_env \<Rightarrow> str \<Rightarrow> datetime option \<Rightarrow> body_extraction_state \<Rightarrow> body_extraction_state rust" where
  "apply_vtec_events_extractor env s reference_time st =
     rbind (parse_vtec_event_body_with_issues env s reference_time) (\<lambda>(parsed, issues).
       Ret (add_issues issues (if parsed = None then st else st\<lparr>bs_vtec_event_body := parsed\<rparr>)))"

definition no_time_issue :: "str \<Rightarrow> str \<Rightarrow> parse_issue" where
  "no_time_issue kind what =
     issue_new kind ''missing_reference_time''
       (''could not parse '' @ what @ '' because the header timestamp could not be resolved'') None"

definition apply_ugc_extractor ::
    "body_env \<Rightarrow> str \<Rightarrow> datetime option \<Rightarrow> body_extraction_state \<Rightarrow> body_extraction_state rust" where
  "apply_ugc_extractor env s reference_time st =
     (case reference_time of
        Some t \<Rightarrow>
          rbind (parse_ugc_sections_with_issues (be_calendar env) (be_catalog env) s t) (\<lambda>(parsed, issues).
            Ret (add_issues issues (add_generic parsed (\<lambda>p g. g\<lparr>gn_ugc := Some p\<rparr>) st)))
      | None \<Rightarrow> Ret (add_issues [no_time_issue ''ugc_parse'' ''UGC sections''] st))"

definition apply_latlon_extractor :: "str \<Rightarrow> body_extraction_state \<Rightarrow> body_extraction_state rust" where
  "apply_latlon_extractor s st =
     rbind (parse_latlon_polygons_with_issues s) (\<lambda>(parsed, issues).
       Ret (add_issues issues (add_generic parsed (\<lambda>p g. g\<lparr>gn_latlon := Some p\<rparr>) st)))"

definition apply_time_mot_loc_extractor ::
    "body_env \<Rightarrow> str \<Rightarrow> datetime option \<Rightarrow> body_extraction_state \<Rightarrow> body_extraction_state rust" where
  "apply_time_mot_loc_extractor env s reference_time st =
     (case reference_time of
        Some t \<Rightarrow>
          rbind (parse_time_mot_loc_entries_with_issues (be_calendar env) s t) (\<lambda>(parsed, issues).
            Ret (add_issues issues (add_generic parsed (\<lambda>p g. g\<lparr>gn_time_mot_loc := Some p\<rparr>) st)))
      | None \<Rightarrow> Ret (add_issues [no_time_issue ''time_mot_loc_parse'' ''TIME...MOT...LOC entries''] st))"

definition apply_wind_hail_extractor :: "str \<Rightarrow> body_extraction_state \<Rightarrow> body_extraction_state" where
  "apply_wind_hail_extractor s st =
     (let (parsed, issues) = parse_wind_hail_entries_with_issues s
      in add_issues issues (add_generic parsed (\<lambda>p g. g\<lparr>gn_wind_hail := Some p\<rparr>) st))"

definition apply_extractor ::
    "body_env \<Rightarrow> str \<Rightarrow> datetime option \<Rightarrow> body_extractor \<Rightarrow> body_extraction_state \<Rightarrow> body_extraction_state rust" where
  "apply_extractor env s reference_time extractor st =
     (case extractor of
        VtecEvents \<Rightarrow> apply_vtec_events_extractor env s reference_time st
      | ExtractUgc \<Rightarrow> apply_ugc_extractor env s reference_time st
      | ExtractLatLon \<Rightarrow> apply_latlon_extractor s st
      | ExtractTimeMotLoc \<Rightarrow> apply_time_mot_loc_extractor env s reference_time st
      | ExtractWindHail \<Rightarrow> Ret (apply_wind_hail_extractor s st))"

fun apply_extractors ::
    "body_env \<Rightarrow> str \<Rightarrow> datetime option \<Rightarrow> body_extractor list \<Rightarrow> body_extraction_state \<Rightarrow> body_extraction_state rust" where
  "apply_extractors env s reference_time [] st = Ret st"
| "apply_extractors env s reference_time (x # xs) st =
     rbind (apply_extractor env s reference_time x st) (apply_extractors env s reference_time xs)"

text \<open>The codes of each section are compared within the section; the duplicates of all are reported together.\<close>

definition body_duplicates :: "ugc_sec list \<Rightarrow> str list" where
  "body_duplicates sections =
     sorted_list_of_set (foldl (\<lambda>duplicates sec. snd (section_duplicates sec ({}, duplicates))) {} sections)"

definition ugc_duplicate_issues :: "product_body \<Rightarrow> parse_issue list" where
  "ugc_duplicate_issues body =
     (let sections =
        (case body of
           VtecEventBody segments \<Rightarrow>
             (if body_has_marine_only_ugc segments then None
              else case segments of [] \<Rightarrow> None | s # _ \<Rightarrow> Some (vs_ugc_sections s))
         | GenericBody b \<Rightarrow> gn_ugc b)
      in case sections of
          None \<Rightarrow> []
        | Some sections \<Rightarrow>
            (let duplicates = body_duplicates sections
             in if duplicates = [] then []
                else [issue_new ''body_qc'' ''ugc_duplicate_code''
                        (''encountered duplicated UGC codes in parsed product body: '' @ join '', '' duplicates) None]))"

definition validate_body_qc :: "product_body \<Rightarrow> body_extraction_plan \<Rightarrow> parse_issue list" where
  "validate_body_qc body plan =
     concat (map (\<lambda>rule. case rule of UgcDuplicateCode \<Rightarrow> ugc_duplicate_issues body) (bp_qc_rules plan))"

definition finish_extraction :: "body_extraction_plan \<Rightarrow> body_extraction_state \<Rightarrow> body_extraction_outcome" where
  "finish_extraction plan st =
     (let body = (case bs_vtec_event_body st of
            Some segments \<Rightarrow> Some (VtecEventBody segments)
          | None \<Rightarrow> if bs_has_generic_content st then Some (GenericBody (bs_generic_body st)) else None)
      in \<lparr>bo_body = body,
          bo_issues = bs_issues st @ (case body of None \<Rightarrow> [] | Some b \<Rightarrow> validate_body_qc b plan)\<rparr>)"

type_synonym cap_parser = "str \<Rightarrow> body_extraction_plan \<Rightarrow> datetime option \<Rightarrow> body_extraction_outcome rust"

definition enrich_body_from_plan_with_format ::
    "body_env \<Rightarrow> cap_parser \<Rightarrow> str \<Rightarrow> body_extraction_plan \<Rightarrow> datetime option \<Rightarrow> body_input_format \<Rightarrow> body_extraction_outcome rust" where
  "enrich_body_from_plan_with_format env parse_cap s plan reference_time input_format =
     (if input_format = CapXml then parse_cap s plan reference_time
      else rbind (apply_extractors env s reference_time (bp_extractors plan) extraction_start)
             (\<lambda>st. Ret (finish_extraction plan st)))"

definition enrich_body_from_plan ::
    "body_env \<Rightarrow> cap_parser \<Rightarrow> str \<Rightarrow> body_extraction_plan \<Rightarrow> datetime option \<Rightarrow> body_extraction_outcome rust" where
  "enrich_body_from_plan env parse_cap s plan reference_time =
     enrich_body_from_plan_with_format env parse_cap s plan reference_time PlainText"

text \<open>The catalogue of text products gives the plan of a product identifier.\<close>

definition enrich_body ::
    "body_env \<Rightarrow> cap_parser \<Rightarrow> (str \<Rightarrow> body_extraction_plan option) \<Rightarrow> str \<Rightarrow> str \<Rightarrow> datetime option
     \<Rightarrow> (product_body option \<times> parse_issue list) rust" where
  "enrich_body env parse_cap plan_for s pil reference_time =
     (case plan_for pil of
        None \<Rightarrow> Ret (None, [])
      | Some plan \<Rightarrow>
          rbind (enrich_body_from_plan env parse_cap s plan reference_time) (\<lambda>outcome.
            Ret (bo_body outcome, bo_issues outcome)))"

section \<open>Segmentation keeps the event lines\<close>

lemma scan_Cons:
  "set (scan_slash_delimited_candidates p s) \<subseteq> set (scan_slash_delimited_candidates p (c # s))"
  by (simp only: scan_slash_delimited_candidates.simps set_append) (rule Un_upper2)

lemma scan_prefix:
  "set (scan_slash_delimited_candidates p s) \<subseteq> set (scan_slash_delimited_candidates p (u @ s))"
proof (induction u)
  case (Cons c u)
  show ?case using subset_trans [OF Cons.IH scan_Cons [of p "u @ s" c]] by (simp only: append_Cons)
qed simp

lemma scan_suffix:
  "set (scan_slash_delimited_candidates p s) \<subseteq> set (scan_slash_delimited_candidates p (s @ v))"
proof (induction s)
  case (Cons c s)
  show ?case
  proof (cases "position (\<lambda>b. b = slash) s")
    case None
    then have "scan_slash_delimited_candidates p (c # s) = scan_slash_delimited_candidates p s" by simp
    with subset_trans [OF Cons.IH scan_Cons [of p "s @ v" c]] show ?thesis by (simp only: append_Cons)
  next
    case (Some k)
    have "position (\<lambda>b. b = slash) (s @ v) = Some k" using Some by (simp add: position_append)
    moreover have "take (Suc k) (s @ v) = take (Suc k) s" using position_Some [OF Some] by simp
    ultimately show ?thesis using Un_mono [OF subset_refl Cons.IH] Some
      by (simp only: append_Cons scan_slash_delimited_candidates.simps set_append option.case Suc_eq_plus1)
  qed
qed simp

lemma scan_inside:
  "set (scan_slash_delimited_candidates p s) \<subseteq> set (scan_slash_delimited_candidates p (u @ s @ v))"
  using scan_suffix [of p s v] scan_prefix [of p "s @ v" u] by blast

lemma results_nonempty: "fst (partition_results f xs) \<noteq> [] \<longleftrightarrow> (\<exists>x \<in> set xs. \<not> isl (f x))"
  by (induction xs) (auto simp: partition_results_def List.map_filter_simps split: sum.splits)

lemma vtec_inside: "line_has_vtec env s \<Longrightarrow> line_has_vtec env (u @ s @ v)"
  using scan_inside [of is_vtec_candidate s u v]
  by (auto simp: line_has_vtec_def parse_vtec_codes_with_issues_def results_nonempty find_vtec_candidates_def)

lemma join_inside: "l \<in> set ls \<Longrightarrow> \<exists>u v. join sep ls = u @ l @ v"
proof (induction ls)
  case (Cons x ls)
  show ?case
  proof (cases "l = x")
    case True
    then have "join sep (x # ls) = [] @ l @ (if ls = [] then [] else sep @ join sep ls)"
      by (cases ls) simp_all
    then show ?thesis by blast
  next
    case False
    then have ls: "l \<in> set ls" "ls \<noteq> []" using Cons.prems by auto
    then obtain u v where "join sep ls = u @ l @ v" using Cons.IH by blast
    then have "join sep (x # ls) = (x @ sep @ u) @ l @ v" using ls by (simp add: join_Cons)
    then show ?thesis by blast
  qed
qed simp

lemma vtec_has_slash: "line_has_vtec env l \<Longrightarrow> slash \<in> set l"
  by (rule ccontr) (simp add: line_has_vtec_def parse_vtec_codes_with_issues_def find_vtec_candidates_def scan_slash_eq
      split_char_no partition_results_def List.map_filter_simps)

lemma slash_not_ws: "\<not> ws1 slash" "\<not> ws2 slash b" "\<not> ws2 b slash" "\<not> ws3 slash b c" "\<not> ws3 b slash c" "\<not> ws3 b c slash"
  by (simp_all add: ws1_def ws2_def ws3_def)

lemma slash_trim_start: "slash \<in> set s \<Longrightarrow> slash \<in> set (trim_start s)"
  by (induction s rule: trim_start.induct) (auto simp: slash_not_ws split: if_splits)

lemma slash_trim_rev: "slash \<in> set s \<Longrightarrow> slash \<in> set (trim_rev s)"
  by (induction s rule: trim_rev.induct) (auto simp: slash_not_ws split: if_splits)

lemma vtec_trim: "line_has_vtec env l \<Longrightarrow> slash \<in> set (trim l)"
  using vtec_has_slash [of env l] slash_trim_start [of l] slash_trim_rev [of "rev (trim_start l)"]
  by (simp add: trim_def trim_end_def)


lemma vtec_join: "l \<in> set ls \<Longrightarrow> line_has_vtec env l \<Longrightarrow> line_has_vtec env (join sep ls)"
  using join_inside [of l ls sep] vtec_inside by metis

text \<open>The lines of the segments; what a flushed segment adds to them.\<close>

definition segment_lines :: "str list \<Rightarrow> str list" where
  "segment_lines segments = concat (map (split_char (CHR 0x0A)) segments)"

definition event_lines :: "body_env \<Rightarrow> str list \<Rightarrow> str list" where
  "event_lines env ls = filter (line_has_vtec env) ls"

lemma segment_lines_append [simp]: "segment_lines (xs @ ys) = segment_lines xs @ segment_lines ys"
  by (simp add: segment_lines_def)

text \<open>The segments \<open>out\<close> extend \<open>segments\<close> by segments whose lines are lines of \<open>ls\<close> and hold all its events.\<close>

definition adds_lines :: "body_env \<Rightarrow> str list \<Rightarrow> str list \<Rightarrow> str list \<Rightarrow> bool" where
  "adds_lines env segments ls out \<longleftrightarrow>
     (\<exists>rest. out = segments @ rest \<and> event_lines env (segment_lines rest) = event_lines env ls \<and>
        subseq (segment_lines rest) ls \<and> list_all (line_has_vtec env) rest)"

definition one_line :: "str \<Rightarrow> bool" where
  "one_line l \<longleftrightarrow> CHR 0x0A \<notin> set l"

lemma adds_push:
  assumes "list_all one_line current"
  shows "adds_lines env segments current (push_vtec_segment env segments current)"
proof (cases "current \<noteq> [] \<and> line_has_vtec env (join [CHR 0x0A] current)")
  case True
  then have "segment_lines [join [CHR 0x0A] current] = current"
    using assms by (simp add: segment_lines_def split_char_join list_all_iff one_line_def)
  with True show ?thesis unfolding adds_lines_def
    by (intro exI [of _ "[join [CHR 0x0A] current]"]) (auto simp: push_vtec_segment_def line_has_vtec_def Let_def)
next
  case False
  then have "event_lines env current = []"
    using vtec_join [of _ current env] by (auto simp: event_lines_def filter_empty_conv)
  with False show ?thesis unfolding adds_lines_def
    by (intro exI [of _ "[]"]) (auto simp: push_vtec_segment_def line_has_vtec_def Let_def segment_lines_def event_lines_def)
qed

lemma adds_trans:
  assumes "adds_lines env segments xs mid" "adds_lines env mid ys out"
  shows "adds_lines env segments (xs @ ys) out"
proof -
  obtain r1 r2 where r: "mid = segments @ r1" "event_lines env (segment_lines r1) = event_lines env xs"
      "subseq (segment_lines r1) xs" "list_all (line_has_vtec env) r1"
    "out = mid @ r2" "event_lines env (segment_lines r2) = event_lines env ys"
      "subseq (segment_lines r2) ys" "list_all (line_has_vtec env) r2"
    using assms unfolding adds_lines_def by blast
  then show ?thesis unfolding adds_lines_def
    by (intro exI [of _ "r1 @ r2"]) (auto simp: event_lines_def list_emb_append_mono)
qed

lemma adds_skip:
  assumes "adds_lines env segments ls out" "\<not> line_has_vtec env l"
  shows "adds_lines env segments (l # ls) out"
  using assms unfolding adds_lines_def by (auto simp: event_lines_def)

lemma one_line_trim_end: "one_line l \<Longrightarrow> one_line (trim_end l)"
  using set_mono_prefix [OF prefix_trim_end [of l]] by (auto simp: one_line_def)

lemma quiet_line: "trim l = ''$$'' \<or> trim l = [] \<or> \<not> looks_like_event_content env l \<Longrightarrow> \<not> line_has_vtec env l"
  using vtec_trim [of env l] by (auto simp: looks_like_event_content_def)

lemma split_segments_adds:
  "list_all one_line ls \<Longrightarrow> list_all one_line current \<Longrightarrow>
   adds_lines env segments (current @ map trim_end ls) (split_segments env ls segments current has_vtec has_geography)"
proof (induction ls arbitrary: segments current has_vtec has_geography)
  case Nil
  then show ?case by (simp add: adds_push)
next
  case (Cons line ls)
  define t where "t = trim_end line"
  have t: "one_line t" "list_all one_line ls" using Cons.prems one_line_trim_end by (auto simp: t_def)
  have fresh: "adds_lines env mid (map trim_end ls) (split_segments env ls mid [] v g)" for mid v g
    using Cons.IH [OF t(2), of "[]" mid v g] by simp
  have go: "adds_lines env mid (cur @ t # map trim_end ls) (split_segments env ls mid (cur @ [t]) v g)"
    if "list_all one_line cur" for mid cur v g
    using Cons.IH [OF t(2), of "cur @ [t]" mid v g] that t(1) by simp
  have skip: "adds_lines env mid (t # map trim_end ls) (split_segments env ls mid [] v g)"
    if "trim t = ''$$'' \<or> trim t = [] \<or> \<not> looks_like_event_content env t" for mid v g
    by (rule adds_skip [OF fresh quiet_line [OF that]])
  define boundary where "boundary \<longleftrightarrow> current \<noteq> [] \<and> has_vtec \<and>
    (is_ugc_start t \<or> (line_has_vtec env t \<and> has_geography))"
  note push = adds_trans [OF adds_push [OF Cons.prems(2), of env segments]]
  consider "trim t = ''$$''" | "trim t \<noteq> ''$$''" boundary | "trim t \<noteq> ''$$''" "\<not> boundary" by blast
  then show ?case
  proof cases
    case 1
    then show ?thesis using push [OF skip, of False False] by (simp add: t_def [symmetric])
  next
    case 2
    then show ?thesis
      using push [OF skip, of False False] push [OF go [of "[]"]]
      by (simp add: t_def [symmetric] Let_def boundary_def [symmetric])
  next
    case 3
    then show ?thesis
      using skip go [OF Cons.prems(2)] by (simp add: t_def [symmetric] Let_def boundary_def [symmetric])
  qed
qed

lemma text_lines_one_line: "list_all one_line (text_lines s)"
  using text_lines_from [of _ s] split_char_lines [of _ "CHR 0x0A" s] unfolding list_all_iff one_line_def by blast

text \<open>
  C33.  The segmentation of a bulletin loses no event and invents none: the lines with a VTEC code in
  the segments are the lines with a VTEC code of the bulletin, in its order and as often; all lines of the
  segments are lines of the bulletin in its order, without their trailing blanks; and every segment has a code.
\<close>

theorem segments_keep_events:
  "event_lines env (segment_lines (split_vtec_segments env s)) =
     event_lines env (map trim_end (text_lines (filter (\<lambda>c. c \<noteq> CHR 0x0D) s))) \<and>
   subseq (segment_lines (split_vtec_segments env s)) (map trim_end (text_lines (filter (\<lambda>c. c \<noteq> CHR 0x0D) s))) \<and>
   list_all (line_has_vtec env) (split_vtec_segments env s)"
  using split_segments_adds [OF text_lines_one_line, of "[]" env "[]"]
  by (auto simp: adds_lines_def split_vtec_segments_def)

end
