(* ===== verification/Parser_Cap.thy ===== *)
theory Parser_Cap
  imports Parser_Body
begin

text \<open>
  The projection of CAP messages onto product bodies (emwin-parser/src/body/cap.rs): the cut of the XML out of the
  text, and the VTEC codes, UGC codes, polygons, motion and hail tags of each information block and area.
  The XML deserialiser and the RFC 3339 parser are fields of the parameter \<open>cap_env\<close>.
\<close>

section \<open>Messages\<close>

record cap_value_pair =
  cv_name :: str
  cv_value :: str

record cap_area_xml =
  cx_polygon :: "str option"
  cx_geocodes :: "cap_value_pair list"

record cap_info_xml =
  cx_expires :: "str option"
  cx_parameters :: "cap_value_pair list"
  cx_areas :: "cap_area_xml list"

record cap_area =
  ca_polygon :: "str option"
  ca_geocodes :: "cap_value_pair list"

record cap_info =
  ci_expires :: "datetime option"
  ci_parameters :: "cap_value_pair list"
  ci_areas :: "cap_area list"

record cap_env =
  ce_body :: body_env
  ce_from_xml :: "str \<Rightarrow> str + cap_info_xml list"
  ce_parse_rfc3339 :: "str \<Rightarrow> datetime option"

definition rfind_sub :: "str \<Rightarrow> str \<Rightarrow> nat option" where
  "rfind_sub p s = map_option (\<lambda>k. length s - k - length p) (find_sub (rev p) (rev s))"

definition extract_cap_xml :: "str \<Rightarrow> str option rust" where
  "extract_cap_xml s =
     (case (case ascii_find_case_insensitive s ''<?xml'' of
              Some k \<Rightarrow> Some k | None \<Rightarrow> ascii_find_case_insensitive s ''<alert'') of
        None \<Rightarrow> Ret None
      | Some start \<Rightarrow>
          (case rfind_sub ''</alert>'' s of
             None \<Rightarrow> Ret None
           | Some k \<Rightarrow> rbind (slice s start (k + length ''</alert>'')) (\<lambda>t. Ret (Some (trim t)))))"

definition cap_area_of :: "cap_area_xml \<Rightarrow> cap_area" where
  "cap_area_of a =
     \<lparr>ca_polygon = (case cx_polygon a of None \<Rightarrow> None | Some p \<Rightarrow> if trim p \<noteq> [] then Some (trim p) else None),
      ca_geocodes = cx_geocodes a\<rparr>"

definition cap_info_of :: "cap_env \<Rightarrow> cap_info_xml \<Rightarrow> cap_info" where
  "cap_info_of env i =
     \<lparr>ci_expires = Option.bind (cx_expires i) (ce_parse_rfc3339 env), ci_parameters = cx_parameters i,
      ci_areas = map cap_area_of (cx_areas i)\<rparr>"

definition parse_cap_alert :: "cap_env \<Rightarrow> str \<Rightarrow> parse_issue + cap_info list" where
  "parse_cap_alert env xml =
     (case ce_from_xml env xml of
        Inl error \<Rightarrow> Inl (issue_new ''cap_parse'' ''invalid_cap_xml'' (''could not parse CAP XML payload: '' @ error) None)
      | Inr infos \<Rightarrow>
          (if infos = [] then Inl (issue_new ''cap_parse'' ''missing_cap_info'' ''CAP XML did not contain any info blocks'' None)
           else Inr (map (cap_info_of env) infos)))"

section \<open>Projections\<close>

definition parameter_value :: "cap_info \<Rightarrow> str \<Rightarrow> str option" where
  "parameter_value info name = map_option cv_value (find (\<lambda>pair. cv_name pair = name) (ci_parameters info))"

definition preferred_expiry :: "cap_env \<Rightarrow> cap_info \<Rightarrow> datetime option" where
  "preferred_expiry env info =
     (case Option.bind (parameter_value info ''eventEndingTime'') (ce_parse_rfc3339 env) of
        Some t \<Rightarrow> Some t | None \<Rightarrow> ci_expires info)"

definition project_vtec :: "cap_env \<Rightarrow> cap_info \<Rightarrow> vtec_code list \<times> parse_issue list" where
  "project_vtec env info =
     (let parsed = map (\<lambda>pair. parse_vtec_codes_with_issues (be_calendar (ce_body env)) (cv_value pair))
        (filter (\<lambda>pair. cv_name pair = ''VTEC'') (ci_parameters info))
      in (concat (map fst parsed), concat (map snd parsed)))"

text \<open>The rest of a text after its first character.\<close>

definition skip_char :: "str \<Rightarrow> str" where
  "skip_char s = dropWhile (\<lambda>c. is_cont (byte_of c)) (tl s)"

definition parse_cap_ugc_code :: "str \<Rightarrow> ugc_code option rust" where
  "parse_cap_ugc_code value =
     (if length value \<noteq> 6 then Ret None
      else rbind (slice value 0 2) (\<lambda>state.
        case skip_char (skip_char value) of
          [] \<Rightarrow> Ret None
        | class_char # _ \<Rightarrow>
            rbind (slice value 3 6) (\<lambda>number.
              Ret (map_option (\<lambda>n. \<lparr>uc_state = state, uc_geoclass = class_from_char class_char, uc_number = n\<rparr>)
                     (parse_u16 number)))))"

fun project_ugc_codes :: "str list \<Rightarrow> (ugc_code list \<times> parse_issue list) rust" where
  "project_ugc_codes [] = Ret ([], [])"
| "project_ugc_codes (value # values) =
     rbind (parse_cap_ugc_code value) (\<lambda>r.
       rbind (project_ugc_codes values) (\<lambda>(codes, issues).
         Ret (case r of
             Some code \<Rightarrow> (code # codes, issues)
           | None \<Rightarrow>
               (codes,
                issue_new ''ugc_parse'' ''invalid_ugc_codes'' (''could not parse CAP UGC value `'' @ value @ ''`'') (Some value) # issues))))"

definition project_ugc ::
    "cap_env \<Rightarrow> cap_area \<Rightarrow> datetime option \<Rightarrow> datetime option \<Rightarrow> (ugc_sec list \<times> parse_issue list) rust" where
  "project_ugc env area expires reference_time =
     (let pairs = filter (\<lambda>pair. cv_name pair = ''UGC'') (ca_geocodes area) in
      case (case expires of Some t \<Rightarrow> Some t | None \<Rightarrow> reference_time) of
        None \<Rightarrow>
          Ret ([], if pairs = [] then []
                   else [issue_new ''ugc_parse'' ''missing_reference_time''
                     ''could not project CAP UGC values because no expiry or reference time was available'' None])
      | Some expires \<Rightarrow>
          rbind (project_ugc_codes (map (\<lambda>pair. trim (cv_value pair)) pairs)) (\<lambda>(codes, issues).
            Ret (if codes = [] then [] else [section_from_codes (be_catalog (ce_body env)) codes expires], issues)))"

text \<open>Pairs of numbers with a comma between them; the issue names the token that failed.\<close>

fun cap_points ::
    "(str \<Rightarrow> str) \<Rightarrow> (str \<Rightarrow> parse_issue) \<Rightarrow> (str \<Rightarrow> parse_issue) \<Rightarrow> (str \<Rightarrow> parse_issue) \<Rightarrow> str list \<Rightarrow> parse_issue + coord list" where
  "cap_points prep pair_issue lat_issue lon_issue [] = Inr []"
| "cap_points prep pair_issue lat_issue lon_issue (token # tokens) =
     (case split_once CHR '','' token of
        None \<Rightarrow> Inl (pair_issue token)
      | Some (lat, lon) \<Rightarrow>
          (case parse_f64 (prep lat) of
             None \<Rightarrow> Inl (lat_issue lat)
           | Some lat \<Rightarrow>
               (case parse_f64 (prep lon) of
                  None \<Rightarrow> Inl (lon_issue lon)
                | Some lon \<Rightarrow>
                    map_sum id ((#) (lat, lon)) (cap_points prep pair_issue lat_issue lon_issue tokens))))"

definition named_issue :: "str \<Rightarrow> str \<Rightarrow> str \<Rightarrow> str \<Rightarrow> str \<Rightarrow> parse_issue" where
  "named_issue kind code what raw token = issue_new kind code (what @ '' `'' @ token @ ''`'') (Some raw)"

definition project_polygons :: "cap_area \<Rightarrow> latlon_polygon list \<times> parse_issue list" where
  "project_polygons area =
     (case ca_polygon area of
        None \<Rightarrow> ([], [])
      | Some raw \<Rightarrow>
          (case cap_points trim
                  (named_issue ''latlon_parse'' ''invalid_latlon_coordinate_format'' ''could not parse CAP polygon coordinate'' raw)
                  (named_issue ''latlon_parse'' ''invalid_latlon_latitude'' ''could not parse CAP polygon latitude'' raw)
                  (named_issue ''latlon_parse'' ''invalid_latlon_longitude'' ''could not parse CAP polygon longitude'' raw)
                  (split_whitespace raw) of
             Inl issue \<Rightarrow> ([], [issue])
           | Inr points \<Rightarrow>
               (case polygon_from_points points of Inl issue \<Rightarrow> ([], [issue]) | Inr polygon \<Rightarrow> ([polygon], []))))"

function split_dots :: "str \<Rightarrow> str list" where
  "split_dots s = (case find_sub ''...'' s of None \<Rightarrow> [s] | Some k \<Rightarrow> take k s # split_dots (drop (k + 3) s))"
  by pat_completeness auto
termination
  by (relation "measure length") (auto dest!: find_sub_Some)

declare split_dots.simps [simp del]

definition motion_unit :: "str \<Rightarrow> str \<Rightarrow> u16 option" where
  "motion_unit unit token = Option.bind (strip_suffix unit token) parse_u16"

definition parse_cap_event_motion :: "cap_env \<Rightarrow> str \<Rightarrow> parse_issue + time_mot_loc_entry" where
  "parse_cap_event_motion env raw =
     (let tokens = split_dots raw; issue = (\<lambda>code what. named_issue ''time_mot_loc_parse'' code what raw raw) in
      if length tokens < 5 then Inl (issue ''invalid_time_mot_loc_format'' ''could not parse CAP eventMotionDescription'')
      else case ce_parse_rfc3339 env (tokens ! 0) of
        None \<Rightarrow> Inl (issue ''invalid_time_mot_loc_time'' ''could not parse CAP event motion time from'')
      | Some time_utc \<Rightarrow>
      case motion_unit ''DEG'' (tokens ! 2) of
        None \<Rightarrow> Inl (issue ''invalid_time_mot_loc_direction'' ''could not parse CAP event motion direction from'')
      | Some direction \<Rightarrow>
      case motion_unit ''KT'' (tokens ! 3) of
        None \<Rightarrow> Inl (issue ''invalid_time_mot_loc_speed'' ''could not parse CAP event motion speed from'')
      | Some speed \<Rightarrow>
          map_sum id (entry_from_parts time_utc direction speed)
            (cap_points id
              (named_issue ''time_mot_loc_parse'' ''invalid_time_mot_loc_coordinate_count'' ''could not parse CAP event motion coordinate'' raw)
              (named_issue ''time_mot_loc_parse'' ''invalid_time_mot_loc_latitude'' ''could not parse CAP event motion latitude'' raw)
              (named_issue ''time_mot_loc_parse'' ''invalid_time_mot_loc_longitude'' ''could not parse CAP event motion longitude'' raw)
              (split_whitespace (tokens ! 4))))"

definition project_time_mot_loc :: "cap_env \<Rightarrow> cap_info \<Rightarrow> time_mot_loc_entry list \<times> parse_issue list" where
  "project_time_mot_loc env info =
     (case parameter_value info ''eventMotionDescription'' of
        None \<Rightarrow> ([], [])
      | Some raw \<Rightarrow> (case parse_cap_event_motion env raw of Inl issue \<Rightarrow> ([], [issue]) | Inr entry \<Rightarrow> ([entry], [])))"

definition parse_numeric_parameter :: "str \<Rightarrow> str \<Rightarrow> (f64 \<times> str) option" where
  "parse_numeric_parameter value default_units =
     (case split_whitespace value of
        [] \<Rightarrow> None
      | first # rest \<Rightarrow>
          map_option (\<lambda>v. (v, case rest of u # _ \<Rightarrow> to_ascii_uppercase u | [] \<Rightarrow> default_units)) (parse_f64 first))"

definition project_numeric ::
    "cap_info \<Rightarrow> str \<Rightarrow> wind_hail_kind \<Rightarrow> str \<Rightarrow> str \<Rightarrow> wind_hail_entry list \<times> parse_issue list" where
  "project_numeric info name kind default_units code =
     (case parameter_value info name of
        None \<Rightarrow> ([], [])
      | Some value \<Rightarrow>
          (case parse_numeric_parameter value default_units of
             Some (v, units) \<Rightarrow> ([wind_hail_entry_new kind (Some v) (Some units) None], [])
           | None \<Rightarrow>
               ([], [named_issue ''wind_hail_parse'' code (''could not parse CAP '' @ name @ '' value'') value value])))"

definition project_threat :: "cap_info \<Rightarrow> str \<Rightarrow> wind_hail_kind \<Rightarrow> wind_hail_entry list" where
  "project_threat info name kind =
     (if parameter_value info name \<noteq> None then [wind_hail_entry_new kind None None None] else [])"

definition project_wind_hail :: "cap_info \<Rightarrow> wind_hail_entry list \<times> parse_issue list" where
  "project_wind_hail info =
     (let (gust, gust_issues) = project_numeric info ''maxWindGust'' MaxWindGust ''MPH'' ''invalid_wind_hail_wind_value'';
          (size, size_issues) = project_numeric info ''maxHailSize'' MaxHailSize ''IN'' ''invalid_wind_hail_hail_value''
      in (project_threat info ''windThreat'' WindThreat @ gust @ project_threat info ''hailThreat'' HailThreat @ size,
          gust_issues @ size_issues))"

section \<open>Bodies of messages\<close>

record cap_state =
  cs_issues :: "parse_issue list"
  cs_segments :: "vtec_event_segment list"
  cs_generic :: generic_body

definition extend_opt :: "bool \<Rightarrow> 'a list \<Rightarrow> 'a list option \<Rightarrow> 'a list option" where
  "extend_opt enabled xs old = (if xs \<noteq> [] \<and> enabled then Some (opt_list old @ xs) else old)"

definition cap_area_step ::
    "cap_env \<Rightarrow> body_extraction_plan \<Rightarrow> datetime option \<Rightarrow> datetime option \<Rightarrow> vtec_code list \<Rightarrow> time_mot_loc_entry list
     \<Rightarrow> wind_hail_entry list \<Rightarrow> cap_area \<Rightarrow> cap_state \<Rightarrow> cap_state rust" where
  "cap_area_step env plan expires reference_time vtec motion wind_hail area st =
     rbind (project_ugc env area expires reference_time) (\<lambda>(sections, ugc_issues).
       let (polygons, polygon_issues) = project_polygons area;
           st = st\<lparr>cs_issues := cs_issues st @ ugc_issues @ polygon_issues\<rparr>;
           has = (\<lambda>x. x \<in> set (bp_extractors plan));
           g = cs_generic st
       in Ret (if vtec \<noteq> [] \<and> has VtecEvents
               then st\<lparr>cs_segments := cs_segments st @
                      [\<lparr>vs_segment_index = length (cs_segments st), vs_vtec = vtec, vs_ugc_sections = sections, vs_hvtec = [],
                        vs_polygons = polygons, vs_time_mot_loc = motion, vs_wind_hail = wind_hail\<rparr>]\<rparr>
               else st\<lparr>cs_generic :=
                      \<lparr>gn_ugc = extend_opt (has ExtractUgc) sections (gn_ugc g),
                       gn_latlon = extend_opt (has ExtractLatLon) polygons (gn_latlon g),
                       gn_time_mot_loc = extend_opt (has ExtractTimeMotLoc) motion (gn_time_mot_loc g),
                       gn_wind_hail = extend_opt (has ExtractWindHail) wind_hail (gn_wind_hail g)\<rparr>\<rparr>))"

fun cap_areas ::
    "cap_env \<Rightarrow> body_extraction_plan \<Rightarrow> datetime option \<Rightarrow> datetime option \<Rightarrow> vtec_code list \<Rightarrow> time_mot_loc_entry list
     \<Rightarrow> wind_hail_entry list \<Rightarrow> cap_area list \<Rightarrow> cap_state \<Rightarrow> cap_state rust" where
  "cap_areas env plan expires reference_time vtec motion wind_hail [] st = Ret st"
| "cap_areas env plan expires reference_time vtec motion wind_hail (a # as) st =
     rbind (cap_area_step env plan expires reference_time vtec motion wind_hail a st)
       (cap_areas env plan expires reference_time vtec motion wind_hail as)"

definition cap_info_step ::
    "cap_env \<Rightarrow> body_extraction_plan \<Rightarrow> datetime option \<Rightarrow> cap_info \<Rightarrow> cap_state \<Rightarrow> cap_state rust" where
  "cap_info_step env plan reference_time info st =
     (let (vtec, vtec_issues) = project_vtec env info;
          (motion, motion_issues) = project_time_mot_loc env info;
          (wind_hail, wind_hail_issues) = project_wind_hail info;
          areas = (if ci_areas info = [] then [\<lparr>ca_polygon = None, ca_geocodes = []\<rparr>] else ci_areas info)
      in cap_areas env plan (preferred_expiry env info) reference_time vtec motion wind_hail areas
           (st\<lparr>cs_issues := cs_issues st @ vtec_issues @ motion_issues @ wind_hail_issues\<rparr>))"

fun cap_infos :: "cap_env \<Rightarrow> body_extraction_plan \<Rightarrow> datetime option \<Rightarrow> cap_info list \<Rightarrow> cap_state \<Rightarrow> cap_state rust" where
  "cap_infos env plan reference_time [] st = Ret st"
| "cap_infos env plan reference_time (i # is) st =
     rbind (cap_info_step env plan reference_time i st) (cap_infos env plan reference_time is)"

definition mixed_projection_issue :: parse_issue where
  "mixed_projection_issue =
     issue_new ''cap_parse'' ''cap_mixed_projection_omitted''
       ''CAP payload contained both VTEC and non-VTEC projected content; non-VTEC generic content was omitted to preserve the existing body contract'' None"

definition cap_outcome :: "cap_state \<Rightarrow> body_extraction_outcome" where
  "cap_outcome st =
     (let generic_has_content = (cs_generic st \<noteq> empty_generic) in
      if cs_segments st \<noteq> []
      then \<lparr>bo_body = Some (VtecEventBody (cs_segments st)),
            bo_issues = cs_issues st @ (if generic_has_content then [mixed_projection_issue] else []) @
              validate_vtec_event_segments (cs_segments st)\<rparr>
      else \<lparr>bo_body = (if generic_has_content then Some (GenericBody (cs_generic st)) else None), bo_issues = cs_issues st\<rparr>)"

definition project_cap_alert ::
    "cap_env \<Rightarrow> cap_info list \<Rightarrow> body_extraction_plan \<Rightarrow> datetime option \<Rightarrow> body_extraction_outcome rust" where
  "project_cap_alert env infos plan reference_time =
     rbind (cap_infos env plan reference_time infos \<lparr>cs_issues = [], cs_segments = [], cs_generic = empty_generic\<rparr>)
       (\<lambda>st. Ret (cap_outcome st))"

definition parse_cap_body_with_issues :: "cap_env \<Rightarrow> cap_parser" where
  "parse_cap_body_with_issues env s plan reference_time =
     rbind (extract_cap_xml s) (\<lambda>xml.
       case xml of
         None \<Rightarrow>
           Ret \<lparr>bo_body = None,
                bo_issues = [issue_new ''cap_parse'' ''missing_cap_xml'' ''could not locate CAP XML payload in the body text'' None]\<rparr>
       | Some xml \<Rightarrow>
           (case parse_cap_alert env xml of
              Inl issue \<Rightarrow> Ret \<lparr>bo_body = None, bo_issues = [issue]\<rparr>
            | Inr infos \<Rightarrow> project_cap_alert env infos plan reference_time))"

section \<open>Panics\<close>

text \<open>
  A closing tag before the declaration makes the end of the slice precede its start, and a code of six bytes
  may have a character across its state prefix.
\<close>

lemma extract_cap_xml_panics: "extract_cap_xml ''</alert>  <?xml'' = Panic"
  by code_simp

lemma cap_ugc_code_panics: "length v = 6 \<Longrightarrow> \<not> is_char_boundary v 2 \<Longrightarrow> parse_cap_ugc_code v = Panic"
  by (simp add: parse_cap_ugc_code_def slice_def)

end
