(* ===== verification/Service_Filter.thy ===== *)
theory Service_Filter
  imports Parser_Body Parser_Header
begin

text \<open>
  The filters on completed files (emwin-service/src/filter): the raw parameters, their validation and normalisation
  into a \<^verbatim>\<open>FileEventFilter\<close>, the wildcard match of file names, and the decision on the metadata of a file.
  A \<^verbatim>\<open>BTreeSet\<close> is the set of its elements.  The distance of two points depends on the parameter \<open>libm\<close>.
\<close>

section \<open>Parameters\<close>

record file_filter_input =
  fi_filename :: "str option"
  fi_source :: "str option"
  fi_pil :: "str option"
  fi_family :: "str option"
  fi_container :: "str option"
  fi_wmo_prefix :: "str option"
  fi_office :: "str option"
  fi_office_city :: "str option"
  fi_office_state :: "str option"
  fi_bbb_kind :: "str option"
  fi_cccc :: "str option"
  fi_ttaaii :: "str option"
  fi_afos :: "str option"
  fi_bbb :: "str option"
  fi_has_issues :: "str option"
  fi_issue_kind :: "str option"
  fi_issue_code :: "str option"
  fi_has_vtec :: "str option"
  fi_has_ugc :: "str option"
  fi_has_hvtec :: "str option"
  fi_has_latlon :: "str option"
  fi_has_time_mot_loc :: "str option"
  fi_has_wind_hail :: "str option"
  fi_state :: "str option"
  fi_county :: "str option"
  fi_zone :: "str option"
  fi_fire_zone :: "str option"
  fi_marine_zone :: "str option"
  fi_vtec_phenomena :: "str option"
  fi_vtec_significance :: "str option"
  fi_vtec_action :: "str option"
  fi_vtec_office :: "str option"
  fi_etn :: "str option"
  fi_hvtec_nwslid :: "str option"
  fi_hvtec_severity :: "str option"
  fi_hvtec_cause :: "str option"
  fi_hvtec_record :: "str option"
  fi_wind_hail_kind :: "str option"
  fi_lat :: "f64 option"
  fi_lon :: "f64 option"
  fi_distance_miles :: "f64 option"
  fi_min_lat :: "f64 option"
  fi_max_lat :: "f64 option"
  fi_min_lon :: "f64 option"
  fi_max_lon :: "f64 option"
  fi_min_wind_mph :: "f64 option"
  fi_min_hail_inches :: "f64 option"
  fi_min_size :: "nat option"
  fi_max_size :: "nat option"

section \<open>Helpers\<close>

definition normalize_upper :: "str \<Rightarrow> str" where
  "normalize_upper value = to_ascii_uppercase (trim value)"

definition normalize_lower :: "str \<Rightarrow> str" where
  "normalize_lower value = to_ascii_lowercase (trim value)"

text \<open>The trimmed, non-blank values between the commas.\<close>

definition csv_terms :: "str option \<Rightarrow> str list" where
  "csv_terms raw = (case raw of None \<Rightarrow> [] | Some value \<Rightarrow> filter (\<lambda>t. t \<noteq> []) (map trim (split_char CHR '','' value)))"

definition csv_values :: "str option \<Rightarrow> (str \<Rightarrow> str) \<Rightarrow> str set option" where
  "csv_values raw canon =
     (let values = set (map canon (csv_terms raw)) in if values \<noteq> {} then Some values else None)"

definition csv_numbers :: "str option \<Rightarrow> u32 set option" where
  "csv_numbers raw =
     (let values = set (List.map_filter parse_u32 (csv_terms raw)) in if values \<noteq> {} then Some values else None)"

definition parse_optional_bool :: "str option \<Rightarrow> bool option" where
  "parse_optional_bool raw =
     (case raw of
        None \<Rightarrow> None
      | Some value \<Rightarrow>
          (let value = trim value in
           if value = [] then None
           else if eq_ignore_ascii_case value ''true'' \<or> value = ''1'' then Some True
           else if eq_ignore_ascii_case value ''false'' \<or> value = ''0'' then Some False
           else None))"

definition matches_option_set :: "str set option \<Rightarrow> str option \<Rightarrow> (str \<Rightarrow> str) \<Rightarrow> bool" where
  "matches_option_set allowed value canon =
     (case allowed of
        None \<Rightarrow> True
      | Some allowed \<Rightarrow> (case value of None \<Rightarrow> False | Some v \<Rightarrow> canon v \<in> allowed))"

definition matches_number_set :: "u32 set option \<Rightarrow> u32 \<Rightarrow> bool" where
  "matches_number_set allowed value = (case allowed of None \<Rightarrow> True | Some allowed \<Rightarrow> value \<in> allowed)"

definition matches_serialized_option :: "str set option \<Rightarrow> 'a option \<Rightarrow> ('a \<Rightarrow> str) \<Rightarrow> bool" where
  "matches_serialized_option allowed value serialize =
     (case allowed of
        None \<Rightarrow> True
      | Some allowed \<Rightarrow> (case value of None \<Rightarrow> False | Some v \<Rightarrow> serialize v \<in> allowed))"

definition matches_optional_presence :: "bool option \<Rightarrow> nat \<Rightarrow> bool" where
  "matches_optional_presence expected value_count =
     (case expected of None \<Rightarrow> True | Some expected \<Rightarrow> expected = (value_count > 0))"

datatype product_source = TextHeader | WmoBulletinSource | FilenameNonText | UnknownSource

fun product_source_name :: "product_source \<Rightarrow> str" where
  "product_source_name TextHeader = ''text_header''"
| "product_source_name WmoBulletinSource = ''wmo_bulletin''"
| "product_source_name FilenameNonText = ''filename_non_text''"
| "product_source_name UnknownSource = ''unknown''"

fun bbb_kind_name :: "bbb_kind \<Rightarrow> str" where
  "bbb_kind_name Amendment = ''amendment''"
| "bbb_kind_name Correction = ''correction''"
| "bbb_kind_name DelayedRepeat = ''delayed_repeat''"
| "bbb_kind_name OtherBbb = ''other''"

fun hvtec_severity_name :: "hvtec_severity \<Rightarrow> str" where
  "hvtec_severity_name SeverityNone = ''none''"
| "hvtec_severity_name Minor = ''minor''"
| "hvtec_severity_name Moderate = ''moderate''"
| "hvtec_severity_name Major = ''major''"
| "hvtec_severity_name SeverityUnknown = ''unknown''"

fun hvtec_cause_name :: "hvtec_cause \<Rightarrow> str" where
  "hvtec_cause_name ExcessiveRainfall = ''excessive_rainfall''"
| "hvtec_cause_name Snowmelt = ''snowmelt''"
| "hvtec_cause_name RainAndSnowmelt = ''rain_and_snowmelt''"
| "hvtec_cause_name DamFailure = ''dam_failure''"
| "hvtec_cause_name GlacierOutburst = ''glacier_outburst''"
| "hvtec_cause_name IceJam = ''ice_jam''"
| "hvtec_cause_name RainSnowmeltIceJam = ''rain_snowmelt_ice_jam''"
| "hvtec_cause_name UpstreamFloodingStormSurge = ''upstream_flooding_storm_surge''"
| "hvtec_cause_name UpstreamFloodingTidalEffects = ''upstream_flooding_tidal_effects''"
| "hvtec_cause_name ElevatedUpstreamFlowTidalEffects = ''elevated_upstream_flow_tidal_effects''"
| "hvtec_cause_name WindTidalEffects = ''wind_tidal_effects''"
| "hvtec_cause_name UpstreamDamRelease = ''upstream_dam_release''"
| "hvtec_cause_name MultipleCauses = ''multiple_causes''"
| "hvtec_cause_name OtherEffects = ''other_effects''"
| "hvtec_cause_name CauseUnknown = ''unknown''"
| "hvtec_cause_name CauseOther = ''other''"

fun hvtec_record_name :: "hvtec_record \<Rightarrow> str" where
  "hvtec_record_name NoRecord = ''no_record''"
| "hvtec_record_name NearRecord = ''near_record''"
| "hvtec_record_name NotApplicable = ''not_applicable''"
| "hvtec_record_name Unavailable = ''unavailable''"
| "hvtec_record_name RecordUnknown = ''unknown''"

fun wind_hail_kind_name :: "wind_hail_kind \<Rightarrow> str" where
  "wind_hail_kind_name LegacyWind = ''legacy_wind''"
| "wind_hail_kind_name LegacyHail = ''legacy_hail''"
| "wind_hail_kind_name WindThreat = ''wind_threat''"
| "wind_hail_kind_name MaxWindGust = ''max_wind_gust''"
| "wind_hail_kind_name HailThreat = ''hail_threat''"
| "wind_hail_kind_name MaxHailSize = ''max_hail_size''"

definition is_wind_entry :: "wind_hail_entry \<Rightarrow> bool" where
  "is_wind_entry e \<longleftrightarrow> wd_kind e = LegacyWind \<or> wd_kind e = MaxWindGust"

definition is_hail_entry :: "wind_hail_entry \<Rightarrow> bool" where
  "is_hail_entry e \<longleftrightarrow> wd_kind e = LegacyHail \<or> wd_kind e = MaxHailSize"

definition wind_speed_mph :: "f64 \<Rightarrow> str \<Rightarrow> f64" where
  "wind_speed_mph value units =
     (let u = normalize_upper units in
      if u = ''KTS'' \<or> u = ''KT'' then f64_times value (f64_of_rat (115078 / 100000)) else value)"

section \<open>Metadata\<close>

record wmo_office_entry =
  wo_code :: str
  wo_office_name :: str
  wo_city :: str
  wo_state :: str

record 'a product_enrichment =
  pe_source :: product_source
  pe_family :: "str option"
  pe_title :: "str option"
  pe_container :: str
  pe_pil :: "str option"
  pe_wmo_prefix :: "str option"
  pe_office :: "wmo_office_entry option"
  pe_header :: "text_product_header option"
  pe_wmo_header :: "wmo_header option"
  pe_bbb_kind :: "bbb_kind option"
  pe_body :: "product_body option"
  pe_parsed :: "'a option"
  pe_issues :: "parse_issue list"

datatype source_kind = SourceQbt | SourceWxWire str str "system_time option" | SourceUnknown

record 'a completed_file_metadata =
  cm_filename :: str
  cm_size :: nat
  cm_timestamp_utc :: u64
  cm_origin :: source_kind
  cm_product :: "'a product_enrichment"

section \<open>Size, product, header and issues\<close>

record size_range =
  sr_min :: "nat option"
  sr_max :: "nat option"

definition size_has_constraints :: "size_range \<Rightarrow> bool" where
  "size_has_constraints f \<longleftrightarrow> sr_min f \<noteq> None \<or> sr_max f \<noteq> None"

definition size_matches :: "size_range \<Rightarrow> nat \<Rightarrow> bool" where
  "size_matches f n =
     (if (case sr_min f of Some lo \<Rightarrow> n < lo | None \<Rightarrow> False) then False
      else if (case sr_max f of Some hi \<Rightarrow> n > hi | None \<Rightarrow> False) then False
      else True)"

record product_filter =
  pf_source :: "str set option"
  pf_pil :: "str set option"
  pf_family :: "str set option"
  pf_container :: "str set option"
  pf_wmo_prefix :: "str set option"
  pf_office :: "str set option"
  pf_office_city :: "str set option"
  pf_office_state :: "str set option"
  pf_bbb_kind :: "str set option"

definition product_has_constraints :: "product_filter \<Rightarrow> bool" where
  "product_has_constraints f \<longleftrightarrow>
     pf_source f \<noteq> None \<or> pf_pil f \<noteq> None \<or> pf_family f \<noteq> None \<or> pf_container f \<noteq> None \<or> pf_wmo_prefix f \<noteq> None \<or>
     pf_office f \<noteq> None \<or> pf_office_city f \<noteq> None \<or> pf_office_state f \<noteq> None \<or> pf_bbb_kind f \<noteq> None"

definition product_matches :: "product_filter \<Rightarrow> 'a product_enrichment \<Rightarrow> bool" where
  "product_matches f p \<longleftrightarrow>
     matches_serialized_option (pf_source f) (Some (pe_source p)) product_source_name \<and>
     matches_option_set (pf_pil f) (pe_pil p) normalize_upper \<and>
     matches_option_set (pf_family f) (pe_family p) normalize_lower \<and>
     matches_option_set (pf_container f) (Some (pe_container p)) normalize_lower \<and>
     matches_option_set (pf_wmo_prefix f) (pe_wmo_prefix p) normalize_upper \<and>
     matches_option_set (pf_office f) (map_option wo_code (pe_office p)) normalize_upper \<and>
     matches_option_set (pf_office_city f) (map_option wo_city (pe_office p)) normalize_lower \<and>
     matches_option_set (pf_office_state f) (map_option wo_state (pe_office p)) normalize_upper \<and>
     matches_serialized_option (pf_bbb_kind f) (pe_bbb_kind p) bbb_kind_name"

record header_filter =
  hf_cccc_in :: "str set option"
  hf_ttaaii_in :: "str set option"
  hf_afos_in :: "str set option"
  hf_bbb_in :: "str set option"

definition header_has_constraints :: "header_filter \<Rightarrow> bool" where
  "header_has_constraints f \<longleftrightarrow> hf_cccc_in f \<noteq> None \<or> hf_ttaaii_in f \<noteq> None \<or> hf_afos_in f \<noteq> None \<or> hf_bbb_in f \<noteq> None"

definition header_matches :: "header_filter \<Rightarrow> 'a product_enrichment \<Rightarrow> bool" where
  "header_matches f p =
     (if \<not> header_has_constraints f then True
      else
        let header = (case pe_header p of
              None \<Rightarrow> False
            | Some h \<Rightarrow>
                matches_option_set (hf_cccc_in f) (Some (th_cccc h)) normalize_upper \<and>
                matches_option_set (hf_ttaaii_in f) (Some (th_ttaaii h)) normalize_upper \<and>
                matches_option_set (hf_afos_in f) (Some (th_afos h)) normalize_upper \<and>
                matches_option_set (hf_bbb_in f) (th_bbb h) normalize_upper);
            wmo_header = (case pe_wmo_header p of
              None \<Rightarrow> False
            | Some h \<Rightarrow>
                matches_option_set (hf_cccc_in f) (Some (wh_cccc h)) normalize_upper \<and>
                matches_option_set (hf_ttaaii_in f) (Some (wh_ttaaii h)) normalize_upper \<and>
                hf_afos_in f = None \<and>
                matches_option_set (hf_bbb_in f) (wh_bbb h) normalize_upper)
        in header \<or> wmo_header)"

record issue_filter =
  if_has_issues :: "bool option"
  if_kinds :: "str set option"
  if_codes :: "str set option"

definition issues_has_constraints :: "issue_filter \<Rightarrow> bool" where
  "issues_has_constraints f \<longleftrightarrow> if_has_issues f \<noteq> None \<or> if_kinds f \<noteq> None \<or> if_codes f \<noteq> None"

definition issues_matches :: "issue_filter \<Rightarrow> parse_issue list \<Rightarrow> bool" where
  "issues_matches f issues =
     (if (case if_has_issues f of Some b \<Rightarrow> b = (issues = []) | None \<Rightarrow> False) then False
      else if (case if_kinds f of Some ks \<Rightarrow> \<not> list_ex (\<lambda>i. normalize_lower (pi_kind i) \<in> ks) issues | None \<Rightarrow> False) then False
      else if (case if_codes f of Some cs \<Rightarrow> \<not> list_ex (\<lambda>i. normalize_lower (pi_code i) \<in> cs) issues | None \<Rightarrow> False) then False
      else True)"

section \<open>Views of the body\<close>

fun body_ugc_sections :: "product_body \<Rightarrow> ugc_sec list" where
  "body_ugc_sections (VtecEventBody segments) = concat (map vs_ugc_sections segments)"
| "body_ugc_sections (GenericBody b) = opt_list (gn_ugc b)"

fun body_vtec_codes :: "product_body \<Rightarrow> vtec_code list" where
  "body_vtec_codes (VtecEventBody segments) = concat (map vs_vtec segments)"
| "body_vtec_codes (GenericBody b) = []"

fun body_hvtec_codes :: "product_body \<Rightarrow> hvtec list" where
  "body_hvtec_codes (VtecEventBody segments) = concat (map vs_hvtec segments)"
| "body_hvtec_codes (GenericBody b) = []"

fun body_wind_hail_entries :: "product_body \<Rightarrow> wind_hail_entry list" where
  "body_wind_hail_entries (VtecEventBody segments) = concat (map vs_wind_hail segments)"
| "body_wind_hail_entries (GenericBody b) = opt_list (gn_wind_hail b)"

definition opt_len :: "'a list option \<Rightarrow> nat" where
  "opt_len o' = (case o' of None \<Rightarrow> 0 | Some xs \<Rightarrow> length xs)"

fun body_vtec_codes_len :: "product_body \<Rightarrow> nat" where
  "body_vtec_codes_len (VtecEventBody segments) = sum_list (map (\<lambda>s. length (vs_vtec s)) segments)"
| "body_vtec_codes_len (GenericBody b) = 0"

fun body_ugc_sections_len :: "product_body \<Rightarrow> nat" where
  "body_ugc_sections_len (VtecEventBody segments) = sum_list (map (\<lambda>s. length (vs_ugc_sections s)) segments)"
| "body_ugc_sections_len (GenericBody b) = opt_len (gn_ugc b)"

fun body_hvtec_codes_len :: "product_body \<Rightarrow> nat" where
  "body_hvtec_codes_len (VtecEventBody segments) = sum_list (map (\<lambda>s. length (vs_hvtec s)) segments)"
| "body_hvtec_codes_len (GenericBody b) = 0"

fun body_latlon_len :: "product_body \<Rightarrow> nat" where
  "body_latlon_len (VtecEventBody segments) = sum_list (map (\<lambda>s. length (vs_polygons s)) segments)"
| "body_latlon_len (GenericBody b) = opt_len (gn_latlon b)"

fun body_time_mot_loc_len :: "product_body \<Rightarrow> nat" where
  "body_time_mot_loc_len (VtecEventBody segments) = sum_list (map (\<lambda>s. length (vs_time_mot_loc s)) segments)"
| "body_time_mot_loc_len (GenericBody b) = opt_len (gn_time_mot_loc b)"

fun body_wind_hail_len :: "product_body \<Rightarrow> nat" where
  "body_wind_hail_len (VtecEventBody segments) = sum_list (map (\<lambda>s. length (vs_wind_hail s)) segments)"
| "body_wind_hail_len (GenericBody b) = opt_len (gn_wind_hail b)"

record body_presence_filter =
  bf_has_vtec :: "bool option"
  bf_has_ugc :: "bool option"
  bf_has_hvtec :: "bool option"
  bf_has_latlon :: "bool option"
  bf_has_time_mot_loc :: "bool option"
  bf_has_wind_hail :: "bool option"

definition presence_has_constraints :: "body_presence_filter \<Rightarrow> bool" where
  "presence_has_constraints f \<longleftrightarrow>
     bf_has_vtec f \<noteq> None \<or> bf_has_ugc f \<noteq> None \<or> bf_has_hvtec f \<noteq> None \<or> bf_has_latlon f \<noteq> None \<or>
     bf_has_time_mot_loc f \<noteq> None \<or> bf_has_wind_hail f \<noteq> None"

definition body_count :: "product_body option \<Rightarrow> (product_body \<Rightarrow> nat) \<Rightarrow> nat" where
  "body_count body f = (case body of None \<Rightarrow> 0 | Some b \<Rightarrow> f b)"

definition presence_matches :: "body_presence_filter \<Rightarrow> product_body option \<Rightarrow> bool" where
  "presence_matches f body \<longleftrightarrow>
     matches_optional_presence (bf_has_vtec f) (body_count body body_vtec_codes_len) \<and>
     matches_optional_presence (bf_has_ugc f) (body_count body body_ugc_sections_len) \<and>
     matches_optional_presence (bf_has_hvtec f) (body_count body body_hvtec_codes_len) \<and>
     matches_optional_presence (bf_has_latlon f) (body_count body body_latlon_len) \<and>
     matches_optional_presence (bf_has_time_mot_loc f) (body_count body body_time_mot_loc_len) \<and>
     matches_optional_presence (bf_has_wind_hail f) (body_count body body_wind_hail_len)"

section \<open>Geography, VTEC, HVTEC, wind and hail\<close>

record geo_filter =
  gf_states :: "str set option"
  gf_counties :: "str set option"
  gf_zones :: "str set option"
  gf_fire_zones :: "str set option"
  gf_marine_zones :: "str set option"

definition geo_has_constraints :: "geo_filter \<Rightarrow> bool" where
  "geo_has_constraints f \<longleftrightarrow>
     gf_states f \<noteq> None \<or> gf_counties f \<noteq> None \<or> gf_zones f \<noteq> None \<or> gf_fire_zones f \<noteq> None \<or> gf_marine_zones f \<noteq> None"

definition matches_geo_states :: "str set option \<Rightarrow> ugc_sec list \<Rightarrow> bool" where
  "matches_geo_states allowed sections =
     (case allowed of
        None \<Rightarrow> True
      | Some allowed \<Rightarrow>
          list_ex (\<lambda>s.
            list_ex (\<lambda>k. k \<in> allowed) (map fst (us_counties s)) \<or> list_ex (\<lambda>k. k \<in> allowed) (map fst (us_zones s)) \<or>
            list_ex (\<lambda>k. k \<in> allowed) (map fst (us_fire_zones s)) \<or> list_ex (\<lambda>k. k \<in> allowed) (map fst (us_marine_zones s)))
            sections)"

definition matches_enriched_ugc_codes ::
    "str set option \<Rightarrow> ugc_sec list \<Rightarrow> (ugc_sec \<Rightarrow> f64 bucket) \<Rightarrow> char \<Rightarrow> bool" where
  "matches_enriched_ugc_codes allowed sections select class_code =
     (case allowed of
        None \<Rightarrow> True
      | Some allowed \<Rightarrow>
          list_ex (\<lambda>s. list_ex (\<lambda>(state, areas). list_ex (\<lambda>area. canonical_code class_code state area \<in> allowed) areas) (select s))
            sections)"

definition geo_matches :: "geo_filter \<Rightarrow> product_body option \<Rightarrow> bool" where
  "geo_matches f body =
     (if \<not> geo_has_constraints f then True
      else case body of
          None \<Rightarrow> False
        | Some body \<Rightarrow>
            (let sections = body_ugc_sections body in
             if sections = [] then False
             else
               matches_geo_states (gf_states f) sections \<and>
               matches_enriched_ugc_codes (gf_counties f) sections us_counties CHR ''C'' \<and>
               matches_enriched_ugc_codes (gf_zones f) sections us_zones CHR ''Z'' \<and>
               matches_enriched_ugc_codes (gf_fire_zones f) sections us_fire_zones CHR ''F'' \<and>
               matches_enriched_ugc_codes (gf_marine_zones f) sections us_marine_zones CHR ''Z''))"

record vtec_filter =
  vf_phenomena_in :: "str set option"
  vf_significance_in :: "str set option"
  vf_action_in :: "str set option"
  vf_office_in :: "str set option"
  vf_etn_in :: "u32 set option"

definition vtec_has_constraints :: "vtec_filter \<Rightarrow> bool" where
  "vtec_has_constraints f \<longleftrightarrow>
     vf_phenomena_in f \<noteq> None \<or> vf_significance_in f \<noteq> None \<or> vf_action_in f \<noteq> None \<or> vf_office_in f \<noteq> None \<or> vf_etn_in f \<noteq> None"

text \<open>\<^verbatim>\<open>to_ascii_uppercase().to_string()\<close> of a significance, which is an ASCII character.\<close>

definition matches_char_set :: "str set option \<Rightarrow> char \<Rightarrow> bool" where
  "matches_char_set allowed value = (case allowed of None \<Rightarrow> True | Some allowed \<Rightarrow> [to_upper value] \<in> allowed)"

definition vtec_matches_code :: "vtec_filter \<Rightarrow> vtec_code \<Rightarrow> bool" where
  "vtec_matches_code f code \<longleftrightarrow>
     matches_option_set (vf_phenomena_in f) (Some (vt_phenomena code)) normalize_upper \<and>
     matches_char_set (vf_significance_in f) (vt_significance code) \<and>
     matches_option_set (vf_action_in f) (Some (vt_action code)) normalize_upper \<and>
     matches_option_set (vf_office_in f) (Some (vt_office code)) normalize_upper \<and>
     matches_number_set (vf_etn_in f) (vt_etn code)"

definition vtec_matches :: "vtec_filter \<Rightarrow> product_body option \<Rightarrow> bool" where
  "vtec_matches f body =
     (if \<not> vtec_has_constraints f then True
      else case body of
          None \<Rightarrow> False
        | Some body \<Rightarrow>
            (let codes = body_vtec_codes body in
             if codes = [] then False else list_ex (vtec_matches_code f) codes))"

record hvtec_filter =
  xf_present :: "bool option"
  xf_nwslid :: "str set option"
  xf_severity :: "str set option"
  xf_cause :: "str set option"
  xf_record :: "str set option"

definition hvtec_has_constraints :: "hvtec_filter \<Rightarrow> bool" where
  "hvtec_has_constraints f \<longleftrightarrow>
     xf_present f \<noteq> None \<or> xf_nwslid f \<noteq> None \<or> xf_severity f \<noteq> None \<or> xf_cause f \<noteq> None \<or> xf_record f \<noteq> None"

definition hvtec_matches_code :: "hvtec_filter \<Rightarrow> hvtec \<Rightarrow> bool" where
  "hvtec_matches_code f code \<longleftrightarrow>
     matches_option_set (xf_nwslid f) (Some (hv_nwslid code)) normalize_upper \<and>
     matches_serialized_option (xf_severity f) (Some (hv_severity code)) hvtec_severity_name \<and>
     matches_serialized_option (xf_cause f) (Some (hv_cause code)) hvtec_cause_name \<and>
     matches_serialized_option (xf_record f) (Some (hv_record code)) hvtec_record_name"

definition hvtec_matches :: "hvtec_filter \<Rightarrow> product_body option \<Rightarrow> bool" where
  "hvtec_matches f body =
     (if \<not> hvtec_has_constraints f then True
      else
        let codes = (case body of None \<Rightarrow> [] | Some b \<Rightarrow> body_hvtec_codes b) in
        if (case xf_present f of Some present \<Rightarrow> present = (codes = []) | None \<Rightarrow> False) then False
        else if xf_nwslid f = None \<and> xf_severity f = None \<and> xf_cause f = None \<and> xf_record f = None then True
        else if codes = [] then False
        else list_ex (hvtec_matches_code f) codes)"

record wind_hail_filter =
  wf_present :: "bool option"
  wf_kinds :: "str set option"
  wf_min_wind_mph :: "f64 option"
  wf_min_hail_inches :: "f64 option"

definition wind_hail_has_constraints :: "wind_hail_filter \<Rightarrow> bool" where
  "wind_hail_has_constraints f \<longleftrightarrow>
     wf_present f \<noteq> None \<or> wf_kinds f \<noteq> None \<or> wf_min_wind_mph f \<noteq> None \<or> wf_min_hail_inches f \<noteq> None"

definition wind_at_least :: "f64 \<Rightarrow> wind_hail_entry \<Rightarrow> bool" where
  "wind_at_least min_mph e \<longleftrightarrow>
     is_wind_entry e \<and>
     (case (wd_numeric_value e, wd_units e) of (Some v, Some u) \<Rightarrow> f64_le min_mph (wind_speed_mph v u) | _ \<Rightarrow> False)"

definition hail_at_least :: "f64 \<Rightarrow> wind_hail_entry \<Rightarrow> bool" where
  "hail_at_least min_inches e \<longleftrightarrow>
     is_hail_entry e \<and> (case wd_numeric_value e of Some v \<Rightarrow> f64_le min_inches v | None \<Rightarrow> False)"

definition wind_hail_matches :: "wind_hail_filter \<Rightarrow> product_body option \<Rightarrow> bool" where
  "wind_hail_matches f body =
     (if \<not> wind_hail_has_constraints f then True
      else
        let entries = (case body of None \<Rightarrow> [] | Some b \<Rightarrow> body_wind_hail_entries b) in
        if (case wf_present f of Some present \<Rightarrow> present = (entries = []) | None \<Rightarrow> False) then False
        else if entries = [] then wf_kinds f = None \<and> wf_min_wind_mph f = None \<and> wf_min_hail_inches f = None
        else if (case wf_kinds f of Some ks \<Rightarrow> \<not> list_ex (\<lambda>e. wind_hail_kind_name (wd_kind e) \<in> ks) entries | None \<Rightarrow> False) then False
        else if (case wf_min_wind_mph f of Some m \<Rightarrow> \<not> list_ex (wind_at_least m) entries | None \<Rightarrow> False) then False
        else if (case wf_min_hail_inches f of Some m \<Rightarrow> \<not> list_ex (hail_at_least m) entries | None \<Rightarrow> False) then False
        else True)"

section \<open>Location\<close>

record location_bounding_box =
  lb_min_lat :: f64
  lb_max_lat :: f64
  lb_min_lon :: f64
  lb_max_lon :: f64

record location_filter =
  lf_center :: "geo_point option"
  lf_distance_miles :: "f64 option"
  lf_bbox :: "location_bounding_box option"

definition DEFAULT_DISTANCE_MILES :: f64 where
  "DEFAULT_DISTANCE_MILES = Finite 5"

definition location_has_constraints :: "location_filter \<Rightarrow> bool" where
  "location_has_constraints f \<longleftrightarrow> lf_center f \<noteq> None \<or> lf_bbox f \<noteq> None"

definition in_range :: "rat \<Rightarrow> f64 \<Rightarrow> bool" where
  "in_range bound value \<longleftrightarrow> f64_is_finite value \<and> f64_le (Finite (- bound)) value \<and> f64_le value (Finite bound)"

definition validate_lat :: "str \<Rightarrow> f64 \<Rightarrow> str + unit" where
  "validate_lat name value =
     (if \<not> in_range 90 value then Inl (name @ '' must be a finite value between -90 and 90'') else Inr ())"

definition validate_lon :: "str \<Rightarrow> f64 \<Rightarrow> str + unit" where
  "validate_lon name value =
     (if \<not> in_range 180 value then Inl (name @ '' must be a finite value between -180 and 180'') else Inr ())"

definition sbind :: "'e + 'a \<Rightarrow> ('a \<Rightarrow> 'e + 'b) \<Rightarrow> 'e + 'b" where
  "sbind r f = (case r of Inl e \<Rightarrow> Inl e | Inr x \<Rightarrow> f x)"

definition center_from_input :: "file_filter_input \<Rightarrow> str + geo_point option" where
  "center_from_input input =
     (if (fi_lat input \<noteq> None) \<noteq> (fi_lon input \<noteq> None) then Inl ''lat and lon must be provided together''
      else case (fi_lat input, fi_lon input) of
          (Some lat, Some lon) \<Rightarrow>
            sbind (validate_lat ''lat'' lat) (\<lambda>_. sbind (validate_lon ''lon'' lon) (\<lambda>_.
              Inr (Some \<lparr>gp_lat = lat, gp_lon = lon\<rparr>)))
        | _ \<Rightarrow> Inr None)"

definition distance_from_input :: "file_filter_input \<Rightarrow> geo_point option \<Rightarrow> str + f64 option" where
  "distance_from_input input center =
     (case fi_distance_miles input of
        Some d \<Rightarrow>
          (if center = None then Inl ''distance_miles requires both lat and lon''
           else if \<not> f64_is_finite d \<or> f64_le d (Finite 0) then Inl ''distance_miles must be a finite value greater than 0''
           else Inr (Some d))
      | None \<Rightarrow> Inr (if center \<noteq> None then Some DEFAULT_DISTANCE_MILES else None))"

definition bbox_from_input :: "file_filter_input \<Rightarrow> str + location_bounding_box option" where
  "bbox_from_input input =
     (case (fi_min_lat input, fi_max_lat input, fi_min_lon input, fi_max_lon input) of
        (None, None, None, None) \<Rightarrow> Inr None
      | (Some min_lat, Some max_lat, Some min_lon, Some max_lon) \<Rightarrow>
          sbind (validate_lat ''min_lat'' min_lat) (\<lambda>_. sbind (validate_lat ''max_lat'' max_lat) (\<lambda>_.
          sbind (validate_lon ''min_lon'' min_lon) (\<lambda>_. sbind (validate_lon ''max_lon'' max_lon) (\<lambda>_.
            if f64_lt max_lat min_lat then Inl ''min_lat must be less than or equal to max_lat''
            else if f64_lt max_lon min_lon then Inl ''min_lon must be less than or equal to max_lon''
            else Inr (Some \<lparr>lb_min_lat = min_lat, lb_max_lat = max_lat, lb_min_lon = min_lon, lb_max_lon = max_lon\<rparr>)))))
      | _ \<Rightarrow> Inl ''min_lat, max_lat, min_lon, and max_lon must be provided together'')"

definition location_from_input :: "file_filter_input \<Rightarrow> str + location_filter" where
  "location_from_input input =
     sbind (center_from_input input) (\<lambda>center.
     sbind (distance_from_input input center) (\<lambda>distance.
     sbind (bbox_from_input input) (\<lambda>bbox.
       Inr \<lparr>lf_center = center, lf_distance_miles = distance, lf_bbox = bbox\<rparr>)))"

definition point_in_bbox :: "geo_point \<Rightarrow> location_bounding_box \<Rightarrow> bool" where
  "point_in_bbox p b \<longleftrightarrow>
     f64_le (lb_min_lat b) (gp_lat p) \<and> f64_le (gp_lat p) (lb_max_lat b) \<and>
     f64_le (lb_min_lon b) (gp_lon p) \<and> f64_le (gp_lon p) (lb_max_lon b)"

definition bbox_corners :: "location_bounding_box \<Rightarrow> geo_point list" where
  "bbox_corners b =
     [\<lparr>gp_lat = lb_min_lat b, gp_lon = lb_min_lon b\<rparr>, \<lparr>gp_lat = lb_min_lat b, gp_lon = lb_max_lon b\<rparr>,
      \<lparr>gp_lat = lb_max_lat b, gp_lon = lb_max_lon b\<rparr>, \<lparr>gp_lat = lb_max_lat b, gp_lon = lb_min_lon b\<rparr>]"

text \<open>The turn from \<open>a\<close> over \<open>b\<close> to \<open>c\<close>, collinear within the tolerance.\<close>

definition turn :: "geo_point \<Rightarrow> geo_point \<Rightarrow> geo_point \<Rightarrow> int" where
  "turn a b c =
     (let value = f64_minus
            (f64_times (f64_minus (gp_lon b) (gp_lon a)) (f64_minus (gp_lat c) (gp_lat b)))
            (f64_times (f64_minus (gp_lat b) (gp_lat a)) (f64_minus (gp_lon c) (gp_lon b)))
      in if f64_lt (f64_abs value) (f64_of_rat (1 / 10 ^ 9)) then 0
         else if f64_lt (Finite 0) value then 1 else - 1)"

definition on_segment :: "geo_point \<Rightarrow> geo_point \<Rightarrow> geo_point \<Rightarrow> bool" where
  "on_segment start middle stop \<longleftrightarrow>
     f64_le (f64_min (gp_lon start) (gp_lon stop)) (gp_lon middle) \<and>
     f64_le (gp_lon middle) (f64_max (gp_lon start) (gp_lon stop)) \<and>
     f64_le (f64_min (gp_lat start) (gp_lat stop)) (gp_lat middle) \<and>
     f64_le (gp_lat middle) (f64_max (gp_lat start) (gp_lat stop))"

definition location_segments_intersect :: "geo_point \<Rightarrow> geo_point \<Rightarrow> geo_point \<Rightarrow> geo_point \<Rightarrow> bool" where
  "location_segments_intersect a_start a_end b_start b_end =
     (let o1 = turn a_start a_end b_start; o2 = turn a_start a_end b_end;
          o3 = turn b_start b_end a_start; o4 = turn b_start b_end a_end
      in (o1 \<noteq> o2 \<and> o3 \<noteq> o4) \<or>
         (o1 = 0 \<and> on_segment a_start b_start a_end) \<or> (o2 = 0 \<and> on_segment a_start b_end a_end) \<or>
         (o3 = 0 \<and> on_segment b_start a_start b_end) \<or> (o4 = 0 \<and> on_segment b_start a_end b_end))"

definition bbox_edges :: "location_bounding_box \<Rightarrow> (geo_point \<times> geo_point) list" where
  "bbox_edges b = (let cs = bbox_corners b in [(cs ! 0, cs ! 1), (cs ! 1, cs ! 2), (cs ! 2, cs ! 3), (cs ! 3, cs ! 0)])"

definition segment_intersects_bbox :: "coord \<Rightarrow> coord \<Rightarrow> location_bounding_box \<Rightarrow> bool" where
  "segment_intersects_bbox start stop b \<longleftrightarrow>
     point_in_bbox (geo_at start) b \<or> point_in_bbox (geo_at stop) b \<or>
     list_ex (\<lambda>(e, e'). location_segments_intersect (geo_at start) (geo_at stop) e e') (bbox_edges b)"

fun time_mot_loc_paths :: "product_body \<Rightarrow> coord list list" where
  "time_mot_loc_paths (VtecEventBody segments) = concat (map (\<lambda>s. map tm_points (vs_time_mot_loc s)) segments)"
| "time_mot_loc_paths (GenericBody b) = map tm_points (opt_list (gn_time_mot_loc b))"

definition path_intersects_bbox :: "coord list \<Rightarrow> location_bounding_box \<Rightarrow> bool" where
  "path_intersects_bbox path b \<longleftrightarrow> list_ex (\<lambda>(p, q). segment_intersects_bbox p q b) (zip path (tl path))"

definition matches_bbox :: "product_body \<Rightarrow> location_bounding_box \<Rightarrow> bool" where
  "matches_bbox body b \<longleftrightarrow>
     list_ex (\<lambda>polygon.
       list_ex (\<lambda>p. point_in_bbox (geo_at p) b) (pp_points polygon) \<or>
       list_ex (\<lambda>corner. point_in_polygon corner (pp_points polygon)) (bbox_corners b) \<or>
       path_intersects_bbox (pp_points polygon) b) (iter_polygons body) \<or>
     list_ex (\<lambda>path. path_intersects_bbox path b) (time_mot_loc_paths body) \<or>
     list_ex (\<lambda>p. point_in_bbox p b) (iter_location_points body)"

definition location_matches :: "libm \<Rightarrow> location_filter \<Rightarrow> product_body option \<Rightarrow> bool" where
  "location_matches lm f body =
     (if \<not> location_has_constraints f then True
      else case body of
          None \<Rightarrow> False
        | Some body \<Rightarrow>
            if (case lf_bbox f of Some b \<Rightarrow> \<not> matches_bbox body b | None \<Rightarrow> False) then False
            else case lf_center f of
                None \<Rightarrow> True
              | Some center \<Rightarrow>
                  if list_ex (\<lambda>polygon.
                       (case pp_bounds polygon of Some bounds \<Rightarrow> bounds_contains bounds center | None \<Rightarrow> False) \<and>
                       point_in_polygon center (pp_points polygon)) (iter_polygons body) then True
                  else case lf_distance_miles f of
                      None \<Rightarrow> False
                    | Some radius \<Rightarrow> list_ex (\<lambda>p. f64_le (distance_miles lm center p) radius) (iter_location_points body))"

section \<open>File names\<close>

text \<open>The two-index matcher: \<open>star\<close> is the position of the last asterisk and \<open>mark\<close> the text position it has reached.\<close>

definition wildcard_sane :: "nat \<Rightarrow> nat \<Rightarrow> nat option \<Rightarrow> nat \<Rightarrow> bool" where
  "wildcard_sane i j star mark \<longleftrightarrow> (case star of None \<Rightarrow> True | Some k \<Rightarrow> k < i \<and> mark \<le> j)"

function wildcard_loop :: "str \<Rightarrow> str \<Rightarrow> nat \<Rightarrow> nat \<Rightarrow> nat option \<Rightarrow> nat \<Rightarrow> bool" where
  "wildcard_loop p t i j star mark =
     (if j < length t
      then if i < length p \<and> p ! i = t ! j then wildcard_loop p t (i + 1) (j + 1) star mark
           else if i < length p \<and> p ! i = CHR ''*'' then wildcard_loop p t (i + 1) j (Some i) j
           else case star of
               Some k \<Rightarrow> wildcard_loop p t (k + 1) (mark + 1) star (mark + 1)
             | None \<Rightarrow> False
      else dropWhile (\<lambda>c. c = CHR ''*'') (drop i p) = [])"
  by pat_completeness auto
termination
  by (relation "measures
        [\<lambda>(p, t, i, j, star, mark). if wildcard_sane i j star mark then 0 else 1,
         \<lambda>(p, t, i, j, star, mark). length p - (case star of None \<Rightarrow> 0 | Some k \<Rightarrow> Suc k),
         \<lambda>(p, t, i, j, star, mark). length t - mark,
         \<lambda>(p, t, i, j, star, mark). (length p - i) + (length t - j)]")
     (auto simp: wildcard_sane_def split: option.splits)

declare wildcard_loop.simps [simp del]

definition wildcard_match :: "str \<Rightarrow> str \<Rightarrow> bool" where
  "wildcard_match pattern name = wildcard_loop (to_ascii_lowercase pattern) (to_ascii_lowercase name) 0 0 None 0"

section \<open>The filter\<close>

record file_event_filter =
  ef_filename_pattern :: "str option"
  ef_size :: size_range
  ef_product :: product_filter
  ef_header :: header_filter
  ef_issues :: issue_filter
  ef_geo :: geo_filter
  ef_vtec :: vtec_filter
  ef_hvtec :: hvtec_filter
  ef_wind_hail :: wind_hail_filter
  ef_location :: location_filter
  ef_presence :: body_presence_filter

definition size_inputs_bad :: "nat option \<Rightarrow> nat option \<Rightarrow> bool" where
  "size_inputs_bad lo hi \<longleftrightarrow> (case (lo, hi) of (Some l, Some h) \<Rightarrow> l > h | _ \<Rightarrow> False)"

definition filter_of_input :: "file_filter_input \<Rightarrow> location_filter \<Rightarrow> file_event_filter" where
  "filter_of_input input location =
     \<lparr>ef_filename_pattern = fi_filename input,
      ef_size = \<lparr>sr_min = fi_min_size input, sr_max = fi_max_size input\<rparr>,
      ef_product =
        \<lparr>pf_source = csv_values (fi_source input) normalize_lower,
         pf_pil = csv_values (fi_pil input) normalize_upper,
         pf_family = csv_values (fi_family input) normalize_lower,
         pf_container = csv_values (fi_container input) normalize_lower,
         pf_wmo_prefix = csv_values (fi_wmo_prefix input) normalize_upper,
         pf_office = csv_values (fi_office input) normalize_upper,
         pf_office_city = csv_values (fi_office_city input) normalize_lower,
         pf_office_state = csv_values (fi_office_state input) normalize_upper,
         pf_bbb_kind = csv_values (fi_bbb_kind input) normalize_lower\<rparr>,
      ef_header =
        \<lparr>hf_cccc_in = csv_values (fi_cccc input) normalize_upper,
         hf_ttaaii_in = csv_values (fi_ttaaii input) normalize_upper,
         hf_afos_in = csv_values (fi_afos input) normalize_upper,
         hf_bbb_in = csv_values (fi_bbb input) normalize_upper\<rparr>,
      ef_issues =
        \<lparr>if_has_issues = parse_optional_bool (fi_has_issues input),
         if_kinds = csv_values (fi_issue_kind input) normalize_lower,
         if_codes = csv_values (fi_issue_code input) normalize_lower\<rparr>,
      ef_geo =
        \<lparr>gf_states = csv_values (fi_state input) normalize_upper,
         gf_counties = csv_values (fi_county input) normalize_upper,
         gf_zones = csv_values (fi_zone input) normalize_upper,
         gf_fire_zones = csv_values (fi_fire_zone input) normalize_upper,
         gf_marine_zones = csv_values (fi_marine_zone input) normalize_upper\<rparr>,
      ef_vtec =
        \<lparr>vf_phenomena_in = csv_values (fi_vtec_phenomena input) normalize_upper,
         vf_significance_in = csv_values (fi_vtec_significance input) normalize_upper,
         vf_action_in = csv_values (fi_vtec_action input) normalize_upper,
         vf_office_in = csv_values (fi_vtec_office input) normalize_upper,
         vf_etn_in = csv_numbers (fi_etn input)\<rparr>,
      ef_hvtec =
        \<lparr>xf_present = parse_optional_bool (fi_has_hvtec input),
         xf_nwslid = csv_values (fi_hvtec_nwslid input) normalize_upper,
         xf_severity = csv_values (fi_hvtec_severity input) normalize_lower,
         xf_cause = csv_values (fi_hvtec_cause input) normalize_lower,
         xf_record = csv_values (fi_hvtec_record input) normalize_lower\<rparr>,
      ef_wind_hail =
        \<lparr>wf_present = parse_optional_bool (fi_has_wind_hail input),
         wf_kinds = csv_values (fi_wind_hail_kind input) normalize_lower,
         wf_min_wind_mph = fi_min_wind_mph input,
         wf_min_hail_inches = fi_min_hail_inches input\<rparr>,
      ef_location = location,
      ef_presence =
        \<lparr>bf_has_vtec = parse_optional_bool (fi_has_vtec input),
         bf_has_ugc = parse_optional_bool (fi_has_ugc input),
         bf_has_hvtec = parse_optional_bool (fi_has_hvtec input),
         bf_has_latlon = parse_optional_bool (fi_has_latlon input),
         bf_has_time_mot_loc = parse_optional_bool (fi_has_time_mot_loc input),
         bf_has_wind_hail = parse_optional_bool (fi_has_wind_hail input)\<rparr>\<rparr>"

definition filter_try_from_input :: "file_filter_input \<Rightarrow> str + file_event_filter" where
  "filter_try_from_input input =
     sbind (location_from_input input) (\<lambda>location.
       if size_inputs_bad (fi_min_size input) (fi_max_size input)
       then Inl ''min_size must be less than or equal to max_size''
       else Inr (filter_of_input input location))"

definition has_constraints :: "file_event_filter \<Rightarrow> bool" where
  "has_constraints f \<longleftrightarrow>
     ef_filename_pattern f \<noteq> None \<or> size_has_constraints (ef_size f) \<or> product_has_constraints (ef_product f) \<or>
     header_has_constraints (ef_header f) \<or> issues_has_constraints (ef_issues f) \<or> geo_has_constraints (ef_geo f) \<or>
     vtec_has_constraints (ef_vtec f) \<or> hvtec_has_constraints (ef_hvtec f) \<or>
     wind_hail_has_constraints (ef_wind_hail f) \<or> location_has_constraints (ef_location f) \<or>
     presence_has_constraints (ef_presence f)"

definition matches_metadata :: "libm \<Rightarrow> file_event_filter \<Rightarrow> 'a completed_file_metadata \<Rightarrow> bool" where
  "matches_metadata lm f m =
     (let product = cm_product m; body = pe_body (cm_product m) in
      if (case ef_filename_pattern f of Some pattern \<Rightarrow> \<not> wildcard_match pattern (cm_filename m) | None \<Rightarrow> False) then False
      else if \<not> size_matches (ef_size f) (cm_size m) then False
      else if \<not> product_matches (ef_product f) product then False
      else if \<not> header_matches (ef_header f) product then False
      else if \<not> issues_matches (ef_issues f) (pe_issues product) then False
      else if \<not> location_matches lm (ef_location f) body then False
      else if \<not> presence_matches (ef_presence f) body then False
      else if \<not> geo_matches (ef_geo f) body then False
      else if \<not> vtec_matches (ef_vtec f) body then False
      else if \<not> hvtec_matches (ef_hvtec f) body then False
      else wind_hail_matches (ef_wind_hail f) body)"

section \<open>The wildcard match\<close>

text \<open>The meaning of a pattern: an asterisk stands for any text, every other byte for itself.\<close>

fun glob :: "str \<Rightarrow> str \<Rightarrow> bool" where
  "glob [] t \<longleftrightarrow> t = []"
| "glob (c # p) t \<longleftrightarrow>
     (if c = CHR ''*'' then list_ex (\<lambda>k. glob p (drop k t)) [0..<Suc (length t)]
      else (case t of [] \<Rightarrow> False | d # u \<Rightarrow> c = d \<and> glob p u))"

lemma glob_star: "glob (CHR ''*'' # p) t \<longleftrightarrow> (\<exists>k \<le> length t. glob p (drop k t))"
  by (auto simp: list_ex_iff less_Suc_eq_le simp del: upt_Suc)

lemma glob_lit: "c \<noteq> CHR ''*'' \<Longrightarrow> glob (c # p) t \<longleftrightarrow> t \<noteq> [] \<and> hd t = c \<and> glob p (tl t)"
  by (cases t) auto

declare glob.simps(2) [simp del]

lemma glob_star_suffix: "glob (CHR ''*'' # p) u \<Longrightarrow> suffix u t \<Longrightarrow> glob (CHR ''*'' # p) t"
proof -
  assume "glob (CHR ''*'' # p) u" "suffix u t"
  then obtain x k where "t = x @ u" "k \<le> length u" "glob p (drop k u)" by (auto simp: glob_star suffix_def)
  then have "glob p (drop (length x + k) t)" "length x + k \<le> length t" by simp_all
  then show ?thesis unfolding glob_star by blast
qed

text \<open>Literal text at the start of a pattern.\<close>

lemma glob_literal:
  assumes "CHR ''*'' \<notin> set lit"
  shows "glob (lit @ p) t \<longleftrightarrow> prefix lit t \<and> glob p (drop (length lit) t)"
  using assms
proof (induction lit arbitrary: t)
  case (Cons c lit)
  then have c: "c \<noteq> CHR ''*''" "glob (lit @ p) u \<longleftrightarrow> prefix lit u \<and> glob p (drop (length lit) u)" for u by auto
  show ?case by (cases t) (simp_all add: glob_lit [OF c(1)] c(2), blast)
qed simp

lemma glob_empty: "glob p [] \<longleftrightarrow> dropWhile (\<lambda>c. c = CHR ''*'') p = []"
proof (induction p)
  case (Cons c p)
  then show ?case by (cases "c = CHR ''*''") (auto simp: glob_star glob_lit)
qed simp

text \<open>The loop tries the pattern from here, or the last asterisk with more text.\<close>

definition wildcard_open :: "str \<Rightarrow> str \<Rightarrow> nat option \<Rightarrow> nat \<Rightarrow> bool" where
  "wildcard_open p t star mark \<longleftrightarrow>
     (case star of None \<Rightarrow> False | Some k \<Rightarrow> \<exists>m. mark < m \<and> m \<le> length t \<and> glob (drop (Suc k) p) (drop m t))"

text \<open>Between the asterisk and the pattern position there is literal text, which the text shows from the mark on.\<close>

definition wildcard_inv :: "str \<Rightarrow> str \<Rightarrow> nat \<Rightarrow> nat \<Rightarrow> nat option \<Rightarrow> nat \<Rightarrow> bool" where
  "wildcard_inv p t i j star mark \<longleftrightarrow>
     i \<le> length p \<and> j \<le> length t \<and>
     (case star of
        None \<Rightarrow> True
      | Some k \<Rightarrow> k < i \<and> j = mark + (i - Suc k) \<and> CHR ''*'' \<notin> set (take (i - Suc k) (drop (Suc k) p)))"

lemma drop_literal: "k < i \<Longrightarrow> i \<le> length p \<Longrightarrow> drop (Suc k) p = take (i - Suc k) (drop (Suc k) p) @ drop i p"
  by (metis Suc_leI add_diff_cancel_left' append_take_drop_id drop_drop le_add_diff_inverse2 add.commute)

lemma ex_drop_shift:
  assumes "j \<le> length t"
  shows "(\<exists>m. j \<le> m \<and> m \<le> length t \<and> Q (drop m t)) \<longleftrightarrow> (\<exists>k \<le> length (drop j t). Q (drop k (drop j t)))"
proof
  assume "\<exists>m. j \<le> m \<and> m \<le> length t \<and> Q (drop m t)"
  then obtain m where "j \<le> m" "m \<le> length t" "Q (drop m t)" by blast
  then have "m - j \<le> length (drop j t)" "Q (drop (m - j) (drop j t))" by simp_all
  then show "\<exists>k \<le> length (drop j t). Q (drop k (drop j t))" by blast
next
  assume "\<exists>k \<le> length (drop j t). Q (drop k (drop j t))"
  then obtain k where "k \<le> length t - j" "Q (drop (k + j) t)" by (auto simp: add.commute)
  with assms have "j \<le> k + j" "k + j \<le> length t" by simp_all
  with \<open>Q (drop (k + j) t)\<close> show "\<exists>m. j \<le> m \<and> m \<le> length t \<and> Q (drop m t)" by blast
qed

lemma literal_snoc:
  assumes "k < i" "i < length p"
  shows "take (i - k) (drop (Suc k) p) = take (i - Suc k) (drop (Suc k) p) @ [p ! i]"
proof -
  have "i - k = Suc (i - Suc k)" using assms(1) by simp
  moreover have "i - Suc k < length (drop (Suc k) p)" "drop (Suc k) p ! (i - Suc k) = p ! i" using assms by simp_all
  ultimately show ?thesis by (metis take_Suc_conv_app_nth)
qed

text \<open>Another start of the last literal text fits only where the rest of the text is a suffix of the present one.\<close>

lemma wildcard_open_rest:
  assumes "wildcard_inv p t i j (Some k) mark" "mark < m" "m \<le> length t" "glob (drop (Suc k) p) (drop m t)"
  shows "glob (drop i p) (drop (m + (i - Suc k)) t)" "m + (i - Suc k) \<le> length t" "j < m + (i - Suc k)"
proof -
  let ?lit = "take (i - Suc k) (drop (Suc k) p)"
  have inv: "k < i" "i \<le> length p" "j = mark + (i - Suc k)" "CHR ''*'' \<notin> set ?lit"
    using assms(1) by (auto simp: wildcard_inv_def)
  then have len: "length ?lit = i - Suc k" by simp
  have "prefix ?lit (drop m t) \<and> glob (drop i p) (drop (length ?lit) (drop m t))"
    using assms(4) drop_literal [OF inv(1,2)] glob_literal [OF inv(4)] by metis
  then have pre: "prefix ?lit (drop m t)" and rest: "glob (drop i p) (drop (length ?lit) (drop m t))" by simp_all
  show "glob (drop i p) (drop (m + (i - Suc k)) t)" using rest unfolding len by (simp add: add.commute)
  show "m + (i - Suc k) \<le> length t" using prefix_length_le [OF pre, unfolded len] assms(3) by simp
  show "j < m + (i - Suc k)" using assms(2) inv(3) by simp
qed

lemma wildcard_open_step:
  assumes "mark < length t"
  shows "wildcard_open p t (Some k) mark \<longleftrightarrow>
    glob (drop (Suc k) p) (drop (Suc mark) t) \<or> wildcard_open p t (Some k) (Suc mark)"
  unfolding wildcard_open_def option.case using assms by (metis Suc_leI Suc_lessI Suc_lessD lessI)

lemma wildcard_open_done: "wildcard_inv p t i (length t) star mark \<Longrightarrow> \<not> wildcard_open p t star mark"
  using wildcard_open_rest [of p t i "length t"] by (fastforce simp: wildcard_open_def split: option.splits)

lemma wildcard_open_star:
  assumes "wildcard_inv p t i j star mark" "i < length p" "p ! i = CHR ''*''" "wildcard_open p t star mark"
  shows "glob (drop i p) (drop j t)"
proof -
  obtain k m where m: "star = Some k" "mark < m" "m \<le> length t" "glob (drop (Suc k) p) (drop m t)"
    using assms(4) by (auto simp: wildcard_open_def split: option.splits)
  have d: "drop i p = CHR ''*'' # drop (Suc i) p" using assms(2,3) by (metis Cons_nth_drop_Suc)
  have r: "glob (drop i p) (drop (m + (i - Suc k)) t)" "j < m + (i - Suc k)"
    using wildcard_open_rest [OF assms(1) [unfolded m(1)] m(2-4)] by simp_all
  have "suffix (drop (m + (i - Suc k)) t) (drop j t)"
    using r(2) by (metis drop_drop le_add_diff_inverse2 less_imp_le suffix_drop)
  with r(1) show ?thesis unfolding d by (rule glob_star_suffix)
qed

lemma wildcard_loop_glob:
  assumes "CHR ''*'' \<notin> set t" "wildcard_inv p t i j star mark"
  shows "wildcard_loop p t i j star mark \<longleftrightarrow> glob (drop i p) (drop j t) \<or> wildcard_open p t star mark"
  using assms
proof (induction p t i j star mark rule: wildcard_loop.induct)
  case (1 p t i j star mark)
  have inv: "wildcard_inv p t i j star mark" by (rule "1.prems"(2))
  show ?case
  proof (cases "j < length t")
    case False
    then have at_end: "j = length t" using inv by (simp add: wildcard_inv_def)
    then show ?thesis
      using inv wildcard_open_done [of p t i star mark] by (simp add: wildcard_loop.simps [of p t i] glob_empty)
  next
    case True
    note text_at = Cons_nth_drop_Suc [OF True, symmetric]
    have plain: "t ! j \<noteq> CHR ''*''" using "1.prems"(1) True by (metis nth_mem)
    consider (eq) "i < length p" "p ! i = t ! j" | (star) "i < length p" "p ! i \<noteq> t ! j" "p ! i = CHR ''*''"
      | (miss) "\<not> (i < length p \<and> p ! i = t ! j)" "\<not> (i < length p \<and> p ! i = CHR ''*'')" by blast
    then show ?thesis
    proof cases
      case eq
      note pat_at = Cons_nth_drop_Suc [OF eq(1), symmetric]
      have "wildcard_inv p t (i + 1) (j + 1) star mark"
        using inv True eq plain
        by (auto simp: wildcard_inv_def literal_snoc split: option.splits)
      moreover have "wildcard_loop p t i j star mark = wildcard_loop p t (i + 1) (j + 1) star mark"
        using True eq by (simp add: wildcard_loop.simps [of p t i])
      moreover have "glob (drop i p) (drop j t) \<longleftrightarrow> glob (drop (i + 1) p) (drop (j + 1) t)"
        using plain eq(2) by (simp add: pat_at text_at glob_lit)
      ultimately show ?thesis using 1 True eq by auto
    next
      case star
      note pat_at = Cons_nth_drop_Suc [OF star(1), symmetric]
      have "wildcard_inv p t (i + 1) j (Some i) j" using star True by (simp add: wildcard_inv_def)
      moreover have "wildcard_loop p t i j star mark = wildcard_loop p t (i + 1) j (Some i) j"
        using True star by (simp add: wildcard_loop.simps [of p t i])
      ultimately have "wildcard_loop p t i j star mark \<longleftrightarrow>
          glob (drop (i + 1) p) (drop j t) \<or> wildcard_open p t (Some i) j"
        using 1 True star by auto
      also have "\<dots> \<longleftrightarrow> (\<exists>m. j \<le> m \<and> m \<le> length t \<and> glob (drop (Suc i) p) (drop m t))"
        using True by (auto simp: wildcard_open_def le_less)
      also have "\<dots> \<longleftrightarrow> glob (drop i p) (drop j t)"
        using True star(3) ex_drop_shift [of j t "glob (drop (Suc i) p)"] by (simp only: pat_at glob_star less_imp_le)
      finally show ?thesis using wildcard_open_star [OF inv star(1,3)] by blast
    next
      case miss
      have no: "\<not> glob (drop i p) (drop j t)"
      proof (cases "i < length p")
        case l: True
        then show ?thesis using miss by (auto simp: Cons_nth_drop_Suc [OF l, symmetric] text_at glob_lit)
      qed (use True in simp)
      show ?thesis
      proof (cases star)
        case None
        then show ?thesis using miss True no by (auto simp: wildcard_loop.simps [of p t i] wildcard_open_def)
      next
        case (Some k)
        have "mark < length t" using inv True Some by (auto simp: wildcard_inv_def)
        then have "wildcard_inv p t (k + 1) (mark + 1) (Some k) (mark + 1)"
          using inv Some by (simp add: wildcard_inv_def)
        moreover have "wildcard_loop p t i j star mark = wildcard_loop p t (k + 1) (mark + 1) star (mark + 1)"
          using True miss Some by (auto simp: wildcard_loop.simps [of p t i])
        ultimately have "wildcard_loop p t i j star mark \<longleftrightarrow>
            glob (drop (k + 1) p) (drop (mark + 1) t) \<or> wildcard_open p t (Some k) (mark + 1)"
          using 1 True miss Some by auto
        also have "\<dots> \<longleftrightarrow> wildcard_open p t star mark"
          using wildcard_open_step [OF \<open>mark < length t\<close>] Some by simp
        finally show ?thesis using no by blast
      qed
    qed
  qed
qed

text \<open>Every text the loop accepts has the pattern's form, also where the text has asterisks itself.\<close>

lemma wildcard_loop_sound:
  "wildcard_loop p t i j star mark \<Longrightarrow> j \<le> length t \<Longrightarrow> mark \<le> j \<Longrightarrow>
   glob (drop i p) (drop j t) \<or> wildcard_open p t star mark"
proof (induction p t i j star mark rule: wildcard_loop.induct)
  case (1 p t i j star mark)
  show ?case
  proof (cases "j < length t")
    case False
    then show ?thesis using 1 by (simp add: wildcard_loop.simps [of p t i] glob_empty)
  next
    case True
    note text_at = Cons_nth_drop_Suc [OF True, symmetric]
    consider (eq) "i < length p" "p ! i = t ! j" | (star) "i < length p" "p ! i \<noteq> t ! j" "p ! i = CHR ''*''"
      | (miss) "\<not> (i < length p \<and> p ! i = t ! j)" "\<not> (i < length p \<and> p ! i = CHR ''*'')" by blast
    then show ?thesis
    proof cases
      case eq
      have step: "glob (c # q) (c # u)" if "glob q u" for c q u
        using that by (cases "c = CHR ''*''") (auto simp: glob_star glob_lit intro: exI [of _ 1])
      have "glob (drop (i + 1) p) (drop (j + 1) t) \<or> wildcard_open p t star mark"
        using 1 True eq by (simp add: wildcard_loop.simps [of p t i])
      then show ?thesis using step eq by (auto simp: Cons_nth_drop_Suc [OF eq(1), symmetric] text_at)
    next
      case star
      have "glob (drop (i + 1) p) (drop j t) \<or> wildcard_open p t (Some i) j"
        using 1 True star by (simp add: wildcard_loop.simps [of p t i])
      then have "\<exists>m. j \<le> m \<and> m \<le> length t \<and> glob (drop (Suc i) p) (drop m t)"
        using True by (auto simp: wildcard_open_def intro: less_imp_le)
      then show ?thesis
        using True star ex_drop_shift [of j t "glob (drop (Suc i) p)"]
        by (simp add: Cons_nth_drop_Suc [OF star(1), symmetric] glob_star)
    next
      case miss
      then obtain k where k: "star = Some k"
        using 1 True by (cases star) (auto simp: wildcard_loop.simps [of p t i])
      then have "mark < length t" "glob (drop (Suc k) p) (drop (Suc mark) t) \<or> wildcard_open p t (Some k) (Suc mark)"
        using 1 True miss by (auto simp: wildcard_loop.simps [of p t i])
      then show ?thesis using wildcard_open_step [of mark t p k] k by simp
    qed
  qed
qed

lemma to_lower_star [simp]: "to_lower c = CHR ''*'' \<longleftrightarrow> c = CHR ''*''"
proof (cases "is_upper c")
  case True
  then have "(of_char (to_lower c) :: nat) \<ge> 97" "(of_char c :: nat) \<ge> 65"
    using of_char_to_lower [OF True] by (auto simp: is_upper_def Let_def)
  then show ?thesis by auto
qed (simp add: to_lower_def)

text \<open>
  C13.  A file name that matches a pattern is the pattern with some text for every asterisk, up to ASCII
  case, and for every name without asterisks of its own the converse holds too: the two-index loop with
  its single backtracking point decides exactly the glob.
\<close>

theorem wildcard_match_glob:
  "(wildcard_match pattern name \<longrightarrow> glob (to_ascii_lowercase pattern) (to_ascii_lowercase name)) \<and>
   (CHR ''*'' \<notin> set name \<longrightarrow>
     (wildcard_match pattern name \<longleftrightarrow> glob (to_ascii_lowercase pattern) (to_ascii_lowercase name)))"
proof -
  let ?p = "to_ascii_lowercase pattern" and ?t = "to_ascii_lowercase name"
  have none: "\<not> wildcard_open ?p ?t None 0" by (simp add: wildcard_open_def)
  have inv: "wildcard_inv ?p ?t 0 0 None 0" by (simp add: wildcard_inv_def)
  have "CHR ''*'' \<notin> set ?t" if "CHR ''*'' \<notin> set name"
    using that by (simp add: to_ascii_lowercase_def image_iff) (metis to_lower_star)
  then show ?thesis
    using wildcard_loop_sound [of ?p ?t 0 0 None 0] wildcard_loop_glob [OF _ inv] none
    by (simp add: wildcard_match_def)
qed

lemma wildcard_match_glob_witness:
  "wildcard_match ''sev*.TXT'' ''SEVABC.txt'' \<and> \<not> wildcard_match ''*a*b'' ''xxaby''"
proof -
  have "glob (to_ascii_lowercase ''sev*.TXT'') (to_ascii_lowercase ''SEVABC.txt'')"
    "\<not> glob (to_ascii_lowercase ''*a*b'') (to_ascii_lowercase ''xxaby'')" by code_simp+
  then show ?thesis
    using wildcard_match_glob [of "''sev*.TXT''" "''SEVABC.txt''"] wildcard_match_glob [of "''*a*b''" "''xxaby''"] by simp
qed

text \<open>An asterisk in the name is consumed as a literal, and the match is lost.\<close>

lemma wildcard_star_in_name:
  "\<not> wildcard_match ''*a'' ''*ba'' \<and> glob ''*a'' ''*ba''"
proof -
  have "\<not> wildcard_match ''*a'' ''*ba''" "glob ''*a'' ''*ba''" by code_simp+
  then show ?thesis by simp
qed

section \<open>What a filter selects\<close>

text \<open>Trimming a trimmed text changes nothing.\<close>

lemma trim_start_longer: "length s < length t \<Longrightarrow> trim_start s \<noteq> t"
  using length_trim_start [of s] by auto

lemma trim_start_prefix: "trim_start s = s \<Longrightarrow> prefix u s \<Longrightarrow> trim_start u = u"
  by (cases u rule: trim_start.cases; cases s rule: trim_start.cases)
    (auto simp: trim_start_longer split: if_splits)

lemma trim_start_idem: "trim_start (trim_start s) = trim_start s"
  by (induction s rule: trim_start.induct) simp_all

lemma trim_rev_idem: "trim_rev (trim_rev s) = trim_rev s"
  by (induction s rule: trim_rev.induct) simp_all

lemma trim_trim [simp]: "trim (trim s) = trim s"
  using trim_start_prefix [OF trim_start_idem prefix_trim_end] by (simp add: trim_def trim_end_def trim_rev_idem)


lemma of_char_to_upper: "is_lower c \<Longrightarrow> (of_char (to_upper c) :: nat) = of_char c - 32"
  by (auto simp: to_upper_def is_lower_def Let_def)

lemma to_lower_to_upper: "to_lower (to_upper c) = to_lower c"
proof (cases "is_lower c")
  case True
  then have n: "97 \<le> (of_char c :: nat)" "(of_char c :: nat) \<le> 122" by (simp_all add: is_lower_def Let_def)
  then have up: "is_upper (to_upper c)" "\<not> is_upper c"
    using of_char_to_upper [OF True] by (auto simp: is_upper_def Let_def)
  have "(of_char (to_lower (to_upper c)) :: nat) = of_char c"
    using of_char_to_lower [OF up(1)] of_char_to_upper [OF True] n by simp
  then show ?thesis using up(2) by (simp add: to_lower_def [of c])
qed (simp add: to_upper_def)

lemma to_upper_to_lower: "to_upper (to_lower c) = to_upper c"
proof (cases "is_upper c")
  case True
  then have n: "65 \<le> (of_char c :: nat)" "(of_char c :: nat) \<le> 90" by (simp_all add: is_upper_def Let_def)
  then have lo: "is_lower (to_lower c)" "\<not> is_lower c"
    using of_char_to_lower [OF True] by (auto simp: is_lower_def Let_def)
  have "(of_char (to_upper (to_lower c)) :: nat) = of_char c"
    using of_char_to_upper [OF lo(1)] of_char_to_lower [OF True] n by simp
  then show ?thesis using lo(2) by (simp add: to_upper_def [of c])
qed (simp add: to_lower_def)

lemma upper_eq_lower_eq: "to_ascii_uppercase s = to_ascii_uppercase t \<longleftrightarrow> to_ascii_lowercase s = to_ascii_lowercase t"
proof
  assume "to_ascii_uppercase s = to_ascii_uppercase t"
  then have "map to_lower (to_ascii_uppercase s) = map to_lower (to_ascii_uppercase t)" by simp
  then show "to_ascii_lowercase s = to_ascii_lowercase t"
    by (simp add: to_ascii_uppercase_def to_ascii_lowercase_def to_lower_to_upper comp_def)
next
  assume "to_ascii_lowercase s = to_ascii_lowercase t"
  then have "map to_upper (to_ascii_lowercase s) = map to_upper (to_ascii_lowercase t)" by simp
  then show "to_ascii_uppercase s = to_ascii_uppercase t"
    by (simp add: to_ascii_uppercase_def to_ascii_lowercase_def to_upper_to_lower comp_def)
qed

text \<open>Does a list of values allow a text?  An empty list allows everything.\<close>

definition listed :: "str option \<Rightarrow> str \<Rightarrow> bool" where
  "listed raw v \<longleftrightarrow> list_ex (\<lambda>t. eq_ignore_ascii_case t v) (csv_terms raw)"

definition allows :: "str option \<Rightarrow> str option \<Rightarrow> bool" where
  "allows raw value \<longleftrightarrow> csv_terms raw = [] \<or> (case value of None \<Rightarrow> False | Some v \<Rightarrow> listed raw (trim v))"

definition allows_some :: "str option \<Rightarrow> ('a \<Rightarrow> str) \<Rightarrow> 'a list \<Rightarrow> bool" where
  "allows_some raw f xs \<longleftrightarrow> csv_terms raw = [] \<or> list_ex (\<lambda>x. listed raw (f x)) xs"

lemma csv_terms_trimmed: "t \<in> set (csv_terms raw) \<Longrightarrow> trim t = t"
  by (auto simp: csv_terms_def split: option.splits)

lemma csv_values_None [simp]: "csv_values raw canon = None \<longleftrightarrow> csv_terms raw = []"
  by (auto simp: csv_values_def Let_def)

lemma csv_values_Some: "csv_values raw canon = Some S \<longleftrightarrow> csv_terms raw \<noteq> [] \<and> S = canon ` set (csv_terms raw)"
  by (auto simp: csv_values_def Let_def)

lemma listed_upper: "to_ascii_uppercase v \<in> normalize_upper ` set (csv_terms raw) \<longleftrightarrow> listed raw v"
proof -
  have "normalize_upper ` set (csv_terms raw) = to_ascii_uppercase ` set (csv_terms raw)"
    by (simp add: normalize_upper_def csv_terms_trimmed)
  then show ?thesis
    by (simp add: listed_def list_ex_iff eq_ignore_ascii_case_def upper_eq_lower_eq [symmetric] image_iff) metis
qed

lemma listed_lower: "to_ascii_lowercase v \<in> normalize_lower ` set (csv_terms raw) \<longleftrightarrow> listed raw v"
proof -
  have "normalize_lower ` set (csv_terms raw) = to_ascii_lowercase ` set (csv_terms raw)"
    by (simp add: normalize_lower_def csv_terms_trimmed)
  then show ?thesis by (simp add: listed_def list_ex_iff eq_ignore_ascii_case_def image_iff) metis
qed

lemma matches_upper: "matches_option_set (csv_values raw normalize_upper) value normalize_upper \<longleftrightarrow> allows raw value"
proof -
  have "normalize_upper v \<in> normalize_upper ` set (csv_terms raw) \<longleftrightarrow> listed raw (trim v)" for v
    unfolding normalize_upper_def [of v] by (rule listed_upper)
  then show ?thesis by (simp add: matches_option_set_def allows_def csv_values_def Let_def split: option.split)
qed

lemma matches_lower: "matches_option_set (csv_values raw normalize_lower) value normalize_lower \<longleftrightarrow> allows raw value"
proof -
  have "normalize_lower v \<in> normalize_lower ` set (csv_terms raw) \<longleftrightarrow> listed raw (trim v)" for v
    unfolding normalize_lower_def [of v] by (rule listed_lower)
  then show ?thesis by (simp add: matches_option_set_def allows_def csv_values_def Let_def split: option.split)
qed

lemma matches_name:
  assumes "\<And>x. to_ascii_lowercase (name x) = name x" "\<And>x. trim (name x) = name x"
  shows "matches_serialized_option (csv_values raw normalize_lower) value name \<longleftrightarrow> allows raw (map_option name value)"
proof -
  have "name x \<in> normalize_lower ` set (csv_terms raw) \<longleftrightarrow> listed raw (name x)" for x
    using listed_lower [of "name x" raw] assms by simp
  then show ?thesis
    using assms by (simp add: matches_serialized_option_def allows_def csv_values_def Let_def split: option.split)
qed


text \<open>The words of the enumerations are lower case without blanks.\<close>

lemmas lower_word_simps = to_ascii_lowercase_def to_lower_def is_upper_def trim_keep ws_lead_def ws_last_def ws1_def

lemma source_words: "to_ascii_lowercase (product_source_name x) = product_source_name x" "trim (product_source_name x) = product_source_name x"
  by (cases x; simp add: lower_word_simps)+

lemma bbb_words: "to_ascii_lowercase (bbb_kind_name x) = bbb_kind_name x" "trim (bbb_kind_name x) = bbb_kind_name x"
  by (cases x; simp add: lower_word_simps)+

lemma severity_words: "to_ascii_lowercase (hvtec_severity_name x) = hvtec_severity_name x" "trim (hvtec_severity_name x) = hvtec_severity_name x"
  by (cases x; simp add: lower_word_simps)+

lemma cause_words: "to_ascii_lowercase (hvtec_cause_name x) = hvtec_cause_name x" "trim (hvtec_cause_name x) = hvtec_cause_name x"
  by (cases x; simp add: lower_word_simps)+

lemma record_words: "to_ascii_lowercase (hvtec_record_name x) = hvtec_record_name x" "trim (hvtec_record_name x) = hvtec_record_name x"
  by (cases x; simp add: lower_word_simps)+

lemma kind_words: "to_ascii_lowercase (wind_hail_kind_name x) = wind_hail_kind_name x" "trim (wind_hail_kind_name x) = wind_hail_kind_name x"
  by (cases x; simp add: lower_word_simps)+

lemmas matches_words = matches_upper matches_lower
  matches_name [of product_source_name, OF source_words] matches_name [of bbb_kind_name, OF bbb_words]
  matches_name [of hvtec_severity_name, OF severity_words] matches_name [of hvtec_cause_name, OF cause_words]
  matches_name [of hvtec_record_name, OF record_words]

text \<open>The reference: what the raw parameters ask of a file.\<close>

definition body_list :: "product_body option \<Rightarrow> (product_body \<Rightarrow> 'b list) \<Rightarrow> 'b list" where
  "body_list body f = (case body of None \<Rightarrow> [] | Some b \<Rightarrow> f b)"

definition product_selected :: "file_filter_input \<Rightarrow> 'a product_enrichment \<Rightarrow> bool" where
  "product_selected q p \<longleftrightarrow>
     allows (fi_source q) (Some (product_source_name (pe_source p))) \<and>
     allows (fi_pil q) (pe_pil p) \<and> allows (fi_family q) (pe_family p) \<and>
     allows (fi_container q) (Some (pe_container p)) \<and> allows (fi_wmo_prefix q) (pe_wmo_prefix p) \<and>
     allows (fi_office q) (map_option wo_code (pe_office p)) \<and>
     allows (fi_office_city q) (map_option wo_city (pe_office p)) \<and>
     allows (fi_office_state q) (map_option wo_state (pe_office p)) \<and>
     allows (fi_bbb_kind q) (map_option bbb_kind_name (pe_bbb_kind p))"

text \<open>Both kinds of header, as office, data type, AFOS code and BBB group.\<close>

definition headers :: "'a product_enrichment \<Rightarrow> (str \<times> str \<times> str option \<times> str option) list" where
  "headers p =
     (case pe_header p of None \<Rightarrow> [] | Some h \<Rightarrow> [(th_cccc h, th_ttaaii h, Some (th_afos h), th_bbb h)]) @
     (case pe_wmo_header p of None \<Rightarrow> [] | Some h \<Rightarrow> [(wh_cccc h, wh_ttaaii h, None, wh_bbb h)])"

definition blank :: "str option list \<Rightarrow> bool" where
  "blank raws \<longleftrightarrow> list_all (\<lambda>raw. csv_terms raw = []) raws"

definition header_selected :: "file_filter_input \<Rightarrow> 'a product_enrichment \<Rightarrow> bool" where
  "header_selected q p \<longleftrightarrow>
     blank [fi_cccc q, fi_ttaaii q, fi_afos q, fi_bbb q] \<or>
     list_ex (\<lambda>(cccc, ttaaii, afos, bbb).
       allows (fi_cccc q) (Some cccc) \<and> allows (fi_ttaaii q) (Some ttaaii) \<and> allows (fi_afos q) afos \<and> allows (fi_bbb q) bbb)
       (headers p)"

definition presence_wanted :: "str option \<Rightarrow> 'b list \<Rightarrow> bool" where
  "presence_wanted raw xs \<longleftrightarrow> (case parse_optional_bool raw of None \<Rightarrow> True | Some b \<Rightarrow> b = (xs \<noteq> []))"

definition issues_selected :: "file_filter_input \<Rightarrow> parse_issue list \<Rightarrow> bool" where
  "issues_selected q issues \<longleftrightarrow>
     presence_wanted (fi_has_issues q) issues \<and>
     allows_some (fi_issue_kind q) (\<lambda>i. trim (pi_kind i)) issues \<and> allows_some (fi_issue_code q) (\<lambda>i. trim (pi_code i)) issues"

definition states_of :: "ugc_sec \<Rightarrow> str list" where
  "states_of s = map fst (us_counties s @ us_zones s @ us_fire_zones s @ us_marine_zones s)"

text \<open>Geographic values are compared with the codes of the sections, in upper case.\<close>

definition geo_wanted :: "str option \<Rightarrow> str list \<Rightarrow> bool" where
  "geo_wanted raw codes \<longleftrightarrow> csv_terms raw = [] \<or> list_ex (\<lambda>t. to_ascii_uppercase t \<in> set codes) (csv_terms raw)"

definition geo_selected :: "file_filter_input \<Rightarrow> ugc_sec list \<Rightarrow> bool" where
  "geo_selected q sections \<longleftrightarrow>
     geo_wanted (fi_state q) (concat (map states_of sections)) \<and>
     geo_wanted (fi_county q) (concat (map (\<lambda>s. canonical_codes CHR ''C'' (us_counties s)) sections)) \<and>
     geo_wanted (fi_zone q) (concat (map (\<lambda>s. canonical_codes CHR ''Z'' (us_zones s)) sections)) \<and>
     geo_wanted (fi_fire_zone q) (concat (map (\<lambda>s. canonical_codes CHR ''F'' (us_fire_zones s)) sections)) \<and>
     geo_wanted (fi_marine_zone q) (concat (map (\<lambda>s. canonical_codes CHR ''Z'' (us_marine_zones s)) sections))"

definition etn_numbers :: "str option \<Rightarrow> u32 list" where
  "etn_numbers raw = List.map_filter parse_u32 (csv_terms raw)"

definition vtec_selected :: "file_filter_input \<Rightarrow> vtec_code list \<Rightarrow> bool" where
  "vtec_selected q codes \<longleftrightarrow>
     (blank [fi_vtec_phenomena q, fi_vtec_significance q, fi_vtec_action q, fi_vtec_office q] \<and> etn_numbers (fi_etn q) = []) \<or>
     list_ex (\<lambda>c.
       allows (fi_vtec_phenomena q) (Some (vt_phenomena c)) \<and>
       (csv_terms (fi_vtec_significance q) = [] \<or> listed (fi_vtec_significance q) [vt_significance c]) \<and>
       allows (fi_vtec_action q) (Some (vt_action c)) \<and> allows (fi_vtec_office q) (Some (vt_office c)) \<and>
       (etn_numbers (fi_etn q) = [] \<or> vt_etn c \<in> set (etn_numbers (fi_etn q)))) codes"

definition hvtec_selected :: "file_filter_input \<Rightarrow> hvtec list \<Rightarrow> bool" where
  "hvtec_selected q codes \<longleftrightarrow>
     blank [fi_hvtec_nwslid q, fi_hvtec_severity q, fi_hvtec_cause q, fi_hvtec_record q] \<or>
     list_ex (\<lambda>c.
       allows (fi_hvtec_nwslid q) (Some (hv_nwslid c)) \<and>
       allows (fi_hvtec_severity q) (Some (hvtec_severity_name (hv_severity c))) \<and>
       allows (fi_hvtec_cause q) (Some (hvtec_cause_name (hv_cause c))) \<and>
       allows (fi_hvtec_record q) (Some (hvtec_record_name (hv_record c)))) codes"

text \<open>The gust of an entry in miles per hour, with knots converted, and the size of its hail in inches.\<close>

definition gust_mph :: "wind_hail_entry \<Rightarrow> f64 option" where
  "gust_mph e =
     (if wd_kind e \<notin> {LegacyWind, MaxWindGust} then None
      else case (wd_numeric_value e, wd_units e) of
          (Some v, Some u) \<Rightarrow>
            Some (if to_ascii_lowercase (trim u) \<in> {''kt'', ''kts''} then f64_times v (f64_of_rat (115078 / 100000)) else v)
        | _ \<Rightarrow> None)"

definition hail_inches :: "wind_hail_entry \<Rightarrow> f64 option" where
  "hail_inches e = (if wd_kind e \<in> {LegacyHail, MaxHailSize} then wd_numeric_value e else None)"

definition reaches :: "f64 \<Rightarrow> f64 option \<Rightarrow> bool" where
  "reaches m v = (case v of Some x \<Rightarrow> f64_le m x | None \<Rightarrow> False)"

definition wind_hail_selected :: "file_filter_input \<Rightarrow> wind_hail_entry list \<Rightarrow> bool" where
  "wind_hail_selected q entries \<longleftrightarrow>
     allows_some (fi_wind_hail_kind q) (\<lambda>e. wind_hail_kind_name (wd_kind e)) entries \<and>
     (case fi_min_wind_mph q of None \<Rightarrow> True | Some m \<Rightarrow> list_ex (\<lambda>e. reaches m (gust_mph e)) entries) \<and>
     (case fi_min_hail_inches q of None \<Rightarrow> True | Some m \<Rightarrow> list_ex (\<lambda>e. reaches m (hail_inches e)) entries)"

section \<open>The filters agree with the reference\<close>

lemma product_matches_selected: "product_matches (ef_product (filter_of_input q l)) p \<longleftrightarrow> product_selected q p"
  by (simp add: product_matches_def product_selected_def filter_of_input_def matches_words)

lemma header_matches_selected: "header_matches (ef_header (filter_of_input q l)) p \<longleftrightarrow> header_selected q p"
  by (auto simp: header_matches_def header_selected_def header_has_constraints_def headers_def filter_of_input_def
      matches_words blank_def Let_def allows_def [of _ None] split: option.splits)

lemma allows_some_lower:
  "(case csv_values raw normalize_lower of None \<Rightarrow> False | Some S \<Rightarrow> \<not> list_ex (\<lambda>x. normalize_lower (f x) \<in> S) xs)
   \<longleftrightarrow> \<not> allows_some raw (\<lambda>x. trim (f x)) xs"
proof -
  have "normalize_lower v \<in> normalize_lower ` set (csv_terms raw) \<longleftrightarrow> listed raw (trim v)" for v
    unfolding normalize_lower_def [of v] by (rule listed_lower)
  then show ?thesis by (simp add: csv_values_def Let_def allows_some_def)
qed

lemma issues_matches_selected: "issues_matches (ef_issues (filter_of_input q l)) issues \<longleftrightarrow> issues_selected q issues"
  by (auto simp: issues_matches_def issues_selected_def presence_wanted_def filter_of_input_def allows_some_lower
      split: option.splits)

lemma allows_some_kind:
  "(case csv_values raw normalize_lower of None \<Rightarrow> False | Some S \<Rightarrow> \<not> list_ex (\<lambda>e. wind_hail_kind_name (wd_kind e) \<in> S) xs)
   \<longleftrightarrow> \<not> allows_some raw (\<lambda>e. wind_hail_kind_name (wd_kind e)) xs"
  using listed_lower [of "wind_hail_kind_name _" raw] by (simp add: csv_values_def Let_def allows_some_def kind_words)


lemma upper_eq_lower: "to_ascii_uppercase s = to_ascii_uppercase t \<longleftrightarrow> to_ascii_lowercase s = to_ascii_lowercase t"
proof -
  have "to_ascii_lowercase (to_ascii_uppercase u) = to_ascii_lowercase u" for u
    by (simp add: to_ascii_lowercase_def to_ascii_uppercase_def to_lower_to_upper)
  moreover have "to_ascii_uppercase (to_ascii_lowercase u) = to_ascii_uppercase u" for u
    by (simp add: to_ascii_lowercase_def to_ascii_uppercase_def to_upper_to_lower)
  ultimately show ?thesis by metis
qed

lemma knots:
  "normalize_upper u = ''KTS'' \<or> normalize_upper u = ''KT'' \<longleftrightarrow> to_ascii_lowercase (trim u) \<in> {''kt'', ''kts''}"
proof -
  have "to_ascii_uppercase ''kts'' = ''KTS''" "to_ascii_uppercase ''kt'' = ''KT''"
    "to_ascii_lowercase ''kts'' = ''kts''" "to_ascii_lowercase ''kt'' = ''kt''"
    by code_simp+
  then show ?thesis
    using upper_eq_lower [of "trim u" "''kts''"] upper_eq_lower [of "trim u" "''kt''"]
    by (auto simp: normalize_upper_def)
qed

lemma at_least_reaches:
  "wind_at_least m = (\<lambda>e. reaches m (gust_mph e))" "hail_at_least m = (\<lambda>e. reaches m (hail_inches e))"
  by (auto simp: fun_eq_iff wind_at_least_def hail_at_least_def reaches_def gust_mph_def hail_inches_def is_wind_entry_def is_hail_entry_def
      wind_speed_mph_def Let_def knots split: option.split)

lemma wind_hail_matches_selected:
  "wind_hail_matches (ef_wind_hail (filter_of_input q l)) body \<longleftrightarrow>
     presence_wanted (fi_has_wind_hail q) (body_list body body_wind_hail_entries) \<and>
     wind_hail_selected q (body_list body body_wind_hail_entries)"
proof -
  define es where "es = body_list body body_wind_hail_entries"
  have e: "(case body of None \<Rightarrow> [] | Some b \<Rightarrow> body_wind_hail_entries b) = es" by (simp add: es_def body_list_def)
  show ?thesis
    unfolding es_def [symmetric] wind_hail_matches_def e Let_def
    by (cases "es = []"; cases "parse_optional_bool (fi_has_wind_hail q)"; cases "fi_min_wind_mph q"; cases "fi_min_hail_inches q")
      (auto simp: filter_of_input_def wind_hail_has_constraints_def wind_hail_selected_def presence_wanted_def allows_some_kind
        allows_some_def at_least_reaches)
qed

lemma hvtec_matches_selected:
  "hvtec_matches (ef_hvtec (filter_of_input q l)) body \<longleftrightarrow>
     presence_wanted (fi_has_hvtec q) (body_list body body_hvtec_codes) \<and>
     hvtec_selected q (body_list body body_hvtec_codes)"
proof -
  define cs where "cs = body_list body body_hvtec_codes"
  have e: "(case body of None \<Rightarrow> [] | Some b \<Rightarrow> body_hvtec_codes b) = cs" by (simp add: cs_def body_list_def)
  have code: "hvtec_matches_code (ef_hvtec (filter_of_input q l)) = (\<lambda>c.
       allows (fi_hvtec_nwslid q) (Some (hv_nwslid c)) \<and>
       allows (fi_hvtec_severity q) (Some (hvtec_severity_name (hv_severity c))) \<and>
       allows (fi_hvtec_cause q) (Some (hvtec_cause_name (hv_cause c))) \<and>
       allows (fi_hvtec_record q) (Some (hvtec_record_name (hv_record c))))"
    by (rule ext) (simp add: hvtec_matches_code_def filter_of_input_def matches_words)
  show ?thesis
    unfolding cs_def [symmetric] hvtec_matches_def e Let_def code hvtec_selected_def
    by (cases "cs = []"; cases "parse_optional_bool (fi_has_hvtec q)")
      (auto simp: filter_of_input_def hvtec_has_constraints_def presence_wanted_def blank_def)
qed

lemma csv_numbers_eq: "csv_numbers raw = (if etn_numbers raw = [] then None else Some (set (etn_numbers raw)))"
  by (simp add: csv_numbers_def etn_numbers_def Let_def)

lemma matches_char_listed:
  "matches_char_set (csv_values raw normalize_upper) c \<longleftrightarrow> csv_terms raw = [] \<or> listed raw [c]"
  using listed_upper [of "[c]" raw]
  by (simp add: matches_char_set_def csv_values_def Let_def to_ascii_uppercase_def [of "[c]"])

lemma vtec_matches_selected:
  "vtec_matches (ef_vtec (filter_of_input q l)) body \<longleftrightarrow> vtec_selected q (body_list body body_vtec_codes)"
proof -
  have code: "vtec_matches_code (ef_vtec (filter_of_input q l)) = (\<lambda>c.
       allows (fi_vtec_phenomena q) (Some (vt_phenomena c)) \<and>
       (csv_terms (fi_vtec_significance q) = [] \<or> listed (fi_vtec_significance q) [vt_significance c]) \<and>
       allows (fi_vtec_action q) (Some (vt_action c)) \<and> allows (fi_vtec_office q) (Some (vt_office c)) \<and>
       (etn_numbers (fi_etn q) = [] \<or> vt_etn c \<in> set (etn_numbers (fi_etn q))))"
    by (rule ext)
      (simp add: vtec_matches_code_def filter_of_input_def matches_words matches_char_listed matches_number_set_def csv_numbers_eq)
  show ?thesis
    unfolding vtec_matches_def code vtec_selected_def
    by (cases body) (auto simp: filter_of_input_def vtec_has_constraints_def blank_def csv_numbers_eq body_list_def Let_def)
qed

lemma geo_wanted_codes:
  "geo_wanted raw codes \<longleftrightarrow> csv_terms raw = [] \<or> list_ex (\<lambda>c. c \<in> normalize_upper ` set (csv_terms raw)) codes"
proof -
  have "normalize_upper ` set (csv_terms raw) = to_ascii_uppercase ` set (csv_terms raw)"
    by (simp add: normalize_upper_def csv_terms_trimmed)
  then show ?thesis by (auto simp: geo_wanted_def list_ex_iff)
qed

lemma list_ex_concat: "list_ex P (concat xss) \<longleftrightarrow> list_ex (list_ex P) xss"
  by (induction xss) (auto simp: list_ex_iff)

lemma geo_states_wanted:
  "matches_geo_states (csv_values raw normalize_upper) sections \<longleftrightarrow> geo_wanted raw (concat (map states_of sections))"
  by (simp add: matches_geo_states_def csv_values_def Let_def geo_wanted_codes list_ex_concat states_of_def comp_def list_ex_iff
      ball_Un bex_Un)

lemma geo_codes_wanted:
  "matches_enriched_ugc_codes (csv_values raw normalize_upper) sections select c \<longleftrightarrow>
     geo_wanted raw (concat (map (\<lambda>s. canonical_codes c (select s)) sections))"
  by (simp add: matches_enriched_ugc_codes_def csv_values_def Let_def geo_wanted_codes canonical_codes_def list_ex_iff split_beta)

lemma geo_wanted_Nil: "geo_wanted raw [] \<longleftrightarrow> csv_terms raw = []"
  by (simp add: geo_wanted_def list_ex_iff)

lemma geo_matches_selected:
  "geo_matches (ef_geo (filter_of_input q l)) body \<longleftrightarrow> geo_selected q (body_list body body_ugc_sections)"
proof -
  have "geo_selected q []  \<longleftrightarrow> \<not> geo_has_constraints (ef_geo (filter_of_input q l))"
    by (auto simp: geo_selected_def geo_wanted_Nil geo_has_constraints_def filter_of_input_def)
  moreover have "geo_selected q sections" if "\<not> geo_has_constraints (ef_geo (filter_of_input q l))" for sections
    using that by (auto simp: geo_selected_def geo_wanted_def geo_has_constraints_def filter_of_input_def)
  ultimately show ?thesis
    by (cases body)
      (auto simp: geo_matches_def body_list_def Let_def geo_selected_def filter_of_input_def geo_states_wanted geo_codes_wanted)
qed

lemma body_lengths:
  "body_vtec_codes_len b = length (body_vtec_codes b)" "body_ugc_sections_len b = length (body_ugc_sections b)"
  "body_hvtec_codes_len b = length (body_hvtec_codes b)" "body_wind_hail_len b = length (body_wind_hail_entries b)"
  "body_latlon_len b = length (iter_polygons b)" "body_time_mot_loc_len b = length (time_mot_loc_paths b)"
  by (cases b; simp add: length_concat comp_def opt_len_def opt_list_def split: option.split)+

definition presence_selected :: "file_filter_input \<Rightarrow> product_body option \<Rightarrow> bool" where
  "presence_selected q body \<longleftrightarrow>
     presence_wanted (fi_has_vtec q) (body_list body body_vtec_codes) \<and>
     presence_wanted (fi_has_ugc q) (body_list body body_ugc_sections) \<and>
     presence_wanted (fi_has_hvtec q) (body_list body body_hvtec_codes) \<and>
     presence_wanted (fi_has_latlon q) (body_list body iter_polygons) \<and>
     presence_wanted (fi_has_time_mot_loc q) (body_list body time_mot_loc_paths) \<and>
     presence_wanted (fi_has_wind_hail q) (body_list body body_wind_hail_entries)"

lemma presence_matches_selected:
  "presence_matches (ef_presence (filter_of_input q l)) body \<longleftrightarrow> presence_selected q body"
proof -
  have "matches_optional_presence (parse_optional_bool raw) (length xs) \<longleftrightarrow> presence_wanted raw xs" for raw and xs :: "'b list"
    by (simp add: matches_optional_presence_def presence_wanted_def split: option.split)
  then show ?thesis
    by (cases body)
      (simp_all add: presence_matches_def presence_selected_def filter_of_input_def body_count_def body_list_def body_lengths
        matches_optional_presence_def presence_wanted_def split: option.split)
qed

lemma wildcard_decides:
  assumes "CHR ''*'' \<notin> set name"
  shows "wildcard_match pattern name \<longleftrightarrow> glob (to_ascii_lowercase pattern) (to_ascii_lowercase name)"
proof -
  let ?p = "to_ascii_lowercase pattern" and ?t = "to_ascii_lowercase name"
  have "CHR ''*'' \<notin> set ?t"
    using assms by (simp add: to_ascii_lowercase_def image_iff) (metis to_lower_star)
  then show ?thesis
    using wildcard_loop_glob [of ?t ?p 0 0 None 0] by (simp add: wildcard_match_def wildcard_inv_def wildcard_open_def)
qed

text \<open>The location parameters: a point with a radius, five miles by default, and a box.\<close>

definition given_center :: "file_filter_input \<Rightarrow> geo_point option" where
  "given_center q =
     (case (fi_lat q, fi_lon q) of (Some lat, Some lon) \<Rightarrow> Some \<lparr>gp_lat = lat, gp_lon = lon\<rparr> | _ \<Rightarrow> None)"

definition given_radius :: "file_filter_input \<Rightarrow> f64" where
  "given_radius q = (case fi_distance_miles q of Some d \<Rightarrow> d | None \<Rightarrow> Finite 5)"

definition given_bbox :: "file_filter_input \<Rightarrow> location_bounding_box option" where
  "given_bbox q =
     (case (fi_min_lat q, fi_max_lat q, fi_min_lon q, fi_max_lon q) of
        (Some a, Some b, Some c, Some d) \<Rightarrow> Some \<lparr>lb_min_lat = a, lb_max_lat = b, lb_min_lon = c, lb_max_lon = d\<rparr>
      | _ \<Rightarrow> None)"

text \<open>A body is near a point if one of its polygons covers the point or one of its places is within the radius.\<close>

definition near :: "libm \<Rightarrow> geo_point \<Rightarrow> f64 \<Rightarrow> product_body \<Rightarrow> bool" where
  "near lm c r b \<longleftrightarrow>
     list_ex (\<lambda>p. (case pp_bounds p of Some bounds \<Rightarrow> bounds_contains bounds c | None \<Rightarrow> False) \<and> point_in_polygon c (pp_points p))
       (iter_polygons b) \<or>
     list_ex (\<lambda>p. f64_le (distance_miles lm c p) r) (iter_location_points b)"

definition location_selected :: "libm \<Rightarrow> file_filter_input \<Rightarrow> product_body option \<Rightarrow> bool" where
  "location_selected lm q body \<longleftrightarrow>
     (case given_center q of None \<Rightarrow> True | Some c \<Rightarrow> list_ex (near lm c (given_radius q)) (body_list body (\<lambda>b. [b]))) \<and>
     (case given_bbox q of None \<Rightarrow> True | Some x \<Rightarrow> list_ex (\<lambda>b. matches_bbox b x) (body_list body (\<lambda>b. [b])))"

definition selected :: "libm \<Rightarrow> file_filter_input \<Rightarrow> 'a completed_file_metadata \<Rightarrow> bool" where
  "selected lm q m \<longleftrightarrow>
     (let p = cm_product m; body = pe_body p in
      (case fi_filename q of None \<Rightarrow> True | Some pattern \<Rightarrow> glob (to_ascii_lowercase pattern) (to_ascii_lowercase (cm_filename m))) \<and>
      (case fi_min_size q of None \<Rightarrow> True | Some lo \<Rightarrow> lo \<le> cm_size m) \<and>
      (case fi_max_size q of None \<Rightarrow> True | Some hi \<Rightarrow> cm_size m \<le> hi) \<and>
      product_selected q p \<and> header_selected q p \<and> issues_selected q (pe_issues p) \<and> location_selected lm q body \<and>
      presence_selected q body \<and> geo_selected q (body_list body body_ugc_sections) \<and>
      vtec_selected q (body_list body body_vtec_codes) \<and> hvtec_selected q (body_list body body_hvtec_codes) \<and>
      wind_hail_selected q (body_list body body_wind_hail_entries))"

text \<open>The parameters that are accepted.\<close>

definition center_valid :: "file_filter_input \<Rightarrow> bool" where
  "center_valid q \<longleftrightarrow>
     (case (fi_lat q, fi_lon q) of (None, None) \<Rightarrow> True | (Some lat, Some lon) \<Rightarrow> in_range 90 lat \<and> in_range 180 lon | _ \<Rightarrow> False)"

definition bbox_valid :: "file_filter_input \<Rightarrow> bool" where
  "bbox_valid q \<longleftrightarrow>
     (case (fi_min_lat q, fi_max_lat q, fi_min_lon q, fi_max_lon q) of
        (None, None, None, None) \<Rightarrow> True
      | (Some a, Some b, Some c, Some d) \<Rightarrow>
          in_range 90 a \<and> in_range 90 b \<and> in_range 180 c \<and> in_range 180 d \<and> f64_le a b \<and> f64_le c d
      | _ \<Rightarrow> False)"

definition radius_valid :: "file_filter_input \<Rightarrow> bool" where
  "radius_valid q \<longleftrightarrow>
     (case fi_distance_miles q of None \<Rightarrow> True | Some d \<Rightarrow> fi_lat q \<noteq> None \<and> f64_is_finite d \<and> f64_val d > 0)"

definition size_valid :: "file_filter_input \<Rightarrow> bool" where
  "size_valid q \<longleftrightarrow> (case (fi_min_size q, fi_max_size q) of (Some lo, Some hi) \<Rightarrow> lo \<le> hi | _ \<Rightarrow> True)"

lemma sbind_Inr: "sbind r f = Inr y \<longleftrightarrow> (\<exists>x. r = Inr x \<and> f x = Inr y)"
  by (cases r) (simp_all add: sbind_def)

lemma validate_Inr: "validate_lat name v = Inr u \<longleftrightarrow> in_range 90 v" "validate_lon name v = Inr u \<longleftrightarrow> in_range 180 v"
  by (simp_all add: validate_lat_def validate_lon_def)

lemma not_less_le: "f64_is_finite x \<Longrightarrow> f64_is_finite y \<Longrightarrow> \<not> f64_lt y x \<longleftrightarrow> f64_le x y"
  by (simp add: f64_lt_finite f64_le_finite not_less)

lemma center_from_input_Inr:
  "center_from_input q = Inr c \<longleftrightarrow>
     c = given_center q \<and> center_valid q"
  by (cases "fi_lat q"; cases "fi_lon q") (auto simp: center_from_input_def given_center_def center_valid_def sbind_Inr validate_Inr)

lemma bbox_from_input_Inr:
  "bbox_from_input q = Inr b \<longleftrightarrow>
     b = given_bbox q \<and> bbox_valid q"
proof -
  have le: "f64_le a b \<longleftrightarrow> \<not> f64_lt b a" if "in_range x a" "in_range x b" for x a b
    using that not_less_le [of a b] by (simp add: in_range_def)
  show ?thesis
    by (cases "fi_min_lat q"; cases "fi_max_lat q"; cases "fi_min_lon q"; cases "fi_max_lon q")
      (auto simp: bbox_from_input_def given_bbox_def bbox_valid_def sbind_Inr validate_Inr le split: if_splits)
qed

lemma location_from_input_Inr:
  "location_from_input q = Inr l \<longleftrightarrow>
     center_valid q \<and> radius_valid q \<and> bbox_valid q \<and>
     l = \<lparr>lf_center = given_center q, lf_distance_miles = (if given_center q = None then None else Some (given_radius q)),
          lf_bbox = given_bbox q\<rparr>"
proof -
  have center: "given_center q \<noteq> None \<longleftrightarrow> fi_lat q \<noteq> None"
if "center_valid q"
    using that by (auto simp: given_center_def center_valid_def split: option.splits)
  have distance: "distance_from_input q (given_center q) = Inr d \<longleftrightarrow>
      radius_valid q \<and> d = (if given_center q = None then None else Some (given_radius q))"
    if "given_center q \<noteq> None \<longleftrightarrow> fi_lat q \<noteq> None" for d
    using that
    by (auto simp: distance_from_input_def radius_valid_def given_radius_def DEFAULT_DISTANCE_MILES_def f64_le_finite
        split: option.splits if_splits)
  show ?thesis
  proof (cases "center_valid q")
    case True
    then show ?thesis
      using distance [OF center [OF True]]
      by (auto simp: location_from_input_def sbind_Inr center_from_input_Inr bbox_from_input_Inr)
  qed (simp add: location_from_input_def sbind_Inr center_from_input_Inr)
qed

lemma filter_from_input_Inr:
  "filter_try_from_input q = Inr f \<longleftrightarrow>
     size_valid q \<and> (\<exists>l. location_from_input q = Inr l \<and> f = filter_of_input q l)"
  by (auto simp: filter_try_from_input_def sbind_Inr size_inputs_bad_def size_valid_def split: option.splits if_splits)

lemma location_matches_selected:
  assumes "location_from_input q = Inr l"
  shows "location_matches lm l body \<longleftrightarrow> location_selected lm q body"
proof -
  have l: "lf_center l = given_center q" "lf_bbox l = given_bbox q"
    "lf_distance_miles l = (if given_center q = None then None else Some (given_radius q))"
    using assms by (simp_all add: location_from_input_Inr)
  show ?thesis
    by (cases "given_center q"; cases "given_bbox q"; cases body)
      (auto simp: location_matches_def location_has_constraints_def location_selected_def body_list_def l near_def)
qed

lemma size_matches_selected:
  "size_matches (ef_size (filter_of_input q l)) n \<longleftrightarrow>
     (case fi_min_size q of None \<Rightarrow> True | Some lo \<Rightarrow> lo \<le> n) \<and> (case fi_max_size q of None \<Rightarrow> True | Some hi \<Rightarrow> n \<le> hi)"
  by (auto simp: size_matches_def filter_of_input_def split: option.splits)


text \<open>A filter without constraints selects every file.\<close>

lemma no_constraints_matches:
  assumes "\<not> has_constraints f"
  shows "matches_metadata lm f m"
  using assms
  by (simp add: has_constraints_def size_has_constraints_def product_has_constraints_def header_has_constraints_def
      issues_has_constraints_def geo_has_constraints_def vtec_has_constraints_def hvtec_has_constraints_def
      wind_hail_has_constraints_def location_has_constraints_def presence_has_constraints_def
      matches_metadata_def size_matches_def product_matches_def header_matches_def issues_matches_def geo_matches_def
      vtec_matches_def hvtec_matches_def wind_hail_matches_def location_matches_def presence_matches_def
      matches_option_set_def matches_serialized_option_def matches_optional_presence_def)

text \<open>
  C27.  An accepted live filter selects, among the files whose name has no asterisk, exactly those its raw
  parameters ask for: blank values ask nothing, values are lists compared without regard to case and
  blanks, each group of constraints on headers and codes is met by one header or one code, presence
  flags hold of the parsed body, gusts count in miles per hour, and the name matches the pattern.  The
  tests on a single shape (point in polygon, distance, box against a body) are those of the code: the
  theorem says which of them a query asks for, of which body, and how they combine.
\<close>

theorem filter_decides:
  assumes "filter_try_from_input q = Inr f" "CHR ''*'' \<notin> set (cm_filename m)"
  shows "matches_metadata lm f m \<longleftrightarrow> selected lm q m"
proof -
  obtain l where l: "location_from_input q = Inr l" "f = filter_of_input q l"
    using assms(1) by (auto simp: filter_from_input_Inr)
  have name: "(case ef_filename_pattern f of Some pattern \<Rightarrow> \<not> wildcard_match pattern (cm_filename m) | None \<Rightarrow> False) \<longleftrightarrow>
      \<not> (case fi_filename q of None \<Rightarrow> True
         | Some pattern \<Rightarrow> glob (to_ascii_lowercase pattern) (to_ascii_lowercase (cm_filename m)))"
    using wildcard_decides [OF assms(2)] by (simp add: l filter_of_input_def split: option.split)
  have location: "ef_location f = l" by (simp add: l filter_of_input_def)
  show ?thesis
    unfolding matches_metadata_def selected_def Let_def name location
    by (auto simp: l(2) size_matches_selected product_matches_selected header_matches_selected issues_matches_selected
        location_matches_selected [OF l(1)] presence_matches_selected geo_matches_selected vtec_matches_selected
        hvtec_matches_selected wind_hail_matches_selected presence_selected_def)
qed

definition default_input :: file_filter_input where
  "default_input =
     \<lparr>fi_filename = None, fi_source = None, fi_pil = None, fi_family = None, fi_container = None, fi_wmo_prefix = None,
      fi_office = None, fi_office_city = None, fi_office_state = None, fi_bbb_kind = None, fi_cccc = None, fi_ttaaii = None,
      fi_afos = None, fi_bbb = None, fi_has_issues = None, fi_issue_kind = None, fi_issue_code = None, fi_has_vtec = None,
      fi_has_ugc = None, fi_has_hvtec = None, fi_has_latlon = None, fi_has_time_mot_loc = None, fi_has_wind_hail = None,
      fi_state = None, fi_county = None, fi_zone = None, fi_fire_zone = None, fi_marine_zone = None,
      fi_vtec_phenomena = None, fi_vtec_significance = None, fi_vtec_action = None, fi_vtec_office = None, fi_etn = None,
      fi_hvtec_nwslid = None, fi_hvtec_severity = None, fi_hvtec_cause = None, fi_hvtec_record = None,
      fi_wind_hail_kind = None, fi_lat = None, fi_lon = None, fi_distance_miles = None, fi_min_lat = None,
      fi_max_lat = None, fi_min_lon = None, fi_max_lon = None, fi_min_wind_mph = None, fi_min_hail_inches = None,
      fi_min_size = None, fi_max_size = None\<rparr>"

definition sample_query :: file_filter_input where
  "sample_query = default_input\<lparr>fi_pil := Some ''svr, TOR'', fi_has_vtec := Some ''0'', fi_max_size := Some 100\<rparr>"

definition sample_file :: "unit completed_file_metadata" where
  "sample_file =
     \<lparr>cm_filename = ''tor.txt'', cm_size = 42, cm_timestamp_utc = 0, cm_origin = SourceQbt,
      cm_product =
        \<lparr>pe_source = TextHeader, pe_family = None, pe_title = None, pe_container = ''raw'', pe_pil = Some ''tor'',
         pe_wmo_prefix = None, pe_office = None, pe_header = None, pe_wmo_header = None, pe_bbb_kind = None,
         pe_body = None, pe_parsed = None, pe_issues = []\<rparr>\<rparr>"

definition flat_libm :: libm where
  "flat_libm = \<lparr>lm_to_radians = id, lm_sin = id, lm_cos = id, lm_sqrt = id, lm_atan2 = (\<lambda>x y. x)\<rparr>"

lemma sample_terms:
  "csv_terms None = []" "csv_terms (Some ''svr, TOR'') = [''svr'', ''TOR'']"
  by (simp_all add: csv_terms_def trim_def trim_end_def ws1_def ws2_def ws3_def Let_def)

lemma filter_decides_witness:
  "\<exists>f. filter_try_from_input sample_query = Inr f \<and> matches_metadata flat_libm f sample_file"
proof -
  obtain f where f: "filter_try_from_input sample_query = Inr f"
    by (simp add: filter_from_input_Inr location_from_input_Inr sample_query_def default_input_def size_valid_def
        center_valid_def radius_valid_def bbox_valid_def)
  have "eq_ignore_ascii_case ''TOR'' ''tor''" "\<not> eq_ignore_ascii_case ''0'' ''true''" by code_simp+
  then have "selected flat_libm sample_query sample_file"
    by (simp add: selected_def sample_query_def default_input_def sample_file_def product_selected_def header_selected_def
        issues_selected_def location_selected_def presence_selected_def geo_selected_def vtec_selected_def hvtec_selected_def
        wind_hail_selected_def allows_def allows_some_def listed_def sample_terms blank_def presence_wanted_def
        parse_optional_bool_def geo_wanted_def etn_numbers_def given_center_def given_bbox_def body_list_def
        map_filter_simps trim_def trim_end_def ws1_def ws2_def ws3_def Let_def)
  moreover have "CHR ''*'' \<notin> set (cm_filename sample_file)" by (simp add: sample_file_def)
  ultimately show ?thesis using filter_decides [OF f, of sample_file flat_libm] f by blast
qed

end
