(* ===== verification/Service_Archive.thy ===== *)
theory Service_Archive
  imports Service_Filter
begin

text \<open>
  The queries on the archive (emwin-service/src/archive/query.rs): their columns, the enumerations of the aggregate
  queries, validation, builders and cursors.  The serialisation of a cursor (serde and base64) is the
  record \<open>cursor_codec\<close>.  The live filters take the same parameters, and the theorem at the end compares what the two accept.
\<close>

section \<open>Data\<close>

datatype service_error =
    InvalidRequest str | InvalidConfig str | NotConfigured str | ServiceRuntime str | ServiceIo str | ServiceJson str

text \<open>
  \<^verbatim>\<open>ArchiveFilterInput\<close> and \<^verbatim>\<open>ProductListQuery\<close> have the same columns; the flags are texts in the former and
  booleans in the latter, which also has a limit and a cursor.
\<close>

record 'b archive_columns =
  af_filename :: "str option"
  af_source_receiver :: "str option"
  af_source :: "str option"
  af_pil :: "str option"
  af_family :: "str option"
  af_artifact_kind :: "str option"
  af_container :: "str option"
  af_wmo_prefix :: "str option"
  af_office :: "str option"
  af_office_city :: "str option"
  af_office_state :: "str option"
  af_bbb_kind :: "str option"
  af_cccc :: "str option"
  af_ttaaii :: "str option"
  af_afos :: "str option"
  af_bbb :: "str option"
  af_has_issues :: "'b option"
  af_issue_kind :: "str option"
  af_issue_code :: "str option"
  af_has_vtec :: "'b option"
  af_has_ugc :: "'b option"
  af_has_hvtec :: "'b option"
  af_has_latlon :: "'b option"
  af_has_time_mot_loc :: "'b option"
  af_has_wind_hail :: "'b option"
  af_state :: "str option"
  af_county :: "str option"
  af_zone :: "str option"
  af_fire_zone :: "str option"
  af_marine_zone :: "str option"
  af_vtec_phenomena :: "str option"
  af_vtec_significance :: "str option"
  af_vtec_action :: "str option"
  af_vtec_office :: "str option"
  af_etn :: "str option"
  af_hvtec_nwslid :: "str option"
  af_hvtec_severity :: "str option"
  af_hvtec_cause :: "str option"
  af_hvtec_record :: "str option"
  af_wind_hail_kind :: "str option"
  af_lat :: "f64 option"
  af_lon :: "f64 option"
  af_distance_miles :: "f64 option"
  af_min_lat :: "f64 option"
  af_max_lat :: "f64 option"
  af_min_lon :: "f64 option"
  af_max_lon :: "f64 option"
  af_min_wind_mph :: "f64 option"
  af_min_hail_inches :: "f64 option"
  af_min_size :: "nat option"
  af_max_size :: "nat option"
  af_source_timestamp_after :: "int option"
  af_source_timestamp_before :: "int option"
  af_ingested_after :: "datetime option"
  af_ingested_before :: "datetime option"

type_synonym archive_filter_input = "str archive_columns"

record product_list_query = "bool archive_columns" +
  pq_limit :: nat
  pq_cursor :: "str option"

record incident_key =
  ik_office :: str
  ik_phenomena :: str
  ik_significance :: str
  ik_etn :: int

record incident_cursor = incident_key +
  ik_latest_product_timestamp_utc :: datetime

record product_cursor =
  pk_source_timestamp_utc :: int
  pk_product_id :: int

datatype feature_kind = Polygon | TimeMotLocPath | UgcPoint | HvtecPoint | SearchPoint

record feature_cursor = product_cursor +
  pk_feature_kind :: feature_kind
  pk_feature_row_id :: int

record archived_issue_cursor = product_cursor +
  pk_issue_id :: int

record incident_products_query =
  jq_limit :: nat
  jq_cursor :: "str option"

definition incident_products_query_default :: incident_products_query where
  "incident_products_query_default = \<lparr>jq_limit = 100, jq_cursor = None\<rparr>"

record incident_list_query =
  iq_office :: "str option"
  iq_phenomena :: "str option"
  iq_significance :: "str option"
  iq_etn :: "int option"
  iq_status :: "str option"
  iq_updated_after :: "datetime option"
  iq_updated_before :: "datetime option"
  iq_active_at :: "datetime option"
  iq_limit :: nat
  iq_cursor :: "str option"

definition incident_list_query_default :: incident_list_query where
  "incident_list_query_default =
     \<lparr>iq_office = None, iq_phenomena = None, iq_significance = None, iq_etn = None, iq_status = None,
      iq_updated_after = None, iq_updated_before = None, iq_active_at = None, iq_limit = 100, iq_cursor = None\<rparr>"

record archived_issue_list_query =
  aq_product_id :: "int option"
  aq_kind :: "str option"
  aq_code :: "str option"
  aq_limit :: nat
  aq_cursor :: "str option"

definition archived_issue_list_query_default :: archived_issue_list_query where
  "archived_issue_list_query_default =
     \<lparr>aq_product_id = None, aq_kind = None, aq_code = None, aq_limit = 100, aq_cursor = None\<rparr>"

definition product_list_query_default :: product_list_query where
  "product_list_query_default =
     \<lparr>af_filename = None, af_source_receiver = None, af_source = None, af_pil = None, af_family = None,
      af_artifact_kind = None, af_container = None, af_wmo_prefix = None, af_office = None,
      af_office_city = None, af_office_state = None, af_bbb_kind = None, af_cccc = None, af_ttaaii = None,
      af_afos = None, af_bbb = None, af_has_issues = None, af_issue_kind = None, af_issue_code = None,
      af_has_vtec = None, af_has_ugc = None, af_has_hvtec = None, af_has_latlon = None,
      af_has_time_mot_loc = None, af_has_wind_hail = None, af_state = None, af_county = None, af_zone = None,
      af_fire_zone = None, af_marine_zone = None, af_vtec_phenomena = None, af_vtec_significance = None,
      af_vtec_action = None, af_vtec_office = None, af_etn = None, af_hvtec_nwslid = None,
      af_hvtec_severity = None, af_hvtec_cause = None, af_hvtec_record = None, af_wind_hail_kind = None,
      af_lat = None, af_lon = None, af_distance_miles = None, af_min_lat = None, af_max_lat = None,
      af_min_lon = None, af_max_lon = None, af_min_wind_mph = None, af_min_hail_inches = None,
      af_min_size = None, af_max_size = None, af_source_timestamp_after = None,
      af_source_timestamp_before = None, af_ingested_after = None, af_ingested_before = None, pq_limit = 100,
      pq_cursor = None\<rparr>"

section \<open>Enumerations\<close>

fun feature_kind_as_str :: "feature_kind \<Rightarrow> str" where
  "feature_kind_as_str Polygon = ''polygon''"
| "feature_kind_as_str TimeMotLocPath = ''time_mot_loc_path''"
| "feature_kind_as_str UgcPoint = ''ugc_point''"
| "feature_kind_as_str HvtecPoint = ''hvtec_point''"
| "feature_kind_as_str SearchPoint = ''search_point''"

fun feature_kind_ordinal :: "feature_kind \<Rightarrow> 16 word" where
  "feature_kind_ordinal Polygon = 1"
| "feature_kind_ordinal TimeMotLocPath = 2"
| "feature_kind_ordinal UgcPoint = 3"
| "feature_kind_ordinal HvtecPoint = 4"
| "feature_kind_ordinal SearchPoint = 5"

definition feature_kind_from_str :: "str \<Rightarrow> str + feature_kind" where
  "feature_kind_from_str v =
     (let t = trim v in
      if t = ''polygon'' then Inr Polygon
      else if t = ''time_mot_loc_path'' then Inr TimeMotLocPath
      else if t = ''ugc_point'' then Inr UgcPoint
      else if t = ''hvtec_point'' then Inr HvtecPoint
      else if t = ''search_point'' then Inr SearchPoint
      else Inl (''invalid feature kind `'' @ v @ ''`''))"

datatype facet_dimension = Office | Family | ArtifactKind | Phenomena | Significance | Status | IssueKind | IssueCode

fun facet_dimension_as_str :: "facet_dimension \<Rightarrow> str" where
  "facet_dimension_as_str Office = ''office''"
| "facet_dimension_as_str Family = ''family''"
| "facet_dimension_as_str ArtifactKind = ''artifact_kind''"
| "facet_dimension_as_str Phenomena = ''phenomena''"
| "facet_dimension_as_str Significance = ''significance''"
| "facet_dimension_as_str Status = ''status''"
| "facet_dimension_as_str IssueKind = ''issue_kind''"
| "facet_dimension_as_str IssueCode = ''issue_code''"

definition facet_dimension_from_str :: "str \<Rightarrow> str + facet_dimension" where
  "facet_dimension_from_str v =
     (let t = trim v in
      if t = ''office'' then Inr Office
      else if t = ''family'' then Inr Family
      else if t = ''artifact_kind'' then Inr ArtifactKind
      else if t = ''phenomena'' then Inr Phenomena
      else if t = ''significance'' then Inr Significance
      else if t = ''status'' then Inr Status
      else if t = ''issue_kind'' then Inr IssueKind
      else if t = ''issue_code'' then Inr IssueCode
      else Inl (''invalid facet dimension `'' @ v @ ''`''))"

datatype timeseries_measure = ProductCount | IssueCount | IncidentCount

fun timeseries_measure_as_str :: "timeseries_measure \<Rightarrow> str" where
  "timeseries_measure_as_str ProductCount = ''product_count''"
| "timeseries_measure_as_str IssueCount = ''issue_count''"
| "timeseries_measure_as_str IncidentCount = ''incident_count''"

definition timeseries_measure_from_str :: "str \<Rightarrow> str + timeseries_measure" where
  "timeseries_measure_from_str v =
     (let t = trim v in
      if t = ''product_count'' then Inr ProductCount
      else if t = ''issue_count'' then Inr IssueCount
      else if t = ''incident_count'' then Inr IncidentCount
      else Inl (''invalid timeseries measure `'' @ v @ ''`''))"

datatype timeseries_bucket = Hour | Day | Week

text \<open>The length of a bucket in seconds.\<close>

fun bucket_duration :: "timeseries_bucket \<Rightarrow> int" where
  "bucket_duration Hour = 60 * 60"
| "bucket_duration Day = 24 * 60 * 60"
| "bucket_duration Week = 7 * 24 * 60 * 60"

fun postgres_interval :: "timeseries_bucket \<Rightarrow> str" where
  "postgres_interval Hour = ''1 hour''"
| "postgres_interval Day = ''1 day''"
| "postgres_interval Week = ''7 days''"

fun timeseries_bucket_as_str :: "timeseries_bucket \<Rightarrow> str" where
  "timeseries_bucket_as_str Hour = ''hour''"
| "timeseries_bucket_as_str Day = ''day''"
| "timeseries_bucket_as_str Week = ''week''"

definition timeseries_bucket_from_str :: "str \<Rightarrow> str + timeseries_bucket" where
  "timeseries_bucket_from_str v =
     (let t = trim v in
      if t = ''hour'' then Inr Hour
      else if t = ''day'' then Inr Day
      else if t = ''week'' then Inr Week
      else Inl (''invalid timeseries bucket `'' @ v @ ''`''))"

datatype cell_measure = CellProductCount

fun cell_measure_as_str :: "cell_measure \<Rightarrow> str" where
  "cell_measure_as_str CellProductCount = ''product_count''"

definition cell_measure_from_str :: "str \<Rightarrow> str + cell_measure" where
  "cell_measure_from_str v =
     (if trim v = ''product_count'' then Inr CellProductCount else Inl (''invalid cell measure `'' @ v @ ''`''))"

text \<open>Arguments that name a value of an enumeration.\<close>

definition map_err :: "('e \<Rightarrow> 'd) \<Rightarrow> 'e + 'a \<Rightarrow> 'd + 'a" where
  "map_err f r = (case r of Inl e \<Rightarrow> Inl (f e) | Inr x \<Rightarrow> Inr x)"

definition enum_error :: "str \<Rightarrow> str \<Rightarrow> service_error" where
  "enum_error name message = InvalidRequest (''invalid '' @ name @ '': '' @ message)"

definition parse_required_enum_arg :: "(str \<Rightarrow> str + 'a) \<Rightarrow> str \<Rightarrow> str \<Rightarrow> service_error + 'a" where
  "parse_required_enum_arg from_str name raw = map_err (enum_error name) (from_str (trim raw))"

definition parse_optional_enum_arg :: "(str \<Rightarrow> str + 'a) \<Rightarrow> str \<Rightarrow> str option \<Rightarrow> service_error + 'a option" where
  "parse_optional_enum_arg from_str name raw =
     (case map_option trim raw of
        None \<Rightarrow> Inr None
      | Some v \<Rightarrow> if v = [] then Inr None else map_sum id Some (map_err (enum_error name) (from_str v)))"

section \<open>Validation\<close>

definition parse_archive_bool :: "str \<Rightarrow> str option \<Rightarrow> service_error + bool option" where
  "parse_archive_bool name raw =
     (case raw of
        None \<Rightarrow> Inr None
      | Some v \<Rightarrow>
          (let v = trim v in
           if v = [] then Inr None
           else if eq_ignore_ascii_case v ''true'' \<or> v = ''1'' then Inr (Some True)
           else if eq_ignore_ascii_case v ''false'' \<or> v = ''0'' then Inr (Some False)
           else Inl (InvalidRequest (name @ '' must be one of: true, false, 1, 0; got `'' @ v @ ''`''))))"

definition archive_validate_lat :: "str \<Rightarrow> f64 \<Rightarrow> service_error + unit" where
  "archive_validate_lat name v =
     (if \<not> in_range 90 v then Inl (InvalidRequest (name @ '' must be a finite latitude between -90 and 90'')) else Inr ())"

definition archive_validate_lon :: "str \<Rightarrow> f64 \<Rightarrow> service_error + unit" where
  "archive_validate_lon name v =
     (if \<not> in_range 180 v then Inl (InvalidRequest (name @ '' must be a finite longitude between -180 and 180'')) else Inr ())"

definition validate_archive_size_inputs :: "nat option \<Rightarrow> nat option \<Rightarrow> service_error + unit" where
  "validate_archive_size_inputs lo hi =
     (if size_inputs_bad lo hi then Inl (InvalidRequest ''min_size must be less than or equal to max_size'') else Inr ())"

definition archive_bbox :: "f64 option \<Rightarrow> f64 option \<Rightarrow> f64 option \<Rightarrow> f64 option \<Rightarrow> service_error + unit" where
  "archive_bbox lo_lat hi_lat lo_lon hi_lon =
     (case (lo_lat, hi_lat, lo_lon, hi_lon) of
        (None, None, None, None) \<Rightarrow> Inr ()
      | (Some a, Some b, Some c, Some d) \<Rightarrow>
          sbind (archive_validate_lat ''min_lat'' a) (\<lambda>_. sbind (archive_validate_lat ''max_lat'' b) (\<lambda>_.
          sbind (archive_validate_lon ''min_lon'' c) (\<lambda>_. sbind (archive_validate_lon ''max_lon'' d) (\<lambda>_.
            if f64_lt b a then Inl (InvalidRequest ''min_lat must be less than or equal to max_lat'')
            else if f64_lt d c then Inl (InvalidRequest ''min_lon must be less than or equal to max_lon'')
            else Inr ()))))
      | _ \<Rightarrow> Inl (InvalidRequest ''min_lat, max_lat, min_lon, and max_lon must be provided together''))"

definition archive_center :: "f64 option \<Rightarrow> f64 option \<Rightarrow> service_error + unit" where
  "archive_center lat lon =
     (case (lat, lon) of
        (None, None) \<Rightarrow> Inr ()
      | (Some a, Some b) \<Rightarrow> sbind (archive_validate_lat ''lat'' a) (\<lambda>_. archive_validate_lon ''lon'' b)
      | _ \<Rightarrow> Inl (InvalidRequest ''lat and lon must be provided together''))"

definition archive_distance :: "f64 option \<Rightarrow> f64 option \<Rightarrow> f64 option \<Rightarrow> service_error + unit" where
  "archive_distance lat lon distance =
     (case distance of
        None \<Rightarrow> Inr ()
      | Some d \<Rightarrow>
          if lat = None \<or> lon = None then Inl (InvalidRequest ''distance_miles requires both lat and lon'')
          else if \<not> f64_is_finite d \<or> f64_lt d (Finite 0)
               then Inl (InvalidRequest ''distance_miles must be a non-negative finite number'')
          else Inr ())"

definition validate_archive_spatial_inputs ::
    "f64 option \<Rightarrow> f64 option \<Rightarrow> f64 option \<Rightarrow> f64 option \<Rightarrow> f64 option \<Rightarrow> f64 option \<Rightarrow> f64 option \<Rightarrow> service_error + unit" where
  "validate_archive_spatial_inputs lat lon distance lo_lat hi_lat lo_lon hi_lon =
     sbind (archive_bbox lo_lat hi_lat lo_lon hi_lon) (\<lambda>_.
     sbind (archive_center lat lon) (\<lambda>_. archive_distance lat lon distance))"

definition product_list_validate :: "'z product_list_query_scheme \<Rightarrow> service_error + unit" where
  "product_list_validate q =
     sbind (validate_archive_size_inputs (af_min_size q) (af_max_size q)) (\<lambda>_.
       validate_archive_spatial_inputs (af_lat q) (af_lon q) (af_distance_miles q)
         (af_min_lat q) (af_max_lat q) (af_min_lon q) (af_max_lon q))"

section \<open>Builders\<close>

text \<open>The query with its flags given.\<close>

definition archive_query ::
    "archive_filter_input \<Rightarrow> bool option \<Rightarrow> bool option \<Rightarrow> bool option \<Rightarrow> bool option \<Rightarrow> bool option \<Rightarrow> bool option
     \<Rightarrow> bool option \<Rightarrow> nat \<Rightarrow> str option \<Rightarrow> product_list_query" where
  "archive_query input issues vtec ugc hvtec latlon motion hail limit cursor =
     \<lparr>af_filename = af_filename input, af_source_receiver = af_source_receiver input,
      af_source = af_source input, af_pil = af_pil input, af_family = af_family input,
      af_artifact_kind = af_artifact_kind input, af_container = af_container input,
      af_wmo_prefix = af_wmo_prefix input, af_office = af_office input, af_office_city = af_office_city input,
      af_office_state = af_office_state input, af_bbb_kind = af_bbb_kind input, af_cccc = af_cccc input,
      af_ttaaii = af_ttaaii input, af_afos = af_afos input, af_bbb = af_bbb input, af_has_issues = issues,
      af_issue_kind = af_issue_kind input, af_issue_code = af_issue_code input, af_has_vtec = vtec,
      af_has_ugc = ugc, af_has_hvtec = hvtec, af_has_latlon = latlon, af_has_time_mot_loc = motion,
      af_has_wind_hail = hail, af_state = af_state input, af_county = af_county input, af_zone = af_zone input,
      af_fire_zone = af_fire_zone input, af_marine_zone = af_marine_zone input,
      af_vtec_phenomena = af_vtec_phenomena input, af_vtec_significance = af_vtec_significance input,
      af_vtec_action = af_vtec_action input, af_vtec_office = af_vtec_office input, af_etn = af_etn input,
      af_hvtec_nwslid = af_hvtec_nwslid input, af_hvtec_severity = af_hvtec_severity input,
      af_hvtec_cause = af_hvtec_cause input, af_hvtec_record = af_hvtec_record input,
      af_wind_hail_kind = af_wind_hail_kind input, af_lat = af_lat input, af_lon = af_lon input,
      af_distance_miles = af_distance_miles input, af_min_lat = af_min_lat input,
      af_max_lat = af_max_lat input, af_min_lon = af_min_lon input, af_max_lon = af_max_lon input,
      af_min_wind_mph = af_min_wind_mph input, af_min_hail_inches = af_min_hail_inches input,
      af_min_size = af_min_size input, af_max_size = af_max_size input,
      af_source_timestamp_after = af_source_timestamp_after input,
      af_source_timestamp_before = af_source_timestamp_before input,
      af_ingested_after = af_ingested_after input, af_ingested_before = af_ingested_before input,
      pq_limit = limit, pq_cursor = cursor\<rparr>"

definition into_product_list_query ::
    "archive_filter_input \<Rightarrow> nat \<Rightarrow> nat option \<Rightarrow> str option \<Rightarrow> service_error + product_list_query" where
  "into_product_list_query input default_limit limit cursor =
     sbind (parse_archive_bool ''has_issues'' (af_has_issues input)) (\<lambda>issues.
     sbind (parse_archive_bool ''has_vtec'' (af_has_vtec input)) (\<lambda>vtec.
     sbind (parse_archive_bool ''has_ugc'' (af_has_ugc input)) (\<lambda>ugc.
     sbind (parse_archive_bool ''has_hvtec'' (af_has_hvtec input)) (\<lambda>hvtec.
     sbind (parse_archive_bool ''has_latlon'' (af_has_latlon input)) (\<lambda>latlon.
     sbind (parse_archive_bool ''has_time_mot_loc'' (af_has_time_mot_loc input)) (\<lambda>motion.
     sbind (parse_archive_bool ''has_wind_hail'' (af_has_wind_hail input)) (\<lambda>hail.
       let q = archive_query input issues vtec ugc hvtec latlon motion hail
             (case limit of None \<Rightarrow> default_limit | Some l \<Rightarrow> l) cursor
       in sbind (product_list_validate q) (\<lambda>_. Inr q))))))))"

record feature_list_query =
  fq_filters :: product_list_query
  fq_kind :: "feature_kind option"

definition feature_list_validate :: "feature_list_query \<Rightarrow> service_error + unit" where
  "feature_list_validate q = product_list_validate (fq_filters q)"

definition build_feature_list_query ::
    "archive_filter_input \<Rightarrow> str option \<Rightarrow> nat \<Rightarrow> nat option \<Rightarrow> str option \<Rightarrow> service_error + feature_list_query" where
  "build_feature_list_query filters kind default_limit limit cursor =
     sbind (into_product_list_query filters default_limit limit cursor) (\<lambda>fs.
     sbind (parse_optional_enum_arg feature_kind_from_str ''feature kind'' kind) (\<lambda>k.
       let q = \<lparr>fq_filters = fs, fq_kind = k\<rparr> in sbind (feature_list_validate q) (\<lambda>_. Inr q)))"

record facet_aggregate_query =
  fa_filters :: product_list_query
  fa_dimension :: facet_dimension
  fa_limit :: nat

definition build_facet_aggregate_query ::
    "archive_filter_input \<Rightarrow> str \<Rightarrow> nat option \<Rightarrow> service_error + facet_aggregate_query" where
  "build_facet_aggregate_query filters dimension limit =
     sbind (into_product_list_query filters 100 (Some 100) None) (\<lambda>fs.
     sbind (parse_required_enum_arg facet_dimension_from_str ''facet dimension'' dimension) (\<lambda>dim.
     sbind (product_list_validate fs) (\<lambda>_.
       Inr \<lparr>fa_filters = fs, fa_dimension = dim, fa_limit = (case limit of None \<Rightarrow> 20 | Some l \<Rightarrow> l)\<rparr>)))"

record timeseries_aggregate_query =
  ts_filters :: product_list_query
  ts_measure :: timeseries_measure
  ts_start :: datetime
  ts_end :: datetime
  ts_bucket :: timeseries_bucket

definition build_timeseries_aggregate_query ::
    "archive_filter_input \<Rightarrow> str \<Rightarrow> datetime \<Rightarrow> datetime \<Rightarrow> str \<Rightarrow> service_error + timeseries_aggregate_query" where
  "build_timeseries_aggregate_query filters metric start stop bucket =
     sbind (into_product_list_query filters 100 (Some 100) None) (\<lambda>fs.
     sbind (parse_required_enum_arg timeseries_measure_from_str ''timeseries measure'' metric) (\<lambda>m.
     sbind (parse_required_enum_arg timeseries_bucket_from_str ''timeseries bucket'' bucket) (\<lambda>b.
     sbind (product_list_validate fs) (\<lambda>_.
       Inr \<lparr>ts_filters = fs, ts_measure = m, ts_start = start, ts_end = stop, ts_bucket = b\<rparr>))))"

record cell_aggregate_query =
  cq_filters :: product_list_query
  cq_measure :: cell_measure
  cq_precision :: u8
  cq_limit :: nat

definition validate_required_bbox_for_cells :: "product_list_query \<Rightarrow> service_error + unit" where
  "validate_required_bbox_for_cells q =
     (case (af_min_lat q, af_max_lat q, af_min_lon q, af_max_lon q) of
        (Some _, Some _, Some _, Some _) \<Rightarrow> Inr ()
      | _ \<Rightarrow> Inl (InvalidRequest ''cell aggregates require min_lat, max_lat, min_lon, and max_lon''))"

definition cell_aggregate_validate :: "cell_aggregate_query \<Rightarrow> service_error + unit" where
  "cell_aggregate_validate q =
     sbind (product_list_validate (cq_filters q)) (\<lambda>_.
     sbind (validate_required_bbox_for_cells (cq_filters q)) (\<lambda>_.
       if \<not> (1 \<le> cq_precision q \<and> cq_precision q \<le> 6)
       then Inl (InvalidRequest ''cell aggregate precision must be between 1 and 6'') else Inr ()))"

definition build_cell_aggregate_query ::
    "archive_filter_input \<Rightarrow> str \<Rightarrow> u8 \<Rightarrow> nat option \<Rightarrow> service_error + cell_aggregate_query" where
  "build_cell_aggregate_query filters metric precision limit =
     sbind (into_product_list_query filters 100 (Some 100) None) (\<lambda>fs.
     sbind (parse_required_enum_arg cell_measure_from_str ''cell measure'' metric) (\<lambda>m.
       let q = \<lparr>cq_filters = fs, cq_measure = m, cq_precision = precision,
                cq_limit = (case limit of None \<Rightarrow> 100 | Some l \<Rightarrow> l)\<rparr>
       in sbind (cell_aggregate_validate q) (\<lambda>_. Inr q)))"

section \<open>Cursors\<close>

record 'c cursor_codec =
  cc_to_vec :: "'c \<Rightarrow> str + bytes"
  cc_from_slice :: "bytes \<Rightarrow> str + 'c"
  cc_encode :: "bytes \<Rightarrow> str"
  cc_decode :: "str \<Rightarrow> str + bytes"

definition encode_cursor :: "'c cursor_codec \<Rightarrow> 'c \<Rightarrow> service_error + str" where
  "encode_cursor codec v = sbind (map_err ServiceJson (cc_to_vec codec v)) (\<lambda>bs. Inr (cc_encode codec bs))"

definition decode_optional_cursor :: "'c cursor_codec \<Rightarrow> str option \<Rightarrow> service_error + 'c option" where
  "decode_optional_cursor codec v =
     (case v of
        None \<Rightarrow> Inr None
      | Some raw \<Rightarrow>
          sbind (map_err (\<lambda>e. InvalidRequest (''invalid cursor encoding: '' @ e)) (cc_decode codec raw)) (\<lambda>bs.
            map_sum id Some (map_err (\<lambda>e. InvalidRequest (''invalid cursor payload: '' @ e)) (cc_from_slice codec bs))))"

section \<open>Enumerations by name\<close>

text \<open>What the queries rely on: exactly the texts that trim to the name of a value are read as that value.\<close>

locale named_enum =
  fixes as_str :: "'a \<Rightarrow> str" and from_str :: "str \<Rightarrow> str + 'a"
  assumes from_str_eq: "from_str v = Inr x \<longleftrightarrow> trim v = as_str x"
    and trim_name: "trim (as_str x) = as_str x"
begin

lemma round_trip: "from_str (as_str x) = Inr x"
  by (simp add: from_str_eq trim_name)

lemma required_arg: "parse_required_enum_arg from_str name raw = Inr x \<longleftrightarrow> trim raw = as_str x"
  using from_str_eq [of "trim raw"] by (cases "from_str (trim raw)") (auto simp: parse_required_enum_arg_def map_err_def)

lemma optional_arg:
  "parse_optional_enum_arg from_str name raw = Inr r \<longleftrightarrow>
     (case raw of
        None \<Rightarrow> r = None
      | Some v \<Rightarrow> if trim v = [] then r = None else \<exists>x. r = Some x \<and> trim v = as_str x)"
proof (cases raw)
  case (Some v)
  have "map_sum id Some (map_err (enum_error name) (from_str (trim v))) = Inr r \<longleftrightarrow> (\<exists>x. r = Some x \<and> trim v = as_str x)"
    using from_str_eq [of "trim v"] by (cases "from_str (trim v)") (auto simp: map_err_def)
  with Some show ?thesis by (auto simp: parse_optional_enum_arg_def)
qed (auto simp: parse_optional_enum_arg_def)

end

lemmas name_simps = trim_keep ws_lead_def ws_last_def ws1_def

interpretation feature_kinds: named_enum feature_kind_as_str feature_kind_from_str
proof
  show "feature_kind_from_str v = Inr x \<longleftrightarrow> trim v = feature_kind_as_str x" for v x
    by (cases x) (simp_all add: feature_kind_from_str_def Let_def)
  show "trim (feature_kind_as_str x) = feature_kind_as_str x" for x
    by (cases x) (simp_all add: name_simps)
qed

interpretation facets: named_enum facet_dimension_as_str facet_dimension_from_str
proof
  show "facet_dimension_from_str v = Inr x \<longleftrightarrow> trim v = facet_dimension_as_str x" for v x
    by (cases x) (simp_all add: facet_dimension_from_str_def Let_def)
  show "trim (facet_dimension_as_str x) = facet_dimension_as_str x" for x
    by (cases x) (simp_all add: name_simps)
qed

interpretation series_measures: named_enum timeseries_measure_as_str timeseries_measure_from_str
proof
  show "timeseries_measure_from_str v = Inr x \<longleftrightarrow> trim v = timeseries_measure_as_str x" for v x
    by (cases x) (simp_all add: timeseries_measure_from_str_def Let_def)
  show "trim (timeseries_measure_as_str x) = timeseries_measure_as_str x" for x
    by (cases x) (simp_all add: name_simps)
qed

interpretation buckets: named_enum timeseries_bucket_as_str timeseries_bucket_from_str
proof
  show "timeseries_bucket_from_str v = Inr x \<longleftrightarrow> trim v = timeseries_bucket_as_str x" for v x
    by (cases x) (simp_all add: timeseries_bucket_from_str_def Let_def)
  show "trim (timeseries_bucket_as_str x) = timeseries_bucket_as_str x" for x
    by (cases x) (simp_all add: name_simps)
qed

interpretation cell_measures: named_enum cell_measure_as_str cell_measure_from_str
proof
  show "cell_measure_from_str v = Inr x \<longleftrightarrow> trim v = cell_measure_as_str x" for v x
    by (cases x) (simp_all add: cell_measure_from_str_def Let_def)
  show "trim (cell_measure_as_str x) = cell_measure_as_str x" for x
    by (cases x) (simp_all add: name_simps)
qed

section \<open>What the archive accepts\<close>

definition flag_ok :: "str option \<Rightarrow> bool" where
  "flag_ok raw \<longleftrightarrow>
     (case raw of
        None \<Rightarrow> True
      | Some v \<Rightarrow>
          trim v \<in> {[], ''1'', ''0''} \<or> eq_ignore_ascii_case (trim v) ''true'' \<or> eq_ignore_ascii_case (trim v) ''false'')"

definition flags_ok :: "archive_filter_input \<Rightarrow> bool" where
  "flags_ok a \<longleftrightarrow>
     list_all flag_ok [af_has_issues a, af_has_vtec a, af_has_ugc a, af_has_hvtec a, af_has_latlon a,
       af_has_time_mot_loc a, af_has_wind_hail a]"

text \<open>The parameters of the live filter with the same values, and a radius of zero replaced by a positive one.\<close>

definition live_input :: "archive_filter_input \<Rightarrow> file_filter_input" where
  "live_input a =
     \<lparr>fi_filename = af_filename a, fi_source = af_source a, fi_pil = af_pil a, fi_family = af_family a,
      fi_container = af_container a, fi_wmo_prefix = af_wmo_prefix a, fi_office = af_office a,
      fi_office_city = af_office_city a, fi_office_state = af_office_state a, fi_bbb_kind = af_bbb_kind a,
      fi_cccc = af_cccc a, fi_ttaaii = af_ttaaii a, fi_afos = af_afos a, fi_bbb = af_bbb a,
      fi_has_issues = af_has_issues a, fi_issue_kind = af_issue_kind a, fi_issue_code = af_issue_code a,
      fi_has_vtec = af_has_vtec a, fi_has_ugc = af_has_ugc a, fi_has_hvtec = af_has_hvtec a,
      fi_has_latlon = af_has_latlon a, fi_has_time_mot_loc = af_has_time_mot_loc a,
      fi_has_wind_hail = af_has_wind_hail a, fi_state = af_state a, fi_county = af_county a,
      fi_zone = af_zone a, fi_fire_zone = af_fire_zone a, fi_marine_zone = af_marine_zone a,
      fi_vtec_phenomena = af_vtec_phenomena a, fi_vtec_significance = af_vtec_significance a,
      fi_vtec_action = af_vtec_action a, fi_vtec_office = af_vtec_office a, fi_etn = af_etn a,
      fi_hvtec_nwslid = af_hvtec_nwslid a, fi_hvtec_severity = af_hvtec_severity a,
      fi_hvtec_cause = af_hvtec_cause a, fi_hvtec_record = af_hvtec_record a,
      fi_wind_hail_kind = af_wind_hail_kind a, fi_lat = af_lat a, fi_lon = af_lon a,
      fi_distance_miles = af_distance_miles a, fi_min_lat = af_min_lat a, fi_max_lat = af_max_lat a,
      fi_min_lon = af_min_lon a, fi_max_lon = af_max_lon a, fi_min_wind_mph = af_min_wind_mph a,
      fi_min_hail_inches = af_min_hail_inches a, fi_min_size = af_min_size a, fi_max_size = af_max_size a\<rparr>"

definition positive_radius :: "archive_filter_input \<Rightarrow> archive_filter_input" where
  "positive_radius a =
     a\<lparr>af_distance_miles := map_option (\<lambda>d. if f64_eq d (Finite 0) then Finite 1 else d) (af_distance_miles a)\<rparr>"

text \<open>The query with its flags read as the live filter reads them.\<close>

definition typed_query :: "archive_filter_input \<Rightarrow> nat \<Rightarrow> str option \<Rightarrow> product_list_query" where
  "typed_query a =
     archive_query a (parse_optional_bool (af_has_issues a)) (parse_optional_bool (af_has_vtec a))
       (parse_optional_bool (af_has_ugc a)) (parse_optional_bool (af_has_hvtec a)) (parse_optional_bool (af_has_latlon a))
       (parse_optional_bool (af_has_time_mot_loc a)) (parse_optional_bool (af_has_wind_hail a))"

lemma archive_bool_Inr: "parse_archive_bool name raw = Inr b \<longleftrightarrow> flag_ok raw \<and> b = parse_optional_bool raw"
  by (cases raw) (auto simp: parse_archive_bool_def flag_ok_def parse_optional_bool_def Let_def)

lemma archive_validate_Inr:
  "archive_validate_lat name v = Inr u \<longleftrightarrow> in_range 90 v" "archive_validate_lon name v = Inr u \<longleftrightarrow> in_range 180 v"
  by (simp_all add: archive_validate_lat_def archive_validate_lon_def)

lemma archive_bbox_Inr:
  "archive_bbox (af_min_lat a) (af_max_lat a) (af_min_lon a) (af_max_lon a) = Inr u \<longleftrightarrow> bbox_valid (live_input a)"
proof -
  have le: "f64_le x y \<longleftrightarrow> \<not> f64_lt y x" if "in_range b x" "in_range b y" for b x y
    using that not_less_le [of x y] by (simp add: in_range_def)
  show ?thesis
    by (cases "af_min_lat a"; cases "af_max_lat a"; cases "af_min_lon a"; cases "af_max_lon a")
      (auto simp: archive_bbox_def bbox_valid_def live_input_def sbind_Inr archive_validate_Inr le split: if_splits)
qed

lemma archive_center_Inr: "archive_center (af_lat a) (af_lon a) = Inr u \<longleftrightarrow> center_valid (live_input a)"
  by (cases "af_lat a"; cases "af_lon a")
    (auto simp: archive_center_def center_valid_def live_input_def sbind_Inr archive_validate_Inr)

lemma archive_distance_Inr:
  assumes "center_valid (live_input a)"
  shows "archive_distance (af_lat a) (af_lon a) (af_distance_miles a) = Inr u \<longleftrightarrow> radius_valid (live_input (positive_radius a))"
proof -
  have both: "af_lat a = None \<longleftrightarrow> af_lon a = None"
    using assms by (auto simp: center_valid_def live_input_def split: option.splits)
  define pos where "pos d = (if f64_eq d (Finite 0) then Finite 1 else d)" for d
  have radius: "f64_is_finite (pos d) \<and> 0 < f64_val (pos d) \<longleftrightarrow> \<not> (\<not> f64_is_finite d \<or> f64_lt d (Finite 0))" for d
    by (cases d) (auto simp: pos_def f64_eq_def f64_lt_finite)
  have "fi_distance_miles (live_input (positive_radius a)) = map_option pos (af_distance_miles a)"
      "fi_lat (live_input (positive_radius a)) = af_lat a"
    by (simp_all add: live_input_def positive_radius_def pos_def [abs_def])
  then show ?thesis
    by (cases "af_distance_miles a") (simp_all add: archive_distance_def radius_valid_def both radius)
qed

lemma same_parameters:
  "bbox_valid (live_input (positive_radius a)) = bbox_valid (live_input a)"
  "center_valid (live_input (positive_radius a)) = center_valid (live_input a)"
  "size_valid (live_input (positive_radius a)) = size_valid (live_input a)"
  by (simp_all add: bbox_valid_def center_valid_def size_valid_def live_input_def positive_radius_def)

lemma typed_query_columns:
  "af_lat (typed_query a l c) = af_lat a" "af_lon (typed_query a l c) = af_lon a"
  "af_distance_miles (typed_query a l c) = af_distance_miles a"
  "af_min_lat (typed_query a l c) = af_min_lat a" "af_max_lat (typed_query a l c) = af_max_lat a"
  "af_min_lon (typed_query a l c) = af_min_lon a" "af_max_lon (typed_query a l c) = af_max_lon a"
  "af_min_size (typed_query a l c) = af_min_size a" "af_max_size (typed_query a l c) = af_max_size a"
  by (simp_all add: typed_query_def archive_query_def)

lemma live_accepts:
  "(\<exists>f. filter_try_from_input q = Inr f) \<longleftrightarrow> size_valid q \<and> center_valid q \<and> radius_valid q \<and> bbox_valid q"
  by (auto simp: filter_from_input_Inr location_from_input_Inr)

lemma product_list_validate_Inr:
  "product_list_validate (typed_query a l c) = Inr u \<longleftrightarrow> (\<exists>f. filter_try_from_input (live_input (positive_radius a)) = Inr f)"
proof (cases "center_valid (live_input a)")
  case True
  have "validate_archive_size_inputs (af_min_size a) (af_max_size a) = Inr v \<longleftrightarrow> size_valid (live_input a)" for v
    by (auto simp: validate_archive_size_inputs_def size_inputs_bad_def size_valid_def live_input_def split: option.split)
  then show ?thesis
    using archive_distance_Inr [OF True] True
    by (simp add: product_list_validate_def validate_archive_spatial_inputs_def typed_query_columns sbind_Inr
        archive_bbox_Inr archive_center_Inr live_accepts same_parameters) blast
next
  case False
  then show ?thesis
    by (simp add: product_list_validate_def validate_archive_spatial_inputs_def typed_query_columns sbind_Inr
        archive_center_Inr live_accepts same_parameters)
qed

lemma query_of_input:
  "into_product_list_query a default_limit limit cursor = Inr q \<longleftrightarrow>
     flags_ok a \<and> product_list_validate (typed_query a (case limit of None \<Rightarrow> default_limit | Some l \<Rightarrow> l) cursor) = Inr () \<and>
     q = typed_query a (case limit of None \<Rightarrow> default_limit | Some l \<Rightarrow> l) cursor"
  unfolding into_product_list_query_def typed_query_def Let_def sbind_Inr archive_bool_Inr flags_ok_def
  by auto

text \<open>
  C19.  The archive and the live stream agree on their parameters: the archive accepts a query exactly when
  its flags are blank or spelled as booleans and the live filter accepts the same parameters, a radius of
  zero, which only the archive admits, counting as positive; and the accepted query has the columns of
  the input, the flags as the live filter reads them, the limit or its default, and the cursor.
\<close>

theorem archive_agrees_with_live:
  "into_product_list_query a default_limit limit cursor = Inr q \<longleftrightarrow>
     flags_ok a \<and> (\<exists>f. filter_try_from_input (live_input (positive_radius a)) = Inr f) \<and>
     q = typed_query a (case limit of None \<Rightarrow> default_limit | Some l \<Rightarrow> l) cursor"
  by (simp add: query_of_input product_list_validate_Inr)

text \<open>The aggregate over cells needs a box and a precision between one and six on top.\<close>

lemma cell_aggregate_accepted:
  "build_cell_aggregate_query a metric precision limit = Inr r \<longleftrightarrow>
     (\<exists>q. into_product_list_query a 100 (Some 100) None = Inr q \<and> trim metric = ''product_count'' \<and>
        given_bbox (live_input a) \<noteq> None \<and> 1 \<le> precision \<and> precision \<le> 6 \<and>
        r = \<lparr>cq_filters = q, cq_measure = CellProductCount, cq_precision = precision,
             cq_limit = (case limit of None \<Rightarrow> 100 | Some l \<Rightarrow> l)\<rparr>)"
proof -
  have box: "validate_required_bbox_for_cells q = Inr u \<longleftrightarrow> given_bbox (live_input a) \<noteq> None"
    if "into_product_list_query a 100 (Some 100) None = Inr q" for q u
    using that by (auto simp: query_of_input typed_query_columns validate_required_bbox_for_cells_def given_bbox_def live_input_def
        split: option.splits)
  have valid: "product_list_validate q = Inr u" if "into_product_list_query a 100 (Some 100) None = Inr q" for q u
    using that by (auto simp: query_of_input)
  have one: "m = CellProductCount" "cell_measure_as_str m = ''product_count''" for m by (cases m; simp)+
  show ?thesis
    by (auto simp: build_cell_aggregate_query_def cell_aggregate_validate_def Let_def sbind_Inr box valid
        cell_measures.required_arg one split: if_splits)
qed

text \<open>A cursor survives the round trip when serde and base64 do.\<close>

lemma cursor_round_trip:
  assumes "\<And>v bs. cc_to_vec codec v = Inr bs \<Longrightarrow> cc_from_slice codec bs = Inr v"
    "\<And>bs. cc_decode codec (cc_encode codec bs) = Inr bs" "encode_cursor codec v = Inr s"
  shows "decode_optional_cursor codec (Some s) = Inr (Some v)"
proof -
  obtain bs where "cc_to_vec codec v = Inr bs" "s = cc_encode codec bs"
    using assms(3) by (cases "cc_to_vec codec v") (auto simp: encode_cursor_def sbind_def map_err_def)
  with assms(1,2) show ?thesis by (simp add: decode_optional_cursor_def sbind_def map_err_def)
qed

end
