(* ===== verification/Spec2Isabelle.thy ===== *)
theory Spec2Isabelle
  imports Qbt_Assembler Qbt_Client Qbt_Relay_System Live_Retained Persist_Runtime Parser_Codes Parser_Ugc Parser_Envelope
    Alert_Source Parser_Cap Service_Archive
begin

text \<open>
  A verification development for emwin-rs, a Rust workspace that receives NOAA EMWIN products over the
  Quick Block Transfer (QBT) protocol, reassembles them, relays the byte stream to other clients, parses
  the bulletins and stores them.

  \<^bold>\<open>The program.\<close>  A receiver client connects to one of a list of servers, logs on, and feeds what it
  reads to a streaming decoder.  The decoder finds frames in the XOR-coded byte stream and emits data
  blocks, server lists and warnings; a file assembler turns blocks into files.  A relay accepts
  downstream connections and forwards the upstream bytes to authenticated clients within a buffer
  budget, pausing while the quality of the upstream is low.  Completed files are kept in a bounded store
  in memory and handed to a persistence runtime, which writes blobs and metadata with retries.  The
  parser recovers the header of a bulletin from its transport framing and reads its geographic and
  event codes, its polygons, motions and tags; filters select files by what was parsed.  An alert worker matches what was persisted against rules and delivers notifications
  with leases and retries.

  \<^bold>\<open>Theories.\<close>  Source paths are relative to src/crates.

  \<^item> \<open>Emwin_Prelude\<close>, \<open>Rust_Str\<close>, \<open>Rust_Lines\<close>, \<open>Rust_Float\<close>, \<open>Rust_F64\<close>: the shared library.  Integers are words of the source's
    width (a usize is a nat), with saturating addition; a str is a list of bytes (as \<^typ>\<open>char\<close>), with
    searching, splitting, trimming of Unicode white space, decimal numbers, UTF-8 validation and slices
    that panic (\<open>Panic\<close>) off a character boundary, lines and words; an f64 is a rational number with rounding to 53 bits, or a negative zero, an infinity or
    a NaN, with arithmetic, comparison, parsing of decimal numbers and formatting.
  \<^item> \<open>Qbt_Protocol\<close>: emwin-protocol/src/qbt_receiver/protocol (model, auth, checksum, compression,
    server_list, server_list_wire), config and error.
  \<^item> \<open>Qbt_Codec\<close>, \<open>Qbt_Stream\<close>: protocol/codec.rs.  The decoder is the record \<open>decoder\<close>; each handler of the
    state machine is a definition, \<open>decode_step\<close> dispatches and \<open>feed\<close> is the public entry.  The loop
    of \<open>feed\<close> runs on a measure, so it is total.  \<open>Qbt_Stream\<close> proves it independent of the cutting into
    reads (locale \<open>stream_decoder\<close>), bounded, sound for checksums and numbering, complete for
    well-formed frames, and self-stabilising on padding.
  \<^item> \<open>Qbt_Assembler\<close>: file/assembler.rs.  The invariant bounds the inflight table, the duplicate cache and
    its queue; the assembler refines a reference that collects parts per product (locale
    \<open>segment_assembler\<close>).
  \<^item> \<open>Runtime_Support\<close>, \<open>Qbt_Client\<close>: runtime_support.rs and qbt_receiver/client.  The connection loop is a
    step function on explicit inputs (timer ticks, reads, results of connecting, shutdown), with its
    reachable states as an inductive predicate; the event channel reports drops (locale
    \<open>drop_reporter\<close>).
  \<^item> \<open>Qbt_Relay\<close>, \<open>Qbt_Relay_System\<close>: qbt_receiver/relay.  Sessions, their writers, accept loop, upstream
    loop and quality monitor are steps on the shared state; \<open>relay_step\<close> interleaves them.
  \<^item> \<open>Live_Retained\<close>: emwin-live/src/retained.rs, refining a list of the newest file per name (locale
    \<open>bounded_store\<close>).
  \<^item> \<open>Persist_Store\<close>, \<open>Persist_Runtime\<close>: emwin-db/src/error.rs, writer.rs and runtime.  Queue, semaphore,
    retry policy and worker; locale \<open>stable_writer\<close> is what the clean-up relies on and is interpreted
    by the object-store writer.
  \<^item> \<open>Parser_Time\<close>, \<open>Parser_Codes\<close>, \<open>Parser_Ugc\<close>: emwin-parser/src/issue.rs, time.rs and body (support, vtec,
    hvtec, ugc).  Partial timestamps (locale \<open>time_resolver\<close>), slash-delimited codes (locale
    \<open>slash_format\<close>, interpreted for both formats) and UGC sections.
  \<^item> \<open>Parser_Header\<close>, \<open>Parser_Envelope\<close>: emwin-parser/src/header, pipeline/normalize.rs, pipeline/envelope.rs,
    data/graphics.rs and the file-name rules of data/mod.rs.  Conditioning of transport bytes, WMO and
    AFOS lines, timestamps, enrichment, and the decision on the kind of a product.
  \<^item> \<open>Parser_Geo\<close>, \<open>Parser_LatLon\<close>, \<open>Parser_Motion\<close>, \<open>Parser_Hail\<close>: emwin-parser/src/geo.rs and body (latlon, time_mot_loc,
    wind_hail).  Polygons, motions and tags from candidate lines to entries with issues, with the panics of
    byte slices; one regular expression, without need for backtracking, is matched by hand.
  \<^item> \<open>Parser_Body\<close>, \<open>Parser_Cap\<close>: body/vtec_events.rs, enrich.rs and cap.rs.  Segmentation, extraction plans and
    quality checks over the parsers above, and the projection of CAP messages into the same bodies.
  \<^item> \<open>Service_Filter\<close>: emwin-service/src/filter.  Parameters, wildcards and the decision on a file; \<open>glob\<close> and
    \<open>selected\<close> are the specifications it meets.
  \<^item> \<open>Service_Archive\<close>: emwin-service/src/archive/query.rs.  Queries, their enumerations (locale \<open>named_enum\<close>, interpreted
    for each), validation, builders and cursors.
  \<^item> \<open>Alert_Store\<close>: emwin-service/src/alerting.rs and emwin-db/src/postgres/alerting.rs with the schema of its
    migration.  The record \<open>alert_db\<close> has a list of rows per table and each SQL statement is a function on
    it, given the clock of the database and the rows locked by others.
  \<^item> \<open>Alert_Worker\<close>: emwin-alert/src/worker.rs, over the record \<open>alert_env\<close> of calls that may fail.
    \<open>Alert_Delivery\<close> and \<open>Alert_Source\<close> hold its theorems: locale \<open>attempt_sink\<close> is what finalising an attempt
    relies on, interpreted by \<open>pg_env\<close> on the tables; \<open>alert_reach\<close> are the states that workers,
    administration and arrivals can lead to, statement by statement, with clocks of workers that may differ
    from the one of the database by less than a lease or a backoff.

  \<^bold>\<open>Parameters.\<close>  What belongs to other crates is an argument: zlib and the timestamp parser
  (\<open>decode_env\<close>), server list files (\<open>client_env\<close>), the object store (\<open>object_store\<close>), blob writer and
  metadata sink (\<open>backend\<close>), the chrono calendar (\<open>calendar\<close>), the catalogues of counties, zones, gauges and
  products, the decoding of bstr and the regular expressions for graphics (\<open>parser_env\<close>), HTTP, templates,
  JSON, HMAC and the file filters of rules (\<open>alert_env\<close>), trigonometry (\<open>libm\<close>), the XML reader and
  RFC 3339 times of CAP (\<open>cap_env\<close>), serde and base64 for cursors (\<open>cursor_codec\<close>), the plan of a product by its identifier.
  Clocks are arguments of the operations that read them; sockets and tasks are inputs of the steps.

  \<^bold>\<open>What the theorems show.\<close>  C1 to C5 the decoder, C6 and C7 the assembler, C8 to C11 the client, C14 and C15 the relay under every interleaving, C16 (below) that the relay's logon
  parser accepts what the client writes, C17 and C18 the store, C20 to C24 persistence (termination of a
  request, clean-up, queue history, wake-ups, keys), C25 timestamps, C26 and C28 VTEC and HVTEC, C29, C30 and
  C32 UGC sections, C31 that polygons are closed rings and their parser never panics, C33 that segmentation
  loses no event, C13 and C27 the file filters against their specifications, C19 that
  the archive accepts what the live filter does, C34 to C36 headers, C37 and C38
  the envelope, C12 the pass of the alert worker over source events, C39 the one over
  delivery attempts, C40 the delivery protocol under every interleaving.

  \<^bold>\<open>Bounds.\<close>  No definition runs on fuel: loops are structural, or total by a measure (the bytes left for
  the decoder, the lines left for the UGC scan, the retry budget for a request).  The loop of the alert worker takes the
  number of passes until the shutdown.

  \<^bold>\<open>Not modelled.\<close>  The Weather Wire (XMPP) receiver, the ingest adapters and the live runtime that glue
  the parts together; the other parsers of the parser crate (classification, specialized bulletins, mostly
  read by regular expressions) and its generated tables; the simulation of alert rules; the rest of the PostgreSQL sink, HTTP API and command line, which
  are SQL, routing and formatting.  The alert statements are atomic steps; faults of the database in
  the middle of a pass are values of \<open>alert_env\<close>, and C40 covers a worker that stops anywhere.  Logging
  and metric texts are left out throughout.
\<close>

section \<open>Client and relay\<close>

text \<open>
  C16.  A relay recognises the logon of the client: however the bytes that the receiver writes after
  connecting (and on every re-authentication) are cut into reads, the relay's parser reports the
  address exactly once, at the read that completes the message, and ends with an empty text.
\<close>

theorem relay_recognises_client_logon:
  assumes "plain_email e" "concat ws = logon_bytes e" "\<forall>w \<in> set ws. w \<noteq> []"
    "length (logon_bytes e) \<le> AUTH_TEXT_LIMIT"
  shows "consume_all [] ws = Some ([], replicate (length ws - 1) None @ [Some e])"
proof -
  define ss where "ss = map (str_of \<circ> xor_ff) ws"
  have ws: "map (xor_ff \<circ> bytes_of) ss = ws" by (simp add: ss_def comp_def map_idI)
  have "xor_ff (concat ws) = bytes_of (build_logon_message e)" using assms(2) by (simp add: logon_bytes_def)
  moreover have "str_of (xor_ff (concat ws)) = concat ss"
    unfolding ss_def by (induction ws) (simp_all add: xor_ff_def str_of_def)
  ultimately have "concat ss = build_logon_message e" by simp
  moreover have "ss \<noteq> []"
    using calculation by (auto simp: build_logon_message_def LOGON_PREFIX_def)
  moreover have "\<forall>s \<in> set ss. s \<noteq> []" using assms(3) by (simp add: ss_def xor_ff_def str_of_def)
  moreover have "length ss = length ws" by (simp add: ss_def)
  moreover have "length (build_logon_message e) \<le> AUTH_TEXT_LIMIT"
    using assms(4) by (simp add: logon_bytes_def)
  ultimately show ?thesis
    using consume_logon [OF assms(1), of "[]" ss] ws by simp
qed

theorem relay_recognises_client_logon_witness:
  "consume_all [] (map (\<lambda>b. [b]) (logon_bytes ''ops@example.org'')) =
     Some ([], replicate (length (logon_bytes ''ops@example.org'') - 1) None @ [Some ''ops@example.org''])"
proof -
  have "plain_email ''ops@example.org''"
    by (simp add: plain_email_def ascii_text_def) code_simp
  moreover have "length (logon_bytes ''ops@example.org'') \<le> AUTH_TEXT_LIMIT"
    by (simp add: logon_bytes_def build_logon_message_def LOGON_PREFIX_def LOGON_SUFFIX_def AUTH_TEXT_LIMIT_def)
  moreover have "concat (map (\<lambda>b. [b]) w) = w" for w :: bytes by (induction w) simp_all
  ultimately show ?thesis
    using relay_recognises_client_logon [of "''ops@example.org''" "map (\<lambda>b. [b]) (logon_bytes ''ops@example.org'')"]
    by simp
qed

end
